(* ===== verification/Prelude.thy ===== *)
theory Prelude
  imports Main "HOL-Library.Word"
begin

unbundle bit_operations_syntax

text \<open>
  What the components share: the machine integers of \<^verbatim>\<open>lib/types.h\<close>, a byte
  addressed memory with the accesses that the code makes through pointers (32-bit
  fields, \<^verbatim>\<open>strncpy\<close>, \<^verbatim>\<open>memset\<close>, \<^verbatim>\<open>strcmp\<close>), and the lemmas
  about a read after a write at another place (collection \<open>mem_simps\<close>).
  The layout is that of a little-endian machine, and the fields are unaligned accesses
  where the code makes them so.
\<close>

section \<open>Machine integers\<close>

type_synonym u8 = "8 word"
type_synonym u16 = "16 word"
type_synonym u32 = "32 word"
type_synonym i16 = "16 word"
type_synonym i32 = "32 word"

named_theorems mem_simps

lemma unat_u32_lt [simp]: "unat (x :: u32) < 4294967296"
  using unsigned_less [of x] by simp

lemma unat_of_nat_u32: "n < 4294967296 \<Longrightarrow> unat (of_nat n :: u32) = n"
  by (simp add: unat_of_nat take_bit_nat_eq_self_iff)

lemma unat_u8_lt [simp]: "unat (x :: u8) < 256"
  using unsigned_less [of x] by simp

section \<open>Memory\<close>

type_synonym mem = "nat \<Rightarrow> u8"

definition byte_of :: "u32 \<Rightarrow> nat \<Rightarrow> u8" where
  "byte_of v i = ucast (drop_bit (8 * i) v)"

definition rd32 :: "mem \<Rightarrow> nat \<Rightarrow> u32" where
  "rd32 m a = ucast (m a) OR push_bit 8 (ucast (m (a + 1)))
    OR push_bit 16 (ucast (m (a + 2))) OR push_bit 24 (ucast (m (a + 3)))"

definition wr32 :: "mem \<Rightarrow> nat \<Rightarrow> u32 \<Rightarrow> mem" where
  "wr32 m a v = (\<lambda>x. if a \<le> x \<and> x < a + 4 then byte_of v (x - a) else m x)"

definition c_memset0 :: "mem \<Rightarrow> nat \<Rightarrow> nat \<Rightarrow> mem" where
  "c_memset0 m a n = (\<lambda>x. if a \<le> x \<and> x < a + n then 0 else m x)"

text \<open>\<^verbatim>\<open>strncpy\<close>: the bytes of the string, then zero bytes up to the length of the
  field. A string as long as the field is stored without a terminating zero byte.\<close>

definition char_byte :: "char \<Rightarrow> u8" where
  "char_byte c = of_char c"

definition c_strncpy :: "mem \<Rightarrow> nat \<Rightarrow> string \<Rightarrow> nat \<Rightarrow> mem" where
  "c_strncpy m a s n =
     (\<lambda>x. if a \<le> x \<and> x < a + n
          then (if x - a < length s then char_byte (s ! (x - a)) else 0)
          else m x)"

text \<open>\<^verbatim>\<open>strcmp(p, s) == 0\<close> for a pointer into the memory and a C string \<open>s\<close>
  (no zero byte inside): it reads on until the first difference.\<close>

fun c_streq :: "mem \<Rightarrow> nat \<Rightarrow> string \<Rightarrow> bool" where
  "c_streq m a [] = (m a = 0)"
| "c_streq m a (c # cs) = (m a = char_byte c \<and> c_streq m (a + 1) cs)"

definition c_string :: "string \<Rightarrow> bool" where
  "c_string s = (CHR 0x00 \<notin> set s)"

lemma char_byte_inj [simp]: "char_byte c = char_byte d \<longleftrightarrow> c = d"
proof
  have unat_cb: "unat (char_byte x) = of_char x" for x
  proof -
    have "char_byte x = of_nat (of_char x)" by (simp only: char_byte_def of_nat_of_char)
    moreover have "(of_char x :: nat) < 2 ^ 8"
      by (simp add: nat_of_char_less_256)
    ultimately show ?thesis by (simp add: unat_of_nat)
  qed
  assume "char_byte c = char_byte d"
  then have "(of_char c :: nat) = of_char d" by (metis unat_cb)
  then show "c = d" by simp
qed simp

lemma char_byte_zero [simp]: "char_byte c = 0 \<longleftrightarrow> c = CHR 0x00"
proof -
  have "char_byte (CHR 0x00) = 0" by (simp add: char_byte_def)
  then show ?thesis by (metis char_byte_inj)
qed

subsection \<open>Reads after writes\<close>

lemma rd32_wr32_same [simp, mem_simps]: "rd32 (wr32 m a v) a = v"
proof (rule bit_word_eqI)
  fix n assume "n < LENGTH(32)"
  then consider "n < 8" | "8 \<le> n" "n < 16" | "16 \<le> n" "n < 24" | "24 \<le> n" "n < 32"
    by fastforce
  then show "bit (rd32 (wr32 m a v) a) n = bit v n"
    by cases (auto simp: rd32_def wr32_def byte_of_def bit_or_iff bit_push_bit_iff
      bit_ucast_iff bit_drop_bit_eq)
qed

lemma rd32_cong:
  assumes "\<And>i. i < 4 \<Longrightarrow> m (a + i) = m' (a + i)"
  shows "rd32 m a = rd32 m' a"
  using assms [of 0] assms [of 1] assms [of 2] assms [of 3] by (simp add: rd32_def)

lemma rd32_wr32_other [mem_simps]:
  "a + 4 \<le> b \<or> b + 4 \<le> a \<Longrightarrow> rd32 (wr32 m b v) a = rd32 m a"
  by (rule rd32_cong) (auto simp: wr32_def)

lemma rd32_strncpy_other [mem_simps]:
  "a + 4 \<le> b \<or> b + n \<le> a \<Longrightarrow> rd32 (c_strncpy m b s n) a = rd32 m a"
  by (rule rd32_cong) (auto simp: c_strncpy_def)

lemma rd32_memset_other [mem_simps]:
  "a + 4 \<le> b \<or> b + n \<le> a \<Longrightarrow> rd32 (c_memset0 m b n) a = rd32 m a"
  by (rule rd32_cong) (auto simp: c_memset0_def)

lemma byte_wr32_other [mem_simps]: "x < b \<or> b + 4 \<le> x \<Longrightarrow> wr32 m b v x = m x"
  by (auto simp: wr32_def)

lemma byte_strncpy_other [mem_simps]: "x < b \<or> b + n \<le> x \<Longrightarrow> c_strncpy m b s n x = m x"
  by (auto simp: c_strncpy_def)

lemma byte_memset_other [mem_simps]: "x < b \<or> b + n \<le> x \<Longrightarrow> c_memset0 m b n x = m x"
  by (auto simp: c_memset0_def)

lemma byte_memset_same: "b \<le> x \<Longrightarrow> x < b + n \<Longrightarrow> c_memset0 m b n x = 0"
  by (simp add: c_memset0_def)

subsection \<open>Comparing strings in the memory\<close>

lemma c_streq_cong:
  "(\<And>i. i \<le> length s \<Longrightarrow> m (a + i) = m' (a + i)) \<Longrightarrow> c_streq m a s = c_streq m' a s"
proof (induction s arbitrary: a)
  case Nil
  then show ?case by (metis add.right_neutral c_streq.simps(1) list.size(3) le_refl)
next
  case (Cons c cs)
  have "m a = m' a" using Cons.prems [of 0] by simp
  moreover have "c_streq m (a + 1) cs = c_streq m' (a + 1) cs"
  proof (rule Cons.IH)
    fix i assume "i \<le> length cs"
    then show "m (a + 1 + i) = m' (a + 1 + i)" using Cons.prems [of "Suc i"] by simp
  qed
  ultimately show ?case by simp
qed

lemma c_streq_iff:
  "c_streq m a s \<longleftrightarrow> (\<forall>i < length s. m (a + i) = char_byte (s ! i)) \<and> m (a + length s) = 0"
proof (induction s arbitrary: a)
  case (Cons c cs)
  have "(\<forall>i < length (c # cs). m (a + i) = char_byte ((c # cs) ! i)) \<longleftrightarrow>
      m a = char_byte c \<and> (\<forall>i < length cs. m (a + 1 + i) = char_byte (cs ! i))"
    by (auto simp: less_Suc_eq_0_disj)
  then show ?case using Cons.IH [of "a + 1"] by auto
qed simp

text \<open>A C string is at most one string: two equal comparisons name the same string.\<close>

lemma c_streq_unique:
  "c_streq m a s \<Longrightarrow> c_streq m a t \<Longrightarrow> c_string s \<Longrightarrow> c_string t \<Longrightarrow> s = t"
proof (induction s arbitrary: a t)
  case Nil
  then show ?case by (cases t) (auto simp: c_string_def)
next
  case (Cons c cs)
  then show ?case by (cases t) (auto simp: c_string_def)
qed

lemma c_streq_strncpy:
  assumes "length s < n"
  shows "c_streq (c_strncpy m a s n) a s"
  using assms by (simp add: c_streq_iff c_strncpy_def)

end
