(* ===== verification/Cmm.thy ===== *)
theory Cmm
  imports Prelude
begin

text \<open>
  The configuration memory manager, \<^verbatim>\<open>lib/cmm\<close>. One shared memory segment starts with
  a \<^verbatim>\<open>cmm_t\<close> header (20 bytes) and is tiled by blocks, each a 48 byte
  \<^verbatim>\<open>cmm_block_t\<close> header followed by its data. Blocks are named by the offset of their
  header in the segment; the offset 0 is what the code writes as the segment's own address and
  ends a list. A pointer is \<open>None\<close> for \<^verbatim>\<open>NULL\<close> and \<open>Some\<close> of an offset
  otherwise.

  The memory is modelled byte by byte, so that the stale headers the code can leave behind are
  what they are in the program. Loops that follow the \<open>next\<close> fields need not end in a
  corrupted segment: their results are of type \<open>option\<close>, and \<open>None\<close> is a loop
  that never ends. The critical section of each function runs under the segment's mutex and is
  one atomic step here.
\<close>

section \<open>Layout\<close>

datatype cmm_block_type_t =
    block_type_first
  | block_type_free
  | block_type_gmm_setup
  | block_type_gmm
  | block_type_synch_setup
  | block_type_synch_transition
  | block_type_synch_synchpt
  | block_type_plcsynchsem_global_t
  | block_type_plcsynchsem_local_t
  | block_type_period
  | block_type_state_shared
  | block_type_state_module

fun block_type_num :: "cmm_block_type_t \<Rightarrow> u32" where
  "block_type_num block_type_first = 0"
| "block_type_num block_type_free = 1"
| "block_type_num block_type_gmm_setup = 2"
| "block_type_num block_type_gmm = 3"
| "block_type_num block_type_synch_setup = 4"
| "block_type_num block_type_synch_transition = 5"
| "block_type_num block_type_synch_synchpt = 6"
| "block_type_num block_type_plcsynchsem_global_t = 7"
| "block_type_num block_type_plcsynchsem_local_t = 8"
| "block_type_num block_type_period = 9"
| "block_type_num block_type_state_shared = 10"
| "block_type_num block_type_state_module = 11"

definition CMM_NAME_MAX_LEN :: nat where
  "CMM_NAME_MAX_LEN = 31"

text \<open>\<^verbatim>\<open>cmm_block_t\<close>: type at 0, name at 4, next at 36, prev at 40, size at 44.\<close>

definition sizeof_block :: nat where
  "sizeof_block = 48"

definition blk_type :: "mem \<Rightarrow> nat \<Rightarrow> u32" where
  "blk_type m b = rd32 m b"

definition blk_next :: "mem \<Rightarrow> nat \<Rightarrow> u32" where
  "blk_next m b = rd32 m (b + 36)"

definition blk_prev :: "mem \<Rightarrow> nat \<Rightarrow> u32" where
  "blk_prev m b = rd32 m (b + 40)"

definition blk_size :: "mem \<Rightarrow> nat \<Rightarrow> u32" where
  "blk_size m b = rd32 m (b + 44)"

definition set_type :: "mem \<Rightarrow> nat \<Rightarrow> u32 \<Rightarrow> mem" where
  "set_type m b v = wr32 m b v"

definition set_name :: "mem \<Rightarrow> nat \<Rightarrow> string \<Rightarrow> mem" where
  "set_name m b s = c_strncpy m (b + 4) s CMM_NAME_MAX_LEN"

definition set_next :: "mem \<Rightarrow> nat \<Rightarrow> u32 \<Rightarrow> mem" where
  "set_next m b v = wr32 m (b + 36) v"

definition set_prev :: "mem \<Rightarrow> nat \<Rightarrow> u32 \<Rightarrow> mem" where
  "set_prev m b v = wr32 m (b + 40) v"

definition set_size :: "mem \<Rightarrow> nat \<Rightarrow> u32 \<Rightarrow> mem" where
  "set_size m b v = wr32 m (b + 44) v"

definition blk_name_is :: "mem \<Rightarrow> nat \<Rightarrow> string \<Rightarrow> bool" where
  "blk_name_is m b s = c_streq m (b + 4) s"

text \<open>\<^verbatim>\<open>cmm_t\<close>: magic at 0, confmap\_size at 4, mutexid at 8, first\_block at 12,
  last\_block at 16.\<close>

definition sizeof_cmm :: nat where
  "sizeof_cmm = 20"

definition CMM_MAGIC :: u32 where
  "CMM_MAGIC = 0x3c9bd4b1"

definition cmm_magic :: "mem \<Rightarrow> u32" where
  "cmm_magic m = rd32 m 0"

definition confmap_size :: "mem \<Rightarrow> u32" where
  "confmap_size m = rd32 m 4"

definition first_block :: "mem \<Rightarrow> u32" where
  "first_block m = rd32 m 12"

definition last_block :: "mem \<Rightarrow> u32" where
  "last_block m = rd32 m 16"

definition set_last_block :: "mem \<Rightarrow> u32 \<Rightarrow> mem" where
  "set_last_block m v = wr32 m 16 v"

lemmas blk_defs = blk_type_def blk_next_def blk_prev_def blk_size_def blk_name_is_def
  set_type_def set_name_def set_next_def set_prev_def set_size_def set_last_block_def
  cmm_magic_def confmap_size_def first_block_def last_block_def
  sizeof_block_def sizeof_cmm_def CMM_NAME_MAX_LEN_def

section \<open>Operations on the segment\<close>

text \<open>
  The loop \<^verbatim>\<open>for(iter_block = first; iter_block != cmm_shm_; iter_block = next)\<close>
  of the access functions: the body updates a local state and says whether it breaks. The
  result is the local state and the offset of \<^verbatim>\<open>iter_block\<close> after the loop (0 when
  the loop ran to the end of the list).
\<close>

partial_function (option) cmm_iter ::
  "mem \<Rightarrow> (nat \<Rightarrow> 's \<Rightarrow> 's \<times> bool) \<Rightarrow> nat \<Rightarrow> 's \<Rightarrow> ('s \<times> nat) option" where
  "cmm_iter m body b s =
     (if b = 0 then Some (s, 0)
      else if snd (body b s) then Some (fst (body b s), b)
      else cmm_iter m body (unat (blk_next m b)) (fst (body b s)))"

definition count_body :: "mem \<Rightarrow> cmm_block_type_t \<Rightarrow> nat \<Rightarrow> int \<Rightarrow> int \<times> bool" where
  "count_body m t b count =
     (if blk_type m b = block_type_num t then count + 1 else count, False)"

definition best_fit_body :: "mem \<Rightarrow> u32 \<Rightarrow> nat \<Rightarrow> nat option \<Rightarrow> nat option \<times> bool" where
  "best_fit_body m num_bytes b free_block =
     (if blk_type m b = block_type_num block_type_free \<and> num_bytes \<le> blk_size m b
      then (case free_block of
              None \<Rightarrow> Some b
            | Some f \<Rightarrow> if blk_size m b < blk_size m f then Some b else Some f)
      else free_block, False)"

text \<open>Breaking up the free block found, when what is left over holds a header and some data.\<close>

definition cmm_split :: "mem \<Rightarrow> nat \<Rightarrow> u32 \<Rightarrow> mem" where
  "cmm_split m new_block num_bytes =
     (if unat num_bytes + sizeof_block < unat (blk_size m new_block) then
        let free_block = new_block + unat num_bytes + sizeof_block;
            m1 = set_type m free_block (block_type_num block_type_free);
            m2 = set_size m1 free_block
                   (blk_size m1 new_block - num_bytes - of_nat sizeof_block);
            m3 = set_size m2 new_block num_bytes;
            m4 = set_next m3 free_block (blk_next m3 new_block);
            m5 = set_prev m4 free_block (of_nat new_block);
            m6 = set_next m5 new_block (of_nat free_block)
        in if last_block m6 = blk_prev m6 free_block
           then set_last_block m6 (blk_next m6 new_block) else m6
      else m)"

text \<open>Handing out a free block: it is broken up, marked, named, and its data cleared.\<close>

definition cmm_take :: "mem \<Rightarrow> nat \<Rightarrow> cmm_block_type_t \<Rightarrow> string \<Rightarrow> u32 \<Rightarrow> mem" where
  "cmm_take m new_block t name num_bytes =
     (let m1 = cmm_split m new_block num_bytes;
          m2 = set_type m1 new_block (block_type_num t);
          m3 = set_name m2 new_block name
      in c_memset0 m3 (new_block + sizeof_block) (unat num_bytes))"

definition cmm_alloc_mem ::
  "mem \<Rightarrow> cmm_block_type_t \<Rightarrow> string \<Rightarrow> u32 \<Rightarrow> (mem \<times> nat option) option" where
  "cmm_alloc_mem m t name num_bytes =
     (case cmm_iter m (best_fit_body m num_bytes) (unat (first_block m)) None of
        None \<Rightarrow> None
      | Some (None, _) \<Rightarrow> Some (m, None)
      | Some (Some new_block, _) \<Rightarrow>
          Some (cmm_take m new_block t name num_bytes, Some (new_block + sizeof_block)))"

definition merge_pair :: "mem \<Rightarrow> nat \<Rightarrow> nat \<Rightarrow> mem \<times> int" where
  "merge_pair m cmm_block merge_block =
     (if blk_type m merge_block \<noteq> block_type_num block_type_free
         \<or> blk_type m cmm_block \<noteq> block_type_num block_type_free then (m, -1)
      else
        let m1 = set_next m cmm_block (blk_next m merge_block);
            m2 = set_size m1 cmm_block
                   (blk_size m1 cmm_block + (blk_size m1 merge_block + of_nat sizeof_block))
        in (m2, 0))"

definition cmm_merge_free_blocks :: "mem \<Rightarrow> nat \<Rightarrow> int \<Rightarrow> mem \<times> int" where
  "cmm_merge_free_blocks m cmm_block next_prev_flag =
     (if next_prev_flag = 1 then
        (if blk_next m cmm_block = 0 then (m, -1)
         else merge_pair m cmm_block (unat (blk_next m cmm_block)))
      else if next_prev_flag = -1 then
        (if blk_prev m cmm_block = 0 then (m, -1)
         else merge_pair m (unat (blk_prev m cmm_block)) cmm_block)
      else (m, -1))"

definition find_ptr_body :: "nat \<Rightarrow> nat \<Rightarrow> nat option \<Rightarrow> nat option \<times> bool" where
  "find_ptr_body ptr b del_block =
     (if b + sizeof_block = ptr then (Some b, True) else (del_block, False))"

definition cmm_free_mem :: "mem \<Rightarrow> nat \<Rightarrow> (mem \<times> int) option" where
  "cmm_free_mem m del_block_mem =
     (case cmm_iter m (find_ptr_body del_block_mem) (unat (first_block m)) None of
        None \<Rightarrow> None
      | Some (None, _) \<Rightarrow> Some (m, -1)
      | Some (Some del_block, _) \<Rightarrow>
          let m1 = set_type m del_block (block_type_num block_type_free);
              m2 = fst (cmm_merge_free_blocks m1 del_block 1);
              m3 = fst (cmm_merge_free_blocks m2 del_block (-1))
          in Some (m3, 0))"

definition find_name_body ::
  "mem \<Rightarrow> cmm_block_type_t \<Rightarrow> string \<Rightarrow> nat \<Rightarrow> unit \<Rightarrow> unit \<times> bool" where
  "find_name_body m t name b u = ((), blk_type m b = block_type_num t \<and> blk_name_is m b name)"

text \<open>The data pointer and the size of the block found.\<close>

definition cmm_find_mem ::
  "mem \<Rightarrow> cmm_block_type_t \<Rightarrow> string \<Rightarrow> (nat \<times> u32) option option" where
  "cmm_find_mem m t name =
     map_option (\<lambda>(_, b). if b = 0 then None else Some (b + sizeof_block, blk_size m b))
       (cmm_iter m (find_name_body m t name) (unat (first_block m)) ())"

definition get_index_body ::
  "mem \<Rightarrow> cmm_block_type_t \<Rightarrow> nat \<Rightarrow> u32 \<Rightarrow> u32 \<times> bool" where
  "get_index_body m t b index =
     (if blk_type m b = block_type_num t then (index - 1, index = 0) else (index, False))"

text \<open>The data pointer, the size and the address of the name of the block found.\<close>

definition cmm_get_mem ::
  "mem \<Rightarrow> cmm_block_type_t \<Rightarrow> u32 \<Rightarrow> (nat \<times> u32 \<times> nat) option option" where
  "cmm_get_mem m t index =
     map_option (\<lambda>(_, b). if b = 0 then None
                          else Some (b + sizeof_block, blk_size m b, b + 4))
       (cmm_iter m (get_index_body m t) (unat (first_block m)) index)"

end
