(* ===== verification/CmmTiling.thy ===== *)
theory CmmTiling
  imports Cmm
begin

section \<open>Reading and writing headers\<close>

definition blk_end :: "mem \<Rightarrow> nat \<Rightarrow> nat" where
  "blk_end m b = b + sizeof_block + unat (blk_size m b)"

definition agree_on :: "mem \<Rightarrow> mem \<Rightarrow> nat \<Rightarrow> nat \<Rightarrow> bool" where
  "agree_on m m' a z \<longleftrightarrow> (\<forall>x. a \<le> x \<and> x < z \<longrightarrow> m' x = m x)"

lemma agree_onD: "agree_on m m' a z \<Longrightarrow> a \<le> x \<Longrightarrow> x < z \<Longrightarrow> m' x = m x"
  by (simp add: agree_on_def)

lemma agree_on_refl [simp]: "agree_on m m a z"
  by (simp add: agree_on_def)

lemma agree_on_trans: "agree_on m m' a z \<Longrightarrow> agree_on m' m'' a z \<Longrightarrow> agree_on m m'' a z"
  by (simp add: agree_on_def)

lemma agree_on_sub: "agree_on m m' a z \<Longrightarrow> a \<le> a' \<Longrightarrow> z' \<le> z \<Longrightarrow> agree_on m m' a' z'"
  by (auto simp: agree_on_def)

text \<open>A write between \<open>u\<close> and \<open>v\<close> leaves what ends before or starts after it alone.\<close>

lemma agree_outside:
  "agree_on m m' 0 u \<Longrightarrow> (\<And>y. agree_on m m' v y) \<Longrightarrow> z \<le> u \<or> v \<le> a \<Longrightarrow> agree_on m m' a z"
  by (force simp: agree_on_def)

lemma agree_rd32: "agree_on m m' a z \<Longrightarrow> a \<le> x \<Longrightarrow> x + 4 \<le> z \<Longrightarrow> rd32 m' x = rd32 m x"
  by (rule rd32_cong) (auto simp: agree_on_def)

lemma agree_wr32: "z \<le> b \<or> b + 4 \<le> a \<Longrightarrow> agree_on m (wr32 m b v) a z"
  by (auto simp: agree_on_def wr32_def)

lemma agree_strncpy: "z \<le> b \<or> b + n \<le> a \<Longrightarrow> agree_on m (c_strncpy m b s n) a z"
  by (auto simp: agree_on_def c_strncpy_def)

lemma agree_memset: "z \<le> b \<or> b + n \<le> a \<Longrightarrow> agree_on m (c_memset0 m b n) a z"
  by (auto simp: agree_on_def c_memset0_def)

lemmas agree_writes = agree_wr32 agree_strncpy agree_memset

lemma agree_hdr:
  assumes "agree_on m m' b (b + 48)"
  shows "blk_type m' b = blk_type m b" "blk_next m' b = blk_next m b"
    "blk_prev m' b = blk_prev m b" "blk_size m' b = blk_size m b" "blk_end m' b = blk_end m b"
  using assms by (simp_all add: blk_defs blk_end_def agree_rd32)

text \<open>The first 48 bytes of a block determine which names it answers to, when the byte after
  the name field holds zero or the name is shorter than the field.\<close>

lemma agree_name:
  assumes "agree_on m m' b (b + 48)" "length s \<le> 43"
  shows "blk_name_is m' b s = blk_name_is m b s"
  unfolding blk_name_is_def by (rule c_streq_cong) (use assms in \<open>auto simp: agree_on_def\<close>)

section \<open>The chain of blocks\<close>

text \<open>
  The blocks \<open>bs\<close> follow each other from offset \<open>a\<close> to \<open>z\<close> without a gap, and each
  \<open>next\<close> field holds the offset where the block ends, or 0 when that is the end \<open>e\<close> of
  the segment.
\<close>

fun seg :: "mem \<Rightarrow> nat \<Rightarrow> nat \<Rightarrow> nat list \<Rightarrow> nat \<Rightarrow> bool" where
  "seg m e a [] z = (a = z)"
| "seg m e a (b # bs) z =
     (b = a \<and> unat (blk_next m b) = (if blk_end m b = e then 0 else blk_end m b)
      \<and> seg m e (blk_end m b) bs z)"

lemma seg_append: "seg m e a (xs @ ys) z \<longleftrightarrow> (\<exists>y. seg m e a xs y \<and> seg m e y ys z)"
  by (induction xs arbitrary: a) auto

lemma seg_le: "seg m e a bs z \<Longrightarrow> a \<le> z"
proof (induction bs arbitrary: a)
  case (Cons b bs)
  then have "blk_end m b \<le> z" "b = a" by auto
  then show ?case by (simp add: blk_end_def)
qed simp

lemma seg_bounds: "seg m e a bs z \<Longrightarrow> b \<in> set bs \<Longrightarrow> a \<le> b \<and> b + 48 \<le> blk_end m b \<and> blk_end m b \<le> z"
proof (induction bs arbitrary: a)
  case (Cons c bs)
  then show ?case
    using seg_le [of m e "blk_end m c" bs z]
    by (force simp: blk_end_def sizeof_block_def)
qed simp

lemma seg_split:
  assumes "seg m e a bs z" "b \<in> set bs"
  obtains xs ys where "bs = xs @ b # ys" "seg m e a xs b" "seg m e (blk_end m b) ys z"
    "unat (blk_next m b) = (if blk_end m b = e then 0 else blk_end m b)"
proof -
  from assms(2) obtain xs ys where "bs = xs @ b # ys" by (meson split_list)
  with assms(1) that show ?thesis by (auto simp: seg_append)
qed

lemma seg_agree: "seg m e a bs z \<Longrightarrow> agree_on m m' a z \<Longrightarrow> seg m' e a bs z"
proof (induction bs arbitrary: a)
  case (Cons b bs)
  have b: "b = a" "seg m e (blk_end m b) bs z" "b + 48 \<le> blk_end m b" "blk_end m b \<le> z"
    using Cons.prems(1) seg_le [of m e "blk_end m b" bs z]
    by (auto simp: blk_end_def sizeof_block_def)
  then have "agree_on m m' b (b + 48)" using Cons.prems(2) by (auto intro: agree_on_sub)
  note h = agree_hdr [OF this]
  have "seg m' e (blk_end m b) bs z"
    using b Cons.prems(2) by (auto intro!: Cons.IH agree_on_sub [of m m' a z])
  then show ?case using Cons.prems(1) h by auto
qed simp

lemma seg_sorted: "seg m e a bs z \<Longrightarrow> sorted_wrt (<) bs"
proof (induction bs arbitrary: a)
  case (Cons b bs)
  then have "\<forall>c \<in> set bs. blk_end m b \<le> c" using seg_bounds by fastforce
  then show ?case using Cons by (auto simp: blk_end_def sizeof_block_def)
qed simp

lemma seg_distinct: "seg m e a bs z \<Longrightarrow> distinct bs"
  using seg_sorted strict_sorted_iff by blast

text \<open>Two blocks of a chain do not overlap.\<close>

lemma seg_disjoint:
  assumes "seg m e a bs z" "b \<in> set bs" "c \<in> set bs" "b \<noteq> c"
  shows "blk_end m b \<le> c \<or> blk_end m c \<le> b"
  using assms(1) assms(2)
proof (rule seg_split)
  fix xs ys
  assume "bs = xs @ b # ys" "seg m e a xs b" "seg m e (blk_end m b) ys z"
  with assms(3,4) show ?thesis
    using seg_bounds [of m e a xs b c] seg_bounds [of m e "blk_end m b" ys z c] by auto
qed

section \<open>Loops over the chain\<close>

fun iter_list :: "(nat \<Rightarrow> 's \<Rightarrow> 's \<times> bool) \<Rightarrow> nat list \<Rightarrow> 's \<Rightarrow> 's \<times> nat" where
  "iter_list body [] s = (s, 0)"
| "iter_list body (b # bs) s =
     (if snd (body b s) then (fst (body b s), b) else iter_list body bs (fst (body b s)))"

lemma cmm_iter_0 [simp]: "cmm_iter m body 0 s = Some (s, 0)"
  by (simp add: cmm_iter.simps)

lemma cmm_iter_seg:
  assumes "seg m e a bs e" "0 < a" "p = (if a = e then 0 else a)"
  shows "cmm_iter m body p s = Some (iter_list body bs s)"
  using assms
proof (induction bs arbitrary: a p s)
  case Nil
  then show ?case by simp
next
  case (Cons b bs)
  let ?n = "unat (blk_next m b)"
  have b: "b = a" "?n = (if blk_end m b = e then 0 else blk_end m b)"
    "seg m e (blk_end m b) bs e"
    using Cons.prems(1) by auto
  have "a < e" using seg_le [OF b(3)] b(1) by (simp add: blk_end_def sizeof_block_def)
  then have "cmm_iter m body p s =
      (if snd (body b s) then Some (fst (body b s), b) else cmm_iter m body ?n (fst (body b s)))"
    using Cons.prems b(1) by (subst cmm_iter.simps) simp
  moreover have "cmm_iter m body ?n s' = Some (iter_list body bs s')" for s'
    using Cons.IH [OF b(3) _ b(2)] by (simp add: blk_end_def sizeof_block_def)
  ultimately show ?case by simp
qed

section \<open>The invariant\<close>

text \<open>The whole of the segment after its header is tiled by blocks.\<close>

definition cmm_chain :: "mem \<Rightarrow> nat list \<Rightarrow> bool" where
  "cmm_chain m bs \<longleftrightarrow> cmm_magic m = CMM_MAGIC \<and> first_block m = of_nat sizeof_cmm
     \<and> bs \<noteq> [] \<and> seg m (unat (confmap_size m)) sizeof_cmm bs (unat (confmap_size m))"

definition cmm_inv :: "mem \<Rightarrow> bool" where
  "cmm_inv m \<longleftrightarrow> (\<exists>bs. cmm_chain m bs)"

lemma first_block_20: "first_block m = of_nat sizeof_cmm \<Longrightarrow> unat (first_block m) = 20"
  by (simp add: sizeof_cmm_def)

lemma chain_seg:
  "cmm_chain m bs \<Longrightarrow> seg m (unat (confmap_size m)) 20 bs (unat (confmap_size m))"
  by (simp add: cmm_chain_def sizeof_cmm_def)

lemma chain_bounds:
  assumes "cmm_chain m bs" "b \<in> set bs"
  shows "20 \<le> b" "b + 48 \<le> blk_end m b" "blk_end m b \<le> unat (confmap_size m)"
    "blk_end m b < 4294967296"
proof -
  show "20 \<le> b" "b + 48 \<le> blk_end m b" "blk_end m b \<le> unat (confmap_size m)"
    using seg_bounds [OF chain_seg [OF assms(1)] assms(2)] by auto
  then show "blk_end m b < 4294967296"
    using unat_u32_lt [of "confmap_size m"] by linarith
qed

lemma chain_iter:
  assumes "cmm_chain m bs"
  shows "cmm_iter m body (unat (first_block m)) s = Some (iter_list body bs s)"
proof -
  have ne: "bs \<noteq> []" and f: "unat (first_block m) = 20"
    using assms first_block_20 by (auto simp: cmm_chain_def)
  have "20 \<le> hd bs" "hd bs + 48 \<le> unat (confmap_size m)"
    using chain_bounds [OF assms hd_in_set [OF ne]] by auto
  then show ?thesis using cmm_iter_seg [OF chain_seg [OF assms]] f by simp
qed

lemma chain_unique: "cmm_chain m bs \<Longrightarrow> cmm_chain m cs \<Longrightarrow> bs = cs"
proof -
  have "seg m e a bs e \<Longrightarrow> seg m e a cs e \<Longrightarrow> bs = cs" for e a
  proof (induction bs arbitrary: a cs)
    case Nil
    then show ?case
      using seg_bounds [of m e a cs e "hd cs"] by (cases cs) auto
  next
    case (Cons b bs)
    then have "a < e" using seg_bounds [of m e a "b # bs" e b] by auto
    then obtain c ds where "cs = c # ds" using Cons.prems(2) by (cases cs) auto
    with Cons show ?case by auto
  qed
  then show "cmm_chain m bs \<Longrightarrow> cmm_chain m cs \<Longrightarrow> bs = cs"
    by (auto simp: cmm_chain_def)
qed

lemma chain_disjoint:
  "cmm_chain m bs \<Longrightarrow> b \<in> set bs \<Longrightarrow> c \<in> set bs \<Longrightarrow> b \<noteq> c \<Longrightarrow> blk_end m b \<le> c \<or> blk_end m c \<le> b"
  unfolding cmm_chain_def using seg_disjoint by blast

end
