(* ===== verification/CmmAlloc.thy ===== *)
theory CmmAlloc
  imports CmmTiling
begin

section \<open>Breaking up a block\<close>

definition splits :: "mem \<Rightarrow> nat \<Rightarrow> u32 \<Rightarrow> bool" where
  "splits m b n \<longleftrightarrow> unat n + sizeof_block < unat (blk_size m b)"

definition rest_of :: "nat \<Rightarrow> u32 \<Rightarrow> nat" where
  "rest_of b n = b + unat n + sizeof_block"

lemma size_rest:
  assumes "splits m b n"
  shows "unat (blk_size m b - n - 48) = unat (blk_size m b) - unat n - 48"
proof -
  have n: "unat n + 48 < unat (blk_size m b)"
    using assms by (simp add: splits_def sizeof_block_def)
  then have "unat (blk_size m b - n) = unat (blk_size m b) - unat n"
    by (intro unat_sub) (simp add: word_le_nat_alt)
  moreover from this n have "(48 :: u32) \<le> blk_size m b - n"
    by (simp add: word_le_nat_alt)
  ultimately show ?thesis by (simp add: unat_sub)
qed

lemma split_no: "\<not> splits m b n \<Longrightarrow> cmm_split m b n = m"
  by (simp add: cmm_split_def splits_def)

lemma split_yes:
  assumes "splits m b n" "20 \<le> b" "q = rest_of b n"
  shows "\<exists>m6. m6 = wr32 (wr32 (wr32 (wr32 (wr32 (wr32 m q 1) (q + 44) (blk_size m b - n - 48))
      (b + 44) n) (q + 36) (blk_next m b)) (q + 40) (of_nat b)) (b + 36) (of_nat q)
    \<and> cmm_split m b n = (if last_block m = of_nat b then wr32 m6 16 (of_nat q) else m6)"
  using assms
  by (simp add: cmm_split_def splits_def rest_of_def blk_defs Let_def mem_simps)

lemma split_fields:
  assumes sp: "splits m b n" and b: "20 \<le> b" and q: "q = rest_of b n"
  shows "blk_type (cmm_split m b n) q = 1"
    "blk_size (cmm_split m b n) q = blk_size m b - n - 48"
    "blk_next (cmm_split m b n) q = blk_next m b"
    "blk_prev (cmm_split m b n) q = of_nat b"
    "blk_size (cmm_split m b n) b = n"
    "blk_next (cmm_split m b n) b = of_nat q"
    "blk_prev (cmm_split m b n) b = blk_prev m b"
    "agree_on m (cmm_split m b n) 0 16"
    "agree_on m (cmm_split m b n) 20 (b + 36)"
    "agree_on m (cmm_split m b n) (b + 48) q"
    "agree_on m (cmm_split m b n) (q + 48) z"
proof -
  obtain m6 where m6: "m6 = wr32 (wr32 (wr32 (wr32 (wr32 (wr32 m q 1) (q + 44)
      (blk_size m b - n - 48)) (b + 44) n) (q + 36) (blk_next m b)) (q + 40) (of_nat b))
      (b + 36) (of_nat q)"
    and s: "cmm_split m b n = (if last_block m = of_nat b then wr32 m6 16 (of_nat q) else m6)"
    using split_yes [OF sp b q] by blast
  have qb: "b + 48 \<le> q" using q by (simp add: rest_of_def sizeof_block_def)
  show "blk_type (cmm_split m b n) q = 1"
    "blk_size (cmm_split m b n) q = blk_size m b - n - 48"
    "blk_next (cmm_split m b n) q = blk_next m b"
    "blk_prev (cmm_split m b n) q = of_nat b"
    "blk_size (cmm_split m b n) b = n"
    "blk_next (cmm_split m b n) b = of_nat q"
    "blk_prev (cmm_split m b n) b = blk_prev m b"
    using qb b by (simp_all add: s m6 blk_type_def blk_size_def blk_next_def blk_prev_def mem_simps)
  show "agree_on m (cmm_split m b n) 0 16"
    "agree_on m (cmm_split m b n) 20 (b + 36)"
    "agree_on m (cmm_split m b n) (b + 48) q"
    "agree_on m (cmm_split m b n) (q + 48) z"
    using qb b by (simp_all add: s m6 agree_on_def wr32_def)
qed

section \<open>Handing out a block\<close>

lemma take_fields:
  assumes "20 \<le> b" and sz: "n \<le> blk_size m b"
  shows "blk_type (cmm_take m b t s n) b = block_type_num t"
    "blk_prev (cmm_take m b t s n) b = blk_prev m b"
    "agree_on m (cmm_take m b t s n) 0 16"
    "agree_on m (cmm_take m b t s n) 20 b"
    "agree_on m (cmm_take m b t s n) (blk_end m b) z"
    "cmm_take m b t s n (b + 35) = m (b + 35)"
    "\<And>i. i < 31 \<Longrightarrow>
       cmm_take m b t s n (b + 4 + i) = (if i < length s then char_byte (s ! i) else 0)"
    "\<And>i. i < unat n \<Longrightarrow> cmm_take m b t s n (b + 48 + i) = 0"
    "blk_size (cmm_take m b t s n) b = (if splits m b n then n else blk_size m b)"
    "blk_next (cmm_take m b t s n) b = (if splits m b n then of_nat (rest_of b n) else blk_next m b)"
    "splits m b n \<Longrightarrow> blk_type (cmm_take m b t s n) (rest_of b n) = 1"
    "splits m b n \<Longrightarrow> blk_size (cmm_take m b t s n) (rest_of b n) = blk_size m b - n - 48"
    "splits m b n \<Longrightarrow> blk_next (cmm_take m b t s n) (rest_of b n) = blk_next m b"
    "splits m b n \<Longrightarrow> blk_prev (cmm_take m b t s n) (rest_of b n) = of_nat b"
proof -
  let ?m1 = "cmm_split m b n"
  have tk: "cmm_take m b t s n =
      c_memset0 (c_strncpy (wr32 ?m1 b (block_type_num t)) (b + 4) s 31) (b + 48) (unat n)"
    by (simp add: cmm_take_def blk_defs Let_def)
  have n_le: "unat n \<le> unat (blk_size m b)" using sz by (simp add: word_le_nat_alt)
  have q: "splits m b n \<Longrightarrow> b + 48 + unat n = rest_of b n \<and> rest_of b n + 48 \<le> blk_end m b"
    by (auto simp: rest_of_def splits_def sizeof_block_def blk_end_def)
  have m1: "agree_on m ?m1 0 16" "agree_on m ?m1 20 (b + 36)" "agree_on m ?m1 (blk_end m b) z"
    using split_fields (8,9,11) [OF _ assms(1) refl, of m n] q split_no [of m b n]
    by (cases "splits m b n"; auto intro: agree_on_sub)+
  have out: "?m1 x = m x" if "x < 16 \<or> 20 \<le> x \<and> x < b + 36 \<or> blk_end m b \<le> x \<and> x < z" for x
    using that m1 by (auto simp: agree_on_def)
  have e: "b + 48 + unat n \<le> blk_end m b" using n_le by (simp add: blk_end_def sizeof_block_def)
  show "blk_type (cmm_take m b t s n) b = block_type_num t"
    by (simp add: tk blk_type_def mem_simps)
  show "agree_on m (cmm_take m b t s n) 0 16" "agree_on m (cmm_take m b t s n) 20 b"
    "agree_on m (cmm_take m b t s n) (blk_end m b) z"
    using assms(1) e out by (auto simp: tk agree_on_def mem_simps)
  show "cmm_take m b t s n (b + 35) = m (b + 35)"
    using out [of "b + 35"] assms(1) by (simp add: tk mem_simps)
  show "cmm_take m b t s n (b + 4 + i) = (if i < length s then char_byte (s ! i) else 0)"
    if "i < 31" for i
    using that by (simp add: tk byte_memset_other) (simp add: c_strncpy_def)
  show "cmm_take m b t s n (b + 48 + i) = 0" if "i < unat n" for i
    using that by (simp add: tk c_memset0_def)
  have hdr: "rd32 (cmm_take m b t s n) x = rd32 ?m1 x" if "b + 36 \<le> x" "x + 4 \<le> b + 48" for x
    using that by (simp add: tk mem_simps)
  have rest: "rd32 (cmm_take m b t s n) x = rd32 ?m1 x" if "b + 48 + unat n \<le> x" for x
    using that by (simp add: tk mem_simps)
  show "blk_prev (cmm_take m b t s n) b = blk_prev m b"
    using hdr [of "b + 40"] split_fields (7) [OF _ assms(1) refl, of m n] split_no [of m b n]
    by (cases "splits m b n") (simp_all add: blk_prev_def)
  show "blk_size (cmm_take m b t s n) b = (if splits m b n then n else blk_size m b)"
    using hdr [of "b + 44"] split_fields (5) [OF _ assms(1) refl, of m n] split_no [of m b n]
    by (simp add: blk_size_def)
  show "blk_next (cmm_take m b t s n) b =
      (if splits m b n then of_nat (rest_of b n) else blk_next m b)"
    using hdr [of "b + 36"] split_fields (6) [OF _ assms(1) refl, of m n] split_no [of m b n]
    by (simp add: blk_next_def)
  show "blk_type (cmm_take m b t s n) (rest_of b n) = 1"
    "blk_size (cmm_take m b t s n) (rest_of b n) = blk_size m b - n - 48"
    "blk_next (cmm_take m b t s n) (rest_of b n) = blk_next m b"
    "blk_prev (cmm_take m b t s n) (rest_of b n) = of_nat b" if "splits m b n"
    using that q rest split_fields (1-4) [OF that assms(1) refl]
    by (simp_all add: blk_type_def blk_size_def blk_next_def blk_prev_def)
qed

text \<open>The blocks after a block has been handed out: it is still there, followed by what was
  broken off.\<close>

definition chain_take :: "mem \<Rightarrow> nat list \<Rightarrow> nat \<Rightarrow> u32 \<Rightarrow> nat list" where
  "chain_take m bs b n =
     (if splits m b n
      then takeWhile (\<lambda>x. x \<noteq> b) bs @ b # rest_of b n # tl (dropWhile (\<lambda>x. x \<noteq> b) bs) else bs)"

lemma chain_take_split:
  "b \<notin> set xs \<Longrightarrow> chain_take m (xs @ b # ys) b n =
     (if splits m b n then xs @ b # rest_of b n # ys else xs @ b # ys)"
proof -
  assume "b \<notin> set xs"
  then have "\<forall>x \<in> set xs. x \<noteq> b" by auto
  then have "takeWhile (\<lambda>x. x \<noteq> b) (xs @ b # ys) = xs"
    "dropWhile (\<lambda>x. x \<noteq> b) (xs @ b # ys) = b # ys"
    by (simp_all add: takeWhile_append2 dropWhile_append2)
  then show ?thesis by (simp add: chain_take_def)
qed

lemma chain_take_old: "b \<in> set bs \<Longrightarrow> set bs \<subseteq> set (chain_take m bs b n)"
proof -
  assume "b \<in> set bs"
  then obtain xs ys where "bs = xs @ b # ys" "b \<notin> set xs" by (meson split_list_first)
  then show ?thesis by (auto simp: chain_take_split)
qed

lemma chain_take_new:
  "b \<in> set bs \<Longrightarrow> c \<in> set (chain_take m bs b n) \<Longrightarrow> c \<in> set bs \<or> splits m b n \<and> c = rest_of b n"
proof -
  assume b: "b \<in> set bs" and c: "c \<in> set (chain_take m bs b n)"
  from b obtain xs ys where "bs = xs @ b # ys" "b \<notin> set xs" by (meson split_list_first)
  with c show ?thesis by (auto simp: chain_take_split split: if_splits)
qed

lemma unat_of_nat_bound: "x \<le> unat (e :: u32) \<Longrightarrow> unat (of_nat x :: u32) = x"
  using unat_u32_lt [of e] by (intro unat_of_nat_u32) linarith

lemma seg_take:
  assumes sg: "seg m e 20 (xs @ b # ys) e" and e: "e < 4294967296"
    and sz: "n \<le> blk_size m b"
  shows "seg (cmm_take m b t s n) e 20
    (if splits m b n then xs @ b # rest_of b n # ys else xs @ b # ys) e"
proof -
  let ?m = "cmm_take m b t s n"
  let ?q = "rest_of b n"
  have b: "20 \<le> b" "blk_end m b \<le> e" and xs: "seg m e 20 xs b"
    and ys: "seg m e (blk_end m b) ys e"
    and nb: "unat (blk_next m b) = (if blk_end m b = e then 0 else blk_end m b)"
    using sg seg_bounds [OF sg, of b] by (auto simp: seg_append)
  note f = take_fields [OF b(1) sz, where t = t and s = s]
  have "seg ?m e 20 xs b" "seg ?m e (blk_end m b) ys e"
    using xs ys f(4) f(5) [of e] by (auto intro: seg_agree)
  moreover have "seg ?m e b (if splits m b n then [b, ?q] else [b]) (blk_end m b)"
  proof (cases "splits m b n")
    case True
    then have q: "?q + 48 < blk_end m b" "?q = b + 48 + unat n"
      by (auto simp: rest_of_def splits_def sizeof_block_def blk_end_def)
    then have "unat (of_nat ?q :: u32) = ?q" using b e by (intro unat_of_nat_u32) linarith
    moreover have "blk_end ?m b = ?q" "blk_end ?m ?q = blk_end m b"
      using True f(9) f(12) size_rest [OF True] q by (auto simp: blk_end_def sizeof_block_def)
    ultimately show ?thesis using True f(10) f(13) nb q b(2) by auto
  next
    case False
    then show ?thesis using f(9,10) nb by (simp add: blk_end_def)
  qed
  ultimately show ?thesis by (cases "splits m b n") (auto simp: seg_append)
qed

theorem chain_take_chain:
  assumes ch: "cmm_chain m bs" and b: "b \<in> set bs" and sz: "n \<le> blk_size m b"
  shows "cmm_chain (cmm_take m b t s n) (chain_take m bs b n)"
proof -
  obtain xs ys where bs: "bs = xs @ b # ys" "b \<notin> set xs" using b by (meson split_list_first)
  note f = take_fields [OF chain_bounds(1) [OF ch b] sz, where t = t and s = s]
  have "cmm_magic (cmm_take m b t s n) = cmm_magic m"
    "confmap_size (cmm_take m b t s n) = confmap_size m"
    "first_block (cmm_take m b t s n) = first_block m"
    using f(3) by (simp_all add: cmm_magic_def confmap_size_def first_block_def agree_rd32)
  then show ?thesis
    using ch seg_take [of m "unat (confmap_size m)" xs b ys n t s] sz
    by (auto simp: cmm_chain_def bs chain_take_split sizeof_cmm_def)
qed

section \<open>The best fit\<close>

definition suits :: "mem \<Rightarrow> u32 \<Rightarrow> nat \<Rightarrow> bool" where
  "suits m n b \<longleftrightarrow> blk_type m b = block_type_num block_type_free \<and> n \<le> blk_size m b"

text \<open>The block the loop settles on: suitable, none smaller, and the first of that size.\<close>

definition best_fit :: "mem \<Rightarrow> u32 \<Rightarrow> nat list \<Rightarrow> nat option \<Rightarrow> bool" where
  "best_fit m n bs r \<longleftrightarrow>
     (case r of
        None \<Rightarrow> (\<forall>b \<in> set bs. \<not> suits m n b)
      | Some f \<Rightarrow> (\<exists>xs ys. bs = xs @ f # ys \<and> suits m n f
           \<and> (\<forall>b \<in> set xs. suits m n b \<longrightarrow> blk_size m f < blk_size m b)
           \<and> (\<forall>b \<in> set ys. suits m n b \<longrightarrow> blk_size m f \<le> blk_size m b)))"

lemma best_fit_SomeI:
  assumes "bs = xs @ f # ys" "suits m n f"
    "\<And>b. b \<in> set xs \<Longrightarrow> suits m n b \<Longrightarrow> blk_size m f < blk_size m b"
    "\<And>b. b \<in> set ys \<Longrightarrow> suits m n b \<Longrightarrow> blk_size m f \<le> blk_size m b"
  shows "best_fit m n bs (Some f)"
  unfolding best_fit_def option.case using assms by blast

lemma best_fit_snoc:
  "best_fit m n bs r \<Longrightarrow> best_fit m n (bs @ [b]) (fst (best_fit_body m n b r))"
proof (cases r)
  case None
  assume "best_fit m n bs r"
  then show ?thesis using None
    by (force simp: best_fit_def best_fit_body_def suits_def)
next
  case (Some f)
  assume "best_fit m n bs r"
  then obtain xs ys where bs: "bs = xs @ f # ys" "suits m n f"
    "\<forall>b \<in> set xs. suits m n b \<longrightarrow> blk_size m f < blk_size m b"
    "\<forall>b \<in> set ys. suits m n b \<longrightarrow> blk_size m f \<le> blk_size m b"
    using Some by (auto simp: best_fit_def)
  show ?thesis
  proof (cases "suits m n b \<and> blk_size m b < blk_size m f")
    case True
    then have "fst (best_fit_body m n b r) = Some b"
      using Some by (simp add: best_fit_body_def suits_def)
    moreover have "\<forall>c \<in> set bs. suits m n c \<longrightarrow> blk_size m b < blk_size m c"
      using True bs by (auto dest: less_trans order_less_le_trans)
    ultimately show ?thesis using True by (auto intro: best_fit_SomeI [of _ bs b "[]"])
  next
    case False
    then have "fst (best_fit_body m n b r) = Some f"
      using Some by (auto simp: best_fit_body_def suits_def)
    then show ?thesis
      using False bs by (auto intro!: best_fit_SomeI [of _ xs f "ys @ [b]"])
  qed
qed

lemma iter_best_fit:
  "best_fit m n as r \<Longrightarrow>
     \<exists>r'. iter_list (best_fit_body m n) bs r = (r', 0) \<and> best_fit m n (as @ bs) r'"
proof (induction bs arbitrary: as r)
  case (Cons b bs)
  have "snd (best_fit_body m n b r) = False" by (simp add: best_fit_body_def)
  then show ?case
    using Cons.IH [OF best_fit_snoc [OF Cons.prems, of b]] by simp
qed simp

lemma alloc_cases:
  assumes "cmm_chain m bs"
  obtains (none) "cmm_alloc_mem m t s n = Some (m, None)" "best_fit m n bs None"
  | (some) b where "cmm_alloc_mem m t s n = Some (cmm_take m b t s n, Some (b + 48))"
      "best_fit m n bs (Some b)" "b \<in> set bs" "suits m n b"
proof -
  have "best_fit m n [] None" by (simp add: best_fit_def)
  from iter_best_fit [OF this, of bs] obtain r
    where r: "iter_list (best_fit_body m n) bs None = (r, 0)" "best_fit m n bs r" by auto
  have a: "cmm_alloc_mem m t s n = (case r of None \<Rightarrow> Some (m, None)
      | Some b \<Rightarrow> Some (cmm_take m b t s n, Some (b + 48)))"
    by (simp add: cmm_alloc_mem_def chain_iter [OF assms] r sizeof_block_def split: option.splits)
  show ?thesis
  proof (cases r)
    case None
    then show ?thesis using none a r by simp
  next
    case (Some b)
    then have "b \<in> set bs" "suits m n b" using r by (auto simp: best_fit_def)
    then show ?thesis using some Some a r by simp
  qed
qed

end
