(* ===== verification/CmmFree.thy ===== *)
theory CmmFree
  imports CmmAlloc
begin

section \<open>Merging two neighbours\<close>

definition is_free :: "mem \<Rightarrow> nat \<Rightarrow> bool" where
  "is_free m b \<longleftrightarrow> blk_type m b = block_type_num block_type_free"

lemma agree_is_free:
  "agree_on m m' b (blk_end m b) \<Longrightarrow> is_free m' b \<longleftrightarrow> is_free m b"
  unfolding is_free_def
  by (subst agree_hdr(1) [of m m']) (auto elim: agree_on_sub simp: blk_end_def sizeof_block_def)

lemma merge_pair_no: "\<not> (is_free m c \<and> is_free m d) \<Longrightarrow> merge_pair m c d = (m, -1)"
  by (auto simp: merge_pair_def is_free_def)

lemma merge_pair_yes:
  assumes "is_free m c" "is_free m d" "c + 48 \<le> d"
  shows "snd (merge_pair m c d) = 0"
    "blk_next (fst (merge_pair m c d)) c = blk_next m d"
    "blk_size (fst (merge_pair m c d)) c = blk_size m c + (blk_size m d + 48)"
    "agree_on m (fst (merge_pair m c d)) 0 (c + 36)"
    "agree_on m (fst (merge_pair m c d)) (c + 40) (c + 44)"
    "agree_on m (fst (merge_pair m c d)) (c + 48) z"
proof -
  have m: "merge_pair m c d = (wr32 (wr32 m (c + 36) (blk_next m d)) (c + 44)
      (blk_size m c + (blk_size m d + 48)), 0)"
    using assms by (simp add: merge_pair_def is_free_def blk_defs Let_def mem_simps)
  show "snd (merge_pair m c d) = 0"
    "blk_next (fst (merge_pair m c d)) c = blk_next m d"
    "blk_size (fst (merge_pair m c d)) c = blk_size m c + (blk_size m d + 48)"
    by (simp_all add: m blk_next_def blk_size_def mem_simps)
  show "agree_on m (fst (merge_pair m c d)) 0 (c + 36)"
    "agree_on m (fst (merge_pair m c d)) (c + 40) (c + 44)"
    "agree_on m (fst (merge_pair m c d)) (c + 48) z"
    by (simp_all add: m agree_on_def wr32_def)
qed

lemma seg_merge:
  assumes sg: "seg m e a (xs @ c # d # ys) z" and z: "z < 4294967296"
    and fr: "is_free m c" "is_free m d"
  shows "seg (fst (merge_pair m c d)) e a (xs @ c # ys) z"
    "blk_end (fst (merge_pair m c d)) c = blk_end m d"
proof -
  let ?m = "fst (merge_pair m c d)"
  have xs: "seg m e a xs c" and cd: "d = blk_end m c" and ys: "seg m e (blk_end m d) ys z"
    and nd: "unat (blk_next m d) = (if blk_end m d = e then 0 else blk_end m d)"
    using sg by (auto simp: seg_append)
  have le: "c + 48 \<le> d" "blk_end m d \<le> z" "d + 48 \<le> blk_end m d"
    using cd seg_le [OF ys] by (auto simp: blk_end_def sizeof_block_def)
  note f = merge_pair_yes [OF fr le(1)]
  have "unat (blk_size m c) + (unat (blk_size m d) + 48) < 4294967296"
    using le z cd by (simp add: blk_end_def sizeof_block_def)
  then have "unat (blk_size m c + (blk_size m d + 48)) =
      unat (blk_size m c) + (unat (blk_size m d) + 48)"
    by (simp add: unat_word_ariths)
  then show e: "blk_end ?m c = blk_end m d"
    using f(3) cd by (simp add: blk_end_def sizeof_block_def)
  have "seg ?m e a xs c" "seg ?m e (blk_end m d) ys z"
    using seg_agree [OF xs agree_on_sub [OF f(4)]] seg_agree [OF ys agree_on_sub [OF f(6)]] le
    by auto
  then show "seg ?m e a (xs @ c # ys) z" using e f(2) nd by (auto simp: seg_append)
qed

lemma chain_merge:
  assumes ch: "cmm_chain m (xs @ c # d # ys)" and fr: "is_free m c" "is_free m d"
  shows "cmm_chain (fst (merge_pair m c d)) (xs @ c # ys)"
proof -
  let ?m = "fst (merge_pair m c d)"
  have c: "20 \<le> c" "c + 48 \<le> blk_end m c" "d = blk_end m c"
    using chain_bounds [OF ch, of c] chain_seg [OF ch] by (auto simp: seg_append)
  then have "agree_on m ?m 0 (c + 36)" using merge_pair_yes(4) [OF fr] by simp
  then have "cmm_magic ?m = cmm_magic m" "confmap_size ?m = confmap_size m"
    "first_block ?m = first_block m"
    using c by (simp_all add: cmm_magic_def confmap_size_def first_block_def agree_rd32)
  then show ?thesis
    using ch seg_merge(1) [OF chain_seg [OF ch] unat_u32_lt fr]
    by (auto simp: cmm_chain_def sizeof_cmm_def)
qed

section \<open>Changing the type of a block\<close>

lemma set_type_agree: "agree_on m (set_type m b v) 0 b" "agree_on m (set_type m b v) (b + 4) z"
  by (simp_all add: set_type_def agree_wr32)

lemma set_type_hdr:
  "blk_type (set_type m b v) b = v" "blk_next (set_type m b v) b = blk_next m b"
  "blk_prev (set_type m b v) b = blk_prev m b" "blk_size (set_type m b v) b = blk_size m b"
  "blk_end (set_type m b v) b = blk_end m b"
  by (simp_all add: blk_defs blk_end_def mem_simps)

lemma chain_set_type:
  assumes ch: "cmm_chain m bs" and b: "b \<in> set bs"
  shows "cmm_chain (set_type m b v) bs"
proof -
  let ?m = "set_type m b v"
  let ?e = "unat (confmap_size m)"
  from seg_split [OF chain_seg [OF ch] b] obtain xs ys
    where bs: "bs = xs @ b # ys" "seg m ?e 20 xs b" "seg m ?e (blk_end m b) ys ?e"
      "unat (blk_next m b) = (if blk_end m b = ?e then 0 else blk_end m b)" by metis
  have b20: "20 \<le> b" "b + 48 \<le> blk_end m b" using chain_bounds [OF ch b] by auto
  have "agree_on m ?m 20 b" "agree_on m ?m (blk_end m b) ?e"
    using b20 by (auto intro!: agree_outside [OF set_type_agree])
  then have "seg ?m ?e 20 xs b" "seg ?m ?e (blk_end m b) ys ?e"
    using bs by (auto intro: seg_agree)
  then have "seg ?m ?e 20 bs ?e" using bs by (auto simp: seg_append set_type_hdr)
  moreover have "cmm_magic ?m = cmm_magic m" "confmap_size ?m = confmap_size m"
    "first_block ?m = first_block m"
    using b20 set_type_agree(1) [of m b v]
    by (simp_all add: cmm_magic_def confmap_size_def first_block_def agree_rd32)
  ultimately show ?thesis using ch by (auto simp: cmm_chain_def sizeof_cmm_def)
qed

section \<open>Freeing a block\<close>

text \<open>The back link of a block is harmless: absent, or its neighbour on the left, or a block
  that is in use.\<close>

definition back_link_ok :: "mem \<Rightarrow> nat list \<Rightarrow> nat \<Rightarrow> bool" where
  "back_link_ok m bs b \<longleftrightarrow> blk_prev m b = 0
     \<or> (\<exists>xs ys. bs = xs @ unat (blk_prev m b) # b # ys)
     \<or> (unat (blk_prev m b) \<in> set bs - {b} \<and> \<not> is_free m (unat (blk_prev m b)))"

lemma iter_find_ptr:
  "iter_list (find_ptr_body p) bs r =
     (if \<exists>b \<in> set bs. b + 48 = p then (Some (p - 48), p - 48) else (r, 0))"
  by (induction bs arbitrary: r) (auto simp: find_ptr_body_def sizeof_block_def)

definition free_merged :: "mem \<Rightarrow> nat \<Rightarrow> mem" where
  "free_merged m b =
     (let m1 = set_type m b (block_type_num block_type_free);
          m2 = fst (cmm_merge_free_blocks m1 b 1)
      in fst (cmm_merge_free_blocks m2 b (-1)))"

lemma free_chain:
  assumes "cmm_chain m bs"
  shows "cmm_free_mem m p =
     Some (if \<exists>b \<in> set bs. b + 48 = p then (free_merged m (p - 48), 0) else (m, -1))"
  by (simp add: cmm_free_mem_def chain_iter [OF assms] iter_find_ptr free_merged_def Let_def)

lemma merge_prev_no:
  "\<not> (blk_prev m b \<noteq> 0 \<and> is_free m (unat (blk_prev m b))) \<Longrightarrow>
     fst (cmm_merge_free_blocks m b (-1)) = m"
  by (auto simp: cmm_merge_free_blocks_def merge_pair_no)

lemma merge_prev_yes:
  "blk_prev m b \<noteq> 0 \<Longrightarrow>
     fst (cmm_merge_free_blocks m b (-1)) = fst (merge_pair m (unat (blk_prev m b)) b)"
  by (simp add: cmm_merge_free_blocks_def)

text \<open>What merging a block with the one after it does to the chain.\<close>

lemma merge_next:
  assumes ch: "cmm_chain m (xs @ b # ys)" and fb: "is_free m b"
  defines "m' \<equiv> fst (cmm_merge_free_blocks m b 1)"
  shows "\<exists>ys'. cmm_chain m' (xs @ b # ys') \<and> set ys' \<subseteq> set ys
    \<and> (\<forall>c \<in> set ys. \<not> is_free m c \<longrightarrow> c \<in> set ys')
    \<and> agree_on m m' 0 (b + 36) \<and> agree_on m m' (b + 40) (b + 44) \<and> (\<forall>z. agree_on m m' (b + 48) z)"
proof (cases ys)
  case Nil
  have "blk_next m b = 0"
    using chain_seg [OF ch] Nil by (auto simp: seg_append unat_eq_0)
  then have "m' = m" by (simp add: m'_def cmm_merge_free_blocks_def)
  then show ?thesis using ch Nil by auto
next
  case (Cons d zs)
  have d: "d = blk_end m b" "unat (blk_next m b) = d"
    using chain_seg [OF ch] chain_bounds [OF ch, of d] Cons by (auto simp: seg_append)
  moreover have "20 \<le> d" using chain_bounds [OF ch, of d] Cons by simp
  ultimately have m': "m' = fst (merge_pair m b d)"
    by (auto simp: m'_def cmm_merge_free_blocks_def)
  show ?thesis
  proof (cases "is_free m d")
    case True
    have "b + 48 \<le> d" using d chain_bounds [OF ch, of b] by simp
    note f = merge_pair_yes [OF fb True this]
    have "cmm_chain m' (xs @ b # zs)"
      using chain_merge [OF ch [unfolded Cons] fb True] m' by simp
    then show ?thesis
      using f(4-6) True Cons m' by (intro exI [of _ zs]) auto
  next
    case False
    then have "m' = m" using m' merge_pair_no by simp
    then show ?thesis using ch by (intro exI [of _ ys]) auto
  qed
qed

theorem free_merged_chain:
  assumes ch: "cmm_chain m bs" and b: "b \<in> set bs" and ok: "back_link_ok m bs b"
  shows "\<exists>bs'. cmm_chain (free_merged m b) bs' \<and> set bs' \<subseteq> set bs
    \<and> (\<forall>c \<in> set bs - {b}. \<not> is_free m c \<longrightarrow>
         c \<in> set bs' \<and> agree_on m (free_merged m b) c (blk_end m c))"
proof -
  let ?m1 = "set_type m b (block_type_num block_type_free)"
  let ?m2 = "fst (cmm_merge_free_blocks ?m1 b 1)"
  have fm: "free_merged m b = fst (cmm_merge_free_blocks ?m2 b (-1))"
    by (simp add: free_merged_def)
  obtain xs ys where bs: "bs = xs @ b # ys" and bxs: "b \<notin> set xs"
    using b by (meson split_list_first)
  have dist: "distinct bs" using seg_distinct [OF chain_seg [OF ch]] .
  then have bys: "b \<notin> set ys" using bs by simp
  have ch1: "cmm_chain ?m1 (xs @ b # ys)" using chain_set_type [OF ch b] bs by simp
  have dj: "blk_end m c \<le> b \<or> blk_end m b \<le> c" if "c \<in> set bs - {b}" for c
    using chain_disjoint [OF ch _ b] that by auto
  have b48: "b + 48 \<le> blk_end m b" "\<And>c. c \<in> set bs \<Longrightarrow> c + 48 \<le> blk_end m c"
    using chain_bounds(2) [OF ch] b by auto
  have ag1: "agree_on m ?m1 c (blk_end m c)" if "c \<in> set bs - {b}" for c
    using dj [OF that] b48(1) by (intro agree_outside [OF set_type_agree]) auto
  have fr1: "is_free ?m1 c \<longleftrightarrow> c = b \<or> is_free m c" if "c \<in> set bs" for c
    using agree_is_free [OF ag1 [of c]] that by (cases "c = b") (auto simp: is_free_def set_type_hdr)
  have fb1: "is_free ?m1 b" by (simp add: is_free_def set_type_hdr)
  obtain ys' where ys': "cmm_chain ?m2 (xs @ b # ys')" "set ys' \<subseteq> set ys"
    "\<forall>c \<in> set ys. \<not> is_free ?m1 c \<longrightarrow> c \<in> set ys'"
    "agree_on ?m1 ?m2 0 (b + 36)" "agree_on ?m1 ?m2 (b + 40) (b + 44)"
    "\<forall>z. agree_on ?m1 ?m2 (b + 48) z"
    using merge_next [OF ch1 fb1] by blast
  have ag2: "agree_on m ?m2 c (blk_end m c)" if "c \<in> set bs - {b}" for c
    using dj [OF that] b48(1)
    by (intro agree_on_trans [OF ag1 [OF that]] agree_outside [OF ys'(4) ys'(6) [rule_format]]) auto
  have pr2: "blk_prev ?m2 b = blk_prev m b"
    using ys'(5) set_type_hdr(3) [of m b] by (simp add: blk_prev_def agree_rd32)
  have ty2: "is_free ?m2 b"
    using fb1 ys'(4) by (simp add: is_free_def blk_type_def agree_rd32)
  have keep: "c \<in> set (xs @ b # ys')" if "c \<in> set bs - {b}" "\<not> is_free m c" for c
    using that ys'(3) fr1 bs by auto
  have frd: "is_free ?m2 c \<longleftrightarrow> is_free m c" if "c \<in> set bs - {b}" for c
    by (rule agree_is_free [OF ag2 [OF that]])
  let ?p = "unat (blk_prev m b)"
  show ?thesis
  proof (cases "blk_prev m b \<noteq> 0 \<and> is_free ?m2 ?p")
    case False
    then have "free_merged m b = ?m2"
      using merge_prev_no [of ?m2 b] by (simp only: fm pr2) blast
    then show ?thesis using ys'(1,2) keep ag2 bs by (intro exI [of _ "xs @ b # ys'"]) auto
  next
    case True
    then obtain us vs where us: "bs = us @ ?p # b # vs"
      using ok frd by (auto simp: back_link_ok_def)
    then have "xs @ b # ys = (us @ [?p]) @ b # vs" using bs by auto
    then have xs: "xs = us @ [?p]"
      using bys append_Cons_eq_iff [where x = b and xs = xs and ys = ys and xs' = "us @ [?p]" and ys' = vs] bxs by simp
    then have p: "?p \<in> set bs - {b}" using bs dist by auto
    let ?m3 = "fst (merge_pair ?m2 ?p b)"
    have m3: "free_merged m b = ?m3" using conjunct1 [OF True] merge_prev_yes [of ?m2 b] unfolding fm pr2 by blast
    have fp: "is_free ?m2 ?p" using True by simp
    have ch3: "cmm_chain ?m3 (us @ ?p # ys')"
      using chain_merge [OF _ fp ty2, of us ys'] ys'(1) xs by simp
    have "?p < b" using seg_sorted [OF chain_seg [OF ch]] us by (simp add: sorted_wrt_append)
    moreover have "?p + 48 \<le> blk_end m ?p" using b48(2) p by blast
    ultimately have "?p + 48 \<le> b" using dj [OF p] b48(1) by linarith
    note f = merge_pair_yes [OF fp ty2 this]
    have ag3: "c \<in> set (us @ ?p # ys') \<and> agree_on m ?m3 c (blk_end m c)"
      if c: "c \<in> set bs - {b}" "\<not> is_free m c" for c
    proof
      have "c \<noteq> ?p" using c fp frd by blast
      then have "blk_end m c \<le> ?p \<or> blk_end m ?p \<le> c"
        using chain_disjoint [OF ch] c p by auto
      then have "agree_on ?m2 ?m3 c (blk_end m c)"
        using b48(2) [of ?p] p by (intro agree_outside [OF f(4) f(6)]) auto
      then show "agree_on m ?m3 c (blk_end m c)" using ag2 [OF c(1)] agree_on_trans by blast
      show "c \<in> set (us @ ?p # ys')" using keep [OF c] xs c(1) by auto
    qed
    have "set (us @ ?p # ys') \<subseteq> set bs" using bs xs ys'(2) by auto
    then show ?thesis using ch3 ag3 m3 by (intro exI [of _ "us @ ?p # ys'"]) auto
  qed
qed

end
