(* ===== verification/CmmApi.thy ===== *)
theory CmmApi
  imports CmmFree
begin

text \<open>
  The functions of \<^verbatim>\<open>lib/cmm/cmm.c\<close> as a module calls them: the guards on the
  process's own state and on the arguments, around the operations on the segment; and what
  they promise on a tiled segment.
\<close>

section \<open>The calls\<close>

text \<open>The file's static variables. The segment itself is the memory \<open>m\<close>, at offset 0.\<close>

record cmm_proc =
  cmm_fully_initialized :: bool
  proc_plc_id :: int
  proc_module_name :: "string option"

definition cmm_plc_id :: "cmm_proc \<Rightarrow> int" where
  "cmm_plc_id p = (if \<not> cmm_fully_initialized p then -1 else proc_plc_id p)"

definition cmm_block_count :: "cmm_proc \<Rightarrow> mem \<Rightarrow> cmm_block_type_t \<Rightarrow> int option" where
  "cmm_block_count p m block_type =
     (if \<not> cmm_fully_initialized p then Some (-1)
      else map_option fst (cmm_iter m (count_body m block_type) (unat (first_block m)) 0))"

definition cmm_block_alloc ::
  "cmm_proc \<Rightarrow> mem \<Rightarrow> cmm_block_type_t \<Rightarrow> string option \<Rightarrow> u32 \<Rightarrow> (mem \<times> nat option) option" where
  "cmm_block_alloc p m block_type name num_bytes =
     (if \<not> cmm_fully_initialized p then Some (m, None)
      else case name of
             None \<Rightarrow> Some (m, None)
           | Some s \<Rightarrow> if num_bytes = 0 then Some (m, None)
                       else cmm_alloc_mem m block_type s num_bytes)"

definition cmm_block_free :: "cmm_proc \<Rightarrow> mem \<Rightarrow> nat option \<Rightarrow> (mem \<times> int) option" where
  "cmm_block_free p m del_block_mem =
     (if \<not> cmm_fully_initialized p then Some (m, -1)
      else case del_block_mem of
             None \<Rightarrow> Some (m, 0)
           | Some a \<Rightarrow> cmm_free_mem m a)"

text \<open>The result pairs the pointer with what is stored through \<^verbatim>\<open>num_bytes\<close>.\<close>

definition ptr_and_size :: "(nat \<times> u32) option \<Rightarrow> nat option \<times> u32" where
  "ptr_and_size r = (case r of None \<Rightarrow> (None, 0) | Some (a, z) \<Rightarrow> (Some a, z))"

definition cmm_block_find ::
  "cmm_proc \<Rightarrow> mem \<Rightarrow> cmm_block_type_t \<Rightarrow> string option \<Rightarrow> (nat option \<times> u32) option" where
  "cmm_block_find p m block_type name =
     (if \<not> cmm_fully_initialized p then Some (None, 0)
      else case name of
             None \<Rightarrow> Some (None, 0)
           | Some s \<Rightarrow> map_option ptr_and_size (cmm_find_mem m block_type s))"

text \<open>The result also has what is stored through \<^verbatim>\<open>name\<close>.\<close>

definition cmm_block_get ::
  "cmm_proc \<Rightarrow> mem \<Rightarrow> cmm_block_type_t \<Rightarrow> u32 \<Rightarrow> (nat option \<times> u32 \<times> nat option) option" where
  "cmm_block_get p m block_type index =
     (if \<not> cmm_fully_initialized p then Some (None, 0, None)
      else map_option
             (\<lambda>r. case r of None \<Rightarrow> (None, 0, None) | Some (a, z, name) \<Rightarrow> (Some a, z, Some name))
             (cmm_get_mem m block_type index))"

text \<open>The segment's own address, and whether a pointer lies in it.\<close>

definition cmm_refptr :: "cmm_proc \<Rightarrow> nat option" where
  "cmm_refptr p = (if \<not> cmm_fully_initialized p then None else Some 0)"

text \<open>Where the key of the segment's mutex is.\<close>

definition cmm_mutex_id_ptr :: "cmm_proc \<Rightarrow> nat option" where
  "cmm_mutex_id_ptr p = (if \<not> cmm_fully_initialized p then None else Some 8)"

definition cmm_checkptr :: "cmm_proc \<Rightarrow> mem \<Rightarrow> int \<Rightarrow> int" where
  "cmm_checkptr p m ptr =
     (if \<not> cmm_fully_initialized p then -1
      else if 0 \<le> ptr \<and> ptr < uint (confmap_size m) then 1 else 0)"

section \<open>What the loops compute\<close>

lemma iter_count:
  "iter_list (count_body m t) bs c =
     (c + int (length (filter (\<lambda>b. blk_type m b = block_type_num t) bs)), 0)"
  by (induction bs arbitrary: c) (simp_all add: count_body_def)

lemma iter_find_name:
  "0 \<notin> set bs \<Longrightarrow> iter_list (find_name_body m t s) bs () =
     ((), case find (\<lambda>b. blk_type m b = block_type_num t \<and> blk_name_is m b s) bs of
            None \<Rightarrow> 0 | Some b \<Rightarrow> b)"
  by (induction bs) (auto simp: find_name_body_def)

lemma iter_get_index:
  "int (length bs) < 2 ^ 32 \<Longrightarrow> 0 \<notin> set bs \<Longrightarrow>
   snd (iter_list (get_index_body m t) bs i) =
     (let fs = filter (\<lambda>b. blk_type m b = block_type_num t) bs
      in if unat i < length fs then fs ! unat i else 0)"
proof (induction bs arbitrary: i)
  case (Cons b bs)
  show ?case
  proof (cases "blk_type m b = block_type_num t \<and> i \<noteq> 0")
    case True
    then obtain k where k: "unat i = Suc k" by (metis not0_implies_Suc unat_eq_zero)
    then have "unat (i - 1) = k" using True by (simp add: unat_minus_one)
    then show ?thesis using Cons True k by (auto simp: get_index_body_def Let_def)
  next
    case False
    then show ?thesis using Cons by (auto simp: get_index_body_def Let_def)
  qed
qed simp

lemma chain_find:
  assumes "cmm_chain m bs"
  shows "cmm_find_mem m t s =
    Some (map_option (\<lambda>b. (b + 48, blk_size m b))
      (find (\<lambda>b. blk_type m b = block_type_num t \<and> blk_name_is m b s) bs))"
proof -
  let ?P = "\<lambda>b. blk_type m b = block_type_num t \<and> blk_name_is m b s"
  have z: "0 \<notin> set bs" using chain_bounds(1) [OF assms, of 0] by auto
  have "b \<noteq> 0" if "find ?P bs = Some b" for b
    using that z find_Some_iff [of ?P bs b] nth_mem by metis
  then show ?thesis
    by (auto simp: cmm_find_mem_def chain_iter [OF assms] iter_find_name [OF z] sizeof_block_def
      split: option.split)
qed

section \<open>Looking up after handing out\<close>

definition answers :: "mem \<Rightarrow> cmm_block_type_t \<Rightarrow> string \<Rightarrow> nat \<Rightarrow> bool" where
  "answers m t s b \<longleftrightarrow> blk_type m b = block_type_num t \<and> blk_name_is m b s"

lemma block_type_num_inj [simp]: "block_type_num t = block_type_num u \<longleftrightarrow> t = u"
  by (cases t; cases u) simp_all

lemma take_other:
  assumes ch: "cmm_chain m bs" and b: "b \<in> set bs" and sz: "n \<le> blk_size m b"
    and c: "c \<in> set bs" "c \<noteq> b"
  shows "agree_on m (cmm_take m b t s n) c (blk_end m c)"
proof -
  note f = take_fields [OF chain_bounds(1) [OF ch b] sz, where t = t and s = s]
  have "blk_end m c \<le> b \<or> blk_end m b \<le> c" using chain_disjoint [OF ch c(1) b c(2)] .
  then show ?thesis
    using f(4,5) chain_bounds(1) [OF ch c(1)] by (auto intro: agree_on_sub)
qed

lemma agree_answers:
  "agree_on m m' c (blk_end m c) \<Longrightarrow> length s \<le> 43 \<Longrightarrow> answers m' t s c = answers m t s c"
proof -
  assume a: "agree_on m m' c (blk_end m c)" and l: "length s \<le> 43"
  have "agree_on m m' c (c + 48)"
    by (rule agree_on_sub [OF a]) (simp_all add: blk_end_def sizeof_block_def)
  then show ?thesis using agree_hdr(1) agree_name l by (simp add: answers_def)
qed

lemma take_named:
  assumes "20 \<le> b" "n \<le> blk_size m b" "length s < 31"
  shows "blk_name_is (cmm_take m b t s n) b s"
proof -
  have "cmm_take m b t s n (b + 4 + i) = (if i < length s then char_byte (s ! i) else 0)"
    if "i < 31" for i
    using take_fields(7) [OF assms(1,2) that] .
  from this assms(3) show ?thesis
    unfolding blk_name_is_def by (auto simp: c_streq_iff)
qed

lemma take_not_named:
  assumes "20 \<le> b" "n \<le> blk_size m b" "length s < 31" "c_string s" "c_string s'" "s' \<noteq> s"
  shows "\<not> blk_name_is (cmm_take m b t s n) b s'"
  using take_named [OF assms(1-3), of t] c_streq_unique assms(4-6)
  unfolding blk_name_is_def by blast

lemma find_append':
  "find P (xs @ ys) = (case find P xs of None \<Rightarrow> find P ys | Some x \<Rightarrow> Some x)"
  by (induction xs) auto

lemma find_cong_set: "(\<And>x. x \<in> set xs \<Longrightarrow> P x = Q x) \<Longrightarrow> find P xs = find Q xs"
  by (induction xs) auto

text \<open>Only the block handed out answers to anything it did not answer to before.\<close>

lemma find_take:
  assumes ch: "cmm_chain m bs" and b: "b \<in> set bs" and sz: "n \<le> blk_size m b"
    and fr: "is_free m b" and t': "t' \<noteq> block_type_free" and l: "length s' \<le> 43"
  shows "find (answers (cmm_take m b t s n) t' s') (chain_take m bs b n) =
    (if answers (cmm_take m b t s n) t' s' b
     then Some (case find (answers m t' s') (takeWhile (\<lambda>c. c \<noteq> b) bs) of None \<Rightarrow> b | Some c \<Rightarrow> c)
     else find (answers m t' s') bs)"
proof -
  let ?m = "cmm_take m b t s n"
  obtain xs ys where bs: "bs = xs @ b # ys" "b \<notin> set xs" using b by (meson split_list_first)
  have dist: "b \<notin> set ys" using seg_distinct [OF chain_seg [OF ch]] bs by simp
  note f = take_fields [OF chain_bounds(1) [OF ch b] sz, where t = t and s = s]
  have oth: "answers ?m t' s' c = answers m t' s' c" if "c \<in> set xs \<union> set ys" for c
    using agree_answers [OF take_other [OF ch b sz] l] that bs dist by auto
  have xs: "find (answers ?m t' s') xs = find (answers m t' s') xs"
    and ys: "find (answers ?m t' s') ys = find (answers m t' s') ys"
    by (rule find_cong_set, simp add: oth)+
  have nb: "\<not> answers m t' s' b"
    using fr t' block_type_num_inj by (metis answers_def is_free_def)
  have rest: "splits m b n \<Longrightarrow> \<not> answers ?m t' s' (rest_of b n)"
    using f(11) t' block_type_num_inj [of t' block_type_free] by (auto simp: answers_def)
  have tw: "takeWhile (\<lambda>c. c \<noteq> b) bs = xs" using bs by (induction xs arbitrary: bs) auto
  show ?thesis unfolding tw
    using bs nb rest xs ys by (auto simp: chain_take_split find_append' split: option.splits)
qed

section \<open>What a call promises\<close>

lemma alloc_ready:
  "cmm_fully_initialized p \<Longrightarrow> n \<noteq> 0 \<Longrightarrow>
     cmm_block_alloc p m t (Some s) n = cmm_alloc_mem m t s n"
  by (simp add: cmm_block_alloc_def)

lemma take_size_bounds:
  assumes "20 \<le> b" "n \<le> blk_size m b"
  shows "n \<le> blk_size (cmm_take m b t s n) b"
    "unat (blk_size (cmm_take m b t s n) b) \<le> unat n + 48"
  using take_fields(9) [OF assms, of t s] assms(2)
  by (auto simp: splits_def sizeof_block_def)

text \<open>
  The interface the other libraries use: blocks are looked up by type and name, and
  created when they are missing. \<open>usable\<close> is a type and a name that a block can answer to.
\<close>

definition usable :: "cmm_block_type_t \<Rightarrow> string \<Rightarrow> bool" where
  "usable t s \<longleftrightarrow> t \<noteq> block_type_free \<and> length s < CMM_NAME_MAX_LEN \<and> c_string s"

locale block_store =
  fixes inv :: "'m \<Rightarrow> bool"
    and new :: "'m \<Rightarrow> cmm_block_type_t \<Rightarrow> string \<Rightarrow> u32 \<Rightarrow> ('m \<times> nat option) option"
    and look :: "'m \<Rightarrow> cmm_block_type_t \<Rightarrow> string \<Rightarrow> (nat \<times> u32) option option"
  assumes new_returns: "inv m \<Longrightarrow> \<exists>m' r. new m t s n = Some (m', r) \<and> inv m'"
    and new_fails: "inv m \<Longrightarrow> new m t s n = Some (m', None) \<Longrightarrow> m' = m"
    and look_returns: "inv m \<Longrightarrow> look m t s \<noteq> None"
    and look_new: "inv m \<Longrightarrow> new m t s n = Some (m', Some a) \<Longrightarrow> usable t s \<Longrightarrow>
      look m t s = Some None \<Longrightarrow>
      \<exists>z. look m' t s = Some (Some (a, z)) \<and> n \<le> z \<and> unat z \<le> unat n + 48"
    and look_other: "inv m \<Longrightarrow> new m t s n = Some (m', r) \<Longrightarrow> usable t s \<Longrightarrow> usable t' s' \<Longrightarrow>
      (t', s') \<noteq> (t, s) \<Longrightarrow> look m' t' s' = look m t' s'"
begin

text \<open>The idiom of every client: use the block that is there, or create it.\<close>

definition find_or_new :: "'m \<Rightarrow> cmm_block_type_t \<Rightarrow> string \<Rightarrow> u32 \<Rightarrow> ('m \<times> nat option) option" where
  "find_or_new m t s n =
     (case look m t s of
        None \<Rightarrow> None
      | Some (Some (a, z)) \<Rightarrow> Some (m, Some a)
      | Some None \<Rightarrow> new m t s n)"

lemma find_or_new_returns: "inv m \<Longrightarrow> \<exists>m' r. find_or_new m t s n = Some (m', r) \<and> inv m'"
  using look_returns [of m t s] new_returns [of m t s n]
  by (auto simp: find_or_new_def split: option.splits)

text \<open>A second process that asks for the block gets the one the first process got.\<close>

lemma find_or_new_again:
  assumes "inv m" "usable t s" "find_or_new m t s n = Some (m', Some a)"
  shows "find_or_new m' t s k = Some (m', Some a)"
  using assms look_returns [of m t s] look_new [OF assms(1) _ assms(2), of n m' a]
  by (auto simp: find_or_new_def split: option.splits)

lemma find_or_new_other:
  assumes "inv m" "usable t s" "usable t' s'" "(t', s') \<noteq> (t, s)"
    and "find_or_new m t s n = Some (m', r)"
  shows "look m' t' s' = look m t' s'"
  using assms(5) look_returns [OF assms(1), of t s] look_other [OF assms(1) _ assms(2-4), of n m' r]
  by (auto simp: find_or_new_def split: option.splits)

end

lemma usable_len: "usable t s \<Longrightarrow> t \<noteq> block_type_free \<and> length s < 31 \<and> length s \<le> 43 \<and> c_string s"
  by (auto simp: usable_def CMM_NAME_MAX_LEN_def)

lemma chain_find': "cmm_chain m bs \<Longrightarrow>
  cmm_find_mem m t s = Some (map_option (\<lambda>b. (b + 48, blk_size m b)) (find (answers m t s) bs))"
  using chain_find [of m bs t s] by (simp add: answers_def [abs_def])

lemma cmm_look_new:
  assumes ch: "cmm_chain m bs" and new: "cmm_alloc_mem m t s n = Some (m', Some a)"
    and u: "usable t s" and no: "cmm_find_mem m t s = Some None"
  shows "\<exists>z. cmm_find_mem m' t s = Some (Some (a, z)) \<and> n \<le> z \<and> unat z \<le> unat n + 48"
proof (cases rule: alloc_cases [OF ch, of t s n])
  case 1
  then show ?thesis using new by simp
next
  case (2 b)
  then have m': "m' = cmm_take m b t s n" "a = b + 48" and sz: "n \<le> blk_size m b"
    and fr: "is_free m b"
    using new by (auto simp: suits_def is_free_def)
  have b20: "20 \<le> b" using chain_bounds(1) [OF ch 2(3)] .
  note us = usable_len [OF u]
  have "answers m' t s b"
    unfolding m' answers_def using take_fields(1) [OF b20 sz] take_named [OF b20 sz] us by simp
  moreover have "find (answers m t s) bs = None"
    using no chain_find' [OF ch] by simp
  then have "find (answers m t s) (takeWhile (\<lambda>c. c \<noteq> b) bs) = None"
    by (auto simp: find_None_iff dest: set_takeWhileD)
  ultimately have "find (answers m' t s) (chain_take m bs b n) = Some b"
    using find_take [OF ch 2(3) sz fr, of t s t s] us m' by simp
  then show ?thesis
    using chain_find' [OF chain_take_chain [OF ch 2(3) sz, of t s], of t s] m'
      take_size_bounds [OF b20 sz] by simp
qed

lemma cmm_look_other:
  assumes ch: "cmm_chain m bs" and new: "cmm_alloc_mem m t s n = Some (m', r)"
    and u: "usable t s" "usable t' s'" "(t', s') \<noteq> (t, s)"
  shows "cmm_find_mem m' t' s' = cmm_find_mem m t' s'"
proof (cases rule: alloc_cases [OF ch, of t s n])
  case 1
  then show ?thesis using new by simp
next
  case (2 b)
  then have m': "m' = cmm_take m b t s n" and sz: "n \<le> blk_size m b" and fr: "is_free m b"
    using new by (auto simp: suits_def is_free_def)
  have b20: "20 \<le> b" using chain_bounds(1) [OF ch 2(3)] .
  note us = usable_len [OF u(1)] usable_len [OF u(2)]
  have nb: "\<not> answers m' t' s' b"
    using take_not_named [OF b20 sz, of s s' t] take_fields(1) [OF b20 sz, of t s] us u(3) m'
    by (auto simp: answers_def)
  then have f: "find (answers m' t' s') (chain_take m bs b n) = find (answers m t' s') bs"
    using find_take [OF ch 2(3) sz fr, of t' s' t s] us m' by simp
  have "blk_size m' c = blk_size m c" if "find (answers m t' s') bs = Some c" for c
  proof -
    have "c \<in> set bs" "answers m t' s' c"
      using that by (auto simp: find_Some_iff)
    moreover have "\<not> answers m t' s' b"
      using fr us block_type_num_inj by (metis answers_def is_free_def)
    ultimately have c: "c \<in> set bs" "c \<noteq> b" by auto
    from take_other [OF ch 2(3) sz c, of t s] have "agree_on m m' c (c + 48)"
      unfolding m' by (rule agree_on_sub) (simp_all add: blk_end_def sizeof_block_def)
    then show ?thesis by (rule agree_hdr)
  qed
  then show ?thesis
    using chain_find' [OF chain_take_chain [OF ch 2(3) sz, of t s], of t' s'] chain_find' [OF ch]
      f m' by (cases "find (answers m t' s') bs") auto
qed

interpretation store: block_store cmm_inv cmm_alloc_mem cmm_find_mem
proof
  fix m t s n
  assume "cmm_inv m"
  then obtain bs where ch: "cmm_chain m bs" by (auto simp: cmm_inv_def)
  show "\<exists>m' r. cmm_alloc_mem m t s n = Some (m', r) \<and> cmm_inv m'"
    by (cases rule: alloc_cases [OF ch, of t s n])
      (use ch chain_take_chain [OF ch] in \<open>force simp: suits_def cmm_inv_def\<close>)+
  show "cmm_find_mem m t s \<noteq> None" using chain_find' [OF ch] by simp
  fix m'
  assume "cmm_alloc_mem m t s n = Some (m', None)"
  then show "m' = m" by (cases rule: alloc_cases [OF ch, of t s n]) auto
next
  fix m t s n m' a
  assume "cmm_inv m" "cmm_alloc_mem m t s n = Some (m', Some a)" "usable t s"
    "cmm_find_mem m t s = Some None"
  then show "\<exists>z. cmm_find_mem m' t s = Some (Some (a, z)) \<and> n \<le> z \<and> unat z \<le> unat n + 48"
    using cmm_look_new by (auto simp: cmm_inv_def)
next
  fix m t s n m' r t' s'
  assume "cmm_inv m" "cmm_alloc_mem m t s n = Some (m', r)" "usable t s" "usable t' s'"
    "(t', s') \<noteq> (t, s)"
  then show "cmm_find_mem m' t' s' = cmm_find_mem m t' s'"
    using cmm_look_other by (auto simp: cmm_inv_def)
qed

end
