(* ===== verification/CmmData.thy ===== *)
theory CmmData
  imports CmmApi
begin

text \<open>
  A client writes into the block it was handed: what that leaves alone. The libraries that keep
  a record in a block find it again with the contents they stored.
\<close>

text \<open>\<open>m'\<close> differs from \<open>m\<close> in the data of the block at \<open>b\<close> only.\<close>

definition data_write :: "mem \<Rightarrow> nat \<Rightarrow> mem \<Rightarrow> bool" where
  "data_write m b m' \<longleftrightarrow> (\<forall>x. x < b + 48 \<or> blk_end m b \<le> x \<longrightarrow> m' x = m x)"

lemma data_write_agree:
  "data_write m b m' \<Longrightarrow> z \<le> b + 48 \<or> blk_end m b \<le> a \<Longrightarrow> agree_on m m' a z"
  by (auto simp: data_write_def agree_on_def)

lemma data_write_hdr:
  assumes ch: "cmm_chain m bs" and dw: "data_write m b m'" and b: "b \<in> set bs" and c: "c \<in> set bs"
  shows "agree_on m m' c (c + 48)"
proof (rule data_write_agree [OF dw])
  show "c + 48 \<le> b + 48 \<or> blk_end m b \<le> c"
    using chain_disjoint [OF ch b c] chain_bounds(2) [OF ch c] by (cases "b = c") auto
qed

lemma seg_hdrs:
  "seg m e a bs z \<Longrightarrow> (\<And>c. c \<in> set bs \<Longrightarrow> agree_on m m' c (c + 48)) \<Longrightarrow> seg m' e a bs z"
proof (induction bs arbitrary: a)
  case (Cons b bs)
  then have "blk_next m' b = blk_next m b" "blk_end m' b = blk_end m b"
    using agree_hdr [of m m' b] by auto
  then show ?case using Cons by auto
qed simp

lemma data_write_chain:
  assumes ch: "cmm_chain m bs" and dw: "data_write m b m'" and b: "b \<in> set bs"
  shows "cmm_chain m' bs"
proof -
  have "agree_on m m' 0 20"
    using chain_bounds(1) [OF ch b] by (intro data_write_agree [OF dw]) simp
  then have "cmm_magic m' = cmm_magic m" "confmap_size m' = confmap_size m"
    "first_block m' = first_block m"
    by (simp_all add: cmm_magic_def confmap_size_def first_block_def agree_rd32)
  then show ?thesis
    using ch seg_hdrs [OF _ data_write_hdr [OF ch dw b]]
    by (auto simp: cmm_chain_def)
qed

lemma agree_answers_hdr:
  "agree_on m m' c (c + 48) \<Longrightarrow> length s \<le> 43 \<Longrightarrow> answers m' t s c = answers m t s c"
  using agree_hdr(1) agree_name by (simp add: answers_def)

lemma data_write_find:
  assumes ch: "cmm_chain m bs" and dw: "data_write m b m'" and b: "b \<in> set bs" and l: "length s \<le> 43"
  shows "cmm_find_mem m' t s = cmm_find_mem m t s"
proof -
  have "find (answers m' t s) bs = find (answers m t s) bs"
    by (rule find_cong_set) (rule agree_answers_hdr [OF data_write_hdr [OF ch dw b] l])
  moreover have "blk_size m' c = blk_size m c" if "c \<in> set bs" for c
    using agree_hdr(4) [OF data_write_hdr [OF ch dw b that]] .
  then have "find (answers m t s) bs = Some c \<Longrightarrow> blk_size m' c = blk_size m c" for c
    by (metis find_Some_iff nth_mem)
  ultimately show ?thesis
    using chain_find' [OF ch] chain_find' [OF data_write_chain [OF ch dw b]]
    by (cases "find (answers m t s) bs") auto
qed

lemma alloc_write_inv:
  assumes inv: "cmm_inv m" and new: "cmm_alloc_mem m t s n = Some (m1, Some a)"
    and out: "\<forall>x. x < a \<or> a + unat n \<le> x \<longrightarrow> m' x = m1 x"
  shows "cmm_inv m'"
proof -
  from inv obtain bs where ch: "cmm_chain m bs" by (auto simp: cmm_inv_def)
  obtain b where b: "b \<in> set bs" "n \<le> blk_size m b" "m1 = cmm_take m b t s n" "a = b + 48"
    by (cases rule: alloc_cases [OF ch, of t s n]) (use new in \<open>auto simp: suits_def\<close>)
  have ch1: "cmm_chain m1 (chain_take m bs b n)" using chain_take_chain [OF ch b(1,2)] b(3) by simp
  have b1: "b \<in> set (chain_take m bs b n)" using chain_take_old [OF b(1)] b(1) by blast
  have "n \<le> blk_size m1 b"
    using take_size_bounds(1) [OF chain_bounds(1) [OF ch b(1)] b(2)] b(3) by simp
  then have "data_write m1 b m'"
    using out b(4)
    by (auto simp: data_write_def blk_end_def sizeof_block_def word_le_nat_alt)
  then show ?thesis using data_write_chain [OF ch1 _ b1] by (auto simp: cmm_inv_def)
qed

text \<open>What the client knows after it created a block and wrote into it.\<close>

lemma alloc_write_find:
  assumes inv: "cmm_inv m" and new: "cmm_alloc_mem m t s n = Some (m1, Some a)"
    and u: "usable t s" and no: "cmm_find_mem m t s = Some None"
    and out: "\<forall>x. x < a \<or> a + unat n \<le> x \<longrightarrow> m' x = m1 x"
  shows "cmm_inv m'"
    "\<exists>z. cmm_find_mem m' t s = Some (Some (a, z)) \<and> n \<le> z \<and> unat z \<le> unat n + 48"
    "usable t' s' \<Longrightarrow> (t', s') \<noteq> (t, s) \<Longrightarrow> cmm_find_mem m' t' s' = cmm_find_mem m t' s'"
proof -
  from inv obtain bs where ch: "cmm_chain m bs" by (auto simp: cmm_inv_def)
  obtain b where b: "b \<in> set bs" "n \<le> blk_size m b" "m1 = cmm_take m b t s n" "a = b + 48"
    by (cases rule: alloc_cases [OF ch, of t s n]) (use new in \<open>auto simp: suits_def\<close>)
  have ch1: "cmm_chain m1 (chain_take m bs b n)" using chain_take_chain [OF ch b(1,2)] b(3) by simp
  have b1: "b \<in> set (chain_take m bs b n)" using chain_take_old [OF b(1)] b(1) by blast
  have "n \<le> blk_size m1 b"
    using take_size_bounds(1) [OF chain_bounds(1) [OF ch b(1)] b(2)] b(3) by simp
  then have dw: "data_write m1 b m'"
    using out b(4)
    by (auto simp: data_write_def blk_end_def sizeof_block_def word_le_nat_alt)
  show "cmm_inv m'" by (rule alloc_write_inv [OF inv new out])
  show "\<exists>z. cmm_find_mem m' t s = Some (Some (a, z)) \<and> n \<le> z \<and> unat z \<le> unat n + 48"
    using cmm_look_new [OF ch new u no] data_write_find [OF ch1 dw b1] usable_len [OF u] by simp
  show "cmm_find_mem m' t' s' = cmm_find_mem m t' s'"
    if "usable t' s'" "(t', s') \<noteq> (t, s)"
    using cmm_look_other [OF ch new u that] data_write_find [OF ch1 dw b1] usable_len [OF that(1)]
    by simp
qed

end
