(* ===== verification/StringUtil.thy ===== *)
theory StringUtil
  imports Prelude
begin

text \<open>
  \<^verbatim>\<open>lib/misc/string_util.c\<close>: numbers from strings, on a machine with 64-bit
  \<^verbatim>\<open>long\<close>. \<^verbatim>\<open>errno\<close> is one bit of state, whether it holds
  \<^verbatim>\<open>ERANGE\<close>; nothing in these functions clears it. A conversion returns the new
  \<^verbatim>\<open>errno\<close> and, on success, the number; on failure the caller's variable is not
  written. The conversion of floats is the C library's, a parameter.
\<close>

section \<open>strtol and strtoul\<close>

definition is_space :: "char \<Rightarrow> bool" where
  "is_space c \<longleftrightarrow> of_char c \<in> {9, 10, 11, 12, 13, 32 :: nat}"

definition digit_of :: "char \<Rightarrow> nat option" where
  "digit_of c =
     (let n = (of_char c :: nat)
      in if 48 \<le> n \<and> n \<le> 57 then Some (n - 48)
         else if 97 \<le> n \<and> n \<le> 122 then Some (n - 87)
         else if 65 \<le> n \<and> n \<le> 90 then Some (n - 55) else None)"

definition in_base :: "nat \<Rightarrow> char \<Rightarrow> bool" where
  "in_base b c \<longleftrightarrow> (case digit_of c of None \<Rightarrow> False | Some d \<Rightarrow> d < b)"

definition digits_val :: "nat \<Rightarrow> string \<Rightarrow> nat" where
  "digits_val b ds = foldl (\<lambda>n c. n * b + the (digit_of c)) 0 ds"

text \<open>The base that base 0 stands for, and the text after the prefix.\<close>

fun base0 :: "string \<Rightarrow> nat \<times> string" where
  "base0 (CHR ''0'' # x # c # s) =
     (if (x = CHR ''x'' \<or> x = CHR ''X'') \<and> in_base 16 c then (16, c # s) else (8, CHR ''0'' # x # c # s))"
| "base0 (CHR ''0'' # s) = (8, CHR ''0'' # s)"
| "base0 s = (10, s)"

fun sign_of :: "string \<Rightarrow> int \<times> string" where
  "sign_of (CHR ''-'' # s) = (-1, s)"
| "sign_of (CHR ''+'' # s) = (1, s)"
| "sign_of s = (1, s)"

text \<open>The sign, the magnitude and the text after the number; \<open>None\<close> when there is no number.\<close>

definition strto_parse :: "string \<Rightarrow> (int \<times> nat \<times> string) option" where
  "strto_parse str =
     (let (sg, s1) = sign_of (dropWhile is_space str);
          (b, s2) = base0 s1;
          ds = takeWhile (in_base b) s2
      in if ds = [] then None else Some (sg, digits_val b ds, dropWhile (in_base b) s2))"

text \<open>Value, whether the range was left, and the rest.\<close>

definition c_strtol :: "string \<Rightarrow> int \<times> bool \<times> string option" where
  "c_strtol str =
     (case strto_parse str of
        None \<Rightarrow> (0, False, None)
      | Some (sg, n, rest) \<Rightarrow>
          let v = sg * int n
          in if v < - (2 ^ 63) then (- (2 ^ 63), True, Some rest)
             else if 2 ^ 63 - 1 < v then (2 ^ 63 - 1, True, Some rest)
             else (v, False, Some rest))"

definition c_strtoul :: "string \<Rightarrow> int \<times> bool \<times> string option" where
  "c_strtoul str =
     (case strto_parse str of
        None \<Rightarrow> (0, False, None)
      | Some (sg, n, rest) \<Rightarrow>
          if 2 ^ 64 - 1 < int n then (2 ^ 64 - 1, True, Some rest)
          else ((sg * int n) mod 2 ^ 64, False, Some rest))"

section \<open>The conversions\<close>

text \<open>The body of \<^verbatim>\<open>__string_util_str_to_type\<close>: the number is first stored in a
  variable of the target type, and that is what the bounds are compared with.\<close>

definition str_to_type ::
  "(int \<Rightarrow> int) \<Rightarrow> int \<times> bool \<times> string option \<Rightarrow> bool \<Rightarrow> int \<Rightarrow> int \<Rightarrow> bool \<times> int option" where
  "str_to_type narrow conv errange mn mx =
     (case conv of (v, overflow, rest) \<Rightarrow>
        let errange' = (errange \<or> overflow);
            tmp_numb = narrow v
        in (errange',
            if errange' \<or> rest \<noteq> Some [] \<or> tmp_numb < mn \<or> mx < tmp_numb then None
            else Some tmp_numb))"

definition to_i32 :: "int \<Rightarrow> int" where
  "to_i32 v = sint (word_of_int v :: i32)"

definition to_u32 :: "int \<Rightarrow> int" where
  "to_u32 v = uint (word_of_int v :: u32)"

definition string_str_to_i32 :: "bool \<Rightarrow> string option \<Rightarrow> int \<Rightarrow> int \<Rightarrow> bool \<times> int option" where
  "string_str_to_i32 errange str mn mx =
     (case str of None \<Rightarrow> (errange, None)
      | Some s \<Rightarrow> str_to_type to_i32 (c_strtol s) errange mn mx)"

definition string_str_to_int :: "bool \<Rightarrow> string option \<Rightarrow> int \<Rightarrow> int \<Rightarrow> bool \<times> int option" where
  "string_str_to_int errange str mn mx = string_str_to_i32 errange str mn mx"

definition string_str_to_u32 :: "bool \<Rightarrow> string option \<Rightarrow> int \<Rightarrow> int \<Rightarrow> bool \<times> int option" where
  "string_str_to_u32 errange str mn mx =
     (case str of None \<Rightarrow> (errange, None)
      | Some s \<Rightarrow>
          let s' = dropWhile is_space s
          in if s' \<noteq> [] \<and> hd s' = CHR ''-'' then (errange, None)
             else str_to_type to_u32 (c_strtoul s') errange mn mx)"

section \<open>Other functions\<close>

text \<open>\<^verbatim>\<open>string_u_to_a\<close>: a question mark for each multi-byte character.\<close>

fun string_u_to_a :: "string \<Rightarrow> string" where
  "string_u_to_a [] = []"
| "string_u_to_a (c # src) =
     (let b = char_byte c AND 0xC0
      in if b = 0xC0 then CHR ''?'' # string_u_to_a src
         else if b = 0x80 then string_u_to_a src
         else c # string_u_to_a src)"

definition strdup2 :: "string \<Rightarrow> string \<Rightarrow> string" where
  "strdup2 a b = a @ b"

definition strdup3 :: "string \<Rightarrow> string \<Rightarrow> string \<Rightarrow> string" where
  "strdup3 a b c = a @ b @ c"

section \<open>Reading what was printed\<close>

definition digit_char :: "nat \<Rightarrow> char" where
  "digit_char d = char_of (48 + d)"

text \<open>The decimal text of a number.\<close>

fun decimal :: "nat \<Rightarrow> string" where
  "decimal n = (if n < 10 then [digit_char n] else decimal (n div 10) @ [digit_char (n mod 10)])"

declare decimal.simps [simp del]

lemma digit_char_code: "d < 10 \<Longrightarrow> of_char (digit_char d) = 48 + d"
  by (simp add: digit_char_def)

lemma digit_of_char: "d < 10 \<Longrightarrow> digit_of (digit_char d) = Some d"
  by (simp add: digit_of_def digit_char_code)

lemma in_base_digit: "d < 10 \<Longrightarrow> in_base 10 (digit_char d)"
  by (simp add: in_base_def digit_of_char)

lemma decimal_digits: "c \<in> set (decimal n) \<Longrightarrow> \<exists>d < 10. c = digit_char d"
proof (induction n rule: decimal.induct)
  case (1 n)
  show ?case
  proof (cases "n < 10")
    case True
    then show ?thesis using 1 by (subst (asm) (2) decimal.simps) auto
  next
    case False
    then have "c \<in> set (decimal (n div 10)) \<or> c = digit_char (n mod 10)"
      using 1 by (subst (asm) (2) decimal.simps) auto
    moreover have "n mod 10 < 10" by simp
    ultimately show ?thesis using 1 False by blast
  qed
qed

lemma decimal_val: "digits_val 10 (decimal n) = n"
proof (induction n rule: decimal.induct)
  case (1 n)
  show ?case
  proof (cases "n < 10")
    case True
    then show ?thesis by (subst decimal.simps) (simp add: digits_val_def digit_of_char)
  next
    case False
    then have "digits_val 10 (decimal (n div 10)) = n div 10" using 1 by blast
    then show ?thesis using False
      by (subst decimal.simps) (simp add: digits_val_def digit_of_char)
  qed
qed

lemma decimal_ne: "decimal n \<noteq> []"
  by (subst decimal.simps) simp

lemma decimal_hd: "0 < n \<Longrightarrow> hd (decimal n) \<noteq> CHR ''0''"
proof (induction n rule: decimal.induct)
  case (1 n)
  show ?case
  proof (cases "n < 10")
    case True
    have "of_char (digit_char n) \<noteq> (of_char (CHR ''0'') :: nat)"
      using True 1 by (simp add: digit_char_code)
    then show ?thesis using True by (subst decimal.simps) auto
  next
    case False
    then show ?thesis using 1 decimal_ne [of "n div 10"] by (subst decimal.simps) simp
  qed
qed

lemma digit_not_space: "d < 10 \<Longrightarrow> \<not> is_space (digit_char d)"
  by (simp add: is_space_def digit_char_code)

lemma digit_sign: "d < 10 \<Longrightarrow> digit_char d \<noteq> CHR ''-'' \<and> digit_char d \<noteq> CHR ''+''"
  using digit_char_code [of d] by auto

lemma sign_of_digit: "d < 10 \<Longrightarrow> sign_of (digit_char d # s) = (1, digit_char d # s)"
  using digit_sign [of d] by (cases "digit_char d # s" rule: sign_of.cases) auto

lemma base0_digit: "0 < d \<Longrightarrow> d < 10 \<Longrightarrow> base0 (digit_char d # s) = (10, digit_char d # s)"
proof -
  assume d: "0 < d" "d < 10"
  have "of_char (digit_char d) \<noteq> (of_char (CHR ''0'') :: nat)" using d by (simp add: digit_char_code)
  then have "digit_char d \<noteq> CHR ''0''" by auto
  then show ?thesis by (cases "digit_char d # s" rule: base0.cases) auto
qed

lemma parse_decimal: "0 < n \<Longrightarrow> strto_parse (decimal n) = Some (1, n, [])"
proof -
  assume n: "0 < n"
  obtain c cs where c: "decimal n = c # cs" using decimal_ne [of n] by (cases "decimal n") auto
  then obtain d where d: "d < 10" "c = digit_char d" using decimal_digits [of c n] by auto
  have "c \<noteq> CHR ''0''" using decimal_hd [OF n] c by simp
  moreover have "digit_char 0 = CHR ''0''"
    using digit_char_code [of 0] of_char_eq_iff [of "digit_char 0" "CHR ''0''", where 'a = nat] by simp
  ultimately have d0: "0 < d" using d by (cases "d = 0") auto
  have all: "\<forall>x \<in> set (decimal n). in_base 10 x"
    using decimal_digits in_base_digit by blast
  have "dropWhile is_space (decimal n) = decimal n"
    using c d digit_not_space by simp
  moreover have "sign_of (decimal n) = (1, decimal n)" using c d sign_of_digit by simp
  moreover have "base0 (decimal n) = (10, decimal n)" using c d d0 base0_digit by simp
  ultimately show ?thesis
    using all decimal_ne [of n] by (simp add: strto_parse_def decimal_val Let_def takeWhile_eq_all_conv [THEN iffD2]
      dropWhile_eq_Nil_conv [THEN iffD2])
qed

lemma decimal_read:
  assumes "0 < n" "int n < 2 ^ 31" "mn \<le> int n" "int n \<le> mx"
  shows "string_str_to_i32 False (Some (decimal n)) mn mx = (False, Some (int n))
    \<and> string_str_to_u32 False (Some (decimal n)) mn mx = (False, Some (int n))"
proof -
  obtain c cs where c: "decimal n = c # cs" using decimal_ne [of n] by (cases "decimal n") auto
  then obtain d where d: "d < 10" "c = digit_char d" using decimal_digits [of c n] by auto
  have sp: "dropWhile is_space (decimal n) = decimal n" "hd (decimal n) \<noteq> CHR ''-''"
    using c d digit_not_space digit_sign by auto
  have "to_i32 (int n) = signed_take_bit 31 (int n)"
    unfolding to_i32_def by (simp only: sint_sbintrunc') simp
  also have "\<dots> = int n" using assms(2) by (simp add: signed_take_bit_int_eq_self_iff)
  finally have i: "to_i32 (int n) = int n" .
  have u: "to_u32 (int n) = int n"
    using assms(2) by (simp only: to_u32_def uint_word_of_int) (simp add: take_bit_int_eq_self_iff)
  show ?thesis
    using parse_decimal [OF assms(1)] assms sp i u
    by (simp add: string_str_to_i32_def string_str_to_u32_def str_to_type_def c_strtol_def
      c_strtoul_def Let_def)
qed

text \<open>The decimal text of a number is read back as that number, when it is in range and no earlier
  conversion has overflowed.\<close>

theorem string_decimal_roundtrip:
  assumes "0 < n" "int n < 2 ^ 31" "mn \<le> int n" "int n \<le> mx"
  shows "string_str_to_i32 False (Some (decimal n)) mn mx = (False, Some (int n))
    \<and> string_str_to_u32 False (Some (decimal n)) mn mx = (False, Some (int n))"
  using decimal_read [OF assms] .

lemma string_decimal_roundtrip_witness:
  "string_str_to_i32 False (Some (decimal 4711)) 0 9999 = (False, Some 4711)"
  using string_decimal_roundtrip [of 4711 0 9999] by simp

lemmas num_simps = string_str_to_i32_def string_str_to_u32_def str_to_type_def c_strtol_def
  c_strtoul_def strto_parse_def is_space_def in_base_def digit_of_def digits_val_def Let_def
  to_i32_def to_u32_def

text \<open>A number out of the range of \<^verbatim>\<open>long\<close> makes every later conversion fail,
  since \<^verbatim>\<open>errno\<close> is tested and never cleared.\<close>

theorem string_errno_sticks:
  "string_str_to_i32 True str mn mx = (True, None) \<and> string_str_to_u32 True str mn mx = (True, None)
   \<and> fst (string_str_to_i32 False (Some ''99999999999999999999'') 0 9) = True"
proof (intro conjI)
  show "string_str_to_i32 True str mn mx = (True, None)"
    by (auto simp: string_str_to_i32_def str_to_type_def Let_def split: option.split prod.split)
  show "string_str_to_u32 True str mn mx = (True, None)"
    by (auto simp: string_str_to_u32_def str_to_type_def Let_def split: option.split prod.split)
  show "fst (string_str_to_i32 False (Some ''99999999999999999999'') 0 9) = True"
    by (simp add: num_simps)
qed

text \<open>The bounds are checked after the number has been cut to 32 bits: with a 64-bit
  \<^verbatim>\<open>long\<close> four gigabytes and one is accepted as 1, for signed and unsigned alike.\<close>

theorem string_bounds_after_truncation:
  "string_str_to_i32 False (Some ''4294967297'') 0 9 = (False, Some 1)
   \<and> string_str_to_u32 False (Some ''4294967297'') 0 9 = (False, Some 1)"
  by (simp add: num_simps)

end
