(* ===== verification/SynchSem.thy ===== *)
theory SynchSem
  imports CmmData StringUtil "HOL-Library.Monad_Syntax"
begin

text \<open>
  The semaphore sets of \<^verbatim>\<open>lib/synch/synch_sem.c\<close> in the version for systems without
  System V semaphores (\<^verbatim>\<open>PLCSYNCHSEM_POSIX_SEM\<close>): a set is an array of values and a
  doubly linked list of the processes that sleep on it, ordered by their priority; a call
  tries all operations of a request at once, undoes them when one cannot be done, and wakes
  those whose requests became possible.

  Every \<^verbatim>\<open>plcsynchsem_local_t_\<close> is named by its offset in the shared memory segment,
  and 0 is the code's mark of no element, so the store is a function from offsets to records
  and an update through one pointer is seen through every other. The body of
  \<^verbatim>\<open>plcsynchsem_synch\<close> runs with the set's own POSIX semaphore held and is one step
  here; sleeping on \<^verbatim>\<open>localpsem\<close> is a result, and waking up a step of its own.
  A value of \<open>None\<close> is a loop that never ends or an access outside the array of values.
\<close>

section \<open>State\<close>

record plcsynchsem_parm =
  sem_num :: u16
  sem_flg :: i16
  sem_op :: i16

record plcsynchsem_global =
  num_sem :: u16
  blocked_list_first :: u32
  sem_values :: "u32 list"

record plcsynchsem_local =
  localpsem :: nat
  globalsem_ptr :: u32
  priority :: i32
  list_next :: u32
  list_prev :: u32
  blocked_parm :: u32
  blocked_parm_count :: i32

type_synonym sem_store = "u32 \<Rightarrow> plcsynchsem_local"

text \<open>\<^verbatim>\<open>ss_parm a i\<close> is \<^verbatim>\<open>reref_parm(a)[i]\<close>.\<close>

record synchsem_state =
  ss_global :: "u32 \<Rightarrow> plcsynchsem_global"
  ss_local :: sem_store
  ss_parm :: "u32 \<Rightarrow> nat \<Rightarrow> plcsynchsem_parm"

section \<open>The list of processes\<close>

partial_function (option) insert_walk :: "sem_store \<Rightarrow> i32 \<Rightarrow> u32 \<Rightarrow> (u32 \<times> u32) option" where
  [code]: "insert_walk st prio prevelem =
     (let n = list_next (st prevelem)
      in if n = 0 then Some (prevelem, 0)
         else if sint prio > sint (priority (st n)) then Some (prevelem, n)
         else insert_walk st prio n)"

definition insert_list :: "sem_store \<Rightarrow> u32 \<Rightarrow> u32 \<Rightarrow> (sem_store \<times> u32) option" where
  "insert_list st head inselem =
     (if head = 0
      then Some (st(inselem := (st inselem)\<lparr>list_prev := 0, list_next := 0\<rparr>), inselem)
      else if sint (priority (st inselem)) > sint (priority (st head))
      then let st1 = st(inselem := (st inselem)\<lparr>list_prev := 0, list_next := head\<rparr>)
           in Some (st1(head := (st1 head)\<lparr>list_prev := inselem\<rparr>), inselem)
      else do {
        (prevelem, nextelem) \<leftarrow> insert_walk st (priority (st inselem)) head;
        let st1 = st(inselem := (st inselem)\<lparr>list_prev := prevelem,
                                             list_next := list_next (st prevelem)\<rparr>);
        let st2 = st1(prevelem := (st1 prevelem)\<lparr>list_next := inselem\<rparr>);
        Some (if nextelem \<noteq> 0
              then st2(nextelem := (st2 nextelem)\<lparr>list_prev := list_next (st2 prevelem)\<rparr>)
              else st2, head)
      })"

definition remove_list :: "sem_store \<Rightarrow> u32 \<Rightarrow> u32 \<Rightarrow> sem_store \<times> u32" where
  "remove_list st head remelem =
     (let p = list_prev (st remelem);
          (st1, head1) =
            (if p = 0 then (st, list_next (st remelem))
             else (st(p := (st p)\<lparr>list_next := list_next (st remelem)\<rparr>), head));
          n = list_next (st1 remelem)
      in (if n = 0 then st1
          else st1(n := (st1 n)\<lparr>list_prev := list_prev (st1 remelem)\<rparr>), head1))"

section \<open>Trying a request\<close>

text \<open>The loop over the operations from the \<open>i\<close>-th on: the values it leaves and
  \<^verbatim>\<open>undo\<close>.\<close>

fun try_ops :: "plcsynchsem_parm list \<Rightarrow> nat \<Rightarrow> u32 list \<Rightarrow> (u32 list \<times> int) option" where
  "try_ops [] i vs = Some (vs, -1)"
| "try_ops (p # ps) i vs =
     (let n = unat (sem_num p)
      in if length vs \<le> n then None
         else if sint (sem_op p) > 0 then try_ops ps (i + 1) (vs[n := vs ! n + scast (sem_op p)])
         else if sem_op p = 0 then (if vs ! n \<noteq> 0 then Some (vs, int i) else try_ops ps (i + 1) vs)
         else if vs ! n < - scast (sem_op p) then Some (vs, int i)
         else try_ops ps (i + 1) (vs[n := vs ! n + scast (sem_op p)]))"

fun undo_ops :: "plcsynchsem_parm list \<Rightarrow> u32 list \<Rightarrow> u32 list" where
  "undo_ops [] vs = vs"
| "undo_ops (p # ps) vs =
     undo_ops ps (vs[unat (sem_num p) := vs ! unat (sem_num p) - scast (sem_op p)])"

definition parm_list :: "(u32 \<Rightarrow> nat \<Rightarrow> plcsynchsem_parm) \<Rightarrow> plcsynchsem_local \<Rightarrow> plcsynchsem_parm list" where
  "parm_list P l = map (P (blocked_parm l)) [0..<nat (sint (blocked_parm_count l))]"

definition try_release_process ::
  "(u32 \<Rightarrow> nat \<Rightarrow> plcsynchsem_parm) \<Rightarrow> u32 list \<Rightarrow> plcsynchsem_local \<Rightarrow> (u32 list \<times> int) option" where
  "try_release_process P vs l =
     do { let parm = parm_list P l;
          (vs1, undo) \<leftarrow> try_ops parm 0 vs;
          Some (undo_ops (take (nat undo) parm) vs1, undo) }"

section \<open>Releasing the blocked processes\<close>

text \<open>The inner loop of \<^verbatim>\<open>release_all_processes\<close>: the values and
  \<^verbatim>\<open>nextprocess\<close>, 0 when the end of the list was reached.\<close>

partial_function (option) release_scan ::
  "(u32 \<Rightarrow> nat \<Rightarrow> plcsynchsem_parm) \<Rightarrow> sem_store \<Rightarrow> u32 list \<Rightarrow> u32 \<Rightarrow> (u32 list \<times> u32) option" where
  [code]: "release_scan P st vs nextprocess =
     (if nextprocess = 0 then Some (vs, 0)
      else case try_release_process P vs (st nextprocess) of
             None \<Rightarrow> None
           | Some (vs1, undo) \<Rightarrow>
               if undo = -1 then Some (vs1, nextprocess)
               else release_scan P st vs1 (list_next (st nextprocess)))"

partial_function (option) release_rounds ::
  "(u32 \<Rightarrow> nat \<Rightarrow> plcsynchsem_parm) \<Rightarrow> plcsynchsem_global \<Rightarrow> sem_store \<Rightarrow> u32 \<Rightarrow>
     (plcsynchsem_global \<times> sem_store \<times> u32) option" where
  [code]: "release_rounds P g st signal_list =
     (case release_scan P st (sem_values g) (blocked_list_first g) of
        None \<Rightarrow> None
      | Some (vs, nextprocess) \<Rightarrow>
          let g1 = g\<lparr>sem_values := vs\<rparr>
          in if nextprocess = 0 then Some (g1, st, signal_list)
             else let (st1, first) = remove_list st (blocked_list_first g) nextprocess
                  in case insert_list st1 signal_list nextprocess of
                       None \<Rightarrow> None
                     | Some (st2, signal_list1) \<Rightarrow>
                         release_rounds P (g1\<lparr>blocked_list_first := first\<rparr>) st2 signal_list1)"

partial_function (option) post_signals :: "sem_store \<Rightarrow> u32 \<Rightarrow> sem_store option" where
  [code]: "post_signals st nextprocess =
     (if nextprocess = 0 then Some st
      else let st1 = st(nextprocess := (st nextprocess)\<lparr>localpsem := localpsem (st nextprocess) + 1\<rparr>)
           in post_signals st1 (list_next (st1 nextprocess)))"

definition release_all_processes ::
  "(u32 \<Rightarrow> nat \<Rightarrow> plcsynchsem_parm) \<Rightarrow> plcsynchsem_global \<Rightarrow> sem_store \<Rightarrow>
     (plcsynchsem_global \<times> sem_store) option" where
  "release_all_processes P g st =
     do { (g1, st1, signal_list) \<leftarrow> release_rounds P g st 0;
          st2 \<leftarrow> post_signals st1 signal_list;
          Some (g1, st2) }"

section \<open>The call\<close>

text \<open>What the call comes to: a return value, or sleep on the process's own semaphore.\<close>

datatype synch_outcome = Returns int | Sleeps

text \<open>\<^verbatim>\<open>parm\<close> is the place of the array relative to the segment. In
  \<^verbatim>\<open>parm[undo].sem_flg && IPC_NOWAIT\<close> the second operand is the constant 04000.\<close>

definition plcsynchsem_synch ::
  "cmm_proc \<Rightarrow> mem \<Rightarrow> synchsem_state \<Rightarrow> u32 \<Rightarrow> int \<Rightarrow> i32 \<Rightarrow> (synchsem_state \<times> synch_outcome) option" where
  "plcsynchsem_synch p m s sem parm parm_count =
     (if cmm_checkptr p m parm \<noteq> 1 then Some (s, Returns (-2))
      else do {
        let localsem = (ss_local s sem)\<lparr>blocked_parm := word_of_int parm,
                                       blocked_parm_count := parm_count\<rparr>;
        let st = (ss_local s)(sem := localsem);
        let gp = globalsem_ptr localsem;
        let g = ss_global s gp;
        (vs, undo) \<leftarrow> try_release_process (ss_parm s) (sem_values g) localsem;
        let g1 = g\<lparr>sem_values := vs\<rparr>;
        if undo = -1
        then do {
          (g2, st2) \<leftarrow> release_all_processes (ss_parm s) g1 st;
          Some (s\<lparr>ss_global := (ss_global s)(gp := g2), ss_local := st2\<rparr>, Returns 0)
        }
        else if sem_flg (ss_parm s (word_of_int parm) (nat undo)) \<noteq> 0
        then Some (s\<lparr>ss_global := (ss_global s)(gp := g1), ss_local := st\<rparr>, Returns (-1))
        else do {
          (st2, first) \<leftarrow> insert_list st (blocked_list_first g1) sem;
          Some (s\<lparr>ss_global := (ss_global s)(gp := g1\<lparr>blocked_list_first := first\<rparr>),
                  ss_local := st2\<rparr>, Sleeps)
        }
      })"

text \<open>The end of \<^verbatim>\<open>sem_wait(localpsem)\<close>: the call that slept returns 0.\<close>

definition sem_wake :: "synchsem_state \<Rightarrow> u32 \<Rightarrow> (synchsem_state \<times> int) option" where
  "sem_wake s sem =
     (if localpsem (ss_local s sem) = 0 then None
      else Some (s\<lparr>ss_local := (ss_local s)
             (sem := (ss_local s sem)\<lparr>localpsem := localpsem (ss_local s sem) - 1\<rparr>)\<rparr>, 0))"

section \<open>Making and opening sets\<close>

text \<open>\<open>zg\<close> and \<open>zl\<close> are the sizes of \<^verbatim>\<open>plcsynchsem_global_t_\<close> and
  \<^verbatim>\<open>plcsynchsem_local_t_\<close>, which contain the system's \<^verbatim>\<open>sem_t\<close>;
  \<open>made\<close> tells whether \<^verbatim>\<open>sem_init\<close>, \<open>destroyed\<close> whether
  \<^verbatim>\<open>sem_destroy\<close> reported success. The static \<^verbatim>\<open>refptr_\<close> is an argument and a
  result of the functions that set it. \<^verbatim>\<open>malloc\<close> succeeds.\<close>

definition build_synchsemname :: "int \<Rightarrow> string" where
  "build_synchsemname sem_key = ''plcsynchsem-'' @
     (if sem_key < 0 then CHR ''-'' # decimal (nat (- sem_key)) else decimal (nat sem_key))"

definition sizeof_global_t :: "u32 \<Rightarrow> int \<Rightarrow> u32" where
  "sizeof_global_t zg n = zg + word_of_int n * 4"

definition get_refptr :: "cmm_proc \<Rightarrow> nat option \<Rightarrow> nat option" where
  "get_refptr p refptr = (if refptr = None then cmm_refptr p else refptr)"

definition plcsynchsem_create ::
  "cmm_proc \<Rightarrow> mem \<Rightarrow> synchsem_state \<Rightarrow> nat option \<Rightarrow> u32 \<Rightarrow> bool \<Rightarrow> int \<Rightarrow> int \<Rightarrow> (nat \<Rightarrow> int) \<Rightarrow>
     (mem \<times> synchsem_state \<times> nat option \<times> int) option" where
  "plcsynchsem_create p m s refptr zg made sem_key num init_values =
     (let r1 = get_refptr p refptr
      in if r1 = None then Some (m, s, r1, -1)
         else case cmm_block_alloc p m block_type_plcsynchsem_global_t
                     (Some (build_synchsemname sem_key)) (sizeof_global_t zg num) of
                None \<Rightarrow> None
              | Some (m1, None) \<Rightarrow> Some (m1, s, r1, -1)
              | Some (m1, Some a) \<Rightarrow>
                  let g = (ss_global s (of_nat a))\<lparr>blocked_list_first := 0, num_sem := word_of_int num\<rparr>;
                      s1 = s\<lparr>ss_global := (ss_global s)(of_nat a := g)\<rparr>
                  in if \<not> made
                     then map_option (\<lambda>(m2, _). (m2, s1, r1, -1)) (cmm_block_free p m1 None)
                     else Some (m1, s1\<lparr>ss_global := (ss_global s1)(of_nat a :=
                            g\<lparr>sem_values := map (\<lambda>i. word_of_int (init_values i)) [0..<nat num]\<rparr>)\<rparr>,
                          r1, 0))"

definition plcsynchsem_open_global ::
  "cmm_proc \<Rightarrow> mem \<Rightarrow> synchsem_state \<Rightarrow> u32 \<Rightarrow> int \<Rightarrow> nat option option" where
  "plcsynchsem_open_global p m s zg sem_key =
     (case cmm_block_find p m block_type_plcsynchsem_global_t (Some (build_synchsemname sem_key)) of
        None \<Rightarrow> None
      | Some (None, z) \<Rightarrow> Some None
      | Some (Some a, z) \<Rightarrow>
          if sizeof_global_t zg (uint (num_sem (ss_global s (of_nat a)))) \<noteq> z then Some None
          else Some (Some a))"

definition plcsynchsem_open ::
  "cmm_proc \<Rightarrow> mem \<Rightarrow> synchsem_state \<Rightarrow> nat option \<Rightarrow> u32 \<Rightarrow> u32 \<Rightarrow> bool \<Rightarrow> int \<Rightarrow> i32 \<Rightarrow>
     (mem \<times> synchsem_state \<times> nat option \<times> nat option) option" where
  "plcsynchsem_open p m s refptr zg zl made sem_key prio =
     (let r1 = get_refptr p refptr
      in if r1 = None then Some (m, s, r1, None)
         else case plcsynchsem_open_global p m s zg sem_key of
                None \<Rightarrow> None
              | Some None \<Rightarrow> Some (m, s, r1, None)
              | Some (Some globalsem) \<Rightarrow>
                  (case cmm_block_alloc p m block_type_plcsynchsem_local_t
                          (Some ''SYNCHSEM_LOCAL'') zl of
                     None \<Rightarrow> None
                   | Some (m1, None) \<Rightarrow> Some (m1, s, r1, None)
                   | Some (m1, Some a) \<Rightarrow>
                       if \<not> made
                       then map_option (\<lambda>(m2, _). (m2, s, r1, None)) (cmm_block_free p m1 (Some a))
                       else Some (m1, s\<lparr>ss_local := (ss_local s)(of_nat a :=
                              \<lparr>localpsem = 0, globalsem_ptr = of_nat globalsem, priority = prio,
                               list_next = 0, list_prev = 0, blocked_parm = 0,
                               blocked_parm_count = 0\<rparr>)\<rparr>, r1, Some a)))"

definition plcsynchsem_delete ::
  "cmm_proc \<Rightarrow> mem \<Rightarrow> synchsem_state \<Rightarrow> u32 \<Rightarrow> int \<Rightarrow> (mem \<times> int) option" where
  "plcsynchsem_delete p m s zg sem_key =
     (case plcsynchsem_open_global p m s zg sem_key of
        None \<Rightarrow> None
      | Some None \<Rightarrow> Some (m, -1)
      | Some (Some sem) \<Rightarrow> cmm_block_free p m (Some sem))"

definition plcsynchsem_close :: "cmm_proc \<Rightarrow> mem \<Rightarrow> bool \<Rightarrow> nat option \<Rightarrow> (mem \<times> int) option" where
  "plcsynchsem_close p m destroyed sem =
     map_option (\<lambda>(m1, r). (m1, if r < 0 \<or> \<not> destroyed then -1 else 0)) (cmm_block_free p m sem)"

text \<open>\<open>rand\<close> is what the successive calls of \<^verbatim>\<open>rand()\<close> return. Keys that are
  \<^verbatim>\<open>PLCSYNCHSEM_INVALIDKEY\<close> are drawn again, without bound.\<close>

partial_function (option) next_key :: "(nat \<Rightarrow> int) \<Rightarrow> nat \<Rightarrow> (int \<times> nat) option" where
  [code]: "next_key rand j = (if rand j = 0 then next_key rand (j + 1) else Some (rand j, j + 1))"

fun createrand_loop ::
  "cmm_proc \<Rightarrow> u32 \<Rightarrow> (nat \<Rightarrow> bool) \<Rightarrow> (nat \<Rightarrow> int) \<Rightarrow> int \<Rightarrow> (nat \<Rightarrow> int) \<Rightarrow> nat \<Rightarrow> nat \<Rightarrow>
     mem \<Rightarrow> synchsem_state \<Rightarrow> nat option \<Rightarrow>
     (mem \<times> synchsem_state \<times> nat option \<times> int option) option" where
  "createrand_loop p zg made rand num init_values 0 j m s refptr = Some (m, s, refptr, None)"
| "createrand_loop p zg made rand num init_values (Suc tries) j m s refptr =
     (case next_key rand j of
        None \<Rightarrow> None
      | Some (local_key, j1) \<Rightarrow>
          (case plcsynchsem_create p m s refptr zg (made tries) local_key num init_values of
             None \<Rightarrow> None
           | Some (m1, s1, r1, res) \<Rightarrow>
               if res = 0 then Some (m1, s1, r1, Some local_key)
               else createrand_loop p zg made rand num init_values tries j1 m1 s1 r1))"

text \<open>\<^verbatim>\<open>num_sem\<close> is a \<^verbatim>\<open>short\<close> here. The result has the key that is stored
  through \<^verbatim>\<open>sem_key\<close>; no key is the return value -1.\<close>

definition SEM_MAX_RAND_KEY_TRIES :: nat where
  "SEM_MAX_RAND_KEY_TRIES = 10"

definition plcsynchsem_createrand ::
  "cmm_proc \<Rightarrow> mem \<Rightarrow> synchsem_state \<Rightarrow> nat option \<Rightarrow> u32 \<Rightarrow> (nat \<Rightarrow> bool) \<Rightarrow> (nat \<Rightarrow> int) \<Rightarrow> i16 \<Rightarrow>
     (nat \<Rightarrow> int) \<Rightarrow> (mem \<times> synchsem_state \<times> nat option \<times> int option) option" where
  "plcsynchsem_createrand p m s refptr zg made rand num init_values =
     createrand_loop p zg made rand (sint num) init_values SEM_MAX_RAND_KEY_TRIES 0 m s refptr"

section \<open>The System V version\<close>

text \<open>The system calls are parameters: \<^verbatim>\<open>semget\<close> (the last argument tells whether
  the set is to be made), \<^verbatim>\<open>semop\<close> with \<^verbatim>\<open>errno\<close> when it fails, and
  \<^verbatim>\<open>semctl(IPC_RMID)\<close>. A call that a signal interrupts is made again.\<close>

datatype semop_result = Sem_ok | Sem_eintr | Sem_eagain | Sem_error

record 'o sysv_os =
  os_semget :: "'o \<Rightarrow> int \<Rightarrow> int \<Rightarrow> bool \<Rightarrow> 'o \<times> int"
  os_semop :: "'o \<Rightarrow> int \<Rightarrow> plcsynchsem_parm list \<Rightarrow> 'o \<times> semop_result"
  os_rmid :: "'o \<Rightarrow> int \<Rightarrow> 'o \<times> int"

partial_function (option) semop_again ::
  "('o \<Rightarrow> int \<Rightarrow> plcsynchsem_parm list \<Rightarrow> 'o \<times> semop_result) \<Rightarrow> 'o \<Rightarrow> int \<Rightarrow> plcsynchsem_parm list \<Rightarrow>
     ('o \<times> semop_result) option" where
  [code]: "semop_again semop w sem ops =
     (let (w1, r) = semop w sem ops
      in if r = Sem_eintr then semop_again semop w1 sem ops else Some (w1, r))"

definition sysv_open :: "'o sysv_os \<Rightarrow> 'o \<Rightarrow> int \<Rightarrow> 'o \<times> int" where
  "sysv_open k w sem_key = os_semget k w sem_key 0 False"

definition sysv_delete :: "'o sysv_os \<Rightarrow> 'o \<Rightarrow> int \<Rightarrow> 'o \<times> int" where
  "sysv_delete k w sem_key =
     (let (w1, sem) = sysv_open k w sem_key
      in if sem = -1 then (w1, -1)
         else let (w2, r) = os_rmid k w1 sem in (w2, if r < 0 then -1 else 0))"

text \<open>On an error \<^verbatim>\<open>plcsynchsem_delete\<close> is called with the set's number, not with
  its key.\<close>

fun sysv_signal_init ::
  "'o sysv_os \<Rightarrow> int \<Rightarrow> (nat \<Rightarrow> int) \<Rightarrow> nat list \<Rightarrow> 'o \<Rightarrow> ('o \<times> int) option" where
  "sysv_signal_init k sem init_values [] w = Some (w, 0)"
| "sysv_signal_init k sem init_values (i # is) w =
     (case semop_again (os_semop k) w sem
             [\<lparr>sem_num = of_nat i, sem_flg = 0, sem_op = word_of_int (init_values i)\<rparr>] of
        None \<Rightarrow> None
      | Some (w1, r) \<Rightarrow>
          if r = Sem_ok then sysv_signal_init k sem init_values is w1
          else Some (fst (sysv_delete k w1 sem), -1))"

definition sysv_create :: "'o sysv_os \<Rightarrow> 'o \<Rightarrow> int \<Rightarrow> int \<Rightarrow> (nat \<Rightarrow> int) \<Rightarrow> ('o \<times> int) option" where
  "sysv_create k w sem_key num init_values =
     (let (w1, sem) = os_semget k w sem_key num True
      in if sem < 0 then Some (w1, -1)
         else sysv_signal_init k sem init_values [0..<nat num] w1)"

definition sysv_close :: "int \<Rightarrow> int" where
  "sysv_close sem = 0"

definition sysv_synch :: "'o sysv_os \<Rightarrow> 'o \<Rightarrow> int \<Rightarrow> plcsynchsem_parm list \<Rightarrow> ('o \<times> int) option" where
  "sysv_synch k w sem ops =
     map_option (\<lambda>(w1, r). (w1, case r of Sem_ok \<Rightarrow> 0 | Sem_eagain \<Rightarrow> -1 | _ \<Rightarrow> -2))
       (semop_again (os_semop k) w sem ops)"

end
