(* ===== verification/DsUtil.thy ===== *)
theory DsUtil
  imports Prelude "HOL-Library.List_Lexorder" "HOL-Library.Char_ord" "HOL-Library.Multiset"
begin

text \<open>
  The list and the dictionary of \<^verbatim>\<open>lib/misc/ds_util.h\<close>. A dictionary is an array of
  entries that \<^verbatim>\<open>qsort\<close> keeps in the order of \<^verbatim>\<open>strcmp\<close> and
  \<^verbatim>\<open>bsearch\<close> looks up; the order of strings is the lexicographic one on bytes. The
  main lemma is that this is a finite map.
\<close>

section \<open>Lists\<close>

definition list_append :: "'a list \<Rightarrow> 'a \<Rightarrow> 'a list" where
  "list_append lst item = lst @ [item]"

definition list_len :: "'a list option \<Rightarrow> int" where
  "list_len lst = (case lst of None \<Rightarrow> -1 | Some xs \<Rightarrow> int (length xs))"

definition list_item :: "'a list \<Rightarrow> int \<Rightarrow> 'a option" where
  "list_item lst index =
     (if index < 0 \<or> int (length lst) \<le> index then None else Some (lst ! nat index))"

section \<open>Dictionaries\<close>

type_synonym 'a dict = "(string \<times> 'a) list"

text \<open>\<^verbatim>\<open>strcmp\<close>, as the sign of the first difference.\<close>

fun c_strcmp :: "string \<Rightarrow> string \<Rightarrow> int" where
  "c_strcmp [] [] = 0"
| "c_strcmp [] (d # ds) = -1"
| "c_strcmp (c # cs) [] = 1"
| "c_strcmp (c # cs) (d # ds) = (if c < d then -1 else if d < c then 1 else c_strcmp cs ds)"

lemma c_strcmp_order: "c_strcmp s t = (if s < t then -1 else if t < s then 1 else 0)"
  by (induction s t rule: c_strcmp.induct) auto

lemma c_strcmp_refl [simp]: "c_strcmp s s = 0"
  by (induction s) auto

lemma c_strcmp_0 [simp]: "c_strcmp s t = 0 \<longleftrightarrow> s = t"
  by (auto simp: c_strcmp_order)

definition dict_add :: "'a dict \<Rightarrow> string \<Rightarrow> 'a \<Rightarrow> 'a dict" where
  "dict_add dct key data = sort_key fst (dct @ [(key, data)])"

definition dict_len :: "'a dict option \<Rightarrow> int" where
  "dict_len dct = (case dct of None \<Rightarrow> -1 | Some d \<Rightarrow> int (length d))"

definition dict_key :: "'a dict \<Rightarrow> int \<Rightarrow> string option" where
  "dict_key dct index =
     (if index < 0 \<or> int (length dct) \<le> index then None else Some (fst (dct ! nat index)))"

definition dict_value :: "'a dict \<Rightarrow> int \<Rightarrow> 'a option" where
  "dict_value dct index =
     (if index < 0 \<or> int (length dct) \<le> index then None else Some (snd (dct ! nat index)))"

text \<open>Binary search between the positions \<open>l\<close> (included) and \<open>u\<close> (excluded).\<close>

function bsearch :: "'a dict \<Rightarrow> string \<Rightarrow> nat \<Rightarrow> nat \<Rightarrow> 'a option" where
  "bsearch dct key l u =
     (if l < u then
        (let i = (l + u) div 2;
             c = c_strcmp key (fst (dct ! i))
         in if c < 0 then bsearch dct key l i
            else if 0 < c then bsearch dct key (i + 1) u
            else Some (snd (dct ! i)))
      else None)"
  by pat_completeness auto
termination by (relation "measure (\<lambda>(dct, key, l, u). u - l)") auto

declare bsearch.simps [simp del]

definition dict_get :: "'a dict \<Rightarrow> string \<Rightarrow> 'a option" where
  "dict_get dct key = bsearch dct key 0 (length dct)"

section \<open>A dictionary is a map\<close>

definition dict_ok :: "'a dict \<Rightarrow> bool" where
  "dict_ok dct \<longleftrightarrow> sorted (map fst dct) \<and> distinct (map fst dct)"

lemma dict_ok_less:
  assumes "dict_ok dct" "i < j" "j < length dct"
  shows "fst (dct ! i) < fst (dct ! j)"
proof -
  have "fst (dct ! i) \<le> fst (dct ! j)"
    using assms sorted_nth_mono [of "map fst dct" i j] by (simp add: dict_ok_def)
  moreover have "fst (dct ! i) \<noteq> fst (dct ! j)"
    using assms nth_eq_iff_index_eq [of "map fst dct" i j] by (simp add: dict_ok_def)
  ultimately show ?thesis by simp
qed

lemma bsearch_correct:
  assumes "dict_ok dct" "u \<le> length dct"
  shows "bsearch dct key l u = (if \<exists>i. l \<le> i \<and> i < u \<and> fst (dct ! i) = key then map_of dct key else None)"
  using assms
proof (induction dct key l u rule: bsearch.induct)
  case (1 dct key l u)
  show ?case
  proof (cases "l < u")
    case False
    then show ?thesis by (subst bsearch.simps) auto
  next
    case True
    define i where "i = (l + u) div 2"
    have i: "l \<le> i" "i < u" using True by (auto simp: i_def)
    have il: "i < length dct" using i "1.prems"(2) by simp
    have less: "j < i \<Longrightarrow> fst (dct ! j) < fst (dct ! i)" "i < j \<Longrightarrow> j < u \<Longrightarrow> fst (dct ! i) < fst (dct ! j)" for j
      using dict_ok_less [OF "1.prems"(1)] il "1.prems"(2) by simp_all
    consider "key < fst (dct ! i)" | "fst (dct ! i) < key" | "key = fst (dct ! i)" by fastforce
    then show ?thesis
    proof cases
      case 1
      have "bsearch dct key l u = bsearch dct key l i"
        using True 1 by (subst bsearch.simps) (simp add: i_def [symmetric] Let_def c_strcmp_order)
      moreover have "(\<exists>j. l \<le> j \<and> j < u \<and> fst (dct ! j) = key) \<longleftrightarrow> (\<exists>j. l \<le> j \<and> j < i \<and> fst (dct ! j) = key)"
        using 1 less(2) i by (metis less_trans not_less_iff_gr_or_eq)
      ultimately show ?thesis
        using "1.IH"(1) [OF True i_def refl] 1 "1.prems" il by (simp add: c_strcmp_order)
    next
      case 2
      have "bsearch dct key l u = bsearch dct key (i + 1) u"
        using True 2 less_not_sym [OF 2]
        by (subst bsearch.simps) (simp add: i_def [symmetric] Let_def c_strcmp_order)
      moreover have "(\<exists>j. l \<le> j \<and> j < u \<and> fst (dct ! j) = key) \<longleftrightarrow> (\<exists>j. i + 1 \<le> j \<and> j < u \<and> fst (dct ! j) = key)"
        using 2 less(1) i by (metis Suc_eq_plus1 Suc_le_eq le_trans less_imp_le not_less_iff_gr_or_eq)
      ultimately show ?thesis
        using "1.IH"(2) [OF True i_def refl] 2 "1.prems" by (simp add: c_strcmp_order)
    next
      case 3
      have "bsearch dct key l u = Some (snd (dct ! i))"
        using True 3
        by (subst bsearch.simps) (simp add: i_def [symmetric] Let_def)
      moreover have "map_of dct key = Some (snd (dct ! i))"
        using 3 il "1.prems"(1) nth_mem [OF il] by (simp add: dict_ok_def)
      ultimately show ?thesis using 3 i by auto
    qed
  qed
qed

lemma dict_get_map: "dict_ok dct \<Longrightarrow> dict_get dct key = map_of dct key"
proof -
  assume ok: "dict_ok dct"
  have "map_of dct key = None" if "\<not> (\<exists>i < length dct. fst (dct ! i) = key)"
    using that by (fastforce simp: map_of_eq_None_iff in_set_conv_nth)
  then show ?thesis using bsearch_correct [OF ok, of "length dct" key 0]
    by (auto simp: dict_get_def)
qed

lemma map_of_sort_key: "distinct (map fst xs) \<Longrightarrow> map_of (sort_key fst xs) = map_of xs"
proof -
  assume d: "distinct (map fst xs)"
  have "mset (map fst (sort_key fst xs)) = mset (map fst xs)" by simp
  then have "distinct (map fst (sort_key fst xs))" using d by (metis mset_eq_imp_distinct_iff)
  then show ?thesis using d by (intro map_of_eqI) (auto simp: map_of_eq_Some_iff)
qed

lemma dict_add_ok:
  assumes "dict_ok dct" "key \<notin> fst ` set dct"
  shows "dict_ok (dict_add dct key v)" "map_of (dict_add dct key v) = (map_of dct)(key \<mapsto> v)"
proof -
  have d: "distinct (map fst (dct @ [(key, v)]))" using assms by (auto simp: dict_ok_def)
  have "mset (map fst (dict_add dct key v)) = mset (map fst (dct @ [(key, v)]))"
    by (simp add: dict_add_def)
  then have "distinct (map fst (dict_add dct key v))" using d by (metis mset_eq_imp_distinct_iff)
  then show "dict_ok (dict_add dct key v)" by (simp add: dict_ok_def dict_add_def)
  have "map_of (dict_add dct key v) = map_of (dct @ [(key, v)])"
    unfolding dict_add_def by (rule map_of_sort_key [OF d])
  also have "\<dots> = (map_of dct)(key \<mapsto> v)"
  proof
    fix x
    have "map_of dct key = None" using assms(2) by (simp add: map_of_eq_None_iff)
    then show "map_of (dct @ [(key, v)]) x = ((map_of dct)(key \<mapsto> v)) x"
      by (simp add: map_add_def split: option.split)
  qed
  finally show "map_of (dict_add dct key v) = (map_of dct)(key \<mapsto> v)" .
qed

end
