(* ===== verification/Conffile.thy ===== *)
theory Conffile
  imports DsUtil StringUtil
begin

text \<open>
  Reading the configuration, \<^verbatim>\<open>lib/conffile/conffile.c\<close>: the scanner, the line
  parser, included files, and the access functions. A pointer into a line is the rest of the
  line. An outcome \<open>Crash\<close> is an access through a null pointer or past the end
  of the line. \<open>More\<close> is a run that needs a deeper nesting of included files than the
  model was given. Messages are counted.
\<close>

section \<open>Outcomes\<close>

datatype 'a run = Done 'a | Crash | More

fun bind_run :: "'a run \<Rightarrow> ('a \<Rightarrow> 'b run) \<Rightarrow> 'b run" where
  "bind_run (Done x) f = f x"
| "bind_run Crash f = Crash"
| "bind_run More f = More"

section \<open>The scanner\<close>

definition COMMENT_CHAR :: char where
  "COMMENT_CHAR = CHR ''#''"

text \<open>A leading comment runs to the end.\<close>

definition skipspace :: "string \<Rightarrow> string" where
  "skipspace s =
     (let r = dropWhile is_space s
      in if r \<noteq> [] \<and> hd r = COMMENT_CHAR then [] else r)"

definition high_bit :: "char \<Rightarrow> bool" where
  "high_bit c \<longleftrightarrow> 128 \<le> (of_char c :: nat)"

definition iswordchar :: "char \<Rightarrow> bool" where
  "iswordchar c \<longleftrightarrow> digit_of c \<noteq> None \<or> c = CHR ''_'' \<or> high_bit c"

definition isvaluechar :: "char \<Rightarrow> bool" where
  "isvaluechar c \<longleftrightarrow> (let n = (of_char c :: nat) in 33 \<le> n \<and> n \<le> 126) \<or> high_bit c"

text \<open>Does the rest of a line start with a character of that kind? At the end it does not.\<close>

definition starts :: "(char \<Rightarrow> bool) \<Rightarrow> string \<Rightarrow> bool" where
  "starts P s \<longleftrightarrow> s \<noteq> [] \<and> P (hd s)"

text \<open>The copying loop of \<^verbatim>\<open>getspan_\<close>.\<close>

fun unescape :: "string \<Rightarrow> string" where
  "unescape [] = []"
| "unescape [c] = [c]"
| "unescape (c # d # s) =
     (if c = CHR 0x5C \<and> (d = CHR 0x5C \<or> d = CHR 0x22) then d # unescape s
      else c # unescape (d # s))"

text \<open>The span of the first \<open>n\<close> characters; an empty one is a null pointer.\<close>

definition getspan :: "string \<Rightarrow> nat \<Rightarrow> string option \<times> string" where
  "getspan s n =
     (if n = 0 then (None, s) else (Some (unescape (take n s)), skipspace (drop n s)))"

text \<open>How far a word or a value reaches; a backslash takes the next character with it, and at the
  very end it takes the terminating zero byte with it.\<close>

fun span_len :: "(char \<Rightarrow> bool) \<Rightarrow> string \<Rightarrow> nat run" where
  "span_len P [] = Done 0"
| "span_len P [c] = (if c = CHR 0x5C then Crash else if P c then Done 1 else Done 0)"
| "span_len P (c # d # s) =
     (if c = CHR 0x5C then bind_run (span_len P s) (\<lambda>n. Done (n + 2))
      else if P c then bind_run (span_len P (d # s)) (\<lambda>n. Done (n + 1))
      else Done 0)"

text \<open>How far a quoted string reaches; \<open>None\<close> for one without an end.\<close>

fun quote_len :: "string \<Rightarrow> nat option run" where
  "quote_len [] = Done None"
| "quote_len [c] =
     (if c = CHR 0x22 then Done (Some 0) else if c = CHR 0x5C then Crash else Done None)"
| "quote_len (c # d # s) =
     (if c = CHR 0x22 then Done (Some 0)
      else if c = CHR 0x5C then bind_run (quote_len s) (\<lambda>n. Done (map_option (\<lambda>n. n + 2) n))
      else bind_run (quote_len (d # s)) (\<lambda>n. Done (map_option Suc n)))"

definition getquoted :: "string \<Rightarrow> (string option \<times> string) run" where
  "getquoted work =
     (if \<not> starts (\<lambda>c. c = CHR 0x22) work then Done (None, work)
      else bind_run (quote_len (tl work))
        (\<lambda>n. case n of
           None \<Rightarrow> Done (None, work)
         | Some n \<Rightarrow>
             let s = tl work;
                 (tok, rest) = (if n = 0 then (Some [], s) else getspan s n)
             in Done (tok, skipspace (tl rest))))"

definition getword :: "string \<Rightarrow> (string option \<times> string) run" where
  "getword work =
     (if starts (\<lambda>c. c = CHR 0x22) work then getquoted work
      else bind_run (span_len iswordchar work) (\<lambda>n. Done (getspan work n)))"

definition getvalue :: "string \<Rightarrow> (string option \<times> string) run" where
  "getvalue work =
     (if starts (\<lambda>c. c = CHR 0x22) work then getquoted work
      else bind_run (span_len isvaluechar work) (\<lambda>n. Done (getspan work n)))"

section \<open>The parser\<close>

record conf =
  conf_vars :: "string option dict"
  conf_recs :: "string list list dict"
  conf_files :: "string dict"
  conf_errors :: nat

definition parse_error :: "conf \<Rightarrow> conf" where
  "parse_error c = c\<lparr>conf_errors := conf_errors c + 1\<rparr>"

definition must_end :: "string \<Rightarrow> conf \<Rightarrow> conf" where
  "must_end line c = (if line \<noteq> [] then parse_error c else c)"

text \<open>A value that is missing is stored as a null pointer, and is as if it were not there.\<close>

definition vars_get :: "conf \<Rightarrow> string \<Rightarrow> string option" where
  "vars_get c fullname = Option.bind (dict_get (conf_vars c) fullname) (\<lambda>v. v)"

definition parse_var :: "string \<Rightarrow> string \<Rightarrow> string option \<Rightarrow> conf \<Rightarrow> conf run" where
  "parse_var name line section c =
     bind_run (getvalue line) (\<lambda>(value, line).
       let c1 = must_end line c
       in case section of
            None \<Rightarrow> Crash
          | Some section \<Rightarrow>
              let fullname = strdup3 section '':'' name
              in case vars_get c1 fullname of
                   Some oldval \<Rightarrow>
                     (case value of
                        None \<Rightarrow> Crash
                      | Some v \<Rightarrow> if c_strcmp oldval v \<noteq> 0 then Done (parse_error c1) else Done c1)
                 | None \<Rightarrow>
                     Done (c1\<lparr>conf_vars := dict_add (conf_vars c1) fullname value\<rparr>))"

text \<open>The fields of a record, and whether one of them has a wrong format.\<close>

function rec_fields :: "string \<Rightarrow> (string list \<times> bool) run" where
  "rec_fields line =
     (if line = [] then Done ([], False)
      else case getvalue line of
             Done (Some field, rest) \<Rightarrow>
               if length rest < length line
               then bind_run (rec_fields rest) (\<lambda>(fs, bad). Done (field # fs, bad))
               else More
           | Done (None, rest) \<Rightarrow> Done ([], True)
           | Crash \<Rightarrow> Crash
           | More \<Rightarrow> More)"
  by pat_completeness auto
termination by (relation "measure length") auto

declare rec_fields.simps [simp del]

definition parse_rec :: "string \<Rightarrow> string \<Rightarrow> string option \<Rightarrow> conf \<Rightarrow> conf run" where
  "parse_rec name line section c =
     (let (sect, c1) = (case section of None \<Rightarrow> (''(no section)'', parse_error c) | Some s \<Rightarrow> (s, c));
          fullname = strdup3 sect '':'' name
      in bind_run (rec_fields line) (\<lambda>(rec, bad).
           let c2 = (if bad then parse_error c1 else c1)
           in case dict_get (conf_recs c2) fullname of
                Some table \<Rightarrow>
                  Done (c2\<lparr>conf_recs := map (\<lambda>(k, t). if k = fullname then (k, list_append t rec) else (k, t))
                                           (conf_recs c2)\<rparr>)
              | None \<Rightarrow> Done (c2\<lparr>conf_recs := dict_add (conf_recs c2) fullname (list_append [] rec)\<rparr>)))"

text \<open>A section header after its opening bracket. A section name that is missing, and a line that
  ends where the closing bracket should be, are used all the same.\<close>

definition parse_section :: "string \<Rightarrow> conf \<Rightarrow> (string option \<times> conf) run" where
  "parse_section line c =
     bind_run (getword line) (\<lambda>(section, rest).
       let c1 = (if \<not> starts (\<lambda>x. x = CHR '']'') rest then parse_error c else c)
       in case section of
            None \<Rightarrow> Crash
          | Some name \<Rightarrow>
              let c2 = (if CHR '':'' \<in> set name then parse_error c1 else c1)
              in if rest = [] then Crash
                 else Done (section, must_end (skipspace (tl rest)) c2))"

text \<open>\<open>wordexp\<close> is the shell expansion: an error, or the file names. The result -1, which only QNX gives, is counted
  with the errors.\<close>

definition parse_directive ::
  "(string \<Rightarrow> string list option) \<Rightarrow> (string \<Rightarrow> conf \<Rightarrow> (conf \<times> int) run) \<Rightarrow> string \<Rightarrow> conf \<Rightarrow> conf run" where
  "parse_directive wordexp parse_file line c =
     bind_run (getword (skipspace line)) (\<lambda>(keyword, rest).
       case keyword of
         None \<Rightarrow> Crash
       | Some kw \<Rightarrow>
           if kw = ''include'' then
             bind_run (getvalue rest) (\<lambda>(filename, rest).
               let c1 = must_end rest c
               in case filename of
                    None \<Rightarrow> Crash
                  | Some fname \<Rightarrow>
                      (case wordexp fname of
                         None \<Rightarrow> Done (parse_error c1)
                       | Some names \<Rightarrow>
                           fold (\<lambda>f r. bind_run r (\<lambda>c. bind_run (parse_file f c) (\<lambda>(c, _). Done c)))
                             names (Done c1)))
           else Done (parse_error c))"

text \<open>One line; the result is the section from then on, and the configuration. A temporary section
  is one for the rest of its line.\<close>

function parse_line ::
  "(string \<Rightarrow> string list option) \<Rightarrow> (string \<Rightarrow> conf \<Rightarrow> (conf \<times> int) run) \<Rightarrow> string \<Rightarrow> string option
     \<Rightarrow> conf \<Rightarrow> (string option \<times> conf) run" where
  "parse_line wordexp parse_file line0 section c =
     (let line = skipspace line0 in
      if starts iswordchar line then
        (case getword line of
           Done (Some word, rest) \<Rightarrow>
             if starts (\<lambda>x. iswordchar x \<or> x = CHR 0x22) rest
             then bind_run (parse_rec word rest section c) (\<lambda>c. Done (section, c))
             else if rest = [] then Crash
             else let symbol = hd rest; rest2 = skipspace (tl rest)
               in if symbol = CHR ''='' then bind_run (parse_var word rest2 section c) (\<lambda>c. Done (section, c))
                  else if symbol = CHR '':'' then
                    (if length rest2 < length line0
                     then bind_run (parse_line wordexp parse_file rest2 (Some word) c) (\<lambda>(_, c). Done (section, c))
                     else More)
                  else Done (section, parse_error c)
         | Done (None, rest) \<Rightarrow> Crash
         | Crash \<Rightarrow> Crash
         | More \<Rightarrow> More)
      else if starts (\<lambda>x. x = CHR ''['') line then parse_section (tl line) c
      else if starts (\<lambda>x. x = CHR ''*'') line then
        bind_run (parse_directive wordexp parse_file (tl line) c) (\<lambda>c. Done (section, c))
      else Done (section, parse_error c))"
  by pat_completeness auto
termination by (relation "measure (\<lambda>(_, _, line, _). length line)") auto

declare parse_line.simps [simp del]

text \<open>The lines of a file, without the blank ones.\<close>

definition records_of :: "string list \<Rightarrow> string list" where
  "records_of ls = filter (\<lambda>l. skipspace l \<noteq> []) ls"

fun parse_lines ::
  "(string \<Rightarrow> string list option) \<Rightarrow> (string \<Rightarrow> conf \<Rightarrow> (conf \<times> int) run) \<Rightarrow> string list \<Rightarrow> string option
     \<Rightarrow> conf \<Rightarrow> conf run" where
  "parse_lines wordexp parse_file [] section c = Done c"
| "parse_lines wordexp parse_file (l # ls) section c =
     bind_run (parse_line wordexp parse_file l section c)
       (\<lambda>(section, c). parse_lines wordexp parse_file ls section c)"

text \<open>\<open>fs\<close> gives the lines of a file that can be opened. The number bounds how deeply
  files include each other.\<close>

primrec parse_file ::
  "nat \<Rightarrow> (string \<Rightarrow> string list option) \<Rightarrow> (string \<Rightarrow> string list option) \<Rightarrow> string \<Rightarrow> conf
     \<Rightarrow> (conf \<times> int) run" where
  "parse_file 0 wordexp fs filename c = More"
| "parse_file (Suc n) wordexp fs filename c =
     (case dict_get (conf_files c) filename of
        Some _ \<Rightarrow> Done (c, 0)
      | None \<Rightarrow>
          let c1 = c\<lparr>conf_files := dict_add (conf_files c) filename filename\<rparr>
          in case fs filename of
               None \<Rightarrow> Done (parse_error c1, -1)
             | Some ls \<Rightarrow>
                 bind_run (parse_lines wordexp (parse_file n wordexp fs) (records_of ls) None c1)
                   (\<lambda>c. Done (c, 0)))"

section \<open>Reading and forgetting the configuration\<close>

record conffile =
  conffile_module_name :: "string option"
  cf_vars :: "string option dict option"
  cf_recs :: "string list list dict option"
  cf_files :: "string dict option"

text \<open>The variables start empty; tables and the list of files read stay if there are any.\<close>

definition parse_config ::
  "nat \<Rightarrow> (string \<Rightarrow> string list option) \<Rightarrow> (string \<Rightarrow> string list option) \<Rightarrow> string \<Rightarrow> conffile
     \<Rightarrow> (conffile \<times> int) run" where
  "parse_config n wordexp fs filename cf =
     bind_run
       (parse_file n wordexp fs filename
         \<lparr>conf_vars = [], conf_recs = (case cf_recs cf of None \<Rightarrow> [] | Some r \<Rightarrow> r),
          conf_files = (case cf_files cf of None \<Rightarrow> [] | Some f \<Rightarrow> f), conf_errors = 0\<rparr>)
       (\<lambda>(c, r).
          if r < 0 then Done (cf\<lparr>cf_vars := None, cf_recs := None, cf_files := None\<rparr>, -1)
          else Done (cf\<lparr>cf_vars := Some (conf_vars c), cf_recs := Some (conf_recs c),
                        cf_files := Some (conf_files c)\<rparr>, 0))"

definition conffile_init ::
  "nat \<Rightarrow> (string \<Rightarrow> string list option) \<Rightarrow> (string \<Rightarrow> string list option) \<Rightarrow> string \<Rightarrow> string option
     \<Rightarrow> conffile \<Rightarrow> (conffile \<times> int) run" where
  "conffile_init n wordexp fs filename mod_name cf =
     parse_config n wordexp fs filename (cf\<lparr>conffile_module_name := mod_name\<rparr>)"

definition conffile_done :: "conffile \<Rightarrow> conffile \<times> int" where
  "conffile_done cf =
     (cf\<lparr>cf_files := None, cf_recs := None, cf_vars := None, conffile_module_name := None\<rparr>, 0)"

section \<open>Access\<close>

definition get_tableptr :: "conffile \<Rightarrow> string option \<Rightarrow> string option \<Rightarrow> string list list option" where
  "get_tableptr cf section name =
     (case (cf_recs cf, section, name) of
        (Some recs, Some s, Some n) \<Rightarrow> dict_get recs (strdup3 s '':'' n)
      | _ \<Rightarrow> None)"

definition conffile_get_value_sec :: "conffile \<Rightarrow> string option \<Rightarrow> string option \<Rightarrow> string option" where
  "conffile_get_value_sec cf section name =
     (case (cf_vars cf, section, name) of
        (Some vars, Some s, Some n) \<Rightarrow> Option.bind (dict_get vars (strdup3 s '':'' n)) (\<lambda>v. v)
      | _ \<Rightarrow> None)"

definition conffile_get_table_sec ::
  "conffile \<Rightarrow> string option \<Rightarrow> string option \<Rightarrow> int \<Rightarrow> int \<Rightarrow> string option" where
  "conffile_get_table_sec cf section name r c =
     (case get_tableptr cf section name of
        None \<Rightarrow> None
      | Some table \<Rightarrow> (case list_item table r of None \<Rightarrow> None | Some row \<Rightarrow> list_item row c))"

definition conffile_get_table_rows_sec :: "conffile \<Rightarrow> string option \<Rightarrow> string option \<Rightarrow> int" where
  "conffile_get_table_rows_sec cf section name =
     (case get_tableptr cf section name of None \<Rightarrow> 0 | Some table \<Rightarrow> list_len (Some table))"

definition conffile_get_table_rowlen_sec :: "conffile \<Rightarrow> string option \<Rightarrow> string option \<Rightarrow> int \<Rightarrow> int" where
  "conffile_get_table_rowlen_sec cf section name r =
     (case get_tableptr cf section name of
        None \<Rightarrow> 0
      | Some table \<Rightarrow> (case list_item table r of None \<Rightarrow> 0 | Some row \<Rightarrow> list_len (Some row)))"

definition conffile_get_value :: "conffile \<Rightarrow> string option \<Rightarrow> string option" where
  "conffile_get_value cf name = conffile_get_value_sec cf (conffile_module_name cf) name"

definition conffile_get_table :: "conffile \<Rightarrow> string option \<Rightarrow> int \<Rightarrow> int \<Rightarrow> string option" where
  "conffile_get_table cf name row col = conffile_get_table_sec cf (conffile_module_name cf) name row col"

definition conffile_get_table_rows :: "conffile \<Rightarrow> string option \<Rightarrow> int" where
  "conffile_get_table_rows cf name = conffile_get_table_rows_sec cf (conffile_module_name cf) name"

definition conffile_get_table_rowlen :: "conffile \<Rightarrow> string option \<Rightarrow> int \<Rightarrow> int" where
  "conffile_get_table_rowlen cf name row =
     conffile_get_table_rowlen_sec cf (conffile_module_name cf) name row"

text \<open>The common body of the numeric accesses: the new \<^verbatim>\<open>errno\<close>, the number
  stored and the result. A value that is missing is not an error.\<close>

definition number_or_default ::
  "(bool \<Rightarrow> string option \<Rightarrow> int \<Rightarrow> int \<Rightarrow> bool \<times> int option) \<Rightarrow> bool \<Rightarrow> string option \<Rightarrow> int \<Rightarrow> int \<Rightarrow> int
     \<Rightarrow> bool \<times> int \<times> int" where
  "number_or_default conv errange str mn mx def =
     (case str of
        None \<Rightarrow> (errange, def, 0)
      | Some s \<Rightarrow>
          (case conv errange (Some s) mn mx of
             (e, None) \<Rightarrow> (e, def, -1)
           | (e, Some v) \<Rightarrow> (e, v, 0)))"

definition conffile_get_value_sec_i32 where
  "conffile_get_value_sec_i32 cf e section name mn mx def =
     number_or_default string_str_to_i32 e (conffile_get_value_sec cf section name) mn mx def"

definition conffile_get_value_sec_u32 where
  "conffile_get_value_sec_u32 cf e section name mn mx def =
     number_or_default string_str_to_u32 e (conffile_get_value_sec cf section name) mn mx def"

definition conffile_get_value_i32 where
  "conffile_get_value_i32 cf e name mn mx def =
     conffile_get_value_sec_i32 cf e (conffile_module_name cf) name mn mx def"

definition conffile_get_value_u32 where
  "conffile_get_value_u32 cf e name mn mx def =
     conffile_get_value_sec_u32 cf e (conffile_module_name cf) name mn mx def"

definition conffile_get_table_sec_i32 where
  "conffile_get_table_sec_i32 cf e section name row col mn mx def =
     number_or_default string_str_to_i32 e (conffile_get_table_sec cf section name row col) mn mx def"

definition conffile_get_table_sec_u32 where
  "conffile_get_table_sec_u32 cf e section name row col mn mx def =
     number_or_default string_str_to_u32 e (conffile_get_table_sec cf section name row col) mn mx def"

definition conffile_get_table_i32 where
  "conffile_get_table_i32 cf e name row col mn mx def =
     conffile_get_table_sec_i32 cf e (conffile_module_name cf) name row col mn mx def"

definition conffile_get_table_u32 where
  "conffile_get_table_u32 cf e name row col mn mx def =
     conffile_get_table_sec_u32 cf e (conffile_module_name cf) name row col mn mx def"

text \<open>\<^verbatim>\<open>conffile_parse_i32\<close>: the default may be the value there was.\<close>

definition conffile_parse_i32 ::
  "conffile \<Rightarrow> bool \<Rightarrow> string option \<Rightarrow> string option \<Rightarrow> int \<Rightarrow> int \<Rightarrow> int \<Rightarrow> int \<Rightarrow> bool \<Rightarrow> bool \<times> int" where
  "conffile_parse_i32 cf e section name var mn mx def use_default =
     (let def = (if \<not> use_default then var else def);
          (e', v, _) = (if section = None then conffile_get_value_i32 cf e name mn mx def
                        else conffile_get_value_sec_i32 cf e section name mn mx def)
      in (e', v))"

definition conffile_var_by_index :: "conffile \<Rightarrow> int \<Rightarrow> string option" where
  "conffile_var_by_index cf number =
     (if 0 \<le> number \<and> number < dict_len (cf_vars cf)
      then (case cf_vars cf of None \<Rightarrow> None | Some vars \<Rightarrow> dict_key vars number) else None)"

section \<open>The scanner reads what was quoted\<close>

text \<open>Writing a string so that it can be put between quotes.\<close>

fun escape :: "string \<Rightarrow> string" where
  "escape [] = []"
| "escape (c # s) = (if c = CHR 0x5C \<or> c = CHR 0x22 then CHR 0x5C # c # escape s else c # escape s)"

lemma unescape_plain: "c \<noteq> CHR 0x5C \<Longrightarrow> unescape (c # s) = c # unescape s"
  by (cases s) auto

lemma unescape_escape: "unescape (escape s) = s"
  by (induction s) (auto simp: unescape_plain)

lemma quote_len_plain:
  "c \<noteq> CHR 0x22 \<Longrightarrow> c \<noteq> CHR 0x5C \<Longrightarrow>
     quote_len (c # s) = bind_run (quote_len s) (\<lambda>n. Done (map_option Suc n))"
  by (cases s) auto

lemma quote_len_quote: "quote_len (CHR 0x22 # s) = Done (Some 0)"
  by (cases s) auto

lemma quote_len_escape: "quote_len (escape s @ CHR 0x22 # r) = Done (Some (length (escape s)))"
  by (induction s) (auto simp: quote_len_plain quote_len_quote)

lemma skipspace_quote: "skipspace (CHR 0x22 # s) = CHR 0x22 # s"
  by (simp add: skipspace_def is_space_def COMMENT_CHAR_def)

text \<open>C39. A value written between quotes, with its quotes and backslashes escaped, is read back as it
  was, and the scanner stops at the next field.\<close>

theorem conffile_quote_roundtrip:
  "getvalue (CHR 0x22 # escape s @ CHR 0x22 # r) = Done (Some s, skipspace r)"
proof (cases "escape s = []")
  case True
  then have "s = []" by (cases s) (auto split: if_splits)
  then show ?thesis
    by (simp add: getvalue_def getquoted_def starts_def quote_len_quote)
next
  case False
  then show ?thesis
    by (simp add: getvalue_def getquoted_def starts_def quote_len_escape getspan_def
      unescape_escape skipspace_quote Let_def)
qed

section \<open>Including files ends\<close>

lemma dropWhile_le: "length (dropWhile P s) \<le> length s"
  by (induction s) auto

lemma skipspace_le: "length (skipspace s) \<le> length s"
  using dropWhile_le [of is_space s] by (simp add: skipspace_def Let_def)

lemma bind_More: "bind_run r f = More \<longleftrightarrow> r = More \<or> (\<exists>x. r = Done x \<and> f x = More)"
  by (cases r) auto

lemma bind_Done: "bind_run r f = Done y \<longleftrightarrow> (\<exists>x. r = Done x \<and> f x = Done y)"
  by (cases r) auto

lemma span_len_no_More: "span_len P s \<noteq> More"
  by (induction P s rule: span_len.induct) (auto simp: bind_More)

lemma quote_len_no_More: "quote_len s \<noteq> More"
  by (induction s rule: quote_len.induct) (auto simp: bind_More)

lemma getquoted_no_More: "getquoted s \<noteq> More"
  using quote_len_no_More
  by (auto simp: getquoted_def bind_More Let_def split: option.splits prod.splits)

lemma getvalue_no_More: "getvalue s \<noteq> More"
  using span_len_no_More getquoted_no_More by (auto simp: getvalue_def bind_More)

lemma getword_no_More: "getword s \<noteq> More"
  using span_len_no_More getquoted_no_More by (auto simp: getword_def bind_More)

lemma getspan_shorter: "getspan s n = (Some t, r) \<Longrightarrow> length r < length s \<or> s = []"
  using skipspace_le [of "drop n s"] by (cases s) (auto simp: getspan_def split: if_splits)

lemma getspan_le: "getspan s n = (t, r) \<Longrightarrow> length r \<le> length s"
  using skipspace_le [of "drop n s"] by (auto simp: getspan_def split: if_splits)

lemma getquoted_shorter: "getquoted s = Done (Some t, r) \<Longrightarrow> length r < length s"
proof -
  assume a: "getquoted s = Done (Some t, r)"
  then have st: "starts (\<lambda>c. c = CHR 0x22) s" by (auto simp: getquoted_def split: if_splits)
  then obtain c u where s: "s = c # u" by (cases s) (auto simp: starts_def)
  obtain n where y: "(case (if n = 0 then (Some [], u) else getspan u n) of
      (tok, rest) \<Rightarrow> Done (tok, skipspace (tl rest))) = Done (Some t, r)"
    using a st s by (auto simp: getquoted_def bind_Done Let_def split: option.splits)
  obtain tok rest where n: "(if n = 0 then (Some [], u) else getspan u n) = (tok, rest)" by force
  have r: "r = skipspace (tl rest)" using y n by simp
  have "length rest \<le> length u" using n(1) getspan_le [of u n] by (auto split: if_splits)
  then show ?thesis using r skipspace_le [of "tl rest"] s by simp
qed

lemma getvalue_shorter: "getvalue s = Done (Some t, r) \<Longrightarrow> length r < length s"
proof -
  assume a: "getvalue s = Done (Some t, r)"
  show ?thesis
  proof (cases "starts (\<lambda>c. c = CHR 0x22) s")
    case True
    then show ?thesis using a getquoted_shorter by (simp add: getvalue_def)
  next
    case False
    then obtain n where n: "span_len isvaluechar s = Done n" "getspan s n = (Some t, r)"
      using a by (auto simp: getvalue_def bind_Done)
    moreover have "s \<noteq> []" using n by (auto simp: getspan_def split: if_splits)
    ultimately show ?thesis using getspan_shorter by blast
  qed
qed

lemma rec_fields_no_More: "rec_fields line \<noteq> More"
proof (induction line rule: rec_fields.induct)
  case (1 line)
  show ?case
    using 1 getvalue_no_More [of line] getvalue_shorter [of line]
    by (subst rec_fields.simps) (auto simp: bind_More split: run.splits option.splits)
qed

text \<open>What a nested file may do: it ends, and it only adds to the list of files read.\<close>

definition file_names :: "conf \<Rightarrow> string set" where
  "file_names c = fst ` set (conf_files c)"

definition grows :: "conf \<Rightarrow> conf run \<Rightarrow> bool" where
  "grows c r \<longleftrightarrow> r \<noteq> More \<and>
     (\<forall>c'. r = Done c' \<longrightarrow> dict_ok (conf_files c') \<and> file_names c \<subseteq> file_names c')"

lemma grows_same: "dict_ok (conf_files c) \<Longrightarrow> conf_files c' = conf_files c \<Longrightarrow> grows c (Done c')"
  by (simp add: grows_def file_names_def)

lemma grows_bind:
  assumes "grows c r" "\<And>c'. r = Done c' \<Longrightarrow> grows c' (f c')"
  shows "grows c (bind_run r f)"
  using assms by (cases r) (auto simp: grows_def)

lemma parse_error_files [simp]: "conf_files (parse_error c) = conf_files c"
  by (simp add: parse_error_def)

lemma must_end_files [simp]: "conf_files (must_end l c) = conf_files c"
  by (simp add: must_end_def)

lemma parse_var_files:
  "parse_var name line section c \<noteq> More \<and>
     (\<forall>c'. parse_var name line section c = Done c' \<longrightarrow> conf_files c' = conf_files c)"
proof (cases "getvalue line")
  case (Done x)
  show ?thesis
  proof (cases "section")
    case None
    then show ?thesis using Done by (cases x) (simp add: parse_var_def Let_def)
  next
    case (Some sec)
    then show ?thesis using Done
      by (cases x) (auto simp: parse_var_def Let_def split: option.splits if_splits)
  qed
next
  case Crash
  then show ?thesis by (simp add: parse_var_def)
next
  case More
  then show ?thesis using getvalue_no_More [of line] by simp
qed

lemma parse_rec_files:
  "parse_rec name line section c \<noteq> More \<and>
     (\<forall>c'. parse_rec name line section c = Done c' \<longrightarrow> conf_files c' = conf_files c)"
proof (cases "rec_fields line")
  case (Done x)
  show ?thesis
  proof (cases "section")
    case None
    then show ?thesis using Done
      by (cases x) (auto simp: parse_rec_def Let_def split: option.splits if_splits)
  next
    case (Some sec)
    then show ?thesis using Done
      by (cases x) (auto simp: parse_rec_def Let_def split: option.splits if_splits)
  qed
next
  case Crash
  then show ?thesis by (simp add: parse_rec_def Let_def split: option.splits)
next
  case More
  then show ?thesis using rec_fields_no_More [of line] by simp
qed

lemma parse_section_files:
  "parse_section line c \<noteq> More \<and>
     (\<forall>s c'. parse_section line c = Done (s, c') \<longrightarrow> conf_files c' = conf_files c)"
proof (cases "getword line")
  case (Done x)
  then show ?thesis
    by (cases x) (auto simp: parse_section_def Let_def split: option.splits if_splits)
next
  case Crash
  then show ?thesis by (simp add: parse_section_def)
next
  case More
  then show ?thesis using getword_no_More [of line] by simp
qed

lemma files_grow:
  "r \<noteq> More \<and> (\<forall>c'. r = Done c' \<longrightarrow> conf_files c' = conf_files c) \<Longrightarrow> dict_ok (conf_files c) \<Longrightarrow> grows c r"
  by (auto simp: grows_def file_names_def)

text \<open>A reader of nested files that is good from the set \<open>S\<close> of files already read on.\<close>

definition good_reader :: "string set \<Rightarrow> (string \<Rightarrow> conf \<Rightarrow> (conf \<times> int) run) \<Rightarrow> bool" where
  "good_reader S pf \<longleftrightarrow>
     (\<forall>f c. dict_ok (conf_files c) \<and> S \<subseteq> file_names c \<longrightarrow>
        grows c (bind_run (pf f c) (\<lambda>(c, _). Done c)))"

lemma include_grows:
  assumes "good_reader S pf" "S \<subseteq> file_names c" "grows c r"
  shows "grows c (fold (\<lambda>f r. bind_run r (\<lambda>c. bind_run (pf f c) (\<lambda>(c, _). Done c))) names r)"
  using assms(3)
proof (induction names arbitrary: r)
  case (Cons f names)
  have "grows c (bind_run r (\<lambda>c. bind_run (pf f c) (\<lambda>(c, _). Done c)))"
    using Cons.prems assms(1,2)
    by (intro grows_bind) (auto simp: good_reader_def grows_def)
  then show ?case using Cons.IH by simp
qed simp

lemma parse_directive_grows:
  assumes "good_reader S pf" "S \<subseteq> file_names c" "dict_ok (conf_files c)"
  shows "grows c (parse_directive w pf line c)"
proof (cases "getword (skipspace line)")
  case (Done x)
  obtain k rest where x: "x = (k, rest)" by force
  show ?thesis
  proof (cases "k = Some ''include''")
    case True
    show ?thesis
    proof (cases "getvalue rest")
      case (Done y)
      have e: "grows c (Done (must_end r c))" "grows c (Done (parse_error (must_end r c)))" for r
        using assms(3) by (auto simp: grows_def file_names_def)
      show ?thesis
        using Done x True \<open>getword (skipspace line) = Done x\<close> e include_grows [OF assms(1,2) e(1)]
        by (cases y) (simp add: parse_directive_def Let_def grows_def split: option.split)
    next
      case Crash
      then show ?thesis using x True Done by (simp add: parse_directive_def grows_def)
    next
      case More
      then show ?thesis using getvalue_no_More by simp
    qed
  next
    case False
    then show ?thesis using x Done assms(3)
      by (auto simp: parse_directive_def grows_def file_names_def split: option.split)
  qed
next
  case Crash
  then show ?thesis by (simp add: parse_directive_def grows_def)
next
  case More
  then show ?thesis using getword_no_More by simp
qed

lemma getword_le: "getword s = Done (t, r) \<Longrightarrow> length r \<le> length s"
proof -
  assume a: "getword s = Done (t, r)"
  show ?thesis
  proof (cases "starts (\<lambda>c. c = CHR 0x22) s")
    case True
    then have q: "getquoted s = Done (t, r)" using a by (simp add: getword_def)
    show ?thesis
    proof (cases t)
      case None
      obtain c u where s: "s = c # u" using True by (cases s) (auto simp: starts_def)
      obtain n where "quote_len u = Done n" using q True s by (auto simp: getquoted_def bind_Done)
      then show ?thesis using q True s None
        by (cases n) (auto simp: getquoted_def Let_def getspan_def split: if_splits)
    next
      case (Some v)
      then show ?thesis using getquoted_shorter [of s v r] q by simp
    qed
  next
    case False
    then show ?thesis using a getspan_le by (auto simp: getword_def bind_Done)
  qed
qed

definition line_conf :: "(string option \<times> conf) run \<Rightarrow> conf run" where
  "line_conf r = bind_run r (\<lambda>(_, c). Done c)"

lemma line_conf_simps [simp]:
  "line_conf (Done (sct, c)) = Done c" "line_conf Crash = Crash" "line_conf More = More"
  by (simp_all add: line_conf_def)

lemma line_conf_bind [simp]:
  "line_conf (bind_run r (\<lambda>c. Done (sct, c))) = r"
  "line_conf (bind_run q (\<lambda>(_, c). Done (sct, c))) = line_conf q"
  by (cases r; simp) (cases q; auto)

lemma parse_line_grows:
  assumes "good_reader S pf"
  shows "S \<subseteq> file_names c \<Longrightarrow> dict_ok (conf_files c) \<Longrightarrow>
    grows c (line_conf (parse_line w pf line sct c))"
proof (induction "length line" arbitrary: line sct c rule: less_induct)
  case less
  have gc: "grows c Crash" by (simp add: grows_def)
  have ge: "grows c (Done (parse_error c))"
    using less.prems(2) by (auto simp: grows_def file_names_def)
  have gr: "grows c (parse_rec n l sc c)" "grows c (parse_var n l sc c)" for n l sc
    using files_grow [OF parse_rec_files less.prems(2)] files_grow [OF parse_var_files less.prems(2)] by auto
  have gs: "grows c (line_conf (parse_section l c))" for l
    using parse_section_files [of l c] less.prems(2)
    by (cases "parse_section l c") (auto simp: line_conf_def grows_def file_names_def)
  have gd: "grows c (parse_directive w pf l c)" for l
    using parse_directive_grows [OF assms less.prems] .
  define l where "l = skipspace line"
  have l: "length l \<le> length line" by (simp add: l_def skipspace_le)
  show ?case
  proof (cases "starts iswordchar l")
    case False
    then show ?thesis
      by (subst parse_line.simps) (simp add: l_def [symmetric] gs gd ge)
  next
    case True
    show ?thesis
    proof (cases "getword l")
      case More
      then show ?thesis using getword_no_More by simp
    next
      case Crash
      then show ?thesis using True by (subst parse_line.simps) (simp add: l_def [symmetric] gc)
    next
      case (Done x)
      obtain wd rest where x: "x = (wd, rest)" by force
      have rl: "length rest \<le> length line" using getword_le [of l wd rest] Done x l by simp
      show ?thesis
      proof (cases "wd = None \<or> rest = [] \<or> starts (\<lambda>x. iswordchar x \<or> x = CHR 0x22) rest")
        case True
        then show ?thesis using \<open>starts iswordchar l\<close> Done x
          by (subst parse_line.simps) (auto simp: l_def [symmetric] gc gr split: option.split)
      next
        case False
        define r2 where "r2 = skipspace (tl rest)"
        have r2: "length r2 < length line"
          using skipspace_le [of "tl rest"] False rl by (cases rest) (auto simp: r2_def)
        have "grows c (line_conf (parse_line w pf r2 wd c))"
          using less.hyps [OF r2] less.prems by blast
        then show ?thesis using True Done x False r2
          by (subst parse_line.simps)
            (auto simp: l_def [symmetric] r2_def [symmetric] gr ge Let_def split: option.split)
      qed
    qed
  qed
qed

lemma bind_line_conf:
  "bind_run q (\<lambda>(s, c). Done (g s c)) = Done y \<Longrightarrow> \<exists>s c. q = Done (s, c) \<and> line_conf q = Done c"
  by (cases q) auto

lemma parse_lines_grows:
  assumes "good_reader S pf"
  shows "S \<subseteq> file_names c \<Longrightarrow> dict_ok (conf_files c) \<Longrightarrow> grows c (parse_lines w pf ls sct c)"
proof (induction ls arbitrary: sct c)
  case Nil
  then show ?case by (simp add: grows_def)
next
  case (Cons l ls)
  note g = parse_line_grows [OF assms Cons.prems, of w l sct]
  show ?case
  proof (cases "parse_line w pf l sct c")
    case (Done x)
    obtain sct' c' where x: "x = (sct', c')" by force
    have c': "dict_ok (conf_files c')" "file_names c \<subseteq> file_names c'"
      using g Done x by (auto simp: grows_def)
    have "grows c' (parse_lines w pf ls sct' c')"
      using Cons.IH [of c' sct'] Cons.prems(1) c' by blast
    then show ?thesis using Done x c' by (auto simp: grows_def)
  next
    case Crash
    then show ?thesis by (simp add: grows_def)
  next
    case More
    then show ?thesis using g by (simp add: grows_def)
  qed
qed

text \<open>The files that can be opened and have not been read.\<close>

definition unread :: "(string \<Rightarrow> string list option) \<Rightarrow> string set \<Rightarrow> string set" where
  "unread fs S = {f. fs f \<noteq> None} - S"

lemma parse_file_grows:
  assumes "finite {f. fs f \<noteq> None}"
  shows "card (unread fs (file_names c)) < n \<Longrightarrow> dict_ok (conf_files c) \<Longrightarrow>
    grows c (bind_run (parse_file n w fs filename c) (\<lambda>(c, _). Done c))"
proof (induction n arbitrary: filename c)
  case (Suc n)
  show ?case
  proof (cases "dict_get (conf_files c) filename")
    case (Some x)
    then show ?thesis using Suc.prems(2) by (simp add: grows_def)
  next
    case None
    then have new: "filename \<notin> file_names c"
      using Suc.prems(2) by (simp add: dict_get_map map_of_eq_None_iff file_names_def)
    define c1 where "c1 = c\<lparr>conf_files := dict_add (conf_files c) filename filename\<rparr>"
    have names1: "file_names c1 = insert filename (file_names c)"
      by (auto simp: c1_def file_names_def dict_add_def)
    have ok1: "dict_ok (conf_files c1)"
      using dict_add_ok(1) [OF Suc.prems(2)] new by (simp add: c1_def file_names_def)
    show ?thesis
    proof (cases "fs filename")
      case fs: None
      then show ?thesis using None ok1 names1
        by (auto simp: c1_def [symmetric] Let_def grows_def file_names_def)
    next
      case (Some ls)
      have gr: "good_reader (file_names c1) (parse_file n w fs)"
        unfolding good_reader_def
      proof (intro allI impI)
        fix f c'
        assume c': "dict_ok (conf_files c') \<and> file_names c1 \<subseteq> file_names c'"
        have "unread fs (file_names c') \<subset> unread fs (file_names c)"
          using c' names1 new Some by (auto simp: unread_def)
        then have "card (unread fs (file_names c')) < card (unread fs (file_names c))"
          using assms by (intro psubset_card_mono) (auto simp: unread_def)
        then show "grows c' (bind_run (parse_file n w fs f c') (\<lambda>(c, _). Done c))"
          using Suc.IH [of c' f] Suc.prems(1) c' by simp
      qed
      have "grows c1 (parse_lines w (parse_file n w fs) (records_of ls) None c1)"
        by (rule parse_lines_grows [OF gr _ ok1]) simp
      then show ?thesis using None Some names1
        by (cases "parse_lines w (parse_file n w fs) (records_of ls) None c1")
          (auto simp: c1_def [symmetric] Let_def grows_def)
    qed
  qed
qed simp

text \<open>C40. Reading the configuration ends however the files include each other, themselves included: a
  nesting deeper than the number of files that can be opened never occurs.\<close>

theorem conffile_reading_ends:
  assumes "finite {f. fs f \<noteq> None}" "card {f. fs f \<noteq> None} < n"
    and "\<forall>d. cf_files cf = Some d \<longrightarrow> dict_ok d"
  shows "conffile_init n w fs filename mname cf \<noteq> More"
proof -
  define c :: conf where "c = \<lparr>conf_vars = [], conf_recs = (case cf_recs cf of None \<Rightarrow> [] | Some r \<Rightarrow> r),
          conf_files = (case cf_files cf of None \<Rightarrow> [] | Some f \<Rightarrow> f), conf_errors = 0\<rparr>"
  have "dict_ok (conf_files c)" using assms(3) by (simp add: c_def dict_ok_def split: option.split)
  moreover have "card (unread fs (file_names c)) < n"
    using card_mono [OF assms(1), of "unread fs (file_names c)"] assms(2) by (auto simp: unread_def)
  ultimately have "grows c (bind_run (parse_file n w fs filename c) (\<lambda>(c, _). Done c))"
    by (intro parse_file_grows [OF assms(1)])
  then show ?thesis
    unfolding conffile_init_def parse_config_def
    by (auto simp: c_def [symmetric] bind_More grows_def split: if_splits)
qed

lemma conffile_reading_ends_witness:
  "conffile_init 2 (\<lambda>f. Some [f]) (\<lambda>f. if f = ''a'' then Some [''*include a''] else None) ''a'' (Some ''m'')
     \<lparr>conffile_module_name = None, cf_vars = None, cf_recs = None, cf_files = None\<rparr> \<noteq> More"
  by (rule conffile_reading_ends) simp_all

text \<open>Lines the parser does not survive: a lone word, a section header without a closing bracket,
  a section header without a name, a lone asterisk and a setting before the first section header.\<close>

theorem conffile_parser_crashes:
  "parse_line w pf ''word'' s c = Crash \<and>
   parse_line w pf ''[word'' s c = Crash \<and>
   parse_line w pf ''[]'' s c = Crash \<and>
   parse_line w pf ''*'' s c = Crash \<and>
   parse_line w pf ''x = 1'' None c = Crash"
  by (simp_all add: parse_line.simps skipspace_def starts_def getword_def iswordchar_def digit_of_def
      high_bit_def getspan_def is_space_def COMMENT_CHAR_def parse_section_def parse_directive_def
      parse_var_def getvalue_def isvaluechar_def Let_def)

lemma parse_file_reads:
  assumes "finite {f. fs f \<noteq> None}" "card {f. fs f \<noteq> None} < n" "dict_ok (conf_files c)"
    and "parse_file n w fs filename c = Done (c', r)"
  shows "dict_ok (conf_files c') \<and> dict_get (conf_files c') filename \<noteq> None"
proof -
  obtain m where n: "n = Suc m" using assms(2) by (cases n) auto
  have "card (unread fs (file_names c)) < n"
    using card_mono [OF assms(1), of "unread fs (file_names c)"] assms(2) by (auto simp: unread_def)
  then have g: "dict_ok (conf_files c')" "file_names c \<subseteq> file_names c'"
    using parse_file_grows [OF assms(1) _ assms(3), of n w filename] assms(4) by (auto simp: grows_def)
  have "filename \<in> file_names c'"
  proof (cases "dict_get (conf_files c) filename")
    case (Some x)
    then have "(filename, x) \<in> set (conf_files c)"
      using dict_get_map [OF assms(3)] map_of_SomeD by simp
    then have "filename \<in> file_names c" by (force simp: file_names_def)
    then show ?thesis using g by blast
  next
    case None
    define c1 where "c1 = c\<lparr>conf_files := dict_add (conf_files c) filename filename\<rparr>"
    have new: "filename \<notin> file_names c"
      using None assms(3) by (simp add: dict_get_map map_of_eq_None_iff file_names_def)
    have ok1: "dict_ok (conf_files c1)"
      using dict_add_ok(1) [OF assms(3)] new by (simp add: c1_def file_names_def)
    have f1: "filename \<in> file_names c1" by (auto simp: c1_def file_names_def dict_add_def)
    show ?thesis
    proof (cases "fs filename")
      case fs: None
      then show ?thesis using None assms(4) f1
        by (auto simp: n c1_def [symmetric] Let_def file_names_def split: if_splits)
    next
      case (Some ls)
      have "good_reader (file_names c1) (parse_file m w fs)"
        unfolding good_reader_def
      proof (intro allI impI)
        fix f c'
        assume c': "dict_ok (conf_files c') \<and> file_names c1 \<subseteq> file_names c'"
        have "unread fs (file_names c') \<subset> {f. fs f \<noteq> None}"
          using c' f1 Some by (auto simp: unread_def)
        from psubset_card_mono [OF assms(1) this] have "card (unread fs (file_names c')) < m"
          using assms(2) n by linarith
        then show "grows c' (bind_run (parse_file m w fs f c') (\<lambda>(c, _). Done c))"
          using parse_file_grows [OF assms(1)] c' by blast
      qed
      then have "grows c1 (parse_lines w (parse_file m w fs) (records_of ls) None c1)"
        by (rule parse_lines_grows [OF _ _ ok1]) simp
      then show ?thesis using None Some assms(4) f1
        by (auto simp: n c1_def [symmetric] Let_def bind_Done grows_def)
    qed
  qed
  then show ?thesis using g by (auto simp: dict_get_map map_of_eq_None_iff file_names_def)
qed

text \<open>Starting again with the same file loses every variable: they are thrown away and the file,
  already on the list of those read, is not read again.\<close>

theorem conffile_init_twice:
  assumes "finite {f. fs f \<noteq> None}" "card {f. fs f \<noteq> None} < n"
    and "\<forall>d. cf_files cf = Some d \<longrightarrow> dict_ok d"
    and "conffile_init n w fs filename mname cf = Done (cf1, 0)"
  shows "conffile_init n w fs filename mname cf1 = Done (cf1\<lparr>cf_vars := Some []\<rparr>, 0)"
proof -
  define c :: conf where "c = \<lparr>conf_vars = [], conf_recs = (case cf_recs cf of None \<Rightarrow> [] | Some r \<Rightarrow> r),
          conf_files = (case cf_files cf of None \<Rightarrow> [] | Some f \<Rightarrow> f), conf_errors = 0\<rparr>"
  have ok: "dict_ok (conf_files c)" using assms(3) by (simp add: c_def dict_ok_def split: option.split)
  obtain c' r where p: "parse_file n w fs filename c = Done (c', r)" and r: "\<not> r < 0"
    and cf1: "cf1 = cf\<lparr>conffile_module_name := mname, cf_vars := Some (conf_vars c'),
        cf_recs := Some (conf_recs c'), cf_files := Some (conf_files c')\<rparr>"
    using assms(4) unfolding conffile_init_def parse_config_def
    by (auto simp: c_def [symmetric] bind_Done split: if_splits)
  obtain x where "dict_get (conf_files c') filename = Some x"
    using parse_file_reads [OF assms(1,2) ok p] by auto
  then show ?thesis using assms(2)
    by (cases n) (simp_all add: conffile_init_def parse_config_def cf1)
qed

lemma conffile_init_twice_witness:
  "\<exists>cf1. cf_vars cf1 = Some [(''m:x'', Some ''1'')] \<and>
     conffile_init 2 (\<lambda>f. Some [f]) (\<lambda>f. if f = ''a'' then Some [''m:x = 1''] else None) ''a'' (Some ''m'') cf1
       = Done (cf1\<lparr>cf_vars := Some []\<rparr>, 0)"
proof -
  define cf0 where
    "cf0 = \<lparr>conffile_module_name = None, cf_vars = None, cf_recs = None, cf_files = None\<rparr>"
  define cf1 where
    "cf1 = \<lparr>conffile_module_name = Some ''m'', cf_vars = Some [(''m:x'', Some ''1'')], cf_recs = Some [],
       cf_files = Some [(''a'', ''a'')]\<rparr>"
  have i: "conffile_init 2 (\<lambda>f. Some [f]) (\<lambda>f. if f = ''a'' then Some [''m:x = 1''] else None) ''a''
      (Some ''m'') cf0 = Done (cf1, 0)"
    by (simp add: cf0_def cf1_def conffile_init_def parse_config_def dict_get_def bsearch.simps
      numeral_2_eq_2 records_of_def parse_line.simps skipspace_def starts_def getword_def iswordchar_def digit_of_def
      high_bit_def getspan_def is_space_def COMMENT_CHAR_def must_end_def dict_add_def vars_get_def
      parse_var_def getvalue_def isvaluechar_def Let_def strdup3_def)
  have "conffile_init 2 (\<lambda>f. Some [f]) (\<lambda>f. if f = ''a'' then Some [''m:x = 1''] else None) ''a'' (Some ''m'') cf1
       = Done (cf1\<lparr>cf_vars := Some []\<rparr>, 0)"
    by (rule conffile_init_twice [OF _ _ _ i]) (simp_all add: cf0_def)
  then show ?thesis by (intro exI [of _ cf1]) (simp add: cf1_def)
qed

end
