(* ===== verification/Synch.thy ===== *)
theory Synch
  imports SynchSem Conffile
begin

text \<open>
  The synchronisation library, \<^verbatim>\<open>lib/synch/synch.c\<close>, compiled on the semaphore sets
  of \<^verbatim>\<open>synch_sem.c\<close>: places are semaphores, transitions are records in the shared
  memory with the weights of their arcs, and a synchronisation point is a request: the arcs
  from places (negative operations) in front of the arcs to places.

  The contents of the shared memory blocks are kept by the blocks' addresses, the bytes of the
  headers by the memory of \<^verbatim>\<open>cmm\<close>. The array of a synchronisation point is what
  \<^verbatim>\<open>synch_sem.c\<close> reads through \<^verbatim>\<open>reref_parm\<close>: it starts 8 bytes
  after the block.
\<close>

section \<open>Data\<close>

record plc_synchpt =
  sp_magic :: u16
  sp_sem_flg :: i16
  total_entries :: u16
  used_entries :: u16
  sp_parm :: "plcsynchsem_parm list"

record plc_transition =
  tr_magic :: u16
  tr_place_count :: i16
  wait_values :: "i16 list"
  signal_values :: "i16 list"

record synch_t =
  sy_magic :: u32
  synch_semkey :: int
  sy_place_count :: int
  places_in_use :: "u8 list"

definition SYNCHPT_MAGIC :: u16 where "SYNCHPT_MAGIC = 0xABBA"
definition TRANSITION_MAGIC :: u16 where "TRANSITION_MAGIC = 0xACDC"
definition SYNCH_MAGIC :: u32 where "SYNCH_MAGIC = 0x887634AA"
definition IPC_NOWAIT :: i16 where "IPC_NOWAIT = 2048"

text \<open>The shared memory with what the blocks of this library hold.\<close>

record synch_world =
  w_cmm :: mem
  w_sem :: synchsem_state
  w_synch_t :: "nat \<Rightarrow> synch_t"
  w_trans :: "nat \<Rightarrow> plc_transition"
  w_synchpt :: "nat \<Rightarrow> plc_synchpt"

text \<open>The static variables of \<^verbatim>\<open>synch.c\<close>; a pointer is the offset of a block.\<close>

record synch_lib =
  synch_status :: u16
  synch_shm :: "nat option"
  synch_module_name :: "string option"
  synch_semid :: "nat option"
  place_alloc_mutex :: bool
  synchpt_scanbeg :: "nat option"
  synchpt_scanend :: "nat option"
  sem_refptr :: "nat option"

definition synch_fully_initialized :: u16 where "synch_fully_initialized = 1"

definition synch_get_status :: "synch_lib \<Rightarrow> u16 \<Rightarrow> bool" where
  "synch_get_status l b \<longleftrightarrow> synch_status l AND b \<noteq> 0"

definition synch_set_status :: "u16 \<Rightarrow> synch_lib \<Rightarrow> synch_lib" where
  "synch_set_status b l = l\<lparr>synch_status := synch_status l OR b\<rparr>"

definition synch_rst_status :: "u16 \<Rightarrow> synch_lib \<Rightarrow> synch_lib" where
  "synch_rst_status b l = l\<lparr>synch_status := synch_status l AND NOT b\<rparr>"

section \<open>Arcs\<close>

definition same_direction :: "i16 \<Rightarrow> int \<Rightarrow> bool" where
  "same_direction op weight \<longleftrightarrow> sint op < 0 \<and> weight < 0 \<or> sint op > 0 \<and> weight > 0"

text \<open>The index a search loop stops at, \<open>n\<close> when it finds nothing.\<close>

definition find_entry :: "(plcsynchsem_parm \<Rightarrow> bool) \<Rightarrow> plcsynchsem_parm list \<Rightarrow> nat \<Rightarrow> nat" where
  "find_entry Q a n = length (takeWhile (\<lambda>i. \<not> Q (a ! i)) [0..<n])"

text \<open>The two uses of \<^verbatim>\<open>memmove\<close>: one place up from the start, one place down
  over the entry \<open>e\<close>.\<close>

definition shift_up :: "'a list \<Rightarrow> nat \<Rightarrow> 'a list" where
  "shift_up a n = take 1 a @ take n a @ drop (n + 1) a"

definition shift_down :: "'a list \<Rightarrow> nat \<Rightarrow> nat \<Rightarrow> 'a list" where
  "shift_down a e n = take e a @ take (n - 1 - e) (drop (e + 1) a) @ drop (n - 1) a"

definition plc_synchpt_add_arc :: "plc_synchpt \<Rightarrow> int \<Rightarrow> int \<Rightarrow> plc_synchpt \<times> int" where
  "plc_synchpt_add_arc sp weight place =
     (if sp_magic sp \<noteq> SYNCHPT_MAGIC then (sp, -1)
      else let a = sp_parm sp;
               used = unat (used_entries sp);
               entry = find_entry (\<lambda>q. uint (sem_num q) = place \<and> same_direction (sem_op q) weight) a used
           in if entry < used
              then (sp\<lparr>sp_parm := a[entry := (a ! entry)
                     \<lparr>sem_op := sem_op (a ! entry) + word_of_int weight\<rparr>]\<rparr>, 0)
              else if unat (total_entries sp) \<le> used then (sp, -1)
              else let (a1, entry1) = (if weight < 0 then (shift_up a used, 0) else (a, used))
                   in (sp\<lparr>sp_parm := a1[entry1 := \<lparr>sem_num = word_of_int place,
                              sem_flg = sp_sem_flg sp, sem_op = word_of_int weight\<rparr>],
                          used_entries := used_entries sp + 1\<rparr>, 0))"

definition plc_synchpt_del_arc :: "plc_synchpt \<Rightarrow> int \<Rightarrow> int \<Rightarrow> plc_synchpt \<times> int" where
  "plc_synchpt_del_arc sp weight place =
     (if sp_magic sp \<noteq> SYNCHPT_MAGIC then (sp, -1)
      else let a = sp_parm sp;
               used = unat (used_entries sp);
               entry = find_entry (\<lambda>q. uint (sem_num q) = place \<and>
                 (same_direction (sem_op q) weight \<or> sem_op q = 0 \<and> weight = 0)) a used
           in if used \<le> entry then (sp, -1)
              else let a1 = (if same_direction (sem_op (a ! entry)) weight
                             then a[entry := (a ! entry)\<lparr>sem_op := sem_op (a ! entry) - word_of_int weight\<rparr>]
                             else a)
                   in if same_direction (sem_op (a ! entry)) weight \<and> sem_op (a1 ! entry) \<noteq> 0
                      then (sp\<lparr>sp_parm := a1\<rparr>, 0)
                      else (sp\<lparr>sp_parm := shift_down a1 entry used,
                               used_entries := used_entries sp - 1\<rparr>, 0))"

section \<open>Synchronisation points\<close>

datatype plc_synchpt_blocking_t = plc_synchpt_blocking | plc_synchpt_nonblocking

definition no_parm :: plcsynchsem_parm where
  "no_parm = \<lparr>sem_num = 0, sem_flg = 0, sem_op = 0\<rparr>"

definition sizeof_synchpt :: nat where "sizeof_synchpt = 8"

definition arc_count :: "plc_transition \<Rightarrow> u32 \<Rightarrow> i32" where
  "arc_count t extra_arcs =
     (let n = nat (sint (tr_place_count t))
      in of_nat (length (filter (\<lambda>i. sint (wait_values t ! i) \<ge> 0) [0..<n]))
         + of_nat (length (filter (\<lambda>i. sint (signal_values t ! i) \<ge> 0) [0..<n])) + extra_arcs)"

definition add_waits :: "plc_transition \<Rightarrow> nat list \<Rightarrow> plc_synchpt \<Rightarrow> plc_synchpt" where
  "add_waits t is sp = fold (\<lambda>i sp. if sint (wait_values t ! i) \<ge> 0
     then fst (plc_synchpt_add_arc sp (- sint (wait_values t ! i)) (int i)) else sp) is sp"

definition add_signals :: "plc_transition \<Rightarrow> nat list \<Rightarrow> plc_synchpt \<Rightarrow> plc_synchpt" where
  "add_signals t is sp = fold (\<lambda>i sp. if sint (signal_values t ! i) \<ge> 0
     then fst (plc_synchpt_add_arc sp (sint (signal_values t ! i)) (int i)) else sp) is sp"

text \<open>The block filled in; it was cleared when it was allocated.\<close>

definition synchpt_fill :: "plc_transition \<Rightarrow> i32 \<Rightarrow> plc_synchpt_blocking_t \<Rightarrow> plc_synchpt" where
  "synchpt_fill t n blocking_opt =
     (let flg = (case blocking_opt of plc_synchpt_nonblocking \<Rightarrow> 0 OR IPC_NOWAIT
                 | plc_synchpt_blocking \<Rightarrow> 0 AND NOT IPC_NOWAIT);
          sp = \<lparr>sp_magic = SYNCHPT_MAGIC, sp_sem_flg = flg, total_entries = ucast n, used_entries = 0,
                sp_parm = replicate (unat (ucast n :: u16)) no_parm\<rparr>;
          is = [0..<nat (sint (tr_place_count t))]
      in (add_signals t is (add_waits t is sp))\<lparr>sp_magic := SYNCHPT_MAGIC\<rparr>)"

definition plc_synchpt_new ::
  "cmm_proc \<Rightarrow> synch_world \<Rightarrow> nat \<Rightarrow> u32 \<Rightarrow> plc_synchpt_blocking_t \<Rightarrow>
     (synch_world \<times> nat option) option" where
  "plc_synchpt_new p w transition extra_arcs blocking_opt =
     (let t = w_trans w transition; n = arc_count t extra_arcs
      in if tr_magic t \<noteq> TRANSITION_MAGIC then Some (w, None)
         else if sint n > 65535 then Some (w, None)
         else case cmm_block_alloc p (w_cmm w) block_type_synch_synchpt (Some ''synchpt'')
                     (n * 6 + of_nat sizeof_synchpt) of
                None \<Rightarrow> None
              | Some (m1, None) \<Rightarrow> Some (w\<lparr>w_cmm := m1\<rparr>, None)
              | Some (m1, Some a) \<Rightarrow>
                  Some (w\<lparr>w_cmm := m1, w_synchpt := (w_synchpt w)(a := synchpt_fill t n blocking_opt)\<rparr>,
                        Some a))"

definition plc_synchpt_free :: "cmm_proc \<Rightarrow> synch_world \<Rightarrow> nat \<Rightarrow> synch_world option" where
  "plc_synchpt_free p w sp =
     (if sp_magic (w_synchpt w sp) \<noteq> SYNCHPT_MAGIC then Some w
      else let w1 = w\<lparr>w_synchpt := (w_synchpt w)(sp := (w_synchpt w sp)\<lparr>sp_magic := 0\<rparr>)\<rparr>
           in map_option (\<lambda>(m1, _). w1\<lparr>w_cmm := m1\<rparr>) (cmm_block_free p (w_cmm w1) (Some sp)))"

text \<open>The arrays of all synchronisation points, as \<^verbatim>\<open>synch_sem.c\<close> reads them.\<close>

definition world_parms :: "synch_world \<Rightarrow> u32 \<Rightarrow> nat \<Rightarrow> plcsynchsem_parm" where
  "world_parms w a i =
     (let ps = sp_parm (w_synchpt w (unat (a - of_nat sizeof_synchpt)))
      in if i < length ps then ps ! i else no_parm)"

text \<open>The call on the set that the library opened. A call that sleeps has no result of its
  own.\<close>

definition synch_call ::
  "cmm_proc \<Rightarrow> synch_world \<Rightarrow> synch_lib \<Rightarrow> nat \<Rightarrow> (synch_world \<times> synch_outcome) option" where
  "synch_call p w l synchpt =
     (let sp = w_synchpt w synchpt;
          sem = (case synch_semid l of None \<Rightarrow> 0 | Some a \<Rightarrow> of_nat a)
      in map_option (\<lambda>(s, r). (w\<lparr>w_sem := s\<rparr>, r))
           (plcsynchsem_synch p (w_cmm w) ((w_sem w)\<lparr>ss_parm := world_parms w\<rparr>) sem
              (int synchpt + int sizeof_synchpt) (ucast (used_entries sp))))"

definition plc_synch ::
  "cmm_proc \<Rightarrow> synch_world \<Rightarrow> synch_lib \<Rightarrow> nat \<Rightarrow> (synch_world \<times> synch_outcome) option" where
  "plc_synch p w l synchpt =
     (if \<not> synch_get_status l synch_fully_initialized then Some (w, Returns (-1))
      else if sp_magic (w_synchpt w synchpt) \<noteq> SYNCHPT_MAGIC then Some (w, Returns (-1))
      else synch_call p w l synchpt)"

definition synch_scan_beg ::
  "cmm_proc \<Rightarrow> synch_world \<Rightarrow> synch_lib \<Rightarrow> (synch_world \<times> synch_outcome) option" where
  "synch_scan_beg p w l =
     (if \<not> synch_get_status l synch_fully_initialized then Some (w, Returns (-1))
      else case synchpt_scanbeg l of None \<Rightarrow> None | Some a \<Rightarrow> synch_call p w l a)"

definition synch_scan_end ::
  "cmm_proc \<Rightarrow> synch_world \<Rightarrow> synch_lib \<Rightarrow> (synch_world \<times> synch_outcome) option" where
  "synch_scan_end p w l =
     (if \<not> synch_get_status l synch_fully_initialized then Some (w, Returns (-1))
      else case synchpt_scanend l of None \<Rightarrow> None | Some a \<Rightarrow> synch_call p w l a)"

definition plc_synchpt_scan_beg :: "synch_lib \<Rightarrow> nat option" where
  "plc_synchpt_scan_beg l =
     (if \<not> synch_get_status l synch_fully_initialized then None else synchpt_scanbeg l)"

section \<open>Places\<close>

definition first_free :: "synch_t \<Rightarrow> nat option" where
  "first_free s = find (\<lambda>i. places_in_use s ! i = 0) [0..<nat (sy_place_count s)]"

definition synchplace_add :: "synch_t \<Rightarrow> synch_t \<times> int" where
  "synchplace_add s =
     (case first_free s of
        None \<Rightarrow> (s, -1)
      | Some i \<Rightarrow> (s\<lparr>places_in_use := (places_in_use s)[i := 1]\<rparr>, int i))"

definition synchplace_del :: "synch_t \<Rightarrow> int \<Rightarrow> synch_t \<times> int" where
  "synchplace_del s place =
     (if place < 0 \<or> sy_place_count s \<le> place then (s, -1)
      else (s\<lparr>places_in_use := (places_in_use s)[nat place := 0]\<rparr>, 0))"

definition plc_synchplace_add :: "synch_world \<Rightarrow> synch_lib \<Rightarrow> synch_world \<times> int" where
  "plc_synchplace_add w l =
     (if \<not> synch_get_status l synch_fully_initialized then (w, -1)
      else case synch_shm l of
             None \<Rightarrow> (w, -1)
           | Some a \<Rightarrow> let (s, r) = synchplace_add (w_synch_t w a)
                       in (w\<lparr>w_synch_t := (w_synch_t w)(a := s)\<rparr>, r))"

definition plc_synchplace_del :: "synch_world \<Rightarrow> synch_lib \<Rightarrow> int \<Rightarrow> synch_world \<times> int" where
  "plc_synchplace_del w l place =
     (if \<not> synch_get_status l synch_fully_initialized then (w, -1)
      else case synch_shm l of
             None \<Rightarrow> (w, -1)
           | Some a \<Rightarrow> let (s, r) = synchplace_del (w_synch_t w a) place
                       in (w\<lparr>w_synch_t := (w_synch_t w)(a := s)\<rparr>, r))"

section \<open>Transitions\<close>

definition plc_transition_by_name :: "cmm_proc \<Rightarrow> mem \<Rightarrow> string option \<Rightarrow> nat option option" where
  "plc_transition_by_name p m name =
     map_option fst (cmm_block_find p m block_type_synch_transition name)"

text \<open>The second part of the result is where the name stands.\<close>

definition plc_transition_by_index :: "cmm_proc \<Rightarrow> mem \<Rightarrow> u32 \<Rightarrow> (nat option \<times> nat option) option" where
  "plc_transition_by_index p m index =
     map_option (\<lambda>(t, _, name). (t, name)) (cmm_block_get p m block_type_synch_transition index)"

definition plc_transition_null :: "cmm_proc \<Rightarrow> mem \<Rightarrow> nat option option" where
  "plc_transition_null p m = plc_transition_by_name p m (Some ''NULL'')"

definition plc_transition_count :: "cmm_proc \<Rightarrow> mem \<Rightarrow> int option" where
  "plc_transition_count p m = cmm_block_count p m block_type_synch_transition"

definition plc_transition_details :: "plc_transition \<Rightarrow> (int \<times> i16 list \<times> i16 list) option" where
  "plc_transition_details t =
     (if tr_magic t \<noteq> TRANSITION_MAGIC then None
      else Some (sint (tr_place_count t), wait_values t, signal_values t))"

section \<open>Configuration\<close>

text \<open>The result pairs what is stored through \<^verbatim>\<open>transition\<close> with the return
  value.\<close>

definition synch_parse_transition ::
  "cmm_proc \<Rightarrow> mem \<Rightarrow> conffile \<Rightarrow> string option \<Rightarrow> string \<Rightarrow> string option \<Rightarrow> bool \<Rightarrow>
     (nat option \<times> int) option" where
  "synch_parse_transition p m cf section name def_name use_default =
     (let value = (if section = None then conffile_get_value cf (Some name)
                   else conffile_get_value_sec cf section (Some name))
      in if value = None \<and> (\<not> use_default \<or> def_name = None) then Some (None, -1)
         else map_option (\<lambda>t. if t \<noteq> None then (t, 0) else (None, -1))
                (plc_transition_by_name p m (if value = None then def_name else value)))"

text \<open>The transition of one end of the scan: the null transition when none is found.\<close>

definition parse_scan ::
  "cmm_proc \<Rightarrow> mem \<Rightarrow> conffile \<Rightarrow> string \<Rightarrow> string \<Rightarrow> nat option option" where
  "parse_scan p m cf name def_name =
     (case synch_parse_transition p m cf None name (Some def_name) True of
        None \<Rightarrow> None
      | Some (t, r) \<Rightarrow> if r < 0 then plc_transition_null p m else Some t)"

text \<open>\<open>keyptr\<close> tells whether the caller asks for the semaphore key; the first part of
  the result is \<^verbatim>\<open>errno\<close>'s range error.\<close>

definition synch_parse_conf ::
  "cmm_proc \<Rightarrow> mem \<Rightarrow> conffile \<Rightarrow> bool \<Rightarrow> string \<Rightarrow> bool \<Rightarrow> bool \<Rightarrow>
     ((bool \<times> int option) \<times> nat option \<times> nat option) option" where
  "synch_parse_conf p m cf e module_name keyptr scanptrs =
     (let key = (if keyptr then (let (e1, v) = conffile_parse_i32 cf e (Some ''PLC'')
                       (Some ''synchsem_key'') 0 0 2147483647 0 True in (e1, Some v))
                 else (e, None))
      in if \<not> scanptrs then Some (key, None, None)
         else case parse_scan p m cf ''scan_beg'' (strdup2 module_name ''.beg'') of
                None \<Rightarrow> None
              | Some tb \<Rightarrow>
                  map_option (\<lambda>te. (key, tb, te))
                    (parse_scan p m cf ''scan_end'' (strdup2 module_name ''.end'')))"

section \<open>Starting and stopping\<close>

text \<open>What the start relies on besides: the priority that \<^verbatim>\<open>rt_getpriority\<close>
  reports, the sizes of the blocks with a \<^verbatim>\<open>sem_t\<close> inside, whether
  \<^verbatim>\<open>sem_init\<close> succeeds and whether the mutex of the places opens.\<close>

record synch_env =
  env_priority :: i32
  env_zg :: u32
  env_zl :: u32
  env_seminit :: bool
  env_mutex :: bool
  env_sizeof_synch_t :: u32

text \<open>\<^verbatim>\<open>STATE_LIB_EXTRA_ARCS\<close> of the state library.\<close>

definition plc_scanbeg_extra_arcs :: int where
  "plc_scanbeg_extra_arcs = 4"

definition free_opt :: "cmm_proc \<Rightarrow> synch_world \<Rightarrow> nat option \<Rightarrow> synch_world option" where
  "free_opt p w sp = (case sp of None \<Rightarrow> None | Some a \<Rightarrow> plc_synchpt_free p w a)"

definition synch_fail :: "synch_lib \<Rightarrow> synch_world \<Rightarrow> (synch_world \<times> synch_lib \<times> int) option" where
  "synch_fail l w = Some (w, l\<lparr>synch_shm := None\<rparr>, -1)"

definition free_scanbeg :: "cmm_proc \<Rightarrow> synch_lib \<Rightarrow> synch_world \<Rightarrow> (synch_world \<times> synch_lib \<times> int) option" where
  "free_scanbeg p l w =
     (case free_opt p w (synchpt_scanbeg l) of
        None \<Rightarrow> None
      | Some w1 \<Rightarrow> synch_fail (l\<lparr>synchpt_scanbeg := None\<rparr>) w1)"

definition free_scanend :: "cmm_proc \<Rightarrow> synch_lib \<Rightarrow> synch_world \<Rightarrow> (synch_world \<times> synch_lib \<times> int) option" where
  "free_scanend p l w =
     (case free_opt p w (synchpt_scanend l) of
        None \<Rightarrow> None
      | Some w1 \<Rightarrow> free_scanbeg p (l\<lparr>synchpt_scanend := None\<rparr>) w1)"

text \<open>The last steps, after both synchronisation points exist.\<close>

definition synch_open_sems ::
  "cmm_proc \<Rightarrow> synch_env \<Rightarrow> synch_world \<Rightarrow> synch_lib \<Rightarrow> nat \<Rightarrow> (synch_world \<times> synch_lib \<times> int) option" where
  "synch_open_sems p env w l shm =
     (case plcsynchsem_open p (w_cmm w) (w_sem w) (sem_refptr l) (env_zg env) (env_zl env)
             (env_seminit env) (synch_semkey (w_synch_t w shm)) (env_priority env) of
        None \<Rightarrow> None
      | Some (m1, s1, r1, sem) \<Rightarrow>
          let w1 = w\<lparr>w_cmm := m1, w_sem := s1\<rparr>; l1 = l\<lparr>sem_refptr := r1, synch_semid := sem\<rparr>
          in if sem = None then free_scanend p l1 w1
             else if \<not> env_mutex env
             then case plcsynchsem_close p (w_cmm w1) True sem of
                    None \<Rightarrow> None
                  | Some (m2, _) \<Rightarrow>
                      free_scanend p (l1\<lparr>place_alloc_mutex := False, synch_semid := None\<rparr>) (w1\<lparr>w_cmm := m2\<rparr>)
             else Some (w1, synch_set_status synch_fully_initialized (l1\<lparr>place_alloc_mutex := True\<rparr>), 0))"

definition synch_init ::
  "cmm_proc \<Rightarrow> synch_env \<Rightarrow> conffile \<Rightarrow> bool \<Rightarrow> synch_world \<Rightarrow> synch_lib \<Rightarrow> string \<Rightarrow>
     (synch_world \<times> synch_lib \<times> int) option" where
  "synch_init p env cf e w l module_name =
     (if synch_get_status l synch_fully_initialized then Some (w, l, -1)
      else case cmm_block_find p (w_cmm w) block_type_synch_setup (Some ''synch_t'') of
             None \<Rightarrow> None
           | Some (None, z) \<Rightarrow> synch_fail l w
           | Some (Some shm, z) \<Rightarrow>
               let l1 = l\<lparr>synch_shm := Some shm\<rparr>; sy = w_synch_t w shm in
               if z < env_sizeof_synch_t env then synch_fail l1 w
               else if sy_magic sy \<noteq> SYNCH_MAGIC then Some (w, l1, -1)
               else if z \<noteq> env_sizeof_synch_t env + word_of_int (sy_place_count sy) then synch_fail l1 w
               else let l2 = l1\<lparr>synch_module_name := Some module_name\<rparr> in
                 case synch_parse_conf p (w_cmm w) cf e module_name False True of
                   None \<Rightarrow> None
                 | Some (_, tb, te) \<Rightarrow>
                     (case tb of None \<Rightarrow> synch_fail l2 w | Some tbeg \<Rightarrow>
                     (case te of None \<Rightarrow> synch_fail l2 w | Some tend \<Rightarrow>
                     if plc_scanbeg_extra_arcs < 0 then synch_fail l2 w
                     else case plc_synchpt_new p w tbeg (word_of_int plc_scanbeg_extra_arcs)
                                 plc_synchpt_blocking of
                            None \<Rightarrow> None
                          | Some (w1, sb) \<Rightarrow>
                              let l3 = l2\<lparr>synchpt_scanbeg := sb\<rparr> in
                              if sb = None then synch_fail l3 w1
                              else case plc_synchpt_new p w1 tend 0 plc_synchpt_blocking of
                                     None \<Rightarrow> None
                                   | Some (w2, se) \<Rightarrow>
                                       let l4 = l3\<lparr>synchpt_scanend := se\<rparr> in
                                       if se = None then free_scanbeg p l4 w2
                                       else synch_open_sems p env w2 l4 shm)))"

definition synch_done ::
  "cmm_proc \<Rightarrow> synch_world \<Rightarrow> synch_lib \<Rightarrow> (synch_world \<times> synch_lib \<times> int) option" where
  "synch_done p w l =
     (if \<not> synch_get_status l synch_fully_initialized then Some (w, l, -1)
      else case free_opt p w (synchpt_scanbeg l) of
             None \<Rightarrow> None
           | Some w1 \<Rightarrow>
               (case free_opt p w1 (synchpt_scanend l) of
                  None \<Rightarrow> None
                | Some w2 \<Rightarrow>
                    (case plcsynchsem_close p (w_cmm w2) True (synch_semid l) of
                       None \<Rightarrow> None
                     | Some (m3, _) \<Rightarrow>
                         Some (w2\<lparr>w_cmm := m3\<rparr>,
                           synch_rst_status synch_fully_initialized
                             (l\<lparr>synch_module_name := None, synch_shm := None, synchpt_scanbeg := None,
                                synchpt_scanend := None, synch_semid := None, place_alloc_mutex := False\<rparr>),
                           0))))"

end
