(* ===== verification/SynchSetup.thy ===== *)
theory SynchSetup
  imports Synch
begin

text \<open>
  Setting up the synchronisation library, \<^verbatim>\<open>lib/synch/synch_setup.c\<close>: the Petri net is
  read from the configuration, either from the simple table of which module runs after which or
  from tables of places, transitions and arcs; its transitions become records in the shared memory
  and its places semaphores.

  Small allocations succeed. The library is compiled on one of two kinds of semaphore sets, and the
  greatest value of a semaphore (\<open>vmx\<close>) is an argument where both are of interest.
\<close>

section \<open>Lists of names and matrices\<close>

text \<open>A list of names; \<^verbatim>\<open>list_append\<close> and \<^verbatim>\<open>list_len\<close> are those of
  lists.\<close>

definition list_index :: "string list \<Rightarrow> string \<Rightarrow> int" where
  "list_index lst item =
     (let i = length (takeWhile (\<lambda>x. c_strcmp item x \<noteq> 0) lst)
      in if i < length lst then int i else -1)"

record matrix =
  mat_columns :: int
  mat_lines :: int
  mat_data :: "int list"

definition matrix_new :: "int \<Rightarrow> int \<Rightarrow> int \<Rightarrow> matrix" where
  "matrix_new columns lines init_value =
     \<lparr>mat_columns = columns, mat_lines = lines, mat_data = replicate (nat (lines * columns)) init_value\<rparr>"

text \<open>An access outside the array is no value.\<close>

definition matrix_get :: "matrix \<Rightarrow> int \<Rightarrow> int \<Rightarrow> int option" where
  "matrix_get m column line =
     (let i = line * mat_columns m + column
      in if 0 \<le> i \<and> i < int (length (mat_data m)) then Some (mat_data m ! nat i) else None)"

definition matrix_set :: "matrix \<Rightarrow> int \<Rightarrow> int \<Rightarrow> int \<Rightarrow> matrix option" where
  "matrix_set m column line value =
     (let i = line * mat_columns m + column
      in if 0 \<le> i \<and> i < int (length (mat_data m)) then Some (m\<lparr>mat_data := (mat_data m)[nat i := value]\<rparr>)
         else None)"

text \<open>No matrix is a null pointer.\<close>

record petri_net_t =
  pn_places :: "string list"
  pn_transitions :: "string list"
  pn_init_tokens :: "matrix option"
  pn_in_arc_weights :: "matrix option"
  pn_out_arc_weights :: "matrix option"
  pn_null_arcs :: "matrix option"

definition petri_net_t_new :: petri_net_t where
  "petri_net_t_new = \<lparr>pn_places = [], pn_transitions = [], pn_init_tokens = None,
     pn_in_arc_weights = None, pn_out_arc_weights = None, pn_null_arcs = None\<rparr>"

section \<open>Arrows\<close>

definition SYNCH_ARCS_DEF_WEIGHT :: int where "SYNCH_ARCS_DEF_WEIGHT = 1"
definition SEMVMX :: int where "SEMVMX = 32767"
definition PLCSYNCHSEMVMX :: int where "PLCSYNCHSEMVMX = 4294967295"

text \<open>The bound of the weight is an \<^verbatim>\<open>int\<close> argument of
  \<^verbatim>\<open>string_str_to_int\<close>.\<close>

definition synch_parse_arc_weight :: "int \<Rightarrow> bool \<Rightarrow> string \<Rightarrow> bool \<times> int" where
  "synch_parse_arc_weight vmx e arc =
     (let s1 = dropWhile (\<lambda>c. c = CHR ''-'') arc;
          numb_str = (if s1 \<noteq> [] \<and> hd s1 = CHR ''('' then tl s1 else s1);
          numb = takeWhile (\<lambda>c. c \<notin> set '')->'') numb_str;
          end1 = dropWhile (\<lambda>c. c \<notin> set '')->'') numb_str;
          end2 = (if end1 \<noteq> [] \<and> hd end1 = CHR '')'' then tl end1 else end1);
          end_str = dropWhile (\<lambda>c. c = CHR ''-'') end2
      in if c_strcmp ''>'' end_str \<noteq> 0 then (e, -1)
         else if numb = [] then (e, SYNCH_ARCS_DEF_WEIGHT)
         else case string_str_to_int e (Some numb) 0 (to_i32 vmx) of
                (e1, None) \<Rightarrow> (e1, -1)
              | (e1, Some weight) \<Rightarrow> (e1, weight))"

section \<open>The tables of places, transitions and arcs\<close>

text \<open>The column of a row of a table of the section \<^verbatim>\<open>PLC\<close>, and the numbers of its
  rows.\<close>

definition plc_cell :: "conffile \<Rightarrow> string \<Rightarrow> int \<Rightarrow> int \<Rightarrow> string option" where
  "plc_cell cf table index column = conffile_get_table_sec cf (Some ''PLC'') (Some table) index column"

definition plc_rows :: "conffile \<Rightarrow> string \<Rightarrow> int list" where
  "plc_rows cf table = [0 .. conffile_get_table_rows_sec cf (Some ''PLC'') (Some table) - 1]"

fun first_column :: "conffile \<Rightarrow> string \<Rightarrow> int list \<Rightarrow> string list \<Rightarrow> string list" where
  "first_column cf table [] lst = lst"
| "first_column cf table (i # is) lst =
     (case plc_cell cf table i 0 of
        None \<Rightarrow> first_column cf table is lst
      | Some tmp_name \<Rightarrow> first_column cf table is (lst @ [tmp_name]))"

definition synch_get_places :: "conffile \<Rightarrow> string list" where
  "synch_get_places cf = first_column cf ''place'' (plc_rows cf ''place'') []"

definition synch_get_transitions :: "conffile \<Rightarrow> string list" where
  "synch_get_transitions cf = first_column cf ''transition'' (plc_rows cf ''transition'') []"

text \<open>The tokens are read whether the row has a name or not.\<close>

fun init_tokens_rows ::
  "conffile \<Rightarrow> string list \<Rightarrow> int list \<Rightarrow> bool \<Rightarrow> matrix \<Rightarrow> (bool \<times> matrix) option" where
  "init_tokens_rows cf places [] e m = Some (e, m)"
| "init_tokens_rows cf places (i # is) e m =
     (let (e1, tmp_init_tokens, _) =
            conffile_get_table_sec_u32 cf e (Some ''PLC'') (Some ''place'') i 1 0 PLCSYNCHSEMVMX 0
      in case plc_cell cf ''place'' i 0 of
           None \<Rightarrow> init_tokens_rows cf places is e1 m
         | Some tmp_name \<Rightarrow>
             let place_index = list_index places tmp_name in
             if place_index < 0 then init_tokens_rows cf places is e1 m
             else (case matrix_set m place_index 0 (to_i32 tmp_init_tokens) of
                     None \<Rightarrow> None
                   | Some m1 \<Rightarrow> init_tokens_rows cf places is e1 m1))"

definition synch_get_init_tokens :: "conffile \<Rightarrow> bool \<Rightarrow> string list \<Rightarrow> (bool \<times> matrix) option" where
  "synch_get_init_tokens cf e places =
     init_tokens_rows cf places (plc_rows cf ''place'') e (matrix_new (int (length places)) 1 0)"

text \<open>What a row of the table of arcs stands for: a pair of a place and a transition with a
  direction, if the names say so.\<close>

datatype arc_ends = No_arc | Place_to_trans int int | Trans_to_place int int

definition arc_ends_of :: "petri_net_t \<Rightarrow> string \<Rightarrow> string \<Rightarrow> arc_ends" where
  "arc_ends_of pnet name1 name3 =
     (let place1 = list_index (pn_places pnet) name1; place3 = list_index (pn_places pnet) name3;
          trans1 = list_index (pn_transitions pnet) name1; trans3 = list_index (pn_transitions pnet) name3
      in if 0 \<le> place1 \<and> 0 \<le> trans1 then No_arc
         else if 0 \<le> place3 \<and> 0 \<le> trans3 then No_arc
         else if place1 < 0 \<and> trans1 < 0 then No_arc
         else if place3 < 0 \<and> trans3 < 0 then No_arc
         else if 0 \<le> place1 \<and> 0 \<le> place3 then No_arc
         else if 0 \<le> trans1 \<and> 0 \<le> trans3 then No_arc
         else if 0 \<le> trans1 then Trans_to_place trans1 place3
         else Place_to_trans place1 trans3)"

definition set_through :: "matrix option \<Rightarrow> int \<Rightarrow> int \<Rightarrow> int \<Rightarrow> matrix option" where
  "set_through m column line value =
     (case m of None \<Rightarrow> None | Some m1 \<Rightarrow> matrix_set m1 column line value)"

text \<open>One row: the net with the arc entered, or the net as it was.\<close>

definition get_arc ::
  "int \<Rightarrow> bool \<Rightarrow> petri_net_t \<Rightarrow> string option \<Rightarrow> string option \<Rightarrow> string option \<Rightarrow>
     (bool \<times> petri_net_t) option" where
  "get_arc vmx e pnet name1 name2 name3 =
     (case (name1, name2, name3) of
        (Some n1, Some n2, Some n3) \<Rightarrow>
          (case arc_ends_of pnet n1 n3 of
             No_arc \<Rightarrow> Some (e, pnet)
           | Place_to_trans pl tr \<Rightarrow>
               (let (e1, weight) = synch_parse_arc_weight vmx e n2
                in if weight < 0 then Some (e1, pnet)
                   else if weight > 0
                   then map_option (\<lambda>m. (e1, pnet\<lparr>pn_in_arc_weights := Some m\<rparr>))
                          (set_through (pn_in_arc_weights pnet) pl tr weight)
                   else map_option (\<lambda>m. (e1, pnet\<lparr>pn_null_arcs := Some m\<rparr>))
                          (set_through (pn_null_arcs pnet) pl tr 1))
           | Trans_to_place tr pl \<Rightarrow>
               (let (e1, weight) = synch_parse_arc_weight vmx e n2
                in if weight \<le> 0 then Some (e1, pnet)
                   else map_option (\<lambda>m. (e1, pnet\<lparr>pn_out_arc_weights := Some m\<rparr>))
                          (set_through (pn_out_arc_weights pnet) pl tr weight)))
      | _ \<Rightarrow> Some (e, pnet))"

fun get_arcs_rows ::
  "int \<Rightarrow> conffile \<Rightarrow> int list \<Rightarrow> bool \<Rightarrow> petri_net_t \<Rightarrow> (bool \<times> petri_net_t) option" where
  "get_arcs_rows vmx cf [] e pnet = Some (e, pnet)"
| "get_arcs_rows vmx cf (i # is) e pnet =
     (case get_arc vmx e pnet (plc_cell cf ''arc'' i 0) (plc_cell cf ''arc'' i 1) (plc_cell cf ''arc'' i 2) of
        None \<Rightarrow> None
      | Some (e1, pnet1) \<Rightarrow> get_arcs_rows vmx cf is e1 pnet1)"

definition no_arcs :: "petri_net_t \<Rightarrow> petri_net_t" where
  "no_arcs pnet =
     (let m = matrix_new (int (length (pn_places pnet))) (int (length (pn_transitions pnet))) 0
      in pnet\<lparr>pn_in_arc_weights := Some m, pn_out_arc_weights := Some m, pn_null_arcs := Some m\<rparr>)"

definition synch_get_arcs :: "int \<Rightarrow> conffile \<Rightarrow> bool \<Rightarrow> petri_net_t \<Rightarrow> (bool \<times> petri_net_t) option" where
  "synch_get_arcs vmx cf e pnet = get_arcs_rows vmx cf (plc_rows cf ''arc'') e (no_arcs pnet)"

section \<open>The simple table\<close>

definition list_append_if_missing :: "string list \<Rightarrow> string \<Rightarrow> string \<Rightarrow> string list" where
  "list_append_if_missing lst item suffix =
     (let dup_item = strdup2 item suffix
      in if 0 \<le> list_index lst dup_item then lst else lst @ [dup_item])"

definition list_index2 :: "string list \<Rightarrow> string \<Rightarrow> string \<Rightarrow> int" where
  "list_index2 lst item suffix = list_index lst (strdup2 item suffix)"

text \<open>The row of the table, if it has all its columns and an arrow of positive weight.\<close>

definition simple_row ::
  "int \<Rightarrow> conffile \<Rightarrow> int \<Rightarrow> bool \<Rightarrow> bool \<times> (string \<times> int \<times> string) option" where
  "simple_row vmx cf i e =
     (case (plc_cell cf ''synch'' i 0, plc_cell cf ''synch'' i 1, plc_cell cf ''synch'' i 2) of
        (Some n1, Some n2, Some n3) \<Rightarrow>
          (let (e1, tmp_weight) = synch_parse_arc_weight vmx e n2
           in (e1, if tmp_weight \<le> 0 then None else Some (n1, tmp_weight, n3)))
      | _ \<Rightarrow> (e, None))"

definition add_modules :: "petri_net_t \<Rightarrow> string \<Rightarrow> string \<Rightarrow> petri_net_t" where
  "add_modules pnet name1 name3 =
     (let ps = list_append_if_missing (list_append_if_missing (pn_places pnet) name1 []) name3 [];
          ts = list_append_if_missing (list_append_if_missing (list_append_if_missing
                 (list_append_if_missing (pn_transitions pnet) name1 ''.beg'') name1 ''.end'')
                 name3 ''.beg'') name3 ''.end''
      in pnet\<lparr>pn_places := ps, pn_transitions := ts\<rparr>)"

fun simple_names :: "int \<Rightarrow> conffile \<Rightarrow> int list \<Rightarrow> bool \<Rightarrow> petri_net_t \<Rightarrow> bool \<times> petri_net_t" where
  "simple_names vmx cf [] e pnet = (e, pnet)"
| "simple_names vmx cf (i # is) e pnet =
     (case simple_row vmx cf i e of
        (e1, None) \<Rightarrow> simple_names vmx cf is e1 pnet
      | (e1, Some (name1, w, name3)) \<Rightarrow> simple_names vmx cf is e1 (add_modules pnet name1 name3))"

text \<open>\<^verbatim>\<open>None\<close> is an access outside a matrix; the second part of the result tells
  whether there was an error.\<close>

fun simple_out :: "int \<Rightarrow> conffile \<Rightarrow> int list \<Rightarrow> bool \<Rightarrow> petri_net_t \<Rightarrow> (bool \<times> petri_net_t option) option" where
  "simple_out vmx cf [] e pnet = Some (e, Some pnet)"
| "simple_out vmx cf (i # is) e pnet =
     (case simple_row vmx cf i e of
        (e1, None) \<Rightarrow> simple_out vmx cf is e1 pnet
      | (e1, Some (name1, tmp_weight, name3)) \<Rightarrow>
          (let place_index = list_index (pn_places pnet) name3;
               trans_index = list_index2 (pn_transitions pnet) name1 ''.end''
           in if place_index < 0 \<or> trans_index < 0 then Some (e1, None)
              else case set_through (pn_out_arc_weights pnet) place_index trans_index tmp_weight of
                     None \<Rightarrow> None
                   | Some m \<Rightarrow> simple_out vmx cf is e1 (pnet\<lparr>pn_out_arc_weights := Some m\<rparr>)))"

fun simple_in :: "nat list \<Rightarrow> petri_net_t \<Rightarrow> petri_net_t option option" where
  "simple_in [] pnet = Some (Some pnet)"
| "simple_in (i # is) pnet =
     (let trans_index = list_index2 (pn_transitions pnet) (pn_places pnet ! i) ''.beg''
      in if trans_index < 0 then Some None
         else case set_through (pn_in_arc_weights pnet) (int i) trans_index 1 of
                None \<Rightarrow> None
              | Some m \<Rightarrow> simple_in is (pnet\<lparr>pn_in_arc_weights := Some m\<rparr>))"

fun simple_start :: "conffile \<Rightarrow> int list \<Rightarrow> petri_net_t \<Rightarrow> petri_net_t option option" where
  "simple_start cf [] pnet = Some (Some pnet)"
| "simple_start cf (i # is) pnet =
     (case plc_cell cf ''synch_start'' i 0 of
        None \<Rightarrow> simple_start cf is pnet
      | Some tmp_name \<Rightarrow>
          (let place_index = list_index (pn_places pnet) tmp_name
           in if place_index < 0 then Some None
              else case set_through (pn_init_tokens pnet) place_index 0 1 of
                     None \<Rightarrow> None
                   | Some m \<Rightarrow> simple_start cf is (pnet\<lparr>pn_init_tokens := Some m\<rparr>)))"

definition synch_get_simple_synch ::
  "int \<Rightarrow> conffile \<Rightarrow> bool \<Rightarrow> (bool \<times> petri_net_t option) option" where
  "synch_get_simple_synch vmx cf e =
     (let rows = plc_rows cf ''synch'';
          (e1, pnet1) = simple_names vmx cf rows e petri_net_t_new;
          pnet2 = no_arcs pnet1
      in case simple_out vmx cf rows e1 pnet2 of
           None \<Rightarrow> None
         | Some (e2, None) \<Rightarrow> Some (e2, None)
         | Some (e2, Some pnet3) \<Rightarrow>
             (case simple_in [0..<length (pn_places pnet3)] pnet3 of
                None \<Rightarrow> None
              | Some None \<Rightarrow> Some (e2, None)
              | Some (Some pnet4) \<Rightarrow>
                  map_option (Pair e2)
                    (simple_start cf (plc_rows cf ''synch_start'')
                       (pnet4\<lparr>pn_init_tokens := Some (matrix_new (int (length (pn_places pnet4))) 1 0)\<rparr>))))"

text \<open>The simple table goes first; the others are read only when it names no module.\<close>

definition petri_net_t_load_from_config ::
  "int \<Rightarrow> conffile \<Rightarrow> bool \<Rightarrow> (bool \<times> petri_net_t option) option" where
  "petri_net_t_load_from_config vmx cf e =
     (case synch_get_simple_synch vmx cf e of
        None \<Rightarrow> None
      | Some (e1, None) \<Rightarrow> Some (e1, None)
      | Some (e1, Some pnet) \<Rightarrow>
          if pn_places pnet \<noteq> [] then Some (e1, Some pnet)
          else let pnet1 = pnet\<lparr>pn_places := synch_get_places cf\<rparr> in
            if pn_places pnet1 = [] then Some (e1, Some pnet1)
            else case synch_get_init_tokens cf e1 (pn_places pnet1) of
                   None \<Rightarrow> None
                 | Some (e2, m) \<Rightarrow>
                     map_option (\<lambda>(e3, pnet3). (e3, Some pnet3))
                       (synch_get_arcs vmx cf e2
                          (pnet1\<lparr>pn_init_tokens := Some m, pn_transitions := synch_get_transitions cf\<rparr>)))"

section \<open>Storing the transitions\<close>

definition sizeof_transition_t :: "u16 \<Rightarrow> u32" where
  "sizeof_transition_t place_count = 4 + 2 * ucast place_count * 2"

definition get_through :: "matrix option \<Rightarrow> int \<Rightarrow> int \<Rightarrow> int option" where
  "get_through m column line = (case m of None \<Rightarrow> None | Some m1 \<Rightarrow> matrix_get m1 column line)"

text \<open>The weights of one direction, -1 for no arc.\<close>

fun transition_values :: "matrix option \<Rightarrow> int \<Rightarrow> nat list \<Rightarrow> i16 list option" where
  "transition_values m tr [] = Some []"
| "transition_values m tr (i # is) =
     (case (get_through m (int i) tr, transition_values m tr is) of
        (Some w, Some ws) \<Rightarrow> Some ((if w > 0 then word_of_int w else -1) # ws)
      | _ \<Rightarrow> None)"

text \<open>The null arcs, \<^verbatim>\<open>Some None\<close> when there is another arc already.\<close>

fun put_null_arcs :: "matrix option \<Rightarrow> int \<Rightarrow> nat list \<Rightarrow> i16 list \<Rightarrow> i16 list option option" where
  "put_null_arcs m tr [] ws = Some (Some ws)"
| "put_null_arcs m tr (i # is) ws =
     (case get_through m (int i) tr of
        None \<Rightarrow> None
      | Some x \<Rightarrow> if x \<noteq> 0 then (if ws ! i = -1 then put_null_arcs m tr is (ws[i := 0]) else Some None)
                  else put_null_arcs m tr is ws)"

definition synch_config_put_transition ::
  "cmm_proc \<Rightarrow> synch_world \<Rightarrow> string \<Rightarrow> int \<Rightarrow> u16 \<Rightarrow> matrix option \<Rightarrow> matrix option \<Rightarrow> matrix option \<Rightarrow>
     (synch_world \<times> int) option" where
  "synch_config_put_transition p w name transition_index place_count ins outs nulls =
     (case cmm_block_alloc p (w_cmm w) block_type_synch_transition (Some name)
             (sizeof_transition_t place_count) of
        None \<Rightarrow> None
      | Some (m1, None) \<Rightarrow> Some (w\<lparr>w_cmm := m1\<rparr>, -1)
      | Some (m1, Some a) \<Rightarrow>
          (let is = [0..<unat place_count]
           in case transition_values ins transition_index is of None \<Rightarrow> None | Some waits \<Rightarrow>
              (case transition_values outs transition_index is of None \<Rightarrow> None | Some signals \<Rightarrow>
              (case put_null_arcs nulls transition_index is waits of
                 None \<Rightarrow> None
               | Some None \<Rightarrow> map_option (\<lambda>(m2, _). (w\<lparr>w_cmm := m2\<rparr>, -1)) (cmm_block_free p m1 (Some a))
               | Some (Some waits1) \<Rightarrow>
                   Some (w\<lparr>w_cmm := m1, w_trans := (w_trans w)(a :=
                           \<lparr>tr_magic = TRANSITION_MAGIC, tr_place_count = ucast place_count,
                            wait_values = waits1, signal_values = signals\<rparr>)\<rparr>, 0)))))"

text \<open>All transitions are tried, and those stored are counted.\<close>

fun put_transitions ::
  "cmm_proc \<Rightarrow> petri_net_t \<Rightarrow> nat list \<Rightarrow> synch_world \<Rightarrow> nat \<Rightarrow> (synch_world \<times> nat) option" where
  "put_transitions p pnet [] w loaded = Some (w, loaded)"
| "put_transitions p pnet (i # is) w loaded =
     (case synch_config_put_transition p w (pn_transitions pnet ! i) (int i)
             (of_nat (length (pn_places pnet))) (pn_in_arc_weights pnet) (pn_out_arc_weights pnet)
             (pn_null_arcs pnet) of
        None \<Rightarrow> None
      | Some (w1, r) \<Rightarrow> put_transitions p pnet is w1 (if r < 0 then loaded else loaded + 1))"

definition synch_load_confmap :: "cmm_proc \<Rightarrow> synch_world \<Rightarrow> petri_net_t \<Rightarrow> (synch_world \<times> int) option" where
  "synch_load_confmap p w pnet =
     (case synch_config_put_transition p w ''NULL'' 0 0 None None None of
        None \<Rightarrow> None
      | Some (w1, r) \<Rightarrow>
          if r < 0 then Some (w1, -1)
          else map_option (\<lambda>(w2, loaded). (w2, if loaded \<noteq> length (pn_transitions pnet) then -1 else 0))
                 (put_transitions p pnet [0..<length (pn_transitions pnet)] w1 0))"


section \<open>Setting up and shutting down\<close>

text \<open>What the system says besides what \<^verbatim>\<open>synch_env\<close> has: whether the mutex of the
  places can be made and unmade, which sets of semaphores can be, and the numbers that
  \<^verbatim>\<open>rand\<close> draws.\<close>

record synch_setup_env =
  su_env :: synch_env
  su_mutex_created :: bool
  su_mutex_destroyed :: bool
  su_sem_made :: "nat \<Rightarrow> bool"
  su_rand :: "nat \<Rightarrow> int"

text \<open>The tokens the places start with; the free places have none.\<close>

fun initial_tokens :: "matrix option \<Rightarrow> nat list \<Rightarrow> int list option" where
  "initial_tokens m [] = Some []"
| "initial_tokens m (i # is) =
     (case (get_through m (int i) 0, initial_tokens m is) of
        (Some x, Some xs) \<Rightarrow> Some (x # xs)
      | _ \<Rightarrow> None)"

text \<open>A random key when the configuration asks for key 0. The result has the key.\<close>

definition create_synch_sems ::
  "cmm_proc \<Rightarrow> synch_setup_env \<Rightarrow> synch_world \<Rightarrow> synch_lib \<Rightarrow> int \<Rightarrow> int \<Rightarrow> int list \<Rightarrow>
     (synch_world \<times> synch_lib \<times> int option) option" where
  "create_synch_sems p env w l conf_key total_place_count init_values =
     (let init = (\<lambda>i. if i < length init_values then init_values ! i else 0);
          ret = (\<lambda>m s r key. (w\<lparr>w_cmm := m, w_sem := s\<rparr>, l\<lparr>sem_refptr := r\<rparr>, key))
      in if conf_key = 0
         then map_option (\<lambda>(m, s, r, key). ret m s r key)
                (plcsynchsem_createrand p (w_cmm w) (w_sem w) (sem_refptr l) (env_zg (su_env env))
                   (su_sem_made env) (su_rand env) (word_of_int total_place_count) init)
         else map_option (\<lambda>(m, s, r, res). ret m s r (if res < 0 then None else Some conf_key))
                (plcsynchsem_create p (w_cmm w) (w_sem w) (sem_refptr l) (env_zg (su_env env))
                   (su_sem_made env 0) conf_key total_place_count init))"

text \<open>The error exits, from the last to the first.\<close>

definition setup_fail_2 ::
  "cmm_proc \<Rightarrow> synch_lib \<Rightarrow> nat \<Rightarrow> synch_world \<Rightarrow> (synch_world \<times> synch_lib \<times> int) option" where
  "setup_fail_2 p l shm w = map_option (\<lambda>(m, _). (w\<lparr>w_cmm := m\<rparr>, l, -1)) (cmm_block_free p (w_cmm w) (Some shm))"

definition setup_fail_4 ::
  "cmm_proc \<Rightarrow> synch_setup_env \<Rightarrow> synch_lib \<Rightarrow> nat \<Rightarrow> int \<Rightarrow> synch_world \<Rightarrow>
     (synch_world \<times> synch_lib \<times> int) option" where
  "setup_fail_4 p env l shm key w =
     (if key \<ge> 0
      then case plcsynchsem_delete p (w_cmm w) (w_sem w) (env_zg (su_env env)) key of
             None \<Rightarrow> None
           | Some (m, _) \<Rightarrow> setup_fail_2 p l shm (w\<lparr>w_cmm := m\<rparr>)
      else setup_fail_2 p l shm w)"

text \<open>From the net and the block on. The result of \<^verbatim>\<open>synch_init\<close> is not looked at.\<close>

definition setup_with ::
  "cmm_proc \<Rightarrow> synch_setup_env \<Rightarrow> conffile \<Rightarrow> bool \<Rightarrow> synch_lib \<Rightarrow> string \<Rightarrow> petri_net_t \<Rightarrow> int \<Rightarrow> int \<Rightarrow>
     nat \<Rightarrow> synch_world \<Rightarrow> (synch_world \<times> synch_lib \<times> int) option" where
  "setup_with p env cf e l module_name pnet max_module_count conf_key shm w =
     (let synch_place_count = length (pn_places pnet);
          total_place_count = int synch_place_count + (max_module_count + 1)
      in if \<not> su_mutex_created env then setup_fail_2 p l shm w
         else case (if total_place_count \<le> 0 then Some (w, l, Some (-1))
                    else case initial_tokens (pn_init_tokens pnet) [0..<synch_place_count] of
                           None \<Rightarrow> None
                         | Some init \<Rightarrow> create_synch_sems p env w l conf_key total_place_count init) of
                None \<Rightarrow> None
              | Some (w1, l1, None) \<Rightarrow> setup_fail_2 p l1 shm w1
              | Some (w1, l1, Some key) \<Rightarrow>
                  let used = map (\<lambda>i. if i < synch_place_count then 1 else 0) [0..<nat total_place_count];
                      w2 = w1\<lparr>w_synch_t := (w_synch_t w1)(shm := \<lparr>sy_magic = SYNCH_MAGIC,
                               synch_semkey = key, sy_place_count = total_place_count, places_in_use = used\<rparr>)\<rparr>
                  in case synch_load_confmap p w2 pnet of
                       None \<Rightarrow> None
                     | Some (w3, r) \<Rightarrow>
                         if r < 0 then setup_fail_4 p env l1 shm key w3
                         else map_option (\<lambda>(w4, l4, _). (w4, l4, 0))
                                (synch_init p (su_env env) cf e w3 l1 module_name))"

definition synch_setup ::
  "cmm_proc \<Rightarrow> synch_setup_env \<Rightarrow> conffile \<Rightarrow> bool \<Rightarrow> synch_world \<Rightarrow> synch_lib \<Rightarrow> string \<Rightarrow> int \<Rightarrow>
     (synch_world \<times> synch_lib \<times> int) option" where
  "synch_setup p env cf e w l module_name max_module_count =
     (if max_module_count < 0 then Some (w, l, -1)
      else case petri_net_t_load_from_config PLCSYNCHSEMVMX cf e of
             None \<Rightarrow> None
           | Some (e1, None) \<Rightarrow> Some (w, l, -1)
           | Some (e1, Some pnet) \<Rightarrow>
               (let total_place_count = int (length (pn_places pnet)) + (max_module_count + 1)
                in case synch_parse_conf p (w_cmm w) cf e1 [] True False of
                     None \<Rightarrow> None
                   | Some ((e2, key), _, _) \<Rightarrow>
                       (case cmm_block_alloc p (w_cmm w) block_type_synch_setup (Some ''synch_t'')
                               (env_sizeof_synch_t (su_env env) + word_of_int total_place_count) of
                          None \<Rightarrow> None
                        | Some (m1, None) \<Rightarrow> Some (w\<lparr>w_cmm := m1\<rparr>, l, -1)
                        | Some (m1, Some shm) \<Rightarrow>
                            setup_with p env cf e2 l module_name pnet max_module_count (case key of None \<Rightarrow> 0 | Some k \<Rightarrow> k) shm
                              (w\<lparr>w_cmm := m1\<rparr>))))"

text \<open>The block's size is checked last of all: the set and the block go away in any case.\<close>

definition synch_shutdown ::
  "cmm_proc \<Rightarrow> synch_setup_env \<Rightarrow> synch_world \<Rightarrow> (synch_world \<times> int) option" where
  "synch_shutdown p env w =
     (case cmm_block_find p (w_cmm w) block_type_synch_setup (Some ''synch_t'') of
        None \<Rightarrow> None
      | Some (None, z) \<Rightarrow> Some (w, -1)
      | Some (Some shm, z) \<Rightarrow>
          if z < env_sizeof_synch_t (su_env env)
          then map_option (\<lambda>(m, _). (w\<lparr>w_cmm := m\<rparr>, -1)) (cmm_block_free p (w_cmm w) (Some shm))
          else let sy = w_synch_t w shm;
                   res0 = (z \<noteq> env_sizeof_synch_t (su_env env) + word_of_int (sy_place_count sy))
               in case (if synch_semkey sy \<ge> 0
                        then plcsynchsem_delete p (w_cmm w) (w_sem w) (env_zg (su_env env)) (synch_semkey sy)
                        else Some (w_cmm w, 0)) of
                    None \<Rightarrow> None
                  | Some (m1, r1) \<Rightarrow>
                      map_option (\<lambda>(m2, r2). (w\<lparr>w_cmm := m2\<rparr>,
                          if res0 \<or> r1 < 0 \<or> \<not> su_mutex_destroyed env \<or> r2 < 0 then -1 else 0))
                        (cmm_block_free p m1 (Some shm)))"

end
