(* ===== verification/SynchSemList.thy ===== *)
theory SynchSemList
  imports SynchSem
begin

text \<open>
  The processes' list of \<^verbatim>\<open>lib/synch/synch_sem.c\<close> as a list: what a well-linked
  list is, and that insertion and removal through the links are insertion by priority and
  removal in that list (\<open>insert_list_dll\<close>, \<open>remove_list_dll\<close>).
\<close>

section \<open>Linked segments\<close>

text \<open>From \<open>h\<close> the \<^verbatim>\<open>list_next\<close> fields lead through \<open>xs\<close> to \<open>e\<close>, and
  the \<^verbatim>\<open>list_prev\<close> fields lead back to \<open>pv\<close>.\<close>

fun lseg :: "sem_store \<Rightarrow> u32 \<Rightarrow> u32 \<Rightarrow> u32 list \<Rightarrow> u32 \<Rightarrow> bool" where
  "lseg st pv h [] e \<longleftrightarrow> h = e"
| "lseg st pv h (x # xs) e \<longleftrightarrow>
     h = x \<and> x \<noteq> 0 \<and> list_prev (st x) = pv \<and> lseg st x (list_next (st x)) xs e"

definition dll :: "sem_store \<Rightarrow> u32 \<Rightarrow> u32 list \<Rightarrow> bool" where
  "dll st h xs \<longleftrightarrow> lseg st 0 h xs 0 \<and> distinct xs"

text \<open>The order the code keeps: before the first process of a strictly lower priority.\<close>

fun insert_by :: "(u32 \<Rightarrow> int) \<Rightarrow> u32 \<Rightarrow> u32 list \<Rightarrow> u32 list" where
  "insert_by pr e [] = [e]"
| "insert_by pr e (x # xs) = (if pr e > pr x then e # x # xs else x # insert_by pr e xs)"

abbreviation prio_of :: "sem_store \<Rightarrow> u32 \<Rightarrow> int" where
  "prio_of st x \<equiv> sint (priority (st x))"

text \<open>The stores differ in the links of the elements of \<open>S\<close> only.\<close>

definition nolinks :: "plcsynchsem_local \<Rightarrow> plcsynchsem_local" where
  "nolinks l = l\<lparr>list_prev := 0, list_next := 0\<rparr>"

definition same_but_links :: "u32 set \<Rightarrow> sem_store \<Rightarrow> sem_store \<Rightarrow> bool" where
  "same_but_links S st st' \<longleftrightarrow>
     (\<forall>x. (x \<notin> S \<longrightarrow> st' x = st x) \<and> nolinks (st' x) = nolinks (st x))"

lemma nolinks_upd [simp]:
  "nolinks (l\<lparr>list_prev := p\<rparr>) = nolinks l" "nolinks (l\<lparr>list_next := n\<rparr>) = nolinks l"
  by (simp_all add: nolinks_def)

lemma lseg_append:
  "lseg st pv h (xs @ ys) e \<longleftrightarrow>
     (\<exists>m. lseg st pv h xs m \<and> lseg st (if xs = [] then pv else last xs) m ys e)"
  by (induction xs arbitrary: pv h) auto

lemma lseg_cong:
  "(\<And>x. x \<in> set xs \<Longrightarrow> list_prev (st' x) = list_prev (st x) \<and> list_next (st' x) = list_next (st x)) \<Longrightarrow>
   lseg st' pv h xs e = lseg st pv h xs e"
  by (induction xs arbitrary: pv h) auto

lemma lseg_nonzero: "lseg st pv h xs e \<Longrightarrow> 0 \<notin> set xs"
  by (induction xs arbitrary: pv h) auto

lemma dll_nonzero: "dll st h xs \<Longrightarrow> 0 \<notin> set xs"
  by (auto simp: dll_def dest: lseg_nonzero)

lemma dll_nil [simp]: "dll st 0 xs \<longleftrightarrow> xs = []"
  by (cases xs) (auto simp: dll_def)

lemma dll_cong:
  "(\<And>x. x \<in> set xs \<Longrightarrow> list_prev (st' x) = list_prev (st x) \<and> list_next (st' x) = list_next (st x)) \<Longrightarrow>
   dll st' h xs = dll st h xs"
  unfolding dll_def using lseg_cong [of xs st' st 0 h 0] by blast

lemma same_but_links_refl: "same_but_links S st st"
  by (simp add: same_but_links_def)

lemma nolinks_fields:
  assumes "nolinks k = nolinks l"
  shows "priority k = priority l" "localpsem k = localpsem l" "globalsem_ptr k = globalsem_ptr l"
    "blocked_parm k = blocked_parm l" "blocked_parm_count k = blocked_parm_count l"
  using arg_cong [OF assms, of priority] arg_cong [OF assms, of localpsem]
    arg_cong [OF assms, of globalsem_ptr] arg_cong [OF assms, of blocked_parm]
    arg_cong [OF assms, of blocked_parm_count]
  by (simp_all add: nolinks_def)

lemma same_but_links_fields:
  assumes "same_but_links S st st'"
  shows "priority (st' x) = priority (st x)" "localpsem (st' x) = localpsem (st x)"
    "globalsem_ptr (st' x) = globalsem_ptr (st x)" "parm_list P (st' x) = parm_list P (st x)"
    "blocked_parm (st' x) = blocked_parm (st x)"
    "blocked_parm_count (st' x) = blocked_parm_count (st x)"
  using nolinks_fields [of "st' x" "st x"] assms by (simp_all add: same_but_links_def parm_list_def)

lemma same_but_links_mono: "same_but_links S st st' \<Longrightarrow> S \<subseteq> T \<Longrightarrow> same_but_links T st st'"
  unfolding same_but_links_def by blast

lemma same_but_links_other: "same_but_links S st st' \<Longrightarrow> x \<notin> S \<Longrightarrow> st' x = st x"
  by (simp add: same_but_links_def)

lemma same_but_links_trans:
  "same_but_links S st st1 \<Longrightarrow> same_but_links S st1 st2 \<Longrightarrow> same_but_links S st st2"
  by (simp add: same_but_links_def)

lemma links_upd_prev:
  "x \<in> S \<Longrightarrow> same_but_links S st st' \<Longrightarrow> same_but_links S st (st'(x := (st' x)\<lparr>list_prev := v\<rparr>))"
  by (auto simp: same_but_links_def)

lemma links_upd_next:
  "x \<in> S \<Longrightarrow> same_but_links S st st' \<Longrightarrow> same_but_links S st (st'(x := (st' x)\<lparr>list_next := v\<rparr>))"
  by (auto simp: same_but_links_def)

lemma links_upd_both:
  "x \<in> S \<Longrightarrow> same_but_links S st st' \<Longrightarrow>
   same_but_links S st (st'(x := (st' x)\<lparr>list_prev := v, list_next := w\<rparr>))"
  by (auto simp: same_but_links_def)

lemmas links_upd = links_upd_prev links_upd_next links_upd_both

section \<open>Insertion\<close>

lemma insert_by_set [simp]: "set (insert_by pr e xs) = insert e (set xs)"
  by (induction xs) auto

lemma insert_by_distinct: "distinct xs \<Longrightarrow> e \<notin> set xs \<Longrightarrow> distinct (insert_by pr e xs)"
  by (induction xs) auto

lemma insert_by_sorted:
  "sorted_wrt (\<lambda>x y. pr x \<ge> pr y) xs \<Longrightarrow> sorted_wrt (\<lambda>x y. pr x \<ge> pr y) (insert_by pr e xs)"
  by (induction xs) auto

lemma insert_by_split:
  "insert_by pr e xs =
     takeWhile (\<lambda>x. pr e \<le> pr x) xs @ e # dropWhile (\<lambda>x. pr e \<le> pr x) xs"
  by (induction xs) auto

definition head_or :: "u32 list \<Rightarrow> u32" where
  "head_or xs = (case xs of [] \<Rightarrow> 0 | x # _ \<Rightarrow> x)"

lemma head_or_simps [simp]: "head_or [] = 0" "head_or (x # xs) = x"
  by (simp_all add: head_or_def)

lemma lseg_head: "lseg st pv h xs 0 \<Longrightarrow> h = head_or xs"
  by (cases xs) auto

lemma insert_walk_lseg:
  assumes "lseg st pv a (a # xs) 0"
  shows "insert_walk st q a =
    Some (last (a # takeWhile (\<lambda>x. sint q \<le> prio_of st x) xs),
          head_or (dropWhile (\<lambda>x. sint q \<le> prio_of st x) xs))"
  using assms
proof (induction xs arbitrary: pv a)
  case Nil
  then show ?case by (subst insert_walk.simps) simp
next
  case (Cons x xs)
  then have n: "list_next (st a) = x" "x \<noteq> 0" and rest: "lseg st a x (x # xs) 0" by auto
  show ?case
  proof (cases "sint q > prio_of st x")
    case True
    then show ?thesis using n by (subst insert_walk.simps) (simp add: Let_def)
  next
    case False
    then show ?thesis using n Cons.IH [OF rest] by (subst insert_walk.simps) (simp add: Let_def)
  qed
qed

lemma lseg_insert:
  assumes us: "lseg st 0 h (us @ [l]) m" and vs: "lseg st l m vs 0" and m: "m = head_or vs"
    and dist: "distinct (us @ l # vs)" "e \<notin> set (us @ l # vs)" "e \<noteq> 0"
    and st': "st' = (let st1 = st(e := (st e)\<lparr>list_prev := l, list_next := m\<rparr>);
                         st2 = st1(l := (st1 l)\<lparr>list_next := e\<rparr>)
                     in if m \<noteq> 0 then st2(m := (st2 m)\<lparr>list_prev := e\<rparr>) else st2)"
  shows "lseg st' 0 h (us @ l # e # vs) 0"
proof -
  have nz: "0 \<notin> set (us @ [l])" "0 \<notin> set vs" using lseg_nonzero [OF us] lseg_nonzero [OF vs] by auto
  have el: "e \<noteq> l" "l \<noteq> 0" using dist nz by auto
  have ml: "m \<noteq> l" "m \<noteq> e" "m \<notin> set us" using m dist nz el by (cases vs; auto)+
  let ?b = "if us = [] then 0 else last us"
  obtain k where k: "lseg st 0 h us k" "lseg st ?b k [l] m" using us by (auto simp: lseg_append)
  have "lseg st' 0 h us k" using k(1) dist el ml by (subst lseg_cong [of us st' st]) (auto simp: st' Let_def)
  moreover have "lseg st' ?b k [l] e" using k(2) el ml by (auto simp: st' Let_def)
  moreover have "lseg st' l e (e # vs) 0"
  proof (cases vs)
    case Nil
    then show ?thesis using m el dist by (auto simp: st' Let_def)
  next
    case (Cons v ws)
    then have v: "m = v" "v \<noteq> 0" using m nz by auto
    have ws: "lseg st' v (list_next (st' v)) ws 0"
      using vs Cons v dist el ml
      by (subst lseg_cong [of ws st' st]) (auto simp: st' Let_def)
    then show ?thesis using Cons v el ml dist by (auto simp: st' Let_def)
  qed
  ultimately show ?thesis by (auto simp: lseg_append)
qed

lemma insert_store_links:
  assumes "e \<in> S" "l \<in> S" "m \<noteq> 0 \<Longrightarrow> m \<in> S"
  shows "same_but_links S st
    (let st1 = st(e := (st e)\<lparr>list_prev := l, list_next := m\<rparr>);
         st2 = st1(l := (st1 l)\<lparr>list_next := e\<rparr>)
     in if m \<noteq> 0 then st2(m := (st2 m)\<lparr>list_prev := e\<rparr>) else st2)"
  using assms by (auto simp: same_but_links_def Let_def)

lemma insert_list_dll:
  assumes d: "dll st h xs" and e: "e \<notin> set xs" "e \<noteq> 0"
  shows "\<exists>st' h'. insert_list st h e = Some (st', h') \<and> dll st' h' (insert_by (prio_of st) e xs) \<and>
    same_but_links (insert e (set xs)) st st'"
proof (cases xs)
  case Nil
  then have "h = 0" using d by (simp add: dll_def)
  then show ?thesis using Nil e
    by (auto simp: insert_list_def dll_def intro!: links_upd same_but_links_refl)
next
  case (Cons a as)
  then have h: "h = a" "a \<noteq> 0" "lseg st a (list_next (st a)) as 0" "list_prev (st a) = 0"
    and dist: "distinct (a # as)" using d by (auto simp: dll_def)
  have ea: "e \<noteq> a" "e \<notin> set as" using e Cons by auto
  show ?thesis
  proof (cases "prio_of st e > prio_of st a")
    case True
    let ?st1 = "st(e := (st e)\<lparr>list_prev := 0, list_next := a\<rparr>)"
    let ?st' = "?st1(a := (?st1 a)\<lparr>list_prev := e\<rparr>)"
    have il: "insert_list st h e = Some (?st', e)" using h True by (simp add: insert_list_def Let_def)
    have "lseg ?st' a (list_next (st a)) as 0"
      using h(3) dist ea by (subst lseg_cong [of as ?st' st]) auto
    then have "dll ?st' e (e # a # as)" using h dist ea e(2) by (auto simp: dll_def)
    moreover have "same_but_links (insert e (set xs)) st ?st'"
      using Cons by (intro links_upd same_but_links_refl) auto
    ultimately show ?thesis using il Cons True by auto
  next
    case False
    let ?Q = "\<lambda>x. prio_of st e \<le> prio_of st x"
    let ?us = "takeWhile ?Q as" and ?vs = "dropWhile ?Q as"
    let ?l = "last (a # ?us)" and ?m = "head_or ?vs"
    have w: "insert_walk st (priority (st e)) h = Some (?l, ?m)"
      using insert_walk_lseg [of st 0 a as] h by simp
    have full: "lseg st 0 h ((a # ?us) @ ?vs) 0" using h by simp
    obtain m where m: "lseg st 0 h (a # ?us) m" "lseg st ?l m ?vs 0"
      using full unfolding lseg_append by (auto simp del: lseg.simps)
    have mm: "m = ?m" by (rule lseg_head [OF m(2)])
    have split: "butlast (a # ?us) @ [?l] = a # ?us" by (rule append_butlast_last_id) simp
    have dd: "distinct (butlast (a # ?us) @ ?l # ?vs)" "e \<notin> set (butlast (a # ?us) @ ?l # ?vs)"
    proof -
      have "butlast (a # ?us) @ ?l # ?vs = (butlast (a # ?us) @ [?l]) @ ?vs" by simp
      also have "\<dots> = a # as" using split by simp
      finally show "distinct (butlast (a # ?us) @ ?l # ?vs)" "e \<notin> set (butlast (a # ?us) @ ?l # ?vs)"
        using dist ea by simp_all
    qed
    have ln: "list_next (st ?l) = ?m"
    proof -
      have "lseg st 0 h (butlast (a # ?us) @ [?l]) ?m" using m(1) mm split by simp
      then show ?thesis by (subst (asm) lseg_append) auto
    qed
    define st' where "st' = (let st1 = st(e := (st e)\<lparr>list_prev := ?l, list_next := ?m\<rparr>);
                         st2 = st1(?l := (st1 ?l)\<lparr>list_next := e\<rparr>)
                     in if ?m \<noteq> 0 then st2(?m := (st2 ?m)\<lparr>list_prev := e\<rparr>) else st2)"
    have li: "insert_list st h e = Some (st', h)"
      unfolding insert_list_def using h False w ln by (simp add: Let_def st'_def del: last.simps)
    have m1: "lseg st 0 h (butlast (a # ?us) @ [?l]) m" unfolding split by (rule m(1))
    have "lseg st' 0 h (butlast (a # ?us) @ ?l # e # ?vs) 0"
      by (rule lseg_insert [OF m1 m(2) mm dd e(2)]) (simp only: st'_def mm)
    moreover have sp: "butlast (a # ?us) @ ?l # e # ?vs = insert_by (prio_of st) e xs"
    proof -
      have "butlast (a # ?us) @ ?l # e # ?vs = (butlast (a # ?us) @ [?l]) @ e # ?vs" by simp
      then show ?thesis using split Cons False by (simp add: insert_by_split)
    qed
    moreover have "distinct (insert_by (prio_of st) e xs)"
      using dist Cons e insert_by_distinct by blast
    moreover have "same_but_links (insert e (set xs)) st st'"
    proof -
      have "?l \<in> set xs" using Cons by (metis set_takeWhileD last_in_set list.set_intros(2) last_ConsL last_ConsR list.set_intros(1))
      moreover have "?m \<noteq> 0 \<Longrightarrow> ?m \<in> set xs"
        using Cons by (cases ?vs) (auto, metis list.set_intros(1) set_dropWhileD)
      ultimately show ?thesis
        unfolding st'_def by (intro insert_store_links) auto
    qed
    ultimately show ?thesis using li by (auto simp: dll_def)
  qed
qed

section \<open>Removal\<close>

lemma remove_list_dll:
  assumes d: "dll st h (us @ x # vs)"
  shows "\<exists>st' h'. remove_list st h x = (st', h') \<and> dll st' h' (us @ vs) \<and>
    same_but_links (set us \<union> set vs) st st'"
proof -
  let ?b = "if us = [] then 0 else last us"
  obtain k where k: "lseg st 0 h us k" and "lseg st ?b k (x # vs) 0"
    using d by (auto simp: dll_def lseg_append)
  then have x: "k = x" "x \<noteq> 0" "list_prev (st x) = ?b" "lseg st x (list_next (st x)) vs 0" by auto
  have nx: "list_next (st x) = head_or vs" by (rule lseg_head [OF x(4)])
  have dist: "distinct us" "distinct vs" "x \<notin> set us" "x \<notin> set vs" "set us \<inter> set vs = {}"
    using d by (auto simp: dll_def)
  have nz: "0 \<notin> set us" "0 \<notin> set vs" using dll_nonzero [OF d] by auto
  define st1 where "st1 = (if us = [] then st else st(last us := (st (last us))\<lparr>list_next := head_or vs\<rparr>))"
  define h' where "h' = (if us = [] then head_or vs else h)"
  define st' where "st' = (if vs = [] then st1
     else st1(head_or vs := (st1 (head_or vs))\<lparr>list_prev := ?b\<rparr>))"
  have hz: "head_or vs = 0 \<longleftrightarrow> vs = []" using nz by (cases vs) auto
  have st1x: "st1 x = st x" using dist by (auto simp: st1_def)
  have bz: "?b = 0 \<longleftrightarrow> us = []" using nz by (cases us rule: rev_cases) auto
  have rl: "remove_list st h x = (st', h')"
    unfolding remove_list_def using x(3) nx hz st1x bz
    by (auto simp: st1_def st'_def h'_def Let_def)
  have "lseg st' 0 h' us (head_or vs)"
  proof (cases us rule: rev_cases)
    case Nil
    then show ?thesis by (simp add: h'_def)
  next
    case (snoc ws l)
    obtain j where j: "lseg st 0 h ws j" "lseg st (if ws = [] then 0 else last ws) j [l] x"
      using k x(1) snoc by (auto simp: lseg_append)
    have nd: "l \<notin> set ws" "head_or vs \<noteq> l" "head_or vs \<notin> set ws"
      using dist nz snoc by (cases vs; auto)+
    have "lseg st' 0 h ws j"
      using j(1) nd snoc by (subst lseg_cong [of ws st' st]) (auto simp: st'_def st1_def)
    moreover have "lseg st' (if ws = [] then 0 else last ws) j [l] (head_or vs)"
      using j(2) nd snoc by (auto simp: st'_def st1_def)
    ultimately show ?thesis using snoc by (auto simp: lseg_append h'_def)
  qed
  moreover have "lseg st' ?b (head_or vs) vs 0"
  proof (cases vs)
    case (Cons v ws)
    have "v \<notin> set ws" "us \<noteq> [] \<Longrightarrow> last us \<notin> set ws \<and> last us \<noteq> v"
      using dist Cons last_in_set [of us] by (auto simp del: last_in_set)
    then have "lseg st' v (list_next (st' v)) ws 0"
      using x(4) Cons by (subst lseg_cong [of ws st' st]) (auto simp: st'_def st1_def)
    then show ?thesis using Cons nz by (simp add: st'_def)
  qed simp
  ultimately have "lseg st' 0 h' (us @ vs) 0" by (auto simp: lseg_append)
  moreover have "same_but_links (set us \<union> set vs) st st'"
  proof -
    have "vs \<noteq> [] \<Longrightarrow> head_or vs \<in> set vs" by (cases vs) auto
    moreover have "us \<noteq> [] \<Longrightarrow> last us \<in> set us" by simp
    ultimately show ?thesis by (auto simp: st'_def st1_def same_but_links_def)
  qed
  ultimately show ?thesis using rl dist by (auto simp: dll_def)
qed

end
