(* ===== verification/SynchSemWake.thy ===== *)
theory SynchSemWake
  imports SynchSemList
begin

text \<open>
  What a call of \<^verbatim>\<open>plcsynchsem_synch\<close> does to a set: a request is done as a whole
  or not at all, the processes that can go on are woken, and a process that sleeps is one whose
  request cannot be done (\<open>sem_inv\<close>, kept by every step of a system of processes).
\<close>

section \<open>Requests\<close>

text \<open>The operations of a request one after the other, each on the value the earlier ones left;
  \<open>None\<close> when one of them cannot be done.\<close>

fun sem_run :: "plcsynchsem_parm list \<Rightarrow> u32 list \<Rightarrow> u32 list option" where
  "sem_run [] vs = Some vs"
| "sem_run (p # ps) vs =
     (let n = unat (sem_num p); v = uint (vs ! n); d = sint (sem_op p)
      in if d = 0 then (if v = 0 then sem_run ps vs else None)
         else if 0 \<le> v + d then sem_run ps (vs[n := word_of_int (v + d)])
         else None)"

definition reqs_ok :: "nat \<Rightarrow> plcsynchsem_parm list \<Rightarrow> bool" where
  "reqs_ok n ps \<longleftrightarrow> (\<forall>p\<in>set ps. unat (sem_num p) < n)"

lemma reqs_ok_simps [simp]:
  "reqs_ok n []" "reqs_ok n (p # ps) \<longleftrightarrow> unat (sem_num p) < n \<and> reqs_ok n ps"
  by (auto simp: reqs_ok_def)

lemma sem_run_length: "sem_run ps vs = Some vs' \<Longrightarrow> length vs' = length vs"
  by (induction ps vs rule: sem_run.induct) (auto simp: Let_def split: if_splits)

text \<open>The place of the first operation that cannot be done.\<close>

fun stuck_at :: "plcsynchsem_parm list \<Rightarrow> u32 list \<Rightarrow> nat" where
  "stuck_at [] vs = 0"
| "stuck_at (p # ps) vs =
     (case sem_run [p] vs of None \<Rightarrow> 0 | Some vs1 \<Rightarrow> Suc (stuck_at ps vs1))"

lemma stuck_at_less: "sem_run ps vs = None \<Longrightarrow> stuck_at ps vs < length ps"
  by (induction ps vs rule: stuck_at.induct) (auto simp: Let_def split: if_splits)

definition add_at :: "nat \<Rightarrow> u32 \<Rightarrow> u32 list \<Rightarrow> u32 list" where
  "add_at n d vs = vs[n := vs ! n + d]"

lemma add_at_length [simp]: "length (add_at n d vs) = length vs"
  by (simp add: add_at_def)

lemma add_at_zero [simp]: "add_at n 0 vs = vs"
  by (simp add: add_at_def)

lemma add_at_commute: "add_at n d (add_at m e vs) = add_at m e (add_at n d vs)"
proof (cases "n = m")
  case True
  then show ?thesis
    by (cases "n < length vs") (simp_all add: add_at_def algebra_simps list_update_beyond)
next
  case False
  then show ?thesis by (simp add: add_at_def list_update_swap)
qed

lemma add_at_cancel: "n < length vs \<Longrightarrow> add_at n (- d) (add_at n d vs) = vs"
  by (simp add: add_at_def)

fun do_ops :: "plcsynchsem_parm list \<Rightarrow> u32 list \<Rightarrow> u32 list" where
  "do_ops [] vs = vs"
| "do_ops (p # ps) vs = do_ops ps (add_at (unat (sem_num p)) (scast (sem_op p)) vs)"

lemma do_ops_length [simp]: "length (do_ops ps vs) = length vs"
  by (induction ps arbitrary: vs) auto

lemma do_ops_add_at: "do_ops ps (add_at n d vs) = add_at n d (do_ops ps vs)"
proof (induction ps arbitrary: vs)
  case (Cons p ps)
  show ?case using Cons.IH by (simp add: add_at_commute [of _ _ n d])
qed simp

lemma undo_ops_add_at:
  "undo_ops (p # ps) vs = undo_ops ps (add_at (unat (sem_num p)) (- scast (sem_op p)) vs)"
  by (simp add: add_at_def)

lemma undo_do_ops:
  "reqs_ok (length vs) ps \<Longrightarrow> undo_ops ps (do_ops ps vs) = vs"
proof (induction ps arbitrary: vs)
  case (Cons p ps)
  let ?n = "unat (sem_num p)" and ?d = "scast (sem_op p) :: u32"
  have "undo_ops (p # ps) (do_ops (p # ps) vs)
    = undo_ops ps (add_at ?n (- ?d) (add_at ?n ?d (do_ops ps vs)))"
    by (simp only: do_ops.simps undo_ops_add_at do_ops_add_at)
  also have "\<dots> = undo_ops ps (do_ops ps vs)" using Cons.prems by (simp add: add_at_cancel)
  finally show ?case using Cons by simp
qed simp

lemma wi_uint_sint: "(word_of_int (uint (v :: u32) + sint d) :: u32) = v + scast (d :: i16)"
proof -
  have "(word_of_int (uint v + sint d) :: u32) = word_of_int (uint v) + word_of_int (sint d)"
    by (rule wi_hom_add [symmetric])
  then show ?thesis by (simp only: word_of_int_uint scast_eq)
qed

lemma sint_i16: "- 32768 \<le> sint (d :: i16)" "sint (d :: i16) < 32768"
  using sint_ge [of d] sint_lt [of d] by simp_all

lemma below_debit:
  assumes "sint (d :: i16) < 0"
  shows "(v :: u32) < - scast d \<longleftrightarrow> uint v + sint d < 0"
proof -
  have "(- scast d :: u32) = word_of_int (- sint d)"
    by (simp only: scast_eq wi_hom_neg)
  moreover have "uint (word_of_int (- sint d) :: u32) = - sint d"
    unfolding uint_word_of_int using assms sint_i16(1) [of d] by (intro mod_pos_pos_trivial) simp_all
  ultimately have "uint (- scast d :: u32) = - sint d" by (simp only:)
  then show ?thesis by (auto simp: word_less_def)
qed

lemma sint_zero_iff: "sint (d :: i16) = 0 \<longleftrightarrow> d = 0"
  by (rule signed_eq_0_iff)

lemma try_ops_run:
  "reqs_ok (length vs) ps \<Longrightarrow>
   (case sem_run ps vs of
      Some vs' \<Rightarrow> try_ops ps i vs = Some (vs', -1)
    | None \<Rightarrow> try_ops ps i vs =
        Some (do_ops (take (stuck_at ps vs) ps) vs, int (i + stuck_at ps vs)))"
proof (induction ps arbitrary: vs i)
  case (Cons p ps)
  let ?n = "unat (sem_num p)" and ?d = "scast (sem_op p) :: u32"
  let ?vs1 = "add_at ?n ?d vs"
  have n: "?n < length vs" "reqs_ok (length vs) ps" using Cons.prems by auto
  consider (zero) "sem_op p = 0" "vs ! ?n = 0" | (stuck0) "sem_op p = 0" "vs ! ?n \<noteq> 0"
    | (stuck) "sem_op p \<noteq> 0" "uint (vs ! ?n) + sint (sem_op p) < 0"
    | (go) "sem_op p \<noteq> 0" "0 \<le> uint (vs ! ?n) + sint (sem_op p)" by linarith
  then show ?case
  proof cases
    case zero
    then have "try_ops (p # ps) i vs = try_ops ps (i + 1) vs" "sem_run (p # ps) vs = sem_run ps vs"
      "do_ops (take (Suc k) (p # ps)) vs = do_ops (take k ps) vs"
      "stuck_at (p # ps) vs = Suc (stuck_at ps vs)" for k
      using n by (simp_all add: Let_def)
    then show ?thesis using Cons.IH [OF n(2), of "i + 1"]
      by (auto split: option.splits)
  next
    case stuck0
    then have "try_ops (p # ps) i vs = Some (vs, int i)" "sem_run (p # ps) vs = None"
      "stuck_at (p # ps) vs = 0"
      using n by (simp_all add: Let_def uint_0_iff)
    then show ?thesis by auto
  next
    case stuck
    have neg: "sint (sem_op p) < 0" using stuck(2) by (smt (verit) uint_ge_0)
    then have "try_ops (p # ps) i vs = Some (vs, int i)" "sem_run (p # ps) vs = None"
      "stuck_at (p # ps) vs = 0"
      using n stuck by (simp_all add: Let_def below_debit [OF neg])
    then show ?thesis by auto
  next
    case go
    then have nz: "sint (sem_op p) \<noteq> 0" by (simp add: sint_zero_iff)
    have "sem_run (p # ps) vs = sem_run ps ?vs1" "stuck_at (p # ps) vs = Suc (stuck_at ps ?vs1)"
      using go nz by (simp_all add: Let_def add_at_def wi_uint_sint)
    moreover have "try_ops (p # ps) i vs = try_ops ps (i + 1) ?vs1"
    proof (cases "sint (sem_op p) > 0")
      case False
      then have neg: "sint (sem_op p) < 0" using nz by simp
      then show ?thesis using n go by (simp add: Let_def below_debit [OF neg] add_at_def)
    qed (use n in \<open>simp add: Let_def add_at_def\<close>)
    moreover have "do_ops (take (Suc k) (p # ps)) vs = do_ops (take k ps) ?vs1" for k by simp
    ultimately show ?thesis using Cons.IH [of ?vs1 "i + 1"] n by (auto split: option.splits)
  qed
qed simp

lemma try_release_run:
  assumes "reqs_ok (length vs) (parm_list P l)"
  shows "case sem_run (parm_list P l) vs of
      Some vs' \<Rightarrow> try_release_process P vs l = Some (vs', -1)
    | None \<Rightarrow> try_release_process P vs l = Some (vs, int (stuck_at (parm_list P l) vs))"
proof (cases "sem_run (parm_list P l) vs")
  case None
  define k where "k = stuck_at (parm_list P l) vs"
  have "try_ops (parm_list P l) 0 vs = Some (do_ops (take k (parm_list P l)) vs, int k)"
    using try_ops_run [OF assms, of 0] None by (simp add: k_def)
  moreover have "reqs_ok (length vs) (take k (parm_list P l))"
    using assms by (auto simp: reqs_ok_def dest: in_set_takeD)
  ultimately show ?thesis using None by (simp add: try_release_process_def undo_do_ops k_def)
next
  case (Some vs')
  then show ?thesis using try_ops_run [OF assms, of 0] by (simp add: try_release_process_def)
qed

section \<open>Waking\<close>

text \<open>The processes that can go on, the first in the list first, again from the start of the
  list after each: the values, those that go on sleeping, those that are woken.\<close>

function a_release ::
  "(u32 \<Rightarrow> plcsynchsem_parm list) \<Rightarrow> u32 list \<Rightarrow> u32 list \<Rightarrow> u32 list \<times> u32 list \<times> u32 list" where
  "a_release q vs bs =
     (case find (\<lambda>b. sem_run (q b) vs \<noteq> None) bs of
        None \<Rightarrow> (vs, bs, [])
      | Some b \<Rightarrow>
          let (vs', bs', rs) = a_release q (the (sem_run (q b) vs)) (remove1 b bs)
          in (vs', bs', b # rs))"
  by pat_completeness auto
termination
  by (relation "measure (\<lambda>(q, vs, bs). length bs)")
    (auto simp: find_Some_iff length_remove1 length_pos_if_in_set)

declare a_release.simps [simp del]

lemma a_release_none:
  "find (\<lambda>b. sem_run (q b) vs \<noteq> None) bs = None \<Longrightarrow> a_release q vs bs = (vs, bs, [])"
  by (subst a_release.simps) simp

lemma a_release_some:
  "find (\<lambda>b. sem_run (q b) vs \<noteq> None) bs = Some b \<Longrightarrow> sem_run (q b) vs = Some vs1 \<Longrightarrow>
   a_release q vs1 (remove1 b bs) = (vs', bs', rs) \<Longrightarrow> a_release q vs bs = (vs', bs', b # rs)"
  by (subst a_release.simps) simp

lemma find_split:
  assumes "find Q xs = Some b"
  obtains us ws where "xs = us @ b # ws" "Q b" "b \<notin> set us"
proof -
  obtain i where i: "i < length xs" "Q (xs ! i)" "b = xs ! i" "\<forall>j<i. \<not> Q (xs ! j)"
    using assms by (auto simp: find_Some_iff)
  have "xs = take i xs @ b # drop (Suc i) xs" using i by (simp add: id_take_nth_drop)
  moreover have "b \<notin> set (take i xs)"
    using i by (auto simp: in_set_conv_nth)
  ultimately show ?thesis using that i by blast
qed

lemma a_release_props:
  assumes "a_release q vs bs = (vs', bs', rs)" "distinct bs"
  shows "distinct bs'" "distinct rs" "set bs' \<inter> set rs = {}" "set bs = set bs' \<union> set rs"
    "\<forall>b\<in>set bs'. sem_run (q b) vs' = None"
    "sorted_wrt R bs \<Longrightarrow> sorted_wrt R bs'" "length vs' = length vs"
proof -
  have "distinct bs' \<and> distinct rs \<and> set bs' \<inter> set rs = {} \<and> set bs = set bs' \<union> set rs \<and>
    (\<forall>b\<in>set bs'. sem_run (q b) vs' = None) \<and> (sorted_wrt R bs \<longrightarrow> sorted_wrt R bs') \<and>
    length vs' = length vs"
    using assms
  proof (induction q vs bs arbitrary: vs' bs' rs rule: a_release.induct)
    case (1 q vs bs)
    show ?case
    proof (cases "find (\<lambda>b. sem_run (q b) vs \<noteq> None) bs")
      case None
      then show ?thesis using 1(2,3) by (auto simp: a_release_none find_None_iff)
    next
      case (Some b)
      then obtain us ws where b: "bs = us @ b # ws" "b \<notin> set us" and "sem_run (q b) vs \<noteq> None"
        by (rule find_split)
      then obtain vs1 where vs1: "sem_run (q b) vs = Some vs1" by auto
      obtain v2 b2 r2 where r: "a_release q vs1 (remove1 b bs) = (v2, b2, r2)"
        using prod_cases3 by blast
      have e: "vs' = v2" "bs' = b2" "rs = b # r2"
        using a_release_some [OF Some vs1 r] 1(2) by auto
      have d: "distinct (remove1 b bs)" using 1(3) by simp
      have "sorted_wrt R bs \<Longrightarrow> sorted_wrt R (remove1 b bs)"
        using b by (auto simp: remove1_append sorted_wrt_append)
      moreover have "set (remove1 b bs) = set bs - {b}" using 1(3) by simp
      moreover have "b \<in> set bs" using b by simp
      ultimately show ?thesis
        using 1(1) [OF Some, of v2 b2 r2] r vs1 d e sem_run_length [OF vs1] by auto
    qed
  qed
  then show "distinct bs'" "distinct rs" "set bs' \<inter> set rs = {}" "set bs = set bs' \<union> set rs"
    "\<forall>b\<in>set bs'. sem_run (q b) vs' = None"
    "sorted_wrt R bs \<Longrightarrow> sorted_wrt R bs'" "length vs' = length vs" by auto
qed

lemma release_scan_find:
  assumes "lseg st pv c xs 0" and "\<forall>x\<in>set xs. reqs_ok (length vs) (parm_list P (st x))"
  shows "release_scan P st vs c = Some
    (case find (\<lambda>b. sem_run (parm_list P (st b)) vs \<noteq> None) xs of
       None \<Rightarrow> (vs, 0) | Some b \<Rightarrow> (the (sem_run (parm_list P (st b)) vs), b))"
  using assms
proof (induction xs arbitrary: pv c)
  case Nil
  then show ?case by (subst release_scan.simps) simp
next
  case (Cons x xs)
  then have x: "c = x" "x \<noteq> 0" and rest: "lseg st x (list_next (st x)) xs 0"
    and ok: "reqs_ok (length vs) (parm_list P (st x))" by auto
  show ?case
  proof (cases "sem_run (parm_list P (st x)) vs")
    case None
    then have "try_release_process P vs (st x) = Some (vs, int (stuck_at (parm_list P (st x)) vs))"
      using try_release_run [OF ok] by simp
    then show ?thesis
      using Cons.IH [OF rest] Cons.prems(2) x None by (subst release_scan.simps) simp
  next
    case (Some vs1)
    then have "try_release_process P vs (st x) = Some (vs1, -1)" using try_release_run [OF ok] by simp
    then show ?thesis using x Some by (subst release_scan.simps) simp
  qed
qed

lemma fold_insert_by_set [simp]: "set (fold (insert_by pr) rs ss) = set rs \<union> set ss"
  by (induction rs arbitrary: ss) auto

lemma release_rounds_spec:
  assumes "a_release (\<lambda>b. parm_list P (st b)) (sem_values g) bs = (vs', bs', rs)"
    and "dll st (blocked_list_first g) bs" "dll st sig ss" "set bs \<inter> set ss = {}"
    and "\<forall>x\<in>set bs. reqs_ok (length (sem_values g)) (parm_list P (st x))"
  shows "\<exists>f st' sig'. release_rounds P g st sig =
      Some (g\<lparr>sem_values := vs', blocked_list_first := f\<rparr>, st', sig') \<and>
    dll st' f bs' \<and> dll st' sig' (fold (insert_by (prio_of st)) rs ss) \<and>
    same_but_links (set bs \<union> set ss) st st'"
  using assms
proof (induction "length bs" arbitrary: g st bs sig ss vs' bs' rs rule: less_induct)
  case less
  let ?q = "\<lambda>b. parm_list P (st b)"
  let ?F = "find (\<lambda>b. sem_run (?q b) (sem_values g) \<noteq> None) bs"
  have scan: "release_scan P st (sem_values g) (blocked_list_first g) = Some
    (case ?F of None \<Rightarrow> (sem_values g, 0) | Some b \<Rightarrow> (the (sem_run (?q b) (sem_values g)), b))"
    by (rule release_scan_find [of _ 0]) (use less.prems(2,5) in \<open>auto simp: dll_def\<close>)
  show ?case
  proof (cases ?F)
    case None
    have e: "vs' = sem_values g" "bs' = bs" "rs = []"
      using less.prems(1) a_release_none [OF None] by auto
    have "release_scan P st (sem_values g) (blocked_list_first g) = Some (sem_values g, 0)"
      using scan unfolding None by simp
    then have "release_rounds P g st sig = Some (g\<lparr>sem_values := sem_values g\<rparr>, st, sig)"
      by (subst release_rounds.simps) simp
    then have "release_rounds P g st sig =
      Some (g\<lparr>sem_values := vs', blocked_list_first := blocked_list_first g\<rparr>, st, sig)"
      using e by simp
    then show ?thesis using e less.prems(2,3) same_but_links_refl by fastforce
  next
    case (Some b)
    then obtain us ws where b: "bs = us @ b # ws" "b \<notin> set us"
      and "sem_run (?q b) (sem_values g) \<noteq> None" by (rule find_split)
    then obtain vs1 where vs1: "sem_run (?q b) (sem_values g) = Some vs1" by auto
    have dist: "distinct bs" and b0: "b \<noteq> 0"
      using less.prems(2) dll_nonzero [OF less.prems(2)] b by (auto simp: dll_def)
    have rem: "remove1 b bs = us @ ws" using b by (simp add: remove1_append)
    obtain v2 b2 r2 where r: "a_release ?q vs1 (us @ ws) = (v2, b2, r2)" using prod_cases3 by blast
    have e: "vs' = v2" "bs' = b2" "rs = b # r2"
      using a_release_some [OF Some vs1] r rem less.prems(1) by auto
    obtain st1 f1 where rl: "remove_list st (blocked_list_first g) b = (st1, f1)"
      "dll st1 f1 (us @ ws)" "same_but_links (set us \<union> set ws) st st1"
      using remove_list_dll [of st "blocked_list_first g" us b ws] less.prems(2) b by auto
    have nss: "b \<notin> set ss" "set (us @ ws) \<inter> set ss = {}" using less.prems(4) b by auto
    have same1: "st1 x = st x" if "x \<in> set ss" for x
      using same_but_links_other [OF rl(3)] that nss by auto
    have ss1: "dll st1 sig ss"
      using less.prems(3) same1 by (subst dll_cong [of ss st1 st]) auto
    obtain st2 sig2 where il: "insert_list st1 sig b = Some (st2, sig2)"
      "dll st2 sig2 (insert_by (prio_of st1) b ss)" "same_but_links (insert b (set ss)) st1 st2"
      using insert_list_dll [OF ss1 nss(1) b0] by auto
    have "b \<notin> set (us @ ws)" using dist b by auto
    then have same2: "st2 x = st1 x" if "x \<in> set (us @ ws)" for x
      by (intro same_but_links_other [OF il(3)]) (use that nss in auto)
    have us2: "dll st2 f1 (us @ ws)"
      using rl(2) same2 by (subst dll_cong [of "us @ ws" st2 st1]) auto
    have q2: "parm_list P (st2 x) = ?q x" "priority (st2 x) = priority (st x)"
      "priority (st1 x) = priority (st x)" for x
      using same_but_links_fields [OF rl(3)] same_but_links_fields [OF il(3)] by auto
    let ?g2 = "g\<lparr>sem_values := vs1, blocked_list_first := f1\<rparr>"
    have len: "length vs1 = length (sem_values g)" by (rule sem_run_length [OF vs1])
    have "\<exists>f st' sig'. release_rounds P ?g2 st2 sig2 =
        Some (?g2\<lparr>sem_values := v2, blocked_list_first := f\<rparr>, st', sig') \<and>
      dll st' f b2 \<and> dll st' sig' (fold (insert_by (prio_of st2)) r2 (insert_by (prio_of st1) b ss)) \<and>
      same_but_links (set (us @ ws) \<union> set (insert_by (prio_of st1) b ss)) st2 st'"
    proof (rule less.hyps)
      show "length (us @ ws) < length bs" using b by simp
      show "a_release (\<lambda>b. parm_list P (st2 b)) (sem_values ?g2) (us @ ws) = (v2, b2, r2)"
        using r q2 by simp
      show "dll st2 (blocked_list_first ?g2) (us @ ws)" using us2 by simp
      show "dll st2 sig2 (insert_by (prio_of st1) b ss)" by (rule il(2))
      show "set (us @ ws) \<inter> set (insert_by (prio_of st1) b ss) = {}"
        using nss \<open>b \<notin> set (us @ ws)\<close> by auto
      show "\<forall>x\<in>set (us @ ws). reqs_ok (length (sem_values ?g2)) (parm_list P (st2 x))"
        using less.prems(5) b len q2 by simp
    qed
    then obtain f st' sig' where rr: "release_rounds P ?g2 st2 sig2 =
        Some (?g2\<lparr>sem_values := v2, blocked_list_first := f\<rparr>, st', sig')"
      "dll st' f b2" "dll st' sig' (fold (insert_by (prio_of st2)) r2 (insert_by (prio_of st1) b ss))"
      "same_but_links (set (us @ ws) \<union> set (insert_by (prio_of st1) b ss)) st2 st'" by blast
    have "release_scan P st (sem_values g) (blocked_list_first g) = Some (vs1, b)"
      using scan unfolding Some by (simp add: vs1)
    then have "release_rounds P g st sig = release_rounds P ?g2 st2 sig2"
      by (subst release_rounds.simps) (simp add: b0 rl(1) il(1) Let_def)
    then have "release_rounds P g st sig = Some (g\<lparr>sem_values := vs', blocked_list_first := f\<rparr>, st', sig')"
      using rr(1) e by simp
    moreover have "prio_of st2 = prio_of st" "prio_of st1 = prio_of st" using q2 by auto
    moreover have "same_but_links (set bs \<union> set ss) st st'"
    proof -
      have "same_but_links (set bs \<union> set ss) st st1" "same_but_links (set bs \<union> set ss) st1 st2"
        "same_but_links (set bs \<union> set ss) st2 st'"
        by (rule same_but_links_mono [OF rl(3)] same_but_links_mono [OF il(3)]
          same_but_links_mono [OF rr(4)], use b in auto)+
      then show ?thesis by (blast intro: same_but_links_trans)
    qed
    ultimately show ?thesis using rr(2,3) e by auto
  qed
qed

lemma post_signals_lseg:
  assumes "lseg st pv c xs 0" "distinct xs"
  shows "post_signals st c = Some (\<lambda>x. if x \<in> set xs
    then (st x)\<lparr>localpsem := localpsem (st x) + 1\<rparr> else st x)"
  using assms
proof (induction xs arbitrary: st pv c)
  case Nil
  then show ?case by (subst post_signals.simps) simp
next
  case (Cons x xs)
  let ?st1 = "st(x := (st x)\<lparr>localpsem := localpsem (st x) + 1\<rparr>)"
  have x: "c = x" "x \<noteq> 0" "x \<notin> set xs" "distinct xs" and "lseg st x (list_next (st x)) xs 0"
    using Cons.prems by auto
  then have "lseg ?st1 x (list_next (?st1 x)) xs 0"
    by (subst lseg_cong [of xs ?st1 st]) auto
  note ih = Cons.IH [OF this x(4)]
  have 1: "post_signals st c = post_signals ?st1 (list_next (?st1 x))"
    using x by (subst post_signals.simps) (simp add: Let_def)
  show ?case unfolding 1 ih using x(3) by (auto simp: fun_eq_iff)
qed

text \<open>What \<^verbatim>\<open>release_all_processes\<close> leaves: everything that can go on is posted
  once, the others sleep on in the same order.\<close>

lemma release_all_spec:
  assumes "a_release (\<lambda>b. parm_list P (st b)) (sem_values g) bs = (vs', bs', rs)"
    and "dll st (blocked_list_first g) bs"
    and "\<forall>x\<in>set bs. reqs_ok (length (sem_values g)) (parm_list P (st x))"
  shows "\<exists>f st1 st2. release_all_processes P g st =
      Some (g\<lparr>sem_values := vs', blocked_list_first := f\<rparr>, st2) \<and>
    dll st2 f bs' \<and> same_but_links (set bs) st st1 \<and>
    st2 = (\<lambda>x. if x \<in> set rs then (st1 x)\<lparr>localpsem := localpsem (st1 x) + 1\<rparr> else st1 x)"
proof -
  obtain f st1 sig where rr: "release_rounds P g st 0 =
      Some (g\<lparr>sem_values := vs', blocked_list_first := f\<rparr>, st1, sig)"
    "dll st1 f bs'" "dll st1 sig (fold (insert_by (prio_of st)) rs [])" "same_but_links (set bs) st st1"
    using release_rounds_spec [OF assms(1,2) _ _ assms(3), of 0 "[]"] by auto
  let ?st2 = "\<lambda>x. if x \<in> set rs then (st1 x)\<lparr>localpsem := localpsem (st1 x) + 1\<rparr> else st1 x"
  have "post_signals st1 sig = Some ?st2"
    using post_signals_lseg [of st1 0 sig "fold (insert_by (prio_of st)) rs []"] rr(3)
    by (auto simp: dll_def)
  moreover have "dll ?st2 f bs'" using rr(2) by (subst dll_cong [of bs' ?st2 st1]) auto
  ultimately show ?thesis using rr(1,4) by (auto simp: release_all_processes_def)
qed

section \<open>A call\<close>

text \<open>The abstract operation on one set: the values, the sleepers in their order, the processes
  woken and what the call comes to.\<close>

definition a_synch ::
  "(u32 \<Rightarrow> plcsynchsem_parm list) \<Rightarrow> (u32 \<Rightarrow> int) \<Rightarrow> u32 \<Rightarrow> u32 list \<Rightarrow> u32 list \<Rightarrow>
     u32 list \<times> u32 list \<times> u32 list \<times> synch_outcome" where
  "a_synch q pr sem vs bs =
     (case sem_run (q sem) vs of
        Some vs1 \<Rightarrow> (let (vs', bs', rs) = a_release q vs1 bs in (vs', bs', rs, Returns 0))
      | None \<Rightarrow>
          if sem_flg (q sem ! stuck_at (q sem) vs) \<noteq> 0 then (vs, bs, [], Returns (-1))
          else (vs, insert_by pr sem bs, [], Sleeps))"

text \<open>The set at \<open>gp\<close> with the sleepers \<open>bs\<close>: its list is well linked and its
  operations lie in the array.\<close>

definition sem_linked :: "synchsem_state \<Rightarrow> u32 \<Rightarrow> u32 list \<Rightarrow> bool" where
  "sem_linked s gp bs \<longleftrightarrow>
     dll (ss_local s) (blocked_list_first (ss_global s gp)) bs \<and>
     (\<forall>b\<in>set bs. reqs_ok (length (sem_values (ss_global s gp))) (parm_list (ss_parm s) (ss_local s b)))"

definition with_request :: "synchsem_state \<Rightarrow> u32 \<Rightarrow> int \<Rightarrow> i32 \<Rightarrow> sem_store" where
  "with_request s sem parm n = (ss_local s)(sem := (ss_local s sem)
     \<lparr>blocked_parm := word_of_int parm, blocked_parm_count := n\<rparr>)"

lemma parm_list_nth:
  "k < length (parm_list P l) \<Longrightarrow> parm_list P l ! k = P (blocked_parm l) k"
  by (simp add: parm_list_def)

lemma synch_refines:
  assumes chk: "cmm_checkptr p m parm = 1"
    and lk: "sem_linked s gp bs" and gp: "gp = globalsem_ptr (ss_local s sem)"
    and new: "sem \<notin> set bs" "sem \<noteq> 0"
    and st: "st = with_request s sem parm n"
    and ok: "reqs_ok (length (sem_values (ss_global s gp))) (parm_list (ss_parm s) (st sem))"
    and a: "a_synch (\<lambda>b. parm_list (ss_parm s) (st b)) (prio_of st) sem
              (sem_values (ss_global s gp)) bs = (vs', bs', rs, out)"
  shows "\<exists>f st1 st2. plcsynchsem_synch p m s sem parm n =
      Some (s\<lparr>ss_global := (ss_global s)(gp := (ss_global s gp)\<lparr>sem_values := vs', blocked_list_first := f\<rparr>),
              ss_local := st2\<rparr>, out) \<and>
    dll st2 f bs' \<and> same_but_links (insert sem (set bs)) st st1 \<and>
    st2 = (\<lambda>x. if x \<in> set rs then (st1 x)\<lparr>localpsem := localpsem (st1 x) + 1\<rparr> else st1 x)"
proof -
  let ?P = "ss_parm s" and ?g = "ss_global s gp"
  let ?l = "(ss_local s sem)\<lparr>blocked_parm := word_of_int parm, blocked_parm_count := n\<rparr>"
  have stl: "st = (ss_local s)(sem := ?l)" "st sem = ?l" by (simp_all add: st with_request_def)
  have d: "dll st (blocked_list_first ?g) bs"
    using lk new stl by (subst dll_cong [of bs st "ss_local s"]) (auto simp: sem_linked_def)
  have okl: "\<forall>b\<in>set bs. reqs_ok (length (sem_values ?g)) (parm_list ?P (st b))"
    using lk new stl by (auto simp: sem_linked_def)
  show ?thesis
  proof (cases "sem_run (parm_list ?P (st sem)) (sem_values ?g)")
    case (Some vs1)
    obtain v2 b2 r2 where r: "a_release (\<lambda>b. parm_list ?P (st b)) vs1 bs = (v2, b2, r2)"
      using prod_cases3 by blast
    have e: "vs' = v2" "bs' = b2" "rs = r2" "out = Returns 0"
      using a r Some by (auto simp: a_synch_def)
    have t: "try_release_process ?P (sem_values ?g) ?l = Some (vs1, -1)"
      using try_release_run [OF ok] Some stl by simp
    have "length vs1 = length (sem_values ?g)" by (rule sem_run_length [OF Some])
    then obtain f st1 st2 where ra: "release_all_processes ?P (?g\<lparr>sem_values := vs1\<rparr>) st =
        Some (?g\<lparr>sem_values := v2, blocked_list_first := f\<rparr>, st2)"
      "dll st2 f b2" "same_but_links (set bs) st st1"
      "st2 = (\<lambda>x. if x \<in> set r2 then (st1 x)\<lparr>localpsem := localpsem (st1 x) + 1\<rparr> else st1 x)"
      using release_all_spec [of ?P st "?g\<lparr>sem_values := vs1\<rparr>" bs v2 b2 r2] r d okl by auto
    have "plcsynchsem_synch p m s sem parm n =
      Some (s\<lparr>ss_global := (ss_global s)(gp := ?g\<lparr>sem_values := v2, blocked_list_first := f\<rparr>),
              ss_local := st2\<rparr>, Returns 0)"
      using chk t ra(1) gp stl(1) by (simp add: plcsynchsem_synch_def Let_def)
    moreover have "same_but_links (insert sem (set bs)) st st1"
      by (rule same_but_links_mono [OF ra(3)]) auto
    ultimately show ?thesis using ra(2,4) e by blast
  next
    case None
    let ?k = "stuck_at (parm_list ?P (st sem)) (sem_values ?g)"
    have t: "try_release_process ?P (sem_values ?g) ?l = Some (sem_values ?g, int ?k)"
      using try_release_run [OF ok] None stl by simp
    have flg: "parm_list ?P (st sem) ! ?k = ?P (word_of_int parm) ?k"
      using parm_list_nth [OF stuck_at_less [OF None]] stl(2) by simp
    show ?thesis
    proof (cases "sem_flg (?P (word_of_int parm) ?k) \<noteq> 0")
      case True
      then have e: "vs' = sem_values ?g" "bs' = bs" "rs = []" "out = Returns (-1)"
        using a None flg by (auto simp: a_synch_def)
      have "plcsynchsem_synch p m s sem parm n =
        Some (s\<lparr>ss_global := (ss_global s)(gp := ?g\<lparr>sem_values := sem_values ?g\<rparr>),
                ss_local := st\<rparr>, Returns (-1))"
        using chk t gp stl(1) True by (simp add: plcsynchsem_synch_def Let_def)
      moreover have "?g\<lparr>sem_values := sem_values ?g\<rparr> =
        ?g\<lparr>sem_values := sem_values ?g, blocked_list_first := blocked_list_first ?g\<rparr>" by simp
      ultimately have "plcsynchsem_synch p m s sem parm n =
        Some (s\<lparr>ss_global := (ss_global s)(gp := ?g\<lparr>sem_values := sem_values ?g,
                  blocked_list_first := blocked_list_first ?g\<rparr>), ss_local := st\<rparr>, Returns (-1))"
        by (simp only:)
      then show ?thesis unfolding e using d same_but_links_refl [of _ st]
        by (intro exI [of _ "blocked_list_first ?g"] exI [of _ st] conjI) simp_all
    next
      case False
      then have e: "vs' = sem_values ?g" "bs' = insert_by (prio_of st) sem bs" "rs = []" "out = Sleeps"
        using a None flg by (auto simp: a_synch_def)
      obtain st1 f where il: "insert_list st (blocked_list_first ?g) sem = Some (st1, f)"
        "dll st1 f bs'" "same_but_links (insert sem (set bs)) st st1"
        using insert_list_dll [OF d new] e by auto
      have "plcsynchsem_synch p m s sem parm n =
        Some (s\<lparr>ss_global := (ss_global s)(gp := ?g\<lparr>sem_values := sem_values ?g,
                  blocked_list_first := f\<rparr>), ss_local := st1\<rparr>, Sleeps)"
        using chk t gp stl(1) False il(1) by (simp add: plcsynchsem_synch_def Let_def)
      then show ?thesis using il(2,3) e by auto
    qed
  qed
qed

section \<open>The processes together\<close>

text \<open>The state is that of the sets and the processes that sleep in a call. A process that does
  not sleep calls with a request within the array of its set; one that was posted wakes; the
  processes write their request arrays, except those that sleep on them; a process opens a set
  anew, with a record of its own (\<^verbatim>\<open>plcsynchsem_open\<close>).\<close>

definition fresh_local :: "u32 \<Rightarrow> i32 \<Rightarrow> plcsynchsem_local" where
  "fresh_local globalsem prio = \<lparr>localpsem = 0, globalsem_ptr = globalsem, priority = prio,
     list_next = 0, list_prev = 0, blocked_parm = 0, blocked_parm_count = 0\<rparr>"

inductive sem_step :: "cmm_proc \<Rightarrow> mem \<Rightarrow> synchsem_state \<times> u32 set \<Rightarrow> synchsem_state \<times> u32 set \<Rightarrow> bool"
  for p m where
  call: "sem \<notin> A \<Longrightarrow> sem \<noteq> 0 \<Longrightarrow> cmm_checkptr p m parm = 1 \<Longrightarrow>
    reqs_ok (length (sem_values (ss_global s (globalsem_ptr (ss_local s sem)))))
      (parm_list (ss_parm s) (with_request s sem parm n sem)) \<Longrightarrow>
    plcsynchsem_synch p m s sem parm n = Some (s', out) \<Longrightarrow>
    sem_step p m (s, A) (s', if out = Sleeps then insert sem A else A)"
| wake: "sem \<in> A \<Longrightarrow> sem_wake s sem = Some (s', r) \<Longrightarrow> sem_step p m (s, A) (s', A - {sem})"
| writes: "(\<forall>x\<in>A. P (blocked_parm (ss_local s x)) = ss_parm s (blocked_parm (ss_local s x))) \<Longrightarrow>
    sem_step p m (s, A) (s\<lparr>ss_parm := P\<rparr>, A)"
| opens: "sem \<notin> A \<Longrightarrow> sem \<noteq> 0 \<Longrightarrow>
    sem_step p m (s, A) (s\<lparr>ss_local := (ss_local s)(sem := fresh_local gp prio)\<rparr>, A)"

text \<open>At the start nobody sleeps and no set has sleepers.\<close>

definition sem_start :: "synchsem_state \<times> u32 set \<Rightarrow> bool" where
  "sem_start c \<longleftrightarrow> snd c = {} \<and> (\<forall>gp. blocked_list_first (ss_global (fst c) gp) = 0) \<and>
     (\<forall>x. localpsem (ss_local (fst c) x) = 0)"

inductive sem_reach :: "cmm_proc \<Rightarrow> mem \<Rightarrow> synchsem_state \<times> u32 set \<Rightarrow> bool" for p m where
  start: "sem_start c \<Longrightarrow> sem_reach p m c"
| step: "sem_reach p m c \<Longrightarrow> sem_step p m c c' \<Longrightarrow> sem_reach p m c'"

text \<open>The invariant: the list of every set holds processes of that set by priority, whose
  requests cannot be done; those that sleep are the ones on a list and the ones posted once.\<close>

definition sleepers_ok :: "synchsem_state \<Rightarrow> u32 \<Rightarrow> u32 list \<Rightarrow> bool" where
  "sleepers_ok s gp bs \<longleftrightarrow> sem_linked s gp bs \<and>
     sorted_wrt (\<lambda>x y. prio_of (ss_local s) x \<ge> prio_of (ss_local s) y) bs \<and>
     (\<forall>b\<in>set bs. globalsem_ptr (ss_local s b) = gp \<and> localpsem (ss_local s b) = 0 \<and>
        sem_run (parm_list (ss_parm s) (ss_local s b)) (sem_values (ss_global s gp)) = None)"

definition sem_inv :: "synchsem_state \<times> u32 set \<Rightarrow> bool" where
  "sem_inv c \<longleftrightarrow> (\<exists>L. (\<forall>gp. sleepers_ok (fst c) gp (L gp)) \<and>
     (\<forall>x. x \<in> snd c \<longleftrightarrow> (\<exists>gp. x \<in> set (L gp)) \<or> localpsem (ss_local (fst c) x) = 1) \<and>
     (\<forall>x. localpsem (ss_local (fst c) x) \<le> 1))"

lemma sleepers_frame:
  assumes "sleepers_ok s gp bs" "ss_global s' gp = ss_global s gp"
    and "\<And>x. x \<in> set bs \<Longrightarrow> ss_local s' x = ss_local s x"
    and "\<And>x. x \<in> set bs \<Longrightarrow> parm_list (ss_parm s') (ss_local s x) = parm_list (ss_parm s) (ss_local s x)"
  shows "sleepers_ok s' gp bs"
proof -
  have "dll (ss_local s') h bs = dll (ss_local s) h bs" for h
    using assms(3) by (intro dll_cong) simp
  moreover have "sorted_wrt (\<lambda>x y. prio_of (ss_local s) x \<ge> prio_of (ss_local s) y) bs"
    using assms(1) by (simp add: sleepers_ok_def)
  then have "sorted_wrt (\<lambda>x y. prio_of (ss_local s') x \<ge> prio_of (ss_local s') y) bs"
    by (rule sorted_wrt_mono_rel [rotated]) (simp add: assms(3))
  ultimately show ?thesis using assms by (simp add: sleepers_ok_def sem_linked_def)
qed

lemma sem_inv_start: "sem_start c \<Longrightarrow> sem_inv c"
  unfolding sem_inv_def
  by (rule exI [of _ "\<lambda>_. []"]) (auto simp: sem_start_def sleepers_ok_def sem_linked_def)

lemma sem_inv_call:
  assumes inv: "sem_inv (s, A)" and sem: "sem \<notin> A" "sem \<noteq> 0" and chk: "cmm_checkptr p m parm = 1"
    and ok: "reqs_ok (length (sem_values (ss_global s (globalsem_ptr (ss_local s sem)))))
      (parm_list (ss_parm s) (with_request s sem parm n sem))"
  shows "\<exists>s' out. plcsynchsem_synch p m s sem parm n = Some (s', out) \<and>
    sem_inv (s', if out = Sleeps then insert sem A else A)"
proof -
  obtain L where L: "\<forall>gp. sleepers_ok s gp (L gp)"
    "\<forall>x. x \<in> A \<longleftrightarrow> (\<exists>gp. x \<in> set (L gp)) \<or> localpsem (ss_local s x) = 1"
    "\<forall>x. localpsem (ss_local s x) \<le> 1"
    using inv by (auto simp: sem_inv_def)
  define gp where "gp = globalsem_ptr (ss_local s sem)"
  define st where "st = with_request s sem parm n"
  let ?bs = "L gp" and ?g = "ss_global s gp" and ?P = "ss_parm s"
  have new: "sem \<notin> set (L g)" for g using L(2) sem(1) by blast
  have idle: "localpsem (ss_local s sem) = 0"
    using L(2,3) sem(1) by (metis le_Suc_eq le_zero_eq One_nat_def)
  have stx: "x \<noteq> sem \<Longrightarrow> st x = ss_local s x" "localpsem (st x) = localpsem (ss_local s x)"
    "priority (st x) = priority (ss_local s x)" "globalsem_ptr (st x) = globalsem_ptr (ss_local s x)" for x
    by (simp_all add: st_def with_request_def)
  obtain vs' bs' rs out where a: "a_synch (\<lambda>b. parm_list ?P (st b)) (prio_of st) sem
      (sem_values ?g) ?bs = (vs', bs', rs, out)"
    using prod_cases4 by blast
  have lk: "sem_linked s gp ?bs" using L(1) by (simp add: sleepers_ok_def)
  obtain f st1 st2 where syn: "plcsynchsem_synch p m s sem parm n =
      Some (s\<lparr>ss_global := (ss_global s)(gp := ?g\<lparr>sem_values := vs', blocked_list_first := f\<rparr>),
              ss_local := st2\<rparr>, out)"
    and d2: "dll st2 f bs'" and same: "same_but_links (insert sem (set ?bs)) st st1"
    and st2: "st2 = (\<lambda>x. if x \<in> set rs then (st1 x)\<lparr>localpsem := localpsem (st1 x) + 1\<rparr> else st1 x)"
    using synch_refines [OF chk lk gp_def new sem(2) st_def _ a] ok by (auto simp: gp_def st_def)
  let ?s' = "s\<lparr>ss_global := (ss_global s)(gp := ?g\<lparr>sem_values := vs', blocked_list_first := f\<rparr>),
              ss_local := st2\<rparr>"
  have dist: "distinct ?bs" using lk by (simp add: sem_linked_def dll_def)
  have srt: "sorted_wrt (\<lambda>x y. prio_of st x \<ge> prio_of st y) ?bs"
    using L(1) stx(3) by (simp add: sleepers_ok_def)
  have facts: "set bs' \<inter> set rs = {} \<and> set bs' \<union> set rs = (if out = Sleeps then insert sem (set ?bs) else set ?bs) \<and>
    (\<forall>b\<in>set bs'. sem_run (parm_list ?P (st b)) vs' = None) \<and>
    sorted_wrt (\<lambda>x y. prio_of st x \<ge> prio_of st y) bs' \<and> length vs' = length (sem_values ?g)"
  proof (cases "sem_run (parm_list ?P (st sem)) (sem_values ?g)")
    case (Some vs1)
    then obtain r: "a_release (\<lambda>b. parm_list ?P (st b)) vs1 ?bs = (vs', bs', rs)" and "out = Returns 0"
      using a by (auto simp: a_synch_def split: prod.splits)
    then show ?thesis
      using a_release_props [OF r dist] srt sem_run_length [OF Some] by auto
  next
    case None
    have slp: "\<forall>b\<in>set ?bs. sem_run (parm_list ?P (st b)) (sem_values ?g) = None"
      using L(1) stx(1) new by (metis sleepers_ok_def)
    show ?thesis
      using a None slp srt by (auto simp: a_synch_def insert_by_sorted split: if_splits)
  qed
  have f2: "priority (st2 x) = priority (st x)" "globalsem_ptr (st2 x) = globalsem_ptr (ss_local s x)"
    "parm_list ?P (st2 x) = parm_list ?P (st x)"
    "localpsem (st2 x) = localpsem (ss_local s x) + (if x \<in> set rs then 1 else 0)" for x
    using same_but_links_fields [OF same, where x = x] stx(2-4) [of x] by (auto simp: st2 parm_list_def)
  have rsbs: "set rs \<subseteq> set ?bs"
    using a by (auto simp: a_synch_def split: option.splits prod.splits if_splits
      dest: a_release_props(4) [OF _ dist])
  have sub: "x \<in> set bs' \<Longrightarrow> x = sem \<or> x \<in> set ?bs" for x using facts by (auto split: if_splits)
  have own: "b \<in> set ?bs \<Longrightarrow> globalsem_ptr (ss_local s b) = gp \<and> localpsem (ss_local s b) = 0" for b
    using L(1) by (simp add: sleepers_ok_def)
  have "sleepers_ok ?s' gp bs'"
  proof -
    have "reqs_ok (length (sem_values ?g)) (parm_list ?P (st b))" if "b \<in> set bs'" for b
      using sub [OF that] ok lk stx(1) [of b] by (cases "b = sem") (simp_all add: gp_def st_def sem_linked_def)
    then have "sem_linked ?s' gp bs'"
      using d2 facts f2(3) by (simp add: sem_linked_def)
    moreover have "\<forall>b\<in>set bs'. globalsem_ptr (st2 b) = gp \<and> localpsem (st2 b) = 0"
      using f2 sub own idle facts gp_def by fastforce
    moreover have "sorted_wrt (\<lambda>x y. prio_of st2 x \<ge> prio_of st2 y) bs'" using facts f2(1) by simp
    ultimately show ?thesis using facts f2(3) by (simp add: sleepers_ok_def)
  qed
  moreover have "sleepers_ok ?s' g (L g)" if "g \<noteq> gp" for g
  proof (rule sleepers_frame [of s])
    fix x assume x: "x \<in> set (L g)"
    then have "globalsem_ptr (ss_local s x) = g" using L(1) by (simp add: sleepers_ok_def)
    then have "x \<notin> set ?bs" using own that by blast
    moreover have "x \<noteq> sem" using x new by blast
    ultimately have "st2 x = st x" using same_but_links_other [OF same] rsbs by (auto simp: st2)
    then show "ss_local ?s' x = ss_local s x" using stx(1) \<open>x \<noteq> sem\<close> by simp
  qed (use L that in auto)
  ultimately have "\<forall>g. sleepers_ok ?s' g ((L(gp := bs')) g)" by auto
  moreover have "x \<in> (if out = Sleeps then insert sem A else A) \<longleftrightarrow>
    (\<exists>g. x \<in> set ((L(gp := bs')) g)) \<or> localpsem (st2 x) = 1" for x
  proof -
    have "x \<in> (if out = Sleeps then insert sem A else A) \<longleftrightarrow>
      (\<exists>g. g \<noteq> gp \<and> x \<in> set (L g)) \<or> x \<in> set bs' \<union> set rs \<or> localpsem (ss_local s x) = 1"
      using L(2) facts by auto
    moreover have "(\<exists>g. x \<in> set ((L(gp := bs')) g)) \<longleftrightarrow> (\<exists>g. g \<noteq> gp \<and> x \<in> set (L g)) \<or> x \<in> set bs'"
      by (metis fun_upd_apply)
    moreover have "localpsem (st2 x) = 1 \<longleftrightarrow> x \<in> set rs \<or> localpsem (ss_local s x) = 1"
      using f2(4) [of x] own rsbs by (cases "x \<in> set rs") auto
    ultimately show ?thesis by blast
  qed
  moreover have "localpsem (st2 x) \<le> 1" for x using f2(4) L(3) own rsbs by auto
  ultimately have "sem_inv (?s', if out = Sleeps then insert sem A else A)"
    unfolding sem_inv_def by (intro exI [of _ "L(gp := bs')"]) simp
  then show ?thesis using syn by blast
qed

lemma sem_inv_wake:
  assumes inv: "sem_inv (s, A)" and sem: "sem \<in> A" and w: "sem_wake s sem = Some (s', r)"
  shows "sem_inv (s', A - {sem}) \<and> r = 0"
proof -
  obtain L where L: "\<forall>gp. sleepers_ok s gp (L gp)"
    "\<forall>x. x \<in> A \<longleftrightarrow> (\<exists>gp. x \<in> set (L gp)) \<or> localpsem (ss_local s x) = 1"
    "\<forall>x. localpsem (ss_local s x) \<le> 1"
    using inv by (auto simp: sem_inv_def)
  have posted: "localpsem (ss_local s sem) = 1"
    using w L(3) [rule_format, of sem] by (simp add: sem_wake_def le_Suc_eq split: if_splits)
  have s': "s' = s\<lparr>ss_local := (ss_local s)(sem := (ss_local s sem)\<lparr>localpsem := 0\<rparr>)\<rparr>" "r = 0"
    using w posted by (auto simp: sem_wake_def)
  have out: "sem \<notin> set (L gp)" for gp using L(1) posted by (auto simp: sleepers_ok_def)
  have "sleepers_ok s' gp (L gp)" for gp
    by (rule sleepers_frame [of s]) (use L out in \<open>auto simp: s'\<close>)
  moreover have "\<forall>x. x \<in> A - {sem} \<longleftrightarrow> (\<exists>gp. x \<in> set (L gp)) \<or> localpsem (ss_local s' x) = 1"
    using L(2) out by (auto simp: s')
  moreover have "\<forall>x. localpsem (ss_local s' x) \<le> 1" using L(3) by (simp add: s')
  ultimately have "sem_inv (s', A - {sem})" unfolding sem_inv_def fst_conv snd_conv by blast
  then show ?thesis using s'(2) by simp
qed

lemma sem_inv_writes:
  assumes inv: "sem_inv (s, A)"
    and P: "\<forall>x\<in>A. P (blocked_parm (ss_local s x)) = ss_parm s (blocked_parm (ss_local s x))"
  shows "sem_inv (s\<lparr>ss_parm := P\<rparr>, A)"
proof -
  obtain L where L: "\<forall>gp. sleepers_ok s gp (L gp)"
    "\<forall>x. x \<in> A \<longleftrightarrow> (\<exists>gp. x \<in> set (L gp)) \<or> localpsem (ss_local s x) = 1"
    "\<forall>x. localpsem (ss_local s x) \<le> 1"
    using inv by (auto simp: sem_inv_def)
  have pl: "parm_list P (ss_local s x) = parm_list (ss_parm s) (ss_local s x)" if "x \<in> set (L gp)" for gp x
  proof -
    have "x \<in> A" using L(2) that by blast
    then show ?thesis using P by (simp add: parm_list_def)
  qed
  have "sleepers_ok (s\<lparr>ss_parm := P\<rparr>) gp (L gp)" for gp
    by (rule sleepers_frame [OF L(1) [rule_format]]) (simp_all add: pl)
  then show ?thesis unfolding sem_inv_def using L(2,3) by (intro exI [of _ L]) simp
qed

lemma sem_inv_opens:
  assumes inv: "sem_inv (s, A)" and sem: "sem \<notin> A"
  shows "sem_inv (s\<lparr>ss_local := (ss_local s)(sem := fresh_local gp prio)\<rparr>, A)"
proof -
  obtain L where L: "\<forall>gp. sleepers_ok s gp (L gp)"
    "\<forall>x. x \<in> A \<longleftrightarrow> (\<exists>gp. x \<in> set (L gp)) \<or> localpsem (ss_local s x) = 1"
    "\<forall>x. localpsem (ss_local s x) \<le> 1"
    using inv by (auto simp: sem_inv_def)
  have out: "sem \<notin> set (L g)" for g using L(2) sem by blast
  have "sleepers_ok (s\<lparr>ss_local := (ss_local s)(sem := fresh_local gp prio)\<rparr>) g (L g)" for g
    by (rule sleepers_frame [of s]) (use L out in auto)
  moreover have "x \<in> A \<longleftrightarrow> (\<exists>g. x \<in> set (L g)) \<or>
      localpsem (((ss_local s)(sem := fresh_local gp prio)) x) = 1" for x
    using L(2) sem out by (cases "x = sem") (auto simp: fresh_local_def)
  ultimately show ?thesis unfolding sem_inv_def using L(3)
    by (intro exI [of _ L]) (auto simp: fresh_local_def)
qed

inductive_cases sem_stepE: "sem_step p m c c'"

lemma sem_inv_step:
  assumes "sem_step p m c c'" "sem_inv c" shows "sem_inv c'"
  using assms
proof (induction rule: sem_step.induct)
  case (call sem A parm s n s' out)
  then show ?case using sem_inv_call by fastforce
next
  case (wake sem A s s' r)
  then show ?case using sem_inv_wake by blast
next
  case (writes A P s)
  then show ?case using sem_inv_writes by blast
next
  case (opens sem A s gp prio)
  then show ?case using sem_inv_opens by blast
qed

lemma sem_reach_inv: "sem_reach p m c \<Longrightarrow> sem_inv c"
  by (induction rule: sem_reach.induct) (auto intro: sem_inv_start sem_inv_step)

lemma no_lost_wakeup:
  assumes "sem_reach p m (s, A)" "x \<in> A"
  shows "localpsem (ss_local s x) = 1 \<and> (\<exists>s'. sem_wake s x = Some (s', 0)) \<or>
    sem_run (parm_list (ss_parm s) (ss_local s x))
      (sem_values (ss_global s (globalsem_ptr (ss_local s x)))) = None"
proof -
  obtain L where "\<forall>gp. sleepers_ok s gp (L gp)" "(\<exists>gp. x \<in> set (L gp)) \<or> localpsem (ss_local s x) = 1"
    using sem_reach_inv [OF assms(1)] assms(2) by (auto simp: sem_inv_def)
  then show ?thesis by (auto simp: sleepers_ok_def sem_wake_def)
qed

end
