(* ===== verification/SynchArcs.thy ===== *)
theory SynchArcs
  imports Synch SynchSemWake
begin

text \<open>
  The arcs of a synchronisation point as a list: \<^verbatim>\<open>plc_synchpt_add_arc\<close> and
  \<^verbatim>\<open>plc_synchpt_del_arc\<close> work on the first \<^verbatim>\<open>used_entries\<close> of the array
  like \<open>add_spec\<close> and \<open>del_spec\<close> on the list; the arcs stay within the block, the
  waits stay in front, and there is one arc for each place and direction.
\<close>

section \<open>The array as a list\<close>

definition arcs :: "plc_synchpt \<Rightarrow> plcsynchsem_parm list" where
  "arcs sp = take (unat (used_entries sp)) (sp_parm sp)"

definition synchpt_ok :: "plc_synchpt \<Rightarrow> bool" where
  "synchpt_ok sp \<longleftrightarrow> sp_magic sp = SYNCHPT_MAGIC \<and> length (sp_parm sp) = unat (total_entries sp) \<and>
     used_entries sp \<le> total_entries sp"

definition arc :: "i16 \<Rightarrow> int \<Rightarrow> int \<Rightarrow> plcsynchsem_parm" where
  "arc flg place weight = \<lparr>sem_num = word_of_int place, sem_flg = flg, sem_op = word_of_int weight\<rparr>"

lemma arc_sel [simp]:
  "sem_num (arc flg place weight) = word_of_int place" "sem_flg (arc flg place weight) = flg"
  "sem_op (arc flg place weight) = word_of_int weight"
  by (simp_all add: arc_def)

text \<open>The first element with \<open>Q\<close> is replaced by the list \<open>f q\<close>.\<close>

fun on_first :: "('q \<Rightarrow> bool) \<Rightarrow> ('q \<Rightarrow> 'q list) \<Rightarrow> 'q list \<Rightarrow> 'q list option" where
  "on_first Q f [] = None"
| "on_first Q f (q # qs) = (if Q q then Some (f q @ qs) else map_option ((#) q) (on_first Q f qs))"

definition on_arc :: "int \<Rightarrow> int \<Rightarrow> plcsynchsem_parm \<Rightarrow> bool" where
  "on_arc place weight q \<longleftrightarrow> uint (sem_num q) = place \<and> same_direction (sem_op q) weight"

definition on_arc0 :: "int \<Rightarrow> int \<Rightarrow> plcsynchsem_parm \<Rightarrow> bool" where
  "on_arc0 place weight q \<longleftrightarrow>
     uint (sem_num q) = place \<and> (same_direction (sem_op q) weight \<or> sem_op q = 0 \<and> weight = 0)"

definition add_spec ::
  "i16 \<Rightarrow> nat \<Rightarrow> int \<Rightarrow> int \<Rightarrow> plcsynchsem_parm list \<Rightarrow> plcsynchsem_parm list option" where
  "add_spec flg cap weight place qs =
     (case on_first (on_arc place weight) (\<lambda>q. [q\<lparr>sem_op := sem_op q + word_of_int weight\<rparr>]) qs of
        Some qs' \<Rightarrow> Some qs'
      | None \<Rightarrow> if cap \<le> length qs then None
                else if weight < 0 then Some (arc flg place weight # qs)
                else Some (qs @ [arc flg place weight]))"

definition del_spec :: "int \<Rightarrow> int \<Rightarrow> plcsynchsem_parm list \<Rightarrow> plcsynchsem_parm list option" where
  "del_spec weight place qs =
     on_first (on_arc0 place weight)
       (\<lambda>q. if same_direction (sem_op q) weight \<and> sem_op q - word_of_int weight \<noteq> 0
            then [q\<lparr>sem_op := sem_op q - word_of_int weight\<rparr>] else []) qs"

lemma find_entry_take:
  "n \<le> length a \<Longrightarrow> find_entry Q a n = length (takeWhile (\<lambda>q. \<not> Q q) (take n a))"
proof (induction n)
  case (Suc n)
  let ?N = "\<lambda>q. \<not> Q q"
  have 1: "takeWhile (\<lambda>i. \<not> Q (a ! i)) [0..<Suc n] =
    (if \<forall>i\<in>set [0..<n]. \<not> Q (a ! i) then [0..<n] @ takeWhile (\<lambda>i. \<not> Q (a ! i)) [n]
     else takeWhile (\<lambda>i. \<not> Q (a ! i)) [0..<n])"
    by (simp add: takeWhile_append)
  have t: "take (Suc n) a = take n a @ [a ! n]" using Suc.prems by (simp add: take_Suc_conv_app_nth)
  have 2: "takeWhile ?N (take (Suc n) a) =
    (if \<forall>q\<in>set (take n a). \<not> Q q then take n a @ takeWhile ?N [a ! n] else takeWhile ?N (take n a))"
    by (simp add: t takeWhile_append)
  have 3: "(\<forall>i\<in>set [0..<n]. \<not> Q (a ! i)) \<longleftrightarrow> (\<forall>q\<in>set (take n a). \<not> Q q)"
    using Suc.prems by (auto simp: all_set_conv_all_nth)
  show ?case
    using Suc.IH Suc.prems unfolding find_entry_def 1 2 3 by simp
qed (simp add: find_entry_def)

lemma on_first_takeWhile:
  "on_first Q f qs =
     (let k = length (takeWhile (\<lambda>q. \<not> Q q) qs)
      in if k < length qs then Some (take k qs @ f (qs ! k) @ drop (k + 1) qs) else None)"
  by (induction qs) (auto simp: Let_def)

lemma on_first_None: "on_first Q f qs = None \<longleftrightarrow> (\<forall>q\<in>set qs. \<not> Q q)"
  by (induction qs) auto

lemma on_first_Some:
  "on_first Q f qs = Some qs' \<longleftrightarrow>
     (\<exists>us q vs. qs = us @ q # vs \<and> (\<forall>x\<in>set us. \<not> Q x) \<and> Q q \<and> qs' = us @ f q @ vs)"
proof (induction qs arbitrary: qs')
  case (Cons q qs)
  show ?case
  proof (cases "Q q")
    case True
    show ?thesis
    proof
      assume "on_first Q f (q # qs) = Some qs'"
      then have "qs' = [] @ f q @ qs" using True by simp
      then show "\<exists>us x vs. q # qs = us @ x # vs \<and> (\<forall>x\<in>set us. \<not> Q x) \<and> Q x \<and> qs' = us @ f x @ vs"
        using True by fastforce
    next
      assume "\<exists>us x vs. q # qs = us @ x # vs \<and> (\<forall>x\<in>set us. \<not> Q x) \<and> Q x \<and> qs' = us @ f x @ vs"
      then obtain us x vs where u: "q # qs = us @ x # vs" "\<forall>x\<in>set us. \<not> Q x" "qs' = us @ f x @ vs"
        by blast
      then have "us = []" using True by (cases us) auto
      then show "on_first Q f (q # qs) = Some qs'" using u True by simp
    qed
  next
    case False
    show ?thesis
    proof
      assume "on_first Q f (q # qs) = Some qs'"
      then obtain t where t: "on_first Q f qs = Some t" "qs' = q # t" using False by auto
      then obtain us x vs where "qs = us @ x # vs" "\<forall>x\<in>set us. \<not> Q x" "Q x" "t = us @ f x @ vs"
        using Cons.IH by auto
      then show "\<exists>us x vs. q # qs = us @ x # vs \<and> (\<forall>x\<in>set us. \<not> Q x) \<and> Q x \<and> qs' = us @ f x @ vs"
        using t False by (intro exI [of _ "q # us"]) auto
    next
      assume "\<exists>us x vs. q # qs = us @ x # vs \<and> (\<forall>x\<in>set us. \<not> Q x) \<and> Q x \<and> qs' = us @ f x @ vs"
      then obtain us x vs where u: "q # qs = us @ x # vs" "\<forall>x\<in>set us. \<not> Q x" "Q x" "qs' = us @ f x @ vs"
        by blast
      then obtain us' where us': "us = q # us'" using False by (cases us) auto
      then have "on_first Q f qs = Some (us' @ f x @ vs)" using u Cons.IH by auto
      then show "on_first Q f (q # qs) = Some qs'" using u us' False by simp
    qed
  qed
qed simp

lemma arcs_length: "synchpt_ok sp \<Longrightarrow> length (arcs sp) = unat (used_entries sp)"
  by (simp add: arcs_def synchpt_ok_def word_le_nat_alt)

lemma take_list_update_less: "e < n \<Longrightarrow> take n (a[e := x]) = take e (take n a) @ x # drop (e + 1) (take n a) \<or> length a \<le> e"
proof -
  assume e: "e < n"
  show ?thesis
  proof (cases "e < length a")
    case True
    have "take n (a[e := x]) = (take n a)[e := x]" by (simp add: take_update_swap)
    moreover have "e < length (take n a)" using e True by simp
    ultimately show ?thesis by (simp add: upd_conv_take_nth_drop)
  qed simp
qed

lemma used_succ:
  "(u :: u16) < t \<Longrightarrow> unat (u + 1) = unat u + 1 \<and> u + 1 \<le> t"
proof -
  assume "u < t"
  moreover have "unat t < 65536" using unsigned_less [of t] by simp
  ultimately have "unat u + 1 < 65536" by (simp add: word_less_nat_alt)
  then have "unat (u + 1) = unat u + 1" by (simp add: unat_word_ariths)
  then show ?thesis using \<open>u < t\<close> by (simp add: word_le_nat_alt word_less_nat_alt)
qed

lemma add_arc_spec:
  assumes ok: "synchpt_ok sp"
  shows "case add_spec (sp_sem_flg sp) (unat (total_entries sp)) weight place (arcs sp) of
      None \<Rightarrow> plc_synchpt_add_arc sp weight place = (sp, -1)
    | Some qs \<Rightarrow> \<exists>sp'. plc_synchpt_add_arc sp weight place = (sp', 0) \<and> synchpt_ok sp' \<and>
        arcs sp' = qs \<and> total_entries sp' = total_entries sp \<and> sp_sem_flg sp' = sp_sem_flg sp"
proof -
  let ?a = "sp_parm sp" and ?u = "unat (used_entries sp)" and ?t = "unat (total_entries sp)"
  have lens: "length ?a = ?t" "?u \<le> length ?a" and magic: "sp_magic sp = SYNCHPT_MAGIC"
    using ok by (simp_all add: synchpt_ok_def word_le_nat_alt)
  define e where "e = find_entry (on_arc place weight) ?a ?u"
  have ea: "e = length (takeWhile (\<lambda>q. \<not> on_arc place weight q) (arcs sp))"
    using lens by (simp add: e_def find_entry_take arcs_def)
  have fe: "find_entry (\<lambda>q. uint (sem_num q) = place \<and> same_direction (sem_op q) weight) ?a ?u = e"
    by (simp add: e_def on_arc_def [abs_def])
  have la: "length (arcs sp) = ?u" by (rule arcs_length [OF ok])
  show ?thesis
  proof (cases "e < ?u")
    case True
    let ?x = "(?a ! e)\<lparr>sem_op := sem_op (?a ! e) + word_of_int weight\<rparr>"
    let ?sp = "sp\<lparr>sp_parm := ?a[e := ?x]\<rparr>"
    have nth: "arcs sp ! e = ?a ! e" using True by (simp add: arcs_def)
    have "arcs ?sp = take e (arcs sp) @ ?x # drop (e + 1) (arcs sp)"
      using take_list_update_less [OF True, of ?a ?x] lens True by (simp add: arcs_def)
    then have "add_spec (sp_sem_flg sp) ?t weight place (arcs sp) = Some (arcs ?sp)"
      using True la ea nth by (simp add: add_spec_def on_first_takeWhile Let_def)
    moreover have "plc_synchpt_add_arc sp weight place = (?sp, 0)"
      using True magic fe by (simp add: plc_synchpt_add_arc_def Let_def)
    moreover have "synchpt_ok ?sp" using ok by (simp add: synchpt_ok_def)
    ultimately show ?thesis by simp
  next
    case False
    then have nf: "on_first (on_arc place weight) f (arcs sp) = None" for f
      using la ea by (simp add: on_first_takeWhile Let_def)
    show ?thesis
    proof (cases "?t \<le> ?u")
      case True
      then show ?thesis using nf False magic fe la
        by (simp add: add_spec_def plc_synchpt_add_arc_def Let_def)
    next
      case room: False
      let ?n = "arc (sp_sem_flg sp) place weight"
      let ?sp = "sp\<lparr>sp_parm := (if weight < 0 then (shift_up ?a ?u)[0 := ?n] else ?a[?u := ?n]),
        used_entries := used_entries sp + 1\<rparr>"
      have us: "unat (used_entries sp + 1) = ?u + 1" "used_entries sp + 1 \<le> total_entries sp"
        using used_succ [of "used_entries sp" "total_entries sp"] room by (simp_all add: word_less_nat_alt)
      have call: "plc_synchpt_add_arc sp weight place = (?sp, 0)"
        using False magic fe room by (simp add: plc_synchpt_add_arc_def Let_def arc_def)
      have len: "length (sp_parm ?sp) = ?t" using lens room by (simp add: shift_up_def)
      have "arcs ?sp = (if weight < 0 then ?n # arcs sp else arcs sp @ [?n])"
      proof (cases "weight < 0")
        case True
        obtain x xs where "?a = x # xs" using lens room by (cases ?a) auto
        then show ?thesis using True us lens room
          by (simp add: arcs_def shift_up_def)
      next
        case False
        then show ?thesis using us lens room
          by (simp add: arcs_def take_Suc_conv_app_nth)
      qed
      then have "add_spec (sp_sem_flg sp) ?t weight place (arcs sp) = Some (arcs ?sp)"
        using nf la room by (simp add: add_spec_def)
      moreover have "synchpt_ok ?sp" using magic len us(2) by (simp add: synchpt_ok_def)
      ultimately show ?thesis using call by simp
    qed
  qed
qed

lemma shift_down_take:
  "e < n \<Longrightarrow> n \<le> length a \<Longrightarrow> take (n - 1) (shift_down a e n) = take e (take n a) @ drop (e + 1) (take n a)"
proof -
  assume e: "e < n" "n \<le> length a"
  let ?b = "take e a @ take (n - 1 - e) (drop (e + 1) a)"
  have "length ?b = n - 1" using e by simp
  moreover have "shift_down a e n = ?b @ drop (n - 1) a" by (simp add: shift_down_def)
  ultimately have "take (n - 1) (shift_down a e n) = ?b" by (metis append_eq_conv_conj)
  moreover have "drop (e + 1) (take n a) = take (n - 1 - e) (drop (e + 1) a)"
    by (simp add: drop_take)
  moreover have "take e (take n a) = take e a" using e by (simp add: min_def)
  ultimately show ?thesis by simp
qed

lemma shift_down_length: "e < n \<Longrightarrow> n \<le> length a \<Longrightarrow> length (shift_down a e n) = length a"
  by (simp add: shift_down_def)

lemma del_arc_spec:
  assumes ok: "synchpt_ok sp"
  shows "case del_spec weight place (arcs sp) of
      None \<Rightarrow> plc_synchpt_del_arc sp weight place = (sp, -1)
    | Some qs \<Rightarrow> \<exists>sp'. plc_synchpt_del_arc sp weight place = (sp', 0) \<and> synchpt_ok sp' \<and>
        arcs sp' = qs \<and> total_entries sp' = total_entries sp \<and> sp_sem_flg sp' = sp_sem_flg sp"
proof -
  let ?a = "sp_parm sp" and ?u = "unat (used_entries sp)" and ?t = "unat (total_entries sp)"
  have lens: "length ?a = ?t" "?u \<le> length ?a" and magic: "sp_magic sp = SYNCHPT_MAGIC"
    using ok by (simp_all add: synchpt_ok_def word_le_nat_alt)
  define e where "e = find_entry (on_arc0 place weight) ?a ?u"
  have ea: "e = length (takeWhile (\<lambda>q. \<not> on_arc0 place weight q) (arcs sp))"
    using lens by (simp add: e_def find_entry_take arcs_def)
  have fe: "find_entry (\<lambda>q. uint (sem_num q) = place \<and>
      (same_direction (sem_op q) weight \<or> sem_op q = 0 \<and> weight = 0)) ?a ?u = e"
    by (simp add: e_def on_arc0_def [abs_def])
  have la: "length (arcs sp) = ?u" by (rule arcs_length [OF ok])
  show ?thesis
  proof (cases "e < ?u")
    case False
    then have "del_spec weight place (arcs sp) = None"
      using la ea by (simp add: del_spec_def on_first_takeWhile Let_def)
    then show ?thesis using False magic fe by (simp add: plc_synchpt_del_arc_def Let_def)
  next
    case True
    let ?x = "(?a ! e)\<lparr>sem_op := sem_op (?a ! e) - word_of_int weight\<rparr>"
    let ?a1 = "if same_direction (sem_op (?a ! e)) weight then ?a[e := ?x] else ?a"
    have nth: "arcs sp ! e = ?a ! e" using True by (simp add: arcs_def)
    show ?thesis
    proof (cases "same_direction (sem_op (?a ! e)) weight \<and> sem_op (?a ! e) - word_of_int weight \<noteq> 0")
      case keep: True
      let ?sp = "sp\<lparr>sp_parm := ?a[e := ?x]\<rparr>"
      have "arcs ?sp = take e (arcs sp) @ ?x # drop (e + 1) (arcs sp)"
        using take_list_update_less [OF True, of ?a ?x] lens True by (simp add: arcs_def)
      then have "del_spec weight place (arcs sp) = Some (arcs ?sp)"
        using True la ea nth keep by (simp add: del_spec_def on_first_takeWhile Let_def)
      moreover have "plc_synchpt_del_arc sp weight place = (?sp, 0)"
        using True magic fe keep lens by (simp add: plc_synchpt_del_arc_def Let_def)
      moreover have "synchpt_ok ?sp" using ok by (simp add: synchpt_ok_def)
      ultimately show ?thesis by simp
    next
      case drop: False
      let ?sp = "sp\<lparr>sp_parm := shift_down ?a1 e ?u, used_entries := used_entries sp - 1\<rparr>"
      have "used_entries sp \<noteq> 0" using True by auto
      then have us: "unat (used_entries sp - 1) = ?u - 1" by (rule unat_minus_one)
      have "take e ?a1 = take e ?a" "drop (e + 1) ?a1 = drop (e + 1) ?a" "length ?a1 = length ?a"
        by simp_all
      then have t1: "take e (take ?u ?a1) = take e (take ?u ?a)"
        "drop (e + 1) (take ?u ?a1) = drop (e + 1) (take ?u ?a)"
        using True by (simp_all add: drop_take min_def)
      have "arcs ?sp = take (?u - 1) (shift_down ?a1 e ?u)" by (simp add: arcs_def us)
      also have "\<dots> = take e (arcs sp) @ drop (e + 1) (arcs sp)"
        using shift_down_take [OF True, of ?a1] lens t1 by (simp add: arcs_def del: drop_take)
      finally have ar: "arcs ?sp = take e (arcs sp) @ drop (e + 1) (arcs sp)" .
      have "del_spec weight place (arcs sp) = Some (arcs ?sp)"
        using True la ea nth drop ar by (auto simp: del_spec_def on_first_takeWhile Let_def)
      moreover have "plc_synchpt_del_arc sp weight place = (?sp, 0)"
        using True magic fe drop lens by (auto simp: plc_synchpt_del_arc_def Let_def)
      moreover have "synchpt_ok ?sp"
        using magic lens True shift_down_length [OF True, of ?a1] us
        by (simp add: synchpt_ok_def word_le_nat_alt)
      ultimately show ?thesis by simp
    qed
  qed
qed

section \<open>What the arcs of a point are\<close>

definition is_wait :: "plcsynchsem_parm \<Rightarrow> bool" where
  "is_wait q \<longleftrightarrow> sint (sem_op q) < 0"

definition is_signal :: "plcsynchsem_parm \<Rightarrow> bool" where
  "is_signal q \<longleftrightarrow> sint (sem_op q) > 0"

text \<open>The waits come first, and no two waits and no two signals are on the same place.\<close>

definition arcs_ok :: "plcsynchsem_parm list \<Rightarrow> bool" where
  "arcs_ok qs \<longleftrightarrow> sorted_wrt (\<lambda>x y. is_wait y \<longrightarrow> is_wait x) qs \<and>
     distinct (map sem_num (filter is_wait qs)) \<and> distinct (map sem_num (filter is_signal qs))"

lemma distinct_mid:
  "distinct (map f (filter P (us @ q # vs))) \<Longrightarrow> distinct (map f (filter P (us @ vs)))"
  by (cases "P q") auto

lemma arcs_ok_replace:
  assumes "arcs_ok (us @ q # vs)" "sem_num q' = sem_num q"
    and "is_wait q' = is_wait q" "is_signal q' = is_signal q"
  shows "arcs_ok (us @ q' # vs)"
  using assms unfolding arcs_ok_def by (cases "is_wait q"; cases "is_signal q") (simp_all add: sorted_wrt_append)

lemma arcs_ok_remove:
  assumes "arcs_ok (us @ q # vs)" shows "arcs_ok (us @ vs)"
proof -
  have "sorted_wrt (\<lambda>x y. is_wait y \<longrightarrow> is_wait x) (us @ vs)"
    using assms by (auto simp: arcs_ok_def sorted_wrt_append)
  moreover have "distinct (map sem_num (filter is_wait (us @ vs)))"
    by (rule distinct_mid [where q = q]) (use assms in \<open>simp only: arcs_ok_def\<close>)
  moreover have "distinct (map sem_num (filter is_signal (us @ vs)))"
    by (rule distinct_mid [where q = q]) (use assms in \<open>simp only: arcs_ok_def\<close>)
  ultimately show ?thesis by (simp only: arcs_ok_def)
qed

lemma arcs_ok_Cons:
  "arcs_ok qs \<Longrightarrow> is_wait n \<Longrightarrow> \<not> is_signal n \<Longrightarrow> sem_num n \<notin> sem_num ` set (filter is_wait qs) \<Longrightarrow>
   arcs_ok (n # qs)"
  by (simp add: arcs_ok_def)

lemma arcs_ok_snoc:
  "arcs_ok qs \<Longrightarrow> \<not> is_wait n \<Longrightarrow> (is_signal n \<Longrightarrow> sem_num n \<notin> sem_num ` set (filter is_signal qs)) \<Longrightarrow>
   arcs_ok (qs @ [n])"
  by (cases "is_signal n") (simp_all add: arcs_ok_def sorted_wrt_append)

lemma on_arc_sign:
  "on_arc place weight q \<Longrightarrow> sint (sem_op q) < 0 \<and> weight < 0 \<or> sint (sem_op q) > 0 \<and> weight > 0"
  by (simp only: on_arc_def same_direction_def)

lemma same_sign:
  "sint x < 0 \<longleftrightarrow> sint (sem_op q) < 0 \<Longrightarrow> sint x > 0 \<longleftrightarrow> sint (sem_op q) > 0 \<Longrightarrow>
   is_wait (q\<lparr>sem_op := x\<rparr>) = is_wait q \<and> is_signal (q\<lparr>sem_op := x\<rparr>) = is_signal q"
  by (simp add: is_wait_def is_signal_def)

lemma sint_wi16: "- 32768 \<le> k \<Longrightarrow> k < 32768 \<Longrightarrow> sint (word_of_int k :: i16) = k"
  by (simp add: sint_sbintrunc' signed_take_bit_int_eq_self)

lemma sint_add_wi16:
  "- 32768 \<le> sint (x :: i16) + k \<Longrightarrow> sint x + k < 32768 \<Longrightarrow>
   sint (x + word_of_int k) = sint x + k"
proof -
  assume "- 32768 \<le> sint x + k" "sint x + k < 32768"
  moreover have "x + word_of_int k = word_of_int (sint x + k)" by (simp add: of_int_sint)
  ultimately show ?thesis using sint_wi16 by metis
qed

text \<open>The weights stay within the 16 bits of \<^verbatim>\<open>sem_op\<close>, the places within those
  of \<^verbatim>\<open>sem_num\<close>.\<close>

definition fits :: "plcsynchsem_parm list \<Rightarrow> int \<Rightarrow> int \<Rightarrow> bool" where
  "fits qs place weight \<longleftrightarrow> 0 \<le> place \<and> place < 65536 \<and> - 32768 \<le> weight \<and> weight < 32768 \<and>
     (\<forall>q\<in>set qs. on_arc place weight q \<longrightarrow>
        - 32768 \<le> sint (sem_op q) + weight \<and> sint (sem_op q) + weight < 32768)"

lemma add_spec_ok:
  assumes ok: "arcs_ok qs" and fit: "fits qs place weight"
    and add: "add_spec flg cap weight place qs = Some qs'"
  shows "arcs_ok qs'"
proof (cases "on_first (on_arc place weight) (\<lambda>q. [q\<lparr>sem_op := sem_op q + word_of_int weight\<rparr>]) qs")
  case (Some rs)
  then obtain us q vs where q: "qs = us @ q # vs" "on_arc place weight q"
    "rs = us @ [q\<lparr>sem_op := sem_op q + word_of_int weight\<rparr>] @ vs"
    unfolding on_first_Some by blast
  have "sint (sem_op q + word_of_int weight) = sint (sem_op q) + weight"
    using fit q by (intro sint_add_wi16) (auto simp: fits_def)
  then have "is_wait (q\<lparr>sem_op := sem_op q + word_of_int weight\<rparr>) = is_wait q \<and>
    is_signal (q\<lparr>sem_op := sem_op q + word_of_int weight\<rparr>) = is_signal q"
    using on_arc_sign [OF q(2)] by (intro same_sign) linarith+
  then have "arcs_ok (us @ (q\<lparr>sem_op := sem_op q + word_of_int weight\<rparr>) # vs)"
    by (intro arcs_ok_replace [OF ok [unfolded q(1)]]) simp_all
  then show ?thesis using add Some q by (simp add: add_spec_def)
next
  case None
  let ?n = "arc flg place weight"
  have nf: "\<forall>q\<in>set qs. \<not> on_arc place weight q" using None by (simp add: on_first_None)
  have w: "is_wait ?n \<longleftrightarrow> weight < 0" "is_signal ?n \<longleftrightarrow> weight > 0" "uint (sem_num ?n) = place"
    using fit by (simp_all add: is_wait_def is_signal_def sint_wi16 fits_def uint_word_of_int)
  have qs': "qs' = (if weight < 0 then ?n # qs else qs @ [?n])"
    using add None by (simp add: add_spec_def split: if_splits)
  have other: "sem_num q \<noteq> sem_num ?n" if "q \<in> set qs" "same_direction (sem_op q) weight" for q
    using nf that w(3) by (metis on_arc_def)
  show ?thesis
  proof (cases "weight < 0")
    case True
    have "sem_num ?n \<notin> sem_num ` set (filter is_wait qs)"
      using other True by (force simp: same_direction_def is_wait_def simp del: arc_sel)
    then show ?thesis using ok w True qs' arcs_ok_Cons by simp
  next
    case False
    have "sem_num ?n \<notin> sem_num ` set (filter is_signal qs)" if "weight > 0"
      using other that by (force simp: same_direction_def is_signal_def simp del: arc_sel)
    then show ?thesis using ok w False qs' arcs_ok_snoc [OF ok, of ?n] by simp
  qed
qed

text \<open>Removing must not take more than there is.\<close>

lemma del_spec_ok:
  assumes ok: "arcs_ok qs" and del: "del_spec weight place qs = Some qs'"
    and le: "\<forall>q\<in>set qs. on_arc place weight q \<longrightarrow> \<bar>weight\<bar> \<le> \<bar>sint (sem_op q)\<bar>"
  shows "arcs_ok qs'"
proof -
  let ?keep = "\<lambda>q. same_direction (sem_op q) weight \<and> sem_op q - word_of_int weight \<noteq> 0"
  obtain us q vs where q: "qs = us @ q # vs" "on_arc0 place weight q"
    "qs' = us @ (if ?keep q then [q\<lparr>sem_op := sem_op q - word_of_int weight\<rparr>] else []) @ vs"
    using del unfolding del_spec_def on_first_Some by blast
  show ?thesis
  proof (cases "?keep q")
    case True
    then have a: "on_arc place weight q" using q(2) by (auto simp: on_arc_def on_arc0_def)
    then have l: "\<bar>weight\<bar> \<le> \<bar>sint (sem_op q)\<bar>" using le q(1) by auto
    have "sem_op q - word_of_int weight = sem_op q + word_of_int (- weight)"
      by (simp only: wi_hom_neg [symmetric] diff_conv_add_uminus)
    moreover have "sint (sem_op q + word_of_int (- weight)) = sint (sem_op q) - weight"
      using l on_arc_sign [OF a] sint_i16 [of "sem_op q"] sint_add_wi16 [of "sem_op q" "- weight"]
      by linarith
    ultimately have s: "sint (sem_op q - word_of_int weight) = sint (sem_op q) - weight"
      by (simp only:)
    have nz: "sint (sem_op q - word_of_int weight) \<noteq> 0" using True sint_zero_iff by blast
    have "is_wait (q\<lparr>sem_op := sem_op q - word_of_int weight\<rparr>) = is_wait q \<and>
      is_signal (q\<lparr>sem_op := sem_op q - word_of_int weight\<rparr>) = is_signal q"
      using nz l s on_arc_sign [OF a] by (intro same_sign) linarith+
    then have "arcs_ok (us @ (q\<lparr>sem_op := sem_op q - word_of_int weight\<rparr>) # vs)"
      by (intro arcs_ok_replace [OF ok [unfolded q(1)]]) simp_all
    then show ?thesis using True q by simp
  next
    case False
    then show ?thesis using q ok arcs_ok_remove by auto
  qed
qed

end
