(* ===== verification/SynchPetri.thy ===== *)
theory SynchPetri
  imports SynchArcs
begin

text \<open>
  What the synchronisation points of \<^verbatim>\<open>lib/synch/synch.c\<close> mean: the request that
  \<^verbatim>\<open>plc_synchpt_new\<close> builds from a transition is the firing of that transition in
  the Petri net whose marking is the array of values (\<open>new_request_fires\<close>), and
  \<^verbatim>\<open>plc_synch\<close> performs it on the set (\<open>plc_synch_request\<close>).
\<close>

section \<open>Requests with one operation for each place\<close>

lemma sem_run_append: "sem_run (ps @ qs) vs = Option.bind (sem_run ps vs) (sem_run qs)"
  by (induction ps vs rule: sem_run.induct) (simp_all add: Let_def)

definition add_marks :: "nat set \<Rightarrow> (nat \<Rightarrow> int) \<Rightarrow> u32 list \<Rightarrow> u32 list" where
  "add_marks S g vs = map (\<lambda>j. if j \<in> S then vs ! j + word_of_int (g j) else vs ! j) [0..<length vs]"

lemma add_marks_length [simp]: "length (add_marks S g vs) = length vs"
  by (simp add: add_marks_def)

lemma add_marks_nth:
  "j < length vs \<Longrightarrow> add_marks S g vs ! j = (if j \<in> S then vs ! j + word_of_int (g j) else vs ! j)"
  by (simp add: add_marks_def)

lemma arc_place: "i < 65536 \<Longrightarrow> unat (sem_num (arc flg (int i) k)) = i"
  by (simp add: unat_of_nat take_bit_nat_eq_self_iff)

lemma sem_run_arcs:
  assumes "distinct is" "\<forall>i\<in>set is. i < length vs \<and> i < 65536 \<and> g i \<noteq> 0 \<and> - 32768 \<le> g i \<and> g i < 32768"
  shows "sem_run (map (\<lambda>i. arc flg (int i) (g i)) is) vs =
    (if \<forall>i\<in>set is. 0 \<le> uint (vs ! i) + g i then Some (add_marks (set is) g vs) else None)"
  using assms
proof (induction "is" arbitrary: vs)
  case Nil
  have "add_marks {} g vs = vs" by (simp add: add_marks_def map_nth)
  then show ?case by simp
next
  case (Cons i "is")
  let ?vs1 = "vs[i := word_of_int (uint (vs ! i) + g i)]"
  have i: "i < length vs" "i < 65536" "i \<notin> set is" "sint (word_of_int (g i) :: i16) = g i" "g i \<noteq> 0"
    using Cons.prems sint_wi16 [of "g i"] by auto
  have step: "sem_run (map (\<lambda>i. arc flg (int i) (g i)) (i # is)) vs =
    (if 0 \<le> uint (vs ! i) + g i then sem_run (map (\<lambda>i. arc flg (int i) (g i)) is) ?vs1 else None)"
    using i arc_place [OF i(2), of flg "g i"] by (simp add: Let_def)
  have "\<forall>j\<in>set is. ?vs1 ! j = vs ! j" using i(3) by (metis nth_list_update_neq)
  then have all: "(\<forall>j\<in>set is. 0 \<le> uint (?vs1 ! j) + g j) \<longleftrightarrow> (\<forall>j\<in>set is. 0 \<le> uint (vs ! j) + g j)"
    by simp
  have ih: "sem_run (map (\<lambda>i. arc flg (int i) (g i)) is) ?vs1 =
    (if \<forall>j\<in>set is. 0 \<le> uint (vs ! j) + g j then Some (add_marks (set is) g ?vs1) else None)"
    using Cons.IH [of ?vs1] Cons.prems unfolding all by simp
  have "add_marks (set is) g ?vs1 = add_marks (set (i # is)) g vs"
  proof (rule nth_equalityI)
    fix j assume "j < length (add_marks (set is) g ?vs1)"
    then have j: "j < length vs" by simp
    show "add_marks (set is) g ?vs1 ! j = add_marks (set (i # is)) g vs ! j"
    proof (cases "j = i")
      case True
      have "(word_of_int (uint (vs ! i) + g i) :: u32) = vs ! i + word_of_int (g i)"
        by (simp add: wi_hom_add [symmetric])
      then show ?thesis using True i j by (simp add: add_marks_nth)
    next
      case False
      then show ?thesis using j by (simp add: add_marks_nth)
    qed
  qed simp
  then show ?case using step ih by auto
qed

lemma sem_run_nulls:
  assumes "\<forall>i\<in>set is. i < 65536"
  shows "sem_run (map (\<lambda>i. arc flg (int i) 0) is) vs =
    (if \<forall>i\<in>set is. vs ! i = 0 then Some vs else None)"
  using assms
proof (induction "is")
  case (Cons i "is")
  then have "unat (sem_num (arc flg (int i) 0)) = i" by (intro arc_place) simp
  then show ?case using Cons by (simp add: Let_def uint_0_iff)
qed simp

section \<open>Firing a transition\<close>

definition w_in :: "plc_transition \<Rightarrow> nat \<Rightarrow> int" where "w_in t i = sint (wait_values t ! i)"
definition w_out :: "plc_transition \<Rightarrow> nat \<Rightarrow> int" where "w_out t i = sint (signal_values t ! i)"
definition n_places :: "plc_transition \<Rightarrow> nat" where "n_places t = nat (sint (tr_place_count t))"

text \<open>A weight below 0 is no arc. A wait arc needs as many tokens as its weight, a null arc an
  empty place.\<close>

definition enabled :: "plc_transition \<Rightarrow> u32 list \<Rightarrow> bool" where
  "enabled t vs \<longleftrightarrow> (\<forall>i < n_places t. (w_in t i > 0 \<longrightarrow> w_in t i \<le> uint (vs ! i)) \<and>
     (w_in t i = 0 \<longrightarrow> vs ! i = 0))"

definition fire :: "plc_transition \<Rightarrow> u32 list \<Rightarrow> u32 list" where
  "fire t vs = map (\<lambda>i. if i < n_places t
     then vs ! i - word_of_int (max 0 (w_in t i)) + word_of_int (max 0 (w_out t i)) else vs ! i)
     [0..<length vs]"

text \<open>The arrays have as many entries as there are places, and no arc to a place is a null
  arc.\<close>

definition trans_ok :: "plc_transition \<Rightarrow> bool" where
  "trans_ok t \<longleftrightarrow> tr_magic t = TRANSITION_MAGIC \<and> length (wait_values t) = n_places t \<and>
     length (signal_values t) = n_places t \<and> (\<forall>i < n_places t. w_out t i \<noteq> 0)"

definition wait_arcs :: "i16 \<Rightarrow> plc_transition \<Rightarrow> nat \<Rightarrow> plcsynchsem_parm list" where
  "wait_arcs flg t k = map (\<lambda>i. arc flg (int i) (- w_in t i)) (filter (\<lambda>i. w_in t i > 0) [0..<k])"

definition null_arcs :: "i16 \<Rightarrow> plc_transition \<Rightarrow> nat \<Rightarrow> plcsynchsem_parm list" where
  "null_arcs flg t k = map (\<lambda>i. arc flg (int i) 0) (filter (\<lambda>i. w_in t i = 0) [0..<k])"

definition signal_arcs :: "i16 \<Rightarrow> plc_transition \<Rightarrow> nat \<Rightarrow> plcsynchsem_parm list" where
  "signal_arcs flg t k = map (\<lambda>i. arc flg (int i) (w_out t i)) (filter (\<lambda>i. w_out t i > 0) [0..<k])"

lemma w_in_range: "- 32768 \<le> w_in t i" "w_in t i < 32768" and w_out_range: "- 32768 \<le> w_out t i" "w_out t i < 32768"
  using sint_i16 [of "wait_values t ! i"] sint_i16 [of "signal_values t ! i"]
  by (simp_all add: w_in_def w_out_def)

lemma places_small: "n_places t \<le> 32767"
  using sint_i16 [of "tr_place_count t"] by (simp add: n_places_def)

lemma request_fires:
  assumes t: "trans_ok t" and n: "n_places t \<le> length vs"
  shows "sem_run (rev (wait_arcs flg t (n_places t)) @ null_arcs flg t (n_places t) @
      signal_arcs flg t (n_places t)) vs = (if enabled t vs then Some (fire t vs) else None)"
proof -
  let ?n = "n_places t"
  let ?W = "filter (\<lambda>i. w_in t i > 0) [0..<?n]" and ?Z = "filter (\<lambda>i. w_in t i = 0) [0..<?n]"
    and ?S = "filter (\<lambda>i. w_out t i > 0) [0..<?n]"
  have small: "i < ?n \<Longrightarrow> i < 65536" for i using places_small [of t] by simp
  let ?vs1 = "add_marks (set (rev ?W)) (\<lambda>i. - w_in t i) vs"
  have w: "sem_run (rev (wait_arcs flg t ?n)) vs =
    (if \<forall>i\<in>set (rev ?W). 0 \<le> uint (vs ! i) + (- w_in t i) then Some ?vs1 else None)"
  proof -
    have "sem_run (map (\<lambda>i. arc flg (int i) (- w_in t i)) (rev ?W)) vs =
      (if \<forall>i\<in>set (rev ?W). 0 \<le> uint (vs ! i) + (- w_in t i) then Some ?vs1 else None)"
    proof (rule sem_run_arcs)
      show "\<forall>i\<in>set (rev ?W). i < length vs \<and> i < 65536 \<and> - w_in t i \<noteq> 0 \<and> - 32768 \<le> - w_in t i \<and>
        - w_in t i < 32768"
      proof
        fix i assume "i \<in> set (rev ?W)"
        then show "i < length vs \<and> i < 65536 \<and> - w_in t i \<noteq> 0 \<and> - 32768 \<le> - w_in t i \<and>
          - w_in t i < 32768"
          using small [of i] n w_in_range(2) [of t i] by simp
      qed
    qed simp
    then show ?thesis by (simp add: wait_arcs_def rev_map)
  qed
  have z: "sem_run (null_arcs flg t ?n) ?vs1 = (if \<forall>i\<in>set ?Z. ?vs1 ! i = 0 then Some ?vs1 else None)"
    unfolding null_arcs_def by (rule sem_run_nulls) (use small in auto)
  have zv: "(\<forall>i\<in>set ?Z. ?vs1 ! i = 0) \<longleftrightarrow> (\<forall>i\<in>set ?Z. vs ! i = 0)"
    using n by (auto simp: add_marks_nth)
  have s: "sem_run (signal_arcs flg t ?n) ?vs1 = Some (add_marks (set ?S) (w_out t) ?vs1)"
  proof -
    have "sem_run (signal_arcs flg t ?n) ?vs1 =
      (if \<forall>i\<in>set ?S. 0 \<le> uint (?vs1 ! i) + w_out t i then Some (add_marks (set ?S) (w_out t) ?vs1) else None)"
      unfolding signal_arcs_def
    proof (rule sem_run_arcs)
      show "\<forall>i\<in>set ?S. i < length ?vs1 \<and> i < 65536 \<and> w_out t i \<noteq> 0 \<and> - 32768 \<le> w_out t i \<and>
        w_out t i < 32768"
      proof
        fix i assume "i \<in> set ?S"
        then show "i < length ?vs1 \<and> i < 65536 \<and> w_out t i \<noteq> 0 \<and> - 32768 \<le> w_out t i \<and> w_out t i < 32768"
          using small [of i] n w_out_range [of t i] by simp
      qed
    qed simp
    moreover have "0 \<le> uint (?vs1 ! i) + w_out t i" if "i \<in> set ?S" for i
      using that uint_ge_0 [of "?vs1 ! i"] by auto
    ultimately show ?thesis by auto
  qed
  have "add_marks (set ?S) (w_out t) ?vs1 = fire t vs"
    using n by (intro nth_equalityI) (auto simp: add_marks_nth fire_def max_def not_less)
  moreover have "enabled t vs \<longleftrightarrow>
    (\<forall>i\<in>set (rev ?W). 0 \<le> uint (vs ! i) + (- w_in t i)) \<and> (\<forall>i\<in>set ?Z. vs ! i = 0)"
    by (auto simp: enabled_def)
  ultimately show ?thesis using w z s zv by (simp add: sem_run_append)
qed

section \<open>Building the request\<close>

lemma add_arc_new:
  assumes "synchpt_ok sp" "length (arcs sp) < unat (total_entries sp)"
    and "\<forall>q\<in>set (arcs sp). \<not> on_arc place weight q"
  shows "synchpt_ok (fst (plc_synchpt_add_arc sp weight place)) \<and>
    arcs (fst (plc_synchpt_add_arc sp weight place)) =
      (if weight < 0 then arc (sp_sem_flg sp) place weight # arcs sp
       else arcs sp @ [arc (sp_sem_flg sp) place weight]) \<and>
    total_entries (fst (plc_synchpt_add_arc sp weight place)) = total_entries sp \<and>
    sp_sem_flg (fst (plc_synchpt_add_arc sp weight place)) = sp_sem_flg sp"
proof -
  have "on_first (on_arc place weight) f (arcs sp) = None" for f
    using assms(3) by (simp add: on_first_None)
  then have "add_spec (sp_sem_flg sp) (unat (total_entries sp)) weight place (arcs sp) =
    Some (if weight < 0 then arc (sp_sem_flg sp) place weight # arcs sp
          else arcs sp @ [arc (sp_sem_flg sp) place weight])"
    using assms(2) by (simp add: add_spec_def)
  then show ?thesis using add_arc_spec [OF assms(1), of weight place] by auto
qed

lemma uint_arc: "i < 65536 \<Longrightarrow> uint (sem_num (arc flg (int i) k)) = int i"
  using arc_place [of i flg k] by (simp del: arc_sel add: uint_nat)

lemma add_waits_arcs:
  assumes ok: "synchpt_ok sp" "arcs sp = []"
    and k: "k \<le> 65536" and room: "length (filter (\<lambda>i. w_in t i \<ge> 0) [0..<k]) \<le> unat (total_entries sp)"
  shows "synchpt_ok (add_waits t [0..<k] sp) \<and>
    arcs (add_waits t [0..<k] sp) =
      rev (wait_arcs (sp_sem_flg sp) t k) @ null_arcs (sp_sem_flg sp) t k \<and>
    total_entries (add_waits t [0..<k] sp) = total_entries sp \<and>
    sp_sem_flg (add_waits t [0..<k] sp) = sp_sem_flg sp"
  using k room
proof (induction k)
  case 0
  then show ?case using ok by (simp add: add_waits_def wait_arcs_def null_arcs_def)
next
  case (Suc k)
  let ?F = "sp_sem_flg sp" and ?sp = "add_waits t [0..<k] sp"
  have room: "length (filter (\<lambda>i. w_in t i \<ge> 0) [0..<k]) \<le> unat (total_entries sp)"
    using Suc.prems(2) by simp
  have ih: "synchpt_ok ?sp" "arcs ?sp = rev (wait_arcs ?F t k) @ null_arcs ?F t k"
    "total_entries ?sp = total_entries sp" "sp_sem_flg ?sp = ?F"
    using Suc.IH [OF _ room] Suc.prems(1) by auto
  have step: "add_waits t [0..<Suc k] sp =
    (if w_in t k \<ge> 0 then fst (plc_synchpt_add_arc ?sp (- w_in t k) (int k)) else ?sp)"
    by (simp add: add_waits_def w_in_def)
  show ?case
  proof (cases "w_in t k \<ge> 0")
    case False
    then show ?thesis using ih step by (simp add: wait_arcs_def null_arcs_def)
  next
    case True
    have len: "length (arcs ?sp) = length (filter (\<lambda>i. w_in t i \<ge> 0) [0..<k])"
      unfolding ih(2) wait_arcs_def null_arcs_def
      by (induction k) auto
    then have lt: "length (arcs ?sp) < unat (total_entries ?sp)"
      using Suc.prems(2) True ih(3) by simp
    have "\<forall>q\<in>set (arcs ?sp). \<not> on_arc (int k) (- w_in t k) q"
      using Suc.prems(1) unfolding ih(2) wait_arcs_def null_arcs_def
      by (auto simp: on_arc_def uint_arc simp del: arc_sel)
    from add_arc_new [OF ih(1) lt this] show ?thesis
      using True ih step by (auto simp: wait_arcs_def null_arcs_def)
  qed
qed

lemma add_signals_arcs:
  assumes ok: "synchpt_ok sp" "arcs sp = rev (wait_arcs (sp_sem_flg sp) t n) @ null_arcs (sp_sem_flg sp) t n"
    and k: "k \<le> 65536" and t: "\<forall>i < k. w_out t i \<noteq> 0"
    and room: "length (arcs sp) + length (filter (\<lambda>i. w_out t i \<ge> 0) [0..<k]) \<le> unat (total_entries sp)"
  shows "synchpt_ok (add_signals t [0..<k] sp) \<and>
    arcs (add_signals t [0..<k] sp) = arcs sp @ signal_arcs (sp_sem_flg sp) t k \<and>
    total_entries (add_signals t [0..<k] sp) = total_entries sp \<and>
    sp_sem_flg (add_signals t [0..<k] sp) = sp_sem_flg sp"
  using k t room
proof (induction k)
  case 0
  then show ?case using ok by (simp add: add_signals_def signal_arcs_def)
next
  case (Suc k)
  let ?F = "sp_sem_flg sp" and ?sp = "add_signals t [0..<k] sp"
  have ih: "synchpt_ok ?sp" "arcs ?sp = arcs sp @ signal_arcs ?F t k"
    "total_entries ?sp = total_entries sp" "sp_sem_flg ?sp = ?F"
    using Suc.IH Suc.prems by auto
  have step: "add_signals t [0..<Suc k] sp =
    (if w_out t k \<ge> 0 then fst (plc_synchpt_add_arc ?sp (w_out t k) (int k)) else ?sp)"
    by (simp add: add_signals_def w_out_def)
  show ?case
  proof (cases "w_out t k > 0")
    case False
    then have "w_out t k < 0" using Suc.prems(2) by (metis lessI linorder_neqE_linordered_idom)
    then show ?thesis using ih step by (simp add: signal_arcs_def)
  next
    case True
    have len: "length (signal_arcs ?F t k) = length (filter (\<lambda>i. w_out t i \<ge> 0) [0..<k])"
    proof -
      have "filter (\<lambda>i. w_out t i > 0) [0..<k] = filter (\<lambda>i. w_out t i \<ge> 0) [0..<k]"
        using Suc.prems(2) by (intro filter_cong) (auto simp: order_le_less)
      then show ?thesis by (simp add: signal_arcs_def)
    qed
    then have lt: "length (arcs ?sp) < unat (total_entries ?sp)"
      using Suc.prems(3) True ih(2,3) by simp
    have w: "\<forall>q\<in>set (arcs sp). \<not> on_arc (int k) (w_out t k) q"
    proof
      fix q assume "q \<in> set (arcs sp)"
      then obtain g where "q = arc ?F g 0 \<or> (\<exists>i. q = arc ?F g (- w_in t i) \<and> w_in t i > 0)"
        unfolding ok(2) wait_arcs_def null_arcs_def by auto
      then have "sint (sem_op q) \<le> 0"
      proof (elim disjE exE conjE)
        fix i assume "q = arc ?F g (- w_in t i)" "0 < w_in t i"
        then show ?thesis using w_in_range(2) [of t i] sint_wi16 [of "- w_in t i"] by simp
      qed simp
      then show "\<not> on_arc (int k) (w_out t k) q" using True by (simp add: on_arc_def same_direction_def)
    qed
    have "\<forall>q\<in>set (signal_arcs ?F t k). \<not> on_arc (int k) (w_out t k) q"
      using Suc.prems(1) by (auto simp: signal_arcs_def on_arc_def uint_arc simp del: arc_sel)
    then have "\<forall>q\<in>set (arcs ?sp). \<not> on_arc (int k) (w_out t k) q" using w ih(2) by auto
    from add_arc_new [OF ih(1) lt this] show ?thesis
      using True ih step by (auto simp: signal_arcs_def)
  qed
qed

text \<open>The number of entries is that of the arcs and the extra ones, when these fit into 16
  bits.\<close>

definition n_arcs :: "plc_transition \<Rightarrow> nat" where
  "n_arcs t = length (filter (\<lambda>i. w_in t i \<ge> 0) [0..<n_places t])
     + length (filter (\<lambda>i. w_out t i \<ge> 0) [0..<n_places t])"

lemma arc_count_n: "arc_count t extra = of_nat (n_arcs t) + extra"
  by (simp add: arc_count_def n_arcs_def w_in_def w_out_def n_places_def Let_def)

definition blocking_flag :: "plc_synchpt_blocking_t \<Rightarrow> i16" where
  "blocking_flag opt = (case opt of plc_synchpt_blocking \<Rightarrow> 0 | plc_synchpt_nonblocking \<Rightarrow> IPC_NOWAIT)"

definition request :: "plc_transition \<Rightarrow> plc_synchpt_blocking_t \<Rightarrow> plcsynchsem_parm list" where
  "request t opt = rev (wait_arcs (blocking_flag opt) t (n_places t)) @
     null_arcs (blocking_flag opt) t (n_places t) @ signal_arcs (blocking_flag opt) t (n_places t)"

lemma synchpt_fill_arcs:
  assumes t: "trans_ok t" and n: "n_arcs t + unat extra \<le> 65535"
  shows "synchpt_ok (synchpt_fill t (arc_count t extra) opt) \<and>
    arcs (synchpt_fill t (arc_count t extra) opt) = request t opt \<and>
    unat (total_entries (synchpt_fill t (arc_count t extra) opt)) = n_arcs t + unat extra \<and>
    sp_sem_flg (synchpt_fill t (arc_count t extra) opt) = blocking_flag opt"
proof -
  let ?c = "arc_count t extra" and ?is = "[0..<n_places t]"
  have c: "unat ?c = n_arcs t + unat extra"
    using n by (simp add: arc_count_n unat_word_ariths unat_of_nat)
  have uc: "unat (ucast ?c :: u16) = n_arcs t + unat extra"
    using n c by (simp add: unsigned_ucast_eq unsigned_take_bit_eq take_bit_nat_eq_self_iff)
  define sp0 where "sp0 = \<lparr>sp_magic = SYNCHPT_MAGIC, sp_sem_flg = blocking_flag opt,
    total_entries = ucast ?c, used_entries = 0, sp_parm = replicate (unat (ucast ?c :: u16)) no_parm\<rparr>"
  have fill: "synchpt_fill t ?c opt = (add_signals t ?is (add_waits t ?is sp0))\<lparr>sp_magic := SYNCHPT_MAGIC\<rparr>"
    by (cases opt) (simp_all add: synchpt_fill_def sp0_def blocking_flag_def n_places_def Let_def)
  have 0: "synchpt_ok sp0" "arcs sp0 = []" "sp_sem_flg sp0 = blocking_flag opt"
    "unat (total_entries sp0) = n_arcs t + unat extra"
    using uc by (simp_all add: sp0_def synchpt_ok_def arcs_def)
  have np: "n_places t \<le> 65536" using places_small [of t] by simp
  have "length (filter (\<lambda>i. w_in t i \<ge> 0) ?is) \<le> unat (total_entries sp0)"
    using 0(4) by (simp add: n_arcs_def)
  from add_waits_arcs [OF 0(1,2) np this] 0(3,4)
  have 1: "synchpt_ok (add_waits t ?is sp0)"
    "arcs (add_waits t ?is sp0) = rev (wait_arcs (blocking_flag opt) t (n_places t)) @
       null_arcs (blocking_flag opt) t (n_places t)"
    "unat (total_entries (add_waits t ?is sp0)) = n_arcs t + unat extra"
    "sp_sem_flg (add_waits t ?is sp0) = blocking_flag opt" by auto
  have "length (filter (\<lambda>i. w_in t i > 0) [0..<k]) + length (filter (\<lambda>i. w_in t i = 0) [0..<k])
      = length (filter (\<lambda>i. w_in t i \<ge> 0) [0..<k])" for k
    by (induction k) auto
  then have "length (arcs (add_waits t ?is sp0)) = length (filter (\<lambda>i. w_in t i \<ge> 0) ?is)"
    by (simp add: 1(2) wait_arcs_def null_arcs_def)
  then have room: "length (arcs (add_waits t ?is sp0)) + length (filter (\<lambda>i. w_out t i \<ge> 0) ?is)
      \<le> unat (total_entries (add_waits t ?is sp0))"
    using 1(3) by (simp add: n_arcs_def)
  have nz: "\<forall>i < n_places t. w_out t i \<noteq> 0" using t by (simp add: trans_ok_def)
  have "synchpt_ok (add_signals t ?is (add_waits t ?is sp0)) \<and>
    arcs (add_signals t ?is (add_waits t ?is sp0)) = arcs (add_waits t ?is sp0) @
      signal_arcs (sp_sem_flg (add_waits t ?is sp0)) t (n_places t) \<and>
    total_entries (add_signals t ?is (add_waits t ?is sp0)) = total_entries (add_waits t ?is sp0) \<and>
    sp_sem_flg (add_signals t ?is (add_waits t ?is sp0)) = sp_sem_flg (add_waits t ?is sp0)"
    by (rule add_signals_arcs [OF 1(1) _ np nz room]) (simp add: 1(2,4))
  then show ?thesis
    unfolding fill using 1 by (auto simp: request_def synchpt_ok_def arcs_def)
qed

lemma new_request_fires:
  assumes "trans_ok t" "n_arcs t + unat extra \<le> 65535" "n_places t \<le> length vs"
  shows "sem_run (arcs (synchpt_fill t (arc_count t extra) opt)) vs =
    (if enabled t vs then Some (fire t vs) else None)"
  using synchpt_fill_arcs [OF assms(1,2), of opt] request_fires [OF assms(1,3)]
  by (simp add: request_def)

lemma request_flags: "q \<in> set (request t opt) \<Longrightarrow> sem_flg q = blocking_flag opt"
  by (auto simp: request_def wait_arcs_def null_arcs_def signal_arcs_def)

lemma request_ok: "n_places t \<le> n \<Longrightarrow> reqs_ok n (request t opt)"
  using places_small [of t] arc_place
  by (fastforce simp: request_def wait_arcs_def null_arcs_def signal_arcs_def reqs_ok_def simp del: arc_sel)

section \<open>Synchronising\<close>

text \<open>The array that the call hands over is that of the synchronisation point.\<close>

lemma call_parms:
  assumes ok: "synchpt_ok (w_synchpt w a)" and a: "a + 8 < 4294967296"
  shows "parm_list (world_parms w) ((with_request s sem (int a + 8)
      (ucast (used_entries (w_synchpt w a)))) sem) = arcs (w_synchpt w a)"
proof -
  let ?sp = "w_synchpt w a"
  have "(word_of_int (int a + 8) :: u32) - 8 = of_nat a"
    by simp
  then have addr: "unat ((word_of_int (int a + 8) :: u32) - of_nat sizeof_synchpt) = a"
    using a by (simp add: sizeof_synchpt_def unat_of_nat take_bit_nat_eq_self_iff)
  have "nat (sint (ucast (used_entries ?sp) :: u32)) = unat (used_entries ?sp)"
  proof -
    have "unat (used_entries ?sp) < 65536" using unsigned_less [of "used_entries ?sp"] by simp
    then have u: "uint (used_entries ?sp) < 65536" using uint_nat [of "used_entries ?sp"] by linarith
    have "signed_take_bit 31 (uint (used_entries ?sp)) = uint (used_entries ?sp)"
    proof (rule signed_take_bit_int_eq_self)
      have "- (2 ^ 31) \<le> (0 :: int)" by simp
      then show "- (2 ^ 31) \<le> uint (used_entries ?sp)" using uint_ge_0 by (rule order_trans)
      have "(65536 :: int) < 2 ^ 31" by simp
      with u show "uint (used_entries ?sp) < 2 ^ 31" by (rule less_trans)
    qed
    moreover have "sint (ucast (used_entries ?sp) :: u32) = signed_take_bit 31 (uint (used_entries ?sp))"
      by (simp add: sint_uint uint_up_ucast is_up)
    ultimately have "sint (ucast (used_entries ?sp) :: u32) = uint (used_entries ?sp)" by (simp only:)
    then show ?thesis by simp
  qed
  moreover have "used_entries ?sp \<le> total_entries ?sp" "length (sp_parm ?sp) = unat (total_entries ?sp)"
    using ok by (simp_all add: synchpt_ok_def)
  ultimately show ?thesis
    using addr by (intro nth_equalityI)
      (simp_all add: parm_list_def with_request_def world_parms_def arcs_def Let_def word_le_nat_alt)
qed

end
