(* ===== verification/CmmSetup.thy ===== *)
theory CmmSetup
  imports CmmApi
begin

text \<open>
  Creating, attaching and removing the segment: \<^verbatim>\<open>lib/misc/shmem_util.c\<close> and
  \<^verbatim>\<open>lib/misc/mutex_util.c\<close> (their System V branches), \<^verbatim>\<open>lib/cmm/cmm_setup.c\<close> and
  \<^verbatim>\<open>cmm_init\<close>, \<^verbatim>\<open>cmm_done\<close> of \<^verbatim>\<open>lib/cmm/cmm.c\<close>. The operating system's
  part is a record: the segments by their keys, the semaphore sets that serve as mutexes by theirs, and what the
  calling process has attached. Whether there is room for another segment or set, whether a set takes its first
  value, and the random keys that are drawn are arguments. \<^verbatim>\<open>shmat\<close> on a segment that exists succeeds.
\<close>

section \<open>Shared memory\<close>

type_synonym shm_os = "int \<Rightarrow> mem option"

text \<open>Attachments are named by the key of their segment, the latest first.\<close>

record ipc_os =
  segments :: shm_os
  mutexes :: "u32 set"
  attached :: "int list"

text \<open>\<^verbatim>\<open>shmget\<close> with \<^verbatim>\<open>IPC_CREAT|IPC_EXCL\<close> fails when the key is taken. The
  new segment is attached and cleared.\<close>

definition create_shmem :: "bool \<Rightarrow> ipc_os \<Rightarrow> int \<Rightarrow> ipc_os \<times> mem option" where
  "create_shmem room os shmkey =
     (if room \<and> segments os shmkey = None
      then (os\<lparr>segments := (segments os)(shmkey \<mapsto> (\<lambda>_. 0)), attached := shmkey # attached os\<rparr>, Some (\<lambda>_. 0))
      else (os, None))"

definition attach_shmem :: "ipc_os \<Rightarrow> int \<Rightarrow> ipc_os \<times> mem option" where
  "attach_shmem os shmkey =
     (case segments os shmkey of
        None \<Rightarrow> (os, None)
      | Some m \<Rightarrow> (os\<lparr>attached := shmkey # attached os\<rparr>, Some m))"

definition detach_shmem :: "ipc_os \<Rightarrow> int \<Rightarrow> ipc_os" where
  "detach_shmem os shmkey = os\<lparr>attached := remove1 shmkey (attached os)\<rparr>"

definition delete_shmem :: "ipc_os \<Rightarrow> int \<Rightarrow> ipc_os \<times> int" where
  "delete_shmem os shmkey =
     (if segments os shmkey = None then (os, -1) else (os\<lparr>segments := (segments os)(shmkey := None)\<rparr>, 0))"

definition MAX_RAND_KEY_TRIES :: nat where
  "MAX_RAND_KEY_TRIES = 10"

text \<open>The keys tried are the non-zero ones among those \<^verbatim>\<open>rand()\<close> draws.\<close>

fun rand_tries :: "nat \<Rightarrow> bool \<Rightarrow> ipc_os \<Rightarrow> int list \<Rightarrow> ipc_os \<times> (int \<times> mem) option" where
  "rand_tries 0 room os rands = (os, None)"
| "rand_tries (Suc k) room os [] = (os, None)"
| "rand_tries (Suc k) room os (r # rands) =
     (if r = 0 then rand_tries (Suc k) room os rands
      else case create_shmem room os r of
             (os', Some m) \<Rightarrow> (os', Some (r, m))
           | (os', None) \<Rightarrow> rand_tries k room os' rands)"

definition create_shmem_rand :: "bool \<Rightarrow> ipc_os \<Rightarrow> int list \<Rightarrow> ipc_os \<times> (int \<times> mem) option" where
  "create_shmem_rand room os rands = rand_tries MAX_RAND_KEY_TRIES room os rands"

section \<open>Mutexes\<close>

definition plcmutex_open :: "ipc_os \<Rightarrow> u32 \<Rightarrow> bool" where
  "plcmutex_open os mutex_id \<longleftrightarrow> mutex_id \<in> mutexes os"

definition plcmutex_destroy :: "ipc_os \<Rightarrow> u32 \<Rightarrow> ipc_os \<times> int" where
  "plcmutex_destroy os mutex_id =
     (if plcmutex_open os mutex_id then (os\<lparr>mutexes := mutexes os - {mutex_id}\<rparr>, 0) else (os, -1))"

record sem_grant =
  sem_room :: bool
  sem_starts :: bool
  sem_rands :: "u32 list"

definition plcmutex_create_one :: "sem_grant \<Rightarrow> ipc_os \<Rightarrow> u32 \<Rightarrow> ipc_os \<times> int" where
  "plcmutex_create_one g os mutex_id =
     (if \<not> sem_room g \<or> mutex_id \<in> mutexes os then (os, -1)
      else let os1 = os\<lparr>mutexes := insert mutex_id (mutexes os)\<rparr>
           in if sem_starts g then (os1, 0) else (fst (plcmutex_destroy os1 mutex_id), -1))"

fun mutex_tries :: "nat \<Rightarrow> sem_grant \<Rightarrow> ipc_os \<Rightarrow> u32 list \<Rightarrow> ipc_os \<times> u32 option" where
  "mutex_tries 0 g os rands = (os, None)"
| "mutex_tries (Suc k) g os [] = (os, None)"
| "mutex_tries (Suc k) g os (r # rands) =
     (if r = 0 then mutex_tries (Suc k) g os rands
      else case plcmutex_create_one g os r of
             (os1, res) \<Rightarrow> if res = 0 then (os1, Some r) else mutex_tries k g os1 rands)"

definition PLCMUTEX_MAX_RAND_KEY_TRIES :: nat where
  "PLCMUTEX_MAX_RAND_KEY_TRIES = 10"

text \<open>The key that was taken, which the code stores in \<^verbatim>\<open>mutex_id\<close>.\<close>

definition plcmutex_create :: "sem_grant \<Rightarrow> ipc_os \<Rightarrow> ipc_os \<times> u32 option" where
  "plcmutex_create g os = mutex_tries PLCMUTEX_MAX_RAND_KEY_TRIES g os (sem_rands g)"

section \<open>Attaching the manager\<close>

text \<open>The key has been through \<^verbatim>\<open>cmm_parse_conf\<close>. The header is attached, checked and detached, then the
  whole segment. Where the second attachment fails the code detaches the header again, which is no longer
  attached.\<close>

definition cmm_init ::
  "ipc_os \<Rightarrow> cmm_proc \<Rightarrow> string option \<Rightarrow> int \<Rightarrow> ipc_os \<times> cmm_proc \<times> int" where
  "cmm_init os p mod_name confmap_key =
     (if cmm_fully_initialized p then (os, p, -1)
      else if confmap_key \<le> 0 then (os, p, -1)
      else case attach_shmem os confmap_key of
             (os1, None) \<Rightarrow> (os1, p, -1)
           | (os1, Some cmm_header) \<Rightarrow>
               if cmm_magic cmm_header \<noteq> CMM_MAGIC then (detach_shmem os1 confmap_key, p, -1)
               else case attach_shmem (detach_shmem os1 confmap_key) confmap_key of
                      (os2, None) \<Rightarrow> (os2, p, -1)
                    | (os2, Some cmm_shm) \<Rightarrow>
                        if cmm_magic cmm_shm \<noteq> CMM_MAGIC \<or> \<not> plcmutex_open os2 (rd32 cmm_shm 8)
                        then (detach_shmem os2 confmap_key, p, -1)
                        else (os2, p\<lparr>cmm_fully_initialized := True, proc_plc_id := confmap_key,
                                     proc_module_name := mod_name\<rparr>, 0))"

text \<open>The pointer to the segment is set as long as the process has a key.\<close>

definition cmm_done :: "ipc_os \<Rightarrow> cmm_proc \<Rightarrow> ipc_os \<times> cmm_proc \<times> int" where
  "cmm_done os p =
     (if 0 < proc_plc_id p then detach_shmem os (proc_plc_id p) else os,
      p\<lparr>cmm_fully_initialized := False, proc_module_name := None, proc_plc_id := -1\<rparr>, 0)"

section \<open>Setting up the segment\<close>

text \<open>The header and one free block. The subtraction in the size field is unsigned.\<close>

definition cmm_format :: "mem \<Rightarrow> u32 \<Rightarrow> u32 \<Rightarrow> mem" where
  "cmm_format m mutexid cmm_map_size =
     (let m0 = wr32 m 8 mutexid;
          m1 = wr32 m0 0 CMM_MAGIC;
          m2 = wr32 m1 4 cmm_map_size;
          m3 = wr32 m2 12 (of_nat sizeof_cmm);
          m4 = wr32 m3 16 (of_nat sizeof_cmm);
          b = unat (first_block m4);
          m5 = set_type m4 b (block_type_num block_type_free);
          m6 = set_next m5 b 0;
          m7 = set_prev m6 b 0
      in set_size m7 b (cmm_map_size - first_block m7 - of_nat sizeof_block))"

text \<open>The error exits destroy the mutex and delete the segment; none of them detaches what
  \<^verbatim>\<open>create_shmem\<close> attached.\<close>

definition cmm_setup ::
  "bool \<Rightarrow> int list \<Rightarrow> sem_grant \<Rightarrow> ipc_os \<Rightarrow> cmm_proc \<Rightarrow> int \<Rightarrow> u32 \<Rightarrow> ipc_os \<times> cmm_proc \<times> int" where
  "cmm_setup room rands grant os p cmm_map_key cmm_map_size =
     (let (os1, created) =
            (if cmm_map_key = 0 then create_shmem_rand room os rands
             else map_prod id (map_option (Pair cmm_map_key)) (create_shmem room os cmm_map_key))
      in case created of
           None \<Rightarrow> (os1, p, -1)
         | Some (key, m) \<Rightarrow>
            (case plcmutex_create grant os1 of
               (os2, None) \<Rightarrow> (fst (delete_shmem os2 key), p, -1)
             | (os2, Some mutexid) \<Rightarrow>
                 let os3 = os2\<lparr>segments := (segments os2)(key \<mapsto> cmm_format m mutexid cmm_map_size)\<rparr>;
                     (os4, p', r) = cmm_init os3 p (Some []) key
                 in if r < 0 then (fst (delete_shmem (fst (plcmutex_destroy os4 mutexid)) key), p', -1)
                    else (os4, p', 0)))"

text \<open>\<open>mutex_id\<close> is what the process reads through \<^verbatim>\<open>cmm_mutex_id_ptr\<close>.\<close>

definition cmm_shutdown :: "u32 option \<Rightarrow> ipc_os \<Rightarrow> cmm_proc \<Rightarrow> ipc_os \<times> int" where
  "cmm_shutdown mutex_id os p =
     (let key = cmm_plc_id p
      in if key < 0 then (os, -1)
         else let (os1, r1) = (case mutex_id of None \<Rightarrow> (os, 0) | Some i \<Rightarrow> plcmutex_destroy os i);
                  (os2, r2) = delete_shmem os1 key
              in (os2, if r1 < 0 \<or> r2 < 0 then -1 else 0))"

section \<open>What creating leaves\<close>

lemma rand_tries_result:
  "rand_tries k room os rands = (os', r) \<Longrightarrow>
     (case r of None \<Rightarrow> os' = os
      | Some (key, m) \<Rightarrow> segments os key = None \<and> m = (\<lambda>_. 0) \<and>
          os' = os\<lparr>segments := (segments os)(key \<mapsto> (\<lambda>_. 0)), attached := key # attached os\<rparr>)"
  by (induction k room os rands rule: rand_tries.induct)
    (auto simp: create_shmem_def split: if_splits)

lemma created_segment:
  assumes "(if k = 0 then create_shmem_rand room os rands
      else map_prod id (map_option (Pair k)) (create_shmem room os k)) = (os1, c)"
  shows "case c of None \<Rightarrow> os1 = os
    | Some (key, m) \<Rightarrow> segments os key = None \<and> m = (\<lambda>_. 0) \<and>
        os1 = os\<lparr>segments := (segments os)(key \<mapsto> (\<lambda>_. 0)), attached := key # attached os\<rparr>"
  using assms rand_tries_result [of MAX_RAND_KEY_TRIES room os rands os1 c]
  by (auto simp: create_shmem_rand_def create_shmem_def split: if_splits option.splits prod.splits)

lemma mutex_one_result:
  "plcmutex_create_one g os i = (os', r) \<Longrightarrow>
     r = -1 \<and> os' = os \<or> r = 0 \<and> i \<notin> mutexes os \<and> os' = os\<lparr>mutexes := insert i (mutexes os)\<rparr>"
  by (auto simp: plcmutex_create_one_def plcmutex_destroy_def plcmutex_open_def Let_def split: if_splits)

lemma mutex_created:
  assumes "plcmutex_create g os = (os', c)"
  shows "case c of None \<Rightarrow> os' = os
    | Some i \<Rightarrow> i \<notin> mutexes os \<and> os' = os\<lparr>mutexes := insert i (mutexes os)\<rparr>"
proof -
  have "mutex_tries k g os rands = (os', c) \<Longrightarrow> ?thesis" for k rands
    by (induction k g os rands rule: mutex_tries.induct)
      (auto split: if_splits prod.splits dest!: mutex_one_result)
  then show ?thesis using assms by (simp add: plcmutex_create_def)
qed

lemma mutex_taken_back:
  "i \<notin> mutexes os \<Longrightarrow> mutexes os' = insert i (mutexes os) \<Longrightarrow>
     fst (plcmutex_destroy os' i) = os'\<lparr>mutexes := mutexes os\<rparr>"
  by (simp add: plcmutex_destroy_def plcmutex_open_def)

lemma segment_taken_back:
  "segments os key = None \<Longrightarrow> segments os' = (segments os)(key \<mapsto> x) \<Longrightarrow>
     fst (delete_shmem os' key) = os'\<lparr>segments := segments os\<rparr>"
  by (simp add: delete_shmem_def fun_upd_idem)

lemma cmm_init_result:
  "cmm_init os p name key = (os', p', r) \<Longrightarrow> r = -1 \<and> os' = os \<and> p' = p \<or>
     r = 0 \<and> 0 < key \<and> os' = os\<lparr>attached := key # attached os\<rparr> \<and> cmm_fully_initialized p' \<and> cmm_plc_id p' = key"
  by (auto simp: cmm_init_def attach_shmem_def detach_shmem_def plcmutex_open_def cmm_plc_id_def
    split: if_splits option.splits)

lemma format_fields:
  "cmm_magic (cmm_format m x z) = CMM_MAGIC" "confmap_size (cmm_format m x z) = z"
  "first_block (cmm_format m x z) = 20" "last_block (cmm_format m x z) = 20"
  "blk_type (cmm_format m x z) 20 = 1" "blk_next (cmm_format m x z) 20 = 0"
  "blk_prev (cmm_format m x z) 20 = 0" "blk_size (cmm_format m x z) 20 = z - 68"
  by (simp_all add: cmm_format_def blk_defs Let_def mem_simps)

lemma format_chain:
  assumes "68 \<le> z"
  shows "cmm_chain (cmm_format m x z) [20]"
proof -
  have "unat (z - 68) = unat z - 68" using assms by (simp add: unat_sub)
  moreover have "68 \<le> unat z" using assms by (simp add: word_le_nat_alt)
  ultimately show ?thesis
    by (simp add: cmm_chain_def format_fields sizeof_cmm_def blk_end_def sizeof_block_def)
qed

end
