(* ===== verification/CmmProps.thy ===== *)
theory CmmProps
  imports CmmSetup
begin

text \<open>
  What the configuration memory manager does for its callers, and where its back links let
  it down. The theorems are stated on the calls of \<^verbatim>\<open>CmmApi\<close> and
  \<^verbatim>\<open>CmmSetup\<close>, over any chain of blocks.
\<close>

section \<open>Handing out, looking up, giving back\<close>

lemma ptr_and_size_iff [simp]:
  "ptr_and_size r = (None, z) \<longleftrightarrow> r = None \<and> z = 0"
  "ptr_and_size r = (Some a, z) \<longleftrightarrow> r = Some (a, z)"
  by (cases r; auto simp: ptr_and_size_def)+

lemma take_end:
  assumes "20 \<le> b" "n \<le> blk_size m b"
  shows "blk_end (cmm_take m b t s n) b \<le> blk_end m b"
  using take_fields(9) [OF assms, of t s] assms(2)
  by (simp add: blk_end_def word_le_nat_alt)

text \<open>C1. On a tiled segment \<^verbatim>\<open>cmm_block_alloc\<close> returns: either it hands out the best
  fitting free block, zeroed, marked and big enough but at most 48 bytes bigger, the segment
  is still tiled, and no byte of any other block changed; or no free block is big enough and
  nothing changed.\<close>

theorem cmm_alloc_correct:
  assumes "cmm_chain m bs" "cmm_fully_initialized p" "n \<noteq> 0"
  shows "\<exists>m' r. cmm_block_alloc p m t (Some s) n = Some (m', r) \<and>
    (case r of
       None \<Rightarrow> m' = m \<and> (\<forall>b \<in> set bs. \<not> suits m n b)
     | Some a \<Rightarrow> \<exists>b bs'. a = b + sizeof_block \<and> best_fit m n bs (Some b) \<and>
         cmm_chain m' bs' \<and> set bs \<subseteq> set bs' \<and>
         blk_type m' b = block_type_num t \<and> n \<le> blk_size m' b \<and>
         unat (blk_size m' b) \<le> unat n + 48 \<and> blk_end m' b \<le> blk_end m b \<and>
         (\<forall>i < unat n. m' (a + i) = 0) \<and>
         (\<forall>c \<in> set bs - {b}. agree_on m m' c (blk_end m c)))"
proof (cases rule: alloc_cases [OF assms(1), of t s n])
  case 1
  then show ?thesis using alloc_ready [OF assms(2,3)] by (simp add: best_fit_def)
next
  case (2 b)
  have b: "20 \<le> b" "n \<le> blk_size m b"
    using chain_bounds(1) [OF assms(1) 2(3)] 2(4) by (auto simp: suits_def)
  note f = take_fields [OF b, where t = t and s = s]
  have z: "\<forall>i < unat n. cmm_take m b t s n (b + 48 + i) = 0" using f(8) by blast
  have sub: "\<forall>c \<in> set bs. c \<in> set (chain_take m bs b n)"
    using chain_take_old [OF 2(3)] by blast
  from z sub show ?thesis
    using alloc_ready [OF assms(2,3)] 2 f(1) take_size_bounds [OF b] take_end [OF b]
      take_other [OF assms(1) 2(3) b(2)] chain_take_chain [OF assms(1) 2(3) b(2)]
    by (auto simp: sizeof_block_def intro!: exI [of _ b] exI [of _ "chain_take m bs b n"])
qed

definition m_fresh :: mem where
  "m_fresh = cmm_format (\<lambda>_. 0) 0 500"

definition p_ready :: cmm_proc where
  "p_ready = \<lparr>cmm_fully_initialized = True, proc_plc_id = 23, proc_module_name = None\<rparr>"

lemma fresh_chain: "cmm_chain m_fresh [20]"
  unfolding m_fresh_def by (rule format_chain) simp

lemma p_ready_init [simp]: "cmm_fully_initialized p_ready"
  by (simp add: p_ready_def)

lemma cmm_alloc_correct_witness:
  "\<exists>m' b. cmm_block_alloc p_ready m_fresh block_type_gmm (Some ''x'') 100 = Some (m', Some (b + 48))
    \<and> best_fit m_fresh 100 [20] (Some b)"
proof -
  have "suits m_fresh 100 20" by (simp add: suits_def m_fresh_def format_fields)
  then show ?thesis
    using cmm_alloc_correct [OF fresh_chain p_ready_init, of 100 block_type_gmm "''x''"]
    by (auto simp: sizeof_block_def split: option.splits)
qed

text \<open>C2. A block that no block of its type and name preceded is found again under that type
  and name, at the address that was handed out and with a size between what was asked for and
  48 bytes more; no other type and name changes its answer.\<close>

theorem cmm_alloc_find:
  assumes "cmm_inv m" "cmm_fully_initialized p" "n \<noteq> 0" "usable t s"
    and "cmm_block_find p m t (Some s) = Some (None, 0)"
    and "cmm_block_alloc p m t (Some s) n = Some (m', Some a)"
  shows "(\<exists>z. cmm_block_find p m' t (Some s) = Some (Some a, z) \<and> n \<le> z \<and> unat z \<le> unat n + 48)
    \<and> (\<forall>t' s'. usable t' s' \<longrightarrow> (t', s') \<noteq> (t, s) \<longrightarrow>
      cmm_block_find p m' t' (Some s') = cmm_block_find p m t' (Some s'))"
proof (intro conjI allI impI)
  have new: "cmm_alloc_mem m t s n = Some (m', Some a)"
    using assms(6) alloc_ready [OF assms(2,3)] by simp
  have "cmm_find_mem m t s = Some None"
    using assms(2,5) store.look_returns [OF assms(1), of t s]
    by (auto simp: cmm_block_find_def)
  from store.look_new [OF assms(1) new assms(4) this]
  show "\<exists>z. cmm_block_find p m' t (Some s) = Some (Some a, z) \<and> n \<le> z \<and> unat z \<le> unat n + 48"
    using assms(2) by (auto simp: cmm_block_find_def)
  show "cmm_block_find p m' t' (Some s') = cmm_block_find p m t' (Some s')"
    if "usable t' s'" "(t', s') \<noteq> (t, s)" for t' s'
    using store.look_other [OF assms(1) new assms(4) that] by (simp add: cmm_block_find_def)
qed

lemma fresh_inv: "cmm_inv m_fresh"
  using fresh_chain by (auto simp: cmm_inv_def)

lemma fresh_find: "t \<noteq> block_type_free \<Longrightarrow> cmm_block_find p_ready m_fresh t (Some s) = Some (None, 0)"
proof -
  assume "t \<noteq> block_type_free"
  then have "\<not> answers m_fresh t s 20" using block_type_num_inj [of block_type_free t]
    by (auto simp: answers_def m_fresh_def format_fields)
  then show ?thesis by (simp add: cmm_block_find_def chain_find' [OF fresh_chain])
qed

lemma fresh_alloc:
  assumes "n \<le> 432"
  shows "\<exists>m'. cmm_alloc_mem m_fresh t s n = Some (m', Some 68)"
proof -
  have "suits m_fresh n 20" using assms by (simp add: suits_def m_fresh_def format_fields)
  then show ?thesis
    by (cases rule: alloc_cases [OF fresh_chain, of t s n]) (auto simp: best_fit_def)
qed

lemma cmm_alloc_find_witness:
  "\<exists>m' z. cmm_block_find p_ready m' block_type_gmm (Some ''x'') = Some (Some 68, z)"
proof -
  obtain m' where "cmm_block_alloc p_ready m_fresh block_type_gmm (Some ''x'') 100 = Some (m', Some 68)"
    using fresh_alloc [of 100 block_type_gmm "''x''"] alloc_ready [OF p_ready_init, of 100] by auto
  moreover have "usable block_type_gmm ''x''"
    by (simp add: usable_def CMM_NAME_MAX_LEN_def c_string_def)
  ultimately show ?thesis
    using cmm_alloc_find [OF fresh_inv p_ready_init _ _ fresh_find, of 100 block_type_gmm "''x''" m' 68]
    by auto
qed

text \<open>C3. Giving back a block whose back link is absent, right, or points to a block in use
  keeps the segment tiled and every byte of every other block in use; any other
  pointer is refused and nothing changes.\<close>

theorem cmm_free_correct:
  assumes "cmm_chain m bs" "cmm_fully_initialized p"
  shows "(\<forall>b \<in> set bs. back_link_ok m bs b \<longrightarrow>
      (\<exists>m' bs'. cmm_block_free p m (Some (b + sizeof_block)) = Some (m', 0) \<and>
         cmm_chain m' bs' \<and> set bs' \<subseteq> set bs \<and>
         (\<forall>c \<in> set bs - {b}. \<not> is_free m c \<longrightarrow> c \<in> set bs' \<and> agree_on m m' c (blk_end m c))))
    \<and> (\<forall>a. (\<forall>b \<in> set bs. a \<noteq> b + sizeof_block) \<longrightarrow> cmm_block_free p m (Some a) = Some (m, -1))"
proof (intro conjI ballI allI impI)
  fix b
  assume b: "b \<in> set bs" "back_link_ok m bs b"
  then have "cmm_block_free p m (Some (b + sizeof_block)) = Some (free_merged m b, 0)"
    using assms free_chain [OF assms(1)] by (auto simp: cmm_block_free_def sizeof_block_def)
  then show "\<exists>m' bs'. cmm_block_free p m (Some (b + sizeof_block)) = Some (m', 0) \<and>
         cmm_chain m' bs' \<and> set bs' \<subseteq> set bs \<and>
         (\<forall>c \<in> set bs - {b}. \<not> is_free m c \<longrightarrow> c \<in> set bs' \<and> agree_on m m' c (blk_end m c))"
    using free_merged_chain [OF assms(1) b] by auto
next
  fix a
  assume "\<forall>b \<in> set bs. a \<noteq> b + sizeof_block"
  then show "cmm_block_free p m (Some a) = Some (m, -1)"
    using assms free_chain [OF assms(1)] by (auto simp: cmm_block_free_def sizeof_block_def)
qed

lemma cmm_free_correct_witness:
  "\<exists>m'. cmm_block_free p_ready m_fresh (Some 68) = Some (m', 0)"
proof -
  have "back_link_ok m_fresh [20] 20" by (simp add: back_link_ok_def m_fresh_def format_fields)
  then show ?thesis
    using cmm_free_correct [OF fresh_chain p_ready_init] by (auto simp: sizeof_block_def)
qed

lemma chain_count_get:
  assumes "cmm_chain m bs" "cmm_fully_initialized p" "length bs < 2 ^ 32"
  shows "cmm_block_count p m t =
      Some (int (length (filter (\<lambda>b. blk_type m b = block_type_num t) bs)))
    \<and> cmm_block_get p m t i = Some
      (let fs = filter (\<lambda>b. blk_type m b = block_type_num t) bs
       in if unat i < length fs
          then (Some (fs ! unat i + sizeof_block), blk_size m (fs ! unat i), Some (fs ! unat i + 4))
          else (None, 0, None))"
proof
  show "cmm_block_count p m t =
      Some (int (length (filter (\<lambda>b. blk_type m b = block_type_num t) bs)))"
    using assms by (simp add: cmm_block_count_def chain_iter iter_count)
next
  let ?fs = "filter (\<lambda>b. blk_type m b = block_type_num t) bs"
  have z: "0 \<notin> set bs" using chain_bounds(1) [OF assms(1), of 0] by auto
  have nz: "?fs ! k \<noteq> 0" if "k < length ?fs" for k
  proof -
    have "?fs ! k \<in> set bs" using nth_mem [OF that] by simp
    then show ?thesis using z by metis
  qed
  obtain j k where r: "iter_list (get_index_body m t) bs i = (j, k)"
    by (cases "iter_list (get_index_body m t) bs i")
  have "int (length bs) < 2 ^ 32" using assms(3) by simp
  from iter_get_index [OF this z, of m t i]
  have "k = (if unat i < length ?fs then ?fs ! unat i else 0)" by (simp add: r Let_def)
  then show "cmm_block_get p m t i = Some (let fs = ?fs in if unat i < length fs
          then (Some (fs ! unat i + sizeof_block), blk_size m (fs ! unat i), Some (fs ! unat i + 4))
          else (None, 0, None))"
    using assms nz [of "unat i"]
    by (auto simp: cmm_block_get_def cmm_get_mem_def chain_iter r Let_def)
qed

text \<open>Counting and indexing a tiled segment read the chain: the count of a type is the
  number of its blocks, and index \<open>i\<close> is the \<open>i\<close>-th of them, or nothing.\<close>

theorem cmm_count_get:
  assumes "cmm_chain m bs" "cmm_fully_initialized p" "length bs < 2 ^ 32"
  shows "cmm_block_count p m t =
      Some (int (length (filter (\<lambda>b. blk_type m b = block_type_num t) bs)))
    \<and> cmm_block_get p m t i = Some
      (let fs = filter (\<lambda>b. blk_type m b = block_type_num t) bs
       in if unat i < length fs
          then (Some (fs ! unat i + sizeof_block), blk_size m (fs ! unat i), Some (fs ! unat i + 4))
          else (None, 0, None))"
  by (rule chain_count_get [OF assms])

lemma cmm_count_get_witness: "cmm_block_count p_ready m_fresh block_type_free = Some 1"
  using cmm_count_get [OF fresh_chain p_ready_init, of block_type_free 0]
  by (simp add: m_fresh_def format_fields)

section \<open>Creating and removing the segment\<close>

text \<open>C4. \<^verbatim>\<open>cmm_setup\<close> fails in one of two ways: without a new segment it changes nothing; once
  it has created one, it takes back the segment and the mutex and leaves the process record alone, but stays
  attached to the deleted segment. When it succeeds there is exactly one new segment, under a positive key
  that was not in use, and exactly one new mutex, whose key is in the header; the process is attached
  to the segment twice, and, if the configured size holds the two headers, the segment is tiled by one free block.\<close>

theorem cmm_setup_all_or_nothing:
  assumes "cmm_setup room rands grant os p key0 sz = (os', p', r)"
  shows "r = -1 \<and> p' = p \<and> (os' = os \<or> (\<exists>key. segments os key = None \<and> os' = os\<lparr>attached := key # attached os\<rparr>)) \<or>
    r = 0 \<and> (\<exists>key m i. 0 < key \<and> segments os key = None \<and> i \<notin> mutexes os \<and>
      os' = os\<lparr>segments := (segments os)(key \<mapsto> m), mutexes := insert i (mutexes os), attached := key # key # attached os\<rparr> \<and>
      cmm_fully_initialized p' \<and> cmm_plc_id p' = key \<and> rd32 m 8 = i \<and> confmap_size m = sz \<and>
      (68 \<le> sz \<longrightarrow> cmm_chain m [20]))"
proof -
  obtain os1 c where c: "(if key0 = 0 then create_shmem_rand room os rands
             else map_prod id (map_option (Pair key0)) (create_shmem room os key0)) = (os1, c)"
    by (metis surj_pair)
  show ?thesis
  proof (cases c)
    case None
    then show ?thesis using assms c created_segment [OF c] by (simp add: cmm_setup_def)
  next
    case (Some km)
    obtain key m where km: "km = (key, m)" by force
    have new: "segments os key = None"
      "os1 = os\<lparr>segments := (segments os)(key \<mapsto> (\<lambda>_. 0)), attached := key # attached os\<rparr>"
      using created_segment [OF c] Some km by auto
    obtain os2 mx where mx: "plcmutex_create grant os1 = (os2, mx)" by force
    note run = assms [unfolded cmm_setup_def c Some km Let_def prod.case option.case mx]
    show ?thesis
    proof (cases mx)
      case None
      then show ?thesis using run mutex_created [OF mx] new by (auto simp: segment_taken_back [OF new(1)])
    next
      case (Some i)
      have os2: "i \<notin> mutexes os" "os2 = os1\<lparr>mutexes := insert i (mutexes os)\<rparr>"
        using mutex_created [OF mx] Some new by auto
      let ?f = "cmm_format m i sz"
      let ?os3 = "os2\<lparr>segments := (segments os2)(key \<mapsto> ?f)\<rparr>"
      obtain os4 p4 r4 where i: "cmm_init ?os3 p (Some []) key = (os4, p4, r4)" by (metis prod_cases3)
      have f8: "rd32 ?f 8 = i" by (simp add: cmm_format_def blk_defs Let_def mem_simps)
      from cmm_init_result [OF i] show ?thesis
      proof (elim disjE conjE)
        assume "r4 = -1" "os4 = ?os3" "p4 = p"
        then have "(os', p', r) = (os\<lparr>attached := key # attached os\<rparr>, p, -1)"
          using run Some i os2 new by (simp add: mutex_taken_back [OF os2(1)] segment_taken_back [OF new(1)])
        then show ?thesis using new(1) by auto
      next
        assume a: "r4 = 0" "0 < key" "os4 = ?os3\<lparr>attached := key # attached ?os3\<rparr>" "cmm_fully_initialized p4" "cmm_plc_id p4 = key"
        then have "(os', p', r) = (os\<lparr>segments := (segments os)(key \<mapsto> ?f), mutexes := insert i (mutexes os),
            attached := key # key # attached os\<rparr>, p4, 0)"
          using run Some i os2 new by (cases os) simp
        then show ?thesis using new(1) os2(1) a f8 format_chain [of sz m i]
          by (intro disjI2 conjI exI [of _ key] exI [of _ ?f] exI [of _ i]) (auto simp: format_fields)
      qed
    qed
  qed
qed

text \<open>Without a free mutex the segment goes away again, but the attachment stays.\<close>

lemma no_mutex: "mutex_tries k g os [] = (os, None)"
  by (cases k) simp_all

lemma cmm_setup_all_or_nothing_witness:
  "\<exists>os'. cmm_setup True [] \<lparr>sem_room = True, sem_starts = True, sem_rands = []\<rparr>
     \<lparr>segments = Map.empty, mutexes = {}, attached = []\<rparr> p_ready 23 500 = (os', p_ready, -1) \<and>
     segments os' = Map.empty \<and> mutexes os' = {} \<and> attached os' = [23]"
proof -
  let ?g = "\<lparr>sem_room = True, sem_starts = True, sem_rands = []\<rparr>"
    and ?os = "\<lparr>segments = Map.empty, mutexes = {}, attached = []\<rparr> :: ipc_os"
  obtain os' p' r where c: "cmm_setup True [] ?g ?os p_ready 23 500 = (os', p', r)" by (metis prod_cases3)
  have "r = -1 \<and> attached os' = [23]" using c
    by (auto simp: cmm_setup_def create_shmem_def plcmutex_create_def no_mutex delete_shmem_def)
  then show ?thesis using cmm_setup_all_or_nothing [OF c] c by auto
qed

text \<open>The configured size is only required to be positive. Below 68 bytes the size field of
  the first block wraps around: the segment claims four gigabytes, and an allocation is handed
  memory that starts at or after the end of the segment.\<close>

theorem cmm_format_small:
  assumes "0 < sz" "sz < 68" "n \<noteq> 0" "unat n + 48 + 68 < 4294967296"
  shows "unat (blk_size (cmm_format m mid sz) 20) = 4294967228 + unat sz
    \<and> (\<exists>m'. cmm_alloc_mem (cmm_format m mid sz) t s n = Some (m', Some 68))
    \<and> unat (confmap_size (cmm_format m mid sz)) \<le> 68"
proof -
  let ?f = "cmm_format m mid sz"
  have s: "unat sz < 68" using assms(2) by (simp add: word_less_nat_alt)
  have "unat (sz - 68) = 4294967228 + unat sz"
    using s by (simp add: unat_sub_if')
  moreover from this have "n \<le> sz - 68"
    using assms(4) by (simp add: word_le_nat_alt)
  moreover have "cmm_iter ?f (best_fit_body ?f n) 20 None = Some (Some 20, 0)"
    using calculation(2) by (subst cmm_iter.simps) (simp add: format_fields best_fit_body_def)
  ultimately show ?thesis
    using s by (simp add: format_fields cmm_alloc_mem_def sizeof_block_def)
qed

lemma cmm_format_small_witness:
  "unat (confmap_size (cmm_format (\<lambda>_. 0) 0 10)) \<le> 68 \<and>
   (\<exists>m'. cmm_alloc_mem (cmm_format (\<lambda>_. 0) 0 10) block_type_gmm ''x'' 4 = Some (m', Some 68))"
  using cmm_format_small [of 10 4 "\<lambda>_. 0" 0 block_type_gmm "''x''"] by simp

section \<open>Stale back links\<close>

datatype cmm_call = Alloc u32 | Free nat

fun cmm_run :: "mem \<Rightarrow> cmm_call list \<Rightarrow> (mem \<times> nat option list) option" where
  "cmm_run m [] = Some (m, [])"
| "cmm_run m (Alloc n # cs) =
     (case cmm_block_alloc p_ready m block_type_gmm (Some ''x'') n of
        None \<Rightarrow> None
      | Some (m', r) \<Rightarrow> map_option (\<lambda>(m2, rs). (m2, r # rs)) (cmm_run m' cs))"
| "cmm_run m (Free a # cs) =
     (case cmm_block_free p_ready m (Some a) of
        None \<Rightarrow> None
      | Some (m', r) \<Rightarrow> cmm_run m' cs)"

lemmas run_simps = cmm_block_alloc_def cmm_block_free_def
  cmm_alloc_mem_def cmm_free_mem_def cmm_take_def cmm_split_def
  cmm_merge_free_blocks_def merge_pair_def best_fit_body_def find_ptr_body_def blk_defs Let_def

text \<open>The allocator can hand out memory that is in use. Breaking up a block does not update
  the back link of the block that follows; freeing that block later merges it with a block that
  is no longer its neighbour, over the live blocks between them. In this run every pointer that
  is freed was handed out and is freed once; the block at 124 (44 bytes) is
  never freed, and the last call hands out 20 bytes at 136, inside it.\<close>

theorem cmm_overlap:
  "map_option snd (cmm_run m_fresh
     [Alloc 100, Alloc 8, Free 68, Alloc 8, Alloc 44, Free 68, Free 216, Alloc 20, Alloc 20])
   = Some [Some 68, Some 216, Some 68, Some 124, Some 68, Some 136]"
  by (simp add: m_fresh_def cmm_format_def run_simps cmm_iter.simps mem_simps)

text \<open>Two free blocks can follow each other, although \<^verbatim>\<open>cmm_private.h\<close>
  promises that they never do.\<close>

theorem cmm_two_free_neighbours:
  "\<exists>m rs. cmm_run m_fresh [Alloc 100, Alloc 8, Free 68, Alloc 8, Free 216] = Some (m, rs)
    \<and> is_free m 76 \<and> is_free m (unat (blk_next m 76)) \<and> blk_next m 76 = 168"
  by (simp add: m_fresh_def cmm_format_def run_simps cmm_iter.simps mem_simps is_free_def)

end
