(* ===== verification/SynchSemProps.thy ===== *)
theory SynchSemProps
  imports SynchSemWake CmmProps
begin

text \<open>
  The properties of the semaphore sets of \<^verbatim>\<open>lib/synch/synch_sem.c\<close>: what one call
  does (\<open>plcsynchsem_refines\<close>), that no wake-up is lost
  (\<open>synchsem_no_lost_wakeup\<close>), and what the creation of a set leaves when it fails.
\<close>

section \<open>A set in use\<close>

text \<open>Set 200 has the value 1; process 300 of priority 1 sleeps until it can take 2, and process
  400 of priority 2 puts 1.\<close>

definition l_at :: "int \<Rightarrow> u32 \<Rightarrow> plcsynchsem_local" where
  "l_at prio a = \<lparr>localpsem = 0, globalsem_ptr = 200, priority = word_of_int prio,
     list_next = 0, list_prev = 0, blocked_parm = a, blocked_parm_count = 1\<rparr>"

definition sem_parms :: "u32 \<Rightarrow> nat \<Rightarrow> plcsynchsem_parm" where
  "sem_parms a i = \<lparr>sem_num = 0, sem_flg = 0, sem_op = (if a = 100 then -2 else 1)\<rparr>"

definition s_two :: synchsem_state where
  "s_two = \<lparr>ss_global = (\<lambda>_. \<lparr>num_sem = 1, blocked_list_first = 300, sem_values = [1]\<rparr>),
     ss_local = (\<lambda>x. if x = 300 then l_at 1 100 else l_at 2 0),
     ss_parm = sem_parms\<rparr>"

definition s_idle :: synchsem_state where
  "s_idle = s_two\<lparr>ss_global := (\<lambda>_. \<lparr>num_sem = 1, blocked_list_first = 0, sem_values = [1]\<rparr>)\<rparr>"

lemma chk_fresh: "cmm_checkptr p_ready m_fresh 100 = 1" "cmm_checkptr p_ready m_fresh 108 = 1"
proof -
  have "uint (confmap_size m_fresh) = 500"
    by (simp add: m_fresh_def format_fields)
  then show "cmm_checkptr p_ready m_fresh 100 = 1" "cmm_checkptr p_ready m_fresh 108 = 1"
    by (simp_all add: cmm_checkptr_def)
qed

lemma upt_one: "[0..<nat (sint (1 :: i32))] = [0]"
  by simp

section \<open>One call\<close>

text \<open>C6. A call of \<^verbatim>\<open>plcsynchsem_synch\<close> on a set with a well-linked list of
  sleepers does what the abstract operation \<open>a_synch\<close> says: the request is done as a whole
  and then every sleeper that can go on, highest priority first and again from the start after
  each, is taken off the list and posted once; or no value changes and the caller is refused,
  when the operation that cannot be done has a flag, or put on the list behind those of its own
  and of higher priority. The links represent the new list; other sets and other processes are
  untouched.\<close>

theorem plcsynchsem_refines:
  assumes "cmm_checkptr p m parm = 1"
    and "sem_linked s (globalsem_ptr (ss_local s sem)) bs"
    and "sem \<notin> set bs" "sem \<noteq> 0"
    and "reqs_ok (length (sem_values (ss_global s (globalsem_ptr (ss_local s sem)))))
      (parm_list (ss_parm s) (with_request s sem parm n sem))"
    and "a_synch (\<lambda>b. parm_list (ss_parm s) (with_request s sem parm n b))
        (prio_of (with_request s sem parm n)) sem
        (sem_values (ss_global s (globalsem_ptr (ss_local s sem)))) bs = (vs', bs', rs, out)"
  shows "\<exists>s'. plcsynchsem_synch p m s sem parm n = Some (s', out) \<and>
    sem_values (ss_global s' (globalsem_ptr (ss_local s sem))) = vs' \<and>
    dll (ss_local s') (blocked_list_first (ss_global s' (globalsem_ptr (ss_local s sem)))) bs' \<and>
    (\<forall>x. localpsem (ss_local s' x) = localpsem (ss_local s x) + (if x \<in> set rs then 1 else 0)) \<and>
    (\<forall>g. g \<noteq> globalsem_ptr (ss_local s sem) \<longrightarrow> ss_global s' g = ss_global s g) \<and>
    (\<forall>x. x \<notin> insert sem (set bs) \<longrightarrow> ss_local s' x = ss_local s x)"
proof -
  let ?gp = "globalsem_ptr (ss_local s sem)" and ?st = "with_request s sem parm n"
  obtain f st1 st2 where r: "plcsynchsem_synch p m s sem parm n =
      Some (s\<lparr>ss_global := (ss_global s)(?gp := (ss_global s ?gp)\<lparr>sem_values := vs', blocked_list_first := f\<rparr>),
              ss_local := st2\<rparr>, out)"
    "dll st2 f bs'" "same_but_links (insert sem (set bs)) ?st st1"
    "st2 = (\<lambda>x. if x \<in> set rs then (st1 x)\<lparr>localpsem := localpsem (st1 x) + 1\<rparr> else st1 x)"
    using synch_refines [OF assms(1,2) refl assms(3,4) refl assms(5,6)] by blast
  have l: "localpsem (?st x) = localpsem (ss_local s x)" "x \<noteq> sem \<Longrightarrow> ?st x = ss_local s x" for x
    by (simp_all add: with_request_def)
  have "distinct bs" using assms(2) by (simp add: sem_linked_def dll_def)
  then have "set rs \<subseteq> set bs"
    using assms(6) by (auto simp: a_synch_def split: option.splits prod.splits if_splits
      dest: a_release_props(4))
  then have "\<forall>x. x \<notin> insert sem (set bs) \<longrightarrow> st2 x = ss_local s x"
    using same_but_links_other [OF r(3)] l(2) by (auto simp: r(4))
  moreover have "\<forall>x. localpsem (st2 x) = localpsem (ss_local s x) + (if x \<in> set rs then 1 else 0)"
    using same_but_links_fields(2) [OF r(3)] l(1) by (simp add: r(4))
  ultimately show ?thesis using r(1,2) by simp
qed

lemma s_two_linked: "sem_linked s_two (globalsem_ptr (ss_local s_two 400)) [300]"
  by (simp add: sem_linked_def s_two_def dll_def l_at_def sem_parms_def parm_list_def)

lemma plcsynchsem_refines_witness:
  "\<exists>s'. plcsynchsem_synch p_ready m_fresh s_two 400 108 1 = Some (s', Returns 0) \<and>
    sem_values (ss_global s' 200) = [0] \<and> dll (ss_local s') (blocked_list_first (ss_global s' 200)) [] \<and>
    (\<forall>x. localpsem (ss_local s' x) = localpsem (ss_local s_two x) + (if x \<in> set [300] then 1 else 0)) \<and>
    (\<forall>g. g \<noteq> 200 \<longrightarrow> ss_global s' g = ss_global s_two g) \<and>
    (\<forall>x. x \<notin> insert 400 (set [300]) \<longrightarrow> ss_local s' x = ss_local s_two x)"
proof -
  have gp: "globalsem_ptr (ss_local s_two 400) = 200" by (simp add: s_two_def l_at_def)
  have ok: "reqs_ok (length (sem_values (ss_global s_two (globalsem_ptr (ss_local s_two 400)))))
      (parm_list (ss_parm s_two) (with_request s_two 400 108 1 400))"
    by (simp add: with_request_def s_two_def l_at_def sem_parms_def parm_list_def)
  have q4: "parm_list (ss_parm s_two) (with_request s_two 400 108 1 400) =
      [\<lparr>sem_num = 0, sem_flg = 0, sem_op = 1\<rparr>]"
    by (simp add: with_request_def s_two_def l_at_def sem_parms_def parm_list_def)
  have q3: "parm_list (ss_parm s_two) (with_request s_two 400 108 1 300) =
      [\<lparr>sem_num = 0, sem_flg = 0, sem_op = -2\<rparr>]"
    by (simp add: with_request_def s_two_def l_at_def sem_parms_def parm_list_def)
  have rel: "a_release (\<lambda>b. parm_list (ss_parm s_two) (with_request s_two 400 108 1 b)) [2] [300] = ([0], [], [300])"
    by (rule a_release_some [where ?vs1.0 = "[0]"]) (simp_all add: q3 a_release_none)
  have "a_synch (\<lambda>b. parm_list (ss_parm s_two) (with_request s_two 400 108 1 b))
        (prio_of (with_request s_two 400 108 1)) 400
        (sem_values (ss_global s_two (globalsem_ptr (ss_local s_two 400)))) [300] =
      ([0], [], [300], Returns 0)"
    using rel by (simp add: a_synch_def q4) (simp add: s_two_def)
  from plcsynchsem_refines [OF chk_fresh(2) s_two_linked _ _ ok this] show ?thesis
    by (simp add: gp)
qed

section \<open>Sleeping and waking\<close>

lemma sleepers_listed:
  assumes "sem_inv (s, A)"
  shows "\<exists>bs. sem_linked s gp bs \<and> sorted_wrt (\<lambda>x y. prio_of (ss_local s) x \<ge> prio_of (ss_local s) y) bs \<and>
    set bs = {x \<in> A. globalsem_ptr (ss_local s x) = gp \<and> localpsem (ss_local s x) = 0}"
proof -
  obtain L where L: "\<And>gp. sleepers_ok s gp (L gp)"
      "\<And>x. x \<in> A \<longleftrightarrow> (\<exists>gp. x \<in> set (L gp)) \<or> localpsem (ss_local s x) = 1"
    using assms unfolding sem_inv_def fst_conv snd_conv by metis
  have "x \<in> set (L gp) \<longleftrightarrow> x \<in> A \<and> globalsem_ptr (ss_local s x) = gp \<and> localpsem (ss_local s x) = 0" for x
    using L(1) L(2) [of x] unfolding sleepers_ok_def by (metis zero_neq_one)
  then show ?thesis using L(1) [of gp] unfolding sleepers_ok_def by blast
qed

text \<open>C7. In every reachable state of the processes that share the sets, a process that sleeps
  in \<^verbatim>\<open>plcsynchsem_synch\<close> either has been posted, once, so that its call can return 0,
  or its request cannot be done with the values the set has now: no wake-up is lost. The list of every set
  is linked in both directions, sorted by priority, and holds exactly the processes that sleep on that set and have not been
  posted. And every call made in such a state comes to an end: the list is not circular, each round of
  \<^verbatim>\<open>release_all_processes\<close> takes one process off it.\<close>

theorem synchsem_no_lost_wakeup:
  assumes "sem_reach p m (s, A)"
  shows "(\<forall>x\<in>A. localpsem (ss_local s x) = 1 \<and> (\<exists>s'. sem_wake s x = Some (s', 0)) \<or>
      sem_run (parm_list (ss_parm s) (ss_local s x))
        (sem_values (ss_global s (globalsem_ptr (ss_local s x)))) = None) \<and>
    (\<forall>gp. \<exists>bs. sem_linked s gp bs \<and> sorted_wrt (\<lambda>x y. prio_of (ss_local s) x \<ge> prio_of (ss_local s) y) bs \<and>
      set bs = {x \<in> A. globalsem_ptr (ss_local s x) = gp \<and> localpsem (ss_local s x) = 0}) \<and>
    (\<forall>sem parm n. sem \<notin> A \<and> sem \<noteq> 0 \<and> cmm_checkptr p m parm = 1 \<and>
      reqs_ok (length (sem_values (ss_global s (globalsem_ptr (ss_local s sem)))))
        (parm_list (ss_parm s) (with_request s sem parm n sem)) \<longrightarrow>
      plcsynchsem_synch p m s sem parm n \<noteq> None)"
proof (intro conjI allI)
  fix gp
  show "\<exists>bs. sem_linked s gp bs \<and> sorted_wrt (\<lambda>x y. prio_of (ss_local s) x \<ge> prio_of (ss_local s) y) bs \<and>
      set bs = {x \<in> A. globalsem_ptr (ss_local s x) = gp \<and> localpsem (ss_local s x) = 0}"
    by (rule sleepers_listed [OF sem_reach_inv [OF assms]])
qed (use no_lost_wakeup [OF assms] sem_inv_call [OF sem_reach_inv [OF assms]] in fastforce)+

lemma idle_sleeps:
  "\<exists>s'. plcsynchsem_synch p_ready m_fresh s_idle 300 100 1 = Some (s', Sleeps)"
proof -
  have "try_release_process sem_parms [1]
      ((l_at 1 100)\<lparr>blocked_parm := 100, blocked_parm_count := 1\<rparr>) = Some ([1], 0)"
    by (simp add: try_release_process_def parm_list_def sem_parms_def l_at_def Let_def)
  then show ?thesis
    using chk_fresh(1)
    by (simp add: plcsynchsem_synch_def s_idle_def s_two_def l_at_def sem_parms_def insert_list_def Let_def)
qed

lemma synchsem_no_lost_wakeup_witness:
  "\<exists>s'. plcsynchsem_synch p_ready m_fresh s_idle 300 100 1 = Some (s', Sleeps) \<and>
    (localpsem (ss_local s' 300) = 1 \<and> (\<exists>s2. sem_wake s' 300 = Some (s2, 0)) \<or>
      sem_run (parm_list (ss_parm s') (ss_local s' 300))
        (sem_values (ss_global s' (globalsem_ptr (ss_local s' 300)))) = None)"
proof -
  obtain s' where s': "plcsynchsem_synch p_ready m_fresh s_idle 300 100 1 = Some (s', Sleeps)"
    using idle_sleeps by blast
  have "sem_start (s_idle, {})" by (simp add: sem_start_def s_idle_def s_two_def l_at_def)
  then have r0: "sem_reach p_ready m_fresh (s_idle, {})" by (rule sem_reach.start)
  have "reqs_ok (length (sem_values (ss_global s_idle (globalsem_ptr (ss_local s_idle 300)))))
      (parm_list (ss_parm s_idle) (with_request s_idle 300 100 1 300))"
    by (simp add: with_request_def s_idle_def s_two_def l_at_def sem_parms_def parm_list_def)
  from sem_step.call [OF _ _ chk_fresh(1) this s', of "{}"]
  have "sem_step p_ready m_fresh (s_idle, {}) (s', {300})" by simp
  from synchsem_no_lost_wakeup [OF sem_reach.step [OF r0 this]] s' show ?thesis by blast
qed

section \<open>A creation that fails\<close>

text \<open>When \<^verbatim>\<open>sem_init\<close> fails, the block that was just allocated stays allocated:
  the error path frees \<^verbatim>\<open>sem\<close>, which is still \<^verbatim>\<open>PLCSYNCHSEM_FAILED\<close>.\<close>

lemma plcsynchsem_create_leaks:
  assumes "cmm_fully_initialized p"
    and "cmm_block_alloc p m block_type_plcsynchsem_global_t (Some (build_synchsemname key))
      (sizeof_global_t zg num) = Some (m1, Some a)"
  shows "\<exists>s1. plcsynchsem_create p m s None zg False key num iv = Some (m1, s1, Some 0, -1)"
  using assms
  by (simp add: plcsynchsem_create_def get_refptr_def cmm_refptr_def cmm_block_free_def Let_def)

end
