(* ===== verification/SynchProps.thy ===== *)
theory SynchProps
  imports SynchPetri SynchSemProps
begin

text \<open>
  The properties of \<^verbatim>\<open>lib/synch/synch.c\<close>: synchronising fires the transition
  (\<open>plc_synch_fires\<close>), the arcs stay well formed (\<open>plc_synchpt_arcs_kept\<close>) and
  adding and removing an arc cancel (\<open>plc_synchpt_add_del\<close>); places are handed out once.
\<close>

section \<open>The call on the set\<close>

lemma a_release_cong:
  "(\<And>b. b \<in> set bs \<Longrightarrow> q b = q' b) \<Longrightarrow> a_release q vs bs = a_release q' vs bs"
proof (induction "length bs" arbitrary: vs bs rule: less_induct)
  case less
  have f: "find (\<lambda>b. sem_run (q b) vs \<noteq> None) bs = find (\<lambda>b. sem_run (q' b) vs \<noteq> None) bs"
    using less.prems by (intro find_cong_set) simp
  show ?case
  proof (cases "find (\<lambda>b. sem_run (q b) vs \<noteq> None) bs")
    case None
    then show ?thesis using f by (simp add: a_release_none)
  next
    case (Some b)
    then have b: "b \<in> set bs" by (auto simp: find_Some_iff)
    then have "length (remove1 b bs) < length bs"
      using length_pos_if_in_set [OF b] by (simp add: length_remove1)
    moreover have "c \<in> set (remove1 b bs) \<Longrightarrow> q c = q' c" for c
      using less.prems set_remove1_subset [of b bs] by blast
    ultimately have "a_release q vs1 (remove1 b bs) = a_release q' vs1 (remove1 b bs)" for vs1
      by (rule less.hyps)
    note ih = this
    obtain vs1 where vs1: "sem_run (q b) vs = Some vs1" using Some by (auto simp: find_Some_iff)
    then have vs1': "sem_run (q' b) vs = Some vs1" using less.prems [OF b] by simp
    have Some': "find (\<lambda>b. sem_run (q' b) vs \<noteq> None) bs = Some b" using Some f by simp
    obtain v2 b2 r2 where r: "a_release q vs1 (remove1 b bs) = (v2, b2, r2)" using prod_cases3 by blast
    show ?thesis
      using a_release_some [OF Some vs1 r] a_release_some [OF Some' vs1', of v2 b2 r2] r ih by simp
  qed
qed

lemma world_parms_w_sem [simp]: "world_parms (w\<lparr>w_sem := s\<rparr>) = world_parms w"
  by (simp add: world_parms_def fun_eq_iff)

lemma parm_list_posted [simp]: "parm_list P (l\<lparr>localpsem := v\<rparr>) = parm_list P l"
  by (simp add: parm_list_def)

definition call_state :: "synch_world \<Rightarrow> synchsem_state" where
  "call_state w = (w_sem w)\<lparr>ss_parm := world_parms w\<rparr>"

definition set_of :: "synch_world \<Rightarrow> nat \<Rightarrow> u32" where
  "set_of w sm = globalsem_ptr (ss_local (w_sem w) (of_nat sm))"

definition set_values :: "synch_world \<Rightarrow> nat \<Rightarrow> u32 list" where
  "set_values w sm = sem_values (ss_global (w_sem w) (set_of w sm))"

text \<open>The library is ready to synchronise on the set opened at \<open>sm\<close>, on which the
  processes \<open>bs\<close> sleep; the synchronisation point \<open>a\<close> lies in the segment.\<close>

definition synch_ready :: "cmm_proc \<Rightarrow> synch_world \<Rightarrow> synch_lib \<Rightarrow> nat \<Rightarrow> u32 list \<Rightarrow> bool" where
  "synch_ready p w l sm bs \<longleftrightarrow> synch_get_status l synch_fully_initialized \<and>
     synch_semid l = Some sm \<and> (of_nat sm :: u32) \<noteq> 0 \<and> of_nat sm \<notin> set bs \<and>
     sem_linked (call_state w) (set_of w sm) bs"

definition point_at :: "cmm_proc \<Rightarrow> synch_world \<Rightarrow> nat \<Rightarrow> bool" where
  "point_at p w a \<longleftrightarrow> synchpt_ok (w_synchpt w a) \<and> cmm_checkptr p (w_cmm w) (int a + 8) = 1"

lemma point_small: "point_at p w a \<Longrightarrow> a + 8 < 4294967296"
proof -
  assume "point_at p w a"
  then have "int a + 8 < uint (confmap_size (w_cmm w))"
    by (auto simp: point_at_def cmm_checkptr_def split: if_splits)
  moreover have "uint (confmap_size (w_cmm w)) = int (unat (confmap_size (w_cmm w)))"
    by (rule uint_nat)
  ultimately have "int a + 8 < int (unat (confmap_size (w_cmm w)))" by linarith
  then have "a + 8 < unat (confmap_size (w_cmm w))" by linarith
  then show ?thesis using unat_u32_lt [of "confmap_size (w_cmm w)"] by linarith
qed

lemma plc_synch_request:
  assumes ready: "synch_ready p w l sm bs" and pt: "point_at p w a"
    and ok: "reqs_ok (length (set_values w sm)) (arcs (w_synchpt w a))"
  shows "\<exists>w' out. plc_synch p w l a = Some (w', out) \<and> w_synchpt w' = w_synchpt w \<and> w_cmm w' = w_cmm w \<and>
    w_trans w' = w_trans w \<and> set_of w' sm = set_of w sm \<and>
    (\<forall>b\<in>set bs. \<forall>P. parm_list P (ss_local (w_sem w') b) = parm_list P (ss_local (w_sem w) b) \<and>
      blocked_parm (ss_local (w_sem w') b) = blocked_parm (ss_local (w_sem w) b)) \<and>
    (case sem_run (arcs (w_synchpt w a)) (set_values w sm) of
       Some vs1 \<Rightarrow> out = Returns 0 \<and>
         (\<exists>bs' rs. a_release (\<lambda>b. parm_list (world_parms w) (ss_local (w_sem w) b)) vs1 bs =
            (set_values w' sm, bs', rs) \<and>
          sem_linked (call_state w') (set_of w sm) bs')
     | None \<Rightarrow> set_values w' sm = set_values w sm \<and>
         (let f = sem_flg (arcs (w_synchpt w a) ! stuck_at (arcs (w_synchpt w a)) (set_values w sm))
          in out = (if f \<noteq> 0 then Returns (-1) else Sleeps) \<and>
             (f \<noteq> 0 \<longrightarrow> sem_linked (call_state w') (set_of w sm) bs)))"
proof -
  let ?s = "call_state w" and ?sem = "of_nat sm :: u32" and ?sp = "w_synchpt w a"
  let ?n = "ucast (used_entries ?sp) :: u32" and ?parm = "int a + int sizeof_synchpt"
  let ?gp = "set_of w sm"
  have r: "synch_get_status l synch_fully_initialized" "synch_semid l = Some sm" "?sem \<noteq> 0"
    "?sem \<notin> set bs" "sem_linked ?s ?gp bs"
    using ready by (auto simp: synch_ready_def)
  have chk: "cmm_checkptr p (w_cmm w) ?parm = 1" and okp: "synchpt_ok ?sp"
    using pt by (simp_all add: point_at_def sizeof_synchpt_def)
  have vals: "sem_values (ss_global ?s ?gp) = set_values w sm" "?gp = globalsem_ptr (ss_local ?s ?sem)"
    by (simp_all add: call_state_def set_values_def set_of_def)
  let ?st = "with_request ?s ?sem ?parm ?n"
  have q: "parm_list (ss_parm ?s) (?st ?sem) = arcs ?sp"
    using call_parms [OF okp point_small [OF pt], of ?s ?sem] by (simp add: call_state_def sizeof_synchpt_def)
  have okr: "reqs_ok (length (sem_values (ss_global ?s ?gp))) (parm_list (ss_parm ?s) (?st ?sem))"
    using ok q vals by simp
  obtain vs' bs' rs out where a: "a_synch (\<lambda>b. parm_list (ss_parm ?s) (?st b)) (prio_of ?st) ?sem
      (sem_values (ss_global ?s ?gp)) bs = (vs', bs', rs, out)"
    using prod_cases4 by blast
  obtain f st1 st2 where c: "plcsynchsem_synch p (w_cmm w) ?s ?sem ?parm ?n =
      Some (?s\<lparr>ss_global := (ss_global ?s)(?gp := (ss_global ?s ?gp)\<lparr>sem_values := vs', blocked_list_first := f\<rparr>),
              ss_local := st2\<rparr>, out)"
    "dll st2 f bs'" "same_but_links (insert ?sem (set bs)) ?st st1"
    "st2 = (\<lambda>x. if x \<in> set rs then (st1 x)\<lparr>localpsem := localpsem (st1 x) + 1\<rparr> else st1 x)"
    using synch_refines [OF chk r(5) vals(2) r(4,3) refl okr a] by blast
  define s' where "s' = ?s\<lparr>ss_global := (ss_global ?s)(?gp := (ss_global ?s ?gp)
      \<lparr>sem_values := vs', blocked_list_first := f\<rparr>), ss_local := st2\<rparr>"
  let ?w = "w\<lparr>w_sem := s'\<rparr>"
  have call: "plc_synch p w l a = Some (?w, out)"
    using r(1,2) okp c(1) by (simp add: plc_synch_def synch_call_def synchpt_ok_def call_state_def s'_def Let_def)
  have fld: "globalsem_ptr (st2 x) = globalsem_ptr (ss_local (w_sem w) x)" for x
    using same_but_links_fields(3) [OF c(3), where x = x]
    by (simp add: c(4) with_request_def call_state_def)
  have parms: "parm_list P (st2 x) = parm_list P (?st x)" for x P
    using same_but_links_fields(4) [OF c(3), where x = x and P = P] by (simp add: c(4))
  have set_eq: "set_of ?w sm = ?gp" using fld by (simp add: set_of_def s'_def)
  have vals': "set_values ?w sm = vs'" using set_eq by (simp add: set_values_def s'_def)
  have stb: "b \<in> set bs \<Longrightarrow> ?st b = ss_local (w_sem w) b" for b
    using r(4) by (auto simp: with_request_def call_state_def)
  have lk: "sem_linked (call_state ?w) ?gp bs'"
    if "set bs' \<subseteq> set bs" "length vs' = length (set_values w sm)"
  proof -
    have "reqs_ok (length vs') (parm_list (world_parms w) (st2 b))" if "b \<in> set bs'" for b
    proof -
      have b: "b \<in> set bs" using that \<open>set bs' \<subseteq> set bs\<close> by blast
      then have "parm_list (world_parms w) (st2 b) = parm_list (world_parms w) (ss_local (w_sem w) b)"
        using parms stb by simp
      then show ?thesis
        using r(5) b vals(1) \<open>length vs' = length (set_values w sm)\<close>
        by (simp add: sem_linked_def call_state_def)
    qed
    then show ?thesis using c(2) by (simp add: sem_linked_def call_state_def s'_def)
  qed
  have pw: "ss_parm ?s = world_parms w" by (simp add: call_state_def)
  have bp: "blocked_parm (st2 x) = blocked_parm (?st x)" for x
    using same_but_links_fields(5) [OF c(3), where x = x] by (simp add: c(4))
  have keep: "\<forall>b\<in>set bs. \<forall>P. parm_list P (ss_local (w_sem ?w) b) = parm_list P (ss_local (w_sem w) b) \<and>
      blocked_parm (ss_local (w_sem ?w) b) = blocked_parm (ss_local (w_sem w) b)"
    using parms bp stb by (simp add: s'_def)
  have dist: "distinct bs" using r(5) by (simp add: sem_linked_def dll_def)
  show ?thesis
  proof (cases "sem_run (arcs ?sp) (set_values w sm)")
    case (Some vs1)
    have "a_release (\<lambda>b. parm_list (ss_parm ?s) (?st b)) vs1 bs = (vs', bs', rs)" and o: "out = Returns 0"
      using a Some q vals(1) by (auto simp: a_synch_def split: prod.splits)
    moreover have "a_release (\<lambda>b. parm_list (ss_parm ?s) (?st b)) vs1 bs =
        a_release (\<lambda>b. parm_list (world_parms w) (ss_local (w_sem w) b)) vs1 bs"
      by (rule a_release_cong) (simp add: stb pw)
    ultimately have rel: "a_release (\<lambda>b. parm_list (world_parms w) (ss_local (w_sem w) b)) vs1 bs = (vs', bs', rs)"
      by simp
    have "sem_linked (call_state ?w) ?gp bs'"
      using a_release_props(4,7) [OF rel dist] sem_run_length [OF Some] by (intro lk) auto
    then show ?thesis using call o rel vals' set_eq Some keep by auto
  next
    case None
    let ?f = "sem_flg (arcs ?sp ! stuck_at (arcs ?sp) (set_values w sm))"
    have e: "vs' = set_values w sm" "out = (if ?f \<noteq> 0 then Returns (-1) else Sleeps)" "?f \<noteq> 0 \<longrightarrow> bs' = bs"
      using a None q vals(1) by (auto simp: a_synch_def split: if_splits)
    have "?f \<noteq> 0 \<longrightarrow> sem_linked (call_state ?w) ?gp bs" using lk e by auto
    then show ?thesis using call vals' set_eq None e keep by (auto simp: Let_def)
  qed
qed

text \<open>A request whose operations have one flag is refused or sleeps as a whole.\<close>

lemma flag_at_stuck:
  assumes "sem_run qs vs = None" "\<forall>q\<in>set qs. sem_flg q = f"
  shows "sem_flg (qs ! stuck_at qs vs) = f"
  using assms stuck_at_less [OF assms(1)] by simp

lemma a_release_nil [simp]: "a_release q vs [] = (vs, [], [])"
  by (simp add: a_release_none)

text \<open>C8. \<^verbatim>\<open>plc_synch\<close> on a synchronisation point that
  \<^verbatim>\<open>plc_synchpt_new\<close> made from a transition is the firing rule of the Petri net: it
  returns 0 exactly when every wait arc finds its tokens and every null arc an empty place, and
  then the tokens are taken and put as the transition says, before the processes that sleep on
  the set go on; otherwise no value changes, and the call returns -1 on a non-blocking point and
  sleeps on a blocking one.\<close>

theorem plc_synch_fires:
  assumes "plc_synchpt_new p w0 tr extra opt = Some (w, Some a)"
    and "trans_ok (w_trans w0 tr)" "n_arcs (w_trans w0 tr) + unat extra \<le> 65535"
    and "synch_ready p w l sm bs" "cmm_checkptr p (w_cmm w) (int a + 8) = 1"
    and "n_places (w_trans w0 tr) \<le> length (set_values w sm)"
  shows "\<exists>w' out. plc_synch p w l a = Some (w', out) \<and>
    (if enabled (w_trans w0 tr) (set_values w sm)
     then out = Returns 0 \<and>
       set_values w' sm = fst (a_release (\<lambda>b. parm_list (world_parms w) (ss_local (w_sem w) b))
         (fire (w_trans w0 tr) (set_values w sm)) bs)
     else set_values w' sm = set_values w sm \<and>
       out = (if opt = plc_synchpt_nonblocking then Returns (-1) else Sleeps))"
proof -
  let ?t = "w_trans w0 tr"
  have wa: "w_synchpt w a = synchpt_fill ?t (arc_count ?t extra) opt"
    using assms(1) by (auto simp: plc_synchpt_new_def Let_def split: option.splits if_splits)
  note fill = synchpt_fill_arcs [OF assms(2,3), of opt, folded wa]
  have pt: "point_at p w a" using fill assms(5) by (simp add: point_at_def)
  have ok: "reqs_ok (length (set_values w sm)) (arcs (w_synchpt w a))"
    using fill request_ok [OF assms(6)] by simp
  have run: "sem_run (arcs (w_synchpt w a)) (set_values w sm) =
    (if enabled ?t (set_values w sm) then Some (fire ?t (set_values w sm)) else None)"
    using new_request_fires [OF assms(2,3,6)] wa by simp
  show ?thesis
  proof (cases "enabled ?t (set_values w sm)")
    case True
    then show ?thesis using plc_synch_request [OF assms(4) pt ok] run by fastforce
  next
    case False
    have "sem_flg (arcs (w_synchpt w a) ! stuck_at (arcs (w_synchpt w a)) (set_values w sm)) = blocking_flag opt"
      by (rule flag_at_stuck) (use run False fill request_flags in auto)
    moreover have "blocking_flag opt \<noteq> 0 \<longleftrightarrow> opt = plc_synchpt_nonblocking"
      by (cases opt) (simp_all add: blocking_flag_def IPC_NOWAIT_def)
    ultimately show ?thesis
      using plc_synch_request [OF assms(4) pt ok] run False by (auto simp: Let_def)
  qed
qed

section \<open>Adding and removing arcs\<close>

lemma sorted_all: "\<forall>x\<in>set xs. P x \<Longrightarrow> sorted_wrt (\<lambda>x y. P y \<longrightarrow> P x) xs"
  by (induction xs) auto

lemma sorted_none: "\<forall>x\<in>set xs. \<not> P x \<Longrightarrow> sorted_wrt (\<lambda>x y. P y \<longrightarrow> P x) xs"
  by (induction xs) auto

lemma request_arcs_ok: "arcs_ok (request t opt)"
proof -
  let ?f = "blocking_flag opt" and ?n = "n_places t"
  have small: "i < ?n \<Longrightarrow> i < 65536" for i using places_small [of t] by simp
  have w: "is_wait (arc ?f (int i) (- w_in t i)) = (w_in t i > 0)"
    "is_signal (arc ?f (int i) (- w_in t i)) = (w_in t i < 0)" if "w_in t i > 0" for i
    using that w_in_range [of t i] sint_wi16 [of "- w_in t i"]
    by (simp_all add: is_wait_def is_signal_def del: of_int_minus)
  have s: "is_wait (arc ?f (int i) (w_out t i)) = (w_out t i < 0)"
    "is_signal (arc ?f (int i) (w_out t i)) = (w_out t i > 0)" for i
    using w_out_range [of t i] sint_wi16 [of "w_out t i"] by (simp_all add: is_wait_def is_signal_def)
  have ws: "q \<in> set (wait_arcs ?f t ?n) \<Longrightarrow> is_wait q \<and> \<not> is_signal q" for q
    using w by (auto simp: wait_arcs_def)
  have zs: "q \<in> set (null_arcs ?f t ?n) \<Longrightarrow> \<not> is_wait q \<and> \<not> is_signal q" for q
    by (auto simp: null_arcs_def is_wait_def is_signal_def)
  have ss: "q \<in> set (signal_arcs ?f t ?n) \<Longrightarrow> \<not> is_wait q \<and> is_signal q" for q
    using s by (auto simp: signal_arcs_def)
  have fw: "filter is_wait (request t opt) = rev (wait_arcs ?f t ?n)"
    using ws zs ss by (simp add: request_def rev_filter [symmetric] filter_id_conv)
  have fs: "filter is_signal (request t opt) = signal_arcs ?f t ?n"
    using ws zs ss by (simp add: request_def rev_filter [symmetric] filter_id_conv)
  have inj: "inj_on (\<lambda>i. sem_num (arc f (int i) (g i))) (set (filter Q [0..<?n]))" for f g Q
    by (rule inj_onI) (metis arc_place small atLeastLessThan_iff filter_is_subset set_upt subsetD)
  have "distinct (map sem_num (wait_arcs ?f t ?n))" "distinct (map sem_num (signal_arcs ?f t ?n))"
    unfolding wait_arcs_def signal_arcs_def map_map comp_def distinct_map using inj by simp_all
  moreover have "sorted_wrt (\<lambda>x y. is_wait y \<longrightarrow> is_wait x) (request t opt)"
    using ws zs ss unfolding request_def
    by (simp add: sorted_wrt_append sorted_all sorted_none)
  ultimately show ?thesis unfolding arcs_ok_def fw fs by (simp add: rev_map [symmetric])
qed

text \<open>C9. The arcs of a synchronisation point that was made from a well-formed transition, with at most 65535 arcs and spare
  entries, lie within its block, the waits in front of the signals, at most one of each on a place. Adding or removing an arc of any weight
  stays within the block; it keeps the waits in front and the arcs unique when the weight and the sum fit the
  16 bits of the operation (adding), or when no more is removed than is there (removing).\<close>

theorem plc_synchpt_arcs_kept:
  "(trans_ok t \<longrightarrow> n_arcs t + unat extra \<le> 65535 \<longrightarrow>
      synchpt_ok (synchpt_fill t (arc_count t extra) opt) \<and>
      arcs_ok (arcs (synchpt_fill t (arc_count t extra) opt))) \<and>
   (synchpt_ok sp \<longrightarrow> synchpt_ok (fst (plc_synchpt_add_arc sp weight place)) \<and>
      synchpt_ok (fst (plc_synchpt_del_arc sp weight place)) \<and>
      total_entries (fst (plc_synchpt_add_arc sp weight place)) = total_entries sp \<and>
      total_entries (fst (plc_synchpt_del_arc sp weight place)) = total_entries sp) \<and>
   (synchpt_ok sp \<longrightarrow> arcs_ok (arcs sp) \<longrightarrow> fits (arcs sp) place weight \<longrightarrow>
      arcs_ok (arcs (fst (plc_synchpt_add_arc sp weight place)))) \<and>
   (synchpt_ok sp \<longrightarrow> arcs_ok (arcs sp) \<longrightarrow>
      (\<forall>q\<in>set (arcs sp). on_arc place weight q \<longrightarrow> \<bar>weight\<bar> \<le> \<bar>sint (sem_op q)\<bar>) \<longrightarrow>
      arcs_ok (arcs (fst (plc_synchpt_del_arc sp weight place))))"
proof (intro conjI impI)
  assume t: "trans_ok t" "n_arcs t + unat extra \<le> 65535"
  show "synchpt_ok (synchpt_fill t (arc_count t extra) opt)"
    "arcs_ok (arcs (synchpt_fill t (arc_count t extra) opt))"
    using synchpt_fill_arcs [OF t, of opt] request_arcs_ok by simp_all
next
  assume sp: "synchpt_ok sp"
  show "synchpt_ok (fst (plc_synchpt_add_arc sp weight place))" "synchpt_ok (fst (plc_synchpt_del_arc sp weight place))"
    using sp add_arc_spec [OF sp, of weight place] del_arc_spec [OF sp, of weight place] by (auto split: option.splits)
  show "total_entries (fst (plc_synchpt_add_arc sp weight place)) = total_entries sp"
    "total_entries (fst (plc_synchpt_del_arc sp weight place)) = total_entries sp"
    by (simp_all add: plc_synchpt_add_arc_def plc_synchpt_del_arc_def Let_def split: prod.splits)
next
  assume sp: "synchpt_ok sp" "arcs_ok (arcs sp)" "fits (arcs sp) place weight"
  then show "arcs_ok (arcs (fst (plc_synchpt_add_arc sp weight place)))"
    using add_arc_spec [OF sp(1), of weight place] add_spec_ok [OF sp(2,3)]
    by (auto split: option.splits)
next
  assume sp: "synchpt_ok sp" "arcs_ok (arcs sp)"
    "\<forall>q\<in>set (arcs sp). on_arc place weight q \<longrightarrow> \<bar>weight\<bar> \<le> \<bar>sint (sem_op q)\<bar>"
  then show "arcs_ok (arcs (fst (plc_synchpt_del_arc sp weight place)))"
    using del_arc_spec [OF sp(1), of weight place] del_spec_ok [OF sp(2) _ sp(3)]
    by (auto split: option.splits)
qed

text \<open>C10. Removing an arc of a weight other than zero that was just added, without overflow of the 16 bits of an
  operation, gives back the arcs there were, whether it was added to an arc on the same place or got an entry of its own.\<close>

theorem plc_synchpt_add_del:
  assumes "synchpt_ok sp" "fits (arcs sp) place weight" "weight \<noteq> 0"
    and "plc_synchpt_add_arc sp weight place = (sp1, 0)"
  shows "\<exists>sp2. plc_synchpt_del_arc sp1 weight place = (sp2, 0) \<and> synchpt_ok sp2 \<and> arcs sp2 = arcs sp"
proof -
  obtain qs where qs: "add_spec (sp_sem_flg sp) (unat (total_entries sp)) weight place (arcs sp) = Some qs"
    and sp1: "synchpt_ok sp1" "arcs sp1 = qs"
    using add_arc_spec [OF assms(1), of weight place] assms(4) by (auto split: option.splits)
  have arc0: "on_arc0 place weight q = on_arc place weight q" for q
    using assms(3) by (simp add: on_arc0_def on_arc_def)
  have "del_spec weight place qs = Some (arcs sp)"
  proof (cases "on_first (on_arc place weight) (\<lambda>q. [q\<lparr>sem_op := sem_op q + word_of_int weight\<rparr>]) (arcs sp)")
    case (Some rs)
    then obtain us q vs where q: "arcs sp = us @ q # vs" "\<forall>x\<in>set us. \<not> on_arc place weight x"
      "on_arc place weight q" "rs = us @ [q\<lparr>sem_op := sem_op q + word_of_int weight\<rparr>] @ vs"
      unfolding on_first_Some by blast
    let ?q = "q\<lparr>sem_op := sem_op q + word_of_int weight\<rparr>"
    have "sint (sem_op q + word_of_int weight) = sint (sem_op q) + weight"
      using assms(2) q by (intro sint_add_wi16) (auto simp: fits_def)
    then have d: "same_direction (sem_op ?q) weight"
      using on_arc_sign [OF q(3)] by (auto simp: same_direction_def)
    have "on_arc place weight ?q" using q(3) d by (simp add: on_arc_def)
    moreover have "sem_op q \<noteq> 0" using on_arc_sign [OF q(3)] by auto
    ultimately have "del_spec weight place (us @ ?q # vs) = Some (us @ [q] @ vs)"
      unfolding del_spec_def on_first_Some using q(2) d
      by (intro exI [of _ us] exI [of _ ?q] exI [of _ vs]) (simp add: arc0)
    then show ?thesis using qs Some q by (simp add: add_spec_def)
  next
    case None
    let ?n = "arc (sp_sem_flg sp) place weight"
    have nf: "\<forall>q\<in>set (arcs sp). \<not> on_arc place weight q" using None by (simp add: on_first_None)
    have d: "sint (word_of_int weight :: i16) = weight" "uint (word_of_int place :: u16) = place"
      using assms(2) by (simp_all add: sint_wi16 fits_def uint_word_of_int)
    then have "on_arc place weight ?n" and sd: "same_direction (sem_op ?n) weight"
      using assms(3) by (auto simp: on_arc_def same_direction_def)
    then have "del_spec weight place (us @ ?n # vs) = Some (us @ vs)"
      if "\<forall>x\<in>set us. \<not> on_arc place weight x" for us vs
      unfolding del_spec_def on_first_Some using that
      by (intro exI [of _ us] exI [of _ ?n] exI [of _ vs]) (simp add: arc0)
    from this [of "[]" "arcs sp"] this [of "arcs sp" "[]"] nf show ?thesis
      using qs None by (simp add: add_spec_def split: if_splits)
  qed
  then show ?thesis using del_arc_spec [OF sp1(1), of weight place] sp1(2) by auto
qed

definition sp_three :: plc_synchpt where
  "sp_three = \<lparr>sp_magic = SYNCHPT_MAGIC, sp_sem_flg = 0, total_entries = 3, used_entries = 1,
     sp_parm = [arc 0 5 (-1), no_parm, no_parm]\<rparr>"

lemma sp_three_ok: "synchpt_ok sp_three" "arcs sp_three = [arc 0 5 (-1)]" "arcs_ok (arcs sp_three)"
  by (simp_all add: sp_three_def synchpt_ok_def arcs_def arcs_ok_def is_wait_def is_signal_def)

lemma sp_three_fits: "fits (arcs sp_three) 5 (-2)"
  by (simp add: sp_three_ok fits_def)

lemma plc_synchpt_add_del_witness:
  "\<exists>sp1 sp2. plc_synchpt_add_arc sp_three (-2) 5 = (sp1, 0) \<and> arcs sp1 = [arc 0 5 (-3)] \<and>
     plc_synchpt_del_arc sp1 (-2) 5 = (sp2, 0) \<and> arcs sp2 = arcs sp_three"
proof -
  have "add_spec 0 3 (-2) 5 [arc 0 5 (-1)] = Some [arc 0 5 (-3)]"
    by (simp add: add_spec_def on_arc_def same_direction_def arc_def)
  then obtain sp1 where sp1: "plc_synchpt_add_arc sp_three (-2) 5 = (sp1, 0)" "arcs sp1 = [arc 0 5 (-3)]"
    using add_arc_spec [OF sp_three_ok(1), of "-2" 5] by (auto simp: sp_three_ok(2)) (auto simp: sp_three_def)
  then show ?thesis
    using plc_synchpt_add_del [OF sp_three_ok(1) sp_three_fits _ sp1(1)] by auto
qed

text \<open>Removing more than there is does not fail: a wait arc of weight 1 from which 3 are
  removed becomes a signal arc of weight 2. The addition of two wait arcs of 20000 wraps to a
  signal arc of 25536.\<close>

lemma plc_synchpt_arc_flips:
  "del_spec (-3) 5 [arc 0 5 (-1)] = Some [arc 0 5 2]"
  "add_spec 0 3 (-20000) 5 [arc 0 5 (-20000)] = Some [arc 0 5 25536]"
  by (simp_all add: del_spec_def add_spec_def on_arc0_def on_arc_def same_direction_def arc_def)

section \<open>Places\<close>

definition synch_t_ok :: "synch_t \<Rightarrow> bool" where
  "synch_t_ok s \<longleftrightarrow> int (length (places_in_use s)) = sy_place_count s"

text \<open>A place that is added was free, is in range and is taken afterwards; there is none when
  all are taken. A place that is deleted is the only one whose entry changes.\<close>

lemma synchplace_add_correct:
  assumes "synch_t_ok s"
  shows "synchplace_add s = (s', r) \<Longrightarrow> synch_t_ok s' \<and>
    (if r = -1 then s' = s \<and> (\<forall>i < nat (sy_place_count s). places_in_use s ! i \<noteq> 0)
     else 0 \<le> r \<and> r < sy_place_count s \<and> places_in_use s ! nat r = 0 \<and> places_in_use s' ! nat r = 1 \<and>
       (\<forall>i. i \<noteq> nat r \<longrightarrow> places_in_use s' ! i = places_in_use s ! i))"
  using assms
  by (auto simp: synchplace_add_def first_free_def synch_t_ok_def find_Some_iff find_None_iff
    split: option.splits)

lemma synchplace_add_del:
  assumes "synch_t_ok s" "synchplace_add s = (s', r)" "r \<noteq> -1"
  shows "synchplace_del s' r = (s, 0)"
proof -
  obtain i where i: "first_free s = Some i" "r = int i" "s' = s\<lparr>places_in_use := (places_in_use s)[i := 1]\<rparr>"
    using assms(2,3) by (auto simp: synchplace_add_def split: option.splits)
  have il: "i < nat (sy_place_count s)" "places_in_use s ! i = 0"
    using i(1) by (auto simp: first_free_def find_Some_iff)
  then have "(places_in_use s)[i := 1, i := 0] = places_in_use s"
    by (metis list_update_id list_update_overwrite)
  then show ?thesis using i il by (simp add: synchplace_del_def)
qed

section \<open>Points in the segment\<close>

lemma alloc_place:
  assumes inv: "cmm_inv m" and new: "cmm_alloc_mem m t s n = Some (m', r)"
  shows "confmap_size m' = confmap_size m"
    "r = Some a \<Longrightarrow> 68 \<le> a \<and> a + unat n \<le> unat (confmap_size m)"
proof -
  from inv obtain bs where ch: "cmm_chain m bs" by (auto simp: cmm_inv_def)
  have "confmap_size m' = confmap_size m \<and>
    (\<forall>a. r = Some a \<longrightarrow> 68 \<le> a \<and> a + unat n \<le> unat (confmap_size m))"
  proof (cases rule: alloc_cases [OF ch, of t s n])
    case 1
    then show ?thesis using new by simp
  next
    case (2 b)
    have b: "20 \<le> b" "n \<le> blk_size m b" "blk_end m b \<le> unat (confmap_size m)"
      using chain_bounds(1,3) [OF ch 2(3)] 2(4) by (auto simp: suits_def)
    note f = take_fields [OF b(1,2), where t = t and s = s]
    have "confmap_size (cmm_take m b t s n) = confmap_size m"
      using f(3) by (simp add: confmap_size_def agree_rd32)
    moreover have "b + 48 + unat n \<le> blk_end m b"
      using b(2) by (simp add: blk_end_def sizeof_block_def word_le_nat_alt)
    ultimately show ?thesis using 2(1) new b by auto
  qed
  then show "confmap_size m' = confmap_size m"
    "r = Some a \<Longrightarrow> 68 \<le> a \<and> a + unat n \<le> unat (confmap_size m)" by auto
qed

lemma new_point:
  assumes inv: "cmm_inv (w_cmm w0)" and p: "cmm_fully_initialized p"
    and t: "trans_ok (w_trans w0 tr)" "n_arcs (w_trans w0 tr) + unat extra \<le> 65535"
    and n: "0 < n_arcs (w_trans w0 tr) + unat extra"
    and new: "plc_synchpt_new p w0 tr extra opt = Some (w, Some a)"
  shows "point_at p w a"
    "cmm_inv (w_cmm w)" "arcs (w_synchpt w a) = request (w_trans w0 tr) opt"
    "unat (total_entries (w_synchpt w a)) = n_arcs (w_trans w0 tr) + unat extra"
    "sp_sem_flg (w_synchpt w a) = blocking_flag opt"
    "\<exists>m1. w = w0\<lparr>w_cmm := m1, w_synchpt := (w_synchpt w0)(a := w_synchpt w a)\<rparr>"
proof -
  let ?t = "w_trans w0 tr"
  let ?c = "arc_count ?t extra"
  have "unat ?c = n_arcs ?t + unat extra"
    using t(2) by (simp add: arc_count_n unat_word_ariths unat_of_nat)
  then have "unat (?c * 6 + of_nat sizeof_synchpt) = 6 * (n_arcs ?t + unat extra) + 8"
    using t(2) by (simp add: unat_word_ariths unat_of_nat sizeof_synchpt_def)
  moreover from n [unfolded gr0_conv_Suc] obtain j where "n_arcs ?t + unat extra = Suc j" by (rule exE)
  ultimately have "unat (?c * 6 + of_nat sizeof_synchpt) = 6 * Suc j + 8" by (simp only:)
  then have z: "14 \<le> unat (?c * 6 + of_nat sizeof_synchpt)" by (rule ssubst) simp
  then have nz: "?c * 6 + of_nat sizeof_synchpt \<noteq> 0" by auto
  obtain m1 where m1: "cmm_block_alloc p (w_cmm w0) block_type_synch_synchpt (Some ''synchpt'')
      (?c * 6 + of_nat sizeof_synchpt) = Some (m1, Some a)"
    and w: "w = w0\<lparr>w_cmm := m1, w_synchpt := (w_synchpt w0)(a := synchpt_fill ?t ?c opt)\<rparr>"
    using new by (auto simp: plc_synchpt_new_def Let_def split: option.splits if_splits)
  have al: "cmm_alloc_mem (w_cmm w0) block_type_synch_synchpt ''synchpt'' (?c * 6 + of_nat sizeof_synchpt)
      = Some (m1, Some a)"
    using m1 alloc_ready [OF p nz] by simp
  have "a + 14 \<le> unat (confmap_size m1)"
    using alloc_place [OF inv al] z by fastforce
  then have "int a + 8 < uint (confmap_size m1)" using uint_nat [of "confmap_size m1"] by linarith
  then have "cmm_checkptr p m1 (int a + 8) = 1" using p by (simp add: cmm_checkptr_def)
  then show "point_at p w a" using synchpt_fill_arcs [OF t, of opt] by (simp add: point_at_def w)
  show "cmm_inv (w_cmm w)" using alloc_write_inv [OF inv al, of m1] by (simp add: w)
  show "arcs (w_synchpt w a) = request ?t opt"
    "unat (total_entries (w_synchpt w a)) = n_arcs ?t + unat extra"
    "sp_sem_flg (w_synchpt w a) = blocking_flag opt"
    using synchpt_fill_arcs [OF t, of opt] by (simp_all add: w)
  show "\<exists>m1. w = w0\<lparr>w_cmm := m1, w_synchpt := (w_synchpt w0)(a := w_synchpt w a)\<rparr>"
    by (rule exI [of _ m1]) (simp add: w)
qed

section \<open>A transition in use\<close>

text \<open>One place with one token; the transition takes it.\<close>

definition t_take :: plc_transition where
  "t_take = \<lparr>tr_magic = TRANSITION_MAGIC, tr_place_count = 1, wait_values = [1], signal_values = [-1]\<rparr>"

definition w_start :: synch_world where
  "w_start = \<lparr>w_cmm = m_fresh, w_sem = s_idle,
     w_synch_t = (\<lambda>_. \<lparr>sy_magic = SYNCH_MAGIC, synch_semkey = 7, sy_place_count = 1, places_in_use = [0]\<rparr>),
     w_trans = (\<lambda>_. t_take), w_synchpt = (\<lambda>_. sp_three)\<rparr>"

definition lib_start :: synch_lib where
  "lib_start = \<lparr>synch_status = 1, synch_shm = Some 100, synch_module_name = Some ''m'',
     synch_semid = Some 400, place_alloc_mutex = True, synchpt_scanbeg = None,
     synchpt_scanend = None, sem_refptr = Some 0\<rparr>"

lemma t_take_ok: "trans_ok t_take" "n_arcs t_take = 1" "n_places t_take = 1"
  "enabled t_take [1]" "fire t_take [1] = [0]"
  by (simp_all add: t_take_def trans_ok_def n_arcs_def n_places_def w_in_def w_out_def enabled_def fire_def)

lemma new_take:
  "\<exists>m1. plc_synchpt_new p_ready w_start 0 0 opt =
     Some (w_start\<lparr>w_cmm := m1, w_synchpt := (w_synchpt w_start)(68 := synchpt_fill t_take 1 opt)\<rparr>, Some 68)"
proof -
  have c: "arc_count t_take 0 = 1" by (simp add: arc_count_n t_take_ok)
  obtain m1 where "cmm_alloc_mem m_fresh block_type_synch_synchpt ''synchpt'' 14 = Some (m1, Some 68)"
    using fresh_alloc [of 14] by auto
  then have "cmm_block_alloc p_ready m_fresh block_type_synch_synchpt (Some ''synchpt'') 14 = Some (m1, Some 68)"
    using alloc_ready [OF p_ready_init, of 14] by simp
  moreover have "tr_magic t_take = TRANSITION_MAGIC" using t_take_ok(1) by (simp add: trans_ok_def)
  ultimately show ?thesis
    by (simp add: plc_synchpt_new_def w_start_def c sizeof_synchpt_def)
qed

lemma start_ready:
  "w_sem w = s_idle \<Longrightarrow> synch_ready p w lib_start 400 [] \<and> set_values w 400 = [1]"
  by (simp add: synch_ready_def lib_start_def synch_get_status_def synch_fully_initialized_def
    sem_linked_def call_state_def set_of_def set_values_def s_idle_def s_two_def l_at_def)

lemma plc_synch_fires_witness:
  "\<exists>w w'. plc_synchpt_new p_ready w_start 0 0 plc_synchpt_blocking = Some (w, Some 68) \<and>
     plc_synch p_ready w lib_start 68 = Some (w', Returns 0) \<and> set_values w' 400 = [0]"
proof -
  obtain m1 where new: "plc_synchpt_new p_ready w_start 0 0 plc_synchpt_blocking =
     Some (w_start\<lparr>w_cmm := m1, w_synchpt := (w_synchpt w_start)(68 := synchpt_fill t_take 1 plc_synchpt_blocking)\<rparr>,
       Some 68)" (is "_ = Some (?w, _)")
    using new_take by blast
  have t: "w_trans w_start 0 = t_take" by (simp add: w_start_def)
  have inv: "cmm_inv (w_cmm w_start)" using fresh_inv by (simp add: w_start_def)
  have pt: "point_at p_ready ?w 68"
    by (rule new_point(1) [OF inv p_ready_init _ _ _ new]) (simp_all add: t t_take_ok)
  have rd: "synch_ready p_ready ?w lib_start 400 []" "set_values ?w 400 = [1]"
    using start_ready [of ?w] by (simp_all add: w_start_def)
  have "cmm_checkptr p_ready (w_cmm ?w) (int 68 + 8) = 1" using pt unfolding point_at_def by blast
  from plc_synch_fires [OF new _ _ rd(1) this] show ?thesis
    using new rd(2) by (fastforce simp: t t_take_ok)
qed

lemma plc_synchpt_arcs_kept_witness:
  "arcs_ok (arcs (synchpt_fill t_take (arc_count t_take 2) plc_synchpt_blocking)) \<and>
   arcs_ok (arcs (fst (plc_synchpt_add_arc sp_three (-2) 5))) \<and>
   arcs_ok (arcs (fst (plc_synchpt_del_arc sp_three (-1) 5)))"
proof -
  have "\<forall>q\<in>set (arcs sp_three). on_arc 5 (-1) q \<longrightarrow> \<bar>- 1 :: int\<bar> \<le> \<bar>sint (sem_op q)\<bar>"
    by (simp add: sp_three_ok)
  then show ?thesis
    using plc_synchpt_arcs_kept [where t = t_take and extra = 2 and opt = plc_synchpt_blocking and sp = sp_three
        and place = 5 and weight = "-2"]
      plc_synchpt_arcs_kept [where t = t_take and extra = 2 and opt = plc_synchpt_blocking and sp = sp_three
        and place = 5 and weight = "-1"]
      t_take_ok sp_three_ok(1,3) sp_three_fits by simp
qed

end
