(* ===== verification/State.thy ===== *)
theory State
  imports SynchProps
begin

text \<open>
  The state library, \<^verbatim>\<open>lib/state/state.c\<close> and \<^verbatim>\<open>state_setup.c\<close>: the run and
  stop modes of the system and of each module are tokens in places that the start of every scan
  takes and puts back; the modules that run are records in the shared memory.
\<close>

section \<open>Data\<close>

record state_module_data =
  md_pid :: int
  md_run_stop_place :: int

record state_world =
  sw_synch :: synch_world
  sw_shared :: "nat \<Rightarrow> int"
  sw_module :: "nat \<Rightarrow> state_module_data"

text \<open>The file's static variables.\<close>

record state_lib =
  state_status :: u16
  state_shared_shm :: "nat option"
  state_module_shm :: "nat option"
  state_module_name :: "string option"

text \<open>What the system says: the process's number and what \<^verbatim>\<open>kill\<close> does with a process
  and a signal.\<close>

datatype kill_result = Kill_ok | Kill_no_process | Kill_other_error

record state_env =
  env_getpid :: int
  env_kill :: "int \<Rightarrow> int \<Rightarrow> kill_result"

definition SIGTERM :: int where "SIGTERM = 15"
definition state_fully_initialized :: u16 where "state_fully_initialized = 1"
definition sizeof_shared_data :: u32 where "sizeof_shared_data = 4"
definition sizeof_module_data :: u32 where "sizeof_module_data = 8"

definition state_get_status :: "state_lib \<Rightarrow> u16 \<Rightarrow> bool" where
  "state_get_status l b \<longleftrightarrow> state_status l AND b \<noteq> 0"

definition state_set_status :: "u16 \<Rightarrow> state_lib \<Rightarrow> state_lib" where
  "state_set_status b l = l\<lparr>state_status := state_status l OR b\<rparr>"

definition state_rst_status :: "u16 \<Rightarrow> state_lib \<Rightarrow> state_lib" where
  "state_rst_status b l = l\<lparr>state_status := state_status l AND NOT b\<rparr>"

section \<open>Run and stop modes\<close>

text \<open>A call that sleeps does not return by itself.\<close>

definition returned :: "(synch_world \<times> synch_outcome) option \<Rightarrow> (synch_world \<times> int) option" where
  "returned r = (case r of Some (w, Returns k) \<Rightarrow> Some (w, k) | _ \<Rightarrow> None)"

definition add_arc_at :: "synch_world \<Rightarrow> nat \<Rightarrow> int \<Rightarrow> int \<Rightarrow> synch_world \<times> int" where
  "add_arc_at w a weight place =
     (let (sp, r) = plc_synchpt_add_arc (w_synchpt w a) weight place
      in (w\<lparr>w_synchpt := (w_synchpt w)(a := sp)\<rparr>, r))"

definition free_returning :: "cmm_proc \<Rightarrow> nat \<Rightarrow> int \<Rightarrow> synch_world \<Rightarrow> (synch_world \<times> int) option" where
  "free_returning p a r w = map_option (\<lambda>w1. (w1, r)) (plc_synchpt_free p w a)"

text \<open>The beginning of each of the three functions: a point of the null transition.\<close>

definition null_point ::
  "cmm_proc \<Rightarrow> synch_world \<Rightarrow> u32 \<Rightarrow> plc_synchpt_blocking_t \<Rightarrow> (synch_world \<times> nat option) option" where
  "null_point p w extra_arcs opt =
     (case plc_transition_null p (w_cmm w) of
        None \<Rightarrow> None
      | Some None \<Rightarrow> Some (w, None)
      | Some (Some t) \<Rightarrow> plc_synchpt_new p w t extra_arcs opt)"

definition get_runstop_mode ::
  "cmm_proc \<Rightarrow> synch_world \<Rightarrow> synch_lib \<Rightarrow> int \<Rightarrow> (synch_world \<times> int) option" where
  "get_runstop_mode p w l place =
     (case null_point p w 2 plc_synchpt_nonblocking of
        None \<Rightarrow> None
      | Some (w1, None) \<Rightarrow> Some (w1, -1)
      | Some (w1, Some a) \<Rightarrow>
          let (w2, r1) = add_arc_at w1 a (-1) place in
          if r1 < 0 then free_returning p a (-1) w2
          else let (w3, r2) = add_arc_at w2 a 1 place in
          if r2 < 0 then free_returning p a (-1) w3
          else case returned (plc_synch p w3 l a) of
                 None \<Rightarrow> None
               | Some (w4, res) \<Rightarrow>
                   free_returning p a (if res \<ge> 0 then 1 else if res = -1 then 0 else -1) w4)"

definition activate_run_mode ::
  "cmm_proc \<Rightarrow> synch_world \<Rightarrow> synch_lib \<Rightarrow> int \<Rightarrow> (synch_world \<times> int) option" where
  "activate_run_mode p w l place =
     (case get_runstop_mode p w l place of
        None \<Rightarrow> None
      | Some (w1, mode) \<Rightarrow>
          if mode = 1 then Some (w1, 0)
          else (case null_point p w1 1 plc_synchpt_blocking of
             None \<Rightarrow> None
           | Some (w2, None) \<Rightarrow> Some (w2, -1)
           | Some (w2, Some a) \<Rightarrow>
               let (w3, r) = add_arc_at w2 a 1 place in
               if r < 0 then free_returning p a (-1) w3
               else case returned (plc_synch p w3 l a) of
                      None \<Rightarrow> None
                    | Some (w4, res) \<Rightarrow> free_returning p a (if res < 0 then -1 else 0) w4))"

text \<open>The loop that takes one token after the other, and the result of the call that took
  none.\<close>

partial_function (option) take_all ::
  "cmm_proc \<Rightarrow> synch_lib \<Rightarrow> nat \<Rightarrow> synch_world \<Rightarrow> (synch_world \<times> int) option" where
  [code]: "take_all p l a w =
     (case returned (plc_synch p w l a) of
        None \<Rightarrow> None
      | Some (w1, res) \<Rightarrow> if res \<ge> 0 then take_all p l a w1 else Some (w1, res))"

definition activate_stop_mode ::
  "cmm_proc \<Rightarrow> synch_world \<Rightarrow> synch_lib \<Rightarrow> int \<Rightarrow> (synch_world \<times> int) option" where
  "activate_stop_mode p w l place =
     (case null_point p w 1 plc_synchpt_nonblocking of
        None \<Rightarrow> None
      | Some (w1, None) \<Rightarrow> Some (w1, -1)
      | Some (w1, Some a) \<Rightarrow>
          let (w2, r) = add_arc_at w1 a (-1) place in
          if r < 0 then free_returning p a (-1) w2
          else case take_all p l a w2 of
                 None \<Rightarrow> None
               | Some (w3, res) \<Rightarrow> free_returning p a (if res \<noteq> -1 then -1 else 0) w3)"

section \<open>Starting and stopping\<close>

definition on_synch :: "state_world \<Rightarrow> synch_world \<Rightarrow> state_world" where
  "on_synch w s = w\<lparr>sw_synch := s\<rparr>"

definition on_cmm :: "state_world \<Rightarrow> mem \<Rightarrow> state_world" where
  "on_cmm w m = w\<lparr>sw_synch := (sw_synch w)\<lparr>w_cmm := m\<rparr>\<rparr>"

definition state_fail :: "state_lib \<Rightarrow> state_world \<Rightarrow> (state_world \<times> state_lib \<times> int) option" where
  "state_fail l w = Some (w, l\<lparr>state_module_shm := None, state_shared_shm := None\<rparr>, -1)"

text \<open>The exits after the module's block was made, and after its place was.\<close>

definition fail_free :: "cmm_proc \<Rightarrow> state_lib \<Rightarrow> nat \<Rightarrow> state_world \<Rightarrow> (state_world \<times> state_lib \<times> int) option" where
  "fail_free p l b w =
     (case cmm_block_free p (w_cmm (sw_synch w)) (Some b) of
        None \<Rightarrow> None
      | Some (m, _) \<Rightarrow> state_fail l (on_cmm w m))"

definition fail_place ::
  "cmm_proc \<Rightarrow> synch_lib \<Rightarrow> state_lib \<Rightarrow> nat \<Rightarrow> int \<Rightarrow> state_world \<Rightarrow>
     (state_world \<times> state_lib \<times> int) option" where
  "fail_place p sl l b place w =
     fail_free p l b (on_synch w (fst (plc_synchplace_del (sw_synch w) sl place)))"

text \<open>The arcs for the scan: the rest of the list is not tried after an error.\<close>

fun add_arcs_at :: "synch_world \<Rightarrow> nat \<Rightarrow> (int \<times> int) list \<Rightarrow> synch_world \<times> int" where
  "add_arcs_at w a [] = (w, 0)"
| "add_arcs_at w a ((weight, place) # xs) =
     (let (w1, r) = add_arc_at w a weight place in if r < 0 then (w1, -1) else add_arcs_at w1 a xs)"

text \<open>From the allocation of the module's block on.\<close>

definition state_create ::
  "cmm_proc \<Rightarrow> state_env \<Rightarrow> synch_lib \<Rightarrow> state_lib \<Rightarrow> nat \<Rightarrow> state_world \<Rightarrow> string \<Rightarrow>
     (state_world \<times> state_lib \<times> int) option" where
  "state_create p env sl l sh w module_name =
     (case cmm_block_alloc p (w_cmm (sw_synch w)) block_type_state_module (Some module_name)
             sizeof_module_data of
        None \<Rightarrow> None
      | Some (m, None) \<Rightarrow> state_fail l (on_cmm w m)
      | Some (m, Some b) \<Rightarrow>
          let w1 = (on_cmm w m)\<lparr>sw_module := (sw_module w)(b := (sw_module w b)\<lparr>md_pid := env_getpid env\<rparr>)\<rparr>;
              l1 = l\<lparr>state_module_shm := Some b, state_module_name := Some module_name\<rparr>
          in case plc_synchpt_scan_beg sl of
               None \<Rightarrow> fail_free p l1 b w1
             | Some sb \<Rightarrow>
                 let (s2, place) = plc_synchplace_add (sw_synch w1) sl; w2 = on_synch w1 s2 in
                 if place = -1 then fail_free p l1 b w2
                 else let w3 = w2\<lparr>sw_module := (sw_module w2)(b := (sw_module w2 b)\<lparr>md_run_stop_place := place\<rparr>)\<rparr>;
                          (s4, r) = add_arcs_at (sw_synch w3) sb
                            [(1, place), (-1, place), (1, sw_shared w3 sh), (-1, sw_shared w3 sh)];
                          w4 = on_synch w3 s4
                      in if r < 0 then fail_place p sl l1 b place w4
                         else case activate_run_mode p (sw_synch w4) sl place of
                                None \<Rightarrow> None
                              | Some (s5, res) \<Rightarrow>
                                  if res < 0 then fail_place p sl l1 b place (on_synch w4 s5)
                                  else Some (on_synch w4 s5, state_set_status state_fully_initialized l1, 0))"

definition state_init ::
  "cmm_proc \<Rightarrow> state_env \<Rightarrow> synch_lib \<Rightarrow> state_lib \<Rightarrow> state_world \<Rightarrow> string \<Rightarrow> int \<Rightarrow>
     (state_world \<times> state_lib \<times> int) option" where
  "state_init p env sl l w module_name force_init =
     (if state_get_status l state_fully_initialized then Some (w, l, -1)
      else let m = w_cmm (sw_synch w) in
        case cmm_block_find p m block_type_state_shared (Some ''state_shared_t'') of
          None \<Rightarrow> None
        | Some (None, z) \<Rightarrow> state_fail l w
        | Some (Some sh, z) \<Rightarrow>
            if z \<noteq> sizeof_shared_data then state_fail l w
            else let l1 = l\<lparr>state_shared_shm := Some sh\<rparr> in
            case cmm_block_find p m block_type_state_module (Some module_name) of
              None \<Rightarrow> None
            | Some (None, z1) \<Rightarrow> state_create p env sl l1 sh w module_name
            | Some (Some b, z1) \<Rightarrow>
                if z1 \<noteq> sizeof_module_data then state_fail l1 w
                else if env_kill env (md_pid (sw_module w b)) 0 \<noteq> Kill_ok
                then state_create p env sl l1 sh w module_name
                else if force_init \<le> 0 then state_fail l1 w
                else case cmm_block_free p m (Some b) of
                       None \<Rightarrow> None
                     | Some (m1, r) \<Rightarrow>
                         if r < 0 then state_fail l1 (on_cmm w m1)
                         else state_create p env sl l1 sh (on_cmm w m1) module_name)"

definition state_done ::
  "cmm_proc \<Rightarrow> synch_lib \<Rightarrow> state_lib \<Rightarrow> state_world \<Rightarrow> (state_world \<times> state_lib \<times> int) option" where
  "state_done p sl l w =
     (if \<not> state_get_status l state_fully_initialized then Some (w, l, -1)
      else case state_module_shm l of
             None \<Rightarrow> None
           | Some b \<Rightarrow>
               let (s1, r1) = plc_synchplace_del (sw_synch w) sl (md_run_stop_place (sw_module w b))
               in case cmm_block_free p (w_cmm s1) (Some b) of
                    None \<Rightarrow> None
                  | Some (m2, r2) \<Rightarrow>
                      Some (on_cmm (on_synch w s1) m2,
                            state_rst_status state_fully_initialized
                              (l\<lparr>state_module_shm := None, state_module_name := None\<rparr>),
                            if r1 < 0 \<or> r2 < 0 then -1 else 0))"

section \<open>The modules\<close>

definition plc_module_count :: "cmm_proc \<Rightarrow> mem \<Rightarrow> int option" where
  "plc_module_count p m = cmm_block_count p m block_type_state_module"

text \<open>The result has where the name stands, in the block itself.\<close>

definition plc_module_by_index :: "cmm_proc \<Rightarrow> mem \<Rightarrow> u32 \<Rightarrow> (nat option \<times> int) option" where
  "plc_module_by_index p m index =
     map_option (\<lambda>(b, z, name). (name, if b = None \<or> z \<noteq> sizeof_module_data then -1 else 0))
       (cmm_block_get p m block_type_state_module index)"

text \<open>A block of a module by its name, of the right size.\<close>

definition find_module :: "cmm_proc \<Rightarrow> mem \<Rightarrow> string \<Rightarrow> nat option option" where
  "find_module p m name =
     map_option (\<lambda>(b, z). if b = None \<or> z \<noteq> sizeof_module_data then None else b)
       (cmm_block_find p m block_type_state_module (Some name))"

definition plc_module_shutdown ::
  "cmm_proc \<Rightarrow> state_env \<Rightarrow> state_world \<Rightarrow> string \<Rightarrow> (state_world \<times> int) option" where
  "plc_module_shutdown p env w name =
     (case find_module p (w_cmm (sw_synch w)) name of
        None \<Rightarrow> None
      | Some None \<Rightarrow> Some (w, -1)
      | Some (Some b) \<Rightarrow>
          (case env_kill env (md_pid (sw_module w b)) SIGTERM of
             Kill_ok \<Rightarrow> Some (w, 0)
           | Kill_no_process \<Rightarrow>
               map_option (\<lambda>(m, _). (on_cmm w m, -1)) (cmm_block_free p (w_cmm (sw_synch w)) (Some b))
           | Kill_other_error \<Rightarrow> Some (w, -1)))"

text \<open>The first loop: the places of the names of the other modules, and whether there was an
  error.\<close>

fun module_names ::
  "cmm_proc \<Rightarrow> state_env \<Rightarrow> state_world \<Rightarrow> nat list \<Rightarrow> (nat option list \<times> int) option" where
  "module_names p env w [] = Some ([], 0)"
| "module_names p env w (i # is) =
     (case cmm_block_get p (w_cmm (sw_synch w)) block_type_state_module (of_nat i) of
        None \<Rightarrow> None
      | Some (b, z, name) \<Rightarrow>
          (case module_names p env w is of
             None \<Rightarrow> None
           | Some (ns, r) \<Rightarrow>
               (case b of
                  None \<Rightarrow> Some (None # ns, -1)
                | Some b1 \<Rightarrow>
                    if z \<noteq> sizeof_module_data then Some (None # ns, -1)
                    else if md_pid (sw_module w b1) \<noteq> env_getpid env then Some (name # ns, r)
                    else Some (None # ns, r))))"

text \<open>The string that stands at a place of the memory, up to the first zero byte.\<close>

partial_function (option) string_at :: "mem \<Rightarrow> nat \<Rightarrow> string option" where
  [code]: "string_at m a =
     (if m a = 0 then Some []
      else do { s \<leftarrow> string_at m (a + 1); Some (char_of (unat (m a)) # s) })"

text \<open>The second loop. The names are read where they stand when each module's turn comes.\<close>

fun shutdown_names ::
  "cmm_proc \<Rightarrow> state_env \<Rightarrow> nat option list \<Rightarrow> state_world \<Rightarrow> int \<Rightarrow> (state_world \<times> int) option" where
  "shutdown_names p env [] w res = Some (w, res)"
| "shutdown_names p env (None # ns) w res = shutdown_names p env ns w res"
| "shutdown_names p env (Some a # ns) w res =
     (case string_at (w_cmm (sw_synch w)) a of
        None \<Rightarrow> None
      | Some name \<Rightarrow>
          (case plc_module_shutdown p env w name of
             None \<Rightarrow> None
           | Some (w1, r) \<Rightarrow> shutdown_names p env ns w1 (if r < 0 then -1 else res)))"

definition plc_module_shutdown_all ::
  "cmm_proc \<Rightarrow> state_env \<Rightarrow> state_world \<Rightarrow> (state_world \<times> int) option" where
  "plc_module_shutdown_all p env w =
     (case plc_module_count p (w_cmm (sw_synch w)) of
        None \<Rightarrow> None
      | Some n \<Rightarrow>
          if n \<le> 0 then Some (w, -1)
          else case module_names p env w [0..<nat n] of
                 None \<Rightarrow> None
               | Some (ns, res) \<Rightarrow> shutdown_names p env ns w res)"

text \<open>The four functions on modes share their shape: find the place, change its mode.\<close>

definition change_mode ::
  "(synch_world \<Rightarrow> synch_lib \<Rightarrow> int \<Rightarrow> (synch_world \<times> int) option) \<Rightarrow> state_world \<Rightarrow> synch_lib \<Rightarrow> int \<Rightarrow>
     (state_world \<times> int) option" where
  "change_mode activate w sl place =
     map_option (\<lambda>(s, r). (on_synch w s, if r < 0 then -1 else 0)) (activate (sw_synch w) sl place)"

definition plc_module_run ::
  "cmm_proc \<Rightarrow> state_world \<Rightarrow> synch_lib \<Rightarrow> string \<Rightarrow> (state_world \<times> int) option" where
  "plc_module_run p w sl name =
     (case find_module p (w_cmm (sw_synch w)) name of
        None \<Rightarrow> None
      | Some None \<Rightarrow> Some (w, -1)
      | Some (Some b) \<Rightarrow> change_mode (activate_run_mode p) w sl (md_run_stop_place (sw_module w b)))"

definition plc_module_stop ::
  "cmm_proc \<Rightarrow> state_world \<Rightarrow> synch_lib \<Rightarrow> string \<Rightarrow> (state_world \<times> int) option" where
  "plc_module_stop p w sl name =
     (case find_module p (w_cmm (sw_synch w)) name of
        None \<Rightarrow> None
      | Some None \<Rightarrow> Some (w, -1)
      | Some (Some b) \<Rightarrow> change_mode (activate_stop_mode p) w sl (md_run_stop_place (sw_module w b)))"

definition find_shared :: "cmm_proc \<Rightarrow> mem \<Rightarrow> nat option option" where
  "find_shared p m =
     map_option (\<lambda>(b, z). if b = None \<or> z \<noteq> sizeof_shared_data then None else b)
       (cmm_block_find p m block_type_state_shared (Some ''state_shared_t''))"

definition plc_run :: "cmm_proc \<Rightarrow> state_world \<Rightarrow> synch_lib \<Rightarrow> (state_world \<times> int) option" where
  "plc_run p w sl =
     (case find_shared p (w_cmm (sw_synch w)) of
        None \<Rightarrow> None
      | Some None \<Rightarrow> Some (w, -1)
      | Some (Some b) \<Rightarrow> change_mode (activate_run_mode p) w sl (sw_shared w b))"

definition plc_stop :: "cmm_proc \<Rightarrow> state_world \<Rightarrow> synch_lib \<Rightarrow> (state_world \<times> int) option" where
  "plc_stop p w sl =
     (case find_shared p (w_cmm (sw_synch w)) of
        None \<Rightarrow> None
      | Some None \<Rightarrow> Some (w, -1)
      | Some (Some b) \<Rightarrow> change_mode (activate_stop_mode p) w sl (sw_shared w b))"

text \<open>The process, the place, the mode and whether the process seems to run.\<close>

definition plc_module_details ::
  "cmm_proc \<Rightarrow> state_env \<Rightarrow> state_world \<Rightarrow> synch_lib \<Rightarrow> string \<Rightarrow>
     (state_world \<times> (int \<times> int \<times> int \<times> int) option) option" where
  "plc_module_details p env w sl name =
     (case find_module p (w_cmm (sw_synch w)) name of
        None \<Rightarrow> None
      | Some None \<Rightarrow> Some (w, None)
      | Some (Some b) \<Rightarrow>
          let d = sw_module w b in
          map_option (\<lambda>(s, mode). (on_synch w s,
              Some (md_pid d, md_run_stop_place d, mode,
                    if env_kill env (md_pid d) 0 \<noteq> Kill_ok then 0 else 1)))
            (get_runstop_mode p (sw_synch w) sl (md_run_stop_place d)))"

section \<open>Setting the library up\<close>

definition state_setup ::
  "cmm_proc \<Rightarrow> synch_lib \<Rightarrow> state_world \<Rightarrow> (state_world \<times> int) option" where
  "state_setup p sl w =
     (case cmm_block_alloc p (w_cmm (sw_synch w)) block_type_state_shared (Some ''state_shared_t'')
             sizeof_shared_data of
        None \<Rightarrow> None
      | Some (m, None) \<Rightarrow> Some (on_cmm w m, -1)
      | Some (m, Some b) \<Rightarrow>
          let (s1, place) = plc_synchplace_add (sw_synch (on_cmm w m)) sl;
              w1 = (on_synch w s1)\<lparr>sw_shared := (sw_shared w)(b := place)\<rparr>
          in if place = -1
             then map_option (\<lambda>(m2, _). (on_cmm w1 m2, -1)) (cmm_block_free p (w_cmm s1) (Some b))
             else Some (w1, 0))"

definition state_shutdown ::
  "cmm_proc \<Rightarrow> synch_lib \<Rightarrow> state_world \<Rightarrow> (state_world \<times> int) option" where
  "state_shutdown p sl w =
     (case cmm_block_find p (w_cmm (sw_synch w)) block_type_state_shared (Some ''state_shared_t'') of
        None \<Rightarrow> None
      | Some (None, z) \<Rightarrow> Some (w, -1)
      | Some (Some b, z) \<Rightarrow>
          if z < sizeof_shared_data
          then map_option (\<lambda>(m, _). (on_cmm w m, -1)) (cmm_block_free p (w_cmm (sw_synch w)) (Some b))
          else let (s1, r1) = plc_synchplace_del (sw_synch w) sl (sw_shared w b)
               in map_option (\<lambda>(m, r2). (on_cmm (on_synch w s1) m, if r1 < 0 \<or> r2 < 0 then -1 else 0))
                    (cmm_block_free p (w_cmm s1) (Some b)))"

end
