(* ===== verification/StateProps.thy ===== *)
theory StateProps
  imports State
begin

text \<open>
  The properties of the state library: stopping empties the place and comes to an end
  (\<open>state_stop_empties\<close>, by the locale \<open>drain_loop\<close>), and asking for the mode
  reads it without changing it (\<open>state_mode_reads\<close>).
\<close>

section \<open>Emptying a place\<close>

text \<open>A step that takes something as long as there is something, and says -1 when there is
  nothing. The loop that repeats it comes to an end.\<close>

locale drain_loop =
  fixes inv :: "'w \<Rightarrow> bool" and level :: "'w \<Rightarrow> nat" and step :: "'w \<Rightarrow> ('w \<times> int) option"
  assumes takes: "inv w \<Longrightarrow> 0 < level w \<Longrightarrow> \<exists>w'. step w = Some (w', 0) \<and> inv w' \<and> level w' < level w"
    and stops: "inv w \<Longrightarrow> level w = 0 \<Longrightarrow> \<exists>w'. step w = Some (w', -1) \<and> inv w' \<and> level w' = 0"
begin

lemma drains:
  assumes loop: "\<forall>w. loop w = (case step w of None \<Rightarrow> None
      | Some (w1, res) \<Rightarrow> if res \<ge> 0 then loop w1 else Some (w1, res))"
  shows "inv w \<Longrightarrow> \<exists>w'. loop w = Some (w', -1) \<and> inv w' \<and> level w' = 0"
proof (induction "level w" arbitrary: w rule: less_induct)
  case less
  show ?case
  proof (cases "level w = 0")
    case True
    then obtain w' where "step w = Some (w', -1)" "inv w'" "level w' = 0"
      using stops [OF less.prems] by blast
    then show ?thesis using loop [rule_format, of w] by simp
  next
    case False
    then obtain w' where w': "step w = Some (w', 0)" "inv w'" "level w' < level w"
      using takes [OF less.prems] by auto
    then have "loop w = loop w'" using loop [rule_format, of w] by simp
    then show ?thesis using less.hyps [OF w'(3,2)] by simp
  qed
qed

end

section \<open>Processes that go on sleeping\<close>

text \<open>A request of a synchronisation point without null arcs: waits, then signals.\<close>

definition plain :: "plcsynchsem_parm list \<Rightarrow> bool" where
  "plain ps \<longleftrightarrow> arcs_ok ps \<and> (\<forall>q\<in>set ps. sem_op q \<noteq> 0)"

lemma filter_split:
  "sorted_wrt (\<lambda>x y. P y \<longrightarrow> P x) xs \<Longrightarrow> xs = filter P xs @ filter (\<lambda>x. \<not> P x) xs"
proof (induction xs)
  case (Cons x xs)
  show ?case
  proof (cases "P x")
    case True
    then show ?thesis using Cons by simp
  next
    case False
    then have "\<forall>y\<in>set xs. \<not> P y" using Cons.prems by auto
    then have "filter P xs = []" "filter (\<lambda>x. \<not> P x) xs = xs" by (simp_all add: filter_id_conv)
    then show ?thesis using False by simp
  qed
qed simp

lemma signals_run: "\<forall>q\<in>set ps. 0 < sint (sem_op q) \<Longrightarrow> sem_run ps vs \<noteq> None"
proof (induction ps arbitrary: vs)
  case (Cons q ps)
  then have "0 \<le> uint (vs ! unat (sem_num q)) + sint (sem_op q)"
    using uint_ge_0 [of "vs ! unat (sem_num q)"] by auto
  then show ?case using Cons by (simp add: Let_def)
qed simp

lemma waits_mono:
  assumes "\<forall>q\<in>set ps. sint (sem_op q) < 0" "length vs = length vs'"
    and "\<forall>i < length vs. uint (vs ! i) \<le> uint (vs' ! i)" "reqs_ok (length vs) ps"
    and "sem_run ps vs \<noteq> None"
  shows "sem_run ps vs' \<noteq> None"
  using assms
proof (induction ps arbitrary: vs vs')
  case (Cons q ps)
  let ?n = "unat (sem_num q)" and ?d = "sint (sem_op q)"
  let ?u = "vs[?n := word_of_int (uint (vs ! ?n) + ?d)]" and ?u' = "vs'[?n := word_of_int (uint (vs' ! ?n) + ?d)]"
  have n: "?n < length vs" "?d < 0" using Cons.prems(1,4) by auto
  have le: "uint (vs ! ?n) \<le> uint (vs' ! ?n)" using Cons.prems(3) n by blast
  have go: "0 \<le> uint (vs ! ?n) + ?d" "sem_run ps ?u \<noteq> None"
    using Cons.prems(5) n by (simp_all add: Let_def split: if_splits)
  have small: "uint (x :: u32) + ?d < 2 ^ 32" for x
    using uint_lt2p [of x] n(2) by simp
  have v: "uint (word_of_int (uint x + ?d) :: u32) = uint x + ?d" if "0 \<le> uint x + ?d" for x :: u32
    unfolding uint_word_of_int using that small [of x] by (intro mod_pos_pos_trivial) simp_all
  have "\<forall>i < length ?u. uint (?u ! i) \<le> uint (?u' ! i)"
    using Cons.prems(2,3) n le go(1) v [of "vs ! ?n"] v [of "vs' ! ?n"]
    by (auto simp: nth_list_update)
  then have "sem_run ps ?u' \<noteq> None"
    using Cons.IH [of ?u ?u'] Cons.prems(1,2,4) go(2) by auto
  then show ?case using go(1) le n by (simp add: Let_def)
qed simp

lemma plain_mono:
  assumes p: "plain ps" "reqs_ok (length vs) ps" and l: "length vs = length vs'"
    and le: "\<forall>i < length vs. uint (vs ! i) \<le> uint (vs' ! i)" and no: "sem_run ps vs' = None"
  shows "sem_run ps vs = None"
proof (rule ccontr)
  assume some: "sem_run ps vs \<noteq> None"
  let ?W = "filter is_wait ps" and ?S = "filter (\<lambda>q. \<not> is_wait q) ps"
  have ps: "ps = ?W @ ?S" using p(1) by (intro filter_split) (simp add: plain_def arcs_ok_def)
  have sig: "\<forall>q\<in>set ?S. 0 < sint (sem_op q)"
  proof
    fix q assume "q \<in> set ?S"
    then have "sem_op q \<noteq> 0" "\<not> sint (sem_op q) < 0" using p(1) by (auto simp: plain_def is_wait_def)
    then show "0 < sint (sem_op q)" using sint_zero_iff [of "sem_op q"] by linarith
  qed
  have "sem_run (?W @ ?S) vs \<noteq> None" using some ps by metis
  then have "sem_run ?W vs \<noteq> None" by (cases "sem_run ?W vs") (simp_all add: sem_run_append)
  then have "sem_run ?W vs' \<noteq> None"
    using p(2) l le by (intro waits_mono [of ?W vs vs']) (auto simp: is_wait_def reqs_ok_def)
  then obtain v where "sem_run ?W vs' = Some v" by auto
  then have "sem_run (?W @ ?S) vs' \<noteq> None" using signals_run [OF sig] by (auto simp: sem_run_append)
  then show False using no ps by metis
qed

section \<open>Taking tokens\<close>

text \<open>The state of the loop: the point takes one token of \<open>place\<close>, the processes that
  sleep on the set have plain requests that cannot be done, and all other places are as they
  were.\<close>

definition drain_inv ::
  "cmm_proc \<Rightarrow> synch_lib \<Rightarrow> nat \<Rightarrow> u32 list \<Rightarrow> nat \<Rightarrow> nat \<Rightarrow> i16 \<Rightarrow> u32 list \<Rightarrow> mem \<Rightarrow> synch_world \<Rightarrow> bool" where
  "drain_inv p l sm bs a place f vs0 m w \<longleftrightarrow> synch_ready p w l sm bs \<and> point_at p w a \<and> w_cmm w = m \<and>
     f \<noteq> 0 \<and> place < length vs0 \<and> place < 65536 \<and> arcs (w_synchpt w a) = [arc f (int place) (-1)] \<and>
     (\<exists>v. set_values w sm = vs0[place := v] \<and> uint v \<le> uint (vs0 ! place)) \<and>
     (\<forall>b\<in>set bs. plain (parm_list (world_parms w) (ss_local (w_sem w) b)) \<and>
        reqs_ok (length vs0) (parm_list (world_parms w) (ss_local (w_sem w) b)) \<and>
        sem_run (parm_list (world_parms w) (ss_local (w_sem w) b)) vs0 = None)"

lemma a_release_disabled:
  "\<forall>b\<in>set bs. sem_run (q b) vs = None \<Longrightarrow> a_release q vs bs = (vs, bs, [])"
  by (rule a_release_none) (auto simp: find_None_iff)

lemma take_run:
  assumes "place < length vs" "place < 65536"
  shows "sem_run [arc f (int place) (-1)] vs =
    (if vs ! place = 0 then None else Some (vs[place := vs ! place - 1]))"
proof -
  have n: "unat (sem_num (arc f (int place) (-1))) = place" by (rule arc_place [OF assms(2)])
  have "uint (vs ! place) = 0 \<longleftrightarrow> vs ! place = 0" by (rule uint_0_iff)
  then have "0 \<le> uint (vs ! place) + - 1 \<longleftrightarrow> vs ! place \<noteq> 0"
    using uint_ge_0 [of "vs ! place"] by linarith
  moreover have "(word_of_int (uint (vs ! place) + - 1) :: u32) = vs ! place - 1"
    by (simp add: wi_hom_add [symmetric])
  ultimately show ?thesis using n by (simp add: Let_def)
qed

lemma drain_step:
  assumes inv: "drain_inv p l sm bs a place f vs0 m w"
  shows "\<exists>w'. returned (plc_synch p w l a) = Some (w', if set_values w sm ! place = 0 then -1 else 0) \<and>
    drain_inv p l sm bs a place f vs0 m w' \<and>
    set_values w' sm = (if set_values w sm ! place = 0 then set_values w sm
      else (set_values w sm)[place := set_values w sm ! place - 1])"
proof -
  obtain v where i: "synch_ready p w l sm bs" "point_at p w a" "w_cmm w = m" "f \<noteq> 0" "place < length vs0"
      "place < 65536" "arcs (w_synchpt w a) = [arc f (int place) (-1)]" "set_values w sm = vs0[place := v]"
      "uint v \<le> uint (vs0 ! place)"
    and q: "\<forall>b\<in>set bs. plain (parm_list (world_parms w) (ss_local (w_sem w) b)) \<and>
        reqs_ok (length vs0) (parm_list (world_parms w) (ss_local (w_sem w) b)) \<and>
        sem_run (parm_list (world_parms w) (ss_local (w_sem w) b)) vs0 = None"
    using inv by (auto simp: drain_inv_def)
  have len: "length (set_values w sm) = length vs0" and pv: "set_values w sm ! place = v"
    using i by simp_all
  have ok: "reqs_ok (length (set_values w sm)) (arcs (w_synchpt w a))"
    using i(5,6,7) len arc_place [OF i(6), of f "-1"] by (simp del: arc_sel)
  obtain w' out where c: "plc_synch p w l a = Some (w', out)" "w_synchpt w' = w_synchpt w" "w_cmm w' = w_cmm w"
      "set_of w' sm = set_of w sm"
    and keep: "\<forall>b\<in>set bs. \<forall>P. parm_list P (ss_local (w_sem w') b) = parm_list P (ss_local (w_sem w) b)"
    and res: "case sem_run (arcs (w_synchpt w a)) (set_values w sm) of
       Some vs1 \<Rightarrow> out = Returns 0 \<and>
         (\<exists>bs' rs. a_release (\<lambda>b. parm_list (world_parms w) (ss_local (w_sem w) b)) vs1 bs =
            (set_values w' sm, bs', rs) \<and> sem_linked (call_state w') (set_of w sm) bs')
     | None \<Rightarrow> set_values w' sm = set_values w sm \<and>
         (let f = sem_flg (arcs (w_synchpt w a) ! stuck_at (arcs (w_synchpt w a)) (set_values w sm))
          in out = (if f \<noteq> 0 then Returns (-1) else Sleeps) \<and>
             (f \<noteq> 0 \<longrightarrow> sem_linked (call_state w') (set_of w sm) bs))"
    using plc_synch_request [OF i(1,2) ok] by auto
  have wp: "world_parms w' = world_parms w" using c(2) by (simp add: world_parms_def fun_eq_iff)
  have run: "sem_run (arcs (w_synchpt w a)) (set_values w sm) =
      (if v = 0 then None else Some (vs0[place := v - 1]))"
    using take_run [of place "set_values w sm" f] i pv len by simp
  have rd: "sem_linked (call_state w') (set_of w sm) bs \<Longrightarrow> synch_ready p w' l sm bs"
    using i(1) c(4) by (simp add: synch_ready_def)
  have inv': "drain_inv p l sm bs a place f vs0 m w'"
    if "sem_linked (call_state w') (set_of w sm) bs" "set_values w' sm = vs0[place := u]"
      "uint u \<le> uint (vs0 ! place)" for u
  proof -
    have "point_at p w' a" using i(2) c(2,3) by (simp add: point_at_def)
    then show ?thesis using rd [OF that(1)] that(2,3) i(3-7) c(2,3) q keep wp
      unfolding drain_inv_def by auto
  qed
  show ?thesis
  proof (cases "v = 0")
    case True
    have "stuck_at [arc f (int place) (-1)] (set_values w sm) = 0"
      using run True i(7) stuck_at_less [of "[arc f (int place) (-1)]"] by simp
    then have "out = Returns (-1)" "sem_linked (call_state w') (set_of w sm) bs" "set_values w' sm = set_values w sm"
      using res run True i(4,7) by (simp_all add: Let_def)
    then show ?thesis using c(1) inv' [of v] i(8,9) pv True by (simp add: returned_def)
  next
    case False
    have le: "uint (v - 1) \<le> uint v"
      using unat_minus_one [OF False] uint_nat [of v] uint_nat [of "v - 1"] by linarith
    have "\<forall>j < length vs0. uint (vs0[place := v - 1] ! j) \<le> uint (vs0 ! j)"
    proof (intro allI impI)
      fix j assume "j < length vs0"
      then show "uint (vs0[place := v - 1] ! j) \<le> uint (vs0 ! j)"
        using order_trans [OF le i(9)] by (cases "j = place") simp_all
    qed
    then have "\<forall>b\<in>set bs. sem_run (parm_list (world_parms w) (ss_local (w_sem w) b)) (vs0[place := v - 1]) = None"
      using q by (auto intro!: plain_mono [of _ "vs0[place := v - 1]" vs0])
    from a_release_disabled [OF this]
    have "out = Returns 0" "set_values w' sm = vs0[place := v - 1]" "sem_linked (call_state w') (set_of w sm) bs"
      using res run False by auto
    then show ?thesis using c(1) inv' [of "v - 1"] le i(8,9) pv False by (simp add: returned_def)
  qed
qed

interpretation run_stop: drain_loop "drain_inv p l sm bs a place f vs0 m"
  "\<lambda>w. unat (set_values w sm ! place)" "\<lambda>w. returned (plc_synch p w l a)" for p l sm bs a place f vs0 m
proof
  fix w
  assume inv: "drain_inv p l sm bs a place f vs0 m w"
  have len: "place < length (set_values w sm)" using inv by (auto simp: drain_inv_def)
  show "\<exists>w'. returned (plc_synch p w l a) = Some (w', 0) \<and> drain_inv p l sm bs a place f vs0 m w' \<and>
      unat (set_values w' sm ! place) < unat (set_values w sm ! place)"
    if "0 < unat (set_values w sm ! place)"
  proof -
    have nz: "set_values w sm ! place \<noteq> 0" using that by auto
    then have "unat (set_values w sm ! place - 1) < unat (set_values w sm ! place)"
      by (simp add: unat_minus_one that)
    then show ?thesis using drain_step [OF inv] nz len by auto
  qed
  show "\<exists>w'. returned (plc_synch p w l a) = Some (w', -1) \<and> drain_inv p l sm bs a place f vs0 m w' \<and>
      unat (set_values w' sm ! place) = 0"
    if "unat (set_values w sm ! place) = 0"
    using drain_step [OF inv] that by (auto simp: unat_eq_zero)
qed

lemma take_all_empties:
  assumes "drain_inv p l sm bs a place f vs0 m w"
  shows "\<exists>w'. take_all p l a w = Some (w', -1) \<and> drain_inv p l sm bs a place f vs0 m w' \<and>
    set_values w' sm = vs0[place := 0]"
proof -
  have "\<forall>w. take_all p l a w = (case returned (plc_synch p w l a) of None \<Rightarrow> None
      | Some (w1, res) \<Rightarrow> if res \<ge> 0 then take_all p l a w1 else Some (w1, res))"
    by (subst take_all.simps) simp
  from run_stop.drains [OF this assms] obtain w'
    where w': "take_all p l a w = Some (w', -1)" "drain_inv p l sm bs a place f vs0 m w'"
      "unat (set_values w' sm ! place) = 0" by blast
  obtain v where v: "set_values w' sm = vs0[place := v]" "place < length vs0"
    using w'(2) by (auto simp: drain_inv_def)
  then have "v = 0" using w'(3) by (simp add: unat_eq_zero)
  then show ?thesis using w' v by blast
qed

section \<open>The point of the null transition\<close>

text \<open>The system at rest: the memory is tiled, the null transition has no arcs, and every
  process that sleeps does so on a point in a block of its own, with a plain request that
  cannot be done.\<close>

definition mode_ready :: "cmm_proc \<Rightarrow> synch_world \<Rightarrow> synch_lib \<Rightarrow> nat \<Rightarrow> u32 list \<Rightarrow> bool" where
  "mode_ready p w l sm bs \<longleftrightarrow> synch_ready p w l sm bs \<and> cmm_fully_initialized p \<and>
     (\<exists>cs. cmm_chain (w_cmm w) cs \<and> (\<forall>b\<in>set bs. \<exists>c\<in>set cs. \<not> is_free (w_cmm w) c \<and>
        unat (blocked_parm (ss_local (w_sem w) b) - of_nat sizeof_synchpt) = c + 48)) \<and>
     (\<exists>t. plc_transition_null p (w_cmm w) = Some (Some t) \<and> trans_ok (w_trans w t) \<and>
        n_arcs (w_trans w t) = 0) \<and>
     (\<forall>b\<in>set bs. plain (parm_list (world_parms w) (ss_local (w_sem w) b)) \<and>
        sem_run (parm_list (world_parms w) (ss_local (w_sem w) b)) (set_values w sm) = None)"

lemma n_arcs_none: "n_arcs t = 0 \<Longrightarrow> request t opt = []"
proof -
  assume 0: "n_arcs t = 0"
  have "filter (\<lambda>i. w_in t i > 0) [0..<n_places t] = []" "filter (\<lambda>i. w_in t i = 0) [0..<n_places t] = []"
    "filter (\<lambda>i. w_out t i > 0) [0..<n_places t] = []"
    using 0 by (auto simp: n_arcs_def filter_empty_conv)
  then show ?thesis by (simp add: request_def wait_arcs_def null_arcs_def signal_arcs_def)
qed

lemma alloc_was_free:
  assumes ch: "cmm_chain m cs" and new: "cmm_alloc_mem m t s n = Some (m', Some a)"
  shows "\<exists>c\<in>set cs. is_free m c \<and> a = c + 48"
proof (cases rule: alloc_cases [OF ch, of t s n])
  case 1
  then show ?thesis using new by simp
next
  case (2 b)
  then show ?thesis using new by (auto simp: suits_def is_free_def)
qed

lemma null_point_new:
  assumes rd: "mode_ready p w l sm bs" and ex: "0 < unat extra" "unat extra \<le> 65535"
    and new: "null_point p w extra opt = Some (w1, Some a)"
  shows "point_at p w1 a" "arcs (w_synchpt w1 a) = []" "unat (total_entries (w_synchpt w1 a)) = unat extra"
    "sp_sem_flg (w_synchpt w1 a) = blocking_flag opt" "w_sem w1 = w_sem w" "cmm_inv (w_cmm w1)"
    "\<And>b. b \<in> set bs \<Longrightarrow> unat (blocked_parm (ss_local (w_sem w) b) - of_nat sizeof_synchpt) \<noteq> a"
    "\<And>x. x \<noteq> a \<Longrightarrow> w_synchpt w1 x = w_synchpt w x"
proof -
  obtain t cs where t: "plc_transition_null p (w_cmm w) = Some (Some t)" "trans_ok (w_trans w t)"
      "n_arcs (w_trans w t) = 0" and p: "cmm_fully_initialized p"
    and cs: "cmm_chain (w_cmm w) cs" "\<forall>b\<in>set bs. \<exists>c\<in>set cs. \<not> is_free (w_cmm w) c \<and>
        unat (blocked_parm (ss_local (w_sem w) b) - of_nat sizeof_synchpt) = c + 48"
    using rd by (auto simp: mode_ready_def)
  have inv: "cmm_inv (w_cmm w)" using cs by (auto simp: cmm_inv_def)
  have pn: "plc_synchpt_new p w t extra opt = Some (w1, Some a)"
    using new t(1) by (simp add: null_point_def)
  note np = new_point [OF inv p t(2) _ _ pn]
  show "point_at p w1 a" "cmm_inv (w_cmm w1)" "sp_sem_flg (w_synchpt w1 a) = blocking_flag opt"
    using np ex t(3) by simp_all
  show "arcs (w_synchpt w1 a) = []" using np(3) ex t(3) n_arcs_none by simp
  show "unat (total_entries (w_synchpt w1 a)) = unat extra" using np(4) ex t(3) by simp
  obtain m1 where w1: "w1 = w\<lparr>w_cmm := m1, w_synchpt := (w_synchpt w)(a := w_synchpt w1 a)\<rparr>"
    using np(6) ex t(3) by auto
  show "w_sem w1 = w_sem w" by (subst w1) simp
  show "w_synchpt w1 x = w_synchpt w x" if "x \<noteq> a" for x using that by (subst w1) simp
  show "unat (blocked_parm (ss_local (w_sem w) b) - of_nat sizeof_synchpt) \<noteq> a" if b: "b \<in> set bs" for b
  proof
    assume eq: "unat (blocked_parm (ss_local (w_sem w) b) - of_nat sizeof_synchpt) = a"
    obtain c where c: "c \<in> set cs" "\<not> is_free (w_cmm w) c" "a = c + 48" using cs(2) b eq by auto
    let ?n = "arc_count (w_trans w t) extra * 6 + of_nat sizeof_synchpt"
    have "\<exists>m2. cmm_block_alloc p (w_cmm w) block_type_synch_synchpt (Some ''synchpt'') ?n = Some (m2, Some a)"
      using pn by (auto simp: plc_synchpt_new_def Let_def split: option.splits if_splits)
    then obtain m2 where "cmm_alloc_mem (w_cmm w) block_type_synch_synchpt ''synchpt'' ?n = Some (m2, Some a)"
      using p by (auto simp: cmm_block_alloc_def split: if_splits)
    from alloc_was_free [OF cs(1) this] c show False by auto
  qed
qed

text \<open>What the point and the sleepers' arrays are after arcs were added.\<close>

lemma parm_list_other:
  assumes "unat (blocked_parm k - of_nat sizeof_synchpt) \<noteq> a"
    and "\<And>x. x \<noteq> a \<Longrightarrow> w_synchpt w' x = w_synchpt w x"
  shows "parm_list (world_parms w') k = parm_list (world_parms w) k"
  using assms by (simp add: parm_list_def world_parms_def)

definition with_point :: "synch_world \<Rightarrow> nat \<Rightarrow> plc_synchpt \<Rightarrow> synch_world" where
  "with_point w a sp = w\<lparr>w_synchpt := (w_synchpt w)(a := sp)\<rparr>"

lemma add_arc_first:
  assumes "synchpt_ok sp" "arcs sp = []" "0 < unat (total_entries sp)"
  shows "\<exists>sp'. plc_synchpt_add_arc sp weight place = (sp', 0) \<and> synchpt_ok sp' \<and>
    arcs sp' = [arc (sp_sem_flg sp) place weight] \<and> total_entries sp' = total_entries sp \<and>
    sp_sem_flg sp' = sp_sem_flg sp"
  using add_arc_spec [OF assms(1), of weight place] assms(2,3)
  by (cases "weight < 0") (simp_all add: add_spec_def)

lemma point_ready:
  assumes rd: "mode_ready p w l sm bs" and ex: "0 < unat extra" "unat extra \<le> 65535"
    and new: "null_point p w extra opt = Some (w1, Some a)"
    and sp: "synchpt_ok sp" "w2 = with_point w1 a sp"
  shows "synch_ready p w2 l sm bs" "point_at p w2 a" "set_values w2 sm = set_values w sm"
    "\<And>b. b \<in> set bs \<Longrightarrow> parm_list (world_parms w2) (ss_local (w_sem w2) b) =
       parm_list (world_parms w) (ss_local (w_sem w) b)"
    "w_sem w2 = w_sem w" "w_synchpt w2 a = sp" "w_cmm w2 = w_cmm w1"
proof -
  note np = null_point_new [OF rd ex new]
  show sem: "w_sem w2 = w_sem w" and "w_cmm w2 = w_cmm w1" and sa: "w_synchpt w2 a = sp"
    using np(5) sp(2) by (simp_all add: with_point_def)
  have other: "x \<noteq> a \<Longrightarrow> w_synchpt w2 x = w_synchpt w x" for x
    using np(8) sp(2) by (simp add: with_point_def)
  show pl: "parm_list (world_parms w2) (ss_local (w_sem w2) b) =
       parm_list (world_parms w) (ss_local (w_sem w) b)" if "b \<in> set bs" for b
    unfolding sem by (rule parm_list_other [OF np(7) [OF that] other])
  show "set_values w2 sm = set_values w sm" by (simp add: set_values_def set_of_def sem)
  show "point_at p w2 a" using np(1) sp by (simp add: point_at_def with_point_def)
  have "synch_ready p w l sm bs" using rd by (simp add: mode_ready_def)
  then show "synch_ready p w2 l sm bs"
    using pl by (simp add: synch_ready_def sem_linked_def call_state_def set_of_def sem)
qed

lemma free_point_returns:
  assumes "cmm_inv (w_cmm w)" "cmm_fully_initialized p"
  shows "\<exists>w'. free_returning p a r w = Some (w', r) \<and> w_sem w' = w_sem w"
proof -
  obtain cs where "cmm_chain (w_cmm w) cs" using assms(1) by (auto simp: cmm_inv_def)
  then have "\<exists>m k. cmm_block_free p (w_cmm w) (Some a) = Some (m, k)"
    using free_chain assms(2) by (auto simp: cmm_block_free_def)
  then show ?thesis by (auto simp: free_returning_def plc_synchpt_free_def Let_def)
qed

lemma set_values_sem: "w_sem w' = w_sem w \<Longrightarrow> set_values w' sm = set_values w sm"
  by (simp add: set_values_def set_of_def)


lemma null_point_returns:
  assumes rd: "mode_ready p w l sm bs"
  shows "\<exists>w1 r. null_point p w extra opt = Some (w1, r) \<and> w_sem w1 = w_sem w"
proof -
  obtain t cs where t: "plc_transition_null p (w_cmm w) = Some (Some t)" "cmm_fully_initialized p"
      "cmm_chain (w_cmm w) cs"
    using rd by (auto simp: mode_ready_def)
  have "\<exists>m r. cmm_block_alloc p (w_cmm w) block_type_synch_synchpt (Some ''synchpt'') n = Some (m, r)" for n
    by (cases rule: alloc_cases [OF t(3), of block_type_synch_synchpt "''synchpt''" n])
      (auto simp: cmm_block_alloc_def t(2))
  then obtain m r where "cmm_block_alloc p (w_cmm w) block_type_synch_synchpt (Some ''synchpt'')
      (arc_count (w_trans w t) extra * 6 + of_nat sizeof_synchpt) = Some (m, r)" by blast
  then show ?thesis using t(1)
    by (auto simp: null_point_def plc_synchpt_new_def Let_def split: option.splits)
qed

text \<open>A point with the one arc that takes a token.\<close>

lemma take_point:
  assumes rd: "mode_ready p w l sm bs" and ex: "0 < unat extra" "unat extra \<le> 65535"
    and new: "null_point p w extra plc_synchpt_nonblocking = Some (w1, Some a)"
    and pl: "place < length (set_values w sm)" "place < 65536"
  shows "\<exists>w2. add_arc_at w1 a (-1) (int place) = (w2, 0) \<and>
    drain_inv p l sm bs a place IPC_NOWAIT (set_values w sm) (w_cmm w1) w2 \<and>
    set_values w2 sm = set_values w sm \<and> unat (total_entries (w_synchpt w2 a)) = unat extra \<and>
    (\<exists>sp. w2 = with_point w1 a sp \<and> synchpt_ok sp \<and> sp_sem_flg sp = IPC_NOWAIT)"
proof -
  note np = null_point_new [OF rd ex new]
  have flg: "sp_sem_flg (w_synchpt w1 a) = IPC_NOWAIT" using np(4) by (simp add: blocking_flag_def)
  have ok: "synchpt_ok (w_synchpt w1 a)" using np(1) by (simp add: point_at_def)
  obtain sp where sp: "plc_synchpt_add_arc (w_synchpt w1 a) (-1) (int place) = (sp, 0)" "synchpt_ok sp"
      "arcs sp = [arc IPC_NOWAIT (int place) (-1)]" "total_entries sp = total_entries (w_synchpt w1 a)"
      "sp_sem_flg sp = IPC_NOWAIT"
    using add_arc_first [OF ok np(2), of "-1" "int place"] np(3) ex flg by auto
  define w2 where "w2 = with_point w1 a sp"
  note pr = point_ready [OF rd ex new sp(2) w2_def]
  have sem: "w_sem w2 = w_sem w" by (rule pr(5))
  have req: "reqs_ok (length (set_values w sm)) (parm_list (world_parms w) (ss_local (w_sem w) b))"
    if "b \<in> set bs" for b
    using rd that by (auto simp: mode_ready_def synch_ready_def sem_linked_def call_state_def set_of_def set_values_def)
  have "IPC_NOWAIT \<noteq> 0" by (simp add: IPC_NOWAIT_def)
  moreover have "\<exists>v. set_values w2 sm = (set_values w sm)[place := v] \<and> uint v \<le> uint (set_values w sm ! place)"
    using pr(3) by (intro exI [of _ "set_values w sm ! place"]) simp
  moreover have "\<forall>b\<in>set bs. plain (parm_list (world_parms w2) (ss_local (w_sem w2) b)) \<and>
        reqs_ok (length (set_values w sm)) (parm_list (world_parms w2) (ss_local (w_sem w2) b)) \<and>
        sem_run (parm_list (world_parms w2) (ss_local (w_sem w2) b)) (set_values w sm) = None"
    using rd req by (simp add: pr(4) mode_ready_def)
  ultimately have "drain_inv p l sm bs a place IPC_NOWAIT (set_values w sm) (w_cmm w1) w2"
    using pr(1,2,6,7) pl sp(3) by (simp add: drain_inv_def)
  moreover have "add_arc_at w1 a (-1) (int place) = (w2, 0)"
    by (simp add: add_arc_at_def sp(1) w2_def with_point_def)
  ultimately show ?thesis using pr(3,6) sp np(3) w2_def by auto
qed

text \<open>The same point with a second arc, which puts the token back.\<close>

lemma peek_run:
  assumes "place < length vs" "place < 65536"
  shows "sem_run [arc f (int place) (-1), arc f (int place) 1] vs =
    (if vs ! place = 0 then None else Some vs)"
proof -
  have n: "unat (sem_num (arc f (int place) w)) = place" for w by (rule arc_place [OF assms(2)])
  have put: "sem_run [arc f (int place) 1] us = Some (us[place := us ! place + 1])" for us
  proof -
    have "0 \<le> uint (us ! place) + 1" using uint_ge_0 [of "us ! place"] by linarith
    moreover have "(word_of_int (uint (us ! place) + 1) :: u32) = us ! place + 1"
      by (simp add: wi_hom_add [symmetric])
    ultimately show ?thesis using n [of 1] by (simp add: Let_def)
  qed
  have "sem_run ([arc f (int place) (-1)] @ [arc f (int place) 1]) vs =
      (if vs ! place = 0 then None else Some vs)"
    unfolding sem_run_append using assms by (simp add: take_run put del: sem_run.simps)
  then show ?thesis by simp
qed

lemma peek_point:
  assumes rd: "mode_ready p w l sm bs"
    and new: "null_point p w 2 plc_synchpt_nonblocking = Some (w1, Some a)"
    and pl: "place < length (set_values w sm)" "place < 65536"
  shows "\<exists>w2 w3 w4. add_arc_at w1 a (-1) (int place) = (w2, 0) \<and> add_arc_at w2 a 1 (int place) = (w3, 0) \<and>
    returned (plc_synch p w3 l a) = Some (w4, if set_values w sm ! place = 0 then -1 else 0) \<and>
    set_values w4 sm = set_values w sm \<and> w_cmm w4 = w_cmm w1"
proof -
  have ex: "0 < unat (2 :: u32)" "unat (2 :: u32) \<le> 65535" by simp_all
  let ?arcs = "[arc IPC_NOWAIT (int place) (-1), arc IPC_NOWAIT (int place) 1]"
  obtain w2 sp where w2: "add_arc_at w1 a (-1) (int place) = (w2, 0)" "w2 = with_point w1 a sp"
      "synchpt_ok sp" "sp_sem_flg sp = IPC_NOWAIT" "unat (total_entries (w_synchpt w2 a)) = 2"
      "drain_inv p l sm bs a place IPC_NOWAIT (set_values w sm) (w_cmm w1) w2"
    using take_point [OF rd ex new pl] by auto
  have as: "arcs sp = [arc IPC_NOWAIT (int place) (-1)]" "unat (total_entries sp) = 2"
    using w2(2,5,6) by (simp_all add: drain_inv_def with_point_def)
  have "add_spec IPC_NOWAIT 2 1 (int place) [arc IPC_NOWAIT (int place) (-1)] = Some ?arcs"
    by (simp add: add_spec_def on_arc_def same_direction_def)
  with add_arc_spec [OF w2(3), of 1 "int place"] obtain sp2
    where sp2: "plc_synchpt_add_arc sp 1 (int place) = (sp2, 0)" "synchpt_ok sp2" "arcs sp2 = ?arcs"
    by (auto simp: as w2(4))
  define w3 where "w3 = with_point w1 a sp2"
  note pr = point_ready [OF rd ex new sp2(2) w3_def]
  have w3: "add_arc_at w2 a 1 (int place) = (w3, 0)"
    by (simp add: add_arc_at_def sp2(1) w2(2) w3_def with_point_def)
  have ok: "reqs_ok (length (set_values w3 sm)) (arcs (w_synchpt w3 a))"
    using arc_place [OF pl(2)] pl(1) by (simp add: pr(3,6) sp2(3) del: arc_sel)
  have run: "sem_run (arcs (w_synchpt w3 a)) (set_values w3 sm) =
      (if set_values w sm ! place = 0 then None else Some (set_values w sm))"
    using peek_run [OF pl] by (simp only: pr(3,6) sp2(3))
  have "\<forall>b\<in>set bs. sem_run (parm_list (world_parms w3) (ss_local (w_sem w3) b)) (set_values w sm) = None"
    using rd by (simp add: pr(4) mode_ready_def)
  note none = a_release_disabled [OF this]
  obtain w4 out where c: "plc_synch p w3 l a = Some (w4, out)" "w_cmm w4 = w_cmm w3"
    and res: "case sem_run (arcs (w_synchpt w3 a)) (set_values w3 sm) of
       Some vs1 \<Rightarrow> out = Returns 0 \<and>
         (\<exists>bs' rs. a_release (\<lambda>b. parm_list (world_parms w3) (ss_local (w_sem w3) b)) vs1 bs =
            (set_values w4 sm, bs', rs))
     | None \<Rightarrow> set_values w4 sm = set_values w3 sm \<and>
         out = (if sem_flg (arcs (w_synchpt w3 a) ! stuck_at (arcs (w_synchpt w3 a)) (set_values w3 sm)) \<noteq> 0
                then Returns (-1) else Sleeps)"
    using plc_synch_request [OF pr(1,2) ok] by (fastforce split: option.splits simp: Let_def)
  have "returned (plc_synch p w3 l a) = Some (w4, if set_values w sm ! place = 0 then -1 else 0) \<and>
      set_values w4 sm = set_values w sm"
  proof (cases "set_values w sm ! place = 0")
    case True
    let ?k = "stuck_at ?arcs (set_values w sm)"
    have "sem_run ?arcs (set_values w sm) = None" using peek_run [OF pl, of IPC_NOWAIT] True by simp
    from stuck_at_less [OF this] have "?k < 2" by simp
    then have "sem_flg (?arcs ! ?k) = IPC_NOWAIT" by (auto simp: less_2_cases_iff)
    then show ?thesis using res c(1) run True by (simp add: pr(3,6) sp2(3) returned_def IPC_NOWAIT_def)
  next
    case False
    then show ?thesis using res c(1) run none by (auto simp: returned_def)
  qed
  then show ?thesis using w2(1) w3 c(2) pr(7) by auto
qed



text \<open>C14. Asking for the mode reads it: the answer is 1 when the place of the module has a token and 0 when it
  has none, whatever the other tokens are, and the call leaves them as they were (it takes the token
  and puts it back in one step, and wakes nobody). Starting what runs already changes nothing.\<close>

theorem state_mode_reads:
  assumes "mode_ready p w l sm bs" "place < length (set_values w sm)" "place < 65536"
  shows "\<exists>w' r. get_runstop_mode p w l (int place) = Some (w', r) \<and> set_values w' sm = set_values w sm \<and>
    r = (case null_point p w 2 plc_synchpt_nonblocking of
           Some (_, Some a) \<Rightarrow> if set_values w sm ! place = 0 then 0 else 1
         | _ \<Rightarrow> -1) \<and>
    (r = 1 \<longrightarrow> activate_run_mode p w l (int place) = Some (w', 0))"
proof -
  obtain w1 r1 where np: "null_point p w 2 plc_synchpt_nonblocking = Some (w1, r1)" "w_sem w1 = w_sem w"
    using null_point_returns [OF assms(1)] by blast
  have "\<exists>w' r. get_runstop_mode p w l (int place) = Some (w', r) \<and> set_values w' sm = set_values w sm \<and>
    r = (case null_point p w 2 plc_synchpt_nonblocking of
           Some (_, Some a) \<Rightarrow> if set_values w sm ! place = 0 then 0 else 1
         | _ \<Rightarrow> -1)"
  proof (cases r1)
    case None
    then show ?thesis using np set_values_sem [OF np(2)] by (simp add: get_runstop_mode_def)
  next
    case (Some a)
    let ?r = "if set_values w sm ! place = 0 then 0 else 1 :: int"
    obtain w2 w3 w4 where w: "add_arc_at w1 a (-1) (int place) = (w2, 0)" "add_arc_at w2 a 1 (int place) = (w3, 0)"
        "returned (plc_synch p w3 l a) = Some (w4, if set_values w sm ! place = 0 then -1 else 0)"
        "set_values w4 sm = set_values w sm" "w_cmm w4 = w_cmm w1"
      using peek_point [OF assms(1) np(1) [unfolded Some] assms(2,3)] by blast
    have p: "cmm_fully_initialized p" using assms(1) by (simp add: mode_ready_def)
    have "cmm_inv (w_cmm w4)" using null_point_new(6) [OF assms(1) _ _ np(1) [unfolded Some]] w(5) by simp
    from free_point_returns [OF this p, of a ?r] obtain w5
      where "free_returning p a ?r w4 = Some (w5, ?r)" "w_sem w5 = w_sem w4" by blast
    then show ?thesis using np(1) Some w set_values_sem [of w5 w4]
      by (cases "set_values w sm ! place = 0") (simp_all add: get_runstop_mode_def)
  qed
  then show ?thesis by (auto simp: activate_run_mode_def)
qed


section \<open>A system at rest\<close>

text \<open>The segment holds the null transition, of one place and no arcs; the place has one token.\<close>

definition t_null :: plc_transition where
  "t_null = \<lparr>tr_magic = TRANSITION_MAGIC, tr_place_count = 1, wait_values = [-1], signal_values = [-1]\<rparr>"

definition m_null :: mem where
  "m_null = cmm_take m_fresh 20 block_type_synch_transition ''NULL'' 16"

definition w_null :: synch_world where
  "w_null = w_start\<lparr>w_cmm := m_null, w_trans := (\<lambda>_. t_null)\<rparr>"

lemma null_splits: "splits m_fresh 20 16"
  by (simp add: splits_def m_fresh_def format_fields sizeof_block_def)

lemma null_chain: "cmm_chain m_null [20, 84]"
proof -
  have "cmm_chain m_null (chain_take m_fresh [20] 20 16)"
    unfolding m_null_def by (rule chain_take_chain [OF fresh_chain]) (simp_all add: m_fresh_def format_fields suits_def)
  then show ?thesis using null_splits by (simp add: chain_take_def rest_of_def sizeof_block_def)
qed

lemma null_fields:
  "blk_type m_null 20 = block_type_num block_type_synch_transition" "blk_type m_null 84 = 1"
  "blk_size m_null 84 = 368" "cmm_find_mem m_null block_type_synch_transition ''NULL'' = Some (Some (68, 16))"
proof -
  have z: "16 \<le> blk_size m_fresh 20" by (simp add: m_fresh_def format_fields)
  have r: "rest_of 20 16 = 84" by (simp add: rest_of_def sizeof_block_def)
  note tf = take_fields [OF order_refl z, where t = block_type_synch_transition and s = "''NULL''"]
  show t: "blk_type m_null 20 = block_type_num block_type_synch_transition"
    unfolding m_null_def by (rule tf(1))
  show "blk_type m_null 84 = 1" using tf(11) [OF null_splits] by (simp add: m_null_def r)
  show "blk_size m_null 84 = 368" using tf(12) [OF null_splits]
    by (simp add: m_null_def r) (simp add: m_fresh_def format_fields)
  have "blk_size m_null 20 = 16" using tf(9) null_splits by (simp add: m_null_def)
  moreover have "answers m_null block_type_synch_transition ''NULL'' 20"
    using t take_named [OF order_refl z, of "''NULL''"] by (simp add: answers_def m_null_def c_string_def)
  ultimately show "cmm_find_mem m_null block_type_synch_transition ''NULL'' = Some (Some (68, 16))"
    by (simp add: chain_find' [OF null_chain])
qed

lemma null_alloc: "\<exists>m1. cmm_alloc_mem m_null t s n = Some (m1, Some 132)" if "n \<le> 368"
proof -
  have "suits m_null n 84" "\<not> suits m_null n 20" using null_fields that by (simp_all add: suits_def)
  then show ?thesis
    by (cases rule: alloc_cases [OF null_chain, of t s n]) (auto simp: best_fit_def)
qed

lemma null_ready: "mode_ready p_ready w_null lib_start 400 []" "set_values w_null 400 = [1]"
proof -
  have rd: "synch_ready p_ready w_null lib_start 400 []" "set_values w_null 400 = [1]"
    using start_ready [of w_null] by (simp_all add: w_null_def w_start_def)
  then show "set_values w_null 400 = [1]" by simp
  have tn: "plc_transition_null p_ready (w_cmm w_null) = Some (Some 68)"
    by (simp add: plc_transition_null_def plc_transition_by_name_def cmm_block_find_def w_null_def null_fields ptr_and_size_def)
  have "trans_ok t_null" "n_arcs t_null = 0"
    by (simp_all add: t_null_def trans_ok_def n_arcs_def n_places_def w_in_def w_out_def)
  then show "mode_ready p_ready w_null lib_start 400 []"
    using rd null_chain tn unfolding mode_ready_def by (auto simp: w_null_def)
qed

lemma null_point_made: "n \<le> 50 \<Longrightarrow> \<exists>w1. null_point p_ready w_null n opt = Some (w1, Some 132)"
proof -
  assume n: "n \<le> 50"
  have tn: "plc_transition_null p_ready (w_cmm w_null) = Some (Some 68)"
    by (simp add: plc_transition_null_def plc_transition_by_name_def cmm_block_find_def w_null_def null_fields ptr_and_size_def)
  have c: "arc_count t_null n = n"
    by (simp add: arc_count_n n_arcs_def n_places_def w_in_def w_out_def t_null_def)
  have un: "unat n \<le> 50" using n by (simp add: word_le_nat_alt)
  then have z: "unat (n * 6 + 8) = unat n * 6 + 8" by (simp add: unat_word_ariths)
  then have nz: "n * 6 + 8 \<noteq> 0" by auto
  have "n * 6 + 8 \<le> 368" using z un by (simp add: word_le_nat_alt)
  from null_alloc [OF this] obtain m1
    where "cmm_alloc_mem m_null block_type_synch_synchpt ''synchpt'' (n * 6 + 8) = Some (m1, Some 132)" by blast
  then have al: "cmm_block_alloc p_ready m_null block_type_synch_synchpt (Some ''synchpt'') (n * 6 + 8) = Some (m1, Some 132)"
    using alloc_ready [OF p_ready_init nz] by simp
  have "uint n \<le> 50" using un uint_nat [of n] by linarith
  then have "signed_take_bit 31 (uint n) = uint n"
    using order_trans [OF _ uint_ge_0 [of n], of "- (2 ^ 31)"] by (intro signed_take_bit_int_eq_self) simp_all
  then have "sint n = uint n" using sint_uint [of n] by simp
  then have "sint n \<le> 65535" using \<open>uint n \<le> 50\<close> by linarith
  moreover have "w_trans w_null 68 = t_null" "w_cmm w_null = m_null" "tr_magic t_null = TRANSITION_MAGIC"
    by (simp_all add: w_null_def t_null_def)
  ultimately show ?thesis using tn al
    by (simp add: null_point_def plc_synchpt_new_def c sizeof_synchpt_def Let_def)
qed


lemma state_mode_reads_witness:
  "\<exists>w'. get_runstop_mode p_ready w_null lib_start 0 = Some (w', 1) \<and> set_values w' 400 = [1] \<and>
     activate_run_mode p_ready w_null lib_start 0 = Some (w', 0)"
proof -
  obtain w1 where "null_point p_ready w_null 2 plc_synchpt_nonblocking = Some (w1, Some 132)"
    using null_point_made [of 2] by auto
  then show ?thesis using state_mode_reads [OF null_ready(1), of 0] null_ready(2) by auto
qed

end
