(* ===== verification/SynchNet.thy ===== *)
theory SynchNet
  imports SynchSetup StateProps
begin

text \<open>
  What the setup of the synchronisation library builds: the net that the simple table stands for
  (\<open>simple_synch_net\<close>), the weights an arrow may have (\<open>arrow_weights\<close>), and the
  transitions in the shared memory, which fire as the matrices say (\<open>stored_transitions_fire\<close>).
\<close>

section \<open>Names and matrices\<close>

lemma list_index_in:
  assumes "x \<in> set lst"
  shows "\<exists>i < length lst. list_index lst x = int i \<and> lst ! i = x"
proof -
  let ?i = "length (takeWhile (\<lambda>y. c_strcmp x y \<noteq> 0) lst)"
  have i: "?i < length lst" using assms
  proof (induction lst)
    case (Cons y lst)
    then show ?case by (cases "x = y") auto
  qed simp
  then have "\<not> c_strcmp x (lst ! ?i) \<noteq> 0" by (rule nth_length_takeWhile)
  then show ?thesis using i by (intro exI [of _ ?i]) (simp add: list_index_def Let_def)
qed

lemma list_index_notin: "x \<notin> set lst \<Longrightarrow> list_index lst x = -1"
proof -
  assume "x \<notin> set lst"
  then have "takeWhile ((\<noteq>) x) lst = lst" by (auto simp: takeWhile_eq_all_conv)
  then have "length (takeWhile ((\<noteq>) x) lst) = length lst" by (rule arg_cong)
  then show ?thesis by (simp add: list_index_def Let_def)
qed

lemma list_index_sign: "0 \<le> list_index lst x \<longleftrightarrow> x \<in> set lst" "list_index lst x < 0 \<longleftrightarrow> x \<notin> set lst"
  using list_index_in [of x lst] list_index_notin [of x lst] by fastforce+

lemma list_index_distinct: "distinct lst \<Longrightarrow> i < length lst \<Longrightarrow> list_index lst (lst ! i) = int i"
  using list_index_in [of "lst ! i" lst] nth_eq_iff_index_eq [of lst] by fastforce

text \<open>A matrix of the shape it was made with.\<close>

definition mat_ok :: "matrix option \<Rightarrow> nat \<Rightarrow> nat \<Rightarrow> bool" where
  "mat_ok m c l \<longleftrightarrow> (\<exists>m1. m = Some m1 \<and> mat_columns m1 = int c \<and> length (mat_data m1) = l * c)"

lemma mat_index: "i < c \<Longrightarrow> k < l \<Longrightarrow> k * c + i < l * (c :: nat)"
proof -
  assume "i < c" "k < l"
  then have "k * c + i < (k + 1) * c" by simp
  also have "\<dots> \<le> l * c" using \<open>k < l\<close> by (intro mult_le_mono1) simp
  finally show ?thesis .
qed

lemma mat_index_inj: "i < c \<Longrightarrow> j < (c :: nat) \<Longrightarrow> k * c + i = k' * c + j \<longleftrightarrow> k = k' \<and> i = j"
proof -
  assume c: "i < c" "j < c"
  have "(k * c + i) div c = k" "(k * c + i) mod c = i" "(k' * c + j) div c = k'" "(k' * c + j) mod c = j"
    using c by simp_all
  then show ?thesis by metis
qed

lemma mat_get_eq:
  assumes "mat_ok (Some m) c l" "i < c" "k < l"
  shows "matrix_get m (int i) (int k) = Some (mat_data m ! (k * c + i))"
proof -
  have "int k * mat_columns m + int i = int (k * c + i)" using assms(1) by (simp add: mat_ok_def)
  moreover have "k * c + i < length (mat_data m)" using mat_index [OF assms(2,3)] assms(1) by (simp add: mat_ok_def)
  ultimately show ?thesis by (simp add: matrix_get_def Let_def del: of_nat_add of_nat_mult)
qed

lemma mat_set_get:
  assumes "mat_ok m c l" "i < c" "k < l"
  shows "\<exists>m'. set_through m (int i) (int k) v = Some m' \<and> mat_ok (Some m') c l \<and>
    (\<forall>i' < c. \<forall>k' < l. get_through (Some m') (int i') (int k') =
       (if i' = i \<and> k' = k then Some v else get_through m (int i') (int k')))"
proof -
  obtain m1 where m: "m = Some m1" "mat_columns m1 = int c" "length (mat_data m1) = l * c"
    using assms(1) by (auto simp: mat_ok_def)
  let ?m = "m1\<lparr>mat_data := (mat_data m1)[k * c + i := v]\<rparr>"
  have ix: "int k * mat_columns m1 + int i = int (k * c + i)" using m by simp
  have lt: "k * c + i < length (mat_data m1)" using mat_index [OF assms(2,3)] m by simp
  have st: "set_through m (int i) (int k) v = Some ?m"
    using ix lt m(1) by (simp add: set_through_def matrix_set_def Let_def del: of_nat_add of_nat_mult)
  have ok: "mat_ok (Some m1) c l" "mat_ok (Some ?m) c l" using m by (simp_all add: mat_ok_def)
  have "get_through (Some ?m) (int i') (int k') =
      (if i' = i \<and> k' = k then Some v else get_through m (int i') (int k'))" if "i' < c" "k' < l" for i' k'
    using mat_get_eq [OF ok(1) that] mat_get_eq [OF ok(2) that] mat_index_inj [OF that(1) assms(2), of k' k] lt m(1)
    by (auto simp: get_through_def nth_list_update)
  then show ?thesis using st ok(2) by blast
qed

lemma mat_new:
  "mat_ok (Some (matrix_new (int c) (int l) v)) c l"
  "i < c \<Longrightarrow> k < l \<Longrightarrow> get_through (Some (matrix_new (int c) (int l) v)) (int i) (int k) = Some v"
proof -
  have "nat (int l * int c) = l * c" by (simp add: nat_mult_distrib)
  then show ok: "mat_ok (Some (matrix_new (int c) (int l) v)) c l" by (simp add: mat_ok_def matrix_new_def)
  show "get_through (Some (matrix_new (int c) (int l) v)) (int i) (int k) = Some v" if "i < c" "k < l"
    using mat_get_eq [OF ok that] mat_index [OF that] \<open>nat (int l * int c) = l * c\<close>
    by (simp add: get_through_def matrix_new_def)
qed

section \<open>Reading rows, and \<^verbatim>\<open>errno\<close>\<close>

lemma str_i32_range [simp]: "string_str_to_i32 True s mn mx = (True, None)"
  by (cases s) (simp_all add: string_str_to_i32_def str_to_type_def split: prod.splits)

text \<open>After a range error only arrows without a number are read; they are read as ever.\<close>

lemma arrow_form:
  "\<exists>bad n. \<forall>e. synch_parse_arc_weight vmx e s =
     (if bad then (e, -1) else if n = [] then (e, 1)
      else case string_str_to_i32 e (Some n) 0 (to_i32 vmx) of (e1, None) \<Rightarrow> (e1, -1) | (e1, Some w) \<Rightarrow> (e1, w))"
  unfolding synch_parse_arc_weight_def Let_def string_str_to_int_def SYNCH_ARCS_DEF_WEIGHT_def
  by (intro exI allI) (rule refl)

lemma arrow_range:
  "\<exists>w. synch_parse_arc_weight vmx True s = (True, w) \<and>
     (0 < w \<longrightarrow> (\<forall>e. synch_parse_arc_weight vmx e s = (e, w)))"
proof -
  obtain bad n where f: "\<forall>e. synch_parse_arc_weight vmx e s =
     (if bad then (e, -1) else if n = [] then (e, 1)
      else case string_str_to_i32 e (Some n) 0 (to_i32 vmx) of (e1, None) \<Rightarrow> (e1, -1) | (e1, Some w) \<Rightarrow> (e1, w))"
    using arrow_form by blast
  show ?thesis by (simp add: f)
qed

lemma row_range:
  "\<exists>r. simple_row vmx cf i True = (True, r) \<and> (\<forall>x e. r = Some x \<longrightarrow> simple_row vmx cf i e = (e, Some x))"
proof (cases "plc_cell cf ''synch'' i 0 = None \<or> plc_cell cf ''synch'' i 1 = None \<or> plc_cell cf ''synch'' i 2 = None")
  case True
  then show ?thesis by (auto simp: simple_row_def split: option.splits)
next
  case False
  then obtain a s b where c: "plc_cell cf ''synch'' i 0 = Some a" "plc_cell cf ''synch'' i 1 = Some s"
      "plc_cell cf ''synch'' i 2 = Some b" by auto
  obtain w where "synch_parse_arc_weight vmx True s = (True, w)"
      "0 < w \<longrightarrow> (\<forall>e. synch_parse_arc_weight vmx e s = (e, w))"
    using arrow_range [of vmx s] by blast
  then show ?thesis by (auto simp: simple_row_def c)
qed

lemma row_mono:
  assumes "simple_row vmx cf i e = (e1, r)"
  shows "e \<Longrightarrow> e1" "e \<longrightarrow> e' \<Longrightarrow> snd (simple_row vmx cf i e') = Some x \<Longrightarrow> r = Some x"
proof -
  obtain r0 where t: "simple_row vmx cf i True = (True, r0)"
      and f: "\<And>x e. r0 = Some x \<Longrightarrow> simple_row vmx cf i e = (e, Some x)"
    using row_range [of vmx cf i] by blast
  show "e1" if e using assms t that by simp
  show "r = Some x" if imp: "e \<longrightarrow> e'" and x: "snd (simple_row vmx cf i e') = Some x"
  proof (cases "e = e'")
    case True
    then show ?thesis using assms x by simp
  next
    case False
    then have "e' = True" using imp by blast
    then have "r0 = Some x" using x t by simp
    from f [OF this, of e] show ?thesis using assms by simp
  qed
qed

lemma row_false: "simple_row vmx cf i e = (ea, r) \<Longrightarrow> \<not> ea \<Longrightarrow> snd (simple_row vmx cf i False) = r"
  using row_mono(1) [of vmx cf i e ea r] by (cases e) auto

lemma decimal_no_mark: "c \<in> set (decimal n) \<Longrightarrow> c \<notin> set '')->'' \<and> c \<noteq> CHR ''(''"
proof -
  assume "c \<in> set (decimal n)"
  then obtain d where d: "d < 10" "c = digit_char d" using decimal_digits by blast
  then have "of_char c = 48 + d" "d < 10" by (simp_all add: digit_char_code)
  then have "c \<noteq> CHR '')'' \<and> c \<noteq> CHR ''-'' \<and> c \<noteq> CHR ''>'' \<and> c \<noteq> CHR ''(''" by auto
  then show ?thesis by simp
qed

lemma drop_replicate: "P x \<Longrightarrow> dropWhile P (replicate a x @ ys) = dropWhile P ys"
  by (induction a) auto

lemma no_number: "snd (string_str_to_int e (Some s) 0 (-1)) = None"
  unfolding string_str_to_int_def string_str_to_i32_def str_to_type_def Let_def option.simps
  by (auto split: prod.split)

lemma arrow_cases: "snd (if A then (e, -1) else if B then (e, 1) else (x :: bool, -1)) \<in> {-1, 1 :: int}"
  by simp

lemma arrow_posix: "snd (synch_parse_arc_weight PLCSYNCHSEMVMX e s) \<in> {-1, 1}"
proof -
  have v: "to_i32 PLCSYNCHSEMVMX = -1" by (simp add: PLCSYNCHSEMVMX_def to_i32_def)
  define f where "f e s = fst (string_str_to_int e (Some s) 0 (-1))" for e s
  have f: "string_str_to_int e (Some s) 0 (-1) = (f e s, None)" for e s
    using no_number [of e s] by (simp add: f_def prod_eq_iff)
  show ?thesis unfolding synch_parse_arc_weight_def SYNCH_ARCS_DEF_WEIGHT_def Let_def v f prod.case option.case
    by (rule arrow_cases)
qed

text \<open>The weight of an arrow of the configuration is the number that stands in it, with or without
  parentheses, between any number of dashes, when the sets of semaphores are those of System V.
  With POSIX semaphores no number can be given: the greatest weight, the greatest unsigned
  integer, is -1 as the bound of the number, so that every arrow has weight 1 or is an error.\<close>

theorem arrow_weights:
  assumes "0 < n" "n \<le> 32767" "l = '''' \<or> l = ''(''" "r = '''' \<or> r = '')''"
  shows "synch_parse_arc_weight SEMVMX False
      (replicate a (CHR ''-'') @ l @ decimal n @ r @ replicate b (CHR ''-'') @ ''>'') = (False, int n) \<and>
    (\<forall>e s. snd (synch_parse_arc_weight PLCSYNCHSEMVMX e s) \<in> {-1, 1})"
proof
  let ?rest = "r @ replicate b (CHR ''-'') @ ''>''"
  obtain c cs where c: "decimal n = c # cs" using decimal_ne [of n] by (cases "decimal n") auto
  have marks: "\<forall>x\<in>set (decimal n). x \<notin> set '')->''" "c \<noteq> CHR ''(''" "c \<noteq> CHR ''-''"
    using decimal_no_mark [of _ n] c by auto
  have d1: "dropWhile (\<lambda>c. c = CHR ''-'') (replicate a (CHR ''-'') @ l @ decimal n @ ?rest) = l @ decimal n @ ?rest"
    using assms(3) marks(3) c by (auto simp: drop_replicate)
  have hd: "?rest \<noteq> [] \<and> hd ?rest \<in> set '')->''" using assms(4) by (cases b) auto
  then obtain x xs where x: "?rest = x # xs" "x \<in> set '')->''" by (cases ?rest) auto
  have tw: "takeWhile (\<lambda>c. c \<notin> set '')->'') (decimal n @ ?rest) = decimal n"
    "dropWhile (\<lambda>c. c \<notin> set '')->'') (decimal n @ ?rest) = ?rest"
    unfolding x(1) using marks(1) x(2)
    by (simp_all only: takeWhile_append2 dropWhile_append2 takeWhile.simps dropWhile.simps if_False append_Nil2 not_not simp_thms)
  have d2: "dropWhile (\<lambda>c. c = CHR ''-'') (replicate b (CHR ''-'') @ ''>'') = ''>''"
    by (simp add: drop_replicate)
  have strip: "(if ?rest \<noteq> [] \<and> hd ?rest = CHR '')'' then tl ?rest else ?rest) = replicate b (CHR ''-'') @ ''>''"
    using assms(4) by (cases b) auto
  have par: "(if l @ decimal n @ ?rest \<noteq> [] \<and> hd (l @ decimal n @ ?rest) = CHR ''('' then tl (l @ decimal n @ ?rest)
      else l @ decimal n @ ?rest) = decimal n @ ?rest"
    using assms(3) marks(2) c by auto
  have "to_i32 SEMVMX = 32767" by (simp add: SEMVMX_def to_i32_def)
  then have num: "string_str_to_int False (Some (decimal n)) 0 (to_i32 SEMVMX) = (False, Some (int n))"
    using decimal_read [OF assms(1), of 0 32767] assms(2) by (simp add: string_str_to_int_def)
  show "synch_parse_arc_weight SEMVMX False
      (replicate a (CHR ''-'') @ l @ decimal n @ ?rest) = (False, int n)"
    unfolding synch_parse_arc_weight_def Let_def d1 par tw strip d2 using num by (simp add: decimal_ne)
next
  show "\<forall>e s. snd (synch_parse_arc_weight PLCSYNCHSEMVMX e s) \<in> {-1, 1}" by (simp only: arrow_posix simp_thms)
qed

lemma arrow_weights_witness:
  "synch_parse_arc_weight SEMVMX False ''-(7)->'' = (False, 7)"
proof -
  have "decimal 7 = ''7''" by code_simp
  then show ?thesis using arrow_weights [of 7 "''(''" "'')''" 1 1] by simp
qed

text \<open>The rows that count, when no number in the table is out of range.\<close>

definition rows_at :: "int \<Rightarrow> conffile \<Rightarrow> int list \<Rightarrow> (string \<times> int \<times> string) list" where
  "rows_at vmx cf is = List.map_filter (\<lambda>i. snd (simple_row vmx cf i False)) is"

definition modules_of :: "(string \<times> int \<times> string) list \<Rightarrow> string set" where
  "modules_of rs = (\<Union>(n1, w, n3) \<in> set rs. {n1, n3})"

definition transitions_of :: "string set \<Rightarrow> string set" where
  "transitions_of ms = (\<lambda>m. m @ ''.beg'') ` ms \<union> (\<lambda>m. m @ ''.end'') ` ms"

lemma rows_at_simps [simp]:
  "rows_at vmx cf [] = []"
  "rows_at vmx cf (i # is) =
     (case snd (simple_row vmx cf i False) of None \<Rightarrow> rows_at vmx cf is | Some x \<Rightarrow> x # rows_at vmx cf is)"
  by (simp_all add: rows_at_def List.map_filter_def split: option.splits)

lemma modules_of_simps [simp]:
  "modules_of [] = {}" "modules_of ((a, w, b) # rs) = insert a (insert b (modules_of rs))"
  by (auto simp: modules_of_def)


section \<open>The loops over the simple table\<close>

lemma append_missing:
  "set (list_append_if_missing lst x suf) = insert (x @ suf) (set lst)"
  "distinct lst \<Longrightarrow> distinct (list_append_if_missing lst x suf)"
  using list_index_sign(1) [of lst "x @ suf"]
  by (auto simp: list_append_if_missing_def strdup2_def Let_def)

lemma add_modules_ok:
  "set (pn_places (add_modules pn a b)) = {a, b} \<union> set (pn_places pn)"
  "distinct (pn_places pn) \<Longrightarrow> distinct (pn_places (add_modules pn a b))"
  "distinct (pn_transitions pn) \<Longrightarrow> distinct (pn_transitions (add_modules pn a b))"
  "set (pn_transitions (add_modules pn a b)) = transitions_of {a, b} \<union> set (pn_transitions pn)"
  by (auto simp: add_modules_def Let_def append_missing transitions_of_def)

lemma transitions_of_un: "transitions_of (A \<union> B) = transitions_of A \<union> transitions_of B"
  by (auto simp: transitions_of_def)

text \<open>The names in a net: every module has its two transitions.\<close>

definition names_ok :: "petri_net_t \<Rightarrow> bool" where
  "names_ok pn \<longleftrightarrow> distinct (pn_places pn) \<and> distinct (pn_transitions pn) \<and>
     set (pn_transitions pn) = transitions_of (set (pn_places pn))"

text \<open>All rows that count in the state \<open>e\<close> of \<^verbatim>\<open>errno\<close>, or after it, have
  their modules in the net.\<close>

definition rows_in :: "int \<Rightarrow> conffile \<Rightarrow> int list \<Rightarrow> bool \<Rightarrow> petri_net_t \<Rightarrow> bool" where
  "rows_in vmx cf is e pn \<longleftrightarrow> (\<forall>i\<in>set is. \<forall>e' n1 w n3. (e \<longrightarrow> e') \<longrightarrow>
     snd (simple_row vmx cf i e') = Some (n1, w, n3) \<longrightarrow> n1 \<in> set (pn_places pn) \<and> n3 \<in> set (pn_places pn))"

lemma simple_names_ok:
  assumes "simple_names vmx cf is e pn = (e1, pn1)" "names_ok pn"
  shows "(e \<longrightarrow> e1) \<and> names_ok pn1 \<and> set (pn_places pn) \<subseteq> set (pn_places pn1) \<and> rows_in vmx cf is e1 pn1 \<and>
    (\<not> e1 \<longrightarrow> set (pn_places pn1) = set (pn_places pn) \<union> modules_of (rows_at vmx cf is))"
  using assms
proof (induction "is" arbitrary: e pn)
  case Nil
  then show ?case by (simp add: rows_in_def)
next
  case (Cons i "is")
  obtain ea r where row: "simple_row vmx cf i e = (ea, r)" by fastforce
  note mono = row_mono [OF row]
  show ?case
  proof (cases r)
    case None
    then have run: "simple_names vmx cf is ea pn = (e1, pn1)" using Cons.prems(1) row by simp
    note IH = Cons.IH [OF run Cons.prems(2)]
    have none: "snd (simple_row vmx cf i e') = None" if "e1 \<longrightarrow> e'" for e'
      using mono(2) [of e'] that IH mono(1) None by (cases "snd (simple_row vmx cf i e')") auto
    then show ?thesis using IH mono(1) by (auto simp: rows_in_def)
  next
    case (Some x)
    obtain a w b where x: "x = (a, w, b)" by (cases x)
    let ?pn = "add_modules pn a b"
    have run: "simple_names vmx cf is ea ?pn = (e1, pn1)" using Cons.prems(1) row Some x by simp
    have ok: "names_ok ?pn" using Cons.prems(2)
      by (auto simp: names_ok_def add_modules_ok transitions_of_un [symmetric])
    note IH = Cons.IH [OF run ok]
    have row': "snd (simple_row vmx cf i e') = Some y \<Longrightarrow> y = x" if "e1 \<longrightarrow> e'" for e' y
      using mono(2) [of e' y] that IH mono(1) Some by auto
    have rin: "rows_in vmx cf (i # is) e1 pn1"
      unfolding rows_in_def
    proof (intro ballI allI impI)
      fix j e' n1 w' n3
      assume j: "j \<in> set (i # is)" "e1 \<longrightarrow> e'" "snd (simple_row vmx cf j e') = Some (n1, w', n3)"
      show "n1 \<in> set (pn_places pn1) \<and> n3 \<in> set (pn_places pn1)"
      proof (cases "j = i")
        case True
        then have "(n1, w', n3) = (a, w, b)" using row' [OF j(2), of "(n1, w', n3)"] j(3) x by simp
        moreover have "{a, b} \<subseteq> set (pn_places pn1)" using IH add_modules_ok(1) [of pn a b] by blast
        ultimately show ?thesis by simp
      next
        case False
        then have "j \<in> set is" using j(1) by simp
        then show ?thesis using IH j(2,3) unfolding rows_in_def by blast
      qed
    qed
    have "set (pn_places pn1) = set (pn_places pn) \<union> modules_of (rows_at vmx cf (i # is))" if "\<not> e1"
    proof -
      have "snd (simple_row vmx cf i False) = Some x" using IH row_false [OF row] Some that by blast
      then have rs: "rows_at vmx cf (i # is) = (a, w, b) # rows_at vmx cf is" by (simp add: x)
      have "set (pn_places pn1) = set (pn_places ?pn) \<union> modules_of (rows_at vmx cf is)" using IH that by blast
      then show ?thesis unfolding rs modules_of_simps add_modules_ok by auto
    qed
    moreover have "set (pn_places pn) \<subseteq> set (pn_places pn1)" using IH add_modules_ok(1) [of pn a b] by blast
    ultimately show ?thesis using IH mono(1) rin by blast
  qed
qed

definition weights_between :: "(string \<times> int \<times> string) list \<Rightarrow> string \<Rightarrow> string \<Rightarrow> int list" where
  "weights_between rs t b = map (\<lambda>(n1, w, n3). w) (filter (\<lambda>(n1, w, n3). n1 @ ''.end'' = t \<and> n3 = b) rs)"

lemma name_at: "names_ok pn \<Longrightarrow> b \<in> set (pn_places pn) \<Longrightarrow>
  \<exists>j < length (pn_places pn). list_index (pn_places pn) b = int j \<and> pn_places pn ! j = b \<and>
    (\<forall>i < length (pn_places pn). pn_places pn ! i = b \<longleftrightarrow> i = j)"
  using list_index_in [of b "pn_places pn"] by (fastforce simp: names_ok_def nth_eq_iff_index_eq)

lemma trans_at: "names_ok pn \<Longrightarrow> a \<in> set (pn_places pn) \<Longrightarrow> suf = ''.beg'' \<or> suf = ''.end'' \<Longrightarrow>
  \<exists>t < length (pn_transitions pn). list_index2 (pn_transitions pn) a suf = int t \<and> pn_transitions pn ! t = a @ suf \<and>
    (\<forall>k < length (pn_transitions pn). pn_transitions pn ! k = a @ suf \<longleftrightarrow> k = t)"
proof -
  assume a: "names_ok pn" "a \<in> set (pn_places pn)" "suf = ''.beg'' \<or> suf = ''.end''"
  then have "a @ suf \<in> set (pn_transitions pn)" by (auto simp: names_ok_def transitions_of_def)
  from list_index_in [OF this] obtain t where t: "t < length (pn_transitions pn)"
      "list_index (pn_transitions pn) (a @ suf) = int t" "pn_transitions pn ! t = a @ suf" by blast
  have "\<forall>k < length (pn_transitions pn). pn_transitions pn ! k = a @ suf \<longleftrightarrow> k = t"
    using nth_eq_iff_index_eq [of "pn_transitions pn" _ t] a(1) t(1,3) by (metis names_ok_def)
  then show ?thesis using t by (intro exI [of _ t]) (simp add: list_index2_def strdup2_def)
qed

lemma simple_out_ok:
  assumes "names_ok pn" "rows_in vmx cf is e pn"
    and "mat_ok (pn_out_arc_weights pn) (length (pn_places pn)) (length (pn_transitions pn))"
  shows "\<exists>e2 m. simple_out vmx cf is e pn = Some (e2, Some (pn\<lparr>pn_out_arc_weights := Some m\<rparr>)) \<and> (e \<longrightarrow> e2) \<and>
    mat_ok (Some m) (length (pn_places pn)) (length (pn_transitions pn)) \<and>
    (\<not> e2 \<longrightarrow> (\<forall>i < length (pn_places pn). \<forall>k < length (pn_transitions pn).
       get_through (Some m) (int i) (int k) =
         (case weights_between (rows_at vmx cf is) (pn_transitions pn ! k) (pn_places pn ! i) of
            [] \<Rightarrow> get_through (pn_out_arc_weights pn) (int i) (int k) | ws \<Rightarrow> Some (last ws))))"
  using assms
proof (induction "is" arbitrary: e pn)
  case Nil
  then obtain m where "pn_out_arc_weights pn = Some m" by (auto simp: mat_ok_def)
  then show ?case using Nil.prems by (intro exI [of _ e] exI [of _ m]) (auto simp: weights_between_def)
next
  case (Cons i "is")
  obtain ea r where row: "simple_row vmx cf i e = (ea, r)" by fastforce
  note mono = row_mono [OF row]
  have rin: "rows_in vmx cf is ea pn" using Cons.prems(2) mono(1) by (fastforce simp: rows_in_def)
  show ?case
  proof (cases r)
    case None
    from Cons.IH [OF Cons.prems(1) rin Cons.prems(3)] obtain e2 m
      where IH: "simple_out vmx cf is ea pn = Some (e2, Some (pn\<lparr>pn_out_arc_weights := Some m\<rparr>))" "ea \<longrightarrow> e2"
        "mat_ok (Some m) (length (pn_places pn)) (length (pn_transitions pn))"
        "\<not> e2 \<longrightarrow> (\<forall>i < length (pn_places pn). \<forall>k < length (pn_transitions pn).
         get_through (Some m) (int i) (int k) =
         (case weights_between (rows_at vmx cf is) (pn_transitions pn ! k) (pn_places pn ! i) of
            [] \<Rightarrow> get_through (pn_out_arc_weights pn) (int i) (int k) | ws \<Rightarrow> Some (last ws)))" by blast
    have "\<not> e2 \<Longrightarrow> rows_at vmx cf (i # is) = rows_at vmx cf is" using IH(2) row_false [OF row] None by auto
    then have "\<not> e2 \<longrightarrow> (\<forall>i' < length (pn_places pn). \<forall>k < length (pn_transitions pn).
         get_through (Some m) (int i') (int k) =
         (case weights_between (rows_at vmx cf (i # is)) (pn_transitions pn ! k) (pn_places pn ! i') of
            [] \<Rightarrow> get_through (pn_out_arc_weights pn) (int i') (int k) | ws \<Rightarrow> Some (last ws)))"
      using IH(4) by (cases e2) simp_all
    moreover have "simple_out vmx cf (i # is) e pn = Some (e2, Some (pn\<lparr>pn_out_arc_weights := Some m\<rparr>))"
      using IH(1) row None by simp
    ultimately show ?thesis using IH(2,3) mono(1) by blast
  next
    case (Some x)
    obtain a w b where x: "x = (a, w, b)" by (cases x)
    have ab: "a \<in> set (pn_places pn)" "b \<in> set (pn_places pn)"
      using Cons.prems(2) [unfolded rows_in_def, rule_format, of i e a w b] row Some x by simp_all
    obtain j where j: "j < length (pn_places pn)" "list_index (pn_places pn) b = int j"
        "\<forall>i < length (pn_places pn). pn_places pn ! i = b \<longleftrightarrow> i = j"
      using name_at [OF Cons.prems(1) ab(2)] by blast
    obtain t where t: "t < length (pn_transitions pn)" "list_index2 (pn_transitions pn) a ''.end'' = int t"
        "\<forall>k < length (pn_transitions pn). pn_transitions pn ! k = a @ ''.end'' \<longleftrightarrow> k = t"
      using trans_at [OF Cons.prems(1) ab(1), of "''.end''"] by blast
    obtain m1 where m1: "set_through (pn_out_arc_weights pn) (int j) (int t) w = Some m1"
        "mat_ok (Some m1) (length (pn_places pn)) (length (pn_transitions pn))"
        "\<forall>i' < length (pn_places pn). \<forall>k' < length (pn_transitions pn). get_through (Some m1) (int i') (int k') =
          (if i' = j \<and> k' = t then Some w else get_through (pn_out_arc_weights pn) (int i') (int k'))"
      using mat_set_get [OF Cons.prems(3) j(1) t(1)] by blast
    let ?pn = "pn\<lparr>pn_out_arc_weights := Some m1\<rparr>"
    have ok: "names_ok ?pn" "rows_in vmx cf is ea ?pn" using Cons.prems(1) rin by (simp_all add: names_ok_def rows_in_def)
    have "mat_ok (pn_out_arc_weights ?pn) (length (pn_places ?pn)) (length (pn_transitions ?pn))" using m1(2) by simp
    moreover have fields: "pn_places ?pn = pn_places pn" "pn_transitions ?pn = pn_transitions pn"
      "pn_out_arc_weights ?pn = Some m1" by simp_all
    ultimately obtain e2 m
      where IH: "simple_out vmx cf is ea ?pn = Some (e2, Some (?pn\<lparr>pn_out_arc_weights := Some m\<rparr>))" "ea \<longrightarrow> e2"
        "mat_ok (Some m) (length (pn_places pn)) (length (pn_transitions pn))"
        "\<not> e2 \<longrightarrow> (\<forall>i < length (pn_places pn). \<forall>k < length (pn_transitions pn).
         get_through (Some m) (int i) (int k) =
         (case weights_between (rows_at vmx cf is) (pn_transitions pn ! k) (pn_places pn ! i) of
            [] \<Rightarrow> get_through (Some m1) (int i) (int k) | ws \<Rightarrow> Some (last ws)))"
      using Cons.IH [OF ok, unfolded fields] m1(2) by blast
    have run: "simple_out vmx cf (i # is) e pn = Some (e2, Some (pn\<lparr>pn_out_arc_weights := Some m\<rparr>))"
      using row Some x j(2) t(2) m1(1) IH(1) by (simp add: Let_def)
    have rs: "\<not> e2 \<Longrightarrow> rows_at vmx cf (i # is) = (a, w, b) # rows_at vmx cf is" using IH(2) row_false [OF row] Some x by auto
    have "get_through (Some m) (int i') (int k) =
         (case weights_between (rows_at vmx cf (i # is)) (pn_transitions pn ! k) (pn_places pn ! i') of
            [] \<Rightarrow> get_through (pn_out_arc_weights pn) (int i') (int k) | ws \<Rightarrow> Some (last ws))"
      if "\<not> e2" "i' < length (pn_places pn)" "k < length (pn_transitions pn)" for i' k
    proof -
      have hit: "a @ ''.end'' = pn_transitions pn ! k \<and> b = pn_places pn ! i' \<longleftrightarrow> k = t \<and> i' = j"
        using t(3) j(3) that by metis
      let ?ws = "weights_between (rows_at vmx cf is) (pn_transitions pn ! k) (pn_places pn ! i')"
      have wb: "weights_between (rows_at vmx cf (i # is)) (pn_transitions pn ! k) (pn_places pn ! i') =
          (if k = t \<and> i' = j then w # ?ws else ?ws)"
        unfolding rs [OF that(1)] using hit by (simp add: weights_between_def)
      have g: "get_through (Some m) (int i') (int k) =
          (case ?ws of [] \<Rightarrow> get_through (Some m1) (int i') (int k) | ws \<Rightarrow> Some (last ws))"
        using IH(4) that by blast
      have g1: "get_through (Some m1) (int i') (int k) =
          (if k = t \<and> i' = j then Some w else get_through (pn_out_arc_weights pn) (int i') (int k))"
        using m1(3) [rule_format, OF that(2,3)] by (simp only: conj_commute)
      obtain ws where ws: "?ws = ws" by blast
      show ?thesis unfolding wb g g1 ws
        by (cases ws) simp_all
    qed
    then show ?thesis using run IH(2,3) mono(1) by (intro exI [of _ e2] exI [of _ m]) blast
  qed
qed


lemma pn_same:
  "pn_in_arc_weights pn = Some m \<Longrightarrow> pn\<lparr>pn_in_arc_weights := Some m\<rparr> = pn"
  "pn_init_tokens pn = Some m \<Longrightarrow> pn\<lparr>pn_init_tokens := Some m\<rparr> = pn"
  "pn_out_arc_weights pn = Some m \<Longrightarrow> pn\<lparr>pn_out_arc_weights := Some m\<rparr> = pn"
  by (cases pn, simp)+

lemma simple_in_ok:
  assumes "names_ok pn" "set is \<subseteq> {..< length (pn_places pn)}"
    and "mat_ok (pn_in_arc_weights pn) (length (pn_places pn)) (length (pn_transitions pn))"
  shows "\<exists>m. simple_in is pn = Some (Some (pn\<lparr>pn_in_arc_weights := Some m\<rparr>)) \<and>
    (\<forall>i < length (pn_places pn). \<forall>k < length (pn_transitions pn).
       get_through (Some m) (int i) (int k) =
         (if i \<in> set is \<and> pn_transitions pn ! k = pn_places pn ! i @ ''.beg'' then Some 1
          else get_through (pn_in_arc_weights pn) (int i) (int k)))"
  using assms
proof (induction "is" arbitrary: pn)
  case Nil
  then obtain m where "pn_in_arc_weights pn = Some m" by (auto simp: mat_ok_def)
  then show ?case by (intro exI [of _ m]) (simp add: pn_same)
next
  case (Cons i "is")
  have i: "i < length (pn_places pn)" "pn_places pn ! i \<in> set (pn_places pn)" using Cons.prems(2) by simp_all
  obtain t where t: "t < length (pn_transitions pn)" "list_index2 (pn_transitions pn) (pn_places pn ! i) ''.beg'' = int t"
      "\<forall>k < length (pn_transitions pn). pn_transitions pn ! k = pn_places pn ! i @ ''.beg'' \<longleftrightarrow> k = t"
    using trans_at [OF Cons.prems(1) i(2), of "''.beg''"] by blast
  obtain m1 where m1: "set_through (pn_in_arc_weights pn) (int i) (int t) 1 = Some m1"
      "mat_ok (Some m1) (length (pn_places pn)) (length (pn_transitions pn))"
      "\<forall>i' < length (pn_places pn). \<forall>k' < length (pn_transitions pn). get_through (Some m1) (int i') (int k') =
        (if i' = i \<and> k' = t then Some 1 else get_through (pn_in_arc_weights pn) (int i') (int k'))"
    using mat_set_get [OF Cons.prems(3) i(1) t(1)] by blast
  let ?pn = "pn\<lparr>pn_in_arc_weights := Some m1\<rparr>"
  have "names_ok ?pn" "set is \<subseteq> {..< length (pn_places ?pn)}" using Cons.prems(1,2) by (simp_all add: names_ok_def)
  from Cons.IH [OF this] m1(2) obtain m where IH: "simple_in is ?pn = Some (Some (?pn\<lparr>pn_in_arc_weights := Some m\<rparr>))"
      "\<forall>i < length (pn_places pn). \<forall>k < length (pn_transitions pn). get_through (Some m) (int i) (int k) =
         (if i \<in> set is \<and> pn_transitions pn ! k = pn_places pn ! i @ ''.beg'' then Some 1
          else get_through (Some m1) (int i) (int k))" by auto
  have run: "simple_in (i # is) pn = Some (Some (pn\<lparr>pn_in_arc_weights := Some m\<rparr>))"
    using t(2) m1(1) IH(1) by (simp add: Let_def)
  have "get_through (Some m) (int i') (int k) =
         (if i' \<in> set (i # is) \<and> pn_transitions pn ! k = pn_places pn ! i' @ ''.beg'' then Some 1
          else get_through (pn_in_arc_weights pn) (int i') (int k))"
    if "i' < length (pn_places pn)" "k < length (pn_transitions pn)" for i' k
  proof -
    have g: "get_through (Some m) (int i') (int k) =
         (if i' \<in> set is \<and> pn_transitions pn ! k = pn_places pn ! i' @ ''.beg'' then Some 1
          else get_through (Some m1) (int i') (int k))" using IH(2) that by blast
    have g1: "get_through (Some m1) (int i') (int k) =
        (if i' = i \<and> k = t then Some 1 else get_through (pn_in_arc_weights pn) (int i') (int k))"
      using m1(3) that by blast
    have "i' = i \<Longrightarrow> pn_transitions pn ! k = pn_places pn ! i' @ ''.beg'' \<longleftrightarrow> k = t" using t(3) that by simp
    then show ?thesis unfolding g g1 by (cases "i' = i") auto
  qed
  then show ?case using run by blast
qed

definition names_at :: "conffile \<Rightarrow> int list \<Rightarrow> string list" where
  "names_at cf is = List.map_filter (\<lambda>i. plc_cell cf ''synch_start'' i 0) is"

lemma names_at_simps [simp]:
  "names_at cf [] = []"
  "names_at cf (i # is) =
     (case plc_cell cf ''synch_start'' i 0 of None \<Rightarrow> names_at cf is | Some x \<Rightarrow> x # names_at cf is)"
  by (simp_all add: names_at_def List.map_filter_def split: option.splits)

lemma simple_start_ok:
  assumes "names_ok pn" "mat_ok (pn_init_tokens pn) (length (pn_places pn)) 1"
  shows "\<exists>r. simple_start cf is pn = Some r \<and>
    (if set (names_at cf is) \<subseteq> set (pn_places pn)
     then \<exists>m. r = Some (pn\<lparr>pn_init_tokens := Some m\<rparr>) \<and> (\<forall>i < length (pn_places pn).
        get_through (Some m) (int i) 0 = (if pn_places pn ! i \<in> set (names_at cf is) then Some 1
          else get_through (pn_init_tokens pn) (int i) 0))
     else r = None)"
  using assms
proof (induction "is" arbitrary: pn)
  case Nil
  then obtain m where "pn_init_tokens pn = Some m" by (auto simp: mat_ok_def)
  then show ?case by (intro exI [of _ "Some pn"]) (auto simp: pn_same intro!: exI [of _ m])
next
  case (Cons i "is")
  show ?case
  proof (cases "plc_cell cf ''synch_start'' i 0")
    case None
    then show ?thesis using Cons.IH [OF Cons.prems] by (simp only: names_at_simps simple_start.simps option.case)
  next
    case (Some a)
    show ?thesis
    proof (cases "a \<in> set (pn_places pn)")
      case False
      then show ?thesis using Some by (simp add: Let_def list_index_sign)
    next
      case True
      obtain j where j: "j < length (pn_places pn)" "list_index (pn_places pn) a = int j"
          "\<forall>i < length (pn_places pn). pn_places pn ! i = a \<longleftrightarrow> i = j"
        using name_at [OF Cons.prems(1) True] by blast
      obtain m1 where m1: "set_through (pn_init_tokens pn) (int j) (int 0) 1 = Some m1"
          "mat_ok (Some m1) (length (pn_places pn)) 1"
          "\<forall>i' < length (pn_places pn). \<forall>k' < 1. get_through (Some m1) (int i') (int k') =
            (if i' = j \<and> k' = 0 then Some 1 else get_through (pn_init_tokens pn) (int i') (int k'))"
        using mat_set_get [OF Cons.prems(2) j(1) zero_less_one] by blast
      let ?pn = "pn\<lparr>pn_init_tokens := Some m1\<rparr>"
      have nok: "names_ok ?pn" using Cons.prems(1) by (simp add: names_ok_def)
      have fields: "pn_places ?pn = pn_places pn" "pn_init_tokens ?pn = Some m1" by simp_all
      obtain r where r: "simple_start cf is ?pn = Some r"
          "if set (names_at cf is) \<subseteq> set (pn_places pn)
           then \<exists>m. r = Some (?pn\<lparr>pn_init_tokens := Some m\<rparr>) \<and> (\<forall>i < length (pn_places pn).
             get_through (Some m) (int i) 0 = (if pn_places pn ! i \<in> set (names_at cf is) then Some 1
               else get_through (Some m1) (int i) 0))
           else r = None"
        using Cons.IH [OF nok, unfolded fields] m1(2) by blast
      have run: "simple_start cf (i # is) pn = Some r" using Some j(2) m1(1) r(1) by (simp add: Let_def)
      have ns: "names_at cf (i # is) = a # names_at cf is" using Some by simp
      have g1: "get_through (Some m1) (int i') 0 =
          (if pn_places pn ! i' = a then Some 1 else get_through (pn_init_tokens pn) (int i') 0)"
        if "i' < length (pn_places pn)" for i'
        using m1(3) [rule_format, of i' 0] j(3) that by simp
      show ?thesis
      proof (cases "set (names_at cf is) \<subseteq> set (pn_places pn)")
        case False
        then show ?thesis using run r(2) ns by auto
      next
        case sub: True
        then obtain m where "r = Some (?pn\<lparr>pn_init_tokens := Some m\<rparr>)" "\<forall>i < length (pn_places pn).
             get_through (Some m) (int i) 0 = (if pn_places pn ! i \<in> set (names_at cf is) then Some 1
               else get_through (Some m1) (int i) 0)" using r(2) by auto
        then show ?thesis using run ns sub True g1 by auto
      qed
    qed
  qed
qed


section \<open>The net of the simple table\<close>

text \<open>Every module is a place and has two transitions. The beginning of its scan takes a token of its
  place; the end of its scan puts as many tokens in the place of another module as the last row
  says that has an arrow between the two.\<close>

definition simple_net :: "petri_net_t \<Rightarrow> (string \<times> int \<times> string) list \<Rightarrow> string set \<Rightarrow> bool" where
  "simple_net pn rs begins \<longleftrightarrow>
     distinct (pn_places pn) \<and> set (pn_places pn) = modules_of rs \<and>
     distinct (pn_transitions pn) \<and> set (pn_transitions pn) = transitions_of (modules_of rs) \<and>
     (\<forall>i < length (pn_places pn).
        get_through (pn_init_tokens pn) (int i) 0 = Some (if pn_places pn ! i \<in> begins then 1 else 0)) \<and>
     (\<forall>i < length (pn_places pn). \<forall>k < length (pn_transitions pn).
        get_through (pn_in_arc_weights pn) (int i) (int k) =
          Some (if pn_transitions pn ! k = pn_places pn ! i @ ''.beg'' then 1 else 0) \<and>
        get_through (pn_out_arc_weights pn) (int i) (int k) =
          Some (case weights_between rs (pn_transitions pn ! k) (pn_places pn ! i) of [] \<Rightarrow> 0 | ws \<Rightarrow> last ws) \<and>
        get_through (pn_null_arcs pn) (int i) (int k) = Some 0)"

lemma no_arcs_ok:
  "names_ok (no_arcs pn) \<longleftrightarrow> names_ok pn" "rows_in vmx cf is e (no_arcs pn) \<longleftrightarrow> rows_in vmx cf is e pn"
  "pn_places (no_arcs pn) = pn_places pn" "pn_transitions (no_arcs pn) = pn_transitions pn"
  "pn_in_arc_weights (no_arcs pn) = Some (matrix_new (int (length (pn_places pn))) (int (length (pn_transitions pn))) 0)"
  "pn_out_arc_weights (no_arcs pn) = Some (matrix_new (int (length (pn_places pn))) (int (length (pn_transitions pn))) 0)"
  "pn_null_arcs (no_arcs pn) = Some (matrix_new (int (length (pn_places pn))) (int (length (pn_transitions pn))) 0)"
  by (simp_all add: no_arcs_def names_ok_def rows_in_def Let_def)

text \<open>C11. The simple table is always read to the end, without an access outside a matrix. Unless a number in it
  is out of range, the net is the one the table stands for; it fails exactly when a module that
  is to start first stands in no row.\<close>

theorem simple_synch_net:
  "\<exists>e r. synch_get_simple_synch vmx cf False = Some (e, r) \<and>
     (\<not> e \<longrightarrow> (let rs = rows_at vmx cf (plc_rows cf ''synch'');
                 begins = set (names_at cf (plc_rows cf ''synch_start''))
              in case r of None \<Rightarrow> \<not> begins \<subseteq> modules_of rs
                 | Some pn \<Rightarrow> begins \<subseteq> modules_of rs \<and> simple_net pn rs begins))"
proof -
  let ?rows = "plc_rows cf ''synch''" and ?begins = "plc_rows cf ''synch_start''"
  obtain e1 pn1 where n: "simple_names vmx cf ?rows False petri_net_t_new = (e1, pn1)" by fastforce
  have "names_ok petri_net_t_new" by (simp add: names_ok_def petri_net_t_new_def transitions_of_def)
  note N = simple_names_ok [OF n this]
  have places: "set (pn_places pn1) = modules_of (rows_at vmx cf ?rows)" if "\<not> e1"
    using N that by (simp add: petri_net_t_new_def)
  let ?c = "length (pn_places pn1)" and ?l = "length (pn_transitions pn1)"
  let ?p2 = "no_arcs pn1" and ?m = "matrix_new (int (length (pn_places pn1))) (int (length (pn_transitions pn1))) 0"
  have ok2: "names_ok ?p2" "rows_in vmx cf ?rows e1 ?p2" "mat_ok (Some ?m) ?c ?l"
    using N mat_new(1) by (simp_all add: no_arcs_ok)
  obtain e2 m where out: "simple_out vmx cf ?rows e1 ?p2 = Some (e2, Some (?p2\<lparr>pn_out_arc_weights := Some m\<rparr>))"
      "e1 \<longrightarrow> e2" "\<not> e2 \<longrightarrow> (\<forall>i < ?c. \<forall>k < ?l. get_through (Some m) (int i) (int k) =
         (case weights_between (rows_at vmx cf ?rows) (pn_transitions pn1 ! k) (pn_places pn1 ! i) of
            [] \<Rightarrow> get_through (Some ?m) (int i) (int k) | ws \<Rightarrow> Some (last ws)))"
    using simple_out_ok [OF ok2(1,2), unfolded no_arcs_ok] ok2(3) by blast
  let ?p3 = "?p2\<lparr>pn_out_arc_weights := Some m\<rparr>"
  have f3: "pn_places ?p3 = pn_places pn1" "pn_transitions ?p3 = pn_transitions pn1" "pn_in_arc_weights ?p3 = Some ?m"
    by (simp_all add: no_arcs_ok)
  have ok3: "names_ok ?p3" using ok2(1) by (simp add: names_ok_def)
  obtain mi where ins: "simple_in [0..<?c] ?p3 = Some (Some (?p3\<lparr>pn_in_arc_weights := Some mi\<rparr>))"
      "\<forall>i < ?c. \<forall>k < ?l. get_through (Some mi) (int i) (int k) =
         (if i \<in> set [0..<?c] \<and> pn_transitions pn1 ! k = pn_places pn1 ! i @ ''.beg'' then Some 1
          else get_through (Some ?m) (int i) (int k))"
    using simple_in_ok [OF ok3, of "[0..<?c]", unfolded f3] ok2(3)
    by (metis atLeast0LessThan atLeast_upt order_refl)
  let ?p4 = "?p3\<lparr>pn_in_arc_weights := Some mi, pn_init_tokens := Some (matrix_new (int ?c) 1 0)\<rparr>"
  have f4: "pn_places ?p4 = pn_places pn1" "pn_init_tokens ?p4 = Some (matrix_new (int ?c) 1 0)"
    by (simp_all add: no_arcs_ok)
  have ok4: "names_ok ?p4" "mat_ok (Some (matrix_new (int ?c) 1 0)) ?c 1"
    using ok3 mat_new(1) [of ?c 1] by (simp_all add: names_ok_def)
  obtain r where r: "simple_start cf ?begins ?p4 = Some r"
      "if set (names_at cf ?begins) \<subseteq> set (pn_places pn1)
       then \<exists>m. r = Some (?p4\<lparr>pn_init_tokens := Some m\<rparr>) \<and> (\<forall>i < ?c.
          get_through (Some m) (int i) 0 = (if pn_places pn1 ! i \<in> set (names_at cf ?begins) then Some 1
            else get_through (Some (matrix_new (int ?c) 1 0)) (int i) 0))
       else r = None"
    using simple_start_ok [OF ok4(1), of cf ?begins, unfolded f4] ok4(2) by blast
  have run: "synch_get_simple_synch vmx cf False = Some (e2, r)"
    using n out(1) ins(1) r(1) by (simp add: synch_get_simple_synch_def Let_def no_arcs_ok)
  have zero: "get_through (Some (matrix_new (int ?c) 1 0)) (int i) 0 = Some 0" if "i < ?c" for i
    using mat_new(2) [OF that zero_less_one, of 0] by simp
  have "simple_net pn (rows_at vmx cf ?rows) (set (names_at cf ?begins))"
    if e2: "\<not> e2" and pn: "r = Some pn" "set (names_at cf ?begins) \<subseteq> set (pn_places pn1)" for pn
  proof -
    obtain mt where mt: "pn = ?p4\<lparr>pn_init_tokens := Some mt\<rparr>" "\<forall>i < ?c.
          get_through (Some mt) (int i) 0 = (if pn_places pn1 ! i \<in> set (names_at cf ?begins) then Some 1
            else get_through (Some (matrix_new (int ?c) 1 0)) (int i) 0)"
      using r(2) pn by auto
    have "\<not> e1" using out(2) e2 by blast
    note pl = places [OF this]
    have fs: "pn_places pn = pn_places pn1" "pn_transitions pn = pn_transitions pn1" "pn_init_tokens pn = Some mt"
      "pn_in_arc_weights pn = Some mi" "pn_out_arc_weights pn = Some m" "pn_null_arcs pn = Some ?m"
      by (simp_all add: mt(1) no_arcs_ok)
    have mats: "get_through (Some mi) (int i) (int k) =
          Some (if pn_transitions pn1 ! k = pn_places pn1 ! i @ ''.beg'' then 1 else 0) \<and>
        get_through (Some m) (int i) (int k) =
          Some (case weights_between (rows_at vmx cf ?rows) (pn_transitions pn1 ! k) (pn_places pn1 ! i) of [] \<Rightarrow> 0 | ws \<Rightarrow> last ws) \<and>
        get_through (Some ?m) (int i) (int k) = Some 0"
      if "i < ?c" "k < ?l" for i k
    proof (intro conjI)
      show n0: "get_through (Some ?m) (int i) (int k) = Some 0" by (rule mat_new(2) [OF that])
      show "get_through (Some mi) (int i) (int k) =
          Some (if pn_transitions pn1 ! k = pn_places pn1 ! i @ ''.beg'' then 1 else 0)"
        using ins(2) that n0 by simp
      have g: "get_through (Some m) (int i) (int k) =
         (case weights_between (rows_at vmx cf ?rows) (pn_transitions pn1 ! k) (pn_places pn1 ! i) of
            [] \<Rightarrow> get_through (Some ?m) (int i) (int k) | ws \<Rightarrow> Some (last ws))"
        using out(3) e2 that by blast
      obtain ws where ws: "weights_between (rows_at vmx cf ?rows) (pn_transitions pn1 ! k) (pn_places pn1 ! i) = ws"
        by blast
      show "get_through (Some m) (int i) (int k) =
          Some (case weights_between (rows_at vmx cf ?rows) (pn_transitions pn1 ! k) (pn_places pn1 ! i) of [] \<Rightarrow> 0 | ws \<Rightarrow> last ws)"
        unfolding g n0 ws by (cases ws) simp_all
    qed
    have "names_ok pn1" using N by blast
    then show ?thesis unfolding simple_net_def fs using mats mt(2) zero pl by (auto simp: names_ok_def)
  qed
  note net = this
  have rn: "r = None \<longleftrightarrow> \<not> set (names_at cf ?begins) \<subseteq> set (pn_places pn1)"
    using r(2) by (cases "set (names_at cf ?begins) \<subseteq> set (pn_places pn1)") auto
  have "\<not> e2 \<Longrightarrow> set (pn_places pn1) = modules_of (rows_at vmx cf ?rows)" using places out(2) by blast
  then show ?thesis using net rn run
    by (intro exI [of _ e2] exI [of _ r]) (cases e2; cases r; simp add: Let_def)
qed


text \<open>A configuration in which a module runs after another, which is the first to run.\<close>

definition cf_ab :: conffile where
  "cf_ab = \<lparr>conffile_module_name = Some ''PLC'', cf_vars = Some [],
     cf_recs = Some [(''PLC:synch'', [[''a'', ''->'', ''b'']]), (''PLC:synch_start'', [[''a'']])],
     cf_files = Some []\<rparr>"

lemma ab_rows:
  "rows_at SEMVMX cf_ab (plc_rows cf_ab ''synch'') = [(''a'', 1, ''b'')]"
  "names_at cf_ab (plc_rows cf_ab ''synch_start'') = [''a'']"
  by code_simp+

lemma ab_read: "map_option (\<lambda>(e, r). (e, r = None)) (synch_get_simple_synch SEMVMX cf_ab False) = Some (False, False)"
  by code_simp

lemma simple_synch_net_witness:
  "\<exists>pn. synch_get_simple_synch SEMVMX cf_ab False = Some (False, Some pn) \<and>
     simple_net pn [(''a'', 1, ''b'')] {''a''}"
proof -
  obtain e r where er: "synch_get_simple_synch SEMVMX cf_ab False = Some (e, r)"
      "\<not> e \<longrightarrow> (case r of None \<Rightarrow> \<not> {''a''} \<subseteq> modules_of [(''a'', 1, ''b'')]
        | Some pn \<Rightarrow> {''a''} \<subseteq> modules_of [(''a'', 1, ''b'')] \<and> simple_net pn [(''a'', 1, ''b'')] {''a''})"
    using simple_synch_net [of SEMVMX cf_ab] by (auto simp only: ab_rows Let_def list.set)
  moreover have "\<not> e" "r \<noteq> None" using er(1) ab_read by auto
  ultimately show ?thesis by auto
qed

section \<open>The transitions in the shared memory\<close>

text \<open>The entries of the matrices for a place and a transition.\<close>

definition net_in :: "petri_net_t \<Rightarrow> nat \<Rightarrow> nat \<Rightarrow> int" where
  "net_in pn i k = (case get_through (pn_in_arc_weights pn) (int i) (int k) of None \<Rightarrow> 0 | Some x \<Rightarrow> x)"

definition net_out :: "petri_net_t \<Rightarrow> nat \<Rightarrow> nat \<Rightarrow> int" where
  "net_out pn i k = (case get_through (pn_out_arc_weights pn) (int i) (int k) of None \<Rightarrow> 0 | Some x \<Rightarrow> x)"

definition net_null :: "petri_net_t \<Rightarrow> nat \<Rightarrow> nat \<Rightarrow> int" where
  "net_null pn i k = (case get_through (pn_null_arcs pn) (int i) (int k) of None \<Rightarrow> 0 | Some x \<Rightarrow> x)"

text \<open>A net that can be stored: at most as many places as 16 bits count, weights of 16 bits, and names
  a block can answer to.\<close>

definition net_ok :: "petri_net_t \<Rightarrow> bool" where
  "net_ok pn \<longleftrightarrow> length (pn_places pn) \<le> 32767 \<and> distinct (pn_transitions pn) \<and>
     (\<forall>s\<in>set (pn_transitions pn). usable block_type_synch_transition s \<and> s \<noteq> ''NULL'') \<and>
     (\<forall>i < length (pn_places pn). \<forall>k < length (pn_transitions pn).
        get_through (pn_in_arc_weights pn) (int i) (int k) = Some (net_in pn i k) \<and>
        get_through (pn_out_arc_weights pn) (int i) (int k) = Some (net_out pn i k) \<and>
        get_through (pn_null_arcs pn) (int i) (int k) = Some (net_null pn i k) \<and>
        0 \<le> net_in pn i k \<and> net_in pn i k \<le> 32767 \<and> 0 \<le> net_out pn i k \<and> net_out pn i k \<le> 32767)"

lemma transition_values_map:
  "\<forall>i\<in>set is. get_through m (int i) k = Some (g i) \<Longrightarrow>
   transition_values m k is = Some (map (\<lambda>i. if g i > 0 then word_of_int (g i) else -1) is)"
  by (induction "is") auto

lemma put_null_arcs_map:
  assumes "\<forall>i\<in>set is. get_through m (int i) k = Some (g i)" "distinct is" "\<forall>i\<in>set is. i < length ws"
    and "put_null_arcs m k is ws = Some (Some ws')"
  shows "length ws' = length ws \<and> (\<forall>i < length ws. ws' ! i = (if i \<in> set is \<and> g i \<noteq> 0 then 0 else ws ! i)) \<and>
    (\<forall>i\<in>set is. g i \<noteq> 0 \<longrightarrow> ws ! i = -1)"
  using assms
proof (induction "is" arbitrary: ws)
  case (Cons i "is")
  have gi: "get_through m (int i) k = Some (g i)" using Cons.prems(1) by simp
  show ?case
  proof (cases "g i = 0")
    case True
    then have "put_null_arcs m k is ws = Some (Some ws')" using Cons.prems(4) gi by simp
    then show ?thesis using Cons.IH [of ws] Cons.prems(1-3) True by auto
  next
    case False
    then have w: "ws ! i = -1" "put_null_arcs m k is (ws[i := 0]) = Some (Some ws')"
      using Cons.prems(4) gi by (simp_all split: if_splits)
    have I: "length ws' = length (ws[i := 0]) \<and> (\<forall>j < length (ws[i := 0]). ws' ! j = (if j \<in> set is \<and> g j \<noteq> 0 then 0 else ws[i := 0] ! j)) \<and>
      (\<forall>j\<in>set is. g j \<noteq> 0 \<longrightarrow> ws[i := 0] ! j = -1)"
      by (rule Cons.IH) (use Cons.prems w in auto)
    have ne: "j \<in> set is \<Longrightarrow> j \<noteq> i" for j using Cons.prems(2) by auto
    show ?thesis
    proof (intro conjI ballI allI impI)
      show "length ws' = length ws" using I by simp
      show "ws' ! j = (if j \<in> set (i # is) \<and> g j \<noteq> 0 then 0 else ws ! j)" if "j < length ws" for j
        using I that False by (cases "j = i") auto
      show "ws ! j = -1" if "j \<in> set (i # is)" "g j \<noteq> 0" for j
        using I that ne [of j] w(1) by (cases "j = i") auto
    qed
  qed
qed simp

text \<open>The record of a transition of the net.\<close>

definition trans_of :: "petri_net_t \<Rightarrow> nat \<Rightarrow> plc_transition \<Rightarrow> bool" where
  "trans_of pn k t \<longleftrightarrow> trans_ok t \<and> n_places t = length (pn_places pn) \<and>
     (\<forall>i < length (pn_places pn).
        w_in t i = (if net_null pn i k \<noteq> 0 then 0 else if net_in pn i k > 0 then net_in pn i k else -1) \<and>
        w_out t i = (if net_out pn i k > 0 then net_out pn i k else -1) \<and>
        (net_null pn i k \<noteq> 0 \<longrightarrow> net_in pn i k = 0))"

lemma ucast_places: "n \<le> 32767 \<Longrightarrow> nat (sint (ucast (of_nat n :: u16) :: i16)) = n"
proof -
  assume n: "n \<le> 32767"
  then have "uint (of_nat n :: u16) = int n" by (simp add: uint_nat unat_of_nat)
  then have "(ucast (of_nat n :: u16) :: i16) = word_of_int (int n)" by (metis word_of_int_uint ucast_id of_int_of_nat_eq)
  then show ?thesis using n sint_wi16 [of "int n"] by simp
qed

lemma sizeof_transition: "unat (sizeof_transition_t pc) = 4 + 4 * unat pc"
proof -
  have "unat pc < 65536" using unsigned_less [of pc] by simp
  moreover have "uint (ucast pc :: u32) = uint pc" by (simp add: uint_up_ucast is_up)
  then have "unat (ucast pc :: u32) = unat pc" by (simp only: unat_eq_nat_uint)
  ultimately show ?thesis by (simp add: sizeof_transition_t_def unat_word_ariths)
qed

lemma put_transition:
  assumes inv: "cmm_inv (w_cmm w)" and p: "cmm_fully_initialized p" and net: "net_ok pn" "k < length (pn_transitions pn)"
    and u: "usable block_type_synch_transition s"
    and no: "cmm_find_mem (w_cmm w) block_type_synch_transition s = Some None"
    and put: "synch_config_put_transition p w s (int k) (of_nat (length (pn_places pn)))
      (pn_in_arc_weights pn) (pn_out_arc_weights pn) (pn_null_arcs pn) = Some (w', r)" "\<not> r < 0"
  shows "cmm_inv (w_cmm w')"
    "\<exists>a z t. cmm_find_mem (w_cmm w') block_type_synch_transition s = Some (Some (a, z)) \<and>
       w_trans w' = (w_trans w)(a := t) \<and> trans_of pn k t"
    "\<And>t' s'. usable t' s' \<Longrightarrow> (t', s') \<noteq> (block_type_synch_transition, s) \<Longrightarrow>
       cmm_find_mem (w_cmm w') t' s' = cmm_find_mem (w_cmm w) t' s'"
proof -
  let ?n = "length (pn_places pn)"
  have n: "unat (of_nat ?n :: u16) = ?n" using net(1) by (simp add: net_ok_def unat_of_nat)
  define t where "t ws ss = \<lparr>tr_magic = TRANSITION_MAGIC, tr_place_count = ucast (of_nat ?n :: u16),
    wait_values = ws, signal_values = ss\<rparr>" for ws ss
  have gets: "\<forall>i\<in>set [0..<?n]. get_through (pn_in_arc_weights pn) (int i) (int k) = Some (net_in pn i k)"
    "\<forall>i\<in>set [0..<?n]. get_through (pn_out_arc_weights pn) (int i) (int k) = Some (net_out pn i k)"
    "\<forall>i\<in>set [0..<?n]. get_through (pn_null_arcs pn) (int i) (int k) = Some (net_null pn i k)"
    using net by (simp_all add: net_ok_def)
  let ?ws = "map (\<lambda>i. if net_in pn i k > 0 then word_of_int (net_in pn i k) else -1 :: i16) [0..<?n]"
  let ?ss = "map (\<lambda>i. if net_out pn i k > 0 then word_of_int (net_out pn i k) else -1 :: i16) [0..<?n]"
  note tv = transition_values_map [OF gets(1)] transition_values_map [OF gets(2)]
  have size: "sizeof_transition_t (of_nat ?n) \<noteq> 0" using sizeof_transition [of "of_nat ?n"] by auto
  obtain m1 a ws where m: "cmm_block_alloc p (w_cmm w) block_type_synch_transition (Some s)
      (sizeof_transition_t (of_nat ?n)) = Some (m1, Some a)"
    "put_null_arcs (pn_null_arcs pn) (int k) [0..<?n] ?ws = Some (Some ws)"
    "w' = w\<lparr>w_cmm := m1, w_trans := (w_trans w)(a := t ws ?ss)\<rparr>"
    using put n tv by (auto simp: synch_config_put_transition_def t_def Let_def split: option.splits)
  have al: "cmm_alloc_mem (w_cmm w) block_type_synch_transition s (sizeof_transition_t (of_nat ?n)) = Some (m1, Some a)"
    using m(1) alloc_ready [OF p size] by simp
  have cm: "w_cmm w' = m1" using m(3) by simp
  show "cmm_inv (w_cmm w')" using store.new_returns [OF inv, of block_type_synch_transition s "sizeof_transition_t (of_nat ?n)"] al cm by auto
  show "cmm_find_mem (w_cmm w') t' s' = cmm_find_mem (w_cmm w) t' s'"
    if "usable t' s'" "(t', s') \<noteq> (block_type_synch_transition, s)" for t' s'
    using store.look_other [OF inv al u that] cm by simp
  have nl: "length ws = ?n" "\<forall>i < ?n. ws ! i = (if net_null pn i k \<noteq> 0 then 0 else ?ws ! i)"
    "\<forall>i < ?n. net_null pn i k \<noteq> 0 \<longrightarrow> ?ws ! i = -1"
    using put_null_arcs_map [OF gets(3) _ _ m(2)] by auto
  have "?n \<le> 32767" using net(1) by (simp add: net_ok_def)
  then have np: "n_places (t ws ?ss) = ?n"
    unfolding n_places_def t_def plc_transition.select_convs by (rule ucast_places)
  have rng: "0 \<le> net_in pn i k" "net_in pn i k \<le> 32767" "0 \<le> net_out pn i k" "net_out pn i k \<le> 32767" if "i < ?n" for i
    using net that by (simp_all add: net_ok_def)
  have m1: "sint (-1 :: i16) = -1" by simp
  have wi: "w_in (t ws ?ss) i = (if net_null pn i k \<noteq> 0 then 0 else if net_in pn i k > 0 then net_in pn i k else -1) \<and>
        w_out (t ws ?ss) i = (if net_out pn i k > 0 then net_out pn i k else -1) \<and>
        (net_null pn i k \<noteq> 0 \<longrightarrow> net_in pn i k = 0)" if i: "i < ?n" for i
  proof (intro conjI impI)
    show "w_in (t ws ?ss) i = (if net_null pn i k \<noteq> 0 then 0 else if net_in pn i k > 0 then net_in pn i k else -1)"
      using nl(2) i rng [OF i] sint_wi16 [of "net_in pn i k"] by (simp add: w_in_def t_def)
    show "w_out (t ws ?ss) i = (if net_out pn i k > 0 then net_out pn i k else -1)"
      using i rng [OF i] sint_wi16 [of "net_out pn i k"] by (simp add: w_out_def t_def)
    show "net_in pn i k = 0" if z: "net_null pn i k \<noteq> 0"
    proof (rule ccontr)
      assume "net_in pn i k \<noteq> 0"
      then have "0 < net_in pn i k" using rng [OF i] by simp
      then have "(word_of_int (net_in pn i k) :: i16) = -1" using nl(3) [rule_format, OF i z] i by simp
      then have "sint (word_of_int (net_in pn i k) :: i16) = -1" by simp
      then show False using sint_wi16 [of "net_in pn i k"] rng [OF i] by simp
    qed
  qed
  have "w_out (t ws ?ss) i \<noteq> 0" if "i < ?n" for i using wi [OF that] by (simp split: if_splits)
  then have "trans_of pn k (t ws ?ss)"
    unfolding trans_of_def trans_ok_def np using wi by (simp add: t_def nl(1))
  then show "\<exists>a z t. cmm_find_mem (w_cmm w') block_type_synch_transition s = Some (Some (a, z)) \<and>
       w_trans w' = (w_trans w)(a := t) \<and> trans_of pn k t"
    using store.look_new [OF inv al u no] cm m(3) by auto
qed


text \<open>Two names are never found in the same block.\<close>

lemma found_names:
  assumes "cmm_inv m" "cmm_find_mem m t s = Some (Some (a, z))" "cmm_find_mem m t' s' = Some (Some (a, z'))"
    and "usable t s" "usable t' s'"
  shows "s = s'"
proof -
  obtain bs where ch: "cmm_chain m bs" using assms(1) by (auto simp: cmm_inv_def)
  obtain b b' where "find (answers m t s) bs = Some b" "find (answers m t' s') bs = Some b'" "b + 48 = a" "b' + 48 = a"
    using assms(2,3) chain_find' [OF ch] by auto
  then have "answers m t s b" "answers m t' s' b" by (auto simp: find_Some_iff)
  then show ?thesis using c_streq_unique assms(4,5) by (auto simp: answers_def blk_name_is_def usable_def)
qed

lemma puts_bound: "put_transitions p pn is w n = Some (w', n') \<Longrightarrow> n' \<le> n + length is"
proof (induction "is" arbitrary: w n)
  case (Cons i "is")
  then obtain w1 r where "synch_config_put_transition p w (pn_transitions pn ! i) (int i)
      (of_nat (length (pn_places pn))) (pn_in_arc_weights pn) (pn_out_arc_weights pn) (pn_null_arcs pn) = Some (w1, r)"
    "put_transitions p pn is w1 (if r < 0 then n else n + 1) = Some (w', n')"
    by (auto split: option.splits)
  note this(2)
  from Cons.IH [OF this] show ?case by (auto split: if_splits)
qed simp

lemma puts_ok:
  assumes "put_transitions p pn is w n = Some (w', n + length is)" "cmm_inv (w_cmm w)" "cmm_fully_initialized p"
    and "net_ok pn" "distinct is" "set is \<subseteq> {..<length (pn_transitions pn)}"
    and "\<forall>i\<in>set is. cmm_find_mem (w_cmm w) block_type_synch_transition (pn_transitions pn ! i) = Some None"
  shows "cmm_inv (w_cmm w') \<and>
    (\<forall>i\<in>set is. \<exists>a z. cmm_find_mem (w_cmm w') block_type_synch_transition (pn_transitions pn ! i) = Some (Some (a, z)) \<and>
       trans_of pn i (w_trans w' a)) \<and>
    (\<forall>s a z. usable block_type_synch_transition s \<and> s \<notin> (!) (pn_transitions pn) ` set is \<and>
       cmm_find_mem (w_cmm w) block_type_synch_transition s = Some (Some (a, z)) \<longrightarrow>
       cmm_find_mem (w_cmm w') block_type_synch_transition s = Some (Some (a, z)) \<and> w_trans w' a = w_trans w a)"
  using assms
proof (induction "is" arbitrary: w n)
  case (Cons i "is")
  let ?T = block_type_synch_transition and ?s = "pn_transitions pn ! i"
  have i: "i < length (pn_transitions pn)" "i \<notin> set is" using Cons.prems(5,6) by simp_all
  have names: "j < length (pn_transitions pn) \<Longrightarrow> usable ?T (pn_transitions pn ! j)" for j
    using Cons.prems(4) nth_mem by (simp add: net_ok_def)
  have inj: "j \<in> set is \<Longrightarrow> pn_transitions pn ! j \<noteq> ?s" for j
    using Cons.prems(4,6) i nth_eq_iff_index_eq [of "pn_transitions pn" j i] by (auto simp: net_ok_def)
  obtain w1 r where put: "synch_config_put_transition p w ?s (int i) (of_nat (length (pn_places pn)))
      (pn_in_arc_weights pn) (pn_out_arc_weights pn) (pn_null_arcs pn) = Some (w1, r)"
    and rest: "put_transitions p pn is w1 (if r < 0 then n else n + 1) = Some (w', n + length (i # is))"
    using Cons.prems(1) by (auto split: option.splits)
  have r: "\<not> r < 0" using puts_bound [OF rest] by auto
  note P = put_transition [OF Cons.prems(2,3,4) i(1) names [OF i(1)] _ put r]
  have no: "cmm_find_mem (w_cmm w) ?T ?s = Some None" using Cons.prems(7) by simp
  obtain a z t where at: "cmm_find_mem (w_cmm w1) ?T ?s = Some (Some (a, z))" "w_trans w1 = (w_trans w)(a := t)"
      "trans_of pn i t" using P(2) [OF no] by blast
  have "put_transitions p pn is w1 (n + 1) = Some (w', n + 1 + length is)" using rest r by simp
  moreover have "\<forall>j\<in>set is. cmm_find_mem (w_cmm w1) ?T (pn_transitions pn ! j) = Some None"
  proof
    fix j assume j: "j \<in> set is"
    then have "j < length (pn_transitions pn)" using Cons.prems(6) by auto
    from P(3) [OF no names [OF this]] j inj [OF j] Cons.prems(7)
    show "cmm_find_mem (w_cmm w1) ?T (pn_transitions pn ! j) = Some None" by simp
  qed
  ultimately have IH: "cmm_inv (w_cmm w')"
    "\<forall>i\<in>set is. \<exists>a z. cmm_find_mem (w_cmm w') ?T (pn_transitions pn ! i) = Some (Some (a, z)) \<and> trans_of pn i (w_trans w' a)"
    "\<forall>s a z. usable ?T s \<and> s \<notin> (!) (pn_transitions pn) ` set is \<and>
       cmm_find_mem (w_cmm w1) ?T s = Some (Some (a, z)) \<longrightarrow>
       cmm_find_mem (w_cmm w') ?T s = Some (Some (a, z)) \<and> w_trans w' a = w_trans w1 a"
    using Cons.IH [of w1 "n + 1"] P(1) [OF no] Cons.prems(3-6) by auto
  have "?s \<notin> (!) (pn_transitions pn) ` set is" using inj by fastforce
  then have here: "cmm_find_mem (w_cmm w') ?T ?s = Some (Some (a, z)) \<and> trans_of pn i (w_trans w' a)"
    using IH(3) at names [OF i(1)] by auto
  have old: "cmm_find_mem (w_cmm w') ?T s = Some (Some (c, y)) \<and> w_trans w' c = w_trans w c"
    if s: "usable ?T s" "s \<notin> (!) (pn_transitions pn) ` set (i # is)"
      "cmm_find_mem (w_cmm w) ?T s = Some (Some (c, y))" for s c y
  proof -
    have f1: "cmm_find_mem (w_cmm w1) ?T s = Some (Some (c, y))" using P(3) [OF no s(1)] s by auto
    have "c \<noteq> a" using found_names [OF P(1) [OF no] f1, of ?T ?s] at(1) s names [OF i(1)] by auto
    moreover have "s \<notin> (!) (pn_transitions pn) ` set is" using s(2) by simp
    ultimately show ?thesis using IH(3) f1 s(1) at(2) by auto
  qed
  show ?case
  proof (intro conjI ballI allI impI)
    show "cmm_inv (w_cmm w')" by (rule IH(1))
    show "\<exists>a z. cmm_find_mem (w_cmm w') ?T (pn_transitions pn ! j) = Some (Some (a, z)) \<and> trans_of pn j (w_trans w' a)"
      if "j \<in> set (i # is)" for j using that here IH(2) by auto
  qed (use old in blast)+
qed simp

text \<open>What such a record does: the firing rule in the weights of the net.\<close>

lemma trans_of_enabled:
  assumes "trans_of pn k t" "\<forall>i < length (pn_places pn). 0 \<le> net_in pn i k"
  shows "enabled t vs \<longleftrightarrow> (\<forall>i < length (pn_places pn). net_in pn i k \<le> uint (vs ! i) \<and>
    (net_null pn i k \<noteq> 0 \<longrightarrow> vs ! i = 0))"
proof -
  have "((w_in t i > 0 \<longrightarrow> w_in t i \<le> uint (vs ! i)) \<and> (w_in t i = 0 \<longrightarrow> vs ! i = 0)) \<longleftrightarrow>
      net_in pn i k \<le> uint (vs ! i) \<and> (net_null pn i k \<noteq> 0 \<longrightarrow> vs ! i = 0)" if "i < length (pn_places pn)" for i
  proof -
    have "w_in t i = (if net_null pn i k \<noteq> 0 then 0 else if net_in pn i k > 0 then net_in pn i k else -1)"
      "net_null pn i k \<noteq> 0 \<longrightarrow> net_in pn i k = 0" "0 \<le> net_in pn i k" using assms that by (simp_all add: trans_of_def)
    then show ?thesis using uint_ge_0 [of "vs ! i"] by auto
  qed
  then show ?thesis using assms by (auto simp: enabled_def trans_of_def)
qed

lemma trans_of_fire:
  assumes "trans_of pn k t" "\<forall>i < length (pn_places pn). 0 \<le> net_in pn i k \<and> 0 \<le> net_out pn i k"
  shows "fire t vs = map (\<lambda>i. if i < length (pn_places pn)
    then vs ! i - word_of_int (net_in pn i k) + word_of_int (net_out pn i k) else vs ! i) [0..<length vs]"
proof -
  have "max 0 (w_in t i) = net_in pn i k \<and> max 0 (w_out t i) = net_out pn i k" if "i < length (pn_places pn)" for i
    using assms that by (auto simp: trans_of_def max_def)
  then show ?thesis using assms(1) by (auto simp: fire_def trans_of_def)
qed

text \<open>C12. When the transitions of a net were stored, each is found under its name, and it is the
  transition that the matrices stand for: it can fire when every place has the tokens of its arc
  and the places of its null arcs are empty, and it moves the tokens by the weights. The null
  transition is there too, and has no arcs.\<close>

theorem stored_transitions_fire:
  assumes "cmm_inv (w_cmm w)" "cmm_fully_initialized p" "net_ok pn"
    and "\<forall>s\<in>insert ''NULL'' (set (pn_transitions pn)).
      cmm_find_mem (w_cmm w) block_type_synch_transition s = Some None"
    and "synch_load_confmap p w pn = Some (w', 0)"
  shows "(\<exists>a. plc_transition_null p (w_cmm w') = Some (Some a) \<and> trans_ok (w_trans w' a) \<and>
       n_places (w_trans w' a) = 0) \<and>
     (\<forall>k < length (pn_transitions pn).
       \<exists>a. plc_transition_by_name p (w_cmm w') (Some (pn_transitions pn ! k)) = Some (Some a) \<and>
         trans_ok (w_trans w' a) \<and> n_places (w_trans w' a) = length (pn_places pn) \<and>
         (\<forall>vs. enabled (w_trans w' a) vs \<longleftrightarrow> (\<forall>i < length (pn_places pn). net_in pn i k \<le> uint (vs ! i) \<and>
            (net_null pn i k \<noteq> 0 \<longrightarrow> vs ! i = 0))) \<and>
         (\<forall>vs. fire (w_trans w' a) vs = map (\<lambda>i. if i < length (pn_places pn)
            then vs ! i - word_of_int (net_in pn i k) + word_of_int (net_out pn i k) else vs ! i) [0..<length vs]))"
proof -
  let ?T = block_type_synch_transition
  have uN: "usable ?T ''NULL''" by (simp add: usable_def CMM_NAME_MAX_LEN_def c_string_def)
  obtain w1 r where put: "synch_config_put_transition p w ''NULL'' 0 0 None None None = Some (w1, r)" "\<not> r < 0"
    and rest: "put_transitions p pn [0..<length (pn_transitions pn)] w1 0 = Some (w', length (pn_transitions pn))"
    using assms(5) by (auto simp: synch_load_confmap_def split: option.splits if_splits)
  have z: "sizeof_transition_t 0 \<noteq> 0" using sizeof_transition [of 0] by auto
  obtain m1 a where m: "cmm_block_alloc p (w_cmm w) ?T (Some ''NULL'') (sizeof_transition_t 0) = Some (m1, Some a)"
      "w1 = w\<lparr>w_cmm := m1, w_trans := (w_trans w)(a := \<lparr>tr_magic = TRANSITION_MAGIC, tr_place_count = 0,
        wait_values = [], signal_values = []\<rparr>)\<rparr>"
    using put by (auto simp: synch_config_put_transition_def split: option.splits)
  have al: "cmm_alloc_mem (w_cmm w) ?T ''NULL'' (sizeof_transition_t 0) = Some (m1, Some a)"
    using m(1) alloc_ready [OF assms(2) z] by simp
  have inv1: "cmm_inv (w_cmm w1)" using store.new_returns [OF assms(1), of ?T "''NULL''" "sizeof_transition_t 0"] al m(2) by auto
  obtain y where y: "cmm_find_mem (w_cmm w1) ?T ''NULL'' = Some (Some (a, y))"
    using store.look_new [OF assms(1) al uN] assms(4) m(2) by auto
  have names: "usable ?T s \<and> s \<noteq> ''NULL''" if "s \<in> set (pn_transitions pn)" for s
    using assms(3) that by (simp add: net_ok_def)
  have no: "\<forall>i\<in>set [0..<length (pn_transitions pn)]. cmm_find_mem (w_cmm w1) ?T (pn_transitions pn ! i) = Some None"
  proof
    fix i assume "i \<in> set [0..<length (pn_transitions pn)]"
    then have i: "pn_transitions pn ! i \<in> set (pn_transitions pn)" by simp
    from store.look_other [OF assms(1) al uN, of ?T "pn_transitions pn ! i"] names [OF i] assms(4) i m(2)
    show "cmm_find_mem (w_cmm w1) ?T (pn_transitions pn ! i) = Some None" by simp
  qed
  have "''NULL'' \<notin> (!) (pn_transitions pn) ` set [0..<length (pn_transitions pn)]"
  proof
    assume "''NULL'' \<in> (!) (pn_transitions pn) ` set [0..<length (pn_transitions pn)]"
    then obtain i where "i < length (pn_transitions pn)" "''NULL'' = pn_transitions pn ! i" by auto
    then show False using names [of "pn_transitions pn ! i"] by simp
  qed
  moreover have "put_transitions p pn [0..<length (pn_transitions pn)] w1 0 =
      Some (w', 0 + length [0..<length (pn_transitions pn)])" using rest by simp
  note P = puts_ok [OF this inv1 assms(2,3) distinct_upt _ no]
  ultimately have nul: "cmm_find_mem (w_cmm w') ?T ''NULL'' = Some (Some (a, y))" "w_trans w' a = w_trans w1 a"
    using P uN y by (simp_all add: atLeast0LessThan)
  have by_name: "plc_transition_by_name p (w_cmm w') (Some s) = Some (Some b)"
    if "cmm_find_mem (w_cmm w') ?T s = Some (Some (b, q))" for s b q
    using that assms(2) by (simp add: plc_transition_by_name_def cmm_block_find_def ptr_and_size_def)
  have "trans_ok (w_trans w' a) \<and> n_places (w_trans w' a) = 0"
    using nul(2) m(2) by (simp add: trans_ok_def n_places_def)
  moreover have "plc_transition_null p (w_cmm w') = Some (Some a)"
    using by_name [OF nul(1)] by (simp add: plc_transition_null_def)
  moreover have "\<exists>a. plc_transition_by_name p (w_cmm w') (Some (pn_transitions pn ! k)) = Some (Some a) \<and>
         trans_ok (w_trans w' a) \<and> n_places (w_trans w' a) = length (pn_places pn) \<and>
         (\<forall>vs. enabled (w_trans w' a) vs \<longleftrightarrow> (\<forall>i < length (pn_places pn). net_in pn i k \<le> uint (vs ! i) \<and>
            (net_null pn i k \<noteq> 0 \<longrightarrow> vs ! i = 0))) \<and>
         (\<forall>vs. fire (w_trans w' a) vs = map (\<lambda>i. if i < length (pn_places pn)
            then vs ! i - word_of_int (net_in pn i k) + word_of_int (net_out pn i k) else vs ! i) [0..<length vs])"
    if k: "k < length (pn_transitions pn)" for k
  proof -
    obtain b q where b: "cmm_find_mem (w_cmm w') ?T (pn_transitions pn ! k) = Some (Some (b, q))"
        "trans_of pn k (w_trans w' b)"
      using P k by (fastforce simp: atLeast0LessThan)
    have pos: "\<forall>i < length (pn_places pn). 0 \<le> net_in pn i k" "\<forall>i < length (pn_places pn). 0 \<le> net_in pn i k \<and> 0 \<le> net_out pn i k"
      using assms(3) k by (simp_all add: net_ok_def)
    have "trans_ok (w_trans w' b)" "n_places (w_trans w' b) = length (pn_places pn)" using b(2) by (simp_all add: trans_of_def)
    then show ?thesis using by_name [OF b(1)] trans_of_enabled [OF b(2) pos(1)] trans_of_fire [OF b(2) pos(2)] by blast
  qed
  ultimately show ?thesis by blast
qed

text \<open>A net of one place and one transition, which takes a token.\<close>

definition net_one :: petri_net_t where
  "net_one = \<lparr>pn_places = [''p''], pn_transitions = [''t''], pn_init_tokens = None,
     pn_in_arc_weights = Some (matrix_new 1 1 1), pn_out_arc_weights = Some (matrix_new 1 1 0),
     pn_null_arcs = Some (matrix_new 1 1 0)\<rparr>"

definition m_four :: mem where
  "m_four = cmm_take m_fresh 20 block_type_synch_transition ''NULL'' 4"

lemma four_splits: "splits m_fresh 20 4"
  by (simp add: splits_def m_fresh_def format_fields sizeof_block_def)

lemma four_chain: "cmm_chain m_four [20, 72]"
proof -
  have "cmm_chain m_four (chain_take m_fresh [20] 20 4)"
    unfolding m_four_def by (rule chain_take_chain [OF fresh_chain]) (simp_all add: m_fresh_def format_fields suits_def)
  then show ?thesis using four_splits by (simp add: chain_take_def rest_of_def sizeof_block_def)
qed

lemma four_alloc:
  "cmm_alloc_mem m_fresh block_type_synch_transition ''NULL'' 4 = Some (m_four, Some 68)"
  "n \<le> 380 \<Longrightarrow> \<exists>m1. cmm_alloc_mem m_four t s n = Some (m1, Some 120)"
proof -
  have "suits m_fresh 4 20" by (simp add: suits_def m_fresh_def format_fields)
  then show "cmm_alloc_mem m_fresh block_type_synch_transition ''NULL'' 4 = Some (m_four, Some 68)"
    by (cases rule: alloc_cases [OF fresh_chain, of block_type_synch_transition "''NULL''" 4]) (auto simp: best_fit_def m_four_def)
  have z: "4 \<le> blk_size m_fresh 20" by (simp add: m_fresh_def format_fields)
  have r: "rest_of 20 4 = 72" by (simp add: rest_of_def sizeof_block_def)
  note tf = take_fields [OF order_refl z, where t = block_type_synch_transition and s = "''NULL''"]
  have "blk_type m_four 20 = block_type_num block_type_synch_transition" "blk_type m_four 72 = 1" "blk_size m_four 72 = 380"
    using tf(1) tf(11,12) [OF four_splits] by (simp_all add: m_four_def r) (simp add: m_fresh_def format_fields)
  then have "suits m_four n 72" "\<not> suits m_four n 20" if "n \<le> 380" using that by (simp_all add: suits_def)
  then show "\<exists>m1. cmm_alloc_mem m_four t s n = Some (m1, Some 120)" if "n \<le> 380"
    using that by (cases rule: alloc_cases [OF four_chain, of t s n]) (auto simp: best_fit_def)
qed

lemma net_one_ok: "net_ok net_one"
  by (simp add: net_ok_def net_one_def net_in_def net_out_def net_null_def get_through_def matrix_get_def
    matrix_new_def usable_def CMM_NAME_MAX_LEN_def c_string_def)

lemma net_one_stored: "\<exists>w'. synch_load_confmap p_ready w_start net_one = Some (w', 0)"
proof -
  obtain m2 where m2: "cmm_alloc_mem m_four block_type_synch_transition ''t'' 8 = Some (m2, Some 120)"
    using four_alloc(2) [of 8] by auto
  have "sizeof_transition_t 0 = 4" "sizeof_transition_t 1 = 8" by (simp_all add: sizeof_transition_t_def)
  then show ?thesis using m2 four_alloc(1) alloc_ready [OF p_ready_init]
    by (simp add: synch_load_confmap_def synch_config_put_transition_def w_start_def net_one_def
      get_through_def matrix_get_def matrix_new_def)
qed

lemma stored_transitions_fire_witness:
  "\<exists>(w' :: synch_world) a. plc_transition_by_name p_ready (w_cmm w') (Some ''t'') = Some (Some a) \<and>
     fire (w_trans w' a) [3] = [2]"
proof -
  obtain w' where w': "synch_load_confmap p_ready w_start net_one = Some (w', 0)" using net_one_stored by blast
  have "cmm_find_mem m_fresh block_type_synch_transition s = Some None" for s
    using fresh_find [of block_type_synch_transition s]
    by (auto simp: cmm_block_find_def ptr_and_size_def split: option.splits prod.splits) (metis not_None_eq surj_pair)
  then have "\<forall>s\<in>insert ''NULL'' (set (pn_transitions net_one)).
      cmm_find_mem (w_cmm w_start) block_type_synch_transition s = Some None"
    by (simp add: w_start_def)
  moreover have "cmm_inv (w_cmm w_start)" using fresh_inv by (simp add: w_start_def)
  ultimately obtain a where a: "plc_transition_by_name p_ready (w_cmm w') (Some ''t'') = Some (Some a)"
      "\<forall>vs. fire (w_trans w' a) vs = map (\<lambda>i. if i < 1
            then vs ! i - word_of_int (net_in net_one i 0) + word_of_int (net_out net_one i 0) else vs ! i) [0..<length vs]"
    using stored_transitions_fire [OF _ p_ready_init net_one_ok _ w'] by (force simp: net_one_def)
  have "net_in net_one 0 0 = 1" "net_out net_one 0 0 = 0"
    by (simp_all add: net_in_def net_out_def net_one_def get_through_def matrix_get_def matrix_new_def)
  then have "fire (w_trans w' a) [3] = [2]" using a(2) by simp
  with a(1) show ?thesis by (intro exI [of _ w'] exI [of _ a]) simp
qed

end
