(* ===== verification/ModbusCrc.thy ===== *)
theory ModbusCrc
  imports Prelude
begin

unbundle bit_operations_syntax

text \<open>
  The checksum of Modbus RTU frames, \<^verbatim>\<open>io/modbus/protocol/mb_rtu.c\<close>: the slow and the fast
  version, reading and writing it. The two versions are the same function, the checksum of a frame with
  its own checksum is zero, and a frame that was changed within two neighbouring bytes is never taken
  for a valid one.
\<close>

section \<open>The functions\<close>

definition msb_u16 :: "u16 \<Rightarrow> u8" where "msb_u16 v = ucast (drop_bit 8 v)"
definition lsb_u16 :: "u16 \<Rightarrow> u8" where "lsb_u16 v = ucast (v AND 0xFF)"

text \<open>The body of the inner loop of \<^verbatim>\<open>crc_slow\<close>, the loop, and that of the outer loop.\<close>

definition crc_step :: "u16 \<Rightarrow> u16" where
  "crc_step temp = (let flag = temp AND 1; temp1 = drop_bit 1 temp in if flag \<noteq> 0 then temp1 XOR 0xA001 else temp1)"

definition crc_round :: "u16 \<Rightarrow> u16" where "crc_round temp = (crc_step ^^ 8) temp"

definition crc_byte :: "u16 \<Rightarrow> u8 \<Rightarrow> u16" where "crc_byte temp b = crc_round (temp XOR ucast b)"

definition crc_slow :: "u8 list \<Rightarrow> nat \<Rightarrow> u16" where
  "crc_slow buf cnt = foldl crc_byte 0xFFFF (take cnt buf)"

text \<open>The table of the fast version has both bytes of the checksum for each byte. The fast
  version stops the process when there is nothing to sum.\<close>

definition crc_fast_entry :: "u8 \<Rightarrow> u8 list" where
  "crc_fast_entry i = (let tmp_crc = crc_slow [0xFF, NOT i] 2 in [lsb_u16 tmp_crc, msb_u16 tmp_crc])"

definition crc_fast_init :: "u8 list" where
  "crc_fast_init = concat (map (\<lambda>i. crc_fast_entry (of_nat i)) [0..<256])"

fun crc_fast_loop :: "u8 list \<Rightarrow> u8 \<times> u8 \<Rightarrow> u8 list \<Rightarrow> u8 \<times> u8" where
  "crc_fast_loop tbl mn [] = mn"
| "crc_fast_loop tbl (crc_msb, crc_lsb) (b # bs) =
     (let index = 2 * unat (crc_lsb XOR b)
      in crc_fast_loop tbl (tbl ! (index + 1), crc_msb XOR tbl ! index) bs)"

definition crc_fast :: "u8 list \<Rightarrow> u8 list \<Rightarrow> nat \<Rightarrow> u16 option" where
  "crc_fast tbl buf cnt =
     (if cnt = 0 then None
      else case crc_fast_loop tbl (0xFF, 0xFF) (take cnt buf) of (crc_msb, crc_lsb) \<Rightarrow>
             Some (ucast crc_msb * 0x0100 + ucast crc_lsb))"

text \<open>The low byte goes first.\<close>

definition crc_read :: "u8 list \<Rightarrow> nat \<Rightarrow> u16" where
  "crc_read buf cnt = push_bit 8 (ucast (buf ! (cnt + 1))) OR ucast (buf ! cnt)"

section \<open>The shift register\<close>

lemma crc_step_if: "crc_step x = (if bit x 0 then drop_bit 1 x XOR 0xA001 else drop_bit 1 x)"
proof -
  have "x AND 1 \<noteq> 0 \<longleftrightarrow> bit x 0" by (simp add: and_one_eq bit_0 odd_iff_mod_2_eq_one)
  then show ?thesis by (simp add: crc_step_def Let_def)
qed

lemma crc_step_xor: "crc_step (x XOR y) = crc_step x XOR crc_step y"
  by (auto simp: crc_step_if bit_xor_iff drop_bit_xor ac_simps)

lemma crc_step_zero: "crc_step x = 0 \<longleftrightarrow> x = 0"
proof
  assume z: "crc_step x = 0"
  have top: "bit (0xA001 :: u16) 15" by simp
  have "\<not> bit (drop_bit 1 x) 15" using bit_imp_le_length [of x 16] by (auto simp: bit_drop_bit_eq)
  then have "\<not> bit x 0"
  proof -
    assume n: "\<not> bit (drop_bit 1 x) 15"
    show ?thesis
    proof
      assume "bit x 0"
      then have "bit (drop_bit 1 x XOR 0xA001) 15 = bit (0 :: u16) 15" using z by (simp add: crc_step_if)
      then show False using n top by (simp add: bit_xor_iff)
    qed
  qed
  then have d: "drop_bit 1 x = 0" using z by (simp add: crc_step_if)
  show "x = 0"
  proof (rule bit_word_eqI)
    fix n assume "n < LENGTH(16)"
    show "bit x n = bit 0 n"
    proof (cases n)
      case 0 then show ?thesis using \<open>\<not> bit x 0\<close> by simp
    next
      case (Suc k)
      then have "bit x n = bit (drop_bit 1 x) k" by (simp add: bit_drop_bit_eq)
      then show ?thesis using d by simp
    qed
  qed
qed (simp add: crc_step_if)

lemma steps_xor: "(crc_step ^^ n) (x XOR y) = (crc_step ^^ n) x XOR (crc_step ^^ n) y"
  by (induction n) (simp_all add: crc_step_xor)

lemma steps_zero: "(crc_step ^^ n) x = 0 \<longleftrightarrow> x = 0"
  by (induction n) (simp_all add: crc_step_zero)

lemma crc_round_xor: "crc_round (x XOR y) = crc_round x XOR crc_round y"
  by (simp add: crc_round_def steps_xor)

lemma crc_round_zero [simp]: "crc_round x = 0 \<longleftrightarrow> x = 0"
  by (simp add: crc_round_def steps_zero)

lemma steps_shift: "(\<forall>i < n. \<not> bit x i) \<Longrightarrow> (crc_step ^^ n) x = drop_bit n x"
proof (induction n)
  case (Suc n)
  then have "(crc_step ^^ n) x = drop_bit n x" by simp
  moreover have "\<not> bit (drop_bit n x) 0" using Suc.prems by (simp add: bit_drop_bit_eq)
  ultimately show ?case using crc_step_if [of "drop_bit n x"] by simp
qed simp

lemma crc_round_shift: "crc_round (push_bit 8 (ucast (b :: u8))) = ucast b"
proof -
  have "crc_round (push_bit 8 (ucast b)) = drop_bit 8 (push_bit 8 (ucast b) :: u16)"
    unfolding crc_round_def by (rule steps_shift) (simp add: bit_push_bit_iff)
  also have "\<dots> = ucast b"
    by (rule bit_word_eqI) (auto simp: bit_drop_bit_eq bit_push_bit_iff bit_ucast_iff dest: bit_imp_le_length)
  finally show ?thesis .
qed

text \<open>Two bytes are summed as one word.\<close>

lemma word_bytes: "push_bit 8 (ucast (b :: u8)) OR ucast (a :: u8) = (push_bit 8 (ucast b) XOR ucast a :: u16)"
  by (rule bit_word_eqI) (auto simp: bit_or_iff bit_xor_iff bit_push_bit_iff bit_ucast_iff dest: bit_imp_le_length)

lemma crc_two_bytes:
  "crc_byte (crc_byte c a) b = crc_round (crc_round (c XOR (push_bit 8 (ucast b) OR ucast a)))"
proof -
  have "crc_round (c XOR (push_bit 8 (ucast b) OR ucast a)) =
      crc_round (c XOR ucast a) XOR crc_round (push_bit 8 (ucast b))"
    unfolding word_bytes crc_round_xor by (simp add: xor.assoc xor.commute)
  then show ?thesis by (simp add: crc_byte_def crc_round_shift)
qed

section \<open>The fast version\<close>

text \<open>A checksum is its two bytes.\<close>

definition crc_join :: "u8 \<Rightarrow> u8 \<Rightarrow> u16" where
  "crc_join m l = push_bit 8 (ucast m) OR ucast l"

lemma crc_join_bit: "bit (crc_join m l) n \<longleftrightarrow> (if n < 8 then bit l n else bit m (n - 8))"
  using bit_imp_le_length [of m "n - 8"] bit_imp_le_length [of l n]
  by (auto simp: crc_join_def bit_or_iff bit_push_bit_iff bit_ucast_iff)

lemma crc_join_sum: "ucast m * 0x0100 + ucast l = crc_join m l"
proof -
  have "push_bit 8 (ucast m) + ucast l = (push_bit 8 (ucast m) OR ucast l :: u16)"
    by (rule disjunctive_add) (auto simp: bit_push_bit_iff bit_ucast_iff dest: bit_imp_le_length)
  then show ?thesis by (simp add: crc_join_def push_bit_eq_mult mult.commute)
qed

lemma byte_bits:
  "bit (msb_u16 c) n \<longleftrightarrow> n < 8 \<and> bit c (n + 8)" "bit (lsb_u16 c) n \<longleftrightarrow> n < 8 \<and> bit c n"
proof -
  have m: "(0xFF :: u16) = mask 8" by (simp add: mask_eq_exp_minus_1)
  show "bit (msb_u16 c) n \<longleftrightarrow> n < 8 \<and> bit c (n + 8)"
    by (auto simp: msb_u16_def bit_ucast_iff bit_drop_bit_eq add.commute)
  show "bit (lsb_u16 c) n \<longleftrightarrow> n < 8 \<and> bit c n"
    by (auto simp: lsb_u16_def m bit_ucast_iff bit_and_iff bit_mask_iff)
qed

lemma crc_join_bytes: "crc_join (msb_u16 c) (lsb_u16 c) = c"
  by (rule bit_word_eqI) (auto simp: crc_join_bit byte_bits)

lemma crc_bytes_join [simp]: "msb_u16 (crc_join m l) = m" "lsb_u16 (crc_join m l) = l"
  by (rule bit_word_eqI; simp add: crc_join_bit byte_bits)+

text \<open>The entry for a byte is the checksum of that byte alone, from zero.\<close>

lemma crc_slow_byte: "crc_slow [0xFF, NOT i] 2 = crc_round (ucast i)"
proof -
  have "crc_slow [0xFF, NOT i] 2 = crc_byte (crc_byte 0xFFFF 0xFF) (NOT i)"
    by (simp add: crc_slow_def eval_nat_numeral)
  also have "\<dots> = crc_round (crc_round (0xFFFF XOR (push_bit 8 (ucast (NOT i)) OR ucast (0xFF :: u8))))"
    by (rule crc_two_bytes)
  also have "0xFFFF XOR (push_bit 8 (ucast (NOT i)) OR ucast (0xFF :: u8)) = (push_bit 8 (ucast i) :: u16)"
  proof (rule bit_word_eqI)
    fix n assume n: "n < LENGTH(16)"
    have m: "(0xFFFF :: u16) = mask 16" "(0xFF :: u8) = mask 8" by (simp_all add: mask_eq_exp_minus_1)
    have "bit i (n - 8) \<Longrightarrow> n - 8 < 8" using bit_imp_le_length [of i "n - 8"] by simp
    then show "bit (0xFFFF XOR (push_bit 8 (ucast (NOT i)) OR ucast (0xFF :: u8)) :: u16) n =
        bit (push_bit 8 (ucast i) :: u16) n"
      unfolding m using n
      by (cases "n < 8") (auto simp: bit_xor_iff bit_or_iff bit_push_bit_iff bit_ucast_iff bit_not_iff bit_mask_iff)
  qed
  also have "crc_round (crc_round (push_bit 8 (ucast i))) = crc_round (ucast i)" by (simp add: crc_round_shift)
  finally show ?thesis .
qed

lemma concat_pairs:
  "\<forall>x\<in>set xs. length (f x) = 2 \<Longrightarrow> i < length xs \<Longrightarrow> k < 2 \<Longrightarrow> concat (map f xs) ! (2 * i + k) = f (xs ! i) ! k"
proof (induction xs arbitrary: i)
  case (Cons x xs)
  show ?case
  proof (cases i)
    case 0 then show ?thesis using Cons.prems by (simp add: nth_append)
  next
    case (Suc j) then show ?thesis using Cons by (simp add: nth_append)
  qed
qed simp

lemma crc_table:
  "crc_fast_init ! (2 * unat (i :: u8)) = lsb_u16 (crc_round (ucast i))"
  "crc_fast_init ! (2 * unat i + 1) = msb_u16 (crc_round (ucast i))"
proof -
  have i: "unat i < length [0..<256]" "(of_nat ([0..<256] ! unat i) :: u8) = i" by simp_all
  have e: "crc_fast_entry i = [lsb_u16 (crc_round (ucast i)), msb_u16 (crc_round (ucast i))]"
    by (simp add: crc_fast_entry_def crc_slow_byte Let_def)
  have "\<forall>x\<in>set [0..<256]. length (crc_fast_entry (of_nat x)) = 2" by (simp add: crc_fast_entry_def Let_def)
  note c = concat_pairs [where f = "\<lambda>x. crc_fast_entry (of_nat x)", OF this i(1), unfolded crc_fast_init_def [symmetric] i(2) e]
  show "crc_fast_init ! (2 * unat i) = lsb_u16 (crc_round (ucast i))" using c [of 0] by simp
  show "crc_fast_init ! (2 * unat i + 1) = msb_u16 (crc_round (ucast i))" using c [of 1] by simp
qed

lemma crc_byte_join:
  "crc_byte (crc_join m l) b = crc_join (msb_u16 (crc_round (ucast (l XOR b)))) (m XOR lsb_u16 (crc_round (ucast (l XOR b))))"
proof -
  have "crc_join m l XOR ucast b = push_bit 8 (ucast m) XOR ucast (l XOR b)"
    by (rule bit_word_eqI) (auto simp: crc_join_bit bit_xor_iff bit_push_bit_iff bit_ucast_iff dest: bit_imp_le_length)
  then have "crc_byte (crc_join m l) b = ucast m XOR crc_round (ucast (l XOR b))"
    by (simp add: crc_byte_def crc_round_xor crc_round_shift)
  also have "\<dots> = crc_join (msb_u16 (crc_round (ucast (l XOR b)))) (m XOR lsb_u16 (crc_round (ucast (l XOR b))))"
    by (rule bit_word_eqI) (auto simp: crc_join_bit byte_bits bit_xor_iff bit_ucast_iff dest: bit_imp_le_length)
  finally show ?thesis .
qed

lemma crc_fast_loop_slow:
  "crc_fast_loop crc_fast_init (m, l) bs = (m', l') \<Longrightarrow> crc_join m' l' = foldl crc_byte (crc_join m l) bs"
proof (induction bs arbitrary: m l)
  case (Cons b bs)
  let ?c = "crc_round (ucast (l XOR b))"
  have "crc_fast_loop crc_fast_init (msb_u16 ?c, m XOR lsb_u16 ?c) bs = (m', l')"
    using Cons.prems by (simp only: crc_fast_loop.simps Let_def crc_table)
  from Cons.IH [OF this] show ?case by (simp add: crc_byte_join)
qed simp

lemma crc_fast_eq:
  "crc_fast crc_fast_init buf cnt = (if cnt = 0 then None else Some (crc_slow buf cnt))"
proof (cases "crc_fast_loop crc_fast_init (0xFF, 0xFF) (take cnt buf)")
  case (Pair m l)
  have "crc_join 0xFF 0xFF = 0xFFFF" by (simp add: crc_join_def)
  then show ?thesis using crc_fast_loop_slow [OF Pair] Pair
    by (simp add: crc_fast_def crc_slow_def crc_join_sum)
qed

text \<open>C27. The fast checksum, by a table that is made when the library starts, is the slow one, for any
  number of bytes but none: then the process stops.\<close>

theorem crc_fast_is_slow:
  "crc_fast crc_fast_init buf cnt = (if cnt = 0 then None else Some (crc_slow buf cnt))"
  by (rule crc_fast_eq)

section \<open>Errors on the line\<close>

text \<open>A frame is the bits of its bytes, the lowest first, as a serial line sends them; the checksum
  takes them one after the other.\<close>

definition bit_step :: "u16 \<Rightarrow> bool \<Rightarrow> u16" where
  "bit_step c x = crc_step (c XOR of_bool x)"

definition line_bits :: "u8 list \<Rightarrow> bool list" where
  "line_bits f = concat (map (\<lambda>b. map (bit b) [0..<8]) f)"

lemma bit_steps:
  assumes "n \<le> 16"
  shows "foldl bit_step c (map (bit (w :: u16)) [0..<n]) = (crc_step ^^ n) (c XOR take_bit n w)"
  using assms
proof (induction n)
  case (Suc n)
  have "(crc_step ^^ n) (push_bit n (of_bool (bit w n))) = drop_bit n (push_bit n (of_bool (bit w n)))"
    by (rule steps_shift) (simp add: bit_push_bit_iff)
  also have "\<dots> = (of_bool (bit w n) :: u16)"
    by (rule bit_word_eqI) (use Suc.prems in \<open>auto simp: bit_drop_bit_eq bit_push_bit_iff bit_of_bool_iff\<close>)
  finally have p: "(crc_step ^^ n) (push_bit n (of_bool (bit w n))) = (of_bool (bit w n) :: u16)" .
  have "take_bit (Suc n) w = take_bit n w XOR push_bit n (of_bool (bit w n))"
    by (rule bit_word_eqI) (auto simp: bit_take_bit_iff bit_xor_iff bit_push_bit_iff bit_of_bool_iff less_Suc_eq)
  then have "(crc_step ^^ Suc n) (c XOR take_bit (Suc n) w) =
      crc_step ((crc_step ^^ n) (c XOR take_bit n w) XOR of_bool (bit w n))"
    by (simp add: steps_xor p xor.assoc)
  moreover have "foldl bit_step c (map (bit w) [0..<Suc n]) =
      crc_step ((crc_step ^^ n) (c XOR take_bit n w) XOR of_bool (bit w n))"
  proof -
    have "foldl bit_step c (map (bit w) [0..<n]) = (crc_step ^^ n) (c XOR take_bit n w)" using Suc by simp
    moreover have "foldl bit_step c (map (bit w) [0..<Suc n]) = bit_step (foldl bit_step c (map (bit w) [0..<n])) (bit w n)"
      by simp
    ultimately show ?thesis by (simp only: bit_step_def)
  qed
  ultimately show ?case by simp
qed simp

lemma line_byte: "foldl bit_step c (map (bit b) [0..<8]) = crc_byte c b"
proof -
  have "map (bit b) [0..<8] = map (bit (ucast b :: u16)) [0..<8]" by (simp add: bit_ucast_iff)
  moreover have "take_bit 8 (ucast b :: u16) = ucast b"
    by (rule bit_word_eqI) (auto simp: bit_take_bit_iff bit_ucast_iff dest: bit_imp_le_length)
  ultimately show ?thesis using bit_steps [of 8 c "ucast b"] by (simp only: crc_byte_def crc_round_def)
qed

lemma line_crc: "foldl bit_step c (line_bits f) = foldl crc_byte c f"
  by (induction f arbitrary: c) (simp_all add: line_bits_def line_byte)

lemma line_length [simp]: "length (line_bits f) = 8 * length f"
  by (induction f) (simp_all add: line_bits_def)

lemma line_nth: "k < 8 * length f \<Longrightarrow> line_bits f ! k = bit (f ! (k div 8)) (k mod 8)"
proof (induction f arbitrary: k)
  case (Cons b f)
  have l: "line_bits (b # f) = map (bit b) [0..<8] @ line_bits f" by (simp add: line_bits_def)
  show ?case
  proof (cases "k < 8")
    case True then show ?thesis by (simp add: l nth_append)
  next
    case False
    then have "k div 8 = Suc ((k - 8) div 8)" "k mod 8 = (k - 8) mod 8" by (simp_all add: le_div_geq le_mod_geq)
    then show ?thesis using False Cons by (simp add: l nth_append)
  qed
qed simp

text \<open>The checksum of the differences is the difference of the checksums.\<close>

lemma bits_differ:
  "length xs = length ys \<Longrightarrow>
   foldl bit_step (c XOR d) (map2 (\<noteq>) xs ys) = foldl bit_step c xs XOR foldl bit_step d ys"
proof (induction xs ys arbitrary: c d rule: list_induct2)
  case (Cons x xs y ys)
  have "bit_step (c XOR d) (x \<noteq> y) = bit_step c x XOR bit_step d y"
    by (cases x; cases y) (simp_all add: bit_step_def crc_step_xor [symmetric] ac_simps)
  then show ?case using Cons by simp
qed simp

lemma zeros: "foldl bit_step c (replicate n False) = (crc_step ^^ n) c"
  by (induction n arbitrary: c) (simp_all add: bit_step_def funpow_swap1)

lemma burst_zero:
  assumes "foldl bit_step 0 (replicate i False @ bs @ replicate k False) = 0" "length bs \<le> 16"
  shows "bs = replicate (length bs) False"
proof -
  define w :: u16 where "w = horner_sum of_bool 2 bs"
  have b: "bit w n \<longleftrightarrow> n < length bs \<and> bs ! n" for n
    unfolding w_def by (subst bit_horner_sum_bit_word_iff) (use assms(2) in auto)
  have bs: "bs = map (bit w) [0..<length bs]" by (rule nth_equalityI) (simp_all add: b)
  have z: "(crc_step ^^ i) 0 = 0" by (simp only: steps_zero)
  have "foldl bit_step 0 bs = 0" using assms(1) unfolding foldl_append zeros z steps_zero .
  moreover have "foldl bit_step 0 bs = (crc_step ^^ length bs) (take_bit (length bs) w)"
    using bit_steps [OF assms(2), of 0 w, folded bs] by simp
  ultimately have "take_bit (length bs) w = 0" by (simp add: steps_zero)
  then have "\<not> bs ! n" if "n < length bs" for n
    using b [of n] that bit_take_bit_iff [of "length bs" w n] by simp
  then show ?thesis by (simp add: list_eq_iff_nth_eq)
qed

lemma xor_eq_zero: "x XOR y = 0 \<longleftrightarrow> x = (y :: u16)"
proof
  assume "x XOR y = 0"
  then have "(x XOR y) XOR y = 0 XOR y" by simp
  then show "x = y" by (simp add: xor.assoc)
qed simp

text \<open>The checksum of a frame and its own checksum is zero.\<close>

lemma crc_residue:
  assumes "2 \<le> length f"
  shows "crc_slow f (length f - 2) = crc_read f (length f - 2) \<longleftrightarrow> foldl crc_byte 0xFFFF f = 0"
proof -
  let ?n = "length f - 2" and ?c = "crc_slow f (length f - 2)"
  have "f = take ?n f @ [f ! ?n, f ! (?n + 1)]"
  proof (rule nth_equalityI)
    fix k assume "k < length f"
    then consider "k < ?n" | "k = ?n" | "k = ?n + 1" by linarith
    then show "f ! k = (take ?n f @ [f ! ?n, f ! (?n + 1)]) ! k"
      using assms by cases (simp_all add: nth_append)
  qed (use assms in simp)
  then have "foldl crc_byte 0xFFFF f = foldl crc_byte 0xFFFF (take ?n f @ [f ! ?n, f ! (?n + 1)])" by simp
  also have "\<dots> = crc_byte (crc_byte ?c (f ! ?n)) (f ! (?n + 1))" by (simp add: crc_slow_def)
  also have "\<dots> = crc_round (crc_round (?c XOR crc_read f ?n))" by (simp only: crc_two_bytes crc_read_def)
  finally have "foldl crc_byte 0xFFFF f = 0 \<longleftrightarrow> ?c XOR crc_read f ?n = 0" by simp
  then show ?thesis by (simp add: xor_eq_zero)
qed

text \<open>C28. Of two frames that differ only within sixteen bits that follow each other on the line, the
  checksum's own among them, at most one is valid: an error of that kind is always found.\<close>

theorem crc_finds_bursts:
  assumes "2 \<le> length f" "length g = length f"
    and "crc_slow f (length f - 2) = crc_read f (length f - 2)"
    and "crc_slow g (length g - 2) = crc_read g (length g - 2)"
    and "\<forall>k < 8 * length f. k < i \<or> i + 16 \<le> k \<longrightarrow> bit (g ! (k div 8)) (k mod 8) = bit (f ! (k div 8)) (k mod 8)"
  shows "g = f"
proof -
  let ?d = "map2 (\<noteq>) (line_bits f) (line_bits g)" and ?n = "8 * length f"
  have r: "foldl crc_byte 0xFFFF f = 0" "foldl crc_byte 0xFFFF g = 0" using assms crc_residue [of f] crc_residue [of g] by simp_all
  have d: "foldl bit_step 0 ?d = 0"
    using bits_differ [of "line_bits f" "line_bits g" "0xFFFF" "0xFFFF"] assms(2) r by (simp add: line_crc)
  have out: "\<not> ?d ! k" if "k < ?n" "k < i \<or> i + 16 \<le> k" for k
    using that assms(2) assms(5) [rule_format, OF that] by (simp add: line_nth)
  have l: "length ?d = ?n" using assms(2) by simp
  let ?i = "min i ?n" and ?m = "take 16 (drop (min i ?n) ?d)"
  have "?d = take ?i ?d @ ?m @ drop (?i + 16) ?d"
    by (simp only: drop_drop [symmetric] add.commute [of _ 16] append_take_drop_id)
  moreover have "take ?i ?d = replicate ?i False"
    by (rule nth_equalityI) (use out assms(2) in \<open>auto simp: line_nth\<close>)
  moreover have "drop (?i + 16) ?d = replicate (?n - (?i + 16)) False"
  proof (rule nth_equalityI)
    fix k assume k: "k < length (drop (?i + 16) ?d)"
    then have "?i + 16 + k < ?n" using l by simp
    then have "\<not> ?d ! (?i + 16 + k)" using out [of "?i + 16 + k"] by auto
    then show "drop (?i + 16) ?d ! k = replicate (?n - (?i + 16)) False ! k" using k l by simp
  qed (use l in simp)
  ultimately obtain a m b where split: "?d = replicate a False @ m @ replicate b False" "length m \<le> 16" by simp
  have "m = replicate (length m) False" by (rule burst_zero [of a m b]) (use d split in simp_all)
  then obtain q where "m = replicate q False" by blast
  then have "?d = replicate (a + (q + b)) False" using split(1) by (simp add: replicate_add)
  moreover have "a + (q + b) = ?n" using calculation l by (metis length_replicate)
  ultimately have "\<not> ?d ! k" if "k < ?n" for k using that by simp
  then have same: "line_bits f ! k = line_bits g ! k" if "k < ?n" for k using that assms(2) by fastforce
  show "g = f"
  proof (rule nth_equalityI [OF assms(2)])
    fix j assume j: "j < length g"
    show "g ! j = f ! j"
    proof (rule bit_word_eqI)
      fix n assume "n < LENGTH(8)"
      then have "8 * j + n < ?n" "(8 * j + n) div 8 = j" "(8 * j + n) mod 8 = n" using j assms(2) by auto
      then show "bit (g ! j) n = bit (f ! j) n" using same [of "8 * j + n"] line_nth [of "8 * j + n"] assms(2) by metis
    qed
  qed
qed

lemma crc_finds_bursts_witness:
  "crc_slow [0xFF, 0xFF, 0, 0] 2 = crc_read [0xFF, 0xFF, 0, 0] 2 \<and>
   crc_slow [0xFE, 0x0F, 0, 0] 2 \<noteq> crc_read [0xFE, 0x0F, 0, 0] 2"
    (is "crc_slow ?f 2 = _ \<and> crc_slow ?g 2 \<noteq> _")
proof -
  have "NOT (0 :: u8) = 0xFF" by simp
  from crc_slow_byte [of 0, unfolded this] have "crc_slow [0xFF, 0xFF] 2 = 0" by simp
  then have ok: "crc_slow ?f 2 = crc_read ?f 2" by (simp add: crc_slow_def crc_read_def)
  have n: "length ?f - 2 = 2" "length ?g - 2 = 2" by simp_all
  have g: "?g = ?f[0 := 0xFE, 1 := 0x0F]" by simp
  have "k div 8 \<noteq> 0 \<and> k div 8 \<noteq> 1" if "k < 0 \<or> 0 + 16 \<le> k" for k :: nat using that by auto
  then have "\<forall>k < 8 * length ?f. k < 0 \<or> 0 + 16 \<le> k \<longrightarrow> bit (?g ! (k div 8)) (k mod 8) = bit (?f ! (k div 8)) (k mod 8)"
    unfolding g by (metis nth_list_update_neq)
  then have "crc_slow ?g 2 = crc_read ?g 2 \<Longrightarrow> ?g = ?f"
    using crc_finds_bursts [of ?f ?g 0, unfolded n] ok by simp
  moreover have "?g \<noteq> ?f" by simp
  ultimately show ?thesis using ok by blast
qed
end
