(* ===== verification/ModbusRtu.thy ===== *)
theory ModbusRtu
  imports ModbusCrc "HOL-Library.Signed_Division"
begin

unbundle bit_operations_syntax

text \<open>
  Modbus RTU, \<^verbatim>\<open>io/modbus/protocol/mb_rtu.c\<close> with \<^verbatim>\<open>mb_ds_util.h\<close> and the constants of
  \<^verbatim>\<open>mb_util.h\<close>: the buffer of received bytes, finding a frame in it, reading and writing frames,
  and the table of nodes.

  What the line answers is an argument: the results of \<^verbatim>\<open>select\<close>, \<^verbatim>\<open>read\<close> and
  \<^verbatim>\<open>write\<close>, in their order. A call that still waits when the answers are used up has the
  result \<open>None\<close>, and so has one that loops for ever, stops the process or uses a null pointer.
\<close>

section \<open>The linear buffer\<close>

text \<open>The offsets are those of the C structure; \<open>lb_array\<close> is the allocated memory.\<close>

record lb_buf_t =
  lb_array :: "u8 list"
  data_size :: nat
  data_start :: nat
  data_end :: nat
  max_data_start :: nat

text \<open>What a fresh allocation contains is an argument.\<close>

definition lb_init :: "(nat \<Rightarrow> u8) \<Rightarrow> int \<Rightarrow> int \<Rightarrow> lb_buf_t option" where
  "lb_init junk sz max_start =
     (if sz \<le> 0 then None
      else Some \<lparr>lb_array = map junk [0..<nat sz], data_size = nat sz, data_start = 0, data_end = 0,
                 max_data_start = nat (if max_start \<ge> sz then sz - 1 else max_start)\<rparr>)"

text \<open>The bytes move to the bottom; the offsets stay as they are.\<close>

definition lb_normalize :: "lb_buf_t \<Rightarrow> lb_buf_t" where
  "lb_normalize b =
     (let n = data_end b - data_start b
      in b\<lparr>lb_array := take n (drop (data_start b) (lb_array b)) @ drop n (lb_array b)\<rparr>)"

definition lb_data_count :: "lb_buf_t \<Rightarrow> nat" where
  "lb_data_count b = data_end b - data_start b"

text \<open>The bytes from \<^verbatim>\<open>lb_data\<close> on, as many as there are.\<close>

definition lb_data :: "lb_buf_t \<Rightarrow> u8 list" where
  "lb_data b = take (lb_data_count b) (drop (data_start b) (lb_array b))"

definition lb_data_add :: "lb_buf_t \<Rightarrow> nat \<Rightarrow> lb_buf_t" where
  "lb_data_add b count =
     (let e = data_end b + count in b\<lparr>data_end := if e \<ge> data_size b then data_size b - 1 else e\<rparr>)"

definition lb_data_purge :: "lb_buf_t \<Rightarrow> nat \<Rightarrow> lb_buf_t" where
  "lb_data_purge b count =
     (let b1 = b\<lparr>data_start := min (data_start b + count) (data_end b)\<rparr>
      in if data_end b1 = data_size b1 \<or> data_start b1 \<ge> max_data_start b1 then lb_normalize b1 else b1)"

definition lb_data_purge_all :: "lb_buf_t \<Rightarrow> lb_buf_t" where
  "lb_data_purge_all b = b\<lparr>data_start := 0, data_end := 0\<rparr>"

definition lb_free_count :: "lb_buf_t \<Rightarrow> nat" where
  "lb_free_count b = data_size b - data_end b"

text \<open>Bytes that \<^verbatim>\<open>read\<close> stores from \<^verbatim>\<open>lb_free\<close> on.\<close>

definition lb_store :: "lb_buf_t \<Rightarrow> u8 list \<Rightarrow> lb_buf_t" where
  "lb_store b bs =
     b\<lparr>lb_array := take (data_end b) (lb_array b) @ bs @ drop (data_end b + length bs) (lb_array b)\<rparr>"

section \<open>The receive buffer\<close>

record recv_buf_t =
  data_buf :: lb_buf_t
  found_frame_boundary :: bool
  frame_search_history :: u32

definition L2_FRAME_FUNCTION_OFS :: nat where "L2_FRAME_FUNCTION_OFS = 1"
definition L2_FRAME_SLAVEID_OFS :: nat where "L2_FRAME_SLAVEID_OFS = 0"
definition MAX_L2_FRAME_LENGTH :: nat where "MAX_L2_FRAME_LENGTH = 6 + 1 + 255"
definition RTU_FRAME_CRC_LENGTH :: nat where "RTU_FRAME_CRC_LENGTH = 2"
definition MAX_RTU_FRAME_LENGTH :: nat where "MAX_RTU_FRAME_LENGTH = MAX_L2_FRAME_LENGTH + RTU_FRAME_CRC_LENGTH"

definition recv_buf_init :: "(nat \<Rightarrow> u8) \<Rightarrow> int \<Rightarrow> int \<Rightarrow> recv_buf_t option" where
  "recv_buf_init junk sz max_start =
     map_option (\<lambda>b. \<lparr>data_buf = b, found_frame_boundary = False, frame_search_history = 0\<rparr>) (lb_init junk sz max_start)"

definition recv_buf_reset :: "recv_buf_t \<Rightarrow> recv_buf_t" where
  "recv_buf_reset buf = buf\<lparr>data_buf := lb_data_purge_all (data_buf buf), found_frame_boundary := False,
     frame_search_history := 0\<rparr>"

section \<open>Finding a frame\<close>

definition BYTE_COUNT_3 :: int where "BYTE_COUNT_3 = -3"
definition BYTE_COUNT_34 :: int where "BYTE_COUNT_34 = -34"
definition BYTE_COUNT_7 :: int where "BYTE_COUNT_7 = -7"
definition BYTE_COUNT_11 :: int where "BYTE_COUNT_11 = -11"
definition BYTE_COUNT_U :: int where "BYTE_COUNT_U = -128"

definition MAX_FUNCTION_CODE :: u8 where "MAX_FUNCTION_CODE = 0x18"
definition MIN_FRAME_LENGTH :: nat where "MIN_FRAME_LENGTH = 3"
definition EXCEPTION_FRAME_LENGTH :: nat where "EXCEPTION_FRAME_LENGTH = 3"

definition query_frame_lengths :: "int list" where
  "query_frame_lengths =
     [0, 6, 6, 6, 6, 6, 6, 2, 4, BYTE_COUNT_U, BYTE_COUNT_U, 2, 2, BYTE_COUNT_U, BYTE_COUNT_U,
      BYTE_COUNT_7, BYTE_COUNT_7, 2, BYTE_COUNT_U, BYTE_COUNT_U, BYTE_COUNT_3, BYTE_COUNT_3, 8, BYTE_COUNT_11, 4]"

definition response_frame_lengths :: "int list" where
  "response_frame_lengths =
     [0, BYTE_COUNT_3, BYTE_COUNT_3, BYTE_COUNT_3, BYTE_COUNT_3, 6, 6, 3, 6, BYTE_COUNT_U, BYTE_COUNT_U, 6,
      BYTE_COUNT_3, BYTE_COUNT_U, BYTE_COUNT_U, 6, 6, BYTE_COUNT_3, BYTE_COUNT_U, BYTE_COUNT_U,
      BYTE_COUNT_3, BYTE_COUNT_3, 8, BYTE_COUNT_3, BYTE_COUNT_34]"

text \<open>Two bytes in network order.\<close>

definition mb_ntoh_at :: "u8 list \<Rightarrow> nat \<Rightarrow> int" where
  "mb_ntoh_at d i = uint (d ! i) * 256 + uint (d ! (i + 1))"

text \<open>Which table is meant is a flag.\<close>

definition frame_length :: "u8 list \<Rightarrow> bool \<Rightarrow> int" where
  "frame_length d response =
     (let function_code = d ! L2_FRAME_FUNCTION_OFS; n = length d; crc_len = int RTU_FRAME_CRC_LENGTH;
          from_table =
            (let res = (if response then response_frame_lengths else query_frame_lengths) ! unat function_code
             in if res = BYTE_COUNT_3 then (if n \<ge> 3 then 3 + uint (d ! 2) + crc_len else -1)
                else if res = BYTE_COUNT_34 then (if n \<ge> 4 then 4 + mb_ntoh_at d 2 + crc_len else -1)
                else if res = BYTE_COUNT_7 then (if n \<ge> 7 then 7 + uint (d ! 6) + crc_len else -1)
                else if res = BYTE_COUNT_11 then (if n \<ge> 11 then 11 + uint (d ! 10) + crc_len else -1)
                else if res = BYTE_COUNT_U then -1
                else res + crc_len)
      in if function_code = 0x08 \<and> response
         then if n < 4 then -1
              else if d ! 2 = 0 \<and> d ! 3 = 0x15
              then if n < 6 then -1
                   else if d ! 4 = 0 \<and> d ! 5 = 0x03
                   then if n < 8 then -1 else 6 + mb_ntoh_at d 6 + crc_len
                   else from_table
              else from_table
         else from_table)"

type_synonym crc_fun = "u8 list \<Rightarrow> nat \<Rightarrow> u16 option"

definition crc_matches :: "crc_fun \<Rightarrow> u8 list \<Rightarrow> nat \<Rightarrow> bool option" where
  "crc_matches crc d cnt = map_option (\<lambda>c. c = crc_read d cnt) (crc d cnt)"

definition SFF_HIST_NO_QUERY_FRAME :: u32 where "SFF_HIST_NO_QUERY_FRAME = 1"
definition SFF_HIST_NO_RESPONSE_FRAME :: u32 where "SFF_HIST_NO_RESPONSE_FRAME = 2"
definition SFF_HIST_NO_FRAME :: u32 where
  "SFF_HIST_NO_FRAME = SFF_HIST_NO_RESPONSE_FRAME + SFF_HIST_NO_QUERY_FRAME"

text \<open>Trying one kind of frame.\<close>

definition shoot_for :: "crc_fun \<Rightarrow> u8 list \<Rightarrow> u32 \<Rightarrow> int \<Rightarrow> u32 \<Rightarrow> (int \<times> u32) option" where
  "shoot_for crc d flag frame_len hist =
     (if hist AND flag = 0 \<and> frame_len \<ge> 0 \<and> int (length d) \<ge> frame_len
      then case crc_matches crc d (nat (frame_len - int RTU_FRAME_CRC_LENGTH)) of
             None \<Rightarrow> None
           | Some True \<Rightarrow> Some (frame_len, hist)
           | Some False \<Rightarrow> Some (-1, hist OR flag)
      else Some (-1, hist))"

definition shoot_both :: "crc_fun \<Rightarrow> u8 list \<Rightarrow> int \<Rightarrow> int \<Rightarrow> u32 \<Rightarrow> (int \<times> u32) option" where
  "shoot_both crc d query_length resp_length hist =
     (case shoot_for crc d SFF_HIST_NO_QUERY_FRAME query_length hist of
        None \<Rightarrow> None
      | Some (n, hist1) \<Rightarrow>
          if n \<ge> 0 then Some (n, hist1)
          else shoot_for crc d SFF_HIST_NO_RESPONSE_FRAME resp_length hist1)"

text \<open>The test for an exception frame is the one of the code: a logical and.\<close>

definition search_for_frame :: "crc_fun \<Rightarrow> u8 list \<Rightarrow> u32 \<Rightarrow> (int \<times> u32) option" where
  "search_for_frame crc d hist =
     (if hist = SFF_HIST_NO_FRAME \<or> length d < MIN_FRAME_LENGTH \<or> length d > MAX_RTU_FRAME_LENGTH then Some (-1, hist)
      else
        let function_code = d ! L2_FRAME_FUNCTION_OFS in
        if of_bool (function_code \<noteq> 0 \<and> (0x80 :: u8) \<noteq> 0) = (0x80 :: int)
        then if length d \<ge> EXCEPTION_FRAME_LENGTH + RTU_FRAME_CRC_LENGTH
             then case crc_matches crc d EXCEPTION_FRAME_LENGTH of
                    None \<Rightarrow> None
                  | Some True \<Rightarrow> Some (int (EXCEPTION_FRAME_LENGTH + RTU_FRAME_CRC_LENGTH), hist)
                  | Some False \<Rightarrow> Some (-1, hist OR SFF_HIST_NO_FRAME)
             else Some (-1, hist)
        else if function_code > MAX_FUNCTION_CODE \<or> function_code < 1 then Some (-1, hist OR SFF_HIST_NO_FRAME)
        else
          let query_length = (if hist AND SFF_HIST_NO_QUERY_FRAME = 0 then frame_length d False else -1);
              resp_length = (if hist AND SFF_HIST_NO_RESPONSE_FRAME = 0 then frame_length d True else -1);
              len = int (length d)
          in if len = query_length \<or> len = resp_length
             then case crc_matches crc d (length d - RTU_FRAME_CRC_LENGTH) of
                    None \<Rightarrow> None
                  | Some True \<Rightarrow> Some (len, hist)
                  | Some False \<Rightarrow>
                      let hist1 = (if len = query_length then hist OR SFF_HIST_NO_QUERY_FRAME else hist);
                          hist2 = (if len = resp_length then hist1 OR SFF_HIST_NO_RESPONSE_FRAME else hist1)
                      in shoot_both crc d query_length resp_length hist2
             else shoot_both crc d query_length resp_length hist)"

section \<open>Reading a frame\<close>

datatype select_res = Sel_ready | Sel_timeout | Sel_intr | Sel_error
datatype read_res = Rd_bytes "u8 list" | Rd_intr | Rd_error

record rtu_line =
  ln_selects :: "select_res list"
  ln_reads :: "read_res list"

text \<open>Both loops around \<^verbatim>\<open>select\<close> try again when a signal comes: -1 is an error, 0 that nothing
  came in time.\<close>

fun my_select :: "select_res list \<Rightarrow> (int \<times> select_res list) option" where
  "my_select [] = None"
| "my_select (Sel_intr # ss) = my_select ss"
| "my_select (Sel_error # ss) = Some (-1, ss)"
| "my_select (Sel_timeout # ss) = Some (0, ss)"
| "my_select (Sel_ready # ss) = Some (1, ss)"

text \<open>Bytes that do not fit wait for the next \<^verbatim>\<open>read\<close>. The flag tells of an error.\<close>

definition read_some :: "rtu_line \<Rightarrow> recv_buf_t \<Rightarrow> (rtu_line \<times> recv_buf_t \<times> bool) option" where
  "read_some ln buf =
     (if found_frame_boundary buf then Some (ln, buf, False)
      else case ln_reads ln of
             [] \<Rightarrow> None
           | Rd_error # rs \<Rightarrow> Some (ln\<lparr>ln_reads := rs\<rparr>, buf, True)
           | Rd_intr # rs \<Rightarrow> Some (ln\<lparr>ln_reads := rs\<rparr>, buf\<lparr>data_buf := lb_data_add (data_buf buf) 0\<rparr>, False)
           | Rd_bytes bs # rs \<Rightarrow>
               let n = lb_free_count (data_buf buf); got = take n bs; left = drop n bs
               in Some (ln\<lparr>ln_reads := if left = [] then rs else Rd_bytes left # rs\<rparr>,
                        buf\<lparr>data_buf := lb_data_add (lb_store (data_buf buf) got) (length got)\<rparr>, False))"

text \<open>Skipping bytes up to the next one that is the slave's address, or all of them.\<close>

lemma lb_data_count_purge: "lb_data_count (lb_data_purge b n) = lb_data_count b - n"
  by (simp add: lb_data_count_def lb_data_purge_def lb_normalize_def Let_def min_def)

function skip_to_slave :: "u8 \<Rightarrow> lb_buf_t \<Rightarrow> lb_buf_t" where
  "skip_to_slave slave_id b =
     (if lb_data_count b = 0 then b
      else if hd (lb_data b) = slave_id then b
      else skip_to_slave slave_id (lb_data_purge b 1))"
  by auto
termination by (relation "measure (\<lambda>(s, b). lb_data_count b)") (auto simp: lb_data_count_purge)

declare skip_to_slave.simps [simp del]

definition next_frame_offset :: "recv_buf_t \<Rightarrow> u8 option \<Rightarrow> recv_buf_t" where
  "next_frame_offset buf slave =
     (let b = lb_data_purge (data_buf buf) 1
      in buf\<lparr>frame_search_history := 0, data_buf := (case slave of None \<Rightarrow> b | Some slave_id \<Rightarrow> skip_to_slave slave_id b)\<rparr>)"

text \<open>The frame stays where it is in the buffer: the result has its offset, as the code hands out
  a pointer.\<close>

definition return_frame :: "recv_buf_t \<Rightarrow> nat \<Rightarrow> recv_buf_t \<times> int \<times> nat option" where
  "return_frame buf n =
     (let b = lb_data_purge (data_buf buf) n
      in (buf\<lparr>data_buf := b, frame_search_history := 0,
              found_frame_boundary := (if lb_data_count b \<le> 0 then False else found_frame_boundary buf)\<rparr>,
          int n - int RTU_FRAME_CRC_LENGTH, Some (data_start (data_buf buf))))"

type_synonym frame_result = "rtu_line \<times> recv_buf_t \<times> int \<times> nat option"

text \<open>After a silence: the bytes are a frame, or they are skipped one by one from now on.\<close>

definition at_silence :: "crc_fun \<Rightarrow> recv_buf_t \<Rightarrow> (recv_buf_t + recv_buf_t \<times> int \<times> nat option) option" where
  "at_silence crc buf0 =
     (let buf = buf0\<lparr>found_frame_boundary := True\<rparr>; d = lb_data (data_buf buf); n = lb_data_count (data_buf buf);
          skip = buf\<lparr>data_buf := lb_data_purge (data_buf buf) 1, frame_search_history := 0\<rparr>
      in if n \<le> MAX_RTU_FRAME_LENGTH \<and> n > RTU_FRAME_CRC_LENGTH
         then case crc_matches crc d (n - RTU_FRAME_CRC_LENGTH) of
                None \<Rightarrow> None
              | Some True \<Rightarrow> Some (Inr (return_frame buf n))
              | Some False \<Rightarrow> Some (Inl skip)
         else Some (Inl skip))"

text \<open>The end of an iteration: nothing is left and nothing more is read, or the loop goes on.\<close>

definition out_of_data :: "recv_buf_t \<Rightarrow> bool" where
  "out_of_data buf \<longleftrightarrow> lb_data_count (data_buf buf) < MIN_FRAME_LENGTH \<and> found_frame_boundary buf"

partial_function (option) read_loop ::
  "crc_fun \<Rightarrow> u8 option \<Rightarrow> bool \<Rightarrow> rtu_line \<Rightarrow> recv_buf_t \<Rightarrow> frame_result option" where
  "read_loop crc slave aborted ln buf =
     (case read_some ln buf of
        None \<Rightarrow> None
      | Some (ln1, buf1, failed) \<Rightarrow>
          if failed then Some (ln1, buf1, -1, None)
          else case search_for_frame crc (lb_data (data_buf buf1)) (frame_search_history buf1) of
            None \<Rightarrow> None
          | Some (n, hist) \<Rightarrow>
              let buf2 = buf1\<lparr>frame_search_history := hist\<rparr> in
              if n > 0 then Some (ln1, return_frame buf2 (nat n))
              else
                let aborted1 = (aborted \<or> lb_data_count (data_buf buf2) \<ge> MAX_RTU_FRAME_LENGTH);
                    buf3 = (if aborted1 then next_frame_offset buf2 slave else buf2)
                in if found_frame_boundary buf3
                   then if out_of_data buf3 then Some (ln1, recv_buf_reset buf3, -2, None)
                        else read_loop crc slave aborted1 ln1 buf3
                   else case my_select (ln_selects ln1) of
                          None \<Rightarrow> None
                        | Some (res, ss) \<Rightarrow>
                            let ln2 = ln1\<lparr>ln_selects := ss\<rparr> in
                            if res < 0 then Some (ln2, buf3, -1, None)
                            else if res = 0
                            then case at_silence crc buf3 of
                                   None \<Rightarrow> None
                                 | Some (Inr r) \<Rightarrow> Some (ln2, r)
                                 | Some (Inl buf4) \<Rightarrow>
                                     if out_of_data buf4 then Some (ln2, recv_buf_reset buf4, -2, None)
                                     else read_loop crc slave True ln2 buf4
                            else read_loop crc slave aborted1 ln2 buf3)"

definition read_frame :: "crc_fun \<Rightarrow> u8 option \<Rightarrow> rtu_line \<Rightarrow> recv_buf_t \<Rightarrow> frame_result option" where
  "read_frame crc slave ln buf =
     (case search_for_frame crc (lb_data (data_buf buf)) (frame_search_history buf) of
        None \<Rightarrow> None
      | Some (n, hist) \<Rightarrow>
          let buf1 = buf\<lparr>frame_search_history := hist\<rparr> in
          if n > 0 then Some (ln, return_frame buf1 (nat n))
          else
            let buf2 = (if found_frame_boundary buf1 then recv_buf_reset buf1 else buf1)
            in case my_select (ln_selects ln) of
                 None \<Rightarrow> None
               | Some (res, ss) \<Rightarrow>
                   let ln1 = ln\<lparr>ln_selects := ss\<rparr> in
                   if res < 0 then Some (ln1, buf2, -1, None)
                   else if res = 0 then Some (ln1, buf2, -2, None)
                   else read_loop crc slave False ln1 buf2)"

section \<open>Nodes\<close>

record nd_entry_t =
  nd_fd :: int
  recv_buf :: recv_buf_t
  ignore_echo :: bool

datatype crc_func_t = Use_crc_slow | Use_crc_fast
datatype optimization_t = optimize_speed | optimize_size

record rtu_lib =
  nd_table :: "nd_entry_t list option"
  optimization :: optimization_t
  crc_calc :: crc_func_t
  crc_fast_buf :: "u8 list"

definition crc_calc_fun :: "rtu_lib \<Rightarrow> crc_fun" where
  "crc_calc_fun lib =
     (case crc_calc lib of
        Use_crc_slow \<Rightarrow> (\<lambda>buf cnt. Some (crc_slow buf cnt))
      | Use_crc_fast \<Rightarrow> crc_fast (crc_fast_buf lib))"

text \<open>The table of a library that was not started is a null pointer (\<open>None\<close>).\<close>

definition nd_table_get_nd :: "rtu_lib \<Rightarrow> int \<Rightarrow> nd_entry_t option option" where
  "nd_table_get_nd lib nd =
     (case nd_table lib of
        None \<Rightarrow> None
      | Some node \<Rightarrow> Some (if nd < 0 \<or> nd \<ge> int (length node) then None else Some (node ! nat nd)))"

definition put_nd :: "rtu_lib \<Rightarrow> int \<Rightarrow> nd_entry_t \<Rightarrow> rtu_lib" where
  "put_nd lib nd e = lib\<lparr>nd_table := map_option (\<lambda>node. node[nat nd := e]) (nd_table lib)\<rparr>"

section \<open>Reading\<close>

text \<open>The bytes of a frame at an offset, as the caller sees them when it gets the pointer.\<close>

definition frame_at :: "recv_buf_t \<Rightarrow> nat \<Rightarrow> int \<Rightarrow> u8 list" where
  "frame_at buf p n = take (nat n) (drop p (lb_array (data_buf buf)))"

definition MB_INT_MAX :: nat where "MB_INT_MAX = 2147483647"

partial_function (option) frames_until ::
  "crc_fun \<Rightarrow> u8 list \<Rightarrow> bool \<Rightarrow> nat \<Rightarrow> rtu_line \<Rightarrow> recv_buf_t \<Rightarrow> frame_result option" where
  "frames_until crc send_data ignore iter ln buf =
     (let slave = (if length send_data > L2_FRAME_SLAVEID_OFS then Some (send_data ! L2_FRAME_SLAVEID_OFS) else None)
      in case read_frame crc slave ln buf of
           None \<Rightarrow> None
         | Some (ln1, buf1, recv_length, ptr) \<Rightarrow>
             if recv_length < 0 then Some (ln1, buf1, recv_length, ptr)
             else
               let iter1 = (if iter < MB_INT_MAX then iter + 1 else iter);
                   frame = (case ptr of None \<Rightarrow> [] | Some p \<Rightarrow> frame_at buf1 p recv_length)
               in if send_data = [] \<or> \<not> ignore then Some (ln1, buf1, recv_length, ptr)
                  else if length send_data > L2_FRAME_SLAVEID_OFS + 1 \<and> iter1 = 1 \<and>
                       recv_length = int (length send_data) \<and> frame = send_data
                  then frames_until crc send_data ignore iter1 ln1 buf1
                  else if length send_data > L2_FRAME_SLAVEID_OFS \<and> recv_length > int L2_FRAME_SLAVEID_OFS \<and>
                       frame ! L2_FRAME_SLAVEID_OFS = send_data ! L2_FRAME_SLAVEID_OFS
                  then Some (ln1, buf1, recv_length, ptr)
                  else frames_until crc send_data ignore iter1 ln1 buf1)"

text \<open>The clock that gives the end of the waiting may fail.\<close>

definition modbus_rtu_read ::
  "rtu_lib \<Rightarrow> rtu_line \<Rightarrow> bool \<Rightarrow> int \<Rightarrow> u8 list \<Rightarrow> (rtu_lib \<times> rtu_line \<times> int \<times> nat option) option" where
  "modbus_rtu_read lib ln clock_fails nd send_data =
     (case nd_table_get_nd lib nd of
        None \<Rightarrow> None
      | Some None \<Rightarrow> Some (lib, ln, -1, None)
      | Some (Some e) \<Rightarrow>
          if nd_fd e < 0 then Some (lib, ln, -1, None)
          else if clock_fails then Some (lib, ln, -1, None)
          else map_option (\<lambda>(ln1, buf, n, ptr). (put_nd lib nd (e\<lparr>recv_buf := buf\<rparr>), ln1, n, ptr))
                 (frames_until (crc_calc_fun lib) send_data (ignore_echo e) 0 ln (recv_buf e)))"

section \<open>Writing\<close>

text \<open>The checksum goes behind the data, into bytes the caller must have (\<open>None\<close> when there are
  none).\<close>

definition crc_write :: "crc_fun \<Rightarrow> u8 list \<Rightarrow> nat \<Rightarrow> u8 list option" where
  "crc_write crc buf cnt =
     (case crc buf cnt of
        None \<Rightarrow> None
      | Some c \<Rightarrow> if cnt + 1 < length buf then Some (buf[cnt := lsb_u16 c, cnt + 1 := msb_u16 c]) else None)"

datatype write_res = Wr_count nat | Wr_again | Wr_error

text \<open>Waiting for silence: everything that comes is thrown away.\<close>

fun wait_silence :: "select_res list \<Rightarrow> (bool \<times> select_res list) option" where
  "wait_silence [] = None"
| "wait_silence (Sel_timeout # ss) = Some (True, ss)"
| "wait_silence (Sel_error # ss) = Some (False, ss)"
| "wait_silence (Sel_ready # ss) = wait_silence ss"
| "wait_silence (Sel_intr # ss) = wait_silence ss"

definition RTU_FRAME_SEND_RETRY :: nat where "RTU_FRAME_SEND_RETRY = 1"

text \<open>The tries to write. The last part of the result is what was handed to \<^verbatim>\<open>write\<close>, as far as
  it was taken.\<close>

fun write_tries ::
  "nat \<Rightarrow> u8 list \<Rightarrow> select_res list \<Rightarrow> write_res list \<Rightarrow> recv_buf_t \<Rightarrow> u8 list list \<Rightarrow>
     (select_res list \<times> write_res list \<times> recv_buf_t \<times> bool \<times> u8 list list) option" where
  "write_tries 0 data ss ws buf sent = Some (ss, ws, buf, False, sent)"
| "write_tries (Suc n) data ss ws buf sent =
     (case wait_silence ss of
        None \<Rightarrow> None
      | Some (False, ss1) \<Rightarrow> Some (ss1, ws, buf, False, sent)
      | Some (True, ss1) \<Rightarrow>
          let buf1 = recv_buf_reset buf in
          (case ws of
             [] \<Rightarrow> None
           | Wr_error # ws1 \<Rightarrow> Some (ss1, ws1, buf1, False, sent)
           | Wr_again # ws1 \<Rightarrow> write_tries n data ss1 ws1 buf1 sent
           | Wr_count k # ws1 \<Rightarrow>
               let sent1 = sent @ [take k data] in
               if k = length data then Some (ss1, ws1, buf1, True, sent1)
               else write_tries n data ss1 ws1 buf1 sent1))"

definition modbus_rtu_write ::
  "rtu_lib \<Rightarrow> rtu_line \<Rightarrow> write_res list \<Rightarrow> int \<Rightarrow> u8 list \<Rightarrow> nat \<Rightarrow>
     (rtu_lib \<times> rtu_line \<times> write_res list \<times> u8 list list \<times> int) option" where
  "modbus_rtu_write lib ln ws nd data data_length =
     (case nd_table_get_nd lib nd of
        None \<Rightarrow> None
      | Some None \<Rightarrow> Some (lib, ln, ws, [], -1)
      | Some (Some e) \<Rightarrow>
          if nd_fd e < 0 then Some (lib, ln, ws, [], -1)
          else case crc_write (crc_calc_fun lib) data data_length of
                 None \<Rightarrow> None
               | Some data1 \<Rightarrow>
                   map_option (\<lambda>(ss, ws1, buf, ok, sent).
                       (put_nd lib nd (e\<lparr>recv_buf := buf\<rparr>), ln\<lparr>ln_selects := ss\<rparr>, ws1, sent,
                        if ok then int data_length else -1))
                     (write_tries (RTU_FRAME_SEND_RETRY + 1) (take (data_length + RTU_FRAME_CRC_LENGTH) data1)
                        (ln_selects ln) ws (recv_buf e) []))"

section \<open>Opening and closing nodes\<close>

text \<open>The settings of the serial line, as far as they depend on the arguments.\<close>

record termios_t =
  ti_char_size :: int
  ti_cstopb :: bool
  ti_parenb :: bool
  ti_parodd :: bool
  ti_speed :: int

record node_addr_rtu_t =
  baud :: int
  parity :: int
  data_bits :: int
  stop_bits :: int
  addr_ignore_echo :: bool

definition baud_rates :: "int list" where
  "baud_rates = [110, 300, 600, 1200, 2400, 4800, 9600, 19200, 38400, 57600, 115200]"

definition termios_init :: "int \<Rightarrow> int \<Rightarrow> int \<Rightarrow> int \<Rightarrow> termios_t option" where
  "termios_init bd par dbits sbits =
     (if dbits \<noteq> 5 \<and> dbits \<noteq> 6 \<and> dbits \<noteq> 7 \<and> dbits \<noteq> 8 then None
      else if sbits \<noteq> 1 \<and> sbits \<noteq> 2 then None
      else if par \<noteq> 0 \<and> par \<noteq> 2 \<and> par \<noteq> 1 then None
      else if bd \<notin> set baud_rates then None
      else Some \<lparr>ti_char_size = dbits, ti_cstopb = (sbits = 2), ti_parenb = (par \<noteq> 0),
                 ti_parodd = (par = 1), ti_speed = bd\<rparr>)"

definition DEF_DATA_BITS :: int where "DEF_DATA_BITS = 8"
definition DEF_STOP_BITS_PAR :: int where "DEF_STOP_BITS_PAR = 1"
definition DEF_STOP_BITS_NOP :: int where "DEF_STOP_BITS_NOP = 2"
definition DEF_BAUD_RATE :: int where "DEF_BAUD_RATE = 9600"

definition set_defaults :: "node_addr_rtu_t \<Rightarrow> node_addr_rtu_t" where
  "set_defaults a = a\<lparr>
     baud := (if baud a = 0 then DEF_BAUD_RATE else baud a),
     data_bits := (if data_bits a = 0 then DEF_DATA_BITS else data_bits a),
     stop_bits := (if stop_bits a = 0 then (if parity a = 0 then DEF_STOP_BITS_NOP else DEF_STOP_BITS_PAR)
                   else stop_bits a)\<rparr>"

text \<open>The sizes of the buffer. The macro for the length of a frame has no parentheses.\<close>

definition RECV_BUFFER_SIZE_SMALL :: int where
  "RECV_BUFFER_SIZE_SMALL = int MAX_L2_FRAME_LENGTH + int RTU_FRAME_CRC_LENGTH + 10"

definition RECV_BUFFER_SIZE_LARGE :: int where
  "RECV_BUFFER_SIZE_LARGE = 2 * int MAX_L2_FRAME_LENGTH + int RTU_FRAME_CRC_LENGTH"

text \<open>What the system answers: the descriptor of the device, whether its settings can be read and
  set, and what memory contains.\<close>

record tty_env =
  tty_fd :: int
  tty_getattr :: bool
  tty_setattr :: bool
  tty_junk :: "nat \<Rightarrow> u8"

definition recv_buf_done :: "recv_buf_t \<Rightarrow> recv_buf_t" where
  "recv_buf_done buf = buf\<lparr>found_frame_boundary := False, frame_search_history := 0,
     data_buf := (data_buf buf)\<lparr>lb_array := []\<rparr>\<rparr>"

definition nd_entry_connect ::
  "tty_env \<Rightarrow> nd_entry_t \<Rightarrow> node_addr_rtu_t \<Rightarrow> optimization_t \<Rightarrow> nd_entry_t \<times> int" where
  "nd_entry_connect env nde a opt =
     (if nd_fd nde \<ge> 0 then (nde, -1)
      else case termios_init (baud a) (parity a) (data_bits a) (stop_bits a) of
             None \<Rightarrow> (nde\<lparr>nd_fd := -1\<rparr>, -1)
           | Some settings \<Rightarrow>
               let nde1 = nde\<lparr>ignore_echo := addr_ignore_echo a\<rparr>;
                   buf_size = (if opt = optimize_size then RECV_BUFFER_SIZE_SMALL else RECV_BUFFER_SIZE_LARGE)
               in case recv_buf_init (tty_junk env) buf_size
                         (buf_size - int MAX_L2_FRAME_LENGTH + int RTU_FRAME_CRC_LENGTH) of
                    None \<Rightarrow> (nde1\<lparr>nd_fd := -1\<rparr>, -1)
                  | Some buf \<Rightarrow>
                      if tty_fd env < 0 \<or> \<not> tty_getattr env \<or> \<not> tty_setattr env
                      then (nde1\<lparr>recv_buf := recv_buf_done buf, nd_fd := -1\<rparr>, -1)
                      else (nde1\<lparr>recv_buf := buf, nd_fd := tty_fd env\<rparr>, tty_fd env))"

definition nd_entry_free :: "nd_entry_t \<Rightarrow> nd_entry_t \<times> int" where
  "nd_entry_free nde =
     (if nd_fd nde < 0 then (nde, -1)
      else (nde\<lparr>recv_buf := recv_buf_done (recv_buf nde), nd_fd := -1\<rparr>, 0))"

definition nd_table_get_free_nd :: "nd_entry_t list \<Rightarrow> int" where
  "nd_table_get_free_nd node =
     (let i = length (takeWhile (\<lambda>e. \<not> nd_fd e < 0) node) in if i < length node then int i else -1)"

definition modbus_rtu_connect :: "tty_env \<Rightarrow> rtu_lib \<Rightarrow> node_addr_rtu_t \<Rightarrow> (rtu_lib \<times> int) option" where
  "modbus_rtu_connect env lib a =
     (case nd_table lib of
        None \<Rightarrow> None
      | Some node \<Rightarrow>
          let nd = nd_table_get_free_nd node in
          if nd < 0 then Some (lib, -1)
          else case nd_entry_connect env (node ! nat nd) (set_defaults a) (optimization lib) of
                 (e, r) \<Rightarrow> Some (put_nd lib nd e, if r < 0 then -1 else nd))"

definition modbus_rtu_close :: "rtu_lib \<Rightarrow> int \<Rightarrow> (rtu_lib \<times> int) option" where
  "modbus_rtu_close lib nd =
     (case nd_table_get_nd lib nd of
        None \<Rightarrow> None
      | Some None \<Rightarrow> Some (lib, -1)
      | Some (Some e) \<Rightarrow> (case nd_entry_free e of (e1, r) \<Rightarrow> Some (put_nd lib nd e1, r)))"

section \<open>Starting and stopping the library\<close>

definition crc_init :: "rtu_lib \<Rightarrow> optimization_t \<Rightarrow> rtu_lib" where
  "crc_init lib opt =
     (case opt of
        optimize_speed \<Rightarrow> lib\<lparr>crc_fast_buf := crc_fast_init, crc_calc := Use_crc_fast\<rparr>
      | optimize_size \<Rightarrow> lib\<lparr>crc_calc := Use_crc_slow\<rparr>)"

definition crc_done :: "rtu_lib \<Rightarrow> rtu_lib" where
  "crc_done lib = lib\<lparr>crc_fast_buf := (if crc_calc lib = Use_crc_fast then [] else crc_fast_buf lib),
     crc_calc := Use_crc_slow\<rparr>"

text \<open>Memory that is not initialised but for the descriptors.\<close>

definition nd_table_init :: "(nat \<Rightarrow> nd_entry_t) \<Rightarrow> nat \<Rightarrow> nd_entry_t list" where
  "nd_table_init junk nd_count = map (\<lambda>i. (junk i)\<lparr>nd_fd := -1\<rparr>) [0..<nd_count]"

definition modbus_rtu_init ::
  "(nat \<Rightarrow> nd_entry_t) \<Rightarrow> rtu_lib \<Rightarrow> int \<Rightarrow> optimization_t \<Rightarrow> rtu_lib \<times> int \<times> nat option" where
  "modbus_rtu_init junk lib nd_count opt =
     (if nd_table lib \<noteq> None then (lib, -1, None)
      else if nd_count \<le> 0 then (lib, -1, None)
      else ((crc_init lib opt)\<lparr>nd_table := Some (nd_table_init junk (nat nd_count)), optimization := opt\<rparr>,
            0, Some RTU_FRAME_CRC_LENGTH))"

definition modbus_rtu_done :: "rtu_lib \<Rightarrow> rtu_lib \<times> int" where
  "modbus_rtu_done lib =
     (if nd_table lib = None then (lib, 0) else (crc_done (lib\<lparr>nd_table := None\<rparr>), 0))"

text \<open>Again the macro without parentheses; the division is one of integers.\<close>

definition modbus_rtu_get_min_timeout :: "node_addr_rtu_t \<Rightarrow> int" where
  "modbus_rtu_get_min_timeout a0 =
     (let a = set_defaults a0; parity_bits = (if parity a = 0 then 0 else 1);
          char_bits = 1 + data_bits a + parity_bits + stop_bits a
      in (int MAX_L2_FRAME_LENGTH + int RTU_FRAME_CRC_LENGTH * char_bits) sdiv baud a)"
end
