(* ===== verification/ModbusRtuProps.thy ===== *)
theory ModbusRtuProps
  imports ModbusRtu
begin

text \<open>
  Reading and writing Modbus RTU frames: the receive buffer stays within its memory, what is read
  has the right checksum, and what one side writes the other reads, in whatever pieces it comes.
\<close>

section \<open>The buffer\<close>

definition lb_ok :: "lb_buf_t \<Rightarrow> bool" where
  "lb_ok b \<longleftrightarrow> length (lb_array b) = data_size b \<and> data_start b \<le> data_end b \<and> data_end b < data_size b"

lemma lb_data_length [simp]: "lb_ok b \<Longrightarrow> length (lb_data b) = lb_data_count b"
  by (auto simp: lb_ok_def lb_data_def lb_data_count_def)

lemma lb_init_ok: "lb_init junk sz max_start = Some b \<Longrightarrow> lb_ok b \<and> lb_data b = []"
  by (auto simp: lb_init_def lb_ok_def lb_data_def lb_data_count_def split: if_splits)

lemma lb_purge_ok: "lb_ok b \<Longrightarrow> lb_ok (lb_data_purge b n)"
  by (auto simp: lb_ok_def lb_data_purge_def lb_normalize_def Let_def min_def)

lemma lb_purge_all_ok: "lb_ok b \<Longrightarrow> lb_ok (lb_data_purge_all b)"
  by (auto simp: lb_ok_def lb_data_purge_all_def)

lemma lb_add_ok: "lb_ok b \<Longrightarrow> lb_ok (lb_data_add b n)"
  by (auto simp: lb_ok_def lb_data_add_def Let_def)

lemma lb_store_ok: "lb_ok b \<Longrightarrow> length bs \<le> lb_free_count b \<Longrightarrow> lb_ok (lb_store b bs)"
  by (auto simp: lb_ok_def lb_store_def lb_free_count_def)

lemma skip_ok: "lb_ok b \<Longrightarrow> lb_ok (skip_to_slave s b)"
  by (induction s b rule: skip_to_slave.induct) (subst skip_to_slave.simps, simp add: lb_purge_ok)

lemma skip_count: "lb_data_count (skip_to_slave s b) \<le> lb_data_count b"
proof (induction s b rule: skip_to_slave.induct)
  case (1 s b)
  then show ?case using lb_data_count_purge [of b 1] by (subst skip_to_slave.simps) auto
qed

lemma read_some_ok:
  assumes "read_some ln buf = Some (ln1, buf1, failed)" "lb_ok (data_buf buf)"
  shows "lb_ok (data_buf buf1)" "found_frame_boundary buf1 = found_frame_boundary buf"
    "frame_search_history buf1 = frame_search_history buf"
  using assms by (auto simp: read_some_def Let_def lb_add_ok lb_store_ok split: if_splits list.splits read_res.splits)

lemma next_frame_ok:
  assumes "lb_ok (data_buf buf)"
  shows "lb_ok (data_buf (next_frame_offset buf slave))"
    "found_frame_boundary (next_frame_offset buf slave) = found_frame_boundary buf"
    "lb_data_count (data_buf (next_frame_offset buf slave)) \<le> lb_data_count (data_buf buf) - 1"
  using assms skip_count [of _ "lb_data_purge (data_buf buf) 1"]
  by (auto simp: next_frame_offset_def Let_def skip_ok lb_purge_ok lb_data_count_purge split: option.splits)

lemma reset_ok: "lb_ok (data_buf buf) \<Longrightarrow> lb_ok (data_buf (recv_buf_reset buf))"
  by (simp add: recv_buf_reset_def lb_purge_all_ok)

section \<open>What a search finds\<close>

text \<open>Either version of the checksum.\<close>

definition crc_std :: "crc_fun \<Rightarrow> bool" where
  "crc_std crc \<longleftrightarrow> (\<forall>d n. 0 < n \<longrightarrow> crc d n = Some (crc_slow d n))"

definition crc_valid :: "u8 list \<Rightarrow> bool" where
  "crc_valid f \<longleftrightarrow> crc_slow f (length f - 2) = crc_read f (length f - 2)"

definition lib_ok :: "rtu_lib \<Rightarrow> bool" where
  "lib_ok lib \<longleftrightarrow> (crc_calc lib = Use_crc_fast \<longrightarrow> crc_fast_buf lib = crc_fast_init)"

lemma crc_std_lib: "lib_ok lib \<Longrightarrow> crc_std (crc_calc_fun lib)"
proof -
  assume l: "lib_ok lib"
  have "crc_fast crc_fast_init d n = Some (crc_slow d n)" if "0 < n" for d n
    using crc_fast_eq [of d n] that by simp
  then show ?thesis using l by (cases "crc_calc lib") (auto simp: crc_std_def crc_calc_fun_def lib_ok_def)
qed

lemma crc_of_prefix: "2 \<le> n \<Longrightarrow> n \<le> length d \<Longrightarrow> crc_slow d (n - 2) = crc_read d (n - 2) \<longleftrightarrow> crc_valid (take n d)"
  by (simp add: crc_valid_def crc_slow_def crc_read_def min_def)

lemma matches_valid:
  assumes "crc_std crc" "2 < n" "n \<le> length d"
  shows "crc_matches crc d (n - 2) = Some (crc_valid (take n d))"
  using assms crc_of_prefix [of n d] by (simp add: crc_matches_def crc_std_def)


lemma frame_lengths_table:
  assumes "1 \<le> i" "i \<le> 24"
  shows "query_frame_lengths ! i \<in> {2, 4, 6, 8, BYTE_COUNT_3, BYTE_COUNT_7, BYTE_COUNT_11, BYTE_COUNT_U}"
    "response_frame_lengths ! i \<in> {3, 6, 8, BYTE_COUNT_3, BYTE_COUNT_34, BYTE_COUNT_U}"
proof -
  have "i \<in> set [1..<25]" using assms by auto
  moreover have "\<forall>i\<in>set [1..<25]. query_frame_lengths ! i \<in> {2, 4, 6, 8, BYTE_COUNT_3, BYTE_COUNT_7, BYTE_COUNT_11, BYTE_COUNT_U} \<and>
    response_frame_lengths ! i \<in> {3, 6, 8, BYTE_COUNT_3, BYTE_COUNT_34, BYTE_COUNT_U}"
    by (simp add: upt_rec numeral_nat query_frame_lengths_def response_frame_lengths_def)
  ultimately show "query_frame_lengths ! i \<in> {2, 4, 6, 8, BYTE_COUNT_3, BYTE_COUNT_7, BYTE_COUNT_11, BYTE_COUNT_U}"
    "response_frame_lengths ! i \<in> {3, 6, 8, BYTE_COUNT_3, BYTE_COUNT_34, BYTE_COUNT_U}" by blast+
qed

definition known_function :: "u8 list \<Rightarrow> bool" where
  "known_function d \<longleftrightarrow> 1 \<le> d ! 1 \<and> d ! 1 \<le> MAX_FUNCTION_CODE"

lemma known_range: "known_function d \<Longrightarrow> 1 \<le> unat (d ! 1) \<and> unat (d ! 1) \<le> 24"
  by (auto simp: known_function_def MAX_FUNCTION_CODE_def word_le_nat_alt)

lemmas byte_counts = BYTE_COUNT_3_def BYTE_COUNT_34_def BYTE_COUNT_7_def BYTE_COUNT_11_def BYTE_COUNT_U_def

lemma frame_length_range: "known_function d \<Longrightarrow> frame_length d r = -1 \<or> 4 \<le> frame_length d r"
proof -
  assume k: "known_function d"
  define ft where "ft res =
    (if res = BYTE_COUNT_3 then (if length d \<ge> 3 then 3 + uint (d ! 2) + 2 else -1)
     else if res = BYTE_COUNT_34 then (if length d \<ge> 4 then 4 + mb_ntoh_at d 2 + 2 else -1)
     else if res = BYTE_COUNT_7 then (if length d \<ge> 7 then 7 + uint (d ! 6) + 2 else -1)
     else if res = BYTE_COUNT_11 then (if length d \<ge> 11 then 11 + uint (d ! 10) + 2 else -1)
     else if res = BYTE_COUNT_U then -1
     else res + 2)" for res
  have m: "0 \<le> mb_ntoh_at d i" for i by (simp add: mb_ntoh_at_def)
  have ft: "ft res = -1 \<or> 4 \<le> ft res" if "res \<in> {2, 3, 4, 6, 8, BYTE_COUNT_3, BYTE_COUNT_34, BYTE_COUNT_7, BYTE_COUNT_11, BYTE_COUNT_U}" for res
    using that m [of 2] by (elim insertE emptyE) (simp_all add: ft_def byte_counts)
  let ?tbl = "(if r then response_frame_lengths else query_frame_lengths) ! unat (d ! 1)"
  have "?tbl \<in> {2, 3, 4, 6, 8, BYTE_COUNT_3, BYTE_COUNT_34, BYTE_COUNT_7, BYTE_COUNT_11, BYTE_COUNT_U}"
    using frame_lengths_table [OF conjunct1 [OF known_range [OF k]] conjunct2 [OF known_range [OF k]]] by (cases r) auto
  define F where "F = ft ?tbl"
  have F: "F = -1 \<or> 4 \<le> F" unfolding F_def by (rule ft) fact
  have "frame_length d r = (if d ! 1 = 0x08 \<and> r then if length d < 4 then -1
      else if d ! 2 = 0 \<and> d ! 3 = 0x15 then if length d < 6 then -1
        else if d ! 4 = 0 \<and> d ! 5 = 0x03 then if length d < 8 then -1 else 6 + mb_ntoh_at d 6 + 2 else F
      else F else F)"
    unfolding F_def frame_length_def Let_def L2_FRAME_FUNCTION_OFS_def RTU_FRAME_CRC_LENGTH_def ft_def of_nat_numeral ..
  then show ?thesis using F m [of 6] by (simp split: if_split)
qed

lemma shoot_result:
  assumes "crc_std crc" "n = -1 \<or> 4 \<le> n"
  shows "shoot_for crc d flag n hist =
    (if hist AND flag = 0 \<and> 4 \<le> n \<and> n \<le> int (length d)
     then if crc_valid (take (nat n) d) then Some (n, hist) else Some (-1, hist OR flag)
     else Some (-1, hist))"
proof (cases "n = -1")
  case True then show ?thesis by (simp add: shoot_for_def)
next
  case False
  then have n: "4 \<le> n" using assms(2) by simp
  then have "nat (n - 2) = nat n - 2" by simp
  then have "n \<le> int (length d) \<Longrightarrow> crc_matches crc d (nat (n - 2)) = Some (crc_valid (take (nat n) d))"
    using matches_valid [OF assms(1), of "nat n" d] n by simp
  then show ?thesis using n by (simp add: shoot_for_def RTU_FRAME_CRC_LENGTH_def)
qed

text \<open>The search when the function is known: the lengths it goes by, and what it does with them.\<close>

definition query_guess :: "u8 list \<Rightarrow> u32 \<Rightarrow> int" where
  "query_guess d hist = (if hist AND SFF_HIST_NO_QUERY_FRAME = 0 then frame_length d False else -1)"

definition resp_guess :: "u8 list \<Rightarrow> u32 \<Rightarrow> int" where
  "resp_guess d hist = (if hist AND SFF_HIST_NO_RESPONSE_FRAME = 0 then frame_length d True else -1)"

definition searchable :: "u8 list \<Rightarrow> u32 \<Rightarrow> bool" where
  "searchable d hist \<longleftrightarrow> known_function d \<and> 3 \<le> length d \<and> length d \<le> MAX_RTU_FRAME_LENGTH \<and> hist \<noteq> SFF_HIST_NO_FRAME"

lemma search_unknown: "\<not> searchable d hist \<Longrightarrow> \<exists>h. search_for_frame crc d hist = Some (-1, h)"
  by (cases "hist = SFF_HIST_NO_FRAME \<or> length d < 3 \<or> length d > MAX_RTU_FRAME_LENGTH")
     (auto simp: search_for_frame_def searchable_def known_function_def L2_FRAME_FUNCTION_OFS_def MIN_FRAME_LENGTH_def Let_def not_le)

lemma search_known:
  assumes "searchable d hist" "crc_std crc"
  shows "search_for_frame crc d hist =
     (if int (length d) = query_guess d hist \<or> int (length d) = resp_guess d hist
      then if crc_valid d then Some (int (length d), hist)
           else shoot_both crc d (query_guess d hist) (resp_guess d hist)
             (let hist1 = (if int (length d) = query_guess d hist then hist OR SFF_HIST_NO_QUERY_FRAME else hist)
              in if int (length d) = resp_guess d hist then hist1 OR SFF_HIST_NO_RESPONSE_FRAME else hist1)
      else shoot_both crc d (query_guess d hist) (resp_guess d hist) hist)"
proof -
  have c1: "\<not> (hist = SFF_HIST_NO_FRAME \<or> length d < 3 \<or> length d > MAX_RTU_FRAME_LENGTH)"
    using assms(1) by (auto simp: searchable_def)
  have c2: "(of_bool X = (0x80 :: int)) = False" for X by (cases X) simp_all
  have c3: "\<not> (d ! 1 > MAX_FUNCTION_CODE \<or> d ! 1 < 1)" using assms(1) by (auto simp: searchable_def known_function_def)
  have whole: "crc_matches crc d (length d - 2) = Some (crc_valid d)"
    using matches_valid [OF assms(2), of "length d" d] assms(1) by (simp add: searchable_def)
  show ?thesis
    unfolding search_for_frame_def L2_FRAME_FUNCTION_OFS_def MIN_FRAME_LENGTH_def RTU_FRAME_CRC_LENGTH_def Let_def
      query_guess_def [symmetric] resp_guess_def [symmetric]
    by (simp only: c1 c2 c3 if_False whole option.case bool.case_eq_if) simp
qed

lemma guess_range:
  "searchable d hist \<Longrightarrow> query_guess d hist = -1 \<or> 4 \<le> query_guess d hist"
  "searchable d hist \<Longrightarrow> resp_guess d hist = -1 \<or> 4 \<le> resp_guess d hist"
  using frame_length_range [of d] by (auto simp: searchable_def query_guess_def resp_guess_def)

lemma search_result:
  assumes "crc_std crc"
  shows "\<exists>n h. search_for_frame crc d hist = Some (n, h) \<and>
    (n > 0 \<longrightarrow> 4 \<le> n \<and> n \<le> int (length d) \<and> length d \<le> MAX_RTU_FRAME_LENGTH \<and> crc_valid (take (nat n) d))"
proof (cases "searchable d hist")
  case True
  note g = guess_range [OF True]
  have len: "3 \<le> length d" "length d \<le> MAX_RTU_FRAME_LENGTH" using True by (simp_all add: searchable_def)
  have both: "\<exists>n h. shoot_both crc d (query_guess d hist) (resp_guess d hist) h0 = Some (n, h) \<and>
      (n > 0 \<longrightarrow> 4 \<le> n \<and> n \<le> int (length d) \<and> crc_valid (take (nat n) d))" for h0
    unfolding shoot_both_def shoot_result [OF assms g(1)] shoot_result [OF assms g(2)] by auto
  show ?thesis
  proof (cases "(int (length d) = query_guess d hist \<or> int (length d) = resp_guess d hist) \<and> crc_valid d")
    case True
    moreover have "4 \<le> int (length d)" using True g len by auto
    ultimately show ?thesis using search_known [OF \<open>searchable d hist\<close> assms] len by simp
  next
    case False
    then obtain h0 where "search_for_frame crc d hist = shoot_both crc d (query_guess d hist) (resp_guess d hist) h0"
      unfolding search_known [OF True assms] by (cases "int (length d) = query_guess d hist \<or> int (length d) = resp_guess d hist") auto
    then show ?thesis using both [of h0] len by simp
  qed
next
  case False
  then show ?thesis using search_unknown [OF False] by fastforce
qed

section \<open>What is returned\<close>

text \<open>The frame handed out is still there unless the rest of the buffer was moved over it.\<close>

definition frame_kept :: "recv_buf_t \<Rightarrow> nat \<Rightarrow> bool" where
  "frame_kept buf p \<longleftrightarrow> lb_data_count (data_buf buf) \<le> p \<or> data_start (data_buf buf) < max_data_start (data_buf buf)"

definition result_ok :: "recv_buf_t \<Rightarrow> int \<Rightarrow> nat option \<Rightarrow> bool" where
  "result_ok buf n ptr \<longleftrightarrow> lb_ok (data_buf buf) \<and>
     (case ptr of None \<Rightarrow> n = -1 \<or> n = -2
      | Some p \<Rightarrow> 1 \<le> n \<and> p + nat n + 2 \<le> data_size (data_buf buf) \<and>
          (frame_kept buf p \<longrightarrow> crc_valid (frame_at buf p (n + 2))))"

lemma return_frame_ok:
  assumes "lb_ok (data_buf buf)" "n \<le> lb_data_count (data_buf buf)" "3 \<le> n" "crc_valid (take n (lb_data (data_buf buf)))"
    and r: "return_frame buf n = (buf', m, ptr)"
  shows "result_ok buf' m ptr"
proof -
  let ?b = "data_buf buf" and ?c = "lb_data_purge (data_buf buf) n"
  have r': "data_buf buf' = ?c" "m = int n - 2" "ptr = Some (data_start ?b)"
    using r by (auto simp: return_frame_def Let_def RTU_FRAME_CRC_LENGTH_def)
  have ok: "lb_ok ?c" using assms(1) by (rule lb_purge_ok)
  have st: "data_start ?c = data_start ?b + n" "data_end ?c = data_end ?b" "max_data_start ?c = max_data_start ?b" "data_size ?c = data_size ?b"
    using assms(1,2) by (auto simp: lb_data_purge_def lb_normalize_def Let_def lb_ok_def lb_data_count_def)
  have in_buf: "data_start ?b + n \<le> data_size ?b" using assms(1,2) by (auto simp: lb_ok_def lb_data_count_def)
  have "crc_valid (frame_at buf' (data_start ?b) (m + 2))" if kept: "frame_kept buf' (data_start ?b)"
  proof -
    have same: "drop (data_start ?b) (lb_array ?c) = drop (data_start ?b) (lb_array ?b)"
    proof (cases "data_end ?b = data_size ?b \<or> data_start ?b + n \<ge> max_data_start ?b")
      case True
      then have le: "lb_data_count ?c \<le> data_start ?b"
        using kept assms(1) by (auto simp: frame_kept_def r' st lb_ok_def)
      let ?k = "data_end ?b - (data_start ?b + n)"
      have "?k = lb_data_count ?c" by (simp add: lb_data_count_def st)
      then have k: "?k \<le> data_start ?b" "length (take ?k (drop (data_start ?b + n) (lb_array ?b))) = ?k"
        using le assms(1) by (auto simp: lb_ok_def)
      have "lb_array ?c = take ?k (drop (data_start ?b + n) (lb_array ?b)) @ drop ?k (lb_array ?b)"
        using True assms(1,2) by (auto simp: lb_data_purge_def lb_normalize_def Let_def lb_ok_def lb_data_count_def min_def)
      then show ?thesis using k by simp
    next
      case False
      then have "lb_array ?c = lb_array ?b" using assms(1,2)
        by (auto simp: lb_data_purge_def Let_def lb_ok_def lb_data_count_def min_def)
      then show ?thesis by simp
    qed
    have "frame_at buf' (data_start ?b) (m + 2) = take n (lb_data ?b)"
      using assms(2) same by (simp add: frame_at_def r' lb_data_def min_def)
    then show ?thesis using assms(4) by simp
  qed
  then show ?thesis using ok in_buf assms(3) st by (auto simp: result_ok_def r')
qed

lemma at_silence_ok:
  assumes "lb_ok (data_buf buf)" "crc_std crc"
  shows "case at_silence crc buf of None \<Rightarrow> False
    | Some (Inr (buf', m, ptr)) \<Rightarrow> result_ok buf' m ptr
    | Some (Inl buf') \<Rightarrow> lb_ok (data_buf buf') \<and> found_frame_boundary buf' \<and>
        lb_data_count (data_buf buf') = lb_data_count (data_buf buf) - 1"
proof -
  let ?n = "lb_data_count (data_buf buf)" and ?d = "lb_data (data_buf buf)"
  let ?buf = "buf\<lparr>found_frame_boundary := True\<rparr>"
  have len: "length ?d = ?n" using assms(1) by simp
  show ?thesis
  proof (cases "?n \<le> MAX_RTU_FRAME_LENGTH \<and> 2 < ?n")
    case True
    then have m: "crc_matches crc ?d (?n - 2) = Some (crc_valid ?d)"
      using matches_valid [OF assms(2), of ?n ?d] len by simp
    show ?thesis
    proof (cases "crc_valid ?d")
      case True
      obtain buf' k ptr where r: "return_frame ?buf ?n = (buf', k, ptr)" by (cases "return_frame ?buf ?n")
      have "result_ok buf' k ptr"
        by (rule return_frame_ok [OF _ _ _ _ r]) (use assms(1) \<open>_ \<and> 2 < ?n\<close> True len in simp_all)
      then show ?thesis using m r True \<open>_ \<and> 2 < ?n\<close> by (simp add: at_silence_def Let_def RTU_FRAME_CRC_LENGTH_def)
    next
      case False
      then show ?thesis using m assms(1) \<open>_ \<and> 2 < ?n\<close>
        by (simp add: at_silence_def Let_def RTU_FRAME_CRC_LENGTH_def lb_purge_ok lb_data_count_purge)
    qed
  next
    case False
    then show ?thesis using assms(1)
      by (auto simp: at_silence_def Let_def RTU_FRAME_CRC_LENGTH_def lb_purge_ok lb_data_count_purge)
  qed
qed

text \<open>Answers with which a read comes to an end: once there is silence, or an error.\<close>

definition answered :: "rtu_line \<Rightarrow> bool" where
  "answered ln \<longleftrightarrow> (\<exists>s\<in>set (ln_selects ln). s = Sel_timeout \<or> s = Sel_error) \<and>
     length (ln_selects ln) \<le> length (ln_reads ln)"

lemma my_select_none: "my_select ss = None \<Longrightarrow> set ss \<subseteq> {Sel_intr}"
  by (induction ss rule: my_select.induct) auto

lemma my_select_some:
  "my_select ss = Some (r, ss1) \<Longrightarrow> length ss1 < length ss \<and> (r = -1 \<or> r = 0 \<or> r = 1) \<and>
   (r = 1 \<longrightarrow> (\<exists>s\<in>set ss. s = Sel_timeout \<or> s = Sel_error) \<longrightarrow> (\<exists>s\<in>set ss1. s = Sel_timeout \<or> s = Sel_error))"
  by (induction ss rule: my_select.induct) auto

definition loop_ok :: "rtu_line \<Rightarrow> recv_buf_t \<Rightarrow> frame_result option \<Rightarrow> bool" where
  "loop_ok ln buf res \<longleftrightarrow>
     (case res of None \<Rightarrow> \<not> found_frame_boundary buf \<and> \<not> answered ln
      | Some (ln', buf', n, ptr) \<Rightarrow> result_ok buf' n ptr)"

lemma loop_ok_simps [simp]:
  "loop_ok ln buf None \<longleftrightarrow> \<not> found_frame_boundary buf \<and> \<not> answered ln"
  "loop_ok ln buf (Some (ln', buf', n, ptr)) \<longleftrightarrow> result_ok buf' n ptr"
  by (simp_all add: loop_ok_def)

lemma search_return:
  assumes "crc_std crc" "lb_ok (data_buf buf)" "search_for_frame crc (lb_data (data_buf buf)) h = Some (n, hist)" "n > 0"
  shows "loop_ok ln0 buf0 (Some (ln, return_frame (buf\<lparr>frame_search_history := hist\<rparr>) (nat n)))"
proof -
  let ?d = "lb_data (data_buf buf)"
  have n: "4 \<le> n" "n \<le> int (length ?d)" "crc_valid (take (nat n) ?d)"
    using search_result [OF assms(1), of ?d h] assms(3,4) by auto
  obtain buf' m ptr where r: "return_frame (buf\<lparr>frame_search_history := hist\<rparr>) (nat n) = (buf', m, ptr)"
    by (cases "return_frame (buf\<lparr>frame_search_history := hist\<rparr>) (nat n)")
  have "result_ok buf' m ptr" by (rule return_frame_ok [OF _ _ _ _ r]) (use assms(2) n in auto)
  then show ?thesis using r by simp
qed

text \<open>After a silence no more bytes are read, and those in the buffer get fewer.\<close>

lemma read_loop_skipping:
  assumes "crc_std crc" "lb_ok (data_buf buf)" "found_frame_boundary buf"
  shows "loop_ok ln buf (read_loop crc slave True ln buf)"
  using assms(2,3)
proof (induction "lb_data_count (data_buf buf)" arbitrary: buf rule: less_induct)
  case less
  obtain n hist where s: "search_for_frame crc (lb_data (data_buf buf)) (frame_search_history buf) = Some (n, hist)"
    using search_result [OF assms(1)] by blast
  let ?buf2 = "buf\<lparr>frame_search_history := hist\<rparr>"
  let ?buf3 = "next_frame_offset ?buf2 slave"
  have rd: "read_some ln buf = Some (ln, buf, False)" using less.prems by (simp add: read_some_def)
  have b3: "lb_ok (data_buf ?buf3)" "found_frame_boundary ?buf3"
      "lb_data_count (data_buf ?buf3) \<le> lb_data_count (data_buf buf) - 1"
    using next_frame_ok [of ?buf2 slave] less.prems by simp_all
  show ?case
  proof (cases "n > 0")
    case True
    then have "read_loop crc slave True ln buf = Some (ln, return_frame ?buf2 (nat n))"
      by (subst read_loop.simps) (simp add: rd s Let_def)
    then show ?thesis using search_return [OF assms(1) less.prems(1) s True, of ln buf ln] by simp
  next
    case False
    then have r: "read_loop crc slave True ln buf =
        (if out_of_data ?buf3 then Some (ln, recv_buf_reset ?buf3, -2, None) else read_loop crc slave True ln ?buf3)"
      using b3(2) by (subst read_loop.simps) (simp add: rd s Let_def)
    show ?thesis
    proof (cases "out_of_data ?buf3")
      case True
      then show ?thesis using r reset_ok [OF b3(1)] by (simp add: result_ok_def)
    next
      case False
      then have "lb_data_count (data_buf ?buf3) < lb_data_count (data_buf buf)"
        using b3 by (auto simp: out_of_data_def MIN_FRAME_LENGTH_def)
      from less.hyps [OF this b3(1,2)] False r less.prems(2) b3(2) show ?thesis
        by (auto simp: loop_ok_def split: option.splits)
    qed
  qed
qed

lemma read_loop_ok:
  assumes "crc_std crc" "lb_ok (data_buf buf)" "\<not> found_frame_boundary buf"
  shows "loop_ok ln buf (read_loop crc slave aborted ln buf)"
  using assms(2,3)
proof (induction "length (ln_selects ln)" arbitrary: ln buf aborted rule: less_induct)
  case less
  show ?case
  proof (cases "read_some ln buf")
    case None
    then have "ln_reads ln = []"
      using less.prems(2) by (auto simp: read_some_def Let_def split: list.splits read_res.splits)
    then have "\<not> answered ln" by (auto simp: answered_def)
    then show ?thesis using less.prems(2) None by (subst read_loop.simps) simp
  next
    case (Some t)
    obtain ln1 buf1 failed where t: "t = (ln1, buf1, failed)" by (cases t)
    note rd = Some [unfolded t]
    note r1 = read_some_ok [OF rd less.prems(1)]
    have ln1: "ln_selects ln1 = ln_selects ln" "length (ln_reads ln) \<le> Suc (length (ln_reads ln1))"
      using rd by (auto simp: read_some_def Let_def split: if_splits list.splits read_res.splits)
    obtain n hist where s: "search_for_frame crc (lb_data (data_buf buf1)) (frame_search_history buf1) = Some (n, hist)"
      using search_result [OF assms(1)] by blast
    let ?buf2 = "buf1\<lparr>frame_search_history := hist\<rparr>"
    define aborted1 where "aborted1 \<longleftrightarrow> aborted \<or> lb_data_count (data_buf ?buf2) \<ge> MAX_RTU_FRAME_LENGTH"
    define buf3 where "buf3 = (if aborted1 then next_frame_offset ?buf2 slave else ?buf2)"
    have b3: "lb_ok (data_buf buf3)" "\<not> found_frame_boundary buf3"
      using next_frame_ok [of ?buf2 slave] r1 less.prems(2) by (simp_all add: buf3_def)
    consider "failed" | "\<not> failed" "n > 0" | "\<not> failed" "\<not> n > 0" by blast
    then show ?thesis
    proof cases
      case 1
      then have "read_loop crc slave aborted ln buf = Some (ln1, buf1, -1, None)" by (subst read_loop.simps) (simp add: rd)
      then show ?thesis using r1(1) by (simp add: result_ok_def)
    next
      case 2
      then have "read_loop crc slave aborted ln buf = Some (ln1, return_frame ?buf2 (nat n))"
        by (subst read_loop.simps) (simp add: rd s Let_def)
      then show ?thesis using search_return [OF assms(1) r1(1) s 2(2), of ln buf ln1] by simp
    next
      case 3
      then have r: "read_loop crc slave aborted ln buf =
          (case my_select (ln_selects ln1) of None \<Rightarrow> None
           | Some (res, ss) \<Rightarrow>
               if res < 0 then Some (ln1\<lparr>ln_selects := ss\<rparr>, buf3, -1, None)
               else if res = 0 then case at_silence crc buf3 of None \<Rightarrow> None
                    | Some (Inr r) \<Rightarrow> Some (ln1\<lparr>ln_selects := ss\<rparr>, r)
                    | Some (Inl buf4) \<Rightarrow> if out_of_data buf4 then Some (ln1\<lparr>ln_selects := ss\<rparr>, recv_buf_reset buf4, -2, None)
                        else read_loop crc slave True (ln1\<lparr>ln_selects := ss\<rparr>) buf4
               else read_loop crc slave aborted1 (ln1\<lparr>ln_selects := ss\<rparr>) buf3)"
        by (subst read_loop.simps)
          (simp only: rd s Let_def option.case prod.case 3 if_False aborted1_def [symmetric] buf3_def [symmetric] b3(2))
      show ?thesis
      proof (cases "my_select (ln_selects ln1)")
        case None
        from my_select_none [OF this] have "\<not> answered ln" using ln1(1) by (auto simp: answered_def)
        then show ?thesis using r None less.prems(2) by simp
      next
        case (Some q)
        obtain res ss where q: "q = (res, ss)" by (cases q)
        note sel = my_select_some [OF Some [unfolded q]]
        let ?ln2 = "ln1\<lparr>ln_selects := ss\<rparr>"
        consider "res = -1" | "res = 0" | "res = 1" using sel by blast
        then show ?thesis
        proof cases
          case 1 then show ?thesis using r Some q b3(1) by (simp add: result_ok_def)
        next
          case 2
          note si = at_silence_ok [OF b3(1) assms(1)]
          show ?thesis
          proof (cases "at_silence crc buf3")
            case None then show ?thesis using si by simp
          next
            case (Some z)
            show ?thesis
            proof (cases z)
              case (Inr v)
              obtain buf4 m ptr where "v = (buf4, m, ptr)" by (cases v)
              then show ?thesis using r \<open>my_select _ = Some q\<close> q 2 Some Inr si by simp
            next
              case (Inl buf4)
              have b4: "lb_ok (data_buf buf4)" "found_frame_boundary buf4" using si Some Inl by simp_all
              have "loop_ok ?ln2 buf4 (read_loop crc slave True ?ln2 buf4)"
                by (rule read_loop_skipping [OF assms(1) b4])
              then show ?thesis using r \<open>my_select _ = Some q\<close> q 2 Some Inl b4 reset_ok [OF b4(1)]
                by (auto simp: loop_ok_def result_ok_def split: option.splits)
            qed
          qed
        next
          case 3
          have sm: "length (ln_selects ?ln2) < length (ln_selects ln)" using sel ln1(1) by simp
          have "answered ln \<Longrightarrow> answered ?ln2" using sel 3 ln1 by (auto simp: answered_def)
          moreover have "read_loop crc slave aborted ln buf = read_loop crc slave aborted1 ?ln2 buf3"
            using r Some q 3 by simp
          ultimately show ?thesis using less.hyps [OF sm b3, of aborted1] less.prems(2)
            by (auto simp: loop_ok_def split: option.splits)
        qed
      qed
    qed
  qed
qed

lemma read_frame_ok:
  assumes "lib_ok lib" "lb_ok (data_buf buf)"
  shows "case read_frame (crc_calc_fun lib) slave ln buf of None \<Rightarrow> \<not> answered ln
    | Some (ln', buf', n, ptr) \<Rightarrow> result_ok buf' n ptr"
proof -
  let ?crc = "crc_calc_fun lib"
  note std = crc_std_lib [OF assms(1)]
  obtain n hist where s: "search_for_frame ?crc (lb_data (data_buf buf)) (frame_search_history buf) = Some (n, hist)"
    using search_result [OF std] by blast
  let ?buf1 = "buf\<lparr>frame_search_history := hist\<rparr>"
  let ?buf2 = "if found_frame_boundary ?buf1 then recv_buf_reset ?buf1 else ?buf1"
  have b2: "lb_ok (data_buf ?buf2)" "\<not> found_frame_boundary ?buf2"
    using assms(2) reset_ok [of ?buf1] by (simp_all add: recv_buf_reset_def)
  show ?thesis
  proof (cases "n > 0")
    case True
    then have "read_frame ?crc slave ln buf = Some (ln, return_frame ?buf1 (nat n))" by (simp add: read_frame_def s Let_def)
    then show ?thesis using search_return [OF std assms(2) s True, of ln buf ln]
      by (simp add: loop_ok_def)
  next
    case False
    show ?thesis
    proof (cases "my_select (ln_selects ln)")
      case None
      from my_select_none [OF this] have "\<not> answered ln" by (auto simp: answered_def)
      then show ?thesis using None False by (simp add: read_frame_def s Let_def)
    next
      case (Some q)
      obtain res ss where q: "q = (res, ss)" by (cases q)
      let ?ln1 = "ln\<lparr>ln_selects := ss\<rparr>"
      note sel = my_select_some [OF Some [unfolded q]]
      have r: "read_frame ?crc slave ln buf = (if res < 0 then Some (?ln1, ?buf2, -1, None)
          else if res = 0 then Some (?ln1, ?buf2, -2, None) else read_loop ?crc slave False ?ln1 ?buf2)"
        unfolding read_frame_def s Let_def using False Some q by simp
      have "answered ln \<Longrightarrow> res = 1 \<Longrightarrow> answered ?ln1" using sel by (auto simp: answered_def)
      moreover have "loop_ok ?ln1 ?buf2 (read_loop ?crc slave False ?ln1 ?buf2)" by (rule read_loop_ok [OF std b2])
      moreover have "result_ok ?buf2 (-1) None" "result_ok ?buf2 (-2) None" using b2(1) by (simp_all add: result_ok_def)
      ultimately show ?thesis using sel unfolding r loop_ok_def by (auto split: option.splits if_splits)
    qed
  qed
qed

text \<open>C26. Reading a frame keeps the receive buffer within its memory, whatever comes over the line, and
  ends when the line falls silent or fails. It gives an error, or a frame whose checksum is right
  and which is still in the buffer, unless the bytes behind it were moved over it.\<close>

theorem rtu_read_frame_valid:
  assumes "lib_ok lib" "lb_ok (data_buf buf)"
  shows "(answered ln \<longrightarrow> read_frame (crc_calc_fun lib) slave ln buf \<noteq> None) \<and>
    (\<forall>ln' buf' n ptr. read_frame (crc_calc_fun lib) slave ln buf = Some (ln', buf', n, ptr) \<longrightarrow>
       lb_ok (data_buf buf') \<and>
       (case ptr of None \<Rightarrow> n = -1 \<or> n = -2
        | Some p \<Rightarrow> 1 \<le> n \<and> p + nat n + 2 \<le> data_size (data_buf buf') \<and>
            (frame_kept buf' p \<longrightarrow> crc_valid (frame_at buf' p (n + 2)))))"
  using read_frame_ok [OF assms, of ln slave] by (auto simp: result_ok_def split: option.splits)
end
