(* ===== verification/ModbusRtuTrip.thy ===== *)
theory ModbusRtuTrip
  imports ModbusRtuProps
begin

unbundle bit_operations_syntax

text \<open>
  What one side writes the other reads: a frame that comes over the line in pieces of any size is
  recognised when its last byte is there, and not before (\<open>rtu_write_read\<close>).
\<close>

section \<open>A frame that is not complete\<close>

definition table_length :: "u8 list \<Rightarrow> int \<Rightarrow> int" where
  "table_length d res =
    (if res = BYTE_COUNT_3 then (if length d \<ge> 3 then 3 + uint (d ! 2) + 2 else -1)
     else if res = BYTE_COUNT_34 then (if length d \<ge> 4 then 4 + mb_ntoh_at d 2 + 2 else -1)
     else if res = BYTE_COUNT_7 then (if length d \<ge> 7 then 7 + uint (d ! 6) + 2 else -1)
     else if res = BYTE_COUNT_11 then (if length d \<ge> 11 then 11 + uint (d ! 10) + 2 else -1)
     else if res = BYTE_COUNT_U then -1
     else res + 2)"

lemma frame_length_table:
  "frame_length d r = (let F = table_length d ((if r then response_frame_lengths else query_frame_lengths) ! unat (d ! 1))
    in if d ! 1 = 0x08 \<and> r then if length d < 4 then -1
      else if d ! 2 = 0 \<and> d ! 3 = 0x15 then if length d < 6 then -1
        else if d ! 4 = 0 \<and> d ! 5 = 0x03 then if length d < 8 then -1 else 6 + mb_ntoh_at d 6 + 2 else F
      else F else F)"
  unfolding frame_length_def Let_def L2_FRAME_FUNCTION_OFS_def RTU_FRAME_CRC_LENGTH_def table_length_def of_nat_numeral ..

lemma table_length_prefix:
  assumes "m \<le> length f"
  shows "table_length (take m f) res = -1 \<or> table_length (take m f) res = table_length f res"
  using assms by (simp add: table_length_def mb_ntoh_at_def)

lemma frame_length_prefix:
  assumes "m \<le> length f" "2 \<le> m"
  shows "frame_length (take m f) r = -1 \<or> frame_length (take m f) r = frame_length f r"
proof -
  let ?d = "take m f" and ?res = "(if r then response_frame_lengths else query_frame_lengths) ! unat (f ! 1)"
  have len: "length ?d = m" using assms(1) by simp
  have nth: "i < m \<Longrightarrow> ?d ! i = f ! i" for i by simp
  have n1: "?d ! 1 = f ! 1" using assms(2) by simp
  define F where "F = table_length ?d ?res"
  have F: "F = -1 \<or> F = table_length f ?res" unfolding F_def by (rule table_length_prefix [OF assms(1)])
  have e: "frame_length ?d r = (if f ! 1 = 0x08 \<and> r then if m < 4 then -1
      else if ?d ! 2 = 0 \<and> ?d ! 3 = 0x15 then if m < 6 then -1
        else if ?d ! 4 = 0 \<and> ?d ! 5 = 0x03 then if m < 8 then -1 else 6 + mb_ntoh_at ?d 6 + 2 else F
      else F else F)"
    unfolding frame_length_table Let_def n1 len F_def ..
  show ?thesis
  proof (cases "f ! 1 = 0x08 \<and> r \<and> \<not> m < 4")
    case False
    have "frame_length ?d r = -1 \<or> frame_length ?d r = F \<and> \<not> (f ! 1 = 0x08 \<and> r)" unfolding e using False by auto
    moreover have "\<not> (f ! 1 = 0x08 \<and> r) \<Longrightarrow> frame_length f r = table_length f ?res"
      unfolding frame_length_table Let_def by (simp only: if_False)
    ultimately show ?thesis using F by auto
  next
    case True
    then have g: "?d ! 2 = f ! 2" "?d ! 3 = f ! 3" "\<not> length f < 4" using assms(1) by auto
    show ?thesis
    proof (cases "f ! 2 = 0 \<and> f ! 3 = 0x15 \<and> \<not> m < 6")
      case False
      have "frame_length ?d r = -1 \<or> frame_length ?d r = F \<and> \<not> (f ! 2 = 0 \<and> f ! 3 = 0x15)"
        unfolding e g using True False by auto
      moreover have "\<not> (f ! 2 = 0 \<and> f ! 3 = 0x15) \<Longrightarrow> frame_length f r = table_length f ?res"
        unfolding frame_length_table Let_def using True g by auto
      ultimately show ?thesis using F by auto
    next
      case 6: True
      then have h: "?d ! 4 = f ! 4" "?d ! 5 = f ! 5" "\<not> length f < 6" using assms(1) by auto
      show ?thesis
      proof (cases "f ! 4 = 0 \<and> f ! 5 = 0x03")
        case False
        then have "frame_length ?d r = F" unfolding e g h using True 6 by auto
        moreover have "frame_length f r = table_length f ?res"
          unfolding frame_length_table Let_def using True 6 False g h by auto
        ultimately show ?thesis using F by auto
      next
        case 3: True
        show ?thesis
        proof (cases "m < 8")
          case True
          then have "frame_length ?d r = -1" unfolding e g h using \<open>f ! 1 = 0x08 \<and> r \<and> \<not> m < 4\<close> 6 3 by simp
          then show ?thesis ..
        next
          case False
          then have "mb_ntoh_at ?d 6 = mb_ntoh_at f 6" "\<not> length f < 8" using assms(1) by (simp_all add: mb_ntoh_at_def)
          moreover have "frame_length ?d r = 6 + mb_ntoh_at ?d 6 + 2"
            unfolding e g h using \<open>f ! 1 = 0x08 \<and> r \<and> \<not> m < 4\<close> 6 3 False by simp
          moreover have "\<not> length f < 8 \<Longrightarrow> frame_length f r = 6 + mb_ntoh_at f 6 + 2"
            unfolding frame_length_table Let_def using \<open>f ! 1 = 0x08 \<and> r \<and> \<not> m < 4\<close> 6 3 g h by simp
          ultimately show ?thesis by simp
        qed
      qed
    qed
  qed
qed

text \<open>A frame that can be told by its length: the one its function says, for a query or a
  response, and no shorter beginning of it has a right checksum by chance.\<close>

definition recognised :: "u8 list \<Rightarrow> bool" where
  "recognised f \<longleftrightarrow> known_function f \<and> 4 \<le> length f \<and> length f \<le> MAX_RTU_FRAME_LENGTH \<and> crc_valid f \<and>
     (int (length f) = frame_length f False \<or> int (length f) = frame_length f True) \<and>
     (\<forall>k. 4 \<le> k \<and> k < length f \<longrightarrow> \<not> crc_valid (take k f))"

text \<open>What the search may have noted before all bytes were there.\<close>

definition noted :: "u8 list \<Rightarrow> u32 \<Rightarrow> bool" where
  "noted f h \<longleftrightarrow> h \<in> {0, 1, 2, 3} \<and>
     (h AND 1 \<noteq> 0 \<longrightarrow> frame_length f False \<noteq> int (length f)) \<and> (h AND 2 \<noteq> 0 \<longrightarrow> frame_length f True \<noteq> int (length f))"

lemma noted_or:
  "noted f h \<Longrightarrow> frame_length f False \<noteq> int (length f) \<Longrightarrow> noted f (h OR 1)"
  "noted f h \<Longrightarrow> frame_length f True \<noteq> int (length f) \<Longrightarrow> noted f (h OR 2)"
  by (auto simp: noted_def)

lemma noted_not_all: "recognised f \<Longrightarrow> noted f h \<Longrightarrow> h \<noteq> SFF_HIST_NO_FRAME"
  by (auto simp: recognised_def noted_def SFF_HIST_NO_FRAME_def SFF_HIST_NO_RESPONSE_FRAME_def SFF_HIST_NO_QUERY_FRAME_def)

lemma shoot_noted:
  assumes "crc_std crc" "recognised f" "noted f h" "m < length f"
    and "n = -1 \<or> 4 \<le> n" "n \<noteq> -1 \<Longrightarrow> n = frame_length f r" "flag = (if r then 2 else 1)"
  shows "\<exists>h'. shoot_for crc (take m f) flag n h = Some (-1, h') \<and> noted f h'"
proof (cases "h AND flag = 0 \<and> 4 \<le> n \<and> n \<le> int m")
  case True
  then have k: "4 \<le> nat n" "nat n < length f" "nat n \<le> m" using assms(4) by auto
  then have "\<not> crc_valid (take (nat n) (take m f))" using assms(2) by (simp add: recognised_def min_def)
  then have "shoot_for crc (take m f) flag n h = Some (-1, h OR flag)"
    using shoot_result [OF assms(1,5), of "take m f" flag h] True assms(4) by simp
  moreover have "frame_length f r \<noteq> int (length f)" using assms(6) True k by auto
  ultimately show ?thesis using noted_or assms(3,7) by (cases r) auto
next
  case False
  then show ?thesis using shoot_result [OF assms(1,5), of "take m f" flag h] assms(3,4) by auto
qed

lemma search_part:
  assumes "crc_std crc" "recognised f" "noted f h" "m < length f"
  shows "\<exists>h'. search_for_frame crc (take m f) h = Some (-1, h') \<and> noted f h'"
proof (cases "m < 3")
  case True
  then show ?thesis using assms(3,4) by (simp add: search_for_frame_def MIN_FRAME_LENGTH_def)
next
  case False
  let ?d = "take m f"
  have len: "length ?d = m" "?d ! 1 = f ! 1" using assms(4) False by simp_all
  have sb: "searchable ?d h"
    using assms False noted_not_all [OF assms(2,3)] len by (simp add: searchable_def recognised_def known_function_def)
  note g = guess_range [OF sb]
  have pre: "frame_length ?d r = -1 \<or> frame_length ?d r = frame_length f r" for r
    by (rule frame_length_prefix) (use assms(4) False in simp_all)
  have q: "query_guess ?d h \<noteq> -1 \<Longrightarrow> query_guess ?d h = frame_length f False"
    "resp_guess ?d h \<noteq> -1 \<Longrightarrow> resp_guess ?d h = frame_length f True"
    using pre [of False] pre [of True] by (auto simp: query_guess_def resp_guess_def split: if_splits)
  have both: "\<exists>h'. shoot_both crc ?d (query_guess ?d h) (resp_guess ?d h) h1 = Some (-1, h') \<and> noted f h'" if n1: "noted f h1" for h1
  proof -
    obtain h2 where h2: "shoot_for crc ?d SFF_HIST_NO_QUERY_FRAME (query_guess ?d h) h1 = Some (-1, h2)" "noted f h2"
      using shoot_noted [OF assms(1,2) n1 assms(4) g(1) q(1), of SFF_HIST_NO_QUERY_FRAME]
      by (auto simp: SFF_HIST_NO_QUERY_FRAME_def)
    obtain h3 where h3: "shoot_for crc ?d SFF_HIST_NO_RESPONSE_FRAME (resp_guess ?d h) h2 = Some (-1, h3)" "noted f h3"
      using shoot_noted [OF assms(1,2) h2(2) assms(4) g(2) q(2), of SFF_HIST_NO_RESPONSE_FRAME]
      by (auto simp: SFF_HIST_NO_RESPONSE_FRAME_def)
    show ?thesis using h2 h3 by (simp add: shoot_both_def)
  qed
  show ?thesis
  proof (cases "int m = query_guess ?d h \<or> int m = resp_guess ?d h")
    case True
    then have "4 \<le> m" using g by auto
    then have "\<not> crc_valid ?d" using assms(2,4) by (simp add: recognised_def)
    moreover define h1 where "h1 = (if int m = query_guess ?d h then h OR SFF_HIST_NO_QUERY_FRAME else h)"
    moreover define h2 where "h2 = (if int m = resp_guess ?d h then h1 OR SFF_HIST_NO_RESPONSE_FRAME else h1)"
    ultimately have "search_for_frame crc ?d h = shoot_both crc ?d (query_guess ?d h) (resp_guess ?d h) h2"
      using search_known [OF sb assms(1)] True len(1) by (simp add: Let_def)
    moreover have "noted f h1" using noted_or(1) [OF assms(3)] q(1) assms(3,4)
      by (auto simp: h1_def SFF_HIST_NO_QUERY_FRAME_def)
    then have "noted f h2" using noted_or(2) [of f h1] q(2) assms(4)
      by (auto simp: h2_def SFF_HIST_NO_RESPONSE_FRAME_def)
    ultimately show ?thesis using both by simp
  next
    case False
    then have "search_for_frame crc ?d h = shoot_both crc ?d (query_guess ?d h) (resp_guess ?d h) h"
      using search_known [OF sb assms(1)] len(1) by simp
    then show ?thesis using both [OF assms(3)] by simp
  qed
qed

lemma search_whole:
  assumes "crc_std crc" "recognised f" "noted f h"
  shows "search_for_frame crc f h = Some (int (length f), h)"
proof -
  have sb: "searchable f h"
    using assms noted_not_all [OF assms(2,3)] by (simp add: searchable_def recognised_def)
  have "int (length f) = query_guess f h \<or> int (length f) = resp_guess f h"
    using assms(2,3) by (auto simp: recognised_def noted_def query_guess_def resp_guess_def
      SFF_HIST_NO_QUERY_FRAME_def SFF_HIST_NO_RESPONSE_FRAME_def)
  then show ?thesis using search_known [OF sb assms(1)] assms(2) by (simp add: recognised_def)
qed

section \<open>A frame in pieces\<close>

text \<open>The beginning of the frame is in the buffer, from its bottom.\<close>

definition holds :: "u8 list \<Rightarrow> nat \<Rightarrow> recv_buf_t \<Rightarrow> bool" where
  "holds f m buf \<longleftrightarrow> data_start (data_buf buf) = 0 \<and> data_end (data_buf buf) = m \<and> m < data_size (data_buf buf) \<and>
     take m (lb_array (data_buf buf)) = take m f \<and> length (lb_array (data_buf buf)) = data_size (data_buf buf) \<and>
     MAX_RTU_FRAME_LENGTH < data_size (data_buf buf) \<and> \<not> found_frame_boundary buf \<and> noted f (frame_search_history buf)"

lemma holds_data: "holds f m buf \<Longrightarrow> lb_data (data_buf buf) = take m f \<and> lb_data_count (data_buf buf) = m"
  by (simp add: holds_def lb_data_def lb_data_count_def)

lemma holds_read:
  assumes h: "holds f m buf" and c: "c = take (length c) (drop m f)" "m + length c \<le> length f" "length f \<le> MAX_RTU_FRAME_LENGTH"
    and r: "ln_reads ln = Rd_bytes c # rs"
  shows "\<exists>buf1. read_some ln buf = Some (ln\<lparr>ln_reads := rs\<rparr>, buf1, False) \<and> holds f (m + length c) buf1"
proof -
  let ?b = "data_buf buf" and ?n = "m + length c"
  have sz: "?n < data_size ?b" using h c by (simp add: holds_def)
  then have fit: "take (lb_free_count ?b) c = c" "drop (lb_free_count ?b) c = []"
    using h by (simp_all add: holds_def lb_free_count_def)
  let ?b1 = "lb_data_add (lb_store ?b c) (length c)"
  have len: "length (lb_array ?b) = data_size ?b" "data_end ?b = m" "data_start ?b = 0" using h by (simp_all add: holds_def)
  have arr: "lb_array ?b1 = take m (lb_array ?b) @ c @ drop ?n (lb_array ?b)"
    "data_start ?b1 = 0" "data_end ?b1 = ?n" "data_size ?b1 = data_size ?b"
    using sz len by (simp_all add: lb_data_add_def lb_store_def Let_def)
  have "take m (lb_array ?b) = take m f" using h by (simp add: holds_def)
  then have "take ?n (lb_array ?b1) = take m f @ c" using arr(1) c(2) by simp
  also have "\<dots> = take ?n f" using c(1) by (metis take_add)
  finally have "holds f ?n (buf\<lparr>data_buf := ?b1\<rparr>)"
    using h arr sz len c(2) by (simp add: holds_def)
  moreover have "read_some ln buf = Some (ln\<lparr>ln_reads := rs\<rparr>, buf\<lparr>data_buf := ?b1\<rparr>, False)"
    using h r fit by (simp add: read_some_def holds_def Let_def)
  ultimately show ?thesis by blast
qed

lemma holds_return:
  assumes "holds f (length f) buf" "2 \<le> length f" "return_frame buf (length f) = (buf', n, ptr)"
  shows "n = int (length f) - 2 \<and> ptr = Some 0 \<and> frame_at buf' 0 n = take (length f - 2) f"
proof -
  let ?c = "lb_data_purge (data_buf buf) (length f)"
  have r: "data_buf buf' = ?c" "n = int (length f) - 2" "ptr = Some 0"
    using assms by (auto simp: return_frame_def holds_def Let_def RTU_FRAME_CRC_LENGTH_def)
  have "lb_array ?c = lb_array (data_buf buf)"
    using assms(1) by (simp add: holds_def lb_data_purge_def lb_normalize_def Let_def)
  then have "frame_at buf' 0 n = take (length f - 2) (take (length f) (lb_array (data_buf buf)))"
    using assms(2) by (simp add: frame_at_def r nat_diff_distrib min_def)
  also have "\<dots> = take (length f - 2) f" using assms(1) by (simp add: holds_def)
  finally show ?thesis using r by simp
qed

lemma read_pieces:
  assumes "crc_std crc" "recognised f" "holds f m buf" "concat cs = drop m f" "\<forall>c\<in>set cs. c \<noteq> []" "m < length f"
  shows "\<exists>buf' n. read_loop crc slave False
      \<lparr>ln_selects = replicate (length cs - 1) Sel_ready @ ss, ln_reads = map Rd_bytes cs @ rs\<rparr> buf =
      Some (\<lparr>ln_selects = ss, ln_reads = rs\<rparr>, buf', n, Some 0) \<and> n = int (length f) - 2 \<and>
      frame_at buf' 0 n = take (length f - 2) f"
  using assms(3-6)
proof (induction cs arbitrary: m buf)
  case Nil
  then show ?case by simp
next
  case (Cons c cs)
  have len: "4 \<le> length f" "length f \<le> MAX_RTU_FRAME_LENGTH" using assms(2) by (simp_all add: recognised_def)
  have ne: "c \<noteq> []" using Cons.prems(3) by simp
  have cl: "length c + length (concat cs) = length f - m" using Cons.prems(2) by (metis concat.simps(2) length_append length_drop)
  have c: "c = take (length c) (drop m f)" using Cons.prems(2) by (metis append_eq_conv_conj concat.simps(2))
  have cm: "m + length c \<le> length f" using cl Cons.prems(4) by simp
  let ?ln = "\<lparr>ln_selects = replicate (length cs) Sel_ready @ ss, ln_reads = Rd_bytes c # map Rd_bytes cs @ rs\<rparr>"
  let ?ln1 = "\<lparr>ln_selects = replicate (length cs) Sel_ready @ ss, ln_reads = map Rd_bytes cs @ rs\<rparr>"
  obtain buf1 where rd: "read_some ?ln buf = Some (?ln1, buf1, False)" and h1: "holds f (m + length c) buf1"
    using holds_read [OF Cons.prems(1) c cm len(2), of ?ln "map Rd_bytes cs @ rs"] by auto
  have nt: "noted f (frame_search_history buf1)" using h1 by (simp add: holds_def)
  note d1 = holds_data [OF h1]
  show ?case
  proof (cases "m + length c = length f")
    case True
    then have "length (concat cs) = 0" using cl by arith
    then have "concat cs = []" by (simp only: length_0_conv)
    then have "cs = []" using Cons.prems(3) by (cases cs) auto
    have s: "search_for_frame crc (lb_data (data_buf buf1)) (frame_search_history buf1) = Some (int (length f), frame_search_history buf1)"
      using search_whole [OF assms(1,2) nt] d1 True by simp
    obtain buf' n ptr where r: "return_frame buf1 (length f) = (buf', n, ptr)" by (cases "return_frame buf1 (length f)")
    have "read_loop crc slave False ?ln buf = Some (?ln1, return_frame buf1 (length f))"
    proof -
      have "f \<noteq> []" using len(1) by auto
      then show ?thesis by (subst read_loop.simps) (simp add: rd s Let_def)
    qed
    moreover have "n = int (length f) - 2" "ptr = Some 0" "frame_at buf' 0 n = take (length f - 2) f"
      using holds_return [OF h1 [unfolded True] _ r] len(1) by auto
    ultimately show ?thesis using r \<open>cs = []\<close> by (intro exI [of _ buf'] exI [of _ n]) simp
  next
    case False
    then have lt: "m + length c < length f" using cm by simp
    obtain h' where s: "search_for_frame crc (lb_data (data_buf buf1)) (frame_search_history buf1) = Some (-1, h')" "noted f h'"
      using search_part [OF assms(1,2) nt lt] d1 by auto
    let ?buf2 = "buf1\<lparr>frame_search_history := h'\<rparr>"
    have h2: "holds f (m + length c) ?buf2" using h1 s(2) by (simp add: holds_def)
    obtain k where k: "length cs = Suc k" using False cl Cons.prems(4) by (cases cs) auto
    let ?ln2 = "\<lparr>ln_selects = replicate (length cs - 1) Sel_ready @ ss, ln_reads = map Rd_bytes cs @ rs\<rparr>"
    have "read_loop crc slave False ?ln buf = read_loop crc slave False ?ln2 ?buf2"
    proof -
      have ms: "my_select (replicate (length cs) Sel_ready @ ss) = Some (1, replicate (length cs - 1) Sel_ready @ ss)"
        using k by simp
      have nb: "\<not> found_frame_boundary buf1" using h1 by (simp add: holds_def)
      have cnt: "\<not> MAX_RTU_FRAME_LENGTH \<le> lb_data_count (data_buf buf1)" using d1 lt len(2) by simp
      show ?thesis by (subst read_loop.simps) (simp add: rd s(1) Let_def nb cnt ms)
    qed
    moreover have "concat cs = drop (m + length c) f" using Cons.prems(2) c
      by (metis append_eq_conv_conj concat.simps(2) drop_drop add.commute)
    ultimately show ?thesis using Cons.IH [OF h2 _ _ lt] Cons.prems(3) by auto
  qed
qed

section \<open>From one side to the other\<close>

lemma write_sent:
  "write_tries n data ss ws buf sent = Some (ss', ws', buf', True, sent') \<Longrightarrow> sent' \<noteq> [] \<and> last sent' = data"
proof (induction n arbitrary: ss ws buf sent)
  case (Suc n)
  then show ?case
    by (auto simp: Let_def split: option.splits list.splits bool.splits write_res.splits if_splits)
qed simp

lemma crc_write_valid:
  assumes "crc_std crc" "crc_write crc data n = Some data'" "0 < n"
  shows "take n data' = take n data \<and> length (take (n + 2) data') = n + 2 \<and> crc_valid (take (n + 2) data')"
proof -
  let ?c = "crc_slow data n"
  have w: "n + 1 < length data" "data' = data[n := lsb_u16 ?c, n + 1 := msb_u16 ?c]"
    using assms by (auto simp: crc_write_def crc_std_def split: if_splits)
  have t: "take n data' = take n data" by (simp add: w(2))
  have "crc_read data' n = crc_join (msb_u16 ?c) (lsb_u16 ?c)"
    using w by (simp add: crc_read_def crc_join_def)
  also have "\<dots> = crc_slow data' n" using t by (simp add: crc_join_bytes crc_slow_def)
  finally have "crc_slow data' n = crc_read data' n" by simp
  moreover have "n + 2 \<le> length data'" using w by simp
  ultimately have "crc_valid (take (n + 2) data')" using crc_of_prefix [of "n + 2" data'] by simp
  then show ?thesis using t w by simp
qed

text \<open>A buffer as it is after a node was opened, and after each write.\<close>

definition empty_buf :: "recv_buf_t \<Rightarrow> bool" where
  "empty_buf buf \<longleftrightarrow> data_start (data_buf buf) = 0 \<and> data_end (data_buf buf) = 0 \<and>
     length (lb_array (data_buf buf)) = data_size (data_buf buf) \<and> MAX_RTU_FRAME_LENGTH < data_size (data_buf buf) \<and>
     \<not> found_frame_boundary buf \<and> frame_search_history buf = 0"

lemma empty_buf_connect:
  assumes "nd_entry_connect env nde a opt = (nde', fd)" "0 \<le> fd"
  shows "empty_buf (recv_buf nde') \<and> nd_fd nde' = fd \<and> 0 \<le> nd_fd nde'"
  using assms
  by (auto simp: nd_entry_connect_def empty_buf_def recv_buf_init_def lb_init_def Let_def
    RECV_BUFFER_SIZE_SMALL_def RECV_BUFFER_SIZE_LARGE_def MAX_L2_FRAME_LENGTH_def RTU_FRAME_CRC_LENGTH_def
    MAX_RTU_FRAME_LENGTH_def split: if_splits option.splits)

lemma empty_holds: "empty_buf buf \<Longrightarrow> holds f 0 buf"
  by (auto simp: empty_buf_def holds_def noted_def MAX_RTU_FRAME_LENGTH_def)

lemma read_frame_pieces:
  assumes "crc_std crc" "recognised f" "empty_buf buf" "concat cs = f" "\<forall>c\<in>set cs. c \<noteq> []"
  shows "\<exists>buf'. read_frame crc slave
      \<lparr>ln_selects = replicate (length cs) Sel_ready @ ss, ln_reads = map Rd_bytes cs @ rs\<rparr> buf =
      Some (\<lparr>ln_selects = ss, ln_reads = rs\<rparr>, buf', int (length f) - 2, Some 0) \<and>
    frame_at buf' 0 (int (length f) - 2) = take (length f - 2) f"
proof -
  have ne: "f \<noteq> []" using assms(2) by (auto simp: recognised_def)
  obtain k where k: "length cs = Suc k" using assms(4) ne by (cases cs) auto
  let ?ln = "\<lparr>ln_selects = replicate (length cs) Sel_ready @ ss, ln_reads = map Rd_bytes cs @ rs\<rparr>"
  obtain buf' m where rl: "read_loop crc slave False
      \<lparr>ln_selects = replicate (length cs - 1) Sel_ready @ ss, ln_reads = map Rd_bytes cs @ rs\<rparr> buf =
      Some (\<lparr>ln_selects = ss, ln_reads = rs\<rparr>, buf', m, Some 0)" "m = int (length f) - 2"
      "frame_at buf' 0 m = take (length f - 2) f"
    using read_pieces [OF assms(1,2) empty_holds [OF assms(3)], of cs slave ss rs] assms(4,5) ne by auto
  have s: "search_for_frame crc (lb_data (data_buf buf)) (frame_search_history buf) = Some (-1, 0)"
    using assms(3) by (simp add: search_for_frame_def empty_buf_def lb_data_def lb_data_count_def MIN_FRAME_LENGTH_def)
  have h: "frame_search_history buf = 0" "\<not> found_frame_boundary buf" using assms(3) by (simp_all add: empty_buf_def)
  then have same: "buf\<lparr>frame_search_history := 0\<rparr> = buf" by (cases buf) simp
  have "read_frame crc slave ?ln buf = Some (\<lparr>ln_selects = ss, ln_reads = rs\<rparr>, buf', m, Some 0)"
    using rl(1) unfolding read_frame_def s by (simp add: Let_def same h k)
  then show ?thesis using rl(2,3) by auto
qed

text \<open>C25. What one node writes another reads, whichever version of the checksum either side uses, when the reader starts with an
  empty buffer and can tell the frame: its function is one of the table (so it is not an exception), its length is the one the
  table gives for a query or a response of this function, and no shorter beginning of it has a right checksum by chance
  (\<open>recognised\<close>). Then the frame with its checksum, coming in pieces of any size, is read as the data that were written.\<close>

theorem rtu_write_read:
  assumes "lib_ok lib" "modbus_rtu_write lib ln ws nd data n = Some (lib', ln', ws', sent, int n)" "0 < n"
    and "lib_ok rlib" "nd_table_get_nd rlib rnd = Some (Some e)" "0 \<le> nd_fd e" "empty_buf (recv_buf e)"
    and "recognised (last sent)" "concat cs = last sent" "\<forall>c\<in>set cs. c \<noteq> []"
  shows "\<exists>rlib' e'. modbus_rtu_read rlib \<lparr>ln_selects = replicate (length cs) Sel_ready, ln_reads = map Rd_bytes cs\<rparr>
      False rnd [] = Some (rlib', \<lparr>ln_selects = [], ln_reads = []\<rparr>, int n, Some 0) \<and>
    nd_table_get_nd rlib' rnd = Some (Some e') \<and> frame_at (recv_buf e') 0 (int n) = take n data"
proof -
  let ?f = "last sent" and ?crc = "crc_calc_fun rlib"
  let ?ln = "\<lparr>ln_selects = replicate (length cs) Sel_ready, ln_reads = map Rd_bytes cs\<rparr>"
  obtain rb data1 ss buf where w: "crc_write (crc_calc_fun lib) data n = Some data1"
      "write_tries (RTU_FRAME_SEND_RETRY + 1) (take (n + 2) data1) (ln_selects ln) ws rb [] =
        Some (ss, ws', buf, True, sent)"
    using assms(2,3)
    by (auto simp: modbus_rtu_write_def RTU_FRAME_CRC_LENGTH_def simp del: write_tries.simps split: option.splits if_splits)
  have f: "?f = take (n + 2) data1" using write_sent [OF w(2)] by simp
  note v = crc_write_valid [OF crc_std_lib [OF assms(1)] w(1) assms(3)]
  have lf: "length ?f = n + 2" using f v by simp
  have tf: "take (length ?f - 2) ?f = take n data" using f v by (simp add: min_def)
  obtain buf' where rf: "read_frame ?crc None ?ln (recv_buf e) = Some (\<lparr>ln_selects = [], ln_reads = []\<rparr>, buf', int (length ?f) - 2, Some 0)"
      "frame_at buf' 0 (int (length ?f) - 2) = take (length ?f - 2) ?f"
    using read_frame_pieces [OF crc_std_lib [OF assms(4)] assms(8,7,9,10), of None "[]" "[]"] by auto
  have m: "int (length ?f) - 2 = int n" using lf by simp
  have "frames_until ?crc [] (ignore_echo e) 0 ?ln (recv_buf e) = Some (\<lparr>ln_selects = [], ln_reads = []\<rparr>, buf', int n, Some 0)"
    by (subst frames_until.simps) (simp add: rf(1) m Let_def)
  then have "modbus_rtu_read rlib ?ln False rnd [] =
      Some (put_nd rlib rnd (e\<lparr>recv_buf := buf'\<rparr>), \<lparr>ln_selects = [], ln_reads = []\<rparr>, int n, Some 0)"
    using assms(5,6) by (simp add: modbus_rtu_read_def)
  moreover have "nd_table_get_nd (put_nd rlib rnd (e\<lparr>recv_buf := buf'\<rparr>)) rnd = Some (Some (e\<lparr>recv_buf := buf'\<rparr>))"
    using assms(5) by (auto simp: nd_table_get_nd_def put_nd_def split: option.splits if_splits)
  ultimately show ?thesis using rf(2) tf m by auto
qed

section \<open>Two nodes\<close>


text \<open>Evaluating checksums of bytes that are given.\<close>

lemma crc_step_num: "crc_step (numeral n) = (if odd (numeral n :: u16) then drop_bit 1 (numeral n) XOR 0xA001 else drop_bit 1 (numeral n))"
  by (simp add: crc_step_if bit_0)

lemma crc_step_01: "crc_step 0 = 0" "crc_step 1 = 0xA001"
  by (simp_all add: crc_step_if)

lemma crc_round_8: "crc_round x = crc_step (crc_step (crc_step (crc_step (crc_step (crc_step (crc_step (crc_step x)))))))"
  by (simp add: crc_round_def eval_nat_numeral)

lemmas crc_eval = crc_slow_def crc_byte_def crc_round_8 crc_step_num crc_step_01

text \<open>Two nodes at rest, one library optimised for size and one for speed, and a query.\<close>

definition rb_rest :: recv_buf_t where
  "rb_rest = \<lparr>data_buf = \<lparr>lb_array = replicate 274 0, data_size = 274, data_start = 0, data_end = 0, max_data_start = 14\<rparr>,
     found_frame_boundary = False, frame_search_history = 0\<rparr>"

definition nd_rest :: nd_entry_t where
  "nd_rest = \<lparr>nd_fd = 3, recv_buf = rb_rest, ignore_echo = False\<rparr>"

definition lib_small :: rtu_lib where
  "lib_small = \<lparr>nd_table = Some [nd_rest], optimization = optimize_size, crc_calc = Use_crc_slow, crc_fast_buf = []\<rparr>"

definition lib_fast :: rtu_lib where
  "lib_fast = \<lparr>nd_table = Some [nd_rest], optimization = optimize_speed, crc_calc = Use_crc_fast, crc_fast_buf = crc_fast_init\<rparr>"

lemma rest_ok: "lib_ok lib_small" "lib_ok lib_fast" "empty_buf rb_rest" "lb_ok (data_buf rb_rest)"
  by (simp_all add: lib_ok_def lib_small_def lib_fast_def empty_buf_def rb_rest_def lb_ok_def MAX_RTU_FRAME_LENGTH_def
    MAX_L2_FRAME_LENGTH_def RTU_FRAME_CRC_LENGTH_def)

lemma query_crc: "crc_slow [1, 3, 0, 0, 0, 1, 0, 0] 6 = 0x0A84" by (simp add: crc_eval)

lemma query_recognised: "recognised [1, 3, 0, 0, 0, 1, 0x84, 0x0A]"
proof -
  have "\<not> crc_valid (take k [1, 3, 0, 0, 0, 1, 0x84, 0x0A])" if "4 \<le> k" "k < 8" for k
  proof -
    have "k \<in> set [4, 5, 6, 7]" using that by auto
    moreover have "\<forall>k\<in>set [4, 5, 6, 7]. \<not> crc_valid (take k [1, 3, 0, 0, 0, 1, 0x84, 0x0A])"
      by (simp add: crc_valid_def crc_read_def crc_eval)
    ultimately show ?thesis by blast
  qed
  moreover have "crc_valid [1, 3, 0, 0, 0, 1, 0x84, 0x0A]" "frame_length [1, 3, 0, 0, 0, 1, 0x84, 0x0A] False = 8"
    "known_function [1, 3, 0, 0, 0, 1, 0x84, 0x0A]"
    by (simp_all add: crc_valid_def crc_read_def crc_eval known_function_def MAX_FUNCTION_CODE_def frame_length_def
      L2_FRAME_FUNCTION_OFS_def query_frame_lengths_def byte_counts RTU_FRAME_CRC_LENGTH_def)
  ultimately show ?thesis by (simp add: recognised_def MAX_RTU_FRAME_LENGTH_def MAX_L2_FRAME_LENGTH_def RTU_FRAME_CRC_LENGTH_def)
qed

lemma query_written:
  "\<exists>lib' ln'. modbus_rtu_write lib_small \<lparr>ln_selects = [Sel_ready, Sel_timeout], ln_reads = []\<rparr> [Wr_count 8] 0
     [1, 3, 0, 0, 0, 1, 0, 0] 6 = Some (lib', ln', [], [[1, 3, 0, 0, 0, 1, 0x84, 0x0A]], int 6)"
  by (simp add: modbus_rtu_write_def nd_table_get_nd_def lib_small_def nd_rest_def crc_write_def crc_calc_fun_def
    query_crc lsb_u16_def msb_u16_def RTU_FRAME_CRC_LENGTH_def RTU_FRAME_SEND_RETRY_def)

lemma rtu_write_read_witness:
  "\<exists>rlib' e'. modbus_rtu_read lib_fast
      \<lparr>ln_selects = replicate 3 Sel_ready, ln_reads = map Rd_bytes [[1, 3, 0], [0, 0, 1, 0x84], [0x0A]]\<rparr>
      False 0 [] = Some (rlib', \<lparr>ln_selects = [], ln_reads = []\<rparr>, int 6, Some 0) \<and>
    nd_table_get_nd rlib' 0 = Some (Some e') \<and> frame_at (recv_buf e') 0 (int 6) = [1, 3, 0, 0, 0, 1]"
proof -
  obtain lib' ln' where w: "modbus_rtu_write lib_small \<lparr>ln_selects = [Sel_ready, Sel_timeout], ln_reads = []\<rparr> [Wr_count 8] 0
     [1, 3, 0, 0, 0, 1, 0, 0] 6 = Some (lib', ln', [], [[1, 3, 0, 0, 0, 1, 0x84, 0x0A]], int 6)"
    using query_written by blast
  have e: "nd_table_get_nd lib_fast 0 = Some (Some nd_rest)" "0 \<le> nd_fd nd_rest" "empty_buf (recv_buf nd_rest)"
    using rest_ok(3) by (simp_all add: nd_table_get_nd_def lib_fast_def nd_rest_def)
  have r: "recognised (last [[1, 3, 0, 0, 0, 1, 0x84, 0x0A]])"
    "concat [[1, 3, 0], [0, 0, 1, 0x84], [0x0A]] = last [[1, 3, 0, 0, 0, 1, 0x84, 0x0A]]"
    "\<forall>c\<in>set [[1, 3, 0], [0, 0, 1, 0x84], [0x0A :: u8]]. c \<noteq> []"
    using query_recognised by simp_all
  have n: "length [[1, 3, 0], [0, 0, 1, 0x84], [0x0A :: u8]] = 3" "take 6 [1, 3, 0, 0, 0, 1, 0, 0 :: u8] = [1, 3, 0, 0, 0, 1]"
    by simp_all
  show ?thesis using rtu_write_read [OF rest_ok(1) w _ rest_ok(2) e r, unfolded n] by simp
qed

lemma rtu_read_frame_valid_witness:
  "\<exists>ln' buf' n ptr. read_frame (crc_calc_fun lib_fast) (Some 1)
      \<lparr>ln_selects = [Sel_ready, Sel_timeout], ln_reads = [Rd_bytes [1, 3], Rd_intr]\<rparr> rb_rest = Some (ln', buf', n, ptr) \<and>
    lb_ok (data_buf buf')"
proof -
  have "answered \<lparr>ln_selects = [Sel_ready, Sel_timeout], ln_reads = [Rd_bytes [1, 3], Rd_intr]\<rparr>"
    by (simp add: answered_def)
  then have "read_frame (crc_calc_fun lib_fast) (Some 1)
      \<lparr>ln_selects = [Sel_ready, Sel_timeout], ln_reads = [Rd_bytes [1, 3], Rd_intr]\<rparr> rb_rest \<noteq> None" (is "?r \<noteq> None")
    using rtu_read_frame_valid [OF rest_ok(2,4)] by blast
  then obtain ln' buf' n ptr where "?r = Some (ln', buf', n, ptr)" by (cases ?r) auto
  then show ?thesis using rtu_read_frame_valid [OF rest_ok(2,4)] by blast
qed

text \<open>With the small buffer a frame of 14 bytes or more is overwritten by what follows it: the
  first byte, the slave's address 1, becomes 9.\<close>

lemma rtu_frame_overwritten:
  "map_option (\<lambda>(ln, buf, n, ptr). (n, ptr, take 3 (frame_at buf 0 n)))
     (read_frame (crc_calc_fun lib_small) None \<lparr>ln_selects = [], ln_reads = []\<rparr>
       \<lparr>data_buf = \<lparr>lb_array = [1, 3, 10, 0, 0, 0, 0, 0, 0, 0, 0, 0, 0, 0x24, 0xB6, 9] @ replicate 258 0, data_size = 274,
          data_start = 0, data_end = 16, max_data_start = 14\<rparr>, found_frame_boundary = False, frame_search_history = 0\<rparr>) =
   Some (13, Some 0, [9, 3, 10])"
proof -
  let ?d = "[1, 3, 10, 0, 0, 0, 0, 0, 0, 0, 0, 0, 0, 0x24, 0xB6, 9]"
  have d: "lb_data \<lparr>lb_array = ?d @ replicate 258 0, data_size = 274, data_start = 0, data_end = 16, max_data_start = 14\<rparr> = ?d"
    by (simp add: lb_data_def lb_data_count_def)
  have "search_for_frame (crc_calc_fun lib_small) ?d 0 = Some (15, 1)"
    by (simp add: search_for_frame_def frame_length_def L2_FRAME_FUNCTION_OFS_def query_frame_lengths_def
      response_frame_lengths_def byte_counts RTU_FRAME_CRC_LENGTH_def MIN_FRAME_LENGTH_def MAX_RTU_FRAME_LENGTH_def
      MAX_L2_FRAME_LENGTH_def SFF_HIST_NO_FRAME_def SFF_HIST_NO_RESPONSE_FRAME_def SFF_HIST_NO_QUERY_FRAME_def
      MAX_FUNCTION_CODE_def shoot_both_def shoot_for_def crc_matches_def crc_calc_fun_def lib_small_def crc_read_def crc_eval)
  then show ?thesis
    by (simp add: Let_def read_frame_def d [simplified] return_frame_def lb_data_purge_def lb_normalize_def frame_at_def RTU_FRAME_CRC_LENGTH_def)
qed

end
