(* ===== verification/ModbusMaster.thy ===== *)
theory ModbusMaster
  imports ModbusRtu "HOL-Library.Monad_Syntax"
begin

unbundle bit_operations_syntax

text \<open>
  The Modbus master, \<^verbatim>\<open>io/modbus/protocol/mb_master.c\<close>: building queries, the transaction with
  its retries, and the functions that read and write bits and registers of a slave.

  The layer below, \<^verbatim>\<open>mb_layer1.h\<close>, is one of three modules chosen when the program is
  compiled; here it is a record of its functions over a state of its own. A pointer into
  its memory is the list of the bytes from there on. Arrays of the caller are lists, and
  an access outside of one has the result \<open>None\<close>, as has a null pointer and a
  call below that does not return.
\<close>

section \<open>Arrays\<close>

definition get_at :: "'a list \<Rightarrow> nat \<Rightarrow> 'a option" where
  "get_at xs i = (if i < length xs then Some (xs ! i) else None)"

definition put_at :: "'a list \<Rightarrow> nat \<Rightarrow> 'a \<Rightarrow> 'a list option" where
  "put_at xs i v = (if i < length xs then Some (xs[i := v]) else None)"

text \<open>Two bytes in network order, \<^verbatim>\<open>u16_v\<close> with \<^verbatim>\<open>mb_hton\<close> and \<^verbatim>\<open>mb_ntoh\<close>.\<close>

definition put_u16 :: "u8 list \<Rightarrow> nat \<Rightarrow> u16 \<Rightarrow> u8 list option" where
  "put_u16 p i v = do { p1 \<leftarrow> put_at p i (ucast (drop_bit 8 v)); put_at p1 (i + 1) (ucast v) }"

definition get_u16 :: "u8 list \<Rightarrow> nat \<Rightarrow> u16 option" where
  "get_u16 d i = do { hi \<leftarrow> get_at d i; lo \<leftarrow> get_at d (i + 1); Some (push_bit 8 (ucast hi) OR ucast lo) }"

section \<open>The layer below\<close>

text \<open>\<open>l1_write\<close> gives back the memory of the frame: the checksum is written behind it.
  \<open>l1_read\<close> gets the descriptor, the transaction id and the frame that was sent.\<close>

record ('s, 'a) layer1 =
  l1_write :: "'s \<Rightarrow> int \<Rightarrow> u8 list \<Rightarrow> nat \<Rightarrow> u16 \<Rightarrow> (int \<times> u8 list \<times> 's) option"
  l1_read :: "'s \<Rightarrow> int \<Rightarrow> u16 \<Rightarrow> u8 list \<Rightarrow> (int \<times> int \<times> u8 list \<times> u16 \<times> 's) option"
  l1_init :: "'s \<Rightarrow> int \<Rightarrow> optimization_t \<Rightarrow> (int \<times> nat \<times> 's) option"
  l1_done :: "'s \<Rightarrow> (int \<times> 's) option"
  l1_connect :: "'s \<Rightarrow> 'a \<Rightarrow> (int \<times> 's) option"
  l1_listen :: "'s \<Rightarrow> 'a \<Rightarrow> (int \<times> 's) option"
  l1_close :: "'s \<Rightarrow> int \<Rightarrow> (int \<times> 's) option"
  l1_silence_init :: "'s \<Rightarrow> (int \<times> 's) option"

record 's mb_master =
  query_buffer :: "u8 list option"
  next_id :: u16
  lower :: 's

definition PORT_FAILURE :: int where "PORT_FAILURE = -1"
definition INTERNAL_ERROR :: int where "INTERNAL_ERROR = -1"
definition TIMEOUT :: int where "TIMEOUT = -2"
definition INVALID_FRAME :: int where "INVALID_FRAME = -3"
definition MODBUS_ERROR :: int where "MODBUS_ERROR = -4"

definition next_transaction_id :: "'s mb_master \<Rightarrow> u16 \<times> 's mb_master" where
  "next_transaction_id m = (next_id m, m\<lparr>next_id := next_id m + 1\<rparr>)"

section \<open>Queries\<close>

definition build_query_packet :: "u8 \<Rightarrow> u8 \<Rightarrow> u16 \<Rightarrow> u16 \<Rightarrow> u8 list \<Rightarrow> (nat \<times> u8 list) option" where
  "build_query_packet slave func start_addr count packet =
     do { p0 \<leftarrow> put_at packet 0 slave;
          p1 \<leftarrow> put_at p0 1 func;
          p2 \<leftarrow> put_u16 p1 2 (start_addr - 1);
          p3 \<leftarrow> put_u16 p2 4 count;
          Some (6, p3) }"

section \<open>Transactions\<close>

text \<open>The results: the value returned, the memory of the answer, the error code (if the caller wants
  one), and the master.\<close>

type_synonym 's transaction_result = "int \<times> u8 list \<times> u8 option \<times> 's mb_master"

text \<open>What a frame of three bytes or more is worth: the next try, or the end.\<close>

definition judge_response ::
  "u8 list \<Rightarrow> u8 list \<Rightarrow> u16 \<Rightarrow> u16 \<Rightarrow> int \<Rightarrow> u8 option \<Rightarrow> (int + int \<times> u8 option) option" where
  "judge_response packet data send_id recv_id response_length error_code =
     (if send_id \<noteq> recv_id then Some (Inl INVALID_FRAME)
      else do { d1 \<leftarrow> get_at data 1; p1 \<leftarrow> get_at packet 1;
                if d1 AND 0x7F \<noteq> p1 then Some (Inl INVALID_FRAME)
                else if d1 AND 0x80 \<noteq> 0
                then do { d2 \<leftarrow> get_at data 2; Some (Inr (MODBUS_ERROR, map_option (\<lambda>_. d2) error_code)) }
                else Some (Inr (response_length, error_code)) })"

fun transaction_tries ::
  "('s, 'a) layer1 \<Rightarrow> nat \<Rightarrow> nat \<Rightarrow> int \<Rightarrow> int \<Rightarrow> u8 option \<Rightarrow> 's mb_master \<Rightarrow> 's transaction_result option" where
  "transaction_tries l 0 query_length ttyfd error error_code m = Some (error, [], error_code, m)"
| "transaction_tries l (Suc n) query_length ttyfd error error_code m =
     (case query_buffer m of
        None \<Rightarrow> None
      | Some packet \<Rightarrow>
          (case next_transaction_id m of (send_id, m1) \<Rightarrow>
             (case l1_write l (lower m1) ttyfd packet query_length send_id of
                None \<Rightarrow> None
              | Some (res, packet1, s1) \<Rightarrow>
                  let m2 = m1\<lparr>query_buffer := Some packet1, lower := s1\<rparr> in
                  if res < 0 then transaction_tries l n query_length ttyfd PORT_FAILURE error_code m2
                  else
                    (case l1_read l s1 ttyfd send_id (take query_length packet1) of
                       None \<Rightarrow> None
                     | Some (response_length, ttyfd1, data, recv_id, s2) \<Rightarrow>
                         let m3 = m2\<lparr>lower := s2\<rparr> in
                         if response_length = -2 then Some (TIMEOUT, data, error_code, m3)
                         else if response_length < 0
                         then transaction_tries l n query_length ttyfd1 PORT_FAILURE error_code m3
                         else if response_length < 3 then Some (INTERNAL_ERROR, data, error_code, m3)
                         else
                           (case judge_response packet1 data send_id recv_id response_length error_code of
                              None \<Rightarrow> None
                            | Some (Inl error1) \<Rightarrow> transaction_tries l n query_length ttyfd1 error1 error_code m3
                            | Some (Inr (r, error_code1)) \<Rightarrow> Some (r, data, error_code1, m3))))))"

text \<open>The number of retries is incremented first; at its greatest value that overflows.\<close>

definition mb_transaction ::
  "('s, 'a) layer1 \<Rightarrow> nat \<Rightarrow> int \<Rightarrow> int \<Rightarrow> u8 option \<Rightarrow> 's mb_master \<Rightarrow> 's transaction_result option" where
  "mb_transaction l query_length ttyfd send_retries error_code m =
     (if send_retries = int MB_INT_MAX then None
      else transaction_tries l (nat (send_retries + 1)) query_length ttyfd INTERNAL_ERROR error_code m)"

text \<open>The beginning that the functions share.\<close>

definition query_transaction ::
  "('s, 'a) layer1 \<Rightarrow> u8 \<Rightarrow> u8 \<Rightarrow> u16 \<Rightarrow> u16 \<Rightarrow> int \<Rightarrow> int \<Rightarrow> u8 option \<Rightarrow> 's mb_master \<Rightarrow> 's transaction_result option" where
  "query_transaction l func slave start_addr count ttyfd send_retries error_code m =
     do { packet \<leftarrow> query_buffer m;
          (query_length, packet1) \<leftarrow> build_query_packet slave func start_addr count packet;
          mb_transaction l query_length ttyfd send_retries error_code (m\<lparr>query_buffer := Some packet1\<rparr>) }"

section \<open>Reading bits\<close>

text \<open>The bits of one byte from the lowest; the third argument counts those that are left.\<close>

fun status_bits :: "u8 \<Rightarrow> nat \<Rightarrow> nat \<Rightarrow> nat \<Rightarrow> int list \<Rightarrow> (nat \<times> int list) option" where
  "status_bits temp count 0 dest_pos dest = Some (dest_pos, dest)"
| "status_bits temp count (Suc k) dest_pos dest =
     (if dest_pos < count
      then do { dest1 \<leftarrow> put_at dest dest_pos (of_bool (bit temp (7 - k)));
                status_bits temp count k (dest_pos + 1) dest1 }
      else Some (dest_pos, dest))"

fun status_bytes :: "u8 list \<Rightarrow> nat \<Rightarrow> nat list \<Rightarrow> nat \<Rightarrow> int list \<Rightarrow> int list option" where
  "status_bytes data count [] dest_pos dest = Some dest"
| "status_bytes data count (i # is) dest_pos dest =
     do { temp \<leftarrow> get_at data (3 + i);
          (dest_pos1, dest1) \<leftarrow> status_bits temp count 8 dest_pos dest;
          status_bytes data count is dest_pos1 dest1 }"

definition read_IO_status ::
  "('s, 'a) layer1 \<Rightarrow> u8 \<Rightarrow> u8 \<Rightarrow> u16 \<Rightarrow> u16 \<Rightarrow> int list \<Rightarrow> int \<Rightarrow> int \<Rightarrow> int \<Rightarrow> u8 option \<Rightarrow> 's mb_master \<Rightarrow>
     (int \<times> int list \<times> u8 option \<times> 's mb_master) option" where
  "read_IO_status l func slave start_addr count dest dest_size ttyfd send_retries error_code m =
     do { (response_length, data, err, m1) \<leftarrow>
            query_transaction l func slave start_addr count ttyfd send_retries error_code m;
          if response_length < 0 then Some (response_length, dest, err, m1)
          else if response_length \<noteq> 3 + (uint count + 7) div 8 then Some (INVALID_FRAME, dest, err, m1)
          else do {
            d2 \<leftarrow> get_at data 2;
            if uint d2 \<noteq> (uint count + 7) div 8 then Some (INVALID_FRAME, dest, err, m1)
            else do {
              dest1 \<leftarrow> status_bytes data (unat count) [0..<min (unat d2) (nat dest_size)] 0 dest;
              Some (response_length, dest1, err, m1) } } }"

text \<open>Groups of four bytes, the lowest first. The offsets into \<open>data\<close> are those behind the header.\<close>

function u32_groups :: "u8 list \<Rightarrow> nat \<Rightarrow> nat \<Rightarrow> nat \<Rightarrow> u32 list \<Rightarrow> (nat \<times> nat \<times> u32 list) option" where
  "u32_groups data byte_count i dest_pos dest =
     (if i + 3 < byte_count
      then do { a \<leftarrow> get_at data (3 + i); b \<leftarrow> get_at data (3 + i + 1);
                c \<leftarrow> get_at data (3 + i + 2); d \<leftarrow> get_at data (3 + i + 3);
                dest1 \<leftarrow> put_at dest dest_pos (ucast a + ucast b * 0x100 + ucast c * 0x10000 + ucast d * 0x1000000);
                u32_groups data byte_count (i + 4) (dest_pos + 1) dest1 }
      else Some (i, dest_pos, dest))"
  by pat_completeness auto
termination by (relation "measure (\<lambda>(data, n, i, p, dest). n - i)") auto

declare u32_groups.simps [simp del]

text \<open>The bytes that are left, the last one first; the third argument counts them.\<close>

fun u32_rest :: "u8 list \<Rightarrow> nat \<Rightarrow> nat \<Rightarrow> nat \<Rightarrow> u32 list \<Rightarrow> u32 list option" where
  "u32_rest data i 0 dest_pos dest = Some dest"
| "u32_rest data i (Suc k) dest_pos dest =
     do { w \<leftarrow> get_at dest dest_pos; x \<leftarrow> get_at data (3 + (i + k));
          dest1 \<leftarrow> put_at dest dest_pos (w * 0x100 + ucast x);
          u32_rest data i k dest_pos dest1 }"

definition read_IO_status_u32 ::
  "('s, 'a) layer1 \<Rightarrow> u8 \<Rightarrow> u8 \<Rightarrow> u16 \<Rightarrow> u16 \<Rightarrow> u32 list \<Rightarrow> int \<Rightarrow> int \<Rightarrow> u8 option \<Rightarrow> 's mb_master \<Rightarrow>
     (int \<times> u32 list \<times> u8 option \<times> 's mb_master) option" where
  "read_IO_status_u32 l func slave start_addr count dest ttyfd send_retries error_code m =
     do { (response_length, data, err, m1) \<leftarrow>
            query_transaction l func slave start_addr count ttyfd send_retries error_code m;
          if response_length < 0 then Some (response_length, dest, err, m1)
          else if response_length \<noteq> 3 + (uint count + 7) div 8 then Some (INVALID_FRAME, dest, err, m1)
          else do {
            d2 \<leftarrow> get_at data 2;
            if uint d2 \<noteq> (uint count + 7) div 8 then Some (INVALID_FRAME, dest, err, m1)
            else do {
              (i, dest_pos, dest1) \<leftarrow> u32_groups data (unat d2) 0 0 dest;
              dest2 \<leftarrow> (if i < unat d2 then put_at dest1 dest_pos 0 else Some dest1);
              dest3 \<leftarrow> u32_rest data i (unat d2 - i) dest_pos dest2;
              Some (response_length, dest3, err, m1) } } }"

definition read_output_bits where "read_output_bits l = read_IO_status l 0x01"
definition read_output_bits_u32 where "read_output_bits_u32 l = read_IO_status_u32 l 0x01"
definition read_input_bits where "read_input_bits l = read_IO_status l 0x02"
definition read_input_bits_u32 where "read_input_bits_u32 l = read_IO_status_u32 l 0x02"

section \<open>Reading registers\<close>

fun word_loop :: "u8 list \<Rightarrow> nat list \<Rightarrow> u16 list \<Rightarrow> u16 list option" where
  "word_loop data [] dest = Some dest"
| "word_loop data (i # is) dest =
     do { hi \<leftarrow> get_at data (3 + i * 2); lo \<leftarrow> get_at data (4 + i * 2);
          dest1 \<leftarrow> put_at dest i (push_bit 8 (ucast hi) OR ucast lo);
          word_loop data is dest1 }"

text \<open>The bound of the loop is twice the number of bytes, as in the code.\<close>

definition read_registers ::
  "('s, 'a) layer1 \<Rightarrow> u8 \<Rightarrow> u8 \<Rightarrow> u16 \<Rightarrow> u16 \<Rightarrow> u16 list \<Rightarrow> int \<Rightarrow> int \<Rightarrow> int \<Rightarrow> u8 option \<Rightarrow> 's mb_master \<Rightarrow>
     (int \<times> u16 list \<times> u8 option \<times> 's mb_master) option" where
  "read_registers l func slave start_addr count dest dest_size ttyfd send_retries error_code m =
     do { (response_length, data, err, m1) \<leftarrow>
            query_transaction l func slave start_addr count ttyfd send_retries error_code m;
          if response_length < 0 then Some (response_length, dest, err, m1)
          else if response_length \<noteq> 3 + 2 * uint count then Some (INVALID_FRAME, dest, err, m1)
          else do {
            d2 \<leftarrow> get_at data 2;
            if uint d2 \<noteq> 2 * uint count then Some (INVALID_FRAME, dest, err, m1)
            else do {
              dest1 \<leftarrow> word_loop data [0..<min (unat d2 * 2) (nat dest_size)] dest;
              Some (response_length, dest1, err, m1) } } }"

function word_groups :: "u8 list \<Rightarrow> nat \<Rightarrow> nat \<Rightarrow> nat \<Rightarrow> u32 list \<Rightarrow> (nat \<times> nat \<times> u32 list) option" where
  "word_groups data byte_count i dest_pos dest =
     (if i + 3 < byte_count
      then do { lo \<leftarrow> get_u16 data (3 + i); hi \<leftarrow> get_u16 data (3 + i + 2);
                dest1 \<leftarrow> put_at dest dest_pos (ucast lo + 0x10000 * ucast hi);
                word_groups data byte_count (i + 4) (dest_pos + 1) dest1 }
      else Some (i, dest_pos, dest))"
  by pat_completeness auto
termination by (relation "measure (\<lambda>(data, n, i, p, dest). n - i)") auto

declare word_groups.simps [simp del]

definition read_registers_u32 ::
  "('s, 'a) layer1 \<Rightarrow> u8 \<Rightarrow> u8 \<Rightarrow> u16 \<Rightarrow> u16 \<Rightarrow> u32 list \<Rightarrow> int \<Rightarrow> int \<Rightarrow> u8 option \<Rightarrow> 's mb_master \<Rightarrow>
     (int \<times> u32 list \<times> u8 option \<times> 's mb_master) option" where
  "read_registers_u32 l func slave start_addr count dest ttyfd send_retries error_code m =
     do { (response_length, data, err, m1) \<leftarrow>
            query_transaction l func slave start_addr count ttyfd send_retries error_code m;
          if response_length < 0 then Some (response_length, dest, err, m1)
          else if response_length \<noteq> 3 + 2 * uint count then Some (INVALID_FRAME, dest, err, m1)
          else do {
            d2 \<leftarrow> get_at data 2;
            if uint d2 \<noteq> 2 * uint count then Some (INVALID_FRAME, dest, err, m1)
            else do {
              (i, dest_pos, dest1) \<leftarrow> word_groups data (unat d2) 0 0 dest;
              dest2 \<leftarrow> (if i + 1 < unat d2
                then do { lo \<leftarrow> get_u16 data (3 + i); put_at dest1 dest_pos (ucast lo) }
                else Some dest1);
              Some (response_length, dest2, err, m1) } } }"

definition MAX_READ_REGS :: u16 where "MAX_READ_REGS = 100"
definition MAX_INPUT_REGS :: u16 where "MAX_INPUT_REGS = 100"

definition read_output_words where
  "read_output_words l slave start_addr count =
     read_registers l 0x03 slave start_addr (if count > MAX_READ_REGS then MAX_READ_REGS else count)"

definition read_output_words_u32 where
  "read_output_words_u32 l slave start_addr count =
     read_registers_u32 l 0x03 slave start_addr (if count > MAX_READ_REGS then MAX_READ_REGS else count)"

definition read_input_words where
  "read_input_words l slave start_addr count =
     read_registers l 0x04 slave start_addr (if count > MAX_INPUT_REGS then MAX_INPUT_REGS else count)"

definition read_input_words_u32 where
  "read_input_words_u32 l slave start_addr count =
     read_registers_u32 l 0x04 slave start_addr (if count > MAX_INPUT_REGS then MAX_INPUT_REGS else count)"

section \<open>Writing\<close>

text \<open>The end that the writing functions share: the answer repeats address and count of the query.\<close>

definition echo_differs :: "u8 list \<Rightarrow> u8 list \<Rightarrow> bool option" where
  "echo_differs data packet =
     do { a \<leftarrow> get_at data 2; a' \<leftarrow> get_at packet 2; b \<leftarrow> get_at data 3; b' \<leftarrow> get_at packet 3;
          c \<leftarrow> get_at data 4; c' \<leftarrow> get_at packet 4; d \<leftarrow> get_at data 5; d' \<leftarrow> get_at packet 5;
          Some (a \<noteq> a' \<or> b \<noteq> b' \<or> c \<noteq> c' \<or> d \<noteq> d') }"

definition write_transaction ::
  "('s, 'a) layer1 \<Rightarrow> nat \<Rightarrow> int \<Rightarrow> int \<Rightarrow> u8 option \<Rightarrow> 's mb_master \<Rightarrow> (int \<times> u8 option \<times> 's mb_master) option" where
  "write_transaction l query_length ttyfd send_retries error_code m =
     do { (response_length, data, err, m1) \<leftarrow> mb_transaction l query_length ttyfd send_retries error_code m;
          if response_length < 0 then Some (response_length, err, m1)
          else if response_length \<noteq> 6 then Some (INVALID_FRAME, err, m1)
          else do {
            packet \<leftarrow> query_buffer m1;
            differs \<leftarrow> echo_differs data packet;
            Some (if differs then INVALID_FRAME else response_length, err, m1) } }"

definition set_single ::
  "('s, 'a) layer1 \<Rightarrow> u8 \<Rightarrow> u8 \<Rightarrow> u16 \<Rightarrow> u16 \<Rightarrow> int \<Rightarrow> int \<Rightarrow> u8 option \<Rightarrow> 's mb_master \<Rightarrow>
     (int \<times> u8 option \<times> 's mb_master) option" where
  "set_single l func slave addr value ttyfd send_retries error_code m =
     do { packet \<leftarrow> query_buffer m;
          (query_length, packet1) \<leftarrow> build_query_packet slave func addr value packet;
          write_transaction l query_length ttyfd send_retries error_code (m\<lparr>query_buffer := Some packet1\<rparr>) }"

definition write_output_bit where
  "write_output_bit l slave coil_addr state =
     set_single l 0x05 slave coil_addr (if state \<noteq> 0 then 0xFF00 else state)"

definition write_output_word where "write_output_word l = set_single l 0x06"

definition MAX_WRITE_COILS :: u16 where "MAX_WRITE_COILS = 800"
definition MAX_WRITE_REGS :: u16 where "MAX_WRITE_REGS = 100"

text \<open>One byte of bits, the first the lowest; the fourth argument counts the bits that are left.\<close>

fun pack_byte :: "int list \<Rightarrow> nat \<Rightarrow> nat \<Rightarrow> nat \<Rightarrow> u8 \<Rightarrow> (nat \<times> u8) option" where
  "pack_byte data coil_count pos 0 x = Some (pos, x)"
| "pack_byte data coil_count pos (Suc k) x =
     (if pos < coil_count
      then do { v \<leftarrow> get_at data pos;
                pack_byte data coil_count (pos + 1) k
                  (if v \<noteq> 0 then x OR push_bit (7 - k) 1 else x AND NOT (push_bit (7 - k) 1)) }
      else Some (pos, x))"

fun pack_bytes :: "int list \<Rightarrow> nat \<Rightarrow> nat \<Rightarrow> nat \<Rightarrow> nat \<Rightarrow> u8 list \<Rightarrow> (nat \<times> u8 list) option" where
  "pack_bytes data coil_count pos 0 query_length packet = Some (query_length, packet)"
| "pack_bytes data coil_count pos (Suc n) query_length packet =
     do { (pos1, x) \<leftarrow> pack_byte data coil_count pos 8 0;
          packet1 \<leftarrow> put_at packet (query_length + 1) x;
          pack_bytes data coil_count pos1 n (query_length + 1) packet1 }"

definition write_output_bits ::
  "('s, 'a) layer1 \<Rightarrow> u8 \<Rightarrow> u16 \<Rightarrow> u16 \<Rightarrow> int list \<Rightarrow> int \<Rightarrow> int \<Rightarrow> u8 option \<Rightarrow> 's mb_master \<Rightarrow>
     (int \<times> u8 option \<times> 's mb_master) option" where
  "write_output_bits l slave start_addr coil_count0 data ttyfd send_retries error_code m =
     (let coil_count = (if coil_count0 > MAX_WRITE_COILS then MAX_WRITE_COILS else coil_count0);
          byte_count = (unat coil_count + 7) div 8
      in do { packet \<leftarrow> query_buffer m;
              (query_length, packet1) \<leftarrow> build_query_packet slave 0x0F start_addr coil_count packet;
              packet2 \<leftarrow> put_at packet1 query_length (of_nat byte_count);
              (query_length1, packet3) \<leftarrow> pack_bytes data (unat coil_count) 0 byte_count query_length packet2;
              write_transaction l (query_length1 + 1) ttyfd send_retries error_code
                (m\<lparr>query_buffer := Some packet3\<rparr>) })"

text \<open>Taking bytes out of a word shifts the caller's array.\<close>

definition take_byte :: "u32 list \<Rightarrow> nat \<Rightarrow> bool \<Rightarrow> nat \<Rightarrow> u8 list \<Rightarrow> (u32 list \<times> nat \<times> u8 list) option" where
  "take_byte data org_pos shift query_length packet =
     do { w \<leftarrow> get_at data org_pos;
          packet1 \<leftarrow> put_at packet (query_length + 1) (ucast w);
          Some (if shift then data[org_pos := drop_bit 8 w] else data, query_length + 1, packet1) }"

function byte_groups ::
  "u32 list \<Rightarrow> nat \<Rightarrow> nat \<Rightarrow> nat \<Rightarrow> nat \<Rightarrow> u8 list \<Rightarrow> (u32 list \<times> nat \<times> nat \<times> nat \<times> u8 list) option" where
  "byte_groups data byte_count i org_pos query_length packet =
     (if i + 3 < byte_count
      then do { (data1, q1, p1) \<leftarrow> take_byte data org_pos True query_length packet;
                (data2, q2, p2) \<leftarrow> take_byte data1 org_pos True q1 p1;
                (data3, q3, p3) \<leftarrow> take_byte data2 org_pos True q2 p2;
                (data4, q4, p4) \<leftarrow> take_byte data3 org_pos False q3 p3;
                byte_groups data4 byte_count (i + 4) (org_pos + 1) q4 p4 }
      else Some (data, i, org_pos, query_length, packet))"
  by pat_completeness auto
termination by (relation "measure (\<lambda>(data, n, i, r). n - i)") auto

declare byte_groups.simps [simp del]

fun byte_rest :: "u32 list \<Rightarrow> nat \<Rightarrow> nat \<Rightarrow> nat \<Rightarrow> u8 list \<Rightarrow> (u32 list \<times> nat \<times> u8 list) option" where
  "byte_rest data 0 org_pos query_length packet = Some (data, query_length, packet)"
| "byte_rest data (Suc k) org_pos query_length packet =
     do { (data1, q1, p1) \<leftarrow> take_byte data org_pos True query_length packet;
          byte_rest data1 k org_pos q1 p1 }"

definition write_output_bits_u32 ::
  "('s, 'a) layer1 \<Rightarrow> u8 \<Rightarrow> u16 \<Rightarrow> u16 \<Rightarrow> u32 list \<Rightarrow> int \<Rightarrow> int \<Rightarrow> u8 option \<Rightarrow> 's mb_master \<Rightarrow>
     (int \<times> u32 list \<times> u8 option \<times> 's mb_master) option" where
  "write_output_bits_u32 l slave start_addr coil_count0 data ttyfd send_retries error_code m =
     (let coil_count = (if coil_count0 > MAX_WRITE_COILS then MAX_WRITE_COILS else coil_count0);
          byte_count = (unat coil_count + 7) div 8
      in do { packet \<leftarrow> query_buffer m;
              (query_length, packet1) \<leftarrow> build_query_packet slave 0x0F start_addr coil_count packet;
              packet2 \<leftarrow> put_at packet1 query_length (of_nat byte_count);
              (data1, i, org_pos, q1, packet3) \<leftarrow> byte_groups data byte_count 0 0 query_length packet2;
              (data2, q2, packet4) \<leftarrow> byte_rest data1 (byte_count - i) org_pos q1 packet3;
              (r, err, m1) \<leftarrow> write_transaction l (q2 + 1) ttyfd send_retries error_code
                (m\<lparr>query_buffer := Some packet4\<rparr>);
              Some (r, data2, err, m1) })"

fun put_words :: "u16 list \<Rightarrow> nat list \<Rightarrow> nat \<Rightarrow> u8 list \<Rightarrow> (nat \<times> u8 list) option" where
  "put_words data [] query_length packet = Some (query_length, packet)"
| "put_words data (i # is) query_length packet =
     do { w \<leftarrow> get_at data i;
          p1 \<leftarrow> put_at packet (query_length + 1) (ucast (drop_bit 8 w));
          p2 \<leftarrow> put_at p1 (query_length + 2) (ucast w);
          put_words data is (query_length + 2) p2 }"

definition write_output_words ::
  "('s, 'a) layer1 \<Rightarrow> u8 \<Rightarrow> u16 \<Rightarrow> u16 \<Rightarrow> u16 list \<Rightarrow> int \<Rightarrow> int \<Rightarrow> u8 option \<Rightarrow> 's mb_master \<Rightarrow>
     (int \<times> u8 option \<times> 's mb_master) option" where
  "write_output_words l slave start_addr reg_count0 data ttyfd send_retries error_code m =
     (let reg_count = (if reg_count0 > MAX_WRITE_REGS then MAX_WRITE_REGS else reg_count0);
          byte_count = (ucast (reg_count * 2) :: u8)
      in do { packet \<leftarrow> query_buffer m;
              (query_length, packet1) \<leftarrow> build_query_packet slave 0x10 start_addr reg_count packet;
              packet2 \<leftarrow> put_at packet1 query_length byte_count;
              (query_length1, packet3) \<leftarrow> put_words data [0..<unat reg_count] query_length packet2;
              write_transaction l (query_length1 + 1) ttyfd send_retries error_code
                (m\<lparr>query_buffer := Some packet3\<rparr>) })"

text \<open>The index into the array of words is the offset in bytes, as in the code.\<close>

function put_word_groups :: "u32 list \<Rightarrow> nat \<Rightarrow> nat \<Rightarrow> nat \<Rightarrow> u8 list \<Rightarrow> (nat \<times> nat \<times> u8 list) option" where
  "put_word_groups data byte_count i query_length packet =
     (if i + 3 < byte_count
      then do { w \<leftarrow> get_at data i;
                p1 \<leftarrow> put_u16 packet (query_length + 1) (ucast w);
                p2 \<leftarrow> put_u16 p1 (query_length + 3) (ucast (drop_bit 16 w));
                put_word_groups data byte_count (i + 4) (query_length + 4) p2 }
      else Some (i, query_length, packet))"
  by pat_completeness auto
termination by (relation "measure (\<lambda>(data, n, i, r). n - i)") auto

declare put_word_groups.simps [simp del]

definition write_output_words_u32 ::
  "('s, 'a) layer1 \<Rightarrow> u8 \<Rightarrow> u16 \<Rightarrow> u16 \<Rightarrow> u32 list \<Rightarrow> int \<Rightarrow> int \<Rightarrow> u8 option \<Rightarrow> 's mb_master \<Rightarrow>
     (int \<times> u8 option \<times> 's mb_master) option" where
  "write_output_words_u32 l slave start_addr reg_count0 data ttyfd send_retries error_code m =
     (let reg_count = (if reg_count0 > MAX_WRITE_REGS then MAX_WRITE_REGS else reg_count0);
          byte_count = (ucast (reg_count * 2) :: u8)
      in do { packet \<leftarrow> query_buffer m;
              (query_length, packet1) \<leftarrow> build_query_packet slave 0x10 start_addr reg_count packet;
              packet2 \<leftarrow> put_at packet1 query_length byte_count;
              (i, q1, packet3) \<leftarrow> put_word_groups data (unat byte_count) 0 query_length packet2;
              (q2, packet4) \<leftarrow> (if i + 1 < unat byte_count
                then do { w \<leftarrow> get_at data i; p \<leftarrow> put_u16 packet3 (q1 + 1) (ucast w); Some (q1 + 2, p) }
                else Some (q1, packet3));
              write_transaction l (q2 + 1) ttyfd send_retries error_code
                (m\<lparr>query_buffer := Some packet4\<rparr>) })"

section \<open>Starting and stopping\<close>

definition QUERY_BUFFER_SIZE :: nat where "QUERY_BUFFER_SIZE = MAX_L2_FRAME_LENGTH"
definition DEF_OPTIMIZATION :: optimization_t where "DEF_OPTIMIZATION = optimize_speed"

text \<open>\<open>malloc\<close> gives memory of a size, or none.\<close>

definition mb_master_init ::
  "('s, 'a) layer1 \<Rightarrow> (nat \<Rightarrow> u8 list option) \<Rightarrow> int \<Rightarrow> 's mb_master \<Rightarrow> (int \<times> 's mb_master) option" where
  "mb_master_init l malloc nd_count m =
     do { (res, extra_bytes, s1) \<leftarrow> l1_init l (lower m) nd_count DEF_OPTIMIZATION;
          let m1 = m\<lparr>lower := s1\<rparr> in
          if res < 0 then Some (-1, m1)
          else (case malloc (QUERY_BUFFER_SIZE + extra_bytes) of
                  Some buf \<Rightarrow> Some (0, m1\<lparr>query_buffer := Some buf\<rparr>)
                | None \<Rightarrow> do { (r, s2) \<leftarrow> l1_done l s1; Some (-1, m1\<lparr>query_buffer := None, lower := s2\<rparr>) }) }"

definition mb_master_done :: "('s, 'a) layer1 \<Rightarrow> 's mb_master \<Rightarrow> (int \<times> 's mb_master) option" where
  "mb_master_done l m =
     do { (r, s1) \<leftarrow> l1_done l (lower m); Some (r, m\<lparr>query_buffer := None, lower := s1\<rparr>) }"

definition mb_master_connect :: "('s, 'a) layer1 \<Rightarrow> 'a \<Rightarrow> 's mb_master \<Rightarrow> (int \<times> 's mb_master) option" where
  "mb_master_connect l node_addr m = do { (r, s1) \<leftarrow> l1_connect l (lower m) node_addr; Some (r, m\<lparr>lower := s1\<rparr>) }"

definition mb_master_close :: "('s, 'a) layer1 \<Rightarrow> int \<Rightarrow> 's mb_master \<Rightarrow> (int \<times> 's mb_master) option" where
  "mb_master_close l nd m = do { (r, s1) \<leftarrow> l1_close l (lower m) nd; Some (r, m\<lparr>lower := s1\<rparr>) }"

definition mb_master_silence_init :: "('s, 'a) layer1 \<Rightarrow> 's mb_master \<Rightarrow> (int \<times> 's mb_master) option" where
  "mb_master_silence_init l m = do { (r, s1) \<leftarrow> l1_silence_init l (lower m); Some (r, m\<lparr>lower := s1\<rparr>) }"

end
