(* ===== verification/ModbusCodes.thy ===== *)
theory ModbusCodes
  imports ModbusMaster
begin

unbundle bit_operations_syntax

text \<open>
  What the frames of the Modbus master mean: bits packed into bytes, registers as two bytes, and
  the loops of the master as functions of whole lists.
\<close>

section \<open>Chunks\<close>

function chunks :: "nat \<Rightarrow> 'a list \<Rightarrow> 'a list list" where
  "chunks n xs = (if n = 0 \<or> xs = [] then [] else take n xs # chunks n (drop n xs))"
  by pat_completeness auto
termination by (relation "measure (\<lambda>(n, xs). length xs)") auto

declare chunks.simps [simp del]

lemma chunks_Nil [simp]: "chunks n [] = []" by (simp add: chunks.simps)

lemma chunks_step: "0 < n \<Longrightarrow> xs \<noteq> [] \<Longrightarrow> chunks n xs = take n xs # chunks n (drop n xs)"
  by (subst chunks.simps) simp

lemma chunks_append: "0 < n \<Longrightarrow> length xs = n \<Longrightarrow> chunks n (xs @ ys) = xs # chunks n ys"
  by (subst chunks_step) auto

lemma length_chunks: "0 < n \<Longrightarrow> length (chunks n xs) = (length xs + n - 1) div n"
proof (induction n xs rule: chunks.induct)
  case (1 n xs)
  show ?case
  proof (cases "xs = []")
    case False
    then obtain k where k: "length xs = Suc k" by (cases xs) auto
    have "length (chunks n xs) = Suc ((length xs - n + n - 1) div n)"
      using False 1 by (simp add: chunks_step)
    also have "\<dots> = Suc (k div n)"
    proof (cases "n \<le> length xs")
      case False then show ?thesis using k 1(2) by simp
    qed (simp add: k)
    also have "\<dots> = (k + n) div n" using 1(2) by (simp add: div_add_self2)
    finally show ?thesis using k by simp
  qed (use 1(2) in simp)
qed

lemma concat_chunks: "0 < n \<Longrightarrow> concat (chunks n xs) = xs"
  by (induction n xs rule: chunks.induct) (subst chunks.simps, auto)

lemma chunks_chunks:
  assumes "0 < a" "0 < b"
  shows "chunks a (chunks b xs) = map (chunks b) (chunks (a * b) xs)"
proof (induction "a * b" xs rule: chunks.induct)
  case (1 xs)
  show ?case
  proof (cases "xs = []")
    case False
    have t: "chunks b xs = chunks b (take (k * b) xs) @ chunks b (drop (k * b) xs) \<and>
        (length (chunks b (take (k * b) xs)) = k \<or> chunks b (drop (k * b) xs) = [] \<and> length (chunks b (take (k * b) xs)) \<le> k)" for k
    proof (induction k arbitrary: xs)
      case (Suc k)
      show ?case
      proof (cases "length xs \<le> b")
        case True
        then have "length (chunks b xs) \<le> 1" using assms(2) by (simp add: length_chunks less_Suc_eq_le [symmetric] div_less_iff_less_mult)
        then show ?thesis using True by simp
      next
        case False
        then have "xs \<noteq> []" "take (b + k * b) xs \<noteq> []" using assms(2) by auto
        then have "chunks b xs = take b xs # chunks b (drop b xs)"
          "chunks b (take (b + k * b) xs) = take b xs # chunks b (take (k * b) (drop b xs))"
          using assms(2) by (simp_all add: chunks_step drop_take)
        then show ?thesis using Suc.IH [of "drop b xs"] by (simp add: add.commute)
      qed
    qed simp
    have e: "chunks b xs \<noteq> []" using False assms(2) by (simp add: chunks_step)
    then have st: "chunks a (chunks b xs) = take a (chunks b xs) # chunks a (drop a (chunks b xs))"
      "chunks (a * b) xs = take (a * b) xs # chunks (a * b) (drop (a * b) xs)"
      using False assms by (simp_all add: chunks_step [of a] chunks_step [of "a * b"])
    have "take a (chunks b xs) = chunks b (take (a * b) xs) \<and> drop a (chunks b xs) = chunks b (drop (a * b) xs)"
      using t [of a] by auto
    then show ?thesis using 1 False assms unfolding st by simp
  qed simp
qed

section \<open>Bits and bytes\<close>

definition byte_of_bits :: "bool list \<Rightarrow> u8" where "byte_of_bits bs = horner_sum of_bool 2 bs"
definition coil_bytes :: "bool list \<Rightarrow> u8 list" where "coil_bytes bs = map byte_of_bits (chunks 8 bs)"
definition word_of_bits :: "bool list \<Rightarrow> u32" where "word_of_bits bs = horner_sum of_bool 2 bs"
definition word_of_bytes :: "u8 list \<Rightarrow> u32" where "word_of_bytes bs = horner_sum ucast 0x100 bs"
definition be16 :: "u16 \<Rightarrow> u8 list" where "be16 w = [ucast (drop_bit 8 w), ucast w]"
definition reg_bytes :: "u16 list \<Rightarrow> u8 list" where "reg_bytes ws = concat (map be16 ws)"
definition word_of_regs :: "u16 list \<Rightarrow> u32" where "word_of_regs ws = horner_sum ucast 0x10000 ws"

lemma bit_byte_of_bits: "bit (byte_of_bits bs) k \<longleftrightarrow> k < 8 \<and> k < length bs \<and> bs ! k"
  by (auto simp: byte_of_bits_def bit_horner_sum_bit_word_iff)

lemma length_coil_bytes: "length (coil_bytes bs) = (length bs + 7) div 8"
  by (simp add: coil_bytes_def length_chunks)

lemma length_reg_bytes [simp]: "length (reg_bytes ws) = 2 * length ws"
  by (induction ws) (simp_all add: reg_bytes_def be16_def)

lemma reg_bytes_nth: "i < length ws \<Longrightarrow> reg_bytes ws ! (2 * i) = ucast (drop_bit 8 (ws ! i)) \<and> reg_bytes ws ! (2 * i + 1) = ucast (ws ! i)"
proof (induction ws arbitrary: i)
  case (Cons w ws)
  then show ?case by (cases i) (simp_all add: reg_bytes_def be16_def)
qed simp

lemma be16_join: "push_bit 8 (ucast (ucast (drop_bit 8 w) :: u8)) OR ucast (ucast w :: u8) = (w :: u16)"
  by (rule bit_word_eqI) (auto simp: bit_simps)

lemma be16_split: "ucast (drop_bit 8 (push_bit 8 (ucast a) OR ucast b :: u16)) = (a :: u8)" "ucast (push_bit 8 (ucast a) OR ucast b :: u16) = (b :: u8)"
proof -
  have "bit b (8 + n) = False" for n using bit_imp_le_length [of b "8 + n"] by auto
  then show "ucast (drop_bit 8 (push_bit 8 (ucast a) OR ucast b :: u16)) = (a :: u8)"
    by (intro bit_word_eqI) (auto simp: bit_simps)
  show "ucast (push_bit 8 (ucast a) OR ucast b :: u16) = (b :: u8)"
    by (rule bit_word_eqI) (auto simp: bit_simps)
qed

text \<open>Packing bits into bytes and bytes into words packs bits into words.\<close>

lemma ucast_byte_of_bits: "length bs \<le> 8 \<Longrightarrow> (ucast (byte_of_bits bs) :: u32) = word_of_bits bs"
  by (rule bit_word_eqI) (auto simp: bit_simps bit_byte_of_bits word_of_bits_def bit_horner_sum_bit_word_iff)

lemma word_of_coil_bytes: "word_of_bytes (coil_bytes bs) = word_of_bits bs"
proof (induction "8 :: nat" bs rule: chunks.induct)
  case (1 bs)
  show ?case
  proof (cases "bs = []")
    case True then show ?thesis by (simp add: word_of_bytes_def coil_bytes_def word_of_bits_def)
  next
    case False
    have "word_of_bytes (coil_bytes bs) = ucast (byte_of_bits (take 8 bs)) + 0x100 * word_of_bits (drop 8 bs)"
      using 1 False by (simp add: word_of_bytes_def coil_bytes_def chunks_step [of 8 bs])
    also have "\<dots> = word_of_bits (take 8 bs) + 0x100 * word_of_bits (drop 8 bs)" by (simp add: ucast_byte_of_bits)
    also have "\<dots> = word_of_bits bs"
    proof (cases "length bs < 8")
      case True then show ?thesis by (simp add: word_of_bits_def)
    next
      case False
      have "word_of_bits (take 8 bs @ drop 8 bs) = word_of_bits (take 8 bs) + 2 ^ 8 * word_of_bits (drop 8 bs)"
        unfolding word_of_bits_def horner_sum_append using False by simp
      then show ?thesis by simp
    qed
    finally show ?thesis .
  qed
qed

lemma words_of_coil_bytes: "map word_of_bytes (chunks 4 (coil_bytes bs)) = map word_of_bits (chunks 32 bs)"
proof -
  have mc: "chunks 4 (map byte_of_bits cs) = map (map byte_of_bits) (chunks 4 cs)" for cs
    by (induction "4 :: nat" cs rule: chunks.induct) (simp add: chunks.simps [of 4 "map _ _"] chunks.simps [of 4 x for x :: "bool list list"] take_map drop_map)
  have "map word_of_bytes (chunks 4 (coil_bytes bs)) = map (word_of_bytes \<circ> map byte_of_bits \<circ> chunks 8) (chunks 32 bs)"
    by (simp add: coil_bytes_def mc chunks_chunks [of 4 8])
  also have "\<dots> = map word_of_bits (chunks 32 bs)"
    using word_of_coil_bytes by (simp add: coil_bytes_def)
  finally show ?thesis .
qed

section \<open>Arrays\<close>

lemma get_at_lt [simp]: "i < length xs \<Longrightarrow> get_at xs i = Some (xs ! i)"
  by (simp add: get_at_def)

lemma put_at_mid: "i = length pre \<Longrightarrow> put_at (pre @ x # post) i v = Some (pre @ v # post)"
  by (simp add: put_at_def)

lemma put_at_lt: "i < length xs \<Longrightarrow> put_at xs i v = Some (xs[i := v])"
  by (simp add: put_at_def)

text \<open>An array of which some elements are written, and the first that are left.\<close>

lemma split_first: "0 < length xs \<Longrightarrow> \<exists>y ys. xs = y # ys" by (cases xs) auto

lemma build_query_packet_eq:
  assumes "6 \<le> length packet"
  shows "build_query_packet slave func start count packet =
    Some (6, [slave, func] @ be16 (start - 1) @ be16 count @ drop 6 packet)"
proof -
  obtain a b c d e f r where "packet = a # b # c # d # e # f # r"
    using assms by (auto simp: numeral_eq_Suc Suc_le_length_iff)
  then show ?thesis by (simp add: build_query_packet_def put_u16_def put_at_def be16_def)
qed

section \<open>Reading bits\<close>

lemma status_bits_eq:
  "k \<le> 8 \<Longrightarrow> length pre = pos \<Longrightarrow> min k (count - pos) \<le> length rest \<Longrightarrow>
   status_bits temp count k pos (pre @ rest) =
     (let m = min k (count - pos) in
      Some (pos + m, pre @ map (\<lambda>j. of_bool (bit temp (8 - k + j))) [0..<m] @ drop m rest))"
proof (induction k arbitrary: pos pre rest)
  case (Suc k)
  show ?case
  proof (cases "pos < count")
    case True
    let ?m = "min k (count - Suc pos)"
    have m: "min (Suc k) (count - pos) = Suc ?m" using True by auto
    then obtain r rs where rest: "rest = r # rs" using Suc.prems(3) by (cases rest) auto
    let ?v = "of_bool (bit temp (7 - k)) :: int"
    have "status_bits temp count k (Suc pos) ((pre @ [?v]) @ rs) =
        Some (Suc pos + ?m, (pre @ [?v]) @ map (\<lambda>j. of_bool (bit temp (8 - k + j))) [0..<?m] @ drop ?m rs)"
      using Suc.IH [of "pre @ [?v]" "Suc pos" rs] Suc.prems m rest by (simp add: Let_def)
    moreover have "map (\<lambda>j. of_bool (bit temp (8 - Suc k + j))) [0..<Suc ?m] = ?v # map (\<lambda>j. of_bool (bit temp (8 - k + j))) [0..<?m]"
      using Suc.prems(1) by (simp add: map_upt_Suc Suc_diff_le del: upt_Suc)
    ultimately show ?thesis unfolding m Let_def using True Suc.prems(2) rest by (simp add: put_at_mid del: upt_Suc)
  qed simp
qed simp

lemma status_bits_overflow:
  "k \<le> 8 \<Longrightarrow> pos \<le> length dest \<Longrightarrow> length dest < pos + min k (count - pos) \<Longrightarrow> status_bits temp count k pos dest = None"
proof (induction k arbitrary: pos dest)
  case (Suc k)
  show ?case
  proof (cases "pos < length dest")
    case True
    then show ?thesis using Suc.prems Suc.IH [of "Suc pos" "dest[pos := of_bool (bit temp (7 - k))]"]
      by (auto simp: put_at_def)
  qed (use Suc.prems in \<open>simp add: put_at_def\<close>)
qed simp

text \<open>The first \<open>n\<close> bytes of an answer give the bits up to the count, and no more of the destination
  than that is written, but not less either.\<close>

definition status_of :: "u8 list \<Rightarrow> nat \<Rightarrow> int" where
  "status_of data j = of_bool (bit (data ! (3 + j div 8)) (j mod 8))"

lemma status_bytes_eq:
  assumes "3 + n \<le> length data" "i \<le> n" "min count (8 * n) \<le> length dest"
  shows "status_bytes data count [i..<n] (min count (8 * i)) dest =
    (let a = min count (8 * i); b = min count (8 * n) in
     Some (take a dest @ map (status_of data) [a..<b] @ drop b dest))"
  using assms(2,3)
proof (induction "n - i" arbitrary: i dest)
  case 0
  then show ?case by (simp add: Let_def)
next
  case (Suc k)
  define a where "a = min count (8 * i)"
  define a' where "a' = min count (8 * Suc i)"
  define b where "b = min count (8 * n)"
  define m where "m = min 8 (count - a)"
  have i: "i < n" "[i..<n] = i # [Suc i..<n]" using Suc.hyps(2) by (simp_all add: upt_conv_Cons)
  have am: "a + m = a'" "a' \<le> b" using i(1) by (auto simp: a_def a'_def b_def m_def)
  have ab: "a \<le> length dest" "b \<le> length dest" using am Suc.prems(2) by (auto simp: b_def)
  have small: "j < m \<Longrightarrow> j < 8 \<and> a = 8 * i" for j by (auto simp: m_def a_def)
  let ?temp = "data ! (3 + i)"
  let ?new = "map (\<lambda>j. of_bool (bit ?temp j)) [0..<m]"
  let ?d = "take a dest @ ?new @ drop a' dest"
  have "m \<le> length (drop a dest)" "length (take a dest) = a" using am ab by simp_all
  then have sb: "status_bits ?temp count 8 a dest = Some (a', ?d)"
    using status_bits_eq [of 8 "take a dest" a count "drop a dest" ?temp, folded m_def] am(1)
    by (simp add: Let_def add.commute)
  have new: "?new = map (status_of data) [a..<a']"
  proof (rule nth_equalityI)
    show "length ?new = length (map (status_of data) [a..<a'])" using am(1) by auto
    fix j assume j: "j < length ?new"
    then have "j < 8" "a = 8 * i" using small by simp_all
    then show "?new ! j = map (status_of data) [a..<a'] ! j" using j am(1) by (auto simp: status_of_def)
  qed
  have len: "b \<le> length ?d" "length (take a dest @ ?new) = a'" using am ab by auto
  have "status_bytes data count [Suc i..<n] a' ?d = Some (take a' ?d @ map (status_of data) [a'..<b] @ drop b ?d)"
    using Suc.hyps(1) [of "Suc i" ?d, folded a'_def b_def] Suc.hyps(2) i(1) len(1) by (simp add: Let_def)
  moreover have "take a' ?d = take a dest @ map (status_of data) [a..<a']"
    using len(2) new by (metis append.assoc append_eq_conv_conj)
  moreover have "drop b ?d = drop b dest"
  proof -
    have "drop b ?d = drop (b - a') (drop a' dest)" using len(2) am(2) by (simp add: drop_append)
    then show ?thesis using am(2) by simp
  qed
  moreover have "[a..<b] = [a..<a'] @ [a'..<b]" using am by (metis le_add_diff_inverse le_add1 upt_add_eq_append)
  ultimately show ?case using sb i assms(1) unfolding a_def [symmetric] b_def [symmetric] by (simp add: Let_def)
qed

section \<open>Reading words of bits\<close>

lemma u32_rest_eq:
  assumes "p < length dest" "3 + i + k \<le> length data"
  shows "u32_rest data i k p dest = Some (dest[p := word_of_bytes (take k (drop (3 + i) data)) + 0x100 ^ k * dest ! p])"
  using assms
proof (induction k arbitrary: dest)
  case 0
  then show ?case by (simp add: word_of_bytes_def)
next
  case (Suc k)
  let ?x = "data ! (3 + (i + k))"
  have "take (Suc k) (drop (3 + i) data) = take k (drop (3 + i) data) @ [?x]"
    using Suc.prems(2) by (simp add: take_Suc_conv_app_nth add.assoc)
  moreover have "length (take k (drop (3 + i) data)) = k" using Suc.prems(2) by simp
  ultimately have "word_of_bytes (take (Suc k) (drop (3 + i) data)) =
      word_of_bytes (take k (drop (3 + i) data)) + 0x100 ^ k * ucast ?x"
    by (simp add: word_of_bytes_def horner_sum_append)
  then show ?case using Suc.prems Suc.IH [of "dest[p := dest ! p * 0x100 + ucast ?x]"]
    by (simp add: put_at_lt algebra_simps)
qed

lemma take_bytes_4: "3 + i + 4 \<le> length data \<Longrightarrow>
  take 4 (drop (3 + i) data) = [data ! (3 + i), data ! (3 + i + 1), data ! (3 + i + 2), data ! (3 + i + 3)]"
  by (rule nth_equalityI) (auto simp: less_Suc_eq numeral_eq_Suc add.assoc)

text \<open>The two loops together.\<close>

lemma u32_loops_eq:
  assumes "3 + n \<le> length data" "p + (n - i + 3) div 4 \<le> length dest" "i \<le> n"
  shows "do { (i', p', dest1) \<leftarrow> u32_groups data n i p dest;
       dest2 \<leftarrow> (if i' < n then put_at dest1 p' 0 else Some dest1);
       u32_rest data i' (n - i') p' dest2 } =
     Some (take p dest @ map word_of_bytes (chunks 4 (take (n - i) (drop (3 + i) data))) @ drop (p + (n - i + 3) div 4) dest)"
  using assms
proof (induction "n - i" arbitrary: i p dest rule: less_induct)
  case (less i p dest)
  show ?case
  proof (cases "i + 3 < n")
    case True
    let ?w = "word_of_bytes (take 4 (drop (3 + i) data))"
    have t4: "take 4 (drop (3 + i) data) = [data ! (3 + i), data ! (3 + i + 1), data ! (3 + i + 2), data ! (3 + i + 3)]"
      using True less.prems(1) by (intro take_bytes_4) simp
    have w: "ucast (data ! (3 + i)) + ucast (data ! (3 + i + 1)) * 0x100 + ucast (data ! (3 + i + 2)) * 0x10000 +
        ucast (data ! (3 + i + 3)) * 0x1000000 = ?w"
      unfolding t4 word_of_bytes_def by (simp add: algebra_simps)
    have d: "(n - i + 3) div 4 = Suc ((n - (i + 4) + 3) div 4)"
    proof -
      have "n - i + 3 = (n - (i + 4) + 3) + 4" using True by simp
      then show ?thesis by (metis add_self_div_2 div_add_self2 Suc_eq_plus1 zero_neq_numeral)
    qed
    have p: "p < length dest" using less.prems(2) d by simp
    have ch: "chunks 4 (take (n - i) (drop (3 + i) data)) =
        take 4 (drop (3 + i) data) # chunks 4 (take (n - (i + 4)) (drop (3 + (i + 4)) data))"
      using True less.prems(1) by (subst chunks_step) (auto simp: drop_take min_def add.commute add.left_commute)
    have g: "u32_groups data n i p dest = u32_groups data n (i + 4) (p + 1) (dest[p := ?w])"
      using True less.prems(1) p by (subst u32_groups.simps) (simp add: put_at_lt w [simplified] del: add.commute)
    have "take (Suc p) (dest[p := ?w]) = take p dest @ [?w]" using p by (simp add: take_Suc_conv_app_nth)
    moreover have "drop (Suc p + k) (dest[p := ?w]) = drop (Suc p + k) dest" for k by simp
    ultimately show ?thesis unfolding g ch d using less.hyps [of "i + 4" "Suc p" "dest[p := ?w]"] True less.prems p d
      by simp
  next
    case False
    have g: "u32_groups data n i p dest = Some (i, p, dest)" using False by (subst u32_groups.simps) simp
    show ?thesis
    proof (cases "i < n")
      case True
      have "(n - i + 3) div 4 = 1" using True False by (intro div_nat_eqI) simp_all
      moreover have "chunks 4 (take (n - i) (drop (3 + i) data)) = [take (n - i) (drop (3 + i) data)]"
        using True False less.prems(1) by (subst chunks_step) (auto simp: min_def)
      ultimately show ?thesis unfolding g using True less.prems by (simp add: put_at_lt u32_rest_eq upd_conv_take_nth_drop nth_append)
    next
      case False
      then show ?thesis unfolding g using less.prems(3) by simp
    qed
  qed
qed

section \<open>Reading registers\<close>

definition reg_of :: "u8 list \<Rightarrow> nat \<Rightarrow> u16" where
  "reg_of data i = push_bit 8 (ucast (data ! (3 + 2 * i))) OR ucast (data ! (4 + 2 * i))"

lemma reg_of_reg_bytes: "length hdr = 3 \<Longrightarrow> i < length ws \<Longrightarrow> reg_of (hdr @ reg_bytes ws @ xs) i = ws ! i"
  using reg_bytes_nth [of i ws] by (simp add: reg_of_def nth_append be16_join)

lemma word_loop_eq:
  assumes "3 + 2 * n \<le> length data" "n \<le> length dest" "i \<le> n"
  shows "word_loop data [i..<n] dest = Some (take i dest @ map (reg_of data) [i..<n] @ drop n dest)"
  using assms(2,3)
proof (induction "n - i" arbitrary: i dest)
  case (Suc k)
  then have i: "i < n" "[i..<n] = i # [Suc i..<n]" by (simp_all add: upt_conv_Cons)
  let ?v = "reg_of data i"
  have "word_loop data [Suc i..<n] (dest[i := ?v]) =
      Some (take (Suc i) (dest[i := ?v]) @ map (reg_of data) [Suc i..<n] @ drop n (dest[i := ?v]))"
    using Suc.hyps(1) [of "Suc i" "dest[i := ?v]"] Suc.hyps(2) Suc.prems i(1) by simp
  moreover have "take (Suc i) (dest[i := ?v]) = take i dest @ [?v]" using i(1) Suc.prems(1) by (simp add: take_Suc_conv_app_nth)
  moreover have "drop n (dest[i := ?v]) = drop n dest" using i(1) by simp
  ultimately show ?case unfolding i(2) using i(1) assms(1) Suc.prems by (simp add: put_at_lt reg_of_def mult.commute)
qed simp

lemma get_u16_reg: "5 + 2 * i \<le> length data \<Longrightarrow> get_u16 data (3 + 2 * i) = Some (reg_of data i)"
  by (simp add: get_u16_def reg_of_def)

text \<open>Two registers to a word, the lower first.\<close>

lemma word_loops_eq:
  assumes "3 + 2 * n \<le> length data" "p + (n - r + 1) div 2 \<le> length dest" "r \<le> n"
  shows "do { (i', p', dest1) \<leftarrow> word_groups data (2 * n) (2 * r) p dest;
       if i' + 1 < 2 * n then do { lo \<leftarrow> get_u16 data (3 + i'); put_at dest1 p' (ucast lo) } else Some dest1 } =
     Some (take p dest @ map word_of_regs (chunks 2 (map (reg_of data) [r..<n])) @ drop (p + (n - r + 1) div 2) dest)"
  using assms
proof (induction "n - r" arbitrary: r p dest rule: less_induct)
  case (less r p dest)
  show ?case
  proof (cases "r + 1 < n")
    case True
    let ?w = "word_of_regs [reg_of data r, reg_of data (r + 1)]"
    have d: "(n - r + 1) div 2 = Suc ((n - (r + 2) + 1) div 2)"
    proof -
      have "n - r + 1 = (n - (r + 2) + 1) + 2" using True by simp
      then show ?thesis by simp
    qed
    have p: "p < length dest" using less.prems(2) d by simp
    have u: "[r..<n] = r # (r + 1) # [r + 2..<n]" using True by (simp add: upt_conv_Cons)
    have ch: "chunks 2 (map (reg_of data) [r..<n]) = [reg_of data r, reg_of data (r + 1)] # chunks 2 (map (reg_of data) [r + 2..<n])"
      unfolding u by (subst chunks_step) simp_all
    have lo: "get_u16 data (3 + 2 * r) = Some (reg_of data r)"
      using True less.prems(1) by (intro get_u16_reg) simp
    have hi: "get_u16 data (3 + 2 * r + 2) = Some (reg_of data (r + 1))"
      using get_u16_reg [of "r + 1" data] True less.prems(1) by simp
    have "2 * (r + 2) = 2 * r + 4" by simp
    then have g: "word_groups data (2 * n) (2 * r) p dest = word_groups data (2 * n) (2 * (r + 2)) (p + 1) (dest[p := ?w])"
      using True p by (subst word_groups.simps, simp only: lo hi bind.bind_lunit put_at_lt)
        (simp add: put_at_lt word_of_regs_def)
    have "take (Suc p) (dest[p := ?w]) = take p dest @ [?w]" using p by (simp add: take_Suc_conv_app_nth)
    moreover have "drop (Suc p + k) (dest[p := ?w]) = drop (Suc p + k) dest" for k by simp
    ultimately show ?thesis unfolding g ch d using less.hyps [of "r + 2" "Suc p" "dest[p := ?w]"] True less.prems p d
      by simp
  next
    case False
    have g: "word_groups data (2 * n) (2 * r) p dest = Some (2 * r, p, dest)" using False by (subst word_groups.simps) simp
    show ?thesis
    proof (cases "r < n")
      case True
      then have n: "n = Suc r" using False by simp
      have "get_u16 data (3 + 2 * r) = Some (reg_of data r)" using less.prems(1) n by (intro get_u16_reg) simp
      then show ?thesis unfolding g using less.prems n
        by (simp add: put_at_lt upd_conv_take_nth_drop chunks_step word_of_regs_def)
    next
      case False
      then show ?thesis unfolding g using less.prems(3) by simp
    qed
  qed
qed

section \<open>Packing bits\<close>

lemma pack_byte_eq:
  assumes "k \<le> 8" "count \<le> length data" "pos \<le> count" "\<forall>j\<ge>8 - k. \<not> bit x j"
  shows "pack_byte data count pos k x =
    Some (min count (pos + k), x OR push_bit (8 - k) (byte_of_bits (take k (drop pos (map (\<lambda>v. v \<noteq> 0) (take count data))))))"
  using assms(1,3,4)
proof (induction k arbitrary: pos x)
  case 0
  then show ?case by (simp add: byte_of_bits_def)
next
  case (Suc k)
  let ?bits = "map (\<lambda>v. v \<noteq> 0) (take count data)"
  show ?case
  proof (cases "pos < count")
    case True
    define y where "y = (if data ! pos \<noteq> 0 then x OR push_bit (7 - k) 1 else x AND NOT (push_bit (7 - k) 1))"
    have ybit: "bit y j \<longleftrightarrow> (if j = 7 - k then data ! pos \<noteq> 0 else bit x j)" if "j < 8" for j
      using that by (auto simp: y_def bit_simps)
    have "\<forall>j\<ge>8 - k. \<not> bit y j"
    proof (intro allI impI)
      fix j assume j: "8 - k \<le> j"
      show "\<not> bit y j"
      proof (cases "j < 8")
        case True
        then show ?thesis using ybit [OF True] Suc.prems(1,3) j by auto
      next
        case False
        then show ?thesis using bit_imp_le_length [of y j] by auto
      qed
    qed
    then have ih: "pack_byte data count (Suc pos) k y =
        Some (min count (Suc pos + k), y OR push_bit (8 - k) (byte_of_bits (take k (drop (Suc pos) ?bits))))"
      using Suc.IH [of "Suc pos" y] Suc.prems(1) True by simp
    have sp: "take (Suc k) (drop pos ?bits) = (data ! pos \<noteq> 0) # take k (drop (Suc pos) ?bits)"
      using True assms(2) by (simp add: Cons_nth_drop_Suc [symmetric, of pos ?bits])
    have "y OR push_bit (8 - k) (byte_of_bits (take k (drop (Suc pos) ?bits))) =
        x OR push_bit (8 - Suc k) (byte_of_bits ((data ! pos \<noteq> 0) # take k (drop (Suc pos) ?bits)))" (is "_ OR push_bit _ (byte_of_bits ?t) = _")
    proof (rule bit_word_eqI)
      fix j assume "j < LENGTH(8)"
      then have j: "j < 8" by simp
      have x: "8 - Suc k \<le> j \<Longrightarrow> \<not> bit x j" using Suc.prems(3) by simp
      have L: "bit (y OR push_bit (8 - k) (byte_of_bits ?t)) j \<longleftrightarrow> bit y j \<or> 8 - k \<le> j \<and> bit (byte_of_bits ?t) (j - (8 - k))"
        using j by (auto simp: bit_or_iff bit_push_bit_iff)
      have R: "bit (x OR push_bit (8 - Suc k) (byte_of_bits ((data ! pos \<noteq> 0) # ?t))) j \<longleftrightarrow>
          bit x j \<or> 8 - Suc k \<le> j \<and> bit (byte_of_bits ((data ! pos \<noteq> 0) # ?t)) (j - (8 - Suc k))"
        using j by (auto simp: bit_or_iff bit_push_bit_iff)
      have "j < 7 - k \<or> j = 7 - k \<or> (\<exists>i. j = Suc (7 - k) + i)"
        by (metis Suc_leI le_add_diff_inverse linorder_less_linear)
      then show "bit (y OR push_bit (8 - k) (byte_of_bits ?t)) j =
          bit (x OR push_bit (8 - Suc k) (byte_of_bits ((data ! pos \<noteq> 0) # ?t))) j"
      proof (elim disjE exE)
        assume a: "j < 7 - k"
        then have "\<not> 8 - k \<le> j" "\<not> 8 - Suc k \<le> j" "j \<noteq> 7 - k" by auto
        then show ?thesis unfolding L R using ybit [OF j] by simp
      next
        assume "j = 7 - k"
        moreover have "\<not> 8 - k \<le> 7 - k" using Suc.prems(1) by simp
        ultimately show ?thesis unfolding L R bit_byte_of_bits using ybit [OF j] j x Suc.prems(1) by simp
      next
        fix i assume i: "j = Suc (7 - k) + i"
        then have "j - (8 - k) = i" "j - (8 - Suc k) = Suc i" "8 - k \<le> j" "8 - Suc k \<le> j" "Suc i < 8" "j \<noteq> 7 - k" using Suc.prems(1) j by auto
        then show ?thesis unfolding L R bit_byte_of_bits using ybit [OF j] x by simp
      qed
    qed
    then show ?thesis using True assms(2) Suc.prems(1) ih sp by (simp add: y_def)
  next
    case False
    then have "take (Suc k) (drop pos ?bits) = []" using Suc.prems(2) by simp
    then show ?thesis using False Suc.prems(2) by (simp add: byte_of_bits_def)
  qed
qed

definition bits_of :: "int list \<Rightarrow> nat \<Rightarrow> bool list" where
  "bits_of data count = map (\<lambda>v. v \<noteq> 0) (take count data)"

lemma pack_bytes_eq:
  assumes "count \<le> length data" "pos \<le> count" "n = (count - pos + 7) div 8" "n \<le> length rest" "length pre = q + 1"
  shows "pack_bytes data count pos n q (pre @ rest) =
    Some (q + n, pre @ coil_bytes (drop pos (bits_of data count)) @ drop n rest)"
  using assms(2-5)
proof (induction n arbitrary: pos q pre rest)
  case 0
  then have "pos = count" by (cases "count - pos") auto
  then show ?case using 0 by (simp add: coil_bytes_def bits_of_def)
next
  case (Suc n)
  let ?bits = "bits_of data count"
  have lt: "pos < count" using Suc.prems(2) by (cases "count - pos") auto
  obtain r rs where rest: "rest = r # rs" using Suc.prems(3) by (cases rest) auto
  let ?x = "byte_of_bits (take 8 (drop pos ?bits))"
  have pb: "pack_byte data count pos 8 0 = Some (min count (pos + 8), ?x)"
    using pack_byte_eq [of 8 count data pos 0] assms(1) lt by (simp add: bits_of_def)
  have n: "n = (count - min count (pos + 8) + 7) div 8"
  proof (cases "pos + 8 \<le> count")
    case True
    then have "count - pos + 7 = count - (pos + 8) + 7 + 8" by simp
    then show ?thesis using Suc.prems(2) True by simp
  next
    case False
    then have "(count - pos + 7) div 8 = 1" using lt by (intro div_nat_eqI) simp_all
    then show ?thesis using Suc.prems(2) False by simp
  qed
  have ih: "pack_bytes data count (min count (pos + 8)) n (q + 1) ((pre @ [?x]) @ rs) =
      Some (q + 1 + n, (pre @ [?x]) @ coil_bytes (drop (min count (pos + 8)) ?bits) @ drop n rs)"
    by (rule Suc.IH [OF _ n]) (use Suc.prems rest in simp_all)
  have d: "drop (min count (pos + 8)) ?bits = drop 8 (drop pos ?bits)"
    by (cases "pos + 8 \<le> count") (simp_all add: bits_of_def add.commute)
  have "drop pos ?bits \<noteq> []" using lt assms(1) by (simp add: bits_of_def)
  then have "coil_bytes (drop pos ?bits) = ?x # coil_bytes (drop 8 (drop pos ?bits))"
    by (simp add: coil_bytes_def chunks_step [of 8 "drop pos ?bits"])
  then show ?case using ih Suc.prems(4) rest d by (simp add: pb put_at_mid)
qed

section \<open>Packing registers\<close>

lemma put_words_eq:
  assumes "set is \<subseteq> {..<length data}" "2 * length is \<le> length rest" "length pre = q + 1"
  shows "put_words data is q (pre @ rest) =
    Some (q + 2 * length is, pre @ reg_bytes (map ((!) data) is) @ drop (2 * length is) rest)"
  using assms
proof (induction "is" arbitrary: q pre rest)
  case Nil
  then show ?case by (simp add: reg_bytes_def)
next
  case (Cons i "is")
  then obtain a b rs where rest: "rest = a # b # rs" by (auto simp: Suc_le_length_iff)
  let ?w = "data ! i"
  have p1: "put_at (pre @ a # b # rs) (q + 1) v = Some (pre @ v # b # rs)" for v using Cons.prems(3) by (intro put_at_mid) simp
  have p2: "put_at (pre @ v # b # rs) (q + 2) u = Some ((pre @ [v, u]) @ rs)" for v u
    using put_at_mid [of "q + 2" "pre @ [v]" b rs u] Cons.prems(3) by simp
  have "put_words data is (q + 2) ((pre @ be16 ?w) @ rs) =
      Some (q + 2 + 2 * length is, (pre @ be16 ?w) @ reg_bytes (map ((!) data) is) @ drop (2 * length is) rs)"
    by (rule Cons.IH) (use Cons.prems rest in \<open>simp_all add: be16_def\<close>)
  then show ?case unfolding rest put_words.simps using Cons.prems(1) p1 p2
    by (simp add: be16_def reg_bytes_def)
qed

section \<open>Bits out of words\<close>

definition bytes_of_word :: "u32 \<Rightarrow> u8 list" where
  "bytes_of_word w = [ucast w, ucast (drop_bit 8 w), ucast (drop_bit 16 w), ucast (drop_bit 24 w)]"

lemma length_bytes_of_words [simp]: "length (concat (map bytes_of_word ws)) = 4 * length ws"
  by (induction ws) (simp_all add: bytes_of_word_def)

lemma byte_rest_eq:
  assumes "k \<le> 4" "g < length data" "k \<le> length rest" "length pre = q + 1"
  shows "\<exists>data'. byte_rest data k g q (pre @ rest) =
    Some (data', q + k, pre @ take k (bytes_of_word (data ! g)) @ drop k rest)"
proof -
  have step: "\<exists>data'. byte_rest data k g q (pre @ rest) =
      Some (data', q + k, pre @ map (\<lambda>j. ucast (drop_bit (8 * j) (data ! g))) [0..<k] @ drop k rest)"
    if "g < length data" "k \<le> length rest" "length pre = q + 1" for data k q pre rest
    using that
  proof (induction k arbitrary: data q pre rest)
    case (Suc k)
    then obtain r rs where rest: "rest = r # rs" by (cases rest) auto
    let ?w = "data ! g"
    obtain data' where "byte_rest (data[g := drop_bit 8 ?w]) k g (q + 1) ((pre @ [ucast ?w]) @ rs) =
        Some (data', q + 1 + k, (pre @ [ucast ?w]) @
          map (\<lambda>j. ucast (drop_bit (8 * j) (data[g := drop_bit 8 ?w] ! g))) [0..<k] @ drop k rs)"
      using Suc.IH [of "data[g := drop_bit 8 ?w]" rs "pre @ [ucast ?w]" "q + 1"] Suc.prems rest by auto
    then show ?case using Suc.prems rest
      by (simp add: take_byte_def put_at_mid map_upt_Suc drop_bit_drop_bit add.commute del: upt_Suc)
  qed simp
  have "map (\<lambda>j. ucast (drop_bit (8 * j) w)) [0..<k] = take k (bytes_of_word w)" for w :: u32
    using assms(1) by (auto simp: bytes_of_word_def le_Suc_eq numeral_eq_Suc upt_rec)
  then show ?thesis using step [OF assms(2-4)] by simp
qed

lemma byte_group:
  assumes "g < length data" "4 \<le> length rest" "length pre = q + 1"
  shows "\<exists>data'. length data' = length data \<and> (\<forall>j. j \<noteq> g \<longrightarrow> data' ! j = data ! j) \<and>
    do { (data1, q1, p1) \<leftarrow> take_byte data g True q (pre @ rest);
         (data2, q2, p2) \<leftarrow> take_byte data1 g True q1 p1;
         (data3, q3, p3) \<leftarrow> take_byte data2 g True q2 p2;
         take_byte data3 g False q3 p3 } =
    Some (data', q + 4, (pre @ bytes_of_word (data ! g)) @ drop 4 rest)"
proof -
  obtain a b c d rs where rest: "rest = a # b # c # d # rs"
    using assms(2) by (auto simp: numeral_eq_Suc Suc_le_length_iff)
  have p1: "put_at (pre @ a # xs) (q + 1) v = Some (pre @ v # xs)" for v xs using assms(3) by (intro put_at_mid) simp
  have p2: "put_at (pre @ x # b # xs) (q + 2) v = Some (pre @ x # v # xs)" for x v xs
    using put_at_mid [of "q + 2" "pre @ [x]"] assms(3) by simp
  have p3: "put_at (pre @ x # y # c # xs) (q + 3) v = Some (pre @ x # y # v # xs)" for x y v xs
    using put_at_mid [of "q + 3" "pre @ [x, y]"] assms(3) by simp
  have p4: "put_at (pre @ x # y # z # d # xs) (q + 4) v = Some (pre @ x # y # z # v # xs)" for x y z v xs
    using put_at_mid [of "q + 4" "pre @ [x, y, z]"] assms(3) by simp
  show ?thesis unfolding rest using assms(1) p1 [simplified] p2 p3 p4
    by (simp add: take_byte_def bytes_of_word_def drop_bit_drop_bit numeral_eq_Suc del: put_at_lt)
qed

lemma byte_loops_eq:
  assumes "n - i \<le> 4 * (length data - g)" "n - i \<le> length rest" "length pre = q + 1" "i \<le> n"
  shows "\<exists>data'. do { (data1, i', g', q1, p1) \<leftarrow> byte_groups data n i g q (pre @ rest); byte_rest data1 (n - i') g' q1 p1 } =
    Some (data', q + (n - i), pre @ take (n - i) (concat (map bytes_of_word (drop g data))) @ drop (n - i) rest)"
  using assms
proof (induction "n - i" arbitrary: i g q pre rest data rule: less_induct)
  case (less i g q pre rest data)
  show ?case
  proof (cases "i + 3 < n")
    case True
    have g: "g < length data" using less.prems(1) True by (cases "length data - g") auto
    obtain data4 where d4: "length data4 = length data" "\<forall>j. j \<noteq> g \<longrightarrow> data4 ! j = data ! j"
      and grp: "do { (data1, q1, p1) \<leftarrow> take_byte data g True q (pre @ rest);
         (data2, q2, p2) \<leftarrow> take_byte data1 g True q1 p1;
         (data3, q3, p3) \<leftarrow> take_byte data2 g True q2 p2;
         take_byte data3 g False q3 p3 } =
        Some (data4, q + 4, (pre @ bytes_of_word (data ! g)) @ drop 4 rest)"
    proof -
      have "4 \<le> length rest" using less.prems(2) True by linarith
      then show ?thesis using byte_group [OF g _ less.prems(3), of rest] that by blast
    qed
    have step: "byte_groups data n i g q (pre @ rest) =
        byte_groups data4 n (i + 4) (g + 1) (q + 4) ((pre @ bytes_of_word (data ! g)) @ drop 4 rest)"
    proof -
      have "byte_groups data n i g q (pre @ rest) =
        do { (data4, q4, p4) \<leftarrow> do { (data1, q1, p1) \<leftarrow> take_byte data g True q (pre @ rest);
               (data2, q2, p2) \<leftarrow> take_byte data1 g True q1 p1;
               (data3, q3, p3) \<leftarrow> take_byte data2 g True q2 p2;
               take_byte data3 g False q3 p3 };
             byte_groups data4 n (i + 4) (g + 1) q4 p4 }"
        using True by (subst byte_groups.simps) (simp add: case_prod_beta')
      then show ?thesis unfolding grp by simp
    qed
    have len: "length (pre @ bytes_of_word (data ! g)) = q + 4 + 1" using less.prems(3) by (simp add: bytes_of_word_def)
    obtain data' where ih: "do { (data1, i', g', q1, p1) \<leftarrow> byte_groups data4 n (i + 4) (g + 1) (q + 4) ((pre @ bytes_of_word (data ! g)) @ drop 4 rest);
          byte_rest data1 (n - i') g' q1 p1 } =
        Some (data', q + 4 + (n - (i + 4)), (pre @ bytes_of_word (data ! g)) @
          take (n - (i + 4)) (concat (map bytes_of_word (drop (g + 1) data4))) @ drop (n - (i + 4)) (drop 4 rest))"
    proof -
      have "n - (i + 4) < n - i" "n - (i + 4) \<le> 4 * (length data4 - (g + 1))" "n - (i + 4) \<le> length (drop 4 rest)" "i + 4 \<le> n"
        using True less.prems(1,2) d4(1) g by simp_all
      then show ?thesis using less.hyps [of "i + 4" data4 "g + 1" "drop 4 rest" "pre @ bytes_of_word (data ! g)" "q + 4"] len that by blast
    qed
    define k where "k = n - (i + 4)"
    have k: "n - i = 4 + k" using True by (simp add: k_def)
    have dd: "drop (g + 1) data4 = drop (g + 1) data" using d4 by (intro nth_equalityI) auto
    have "drop g data = data ! g # drop (g + 1) data" using g by (simp add: Cons_nth_drop_Suc)
    then have "concat (map bytes_of_word (drop g data)) = bytes_of_word (data ! g) @ concat (map bytes_of_word (drop (g + 1) data))"
      by simp
    moreover have "length (bytes_of_word (data ! g)) = 4" by (simp add: bytes_of_word_def)
    ultimately have "take (4 + k) (concat (map bytes_of_word (drop g data))) =
        bytes_of_word (data ! g) @ take k (concat (map bytes_of_word (drop (g + 1) data4)))"
      by (simp add: dd [simplified])
    moreover have "q + (4 + k) = q + 4 + k" "drop (4 + k) rest = drop k (drop 4 rest)" by (simp_all add: add.commute)
    ultimately show ?thesis unfolding step k using ih [folded k_def] by (simp only: append_assoc) blast
  next
    case False
    have gr: "byte_groups data n i g q (pre @ rest) = Some (data, i, g, q, pre @ rest)" using False by (subst byte_groups.simps) simp
    show ?thesis
    proof (cases "i < n")
      case True
      have g: "g < length data" using less.prems(1) True by (cases "length data - g") auto
      have "take (n - i) (bytes_of_word (data ! g) @ xs) = take (n - i) (bytes_of_word (data ! g))" for xs
      proof -
        have "length (bytes_of_word (data ! g)) = 4" by (simp add: bytes_of_word_def)
        then show ?thesis using False by simp
      qed
      moreover have "concat (map bytes_of_word (drop g data)) = bytes_of_word (data ! g) @ concat (map bytes_of_word (drop (Suc g) data))"
        using g by (simp add: Cons_nth_drop_Suc [symmetric])
      ultimately have "take (n - i) (concat (map bytes_of_word (drop g data))) = take (n - i) (bytes_of_word (data ! g))"
        by (simp only:)
      then show ?thesis unfolding gr using byte_rest_eq [of "n - i" g data rest pre q] False g less.prems(2,3) by simp
    next
      case False
      then show ?thesis unfolding gr using less.prems(4) by simp
    qed
  qed
qed

text \<open>The bytes of words are those of their bits.\<close>

definition bits_of_words :: "u32 list \<Rightarrow> bool list" where
  "bits_of_words ws = concat (map (\<lambda>w. map (bit w) [0..<32]) ws)"

lemma length_bits_of_words [simp]: "length (bits_of_words ws) = 32 * length ws"
  by (induction ws) (simp_all add: bits_of_words_def)

lemma coil_bytes_nth:
  assumes "i < length (coil_bytes bs)"
  shows "bit (coil_bytes bs ! i) k \<longleftrightarrow> k < 8 \<and> 8 * i + k < length bs \<and> bs ! (8 * i + k)"
proof -
  have "chunks 8 bs ! i = take 8 (drop (8 * i) bs)" if "i < length (chunks 8 bs)" for i
    using that
  proof (induction i arbitrary: bs)
    case 0
    then have "bs \<noteq> []" by auto
    then show ?case by (simp add: chunks_step)
  next
    case (Suc i)
    then have "bs \<noteq> []" by auto
    then show ?case using Suc by (simp add: chunks_step add.commute)
  qed
  then have "coil_bytes bs ! i = byte_of_bits (take 8 (drop (8 * i) bs))" using assms by (simp add: coil_bytes_def)
  then show ?thesis by (auto simp: bit_byte_of_bits)
qed

lemma bits_of_words_nth:
  "i < length ws \<Longrightarrow> k < 32 \<Longrightarrow> bits_of_words ws ! (32 * i + k) = bit (ws ! i) k"
proof (induction ws arbitrary: i)
  case (Cons w ws)
  then show ?case by (cases i) (auto simp: bits_of_words_def nth_append)
qed simp

lemma bytes_of_words_nth:
  "i < 4 * length ws \<Longrightarrow> k < 8 \<Longrightarrow> bit (concat (map bytes_of_word ws) ! i) k = bits_of_words ws ! (8 * i + k)"
proof (induction ws arbitrary: i)
  case (Cons w ws)
  show ?case
  proof (cases "i < 4")
    case True
    have "bits_of_words (w # ws) ! (8 * i + k) = bit w (8 * i + k)"
      using bits_of_words_nth [of 0 "w # ws" "8 * i + k"] True Cons.prems(2) by simp
    moreover have "i \<in> {0, 1, 2, 3}" using True by auto
    ultimately show ?thesis using Cons.prems(2) by (auto simp: bytes_of_word_def nth_append bit_simps)
  next
    case False
    then obtain j where j: "i = 4 + j" by (metis le_add_diff_inverse not_less)
    have "bits_of_words (w # ws) ! (8 * i + k) = bits_of_words ws ! (8 * j + k)"
      unfolding j bits_of_words_def by (simp add: nth_append)
    moreover have "concat (map bytes_of_word (w # ws)) ! i = concat (map bytes_of_word ws) ! j"
      unfolding j by (simp add: bytes_of_word_def nth_append)
    ultimately show ?thesis using Cons j by simp
  qed
qed simp

lemma coil_bytes_of_words:
  assumes "count \<le> 32 * length ws" "\<forall>j. count \<le> j \<and> j < 8 * ((count + 7) div 8) \<longrightarrow> \<not> bits_of_words ws ! j"
  shows "coil_bytes (take count (bits_of_words ws)) = take ((count + 7) div 8) (concat (map bytes_of_word ws))"
proof (rule nth_equalityI)
  let ?n = "(count + 7) div 8"
  have n: "?n \<le> 4 * length ws" using assms(1) by linarith
  have l: "length (coil_bytes (take count (bits_of_words ws))) = ?n" using assms(1) by (simp add: length_coil_bytes)
  then show "length (coil_bytes (take count (bits_of_words ws))) = length (take ?n (concat (map bytes_of_word ws)))"
    using n by simp
  fix i assume "i < length (coil_bytes (take count (bits_of_words ws)))"
  then have i: "i < ?n" using l by simp
  show "coil_bytes (take count (bits_of_words ws)) ! i = take ?n (concat (map bytes_of_word ws)) ! i"
  proof (rule bit_word_eqI)
    fix k assume "k < LENGTH(8)"
    then have k: "k < 8" by simp
    have r: "bit (take ?n (concat (map bytes_of_word ws)) ! i) k = bits_of_words ws ! (8 * i + k)"
      using bytes_of_words_nth [of i ws k] i n k by simp
    have "8 * i + k < 8 * ?n" using i k by linarith
    then have "\<not> 8 * i + k < count \<Longrightarrow> \<not> bits_of_words ws ! (8 * i + k)" using assms(2) by simp
    then show "bit (coil_bytes (take count (bits_of_words ws)) ! i) k = bit (take ?n (concat (map bytes_of_word ws)) ! i) k"
      unfolding r using coil_bytes_nth [of i "take count (bits_of_words ws)" k] i l k assms(1)
      by (cases "8 * i + k < count") auto
  qed
qed

end
