(* ===== verification/ModbusLink.thy ===== *)
theory ModbusLink
  imports ModbusCodes ModbusRtuTrip
begin

unbundle bit_operations_syntax

text \<open>
  What the master relies on of the layer below (locale \<open>modbus_layer1\<close>), what follows for its
  transactions, and the RTU module as a layer that keeps it.
\<close>

section \<open>The contract of the layer below\<close>

text \<open>Writing keeps the frame in the caller's memory, reading gives a pointer to at least as many bytes as
  it says; \<open>ok\<close> is the invariant of the layer's own state.\<close>

locale modbus_layer1 =
  fixes l :: "('s, 'a) layer1" and ok :: "'s \<Rightarrow> bool"
  assumes write_keeps: "ok s \<Longrightarrow> l1_write l s nd p n tid = Some (r, p1, s1) \<Longrightarrow>
      ok s1 \<and> length p1 = length p \<and> take n p1 = take n p"
    and read_gives: "ok s \<Longrightarrow> l1_read l s nd tid q = Some (r, nd1, d, tid1, s1) \<Longrightarrow>
      ok s1 \<and> (0 \<le> r \<longrightarrow> nat r \<le> length d)"
begin

text \<open>A transaction tries at most so often, keeps the query in its buffer, and gives an error or a frame
  that answers the query.\<close>

lemma tries_outcome:
  assumes "ok (lower m)" "query_buffer m = Some p" "2 \<le> n"
    and "transaction_tries l k n nd e err m = Some (r, d, err', m')"
  shows "ok (lower m') \<and> (\<exists>p'. query_buffer m' = Some p' \<and> length p' = length p \<and> take n p' = take n p) \<and>
    (\<exists>j\<le>k. next_id m' = next_id m + of_nat j) \<and>
    (r \<in> {e, -1, -2, -3, -4} \<or> 3 \<le> r \<and> nat r \<le> length d \<and> d ! 1 = p ! 1) \<and> (r \<noteq> -4 \<longrightarrow> err' = err)"
  using assms
proof (induction k arbitrary: m p nd e)
  case 0
  then show ?case by auto
next
  case (Suc k)
  let ?m1 = "m\<lparr>next_id := next_id m + 1\<rparr>"
  obtain res p1 s1 where w: "l1_write l (lower m) nd p n (next_id m) = Some (res, p1, s1)"
    using Suc.prems(2,4) by (auto simp: next_transaction_id_def split: option.splits)
  have k1: "ok s1" "length p1 = length p" "take n p1 = take n p" using write_keeps [OF Suc.prems(1) w] by auto
  let ?m2 = "?m1\<lparr>query_buffer := Some p1, lower := s1\<rparr>"
  have again: ?case if "ok (lower m3)" "query_buffer m3 = Some p1" "next_id m3 = next_id m + 1" "e' \<in> {-1, -3}"
      "transaction_tries l k n nd' e' err m3 = Some (r, d, err', m')" for m3 nd' e'
  proof -
    note ih = Suc.IH [OF that(1,2) Suc.prems(3) that(5)]
    obtain j where j: "j \<le> k" "next_id m' = next_id m3 + of_nat j" using ih by auto
    have "Suc j \<le> Suc k \<and> next_id m' = next_id m + of_nat (Suc j)" using j that(3) by simp
    then have "\<exists>j\<le>Suc k. next_id m' = next_id m + of_nat j" by blast
    moreover have "p1 ! 1 = p ! 1"
    proof -
      have "take n p1 ! 1 = take n p ! 1" using k1(3) by simp
      then show ?thesis using Suc.prems(3) by simp
    qed
    ultimately show ?thesis using ih k1 that(4) by auto
  qed
  show ?case
  proof (cases "res < 0")
    case True
    then have "transaction_tries l k n nd PORT_FAILURE err ?m2 = Some (r, d, err', m')"
      using Suc.prems(2,4) w by (simp add: next_transaction_id_def Let_def)
    then show ?thesis using again [of ?m2 PORT_FAILURE nd] k1(1) by (simp add: PORT_FAILURE_def)
  next
    case False
    obtain len nd1 data tid1 s2 where rd: "l1_read l s1 nd (next_id m) (take n p1) = Some (len, nd1, data, tid1, s2)"
      using Suc.prems(2,4) w False by (auto simp: next_transaction_id_def Let_def split: option.splits)
    have k2: "ok s2" "0 \<le> len \<Longrightarrow> nat len \<le> length data" using read_gives [OF k1(1) rd] by auto
    let ?m3 = "?m2\<lparr>lower := s2\<rparr>"
    have r: "(if len = -2 then Some (TIMEOUT, data, err, ?m3)
         else if len < 0 then transaction_tries l k n nd1 PORT_FAILURE err ?m3
         else if len < 3 then Some (INTERNAL_ERROR, data, err, ?m3)
         else (case judge_response p1 data (next_id m) tid1 len err of
                 None \<Rightarrow> None
               | Some (Inl error1) \<Rightarrow> transaction_tries l k n nd1 error1 err ?m3
               | Some (Inr (r, err1)) \<Rightarrow> Some (r, data, err1, ?m3))) = Some (r, d, err', m')"
      using Suc.prems(2,4) w False rd by (simp add: next_transaction_id_def Let_def cong: option.case_cong sum.case_cong if_cong)
    have once: "\<exists>j\<le>Suc k. next_id ?m3 = next_id m + of_nat j" by (intro exI [of _ 1]) simp
    show ?thesis
    proof (cases "len < 3")
      case True
      then consider "len = -2" | "len \<noteq> -2" "len < 0" | "0 \<le> len" by linarith
      then show ?thesis
      proof cases
        case 2
        then show ?thesis using again [of ?m3 PORT_FAILURE nd1] r k2(1) by (simp add: PORT_FAILURE_def)
      qed (use True r once k1 k2 in \<open>auto simp: TIMEOUT_def INTERNAL_ERROR_def\<close>)
    next
      case False
      show ?thesis
      proof (cases "judge_response p1 data (next_id m) tid1 len err")
        case None then show ?thesis using r False by simp
      next
        case (Some z)
        show ?thesis
        proof (cases z)
          case (Inl e1)
          then have "e1 = -3" using Some by (auto simp: judge_response_def INVALID_FRAME_def split: if_splits bind_splits)
          then show ?thesis using again [of ?m3 e1 nd1] r False Some Inl k2(1) by simp
        next
          case (Inr v)
          obtain r1 err1 where v: "v = (r1, err1)" by (cases v)
          have j: "r1 = -4 \<or> r1 = len \<and> err1 = err \<and> data ! 1 AND 0x7F = p1 ! 1 \<and> data ! 1 AND 0x80 = 0"
            using Some Inr v by (auto simp: judge_response_def MODBUS_ERROR_def get_at_def split: if_splits bind_splits)
          have "data ! 1 = p ! 1" if "data ! 1 AND 0x7F = p1 ! 1" "data ! 1 AND 0x80 = 0"
          proof -
            have "data ! 1 = data ! 1 AND (0x7F OR 0x80)"
            proof -
              have "(0x7F OR 0x80 :: u8) = -1" by simp
              then show ?thesis by (simp only: and.right_neutral)
            qed
            also have "\<dots> = p1 ! 1" using that by (simp only: bit.conj_disj_distrib) simp
            finally have "data ! 1 = p1 ! 1" .
            moreover have "take n p1 ! 1 = take n p ! 1" using k1(3) by simp
            ultimately show ?thesis using Suc.prems(3) by simp
          qed
          then show ?thesis using r False Some Inr v j once k1 k2 by auto
        qed
      qed
    qed
  qed
qed

lemma transaction_outcome:
  assumes "ok (lower m)" "query_buffer m = Some p" "2 \<le> n"
    and "mb_transaction l n nd retries err m = Some (r, d, err', m')"
  shows "ok (lower m') \<and> (\<exists>p'. query_buffer m' = Some p' \<and> length p' = length p \<and> take n p' = take n p) \<and>
    (\<exists>j\<le>nat (retries + 1). next_id m' = next_id m + of_nat j) \<and>
    (r \<in> {-1, -2, -3, -4} \<or> 3 \<le> r \<and> nat r \<le> length d \<and> d ! 1 = p ! 1) \<and> (r \<noteq> -4 \<longrightarrow> err' = err)"
proof -
  have "transaction_tries l (nat (retries + 1)) n nd (-1) err m = Some (r, d, err', m')"
    using assms(4) by (simp add: mb_transaction_def INTERNAL_ERROR_def split: if_splits)
  from tries_outcome [OF assms(1-3) this] show ?thesis by simp
qed

end

section \<open>What is asked of the layer below\<close>

text \<open>A layer that also notes what the master asks of it: the frame it writes and the transaction id, and
  the id of the answer it waits for.\<close>

datatype layer_call = Wrote "u8 list" u16 | Awaited u16

definition recording :: "('s, 'a) layer1 \<Rightarrow> ('s \<times> layer_call list, 'a) layer1" where
  "recording l = \<lparr>
     l1_write = \<lambda>(s, cs) nd p n tid.
       map_option (\<lambda>(r, p1, s1). (r, p1, (s1, cs @ [Wrote (take n p) tid]))) (l1_write l s nd p n tid),
     l1_read = \<lambda>(s, cs) nd tid q.
       map_option (\<lambda>(r, nd1, d, tid1, s1). (r, nd1, d, tid1, (s1, cs @ [Awaited tid]))) (l1_read l s nd tid q),
     l1_init = \<lambda>(s, cs) n opt. map_option (\<lambda>(r, k, s1). (r, k, (s1, cs))) (l1_init l s n opt),
     l1_done = \<lambda>(s, cs). map_option (\<lambda>(r, s1). (r, (s1, cs))) (l1_done l s),
     l1_connect = \<lambda>(s, cs) a. map_option (\<lambda>(r, s1). (r, (s1, cs))) (l1_connect l s a),
     l1_listen = \<lambda>(s, cs) a. map_option (\<lambda>(r, s1). (r, (s1, cs))) (l1_listen l s a),
     l1_close = \<lambda>(s, cs) nd. map_option (\<lambda>(r, s1). (r, (s1, cs))) (l1_close l s nd),
     l1_silence_init = \<lambda>(s, cs). map_option (\<lambda>(r, s1). (r, (s1, cs))) (l1_silence_init l s)\<rparr>"

definition noting :: "'s mb_master \<Rightarrow> layer_call list \<Rightarrow> ('s \<times> layer_call list) mb_master" where
  "noting m cs = \<lparr>query_buffer = query_buffer m, next_id = next_id m, lower = (lower m, cs)\<rparr>"

text \<open>The calls of some tries: each writes the query with the id after that of the try before, and waits for the
  answer with the same id if the writing has succeeded.\<close>

fun calls_of_tries :: "u8 list \<Rightarrow> u16 \<Rightarrow> bool list \<Rightarrow> layer_call list" where
  "calls_of_tries q tid [] = []"
| "calls_of_tries q tid (written # ws) = Wrote q tid # (if written then [Awaited tid] else []) @ calls_of_tries q (tid + 1) ws"

lemma noting_simps [simp]:
  "query_buffer (noting m cs) = query_buffer m" "next_id (noting m cs) = next_id m" "lower (noting m cs) = (lower m, cs)"
  "next_transaction_id (noting m cs) = (next_id m, noting (m\<lparr>next_id := next_id m + 1\<rparr>) cs)"
  "noting m cs\<lparr>query_buffer := b, lower := (s, cs')\<rparr> = noting (m\<lparr>query_buffer := b, lower := s\<rparr>) cs'"
  "noting m cs\<lparr>lower := (s, cs')\<rparr> = noting (m\<lparr>lower := s\<rparr>) cs'"
  by (simp_all add: noting_def next_transaction_id_def)

lemma recording_simps [simp]:
  "l1_write (recording l) (s, cs) nd p n tid = map_option (\<lambda>(r, p1, s1). (r, p1, (s1, cs @ [Wrote (take n p) tid]))) (l1_write l s nd p n tid)"
  "l1_read (recording l) (s, cs) nd tid q = map_option (\<lambda>(r, nd1, d, tid1, s1). (r, nd1, d, tid1, (s1, cs @ [Awaited tid]))) (l1_read l s nd tid q)"
  by (simp_all add: recording_def)

context modbus_layer1 begin

lemma tries_calls:
  assumes "ok (lower m)" "query_buffer m = Some p"
    and "transaction_tries l k n nd e err m = Some (r, d, err', m')"
  shows "\<exists>ws. length ws \<le> k \<and> (0 < k \<longrightarrow> ws \<noteq> []) \<and> next_id m' = next_id m + of_nat (length ws) \<and> (0 \<le> r \<and> e < 0 \<longrightarrow> ws \<noteq> [] \<and> last ws) \<and>
    transaction_tries (recording l) k n nd e err (noting m cs) = Some (r, d, err', noting m' (cs @ calls_of_tries (take n p) (next_id m) ws))"
  using assms
proof (induction k arbitrary: m p nd e cs)
  case 0
  then show ?case by (auto intro!: exI [of _ "[]"])
next
  case (Suc k)
  let ?m1 = "m\<lparr>next_id := next_id m + 1\<rparr>"
  obtain res p1 s1 where w: "l1_write l (lower m) nd p n (next_id m) = Some (res, p1, s1)"
    using Suc.prems(2,3) by (auto simp: next_transaction_id_def split: option.splits)
  have k1: "ok s1" "take n p1 = take n p" using write_keeps [OF Suc.prems(1) w] by auto
  let ?m2 = "?m1\<lparr>query_buffer := Some p1, lower := s1\<rparr>"
  have again: ?case if h: "ok (lower m3)" "query_buffer m3 = Some p1" "next_id m3 = next_id m + 1" "e' < 0"
      "transaction_tries l k n nd' e' err m3 = Some (r, d, err', m')"
      "transaction_tries (recording l) (Suc k) n nd e err (noting m cs) =
        transaction_tries (recording l) k n nd' e' err (noting m3 (cs @ Wrote (take n p) (next_id m) # (if b then [Awaited (next_id m)] else [])))"
    for m3 nd' e' b
  proof -
    let ?cs = "cs @ Wrote (take n p) (next_id m) # (if b then [Awaited (next_id m)] else [])"
    obtain ws where ws: "length ws \<le> k" "next_id m' = next_id m + 1 + of_nat (length ws)" "0 \<le> r \<Longrightarrow> ws \<noteq> [] \<and> last ws"
        "transaction_tries (recording l) k n nd' e' err (noting m3 ?cs) =
          Some (r, d, err', noting m' (?cs @ calls_of_tries (take n p) (next_id m + 1) ws))"
      using Suc.IH [OF h(1,2,5), of ?cs] h(3,4) k1(2) by auto
    show ?thesis using ws h(6) by (intro exI [of _ "b # ws"]) auto
  qed
  show ?case
  proof (cases "res < 0")
    case True
    then have "transaction_tries l k n nd PORT_FAILURE err ?m2 = Some (r, d, err', m')"
      using Suc.prems(2,3) w by (simp add: next_transaction_id_def Let_def)
    then show ?thesis using again [of ?m2 PORT_FAILURE nd False] k1(1) Suc.prems(2) w True by (simp add: PORT_FAILURE_def)
  next
    case False
    obtain len nd1 data tid1 s2 where rd: "l1_read l s1 nd (next_id m) (take n p1) = Some (len, nd1, data, tid1, s2)"
      using Suc.prems(2,3) w False by (auto simp: next_transaction_id_def Let_def split: option.splits)
    have k2: "ok s2" using read_gives [OF k1(1) rd] by auto
    let ?m3 = "?m2\<lparr>lower := s2\<rparr>" and ?cs = "cs @ [Wrote (take n p) (next_id m), Awaited (next_id m)]"
    have r: "(if len = -2 then Some (TIMEOUT, data, err, ?m3)
         else if len < 0 then transaction_tries l k n nd1 PORT_FAILURE err ?m3
         else if len < 3 then Some (INTERNAL_ERROR, data, err, ?m3)
         else (case judge_response p1 data (next_id m) tid1 len err of
                 None \<Rightarrow> None
               | Some (Inl error1) \<Rightarrow> transaction_tries l k n nd1 error1 err ?m3
               | Some (Inr (r, err1)) \<Rightarrow> Some (r, data, err1, ?m3))) = Some (r, d, err', m')"
      using Suc.prems(2,3) w False rd by (simp add: next_transaction_id_def Let_def cong: option.case_cong sum.case_cong if_cong)
    have q: "transaction_tries (recording l) (Suc k) n nd e err (noting m cs) = (if len = -2 then Some (TIMEOUT, data, err, noting ?m3 ?cs)
         else if len < 0 then transaction_tries (recording l) k n nd1 PORT_FAILURE err (noting ?m3 ?cs)
         else if len < 3 then Some (INTERNAL_ERROR, data, err, noting ?m3 ?cs)
         else (case judge_response p1 data (next_id m) tid1 len err of
                 None \<Rightarrow> None
               | Some (Inl error1) \<Rightarrow> transaction_tries (recording l) k n nd1 error1 err (noting ?m3 ?cs)
               | Some (Inr (r, err1)) \<Rightarrow> Some (r, data, err1, noting ?m3 ?cs)))"
      using Suc.prems(2) w False rd by (simp add: Let_def cong: option.case_cong sum.case_cong if_cong)
    have once: ?thesis if "m' = ?m3" "transaction_tries (recording l) (Suc k) n nd e err (noting m cs) = Some (r, d, err', noting ?m3 ?cs)"
      using that by (intro exI [of _ "[True]"]) simp
    show ?thesis
    proof (cases "len < 3")
      case True
      then consider "len = -2" | "len \<noteq> -2" "len < 0" | "0 \<le> len" by linarith
      then show ?thesis
      proof cases
        case 2
        then show ?thesis using again [of ?m3 PORT_FAILURE nd1 True] r k2 q by (simp add: PORT_FAILURE_def)
      qed (use True r q once in auto)
    next
      case False
      show ?thesis
      proof (cases "judge_response p1 data (next_id m) tid1 len err")
        case None then show ?thesis using r False by simp
      next
        case (Some z)
        show ?thesis
        proof (cases z)
          case (Inl e1)
          then have "e1 = -3" using Some by (auto simp: judge_response_def INVALID_FRAME_def split: if_splits bind_splits)
          then show ?thesis using again [of ?m3 e1 nd1 True] r False Some Inl k2 q by simp
        next
          case (Inr v)
          then show ?thesis using r q False Some once by (cases v) simp
        qed
      qed
    qed
  qed
qed

lemma transaction_calls:
  assumes "ok (lower m)" "query_buffer m = Some p"
    and "mb_transaction l n nd retries err m = Some (r, d, err', m')"
  shows "\<exists>ws. length ws \<le> nat (retries + 1) \<and> (0 \<le> retries \<longrightarrow> ws \<noteq> []) \<and> next_id m' = next_id m + of_nat (length ws) \<and>
    (0 \<le> r \<longrightarrow> ws \<noteq> [] \<and> last ws) \<and>
    mb_transaction (recording l) n nd retries err (noting m []) = Some (r, d, err', noting m' (calls_of_tries (take n p) (next_id m) ws))"
proof -
  have k: "retries \<noteq> int MB_INT_MAX" and t: "transaction_tries l (nat (retries + 1)) n nd INTERNAL_ERROR err m = Some (r, d, err', m')"
    using assms(3) by (simp_all add: mb_transaction_def split: if_splits)
  show ?thesis using tries_calls [OF assms(1,2) t, of "[]"] k by (auto simp: mb_transaction_def INTERNAL_ERROR_def)
qed

end

section \<open>An answer at the first try\<close>

text \<open>The layer below takes the query and answers with a frame; what is behind the frame in its memory is
  not known.\<close>

definition layer_answers :: "('s, 'a) layer1 \<Rightarrow> 's \<Rightarrow> int \<Rightarrow> u8 list \<Rightarrow> nat \<Rightarrow> u16 \<Rightarrow> u8 list \<Rightarrow> u8 list \<Rightarrow> 's \<Rightarrow> bool" where
  "layer_answers l s nd p n tid reply p1 s2 \<longleftrightarrow>
     take n p1 = take n p \<and>
     (\<exists>w s1 nd1 rest. l1_write l s nd p n tid = Some (w, p1, s1) \<and> 0 \<le> w \<and>
        l1_read l s1 nd tid (take n p1) = Some (int (length reply), nd1, reply @ rest, tid, s2))"

lemma answered_transaction:
  assumes "query_buffer m = Some p" "2 \<le> n" "n \<le> length p" "0 \<le> retries" "retries \<noteq> int MB_INT_MAX"
    and "layer_answers l (lower m) nd p n (next_id m) reply p1 s2" "3 \<le> length reply" "reply ! 1 = p ! 1" "p ! 1 AND 0x80 = 0"
  shows "\<exists>rest. mb_transaction l n nd retries err m =
    Some (int (length reply), reply @ rest, err, m\<lparr>query_buffer := Some p1, next_id := next_id m + 1, lower := s2\<rparr>)"
proof -
  obtain w s1 nd1 rest where a: "l1_write l (lower m) nd p n (next_id m) = Some (w, p1, s1)" "0 \<le> w"
      "l1_read l s1 nd (next_id m) (take n p1) = Some (int (length reply), nd1, reply @ rest, next_id m, s2)"
      "take n p1 = take n p"
    using assms(6) by (auto simp: layer_answers_def)
  have "length (take n p1) = n" unfolding a(4) using assms(3) by simp
  then have n: "n \<le> length p1" by simp
  have "take n p1 ! 1 = take n p ! 1" unfolding a(4) ..
  then have p1: "1 < length p1" "p1 ! 1 = p ! 1" using assms(2) n by simp_all
  have "p ! 1 AND 0x7F = p ! 1"
  proof -
    have "(0x7F OR 0x80 :: u8) = -1" by simp
    then have "p ! 1 = p ! 1 AND (0x7F OR 0x80)" by (simp only: and.right_neutral)
    then show ?thesis using assms(9) by (simp only: bit.conj_disj_distrib) simp
  qed
  then have j: "judge_response p1 (reply @ rest) (next_id m) (next_id m) (int (length reply)) err = Some (Inr (int (length reply), err))"
    using p1 assms(7-9) by (simp add: judge_response_def get_at_def nth_append)
  obtain k where k: "nat (retries + 1) = Suc k" using assms(4) by (metis Suc_eq_plus1 nat_int_add nonneg_int_cases of_nat_1)
  show ?thesis using assms(1,5,7) a(1-3) j
    by (intro exI [of _ rest]) (simp add: mb_transaction_def k next_transaction_id_def Let_def)
qed

text \<open>The frame of a query, and the master after its transaction.\<close>

definition query_frame :: "u8 \<Rightarrow> u8 \<Rightarrow> u16 \<Rightarrow> u16 \<Rightarrow> u8 list" where
  "query_frame slave func start count = [slave, func] @ be16 (start - 1) @ be16 count"

lemma length_query_frame [simp]: "length (query_frame slave func start count) = 6"
  by (simp add: query_frame_def be16_def)

lemma query_frame_1 [simp]: "(query_frame slave func start count @ xs) ! Suc 0 = func"
  by (simp add: query_frame_def)

lemma answered_query:
  assumes "query_buffer m = Some p" "6 \<le> length p" "0 \<le> retries" "retries \<noteq> int MB_INT_MAX"
    and "layer_answers l (lower m) nd (query_frame slave func start count @ drop 6 p) 6 (next_id m) reply p1 s2"
    and "3 \<le> length reply" "reply ! 1 = func" "func AND 0x80 = 0"
  shows "\<exists>rest. query_transaction l func slave start count nd retries err m =
    Some (int (length reply), reply @ rest, err, m\<lparr>query_buffer := Some p1, next_id := next_id m + 1, lower := s2\<rparr>)"
proof -
  let ?m1 = "m\<lparr>query_buffer := Some (query_frame slave func start count @ drop 6 p)\<rparr>"
  have "query_transaction l func slave start count nd retries err m = mb_transaction l 6 nd retries err ?m1"
    using assms(1,2) build_query_packet_eq [OF assms(2), of slave func start count]
    by (simp add: query_transaction_def query_frame_def)
  moreover have "\<exists>rest. mb_transaction l 6 nd retries err ?m1 =
      Some (int (length reply), reply @ rest, err, ?m1\<lparr>query_buffer := Some p1, next_id := next_id ?m1 + 1, lower := s2\<rparr>)"
    using assms by (intro answered_transaction) auto
  ultimately show ?thesis by simp
qed

section \<open>Answers to the reading functions\<close>

definition regs_reply :: "u8 \<Rightarrow> u8 \<Rightarrow> u16 list \<Rightarrow> u8 list" where
  "regs_reply slave func ws = [slave, func, of_nat (2 * length ws)] @ reg_bytes ws"

definition bits_reply :: "u8 \<Rightarrow> u8 \<Rightarrow> bool list \<Rightarrow> u8 list" where
  "bits_reply slave func bs = [slave, func, of_nat ((length bs + 7) div 8)] @ coil_bytes bs"

lemma reply_simps [simp]:
  "length (regs_reply slave func ws) = 3 + 2 * length ws" "regs_reply slave func ws ! Suc 0 = func"
  "length (bits_reply slave func bs) = 3 + (length bs + 7) div 8" "bits_reply slave func bs ! Suc 0 = func"
  "(regs_reply slave func ws @ xs) ! 2 = of_nat (2 * length ws)" "(bits_reply slave func bs @ xs) ! 2 = of_nat ((length bs + 7) div 8)"
  by (simp_all add: regs_reply_def bits_reply_def length_coil_bytes)

lemma of_nat_u8: "k < 256 \<Longrightarrow> uint (of_nat k :: u8) = int k" "k < 256 \<Longrightarrow> unat (of_nat k :: u8) = k"
  by (simp_all add: unsigned_of_nat take_bit_nat_eq_self_iff)

lemma regs_reply_regs: "n \<le> length ws \<Longrightarrow> map (reg_of (regs_reply slave func ws @ xs)) [0..<n] = take n ws"
  using reg_of_reg_bytes [of "[slave, func, of_nat (2 * length ws)]" _ ws xs]
  by (intro nth_equalityI) (simp_all add: regs_reply_def)

lemma registers_answered:
  assumes "query_transaction l func slave start count nd retries err m = Some (int (length (regs_reply sid func ws)), regs_reply sid func ws @ rest, err, m')"
    and "length ws = unat count" "length ws \<le> 127"
  shows "nat dest_size \<le> length ws \<Longrightarrow> nat dest_size \<le> length dest \<Longrightarrow>
      read_registers l func slave start count dest dest_size nd retries err m =
        Some (3 + 2 * int (length ws), take (nat dest_size) ws @ drop (nat dest_size) dest, err, m')"
    and "(length ws + 1) div 2 \<le> length dest' \<Longrightarrow>
      read_registers_u32 l func slave start count dest' nd retries err m =
        Some (3 + 2 * int (length ws), map word_of_regs (chunks 2 ws) @ drop ((length ws + 1) div 2) dest', err, m')"
proof -
  let ?data = "regs_reply sid func ws @ rest"
  have u: "uint count = int (length ws)" using assms(2) by simp
  have d2: "get_at ?data 2 = Some (of_nat (2 * length ws))" by (simp add: get_at_def)
  note o = of_nat_u8 [of "2 * length ws"]
  have len: "3 + 2 * length ws \<le> length ?data" by simp
  show "read_registers l func slave start count dest dest_size nd retries err m =
      Some (3 + 2 * int (length ws), take (nat dest_size) ws @ drop (nat dest_size) dest, err, m')"
    if "nat dest_size \<le> length ws" "nat dest_size \<le> length dest"
  proof -
    have "min (2 * length ws * 2) (nat dest_size) = nat dest_size" using that(1) by simp
    moreover have "word_loop ?data [0..<nat dest_size] dest = Some (take (nat dest_size) ws @ drop (nat dest_size) dest)"
      using word_loop_eq [of "nat dest_size" ?data dest 0] that regs_reply_regs [OF that(1), of sid func rest] by simp
    ultimately show ?thesis using assms(1,3) u d2 o by (simp add: read_registers_def)
  qed
  show "read_registers_u32 l func slave start count dest' nd retries err m =
      Some (3 + 2 * int (length ws), map word_of_regs (chunks 2 ws) @ drop ((length ws + 1) div 2) dest', err, m')"
    if "(length ws + 1) div 2 \<le> length dest'"
  proof -
    have "unat (of_nat (2 * length ws) :: u8) = 2 * length ws" using o(2) assms(3) by simp
    moreover have "do { (i', p', dest1) \<leftarrow> word_groups ?data (2 * length ws) 0 0 dest';
        if i' + 1 < 2 * length ws then do { lo \<leftarrow> get_u16 ?data (3 + i'); put_at dest1 p' (ucast lo) } else Some dest1 } =
        Some (map word_of_regs (chunks 2 ws) @ drop ((length ws + 1) div 2) dest')"
      using word_loops_eq [of "length ws" ?data 0 0 dest'] that regs_reply_regs [of "length ws" ws sid func rest] by simp
    then obtain i' p' dest1 where "word_groups ?data (2 * length ws) 0 0 dest' = Some (i', p', dest1)"
        "(if i' + 1 < 2 * length ws then do { lo \<leftarrow> get_u16 ?data (3 + i'); put_at dest1 p' (ucast lo) } else Some dest1) =
          Some (map word_of_regs (chunks 2 ws) @ drop ((length ws + 1) div 2) dest')"
      by (auto split: bind_splits)
    ultimately show ?thesis using assms(1,3) u d2 o by (simp add: read_registers_u32_def)
  qed
qed

lemma status_of_reply:
  assumes "j < length bs"
  shows "status_of (bits_reply slave func bs @ xs) j = of_bool (bs ! j)"
proof -
  have j: "j div 8 < length (coil_bytes bs)" using assms by (simp add: length_coil_bytes)
  have "(bits_reply slave func bs @ xs) ! (3 + j div 8) = coil_bytes bs ! (j div 8)"
    using j by (simp add: bits_reply_def nth_append)
  then show ?thesis using coil_bytes_nth [OF j, of "j mod 8"] assms by (simp add: status_of_def)
qed

lemma status_bytes_overflow:
  assumes "3 + n \<le> length data" "i \<le> n" "min count (8 * i) \<le> length dest" "length dest < min count (8 * n)"
  shows "status_bytes data count [i..<n] (min count (8 * i)) dest = None"
  using assms(2-4)
proof (induction "n - i" arbitrary: i dest)
  case 0
  then show ?case by auto
next
  case (Suc k)
  then have i: "i < n" "[i..<n] = i # [Suc i..<n]" by (simp_all add: upt_conv_Cons)
  show ?case
  proof (cases "min count (8 * Suc i) \<le> length dest")
    case True
    define a where "a = min count (8 * i)"
    define a' where "a' = min count (8 * Suc i)"
    define c where "c = min 8 (count - a)"
    have m: "a + c = a'" by (auto simp: a_def a'_def c_def)
    have al: "a' \<le> length dest" "a \<le> length dest" using True m by (simp_all add: a'_def)
    have ml: "c \<le> length (drop a dest)" "length (take a dest) = a" using m al by simp_all
    have "status_bits (data ! (3 + i)) count 8 a dest =
        Some (a', take a dest @ map (\<lambda>j. of_bool (bit (data ! (3 + i)) (8 - 8 + j))) [0..<c] @ drop c (drop a dest))"
      using status_bits_eq [of 8 "take a dest" a count "drop a dest" "data ! (3 + i)"] ml m
      unfolding c_def [symmetric] Let_def by simp
    moreover have "length (take a dest @ map (\<lambda>j. of_bool (bit (data ! (3 + i)) (8 - 8 + j)) :: int) [0..<c] @ drop c (drop a dest)) = length dest"
      using ml m al by simp
    ultimately obtain d where d: "status_bits (data ! (3 + i)) count 8 (min count (8 * i)) dest = Some (min count (8 * Suc i), d)" "length d = length dest"
      unfolding a_def a'_def by blast
    have "k = n - Suc i" "Suc i \<le> n" "min count (8 * Suc i) \<le> length d" "length d < min count (8 * n)"
      using Suc.hyps(2) i(1) True Suc.prems(3) d(2) by (simp_all del: mult_Suc_right)
    then have "status_bytes data count [Suc i..<n] (min count (8 * Suc i)) d = None" by (rule Suc.hyps(1))
    then show ?thesis using d(1) i assms(1) by simp
  next
    case False
    then have "status_bits (data ! (3 + i)) count 8 (min count (8 * i)) dest = None"
      using Suc.prems(2) by (intro status_bits_overflow) auto
    then show ?thesis using i assms(1) by simp
  qed
qed

lemma bits_answered:
  assumes "query_transaction l func slave start count nd retries err m = Some (int (length (bits_reply sid func bs)), bits_reply sid func bs @ rest, err, m')"
    and "length bs = unat count" "length bs \<le> 2040" "k = min (length bs) (8 * nat dest_size)"
  shows "k \<le> length dest \<Longrightarrow> read_IO_status l func slave start count dest dest_size nd retries err m =
        Some (3 + (int (length bs) + 7) div 8, map of_bool (take k bs) @ drop k dest, err, m')"
    and "length dest < k \<Longrightarrow> read_IO_status l func slave start count dest dest_size nd retries err m = None"
    and "(length bs + 31) div 32 \<le> length dest' \<Longrightarrow> read_IO_status_u32 l func slave start count dest' nd retries err m =
        Some (3 + (int (length bs) + 7) div 8, map word_of_bits (chunks 32 bs) @ drop ((length bs + 31) div 32) dest', err, m')"
proof -
  let ?data = "bits_reply sid func bs @ rest" and ?n = "(length bs + 7) div 8"
  have u: "uint count = int (length bs)" using assms(2) by simp
  have n: "?n < 256" using assms(3) by linarith
  have i8: "(int (length bs) + 7) div 8 = int ?n" by (simp add: zdiv_int)
  have cu: "(uint count + 7) div 8 = int ?n" unfolding u by (rule i8)
  have d2: "get_at ?data 2 = Some (of_nat ?n)" by (simp add: get_at_def)
  note o = of_nat_u8 [OF n]
  define N where "N = min ?n (nat dest_size)"
  have mN: "min (length bs) (8 * N) = k" unfolding N_def assms(4) by auto
  have lenN: "3 + N \<le> length ?data" unfolding N_def by simp
  have r: "read_IO_status l func slave start count dest dest_size nd retries err m =
      map_option (\<lambda>d. (3 + int ?n, d, err, m')) (status_bytes ?data (length bs) [0..<N] 0 dest)"
    unfolding N_def read_IO_status_def assms(1) bind.bind_lunit prod.case cu
    by (simp add: d2 o cu assms(2) [symmetric] map_conv_bind_option comp_def)
  show "read_IO_status l func slave start count dest dest_size nd retries err m =
      Some (3 + (int (length bs) + 7) div 8, map of_bool (take k bs) @ drop k dest, err, m')" if "k \<le> length dest"
  proof -
    have "status_bytes ?data (length bs) [0..<N] 0 dest = Some (map (status_of ?data) [0..<k] @ drop k dest)"
      using status_bytes_eq [OF lenN, of 0 "length bs" dest] that by (simp add: mN Let_def)
    moreover have "map (status_of ?data) [0..<k] = map of_bool (take k bs)"
      using assms(4) by (intro nth_equalityI) (simp_all add: status_of_reply)
    ultimately show ?thesis unfolding r i8 by simp
  qed
  show "read_IO_status l func slave start count dest dest_size nd retries err m = None" if "length dest < k"
    using status_bytes_overflow [OF lenN, of 0 "length bs" dest] that unfolding r by (simp add: mN)
  show "read_IO_status_u32 l func slave start count dest' nd retries err m =
      Some (3 + (int (length bs) + 7) div 8, map word_of_bits (chunks 32 bs) @ drop ((length bs + 31) div 32) dest', err, m')"
    if "(length bs + 31) div 32 \<le> length dest'"
  proof -
    have q: "(?n + 3) div 4 = (length bs + 31) div 32" by linarith
    have "take ?n (drop 3 ?data) = coil_bytes bs" by (simp add: bits_reply_def length_coil_bytes)
    then have "do { (i', p', dest1) \<leftarrow> u32_groups ?data ?n 0 0 dest';
         dest2 \<leftarrow> (if i' < ?n then put_at dest1 p' 0 else Some dest1); u32_rest ?data i' (?n - i') p' dest2 } =
        Some (map word_of_bits (chunks 32 bs) @ drop ((length bs + 31) div 32) dest')"
      using u32_loops_eq [of ?n ?data 0 0 dest'] that q by (simp add: words_of_coil_bytes length_coil_bytes)
    then obtain i' p' dest1 dest2 where "u32_groups ?data ?n 0 0 dest' = Some (i', p', dest1)"
        "(if i' < ?n then put_at dest1 p' 0 else Some dest1) = Some dest2"
        "u32_rest ?data i' (?n - i') p' dest2 = Some (map word_of_bits (chunks 32 bs) @ drop ((length bs + 31) div 32) dest')"
      by (auto split: bind_splits)
    then show ?thesis unfolding read_IO_status_u32_def assms(1) bind.bind_lunit prod.case cu i8
      by (simp add: d2 o)
  qed
qed

section \<open>The queries of the writing functions\<close>

lemma bits_request:
  assumes "query_buffer m = Some p" "unat count \<le> 800" "b = (unat count + 7) div 8" "7 + b \<le> length p" "unat count \<le> length data"
  shows "write_output_bits l slave start count data nd retries err m =
    write_transaction l (7 + b) nd retries err
      (m\<lparr>query_buffer := Some (query_frame slave 0x0F start count @ [of_nat b] @ coil_bytes (bits_of data (unat count)) @ drop (7 + b) p)\<rparr>)"
proof -
  have c: "\<not> count > MAX_WRITE_COILS" using assms(2) by (simp add: MAX_WRITE_COILS_def word_less_nat_alt)
  obtain x r where x: "drop 6 p = x # r" using assms(4) by (cases "drop 6 p") auto
  then have "drop 1 (drop 6 p) = r" by (simp only: drop_Suc_Cons One_nat_def drop0)
  then have r: "r = drop 7 p" by simp
  have q: "build_query_packet slave 0x0F start count p = Some (6, query_frame slave 0x0F start count @ x # r)"
    using build_query_packet_eq [of p slave "0x0F" start count] assms(4) x by (simp add: query_frame_def)
  have p1: "put_at (query_frame slave 0x0F start count @ x # r) 6 v = Some (query_frame slave 0x0F start count @ v # r)" for v
    by (rule put_at_mid) simp
  have p2: "pack_bytes data (unat count) 0 b 6 (query_frame slave 0x0F start count @ v # r) =
      Some (6 + b, query_frame slave 0x0F start count @ v # coil_bytes (bits_of data (unat count)) @ drop b r)" for v
    using pack_bytes_eq [of "unat count" data 0 b r "query_frame slave 0x0F start count @ [v]" 6] assms r by simp
  show ?thesis unfolding write_output_bits_def
    using assms(1,3) c q p1 p2 r by (simp add: Let_def add.commute)
qed

lemma bits_u32_request:
  assumes "query_buffer m = Some p" "unat count \<le> 800" "b = (unat count + 7) div 8" "7 + b \<le> length p" "unat count \<le> 32 * length ws"
    and "\<forall>j. unat count \<le> j \<and> j < 8 * b \<longrightarrow> \<not> bits_of_words ws ! j"
  shows "\<exists>ws'. write_output_bits_u32 l slave start count ws nd retries err m =
    map_option (\<lambda>(r, err, m). (r, ws', err, m)) (write_transaction l (7 + b) nd retries err
      (m\<lparr>query_buffer := Some (query_frame slave 0x0F start count @ [of_nat b] @ coil_bytes (take (unat count) (bits_of_words ws)) @ drop (7 + b) p)\<rparr>))"
proof -
  have c: "\<not> count > MAX_WRITE_COILS" using assms(2) by (simp add: MAX_WRITE_COILS_def word_less_nat_alt)
  obtain x r where x: "drop 6 p = x # r" using assms(4) by (cases "drop 6 p") auto
  then have "drop 1 (drop 6 p) = r" by (simp only: drop_Suc_Cons One_nat_def drop0)
  then have r: "r = drop 7 p" by simp
  have q: "build_query_packet slave 0x0F start count p = Some (6, query_frame slave 0x0F start count @ x # r)"
    using build_query_packet_eq [of p slave "0x0F" start count] assms(4) x by (simp add: query_frame_def)
  have p1: "put_at (query_frame slave 0x0F start count @ x # r) 6 v = Some (query_frame slave 0x0F start count @ v # r)" for v
    by (rule put_at_mid) simp
  have b: "b \<le> 4 * length ws" using assms(3,5) by linarith
  obtain ws' where "do { (data1, i', g', q1, p1) \<leftarrow> byte_groups ws b 0 0 6 ((query_frame slave 0x0F start count @ [of_nat b]) @ r);
        byte_rest data1 (b - i') g' q1 p1 } =
      Some (ws', 6 + b, (query_frame slave 0x0F start count @ [of_nat b]) @ take b (concat (map bytes_of_word ws)) @ drop b r)"
  proof -
    have "b - 0 \<le> 4 * (length ws - 0)" "b - 0 \<le> length r" "length (query_frame slave 0x0F start count @ [of_nat b]) = 6 + 1" "0 \<le> b"
      using b assms(4) r by auto
    then show ?thesis using byte_loops_eq [of b 0 ws 0 r "query_frame slave 0x0F start count @ [of_nat b]" 6] that
      unfolding drop0 diff_zero by blast
  qed
  then obtain data1 i' g' q1 pk where g: "byte_groups ws b 0 0 6 (query_frame slave 0x0F start count @ of_nat b # r) = Some (data1, i', g', q1, pk)"
      "byte_rest data1 (b - i') g' q1 pk =
        Some (ws', 6 + b, query_frame slave 0x0F start count @ of_nat b # coil_bytes (take (unat count) (bits_of_words ws)) @ drop b r)"
    using coil_bytes_of_words [of "unat count" ws] assms(3,5,6) by (auto split: bind_splits)
  show ?thesis unfolding write_output_bits_u32_def
    using assms(1,3) c q p1 g r
    by (intro exI [of _ ws']) (simp add: Let_def add.commute map_option_case case_prod_beta' split: option.splits bind_splits)
qed

definition regs_of_words :: "u32 list \<Rightarrow> u16 list" where
  "regs_of_words ws = concat (map (\<lambda>w. [ucast w, ucast (drop_bit 16 w)]) ws)"

lemma words_packet:
  assumes "query_buffer m = Some p" "unat count \<le> 100" "7 + 2 * unat count \<le> length p"
  shows "\<not> count > MAX_WRITE_REGS" "unat (ucast (count * 2) :: u8) = 2 * unat count"
    "(ucast (count * 2) :: u8) = of_nat (2 * unat count)"
    "\<exists>x. build_query_packet slave 0x10 start count p = Some (6, query_frame slave 0x10 start count @ x # drop 7 p)"
    "put_at (query_frame slave 0x10 start count @ x # drop 7 p) 6 v = Some (query_frame slave 0x10 start count @ v # drop 7 p)"
proof -
  show "\<not> count > MAX_WRITE_REGS" using assms(2) by (simp add: MAX_WRITE_REGS_def word_less_nat_alt)
  have "unat (count * 2) = 2 * unat count" using assms(2) by (simp add: unat_word_ariths)
  then show u: "unat (ucast (count * 2) :: u8) = 2 * unat count"
    using assms(2) by (simp add: unsigned_ucast_eq take_bit_nat_eq_self_iff)
  then have "of_nat (unat (ucast (count * 2) :: u8)) = (of_nat (2 * unat count) :: u8)" by (simp only:)
  then show "(ucast (count * 2) :: u8) = of_nat (2 * unat count)" by simp
  obtain y r where y: "drop 6 p = y # r" using assms(3) by (cases "drop 6 p") auto
  then have "drop 1 (drop 6 p) = r" by (simp only: drop_Suc_Cons One_nat_def drop0)
  then have "r = drop 7 p" by simp
  then show "\<exists>x. build_query_packet slave 0x10 start count p = Some (6, query_frame slave 0x10 start count @ x # drop 7 p)"
    using build_query_packet_eq [of p slave "0x10" start count] assms(3) y by (simp add: query_frame_def)
  show "put_at (query_frame slave 0x10 start count @ x # drop 7 p) 6 v = Some (query_frame slave 0x10 start count @ v # drop 7 p)"
    by (rule put_at_mid) simp
qed

lemma words_request:
  assumes "query_buffer m = Some p" "unat count \<le> 100" "7 + 2 * unat count \<le> length p" "unat count \<le> length ws"
  shows "write_output_words l slave start count ws nd retries err m =
    write_transaction l (7 + 2 * unat count) nd retries err
      (m\<lparr>query_buffer := Some (query_frame slave 0x10 start count @ [of_nat (2 * unat count)] @ reg_bytes (take (unat count) ws) @
         drop (7 + 2 * unat count) p)\<rparr>)"
proof -
  note w = words_packet [OF assms(1-3)]
  obtain x where q: "build_query_packet slave 0x10 start count p = Some (6, query_frame slave 0x10 start count @ x # drop 7 p)"
    using w(4) by blast
  have "map ((!) ws) [0..<unat count] = take (unat count) ws" using assms(4) by (intro nth_equalityI) simp_all
  then have "put_words ws [0..<unat count] 6 (query_frame slave 0x10 start count @ v # drop 7 p) =
      Some (6 + 2 * unat count, query_frame slave 0x10 start count @ v # reg_bytes (take (unat count) ws) @ drop (7 + 2 * unat count) p)" for v
    using put_words_eq [of "[0..<unat count]" ws "drop 7 p" "query_frame slave 0x10 start count @ [v]" 6] assms(3,4)
    by (simp add: subset_eq add.commute)
  then show ?thesis unfolding write_output_words_def using assms(1) w(1,3,5) q by (simp add: Let_def add.commute)
qed

lemma put_u16_mid: "i = length pre \<Longrightarrow> 2 \<le> length r \<Longrightarrow> put_u16 (pre @ r) i v = Some ((pre @ be16 v) @ drop 2 r)"
  by (cases r; cases "tl r") (simp_all add: put_u16_def put_at_def be16_def nth_append list_update_append)

text \<open>Up to two registers, the whole of one word, are sent as they should be; with more of them, the third is
  taken from the fifth word.\<close>

lemma words_u32_request:
  assumes "query_buffer m = Some p" "unat count \<le> 2" "7 + 2 * unat count \<le> length p"
  shows "write_output_words_u32 l slave start count (w # ws) nd retries err m =
    write_transaction l (7 + 2 * unat count) nd retries err
      (m\<lparr>query_buffer := Some (query_frame slave 0x10 start count @ [of_nat (2 * unat count)] @
         reg_bytes (take (unat count) (regs_of_words [w])) @ drop (7 + 2 * unat count) p)\<rparr>)"
proof -
  have c100: "unat count \<le> 100" using assms(2) by simp
  note wp = words_packet [OF assms(1) c100 assms(3)]
  obtain x where q: "build_query_packet slave 0x10 start count p = Some (6, query_frame slave 0x10 start count @ x # drop 7 p)"
    using wp(4) by blast
  let ?h = "query_frame slave 0x10 start count"
  have p1: "put_u16 (?h @ v # drop 7 p) 7 u = Some ((?h @ v # be16 u) @ drop 9 p)" if "0 < unat count" for u v
    using put_u16_mid [of 7 "?h @ [v]" "drop 7 p" u] that assms(3) by simp
  have p2: "put_u16 (?h @ v # be16 u @ drop 9 p) 9 u' = Some ((?h @ v # be16 u @ be16 u') @ drop 11 p)" if "unat count = 2" for u u' v
    using put_u16_mid [of 9 "?h @ v # be16 u" "drop 9 p" u'] that assms(3) by (simp add: be16_def)
  consider "unat count = 0" | "unat count = 1" | "unat count = 2" using assms(2) by linarith
  then show ?thesis
  proof cases
    case 1
    then show ?thesis unfolding write_output_words_u32_def using assms(1) wp(1,2,3,5) q
      by (simp add: Let_def put_word_groups.simps reg_bytes_def)
  next
    case 2
    show ?thesis unfolding write_output_words_u32_def using assms(1) wp(1,2,3,5) q 2 p1
      by (simp add: Let_def put_word_groups.simps reg_bytes_def regs_of_words_def)
  next
    case 3
    show ?thesis unfolding write_output_words_u32_def using assms(1) wp(1,2,3,5) q 3 p1 p2
      by (simp add: Let_def put_word_groups.simps reg_bytes_def regs_of_words_def)
  qed
qed

lemma words_u32_overrun:
  assumes "query_buffer m = Some p" "2 < unat count" "unat count \<le> 100" "7 + 2 * unat count \<le> length p" "length ws \<le> 4"
  shows "write_output_words_u32 l slave start count ws nd retries err m = None"
proof -
  note wp = words_packet [OF assms(1,3,4)]
  obtain x where q: "build_query_packet slave 0x10 start count p = Some (6, query_frame slave 0x10 start count @ x # drop 7 p)"
    using wp(4) by blast
  have n: "put_word_groups ws k 4 ql pk = None" if "7 < k" for k ql pk
    using that assms(5) by (subst put_word_groups.simps) (simp add: get_at_def)
  have "get_at ws 4 = None" using assms(5) by (simp add: get_at_def)
  then have "do { (i, q1, packet3) \<leftarrow> put_word_groups ws (2 * unat count) 0 6 pk;
      (q2, packet4) \<leftarrow> (if i + 1 < 2 * unat count
        then do { w \<leftarrow> get_at ws i; p \<leftarrow> put_u16 packet3 (q1 + 1) (ucast w); Some (q1 + 2, p) }
        else Some (q1, packet3));
      f q2 packet4 } = None" for pk f
    using assms(2) n [of "2 * unat count"]
    by (subst put_word_groups.simps, cases "unat count = 3") (auto simp: put_word_groups.simps [of _ 6] split: bind_splits)
  then show ?thesis unfolding write_output_words_u32_def using assms(1) wp(1,2,3,5) q
    by (simp add: Let_def)
qed

text \<open>A query answered by its own first six bytes succeeds, one answered by others does not.\<close>

lemma echoed_write:
  assumes "query_buffer m = Some p" "6 \<le> n" "n \<le> length p" "0 \<le> retries" "retries \<noteq> int MB_INT_MAX"
    and "layer_answers l (lower m) nd p n (next_id m) reply p1 s2" "length reply = 6" "reply ! 1 = p ! 1" "p ! 1 AND 0x80 = 0"
  shows "write_transaction l n nd retries err m =
    Some (if drop 2 reply = take 4 (drop 2 p) then 6 else INVALID_FRAME, err,
      m\<lparr>query_buffer := Some p1, next_id := next_id m + 1, lower := s2\<rparr>)"
proof -
  obtain rest where t: "mb_transaction l n nd retries err m =
      Some (int (length reply), reply @ rest, err, m\<lparr>query_buffer := Some p1, next_id := next_id m + 1, lower := s2\<rparr>)"
    using answered_transaction [of m p n retries l nd reply p1 s2 err] assms by auto
  have tk: "take n p1 = take n p" using assms(6) by (simp add: layer_answers_def)
  have "length (take n p1) = n" unfolding tk using assms(3) by simp
  then have n: "n \<le> length p1" by simp
  have nth: "p1 ! i = p ! i" if "i < n" for i using that tk by (metis nth_take)
  obtain a b c d e f where r: "reply = [a, b, c, d, e, f]" using assms(7)
    by (auto simp: numeral_eq_Suc length_Suc_conv)
  have "take 4 (drop 2 p) = [p ! 2, p ! 3, p ! 4, p ! 5]"
    by (rule nth_equalityI) (use assms(2,3) in \<open>auto simp: less_Suc_eq numeral_eq_Suc\<close>)
  then have "echo_differs (reply @ rest) p1 = Some (drop 2 reply \<noteq> take 4 (drop 2 p))"
    using n assms(2) nth by (simp add: echo_differs_def get_at_def r)
  then show ?thesis using t assms(7) by (simp add: write_transaction_def)
qed

end
