(* ===== verification/ModbusMasterRtu.thy ===== *)
theory ModbusMasterRtu
  imports ModbusLink
begin

unbundle bit_operations_syntax

text \<open>
  The RTU module as the layer below the master (\<^verbatim>\<open>mb_rtu.c\<close> gives its functions the names of
  \<^verbatim>\<open>mb_layer1.h\<close>), and the properties of the master.
\<close>

section \<open>The RTU module as a layer\<close>

text \<open>The library, the line with what it will answer, what was sent, whether the clock fails at the
  next reads, and what opening a device will find.\<close>

record rtu_world =
  rw_lib :: rtu_lib
  rw_line :: rtu_line
  rw_writes :: "write_res list"
  rw_sent :: "u8 list list"
  rw_clock_fails :: "bool list"
  rw_tty :: tty_env
  rw_memory :: "nat \<Rightarrow> nd_entry_t"

text \<open>The caller's memory after a write: the checksum is behind the frame, if it came to that.\<close>

definition rtu_packet :: "rtu_lib \<Rightarrow> int \<Rightarrow> u8 list \<Rightarrow> nat \<Rightarrow> u8 list" where
  "rtu_packet lib nd p n =
     (case nd_table_get_nd lib nd of
        Some (Some e) \<Rightarrow>
          if nd_fd e < 0 then p
          else (case crc_write (crc_calc_fun lib) p n of None \<Rightarrow> p | Some p1 \<Rightarrow> p1)
      | _ \<Rightarrow> p)"

definition rtu_l1_write :: "rtu_world \<Rightarrow> int \<Rightarrow> u8 list \<Rightarrow> nat \<Rightarrow> u16 \<Rightarrow> (int \<times> u8 list \<times> rtu_world) option" where
  "rtu_l1_write w nd p n tid =
     (case modbus_rtu_write (rw_lib w) (rw_line w) (rw_writes w) nd p n of
        None \<Rightarrow> None
      | Some (lib, ln, ws, sent, r) \<Rightarrow>
          Some (r, rtu_packet (rw_lib w) nd p n,
                w\<lparr>rw_lib := lib, rw_line := ln, rw_writes := ws, rw_sent := rw_sent w @ sent\<rparr>))"

text \<open>The transaction id stays as it is.\<close>

definition rtu_l1_read :: "rtu_world \<Rightarrow> int \<Rightarrow> u16 \<Rightarrow> u8 list \<Rightarrow> (int \<times> int \<times> u8 list \<times> u16 \<times> rtu_world) option" where
  "rtu_l1_read w nd tid q =
     (let fails = (case rw_clock_fails w of [] \<Rightarrow> False | b # _ \<Rightarrow> b) in
      case modbus_rtu_read (rw_lib w) (rw_line w) fails nd q of
        None \<Rightarrow> None
      | Some (lib, ln, n, ptr) \<Rightarrow>
          let data = (case (ptr, nd_table_get_nd lib nd) of
                        (Some p, Some (Some e)) \<Rightarrow> drop p (lb_array (data_buf (recv_buf e)))
                      | _ \<Rightarrow> [])
          in Some (n, nd, data, tid, w\<lparr>rw_lib := lib, rw_line := ln, rw_clock_fails := tl (rw_clock_fails w)\<rparr>))"

definition modbus_rtu_silence_init :: int where "modbus_rtu_silence_init = 0"

definition rtu_l1_connect :: "rtu_world \<Rightarrow> node_addr_rtu_t \<Rightarrow> (int \<times> rtu_world) option" where
  "rtu_l1_connect w a = map_option (\<lambda>(lib, r). (r, w\<lparr>rw_lib := lib\<rparr>)) (modbus_rtu_connect (rw_tty w) (rw_lib w) a)"

definition rtu_layer1 :: "(rtu_world, node_addr_rtu_t) layer1" where
  "rtu_layer1 = \<lparr>
     l1_write = rtu_l1_write,
     l1_read = rtu_l1_read,
     l1_init = (\<lambda>w nd_count opt.
       case modbus_rtu_init (rw_memory w) (rw_lib w) nd_count opt of
         (lib, r, extra) \<Rightarrow> Some (r, case extra of None \<Rightarrow> 0 | Some k \<Rightarrow> k, w\<lparr>rw_lib := lib\<rparr>)),
     l1_done = (\<lambda>w. case modbus_rtu_done (rw_lib w) of (lib, r) \<Rightarrow> Some (r, w\<lparr>rw_lib := lib\<rparr>)),
     l1_connect = rtu_l1_connect,
     l1_listen = rtu_l1_connect,
     l1_close = (\<lambda>w nd. map_option (\<lambda>(lib, r). (r, w\<lparr>rw_lib := lib\<rparr>)) (modbus_rtu_close (rw_lib w) nd)),
     l1_silence_init = (\<lambda>w. Some (modbus_rtu_silence_init, w))\<rparr>"

section \<open>It keeps the contract\<close>

definition rtu_ok :: "rtu_world \<Rightarrow> bool" where
  "rtu_ok w \<longleftrightarrow> lib_ok (rw_lib w) \<and>
     (\<forall>node. nd_table (rw_lib w) = Some node \<longrightarrow> (\<forall>e\<in>set node. 0 \<le> nd_fd e \<longrightarrow> lb_ok (data_buf (recv_buf e))))"

lemma rtu_ok_node:
  "rtu_ok w \<Longrightarrow> nd_table_get_nd (rw_lib w) nd = Some (Some e) \<Longrightarrow> 0 \<le> nd_fd e \<Longrightarrow> lb_ok (data_buf (recv_buf e))"
proof -
  assume w: "rtu_ok w" "nd_table_get_nd (rw_lib w) nd = Some (Some e)" "0 \<le> nd_fd e"
  then obtain node where n: "nd_table (rw_lib w) = Some node" "nat nd < length node" "e = node ! nat nd"
    by (auto simp: nd_table_get_nd_def split: option.splits if_splits)
  then have "e \<in> set node" by simp
  then show ?thesis using w(1,3) n(1) by (simp add: rtu_ok_def)
qed

lemma rtu_ok_put:
  assumes "rtu_ok w" "nd_table_get_nd (rw_lib w) nd = Some (Some e)" "lb_ok (data_buf (recv_buf e'))"
    and "rw_lib w' = put_nd (rw_lib w) nd e'"
  shows "rtu_ok w'"
  using assms set_update_subset_insert [of _ "nat nd" e']
  by (fastforce simp: rtu_ok_def lib_ok_def put_nd_def)

lemma nd_after_put: "nd_table_get_nd lib nd = Some (Some e) \<Longrightarrow> nd_table_get_nd (put_nd lib nd e') nd = Some (Some e')"
  by (auto simp: nd_table_get_nd_def put_nd_def split: option.splits if_splits)

lemma write_tries_ok:
  assumes "lb_ok (data_buf buf)"
  shows "write_tries k data ss ws buf sent = Some (ss', ws', buf', r, sent') \<Longrightarrow> lb_ok (data_buf buf')"
  using assms
proof (induction k arbitrary: ss ws buf sent)
  case (Suc k)
  then show ?case
    by (auto simp: Let_def reset_ok split: option.splits list.splits bool.splits write_res.splits if_splits)
qed simp

lemma frames_until_ok:
  assumes "frames_until crc q ign it ln buf = Some y" "crc = crc_calc_fun lib" "lib_ok lib" "lb_ok (data_buf buf)"
  shows "case y of (ln', buf', n, ptr) \<Rightarrow>
    lb_ok (data_buf buf') \<and> (0 \<le> n \<longrightarrow> (\<exists>p. ptr = Some p \<and> p + nat n \<le> data_size (data_buf buf')))"
  using assms
proof (induction rule: frames_until.raw_induct [rotated, consumes 1])
  case (1 f crc q ign it ln buf y)
  let ?slave = "if length q > L2_FRAME_SLAVEID_OFS then Some (q ! L2_FRAME_SLAVEID_OFS) else None"
  obtain ln1 buf1 n1 ptr1 where r: "read_frame crc ?slave ln buf = Some (ln1, buf1, n1, ptr1)"
    using 1(2) by (auto simp: Let_def split: option.splits)
  have "result_ok buf1 n1 ptr1" using read_frame_ok [OF 1(4,5), of ln ?slave] r 1(3) by simp
  then have res: "lb_ok (data_buf buf1)" "0 \<le> n1 \<longrightarrow> (\<exists>p. ptr1 = Some p \<and> p + nat n1 \<le> data_size (data_buf buf1))"
    by (auto simp: result_ok_def split: option.splits)
  have "y = (ln1, buf1, n1, ptr1) \<or> (\<exists>it1. f crc q ign it1 ln1 buf1 = Some y)"
    using 1(2) r by (auto simp: Let_def split: if_splits)
  then show ?case using 1(1) [OF _ 1(3,4) res(1)] res by auto
qed

lemma rtu_read_cases:
  assumes "modbus_rtu_read lib ln fails nd q = Some (lib', ln', n, ptr)"
  shows "lib' = lib \<and> n < 0 \<or>
    (\<exists>e buf. nd_table_get_nd lib nd = Some (Some e) \<and> 0 \<le> nd_fd e \<and> lib' = put_nd lib nd (e\<lparr>recv_buf := buf\<rparr>) \<and>
       frames_until (crc_calc_fun lib) q (ignore_echo e) 0 ln (recv_buf e) = Some (ln', buf, n, ptr))"
proof (cases "nd_table_get_nd lib nd")
  case (Some x)
  then show ?thesis using assms
    by (cases x; cases "nd_fd (the x) < 0 \<or> fails")
      (auto simp: modbus_rtu_read_def split: if_splits)
qed (use assms in \<open>simp add: modbus_rtu_read_def\<close>)

interpretation rtu: modbus_layer1 rtu_layer1 rtu_ok
proof
  fix s nd p n tid r p1 s1
  assume s: "rtu_ok s" and w: "l1_write rtu_layer1 s nd p n tid = Some (r, p1, s1)"
  obtain lib ln ws sent where m: "modbus_rtu_write (rw_lib s) (rw_line s) (rw_writes s) nd p n = Some (lib, ln, ws, sent, r)"
      and p1: "p1 = rtu_packet (rw_lib s) nd p n" and s1: "rw_lib s1 = lib"
    using w by (auto simp: rtu_layer1_def rtu_l1_write_def split: option.splits)
  have "length p1 = length p \<and> take n p1 = take n p"
    unfolding p1 rtu_packet_def by (auto simp: crc_write_def split: option.splits if_splits)
  moreover have "rtu_ok s1"
  proof (cases "lib = rw_lib s")
    case True then show ?thesis using s s1 by (simp add: rtu_ok_def)
  next
    case False
    then obtain e data1 ss buf ok where e: "nd_table_get_nd (rw_lib s) nd = Some (Some e)" "0 \<le> nd_fd e"
        and t: "write_tries (RTU_FRAME_SEND_RETRY + 1) data1 (ln_selects (rw_line s)) (rw_writes s) (recv_buf e) [] = Some (ss, ws, buf, ok, sent)"
        and lib: "lib = put_nd (rw_lib s) nd (e\<lparr>recv_buf := buf\<rparr>)"
      using m by (auto simp: modbus_rtu_write_def simp del: write_tries.simps split: option.splits if_splits)
    have "lb_ok (data_buf buf)" using write_tries_ok [OF rtu_ok_node [OF s e] t] .
    then show ?thesis using rtu_ok_put [OF s e(1), of "e\<lparr>recv_buf := buf\<rparr>" s1] lib s1 by simp
  qed
  ultimately show "rtu_ok s1 \<and> length p1 = length p \<and> take n p1 = take n p" by blast
next
  fix s nd tid q r nd1 d tid1 s1
  assume s: "rtu_ok s" and rd: "l1_read rtu_layer1 s nd tid q = Some (r, nd1, d, tid1, s1)"
  obtain fails lib ln ptr where m: "modbus_rtu_read (rw_lib s) (rw_line s) fails nd q = Some (lib, ln, r, ptr)"
      and d: "d = (case (ptr, nd_table_get_nd lib nd) of (Some p, Some (Some e)) \<Rightarrow> drop p (lb_array (data_buf (recv_buf e))) | _ \<Rightarrow> [])"
      and s1: "rw_lib s1 = lib"
  proof -
    let ?fails = "case rw_clock_fails s of [] \<Rightarrow> False | b # _ \<Rightarrow> b"
    have l: "rtu_l1_read s nd tid q = Some (r, nd1, d, tid1, s1)" using rd by (simp add: rtu_layer1_def)
    then obtain lib ln n ptr where "modbus_rtu_read (rw_lib s) (rw_line s) ?fails nd q = Some (lib, ln, n, ptr)"
      unfolding rtu_l1_read_def Let_def by (cases "modbus_rtu_read (rw_lib s) (rw_line s) ?fails nd q") auto
    moreover from this l have "n = r" "rw_lib s1 = lib"
        "d = (case (ptr, nd_table_get_nd lib nd) of (Some p, Some (Some e)) \<Rightarrow> drop p (lb_array (data_buf (recv_buf e))) | _ \<Rightarrow> [])"
      unfolding rtu_l1_read_def Let_def by auto
    ultimately show ?thesis using that by blast
  qed
  show "rtu_ok s1 \<and> (0 \<le> r \<longrightarrow> nat r \<le> length d)"
  proof (cases "lib = rw_lib s \<and> r < 0")
    case True then show ?thesis using s s1 by (simp add: rtu_ok_def)
  next
    case False
    from False obtain e buf where e: "nd_table_get_nd (rw_lib s) nd = Some (Some e)" "0 \<le> nd_fd e"
        and f: "frames_until (crc_calc_fun (rw_lib s)) q (ignore_echo e) 0 (rw_line s) (recv_buf e) = Some (ln, buf, r, ptr)"
        and lib: "lib = put_nd (rw_lib s) nd (e\<lparr>recv_buf := buf\<rparr>)"
      using rtu_read_cases [OF m] by blast
    have "lib_ok (rw_lib s)" using s by (simp add: rtu_ok_def)
    note fo = frames_until_ok [OF f refl this rtu_ok_node [OF s e], unfolded prod.case]
    have "rtu_ok s1" using rtu_ok_put [OF s e(1), of "e\<lparr>recv_buf := buf\<rparr>" s1] lib s1 fo by simp
    moreover have "nat r \<le> length d" if "0 \<le> r"
      using fo that nd_after_put [OF e(1), of "e\<lparr>recv_buf := buf\<rparr>"] unfolding d lib by (auto simp: lb_ok_def)
    ultimately show ?thesis by blast
  qed
qed

text \<open>C23. A transaction over RTU, whatever the line does: it tries at most once more than the
  retries, at least once if these are not negative, and keeps the query in its buffer. It uses up one transaction id for
  each try: the query of each try is written with the id after that of the try before, and its answer is awaited with the same
  id. It gives one of the four
  errors, or the length of a frame that is in memory and has the function code of the query, after a try whose query was written; and
  only with the error of the slave it gives an error code.\<close>

theorem modbus_transaction_outcome:
  assumes "rtu_ok (lower m)" "query_buffer m = Some p" "2 \<le> n"
    and "mb_transaction rtu_layer1 n nd retries err m = Some (r, d, err', m')"
  shows "rtu_ok (lower m') \<and> (\<exists>p'. query_buffer m' = Some p' \<and> length p' = length p \<and> take n p' = take n p) \<and>
    (\<exists>ws. length ws \<le> nat (retries + 1) \<and> (0 \<le> retries \<longrightarrow> ws \<noteq> []) \<and> next_id m' = next_id m + of_nat (length ws) \<and>
      (0 \<le> r \<longrightarrow> ws \<noteq> [] \<and> last ws) \<and>
      mb_transaction (recording rtu_layer1) n nd retries err (noting m []) =
        Some (r, d, err', noting m' (calls_of_tries (take n p) (next_id m) ws))) \<and>
    (r \<in> {-1, -2, -3, -4} \<or> 3 \<le> r \<and> nat r \<le> length d \<and> d ! 1 = p ! 1) \<and> (r \<noteq> -4 \<longrightarrow> err' = err)"
  using rtu.transaction_outcome [OF assms] rtu.transaction_calls [OF assms(1,2,4)] by simp

section \<open>A master and a slave on a serial line\<close>

text \<open>A query goes out after a silence, and a frame comes in pieces of any size.\<close>

lemma recognised_kept: "recognised f \<Longrightarrow> 4 \<le> length f"
  by (simp add: recognised_def)

lemma rtu_answers:
  assumes "rtu_ok w" "nd_table_get_nd (rw_lib w) nd = Some (Some e)" "0 \<le> nd_fd e" "0 < n" "n + 2 \<le> length p"
    and "MAX_RTU_FRAME_LENGTH < data_size (data_buf (recv_buf e))" "rw_clock_fails w = []"
    and "rw_line w = \<lparr>ln_selects = Sel_timeout # replicate (length cs) Sel_ready @ ss, ln_reads = map Rd_bytes cs @ rs\<rparr>"
    and "rw_writes w = Wr_count (n + 2) # ws" "recognised f" "concat cs = f" "\<forall>c\<in>set cs. c \<noteq> []"
    and "ignore_echo e \<longrightarrow> f ! 0 = p ! 0 \<and> take (length f - 2) f \<noteq> take n p"
  shows "\<exists>p1 w'. layer_answers rtu_layer1 w nd p n tid (take (length f - 2) f) p1 w' \<and> length p1 = length p \<and>
    rw_line w' = \<lparr>ln_selects = ss, ln_reads = rs\<rparr> \<and> rw_writes w' = ws \<and>
    rw_sent w' = rw_sent w @ [take (n + 2) p1] \<and> take n p1 = take n p \<and> crc_valid (take (n + 2) p1)"
proof -
  let ?lib = "rw_lib w" and ?crc = "crc_calc_fun (rw_lib w)"
  have lib: "lib_ok ?lib" using assms(1) by (simp add: rtu_ok_def)
  note std = crc_std_lib [OF lib]
  have lb: "lb_ok (data_buf (recv_buf e))" by (rule rtu_ok_node [OF assms(1-3)])
  obtain p1 where c: "crc_write ?crc p n = Some p1" using std assms(4,5) by (auto simp: crc_write_def crc_std_def)
  note v = crc_write_valid [OF std c assms(4)]
  have lp: "length p1 = length p" using c by (auto simp: crc_write_def split: option.splits if_splits)
  have packet: "rtu_packet ?lib nd p n = p1" using assms(2,3) c by (simp add: rtu_packet_def)
  let ?e1 = "e\<lparr>recv_buf := recv_buf_reset (recv_buf e)\<rparr>" and ?lib1 = "put_nd ?lib nd (e\<lparr>recv_buf := recv_buf_reset (recv_buf e)\<rparr>)"
  let ?ln1 = "\<lparr>ln_selects = replicate (length cs) Sel_ready @ ss, ln_reads = map Rd_bytes cs @ rs\<rparr>"
  let ?w1 = "w\<lparr>rw_lib := ?lib1, rw_line := ?ln1, rw_writes := ws, rw_sent := rw_sent w @ [take (n + 2) p1]\<rparr>"
  have lt: "length (take (n + 2) p1) = n + 2" using v by simp
  have "modbus_rtu_write ?lib (rw_line w) (rw_writes w) nd p n = Some (?lib1, ?ln1, ws, [take (n + 2) p1], int n)"
    using assms(2,3,8,9) c lt by (simp add: modbus_rtu_write_def RTU_FRAME_SEND_RETRY_def RTU_FRAME_CRC_LENGTH_def Let_def)
  then have wr: "l1_write rtu_layer1 w nd p n tid = Some (int n, p1, ?w1)"
    by (simp add: rtu_layer1_def rtu_l1_write_def packet)
  have e1: "nd_table_get_nd ?lib1 nd = Some (Some ?e1)" by (rule nd_after_put [OF assms(2)])
  have crc1: "crc_calc_fun ?lib1 = ?crc" by (simp add: crc_calc_fun_def put_nd_def split: crc_func_t.split)
  have emp: "empty_buf (recv_buf ?e1)"
    using lb assms(6) by (simp add: empty_buf_def recv_buf_reset_def lb_data_purge_all_def lb_ok_def)
  let ?q = "take n p1" and ?m = "length f - 2"
  have lf: "4 \<le> length f" by (rule recognised_kept [OF assms(10)])
  obtain buf' where rf: "read_frame ?crc (Some (?q ! 0)) ?ln1 (recv_buf ?e1) =
        Some (\<lparr>ln_selects = ss, ln_reads = rs\<rparr>, buf', int (length f) - 2, Some 0)"
      "frame_at buf' 0 (int (length f) - 2) = take (length f - 2) f"
    using read_frame_pieces [OF std assms(10) emp assms(11,12), of "Some (?q ! 0)" ss rs] by auto
  have m: "int (length f) - 2 = int ?m" using lf by simp
  have q: "length ?q = n" "?q ! 0 = p ! 0"
  proof -
    show "length ?q = n" using lp assms(5) by simp
    have "?q = take n p" using v by blast
    then show "?q ! 0 = p ! 0" using assms(4) by simp
  qed
  have fr: "frame_at buf' 0 (int ?m) = take ?m f" using rf(2) unfolding m .
  have "?m > 0" using lf by simp
  then have f0: "take ?m f ! 0 = f ! 0" by simp
  have fu: "frames_until ?crc ?q (ignore_echo ?e1) 0 ?ln1 (recv_buf ?e1) = Some (\<lparr>ln_selects = ss, ln_reads = rs\<rparr>, buf', int ?m, Some 0)"
  proof -
    have "?q \<noteq> []" "0 < length ?q" using q(1) assms(4) by auto
    moreover have "ignore_echo e \<Longrightarrow> frame_at buf' 0 (int ?m) \<noteq> ?q \<and> frame_at buf' 0 (int ?m) ! 0 = ?q ! 0"
      using assms(13) fr f0 q(2) v by auto
    ultimately show ?thesis using rf(1) \<open>?m > 0\<close> unfolding m
      by (subst frames_until.simps) (auto simp: Let_def L2_FRAME_SLAVEID_OFS_def)
  qed
  let ?e2 = "?e1\<lparr>recv_buf := buf'\<rparr>" and ?lib2 = "put_nd ?lib1 nd (?e1\<lparr>recv_buf := buf'\<rparr>)"
  have "modbus_rtu_read ?lib1 ?ln1 False nd ?q = Some (?lib2, \<lparr>ln_selects = ss, ln_reads = rs\<rparr>, int ?m, Some 0)"
    using e1 assms(3) fu by (simp add: modbus_rtu_read_def crc1)
  moreover have "nd_table_get_nd ?lib2 nd = Some (Some ?e2)" by (rule nd_after_put [OF e1])
  moreover have "lb_array (data_buf buf') = take ?m f @ drop ?m (lb_array (data_buf buf'))"
    using fr by (metis append_take_drop_id drop0 frame_at_def nat_int)
  ultimately have rd: "l1_read rtu_layer1 ?w1 nd tid ?q = Some (int ?m, nd, take ?m f @ drop ?m (lb_array (data_buf buf')), tid,
      ?w1\<lparr>rw_lib := ?lib2, rw_line := \<lparr>ln_selects = ss, ln_reads = rs\<rparr>\<rparr>)"
    using assms(7) by (simp add: rtu_layer1_def rtu_l1_read_def)
  have "length (take ?m f) = ?m" by simp
  then have "layer_answers rtu_layer1 w nd p n tid (take ?m f) p1 (?w1\<lparr>rw_lib := ?lib2, rw_line := \<lparr>ln_selects = ss, ln_reads = rs\<rparr>\<rparr>)"
    unfolding layer_answers_def using wr rd v by auto
  then show ?thesis using lp v by (intro exI [of _ p1] exI) auto
qed

text \<open>C18. A master that reads registers of a slave over RTU sends the query after a silence, with a
  valid checksum, and gets the registers of the answer, which may come in pieces of any size. If the node is not
  set to ignore its echo the answer may be that of any slave \<open>sid\<close>: the address is not compared
  then.\<close>

theorem modbus_reads_registers:
  assumes "rtu_ok (lower m)" "query_buffer m = Some p" "8 \<le> length p" "0 \<le> retries" "retries \<noteq> int MB_INT_MAX"
    and "nd_table_get_nd (rw_lib (lower m)) nd = Some (Some e)" "0 \<le> nd_fd e"
    and "MAX_RTU_FRAME_LENGTH < data_size (data_buf (recv_buf e))" "rw_clock_fails (lower m) = []"
    and "rw_line (lower m) = \<lparr>ln_selects = Sel_timeout # replicate (length cs) Sel_ready @ ss, ln_reads = map Rd_bytes cs @ rs\<rparr>"
    and "rw_writes (lower m) = Wr_count 8 # ws" "recognised f" "concat cs = f" "\<forall>c\<in>set cs. c \<noteq> []"
    and "take (length f - 2) f = regs_reply sid 3 vs" "ignore_echo e \<longrightarrow> sid = slave"
    and "length vs = unat count" "length vs \<le> 100" "nat dest_size \<le> length vs" "nat dest_size \<le> length dest"
  shows "\<exists>m' frame. read_output_words rtu_layer1 slave start count dest dest_size nd retries err m =
      Some (3 + 2 * int (length vs), take (nat dest_size) vs @ drop (nat dest_size) dest, err, m') \<and>
    rw_sent (lower m') = rw_sent (lower m) @ [frame] \<and> take 6 frame = query_frame slave 3 start count \<and> crc_valid frame"
proof -
  let ?p = "query_frame slave 3 start count @ drop 6 p"
  have f2: "length f - 2 = 3 + 2 * length vs" using arg_cong [OF assms(15), of length] recognised_kept [OF assms(12)] by simp
  have f0: "f ! 0 = sid"
  proof -
    have "take (length f - 2) f ! 0 = sid" unfolding assms(15) by (simp add: regs_reply_def)
    then show ?thesis using f2 by simp
  qed
  have h1: "ignore_echo e \<longrightarrow> f ! 0 = ?p ! 0 \<and> take (length f - 2) f \<noteq> take 6 ?p"
  proof
    assume "ignore_echo e"
    then have "f ! 0 = ?p ! 0" using assms(16) f0 by (simp add: query_frame_def)
    moreover have "take (length f - 2) f \<noteq> take 6 ?p"
    proof
      assume "take (length f - 2) f = take 6 ?p"
      then have "length (take (length f - 2) f) = 6" by simp
      then have "3 + 2 * length vs = 6" using f2 by simp
      then show False by presburger
    qed
    ultimately show "f ! 0 = ?p ! 0 \<and> take (length f - 2) f \<noteq> take 6 ?p" by blast
  qed
  have h2: "6 + 2 \<le> length ?p" "(0 :: nat) < 6" using assms(3) by simp_all
  have w8: "rw_writes (lower m) = Wr_count (6 + 2) # ws" using assms(11) by simp
  have "take 6 ?p = query_frame slave 3 start count" by simp
  then obtain p1 w' where a: "layer_answers rtu_layer1 (lower m) nd ?p 6 (next_id m) (regs_reply sid 3 vs) p1 w'"
      "rw_sent w' = rw_sent (lower m) @ [take (6 + 2) p1]" "take 6 p1 = query_frame slave 3 start count" "crc_valid (take (6 + 2) p1)"
    using rtu_answers [OF assms(1,6,7) h2(2,1) assms(8-10) w8 assms(12-14) h1, of "next_id m", unfolded assms(15)]
    by metis
  obtain rest where q: "query_transaction rtu_layer1 3 slave start count nd retries err m =
      Some (int (length (regs_reply sid 3 vs)), regs_reply sid 3 vs @ rest, err,
        m\<lparr>query_buffer := Some p1, next_id := next_id m + 1, lower := w'\<rparr>)"
    using answered_query [OF assms(2) _ assms(4,5) a(1)] assms(3) by auto
  have c: "\<not> count > MAX_READ_REGS" using assms(17,18) by (simp add: MAX_READ_REGS_def word_less_nat_alt)
  have "read_registers rtu_layer1 3 slave start count dest dest_size nd retries err m =
      Some (3 + 2 * int (length vs), take (nat dest_size) vs @ drop (nat dest_size) dest, err,
        m\<lparr>query_buffer := Some p1, next_id := next_id m + 1, lower := w'\<rparr>)"
    using registers_answered(1) [OF q assms(17)] assms(18-20) by simp
  moreover have "take 6 (take (6 + 2) p1) = query_frame slave 3 start count"
    using a(3) by (simp add: min_def)
  ultimately show ?thesis unfolding read_output_words_def using a(2,4) c
    by (intro exI [of _ "m\<lparr>query_buffer := Some p1, next_id := next_id m + 1, lower := w'\<rparr>"] exI [of _ "take (6 + 2) p1"]) simp
qed

section \<open>Bits\<close>

text \<open>C24. The bits that a master writes come back when it reads them from a slave that keeps the bytes it
  was sent, whatever the layer below, and reading them changes no more of the destination.\<close>

theorem modbus_coils_come_back:
  assumes "query_buffer m = Some p" "unat count \<le> 800" "7 + (unat count + 7) div 8 \<le> length p"
    and "unat count \<le> length data" "unat count \<le> length dest" "0 \<le> retries" "retries \<noteq> int MB_INT_MAX"
    and "cb = coil_bytes (bits_of data (unat count))"
    and "layer_answers l (lower m) nd
      (query_frame slave 0x0F start count @ [of_nat (length cb)] @ cb @ drop (7 + length cb) p) (7 + length cb) (next_id m)
      (query_frame slave 0x0F start count) p1 s1"
    and "layer_answers l s1 nd (query_frame slave 1 start count @ drop 6 p1) 6 (next_id m + 1)
      ([slave, 1, of_nat (length cb)] @ cb) p2 s2"
  shows "\<exists>m1 m2. write_output_bits l slave start count data nd retries err m = Some (6, err, m1) \<and>
    read_output_bits l slave start count dest (int (unat count)) nd retries err m1 =
      Some (3 + int (length cb), map (\<lambda>v. of_bool (v \<noteq> 0)) (take (unat count) data) @ drop (unat count) dest, err, m2)"
proof -
  let ?bits = "bits_of data (unat count)" and ?c = "unat count"
  let ?p = "query_frame slave 0x0F start count @ [of_nat (length cb)] @ cb @ drop (7 + length cb) p"
  let ?m1 = "m\<lparr>query_buffer := Some p1, next_id := next_id m + 1, lower := s1\<rparr>"
  have lb: "length ?bits = ?c" using assms(4) by (simp add: bits_of_def)
  have lc: "length cb = (?c + 7) div 8" unfolding assms(8) by (simp add: length_coil_bytes lb)
  have lp: "length ?p = length p" using assms(3) lc by simp
  have "write_output_bits l slave start count data nd retries err m = write_transaction l (7 + length cb) nd retries err (m\<lparr>query_buffer := Some ?p\<rparr>)"
    using bits_request [OF assms(1,2) lc _ assms(4)] assms(3,8) lc by simp
  also have "\<dots> = Some (6, err, ?m1)"
  proof -
    have "drop 2 (query_frame slave 0x0F start count) = take 4 (drop 2 ?p)" by (simp add: query_frame_def be16_def)
    moreover have "(0x0F :: u8) AND 0x80 = 0" by simp
    ultimately show ?thesis
      using echoed_write [of "m\<lparr>query_buffer := Some ?p\<rparr>" ?p "7 + length cb" retries l nd "query_frame slave 0x0F start count" p1 s1 err]
        assms(6,7,9) lp assms(3) lc by (simp add: query_frame_def be16_def)
  qed
  finally have w: "write_output_bits l slave start count data nd retries err m = Some (6, err, ?m1)" .
  have "take (7 + length cb) p1 = take (7 + length cb) ?p" using assms(9) by (simp add: layer_answers_def)
  then have "length (take (7 + length cb) p1) = 7 + length cb" using lp assms(3) lc by simp
  then have p1: "6 \<le> length p1" by simp
  have reply: "[slave, 1, of_nat (length cb)] @ cb = bits_reply slave 1 ?bits" by (simp add: bits_reply_def length_coil_bytes lb assms(8))
  obtain rest where q: "query_transaction l 1 slave start count nd retries err ?m1 =
      Some (int (length (bits_reply slave 1 ?bits)), bits_reply slave 1 ?bits @ rest, err,
        ?m1\<lparr>query_buffer := Some p2, next_id := next_id ?m1 + 1, lower := s2\<rparr>)"
    using answered_query [of ?m1 p1 retries l nd slave 1 start count "bits_reply slave 1 ?bits" p2 s2 err] assms(6,7,10) p1 unfolding reply
    by auto
  have "min (length ?bits) (8 * nat (int ?c)) = ?c" using lb by simp
  then have "read_IO_status l 1 slave start count dest (int ?c) nd retries err ?m1 =
      Some (3 + (int (length ?bits) + 7) div 8, map of_bool (take ?c ?bits) @ drop ?c dest, err,
        ?m1\<lparr>query_buffer := Some p2, next_id := next_id ?m1 + 1, lower := s2\<rparr>)"
    using bits_answered(1) [OF q lb, of ?c "int ?c" dest] assms(2,5) lb by simp
  moreover have "map of_bool (take ?c ?bits) = map (\<lambda>v. of_bool (v \<noteq> 0) :: int) (take ?c data)"
    using lb by (simp add: bits_of_def comp_def)
  moreover have "(int (length ?bits) + 7) div 8 = int (length cb)" using lb lc by (simp add: zdiv_int)
  ultimately show ?thesis using w unfolding read_output_bits_def by auto
qed

text \<open>Writing bits out of words sends the same query as writing them out of an array of integers, if the bits of the
  last byte that are not used are zero, and so has the same result.\<close>

theorem modbus_coils_u32_same:
  assumes "query_buffer m = Some p" "unat count \<le> 800" "7 + (unat count + 7) div 8 \<le> length p"
    and "unat count \<le> 32 * length ws"
    and "\<forall>j. unat count \<le> j \<and> j < 8 * ((unat count + 7) div 8) \<longrightarrow> \<not> bits_of_words ws ! j"
  shows "map_option (\<lambda>(r, ws', err, m). (r, err, m)) (write_output_bits_u32 l slave start count ws nd retries err m) =
    write_output_bits l slave start count (map of_bool (bits_of_words ws)) nd retries err m"
proof -
  obtain ws' where u: "write_output_bits_u32 l slave start count ws nd retries err m =
    map_option (\<lambda>(r, err, m). (r, ws', err, m)) (write_transaction l (7 + (unat count + 7) div 8) nd retries err
      (m\<lparr>query_buffer := Some (query_frame slave 0x0F start count @ [of_nat ((unat count + 7) div 8)] @
         coil_bytes (take (unat count) (bits_of_words ws)) @ drop (7 + (unat count + 7) div 8) p)\<rparr>))"
    using bits_u32_request [OF assms(1,2) refl assms(3,4,5)] by blast
  have "bits_of (map of_bool (bits_of_words ws)) (unat count) = take (unat count) (bits_of_words ws)"
    by (simp add: bits_of_def take_map comp_def)
  then show ?thesis unfolding u
    using bits_request [OF assms(1,2) refl assms(3), of "map of_bool (bits_of_words ws)" l slave start nd retries err] assms(4)
    by (simp add: option.map_comp comp_def case_prod_beta' option.map_ident)
qed

text \<open>Reading bits into an array that is too small writes behind its end, although the function was told
  the size: it compares the size with the number of bytes.\<close>

theorem modbus_read_bits_overflows:
  assumes "query_buffer m = Some p" "6 \<le> length p" "0 \<le> retries" "retries \<noteq> int MB_INT_MAX"
    and "layer_answers l (lower m) nd (query_frame slave 1 start count @ drop 6 p) 6 (next_id m) (bits_reply sid 1 bs) p1 s1"
    and "length bs = unat count" "length bs \<le> 2040" "0 < length dest" "length dest < length bs"
  shows "read_output_bits l slave start count dest (int (length dest)) nd retries err m = None"
proof -
  obtain rest where q: "query_transaction l 1 slave start count nd retries err m =
      Some (int (length (bits_reply sid 1 bs)), bits_reply sid 1 bs @ rest, err,
        m\<lparr>query_buffer := Some p1, next_id := next_id m + 1, lower := s1\<rparr>)"
    using answered_query [OF assms(1-5)] by auto
  have "length dest < min (length bs) (8 * nat (int (length dest)))" using assms(8,9) by simp
  then show ?thesis unfolding read_output_bits_def using bits_answered(2) [OF q assms(6,7) refl] by simp
qed

section \<open>Examples\<close>

text \<open>A line on which a slave answers the query for its first register in two pieces, and one that fails.\<close>

definition world_of :: "rtu_line \<Rightarrow> rtu_world" where
  "world_of ln = \<lparr>rw_lib = lib_small, rw_line = ln, rw_writes = [Wr_count 8], rw_sent = [], rw_clock_fails = [],
     rw_tty = \<lparr>tty_fd = 3, tty_getattr = True, tty_setattr = True, tty_junk = \<lambda>_. 0\<rparr>, rw_memory = \<lambda>_. nd_rest\<rparr>"

definition master_of :: "'s \<Rightarrow> 's mb_master" where
  "master_of w = \<lparr>query_buffer = Some (replicate 16 0), next_id = 0, lower = w\<rparr>"

definition line_answer :: rtu_line where
  "line_answer = \<lparr>ln_selects = [Sel_timeout, Sel_ready, Sel_ready], ln_reads = [Rd_bytes [1, 3, 2, 0x12], Rd_bytes [0x34, 0xB5, 0x33]]\<rparr>"

lemma world_ok: "rtu_ok (world_of ln)"
  using rest_ok by (simp add: rtu_ok_def world_of_def lib_small_def nd_rest_def)

lemma answer_recognised: "recognised [1, 3, 2, 0x12, 0x34, 0xB5, 0x33]"
proof -
  let ?f = "[1, 3, 2, 0x12, 0x34, 0xB5, 0x33] :: u8 list"
  have "\<not> crc_valid (take k ?f)" if "4 \<le> k" "k < 7" for k
  proof -
    have "k \<in> set [4, 5, 6]" using that by auto
    moreover have "\<forall>k\<in>set [4, 5, 6]. \<not> crc_valid (take k ?f)"
      by (simp add: crc_valid_def crc_read_def crc_eval)
    ultimately show ?thesis by blast
  qed
  moreover have "crc_valid ?f" "frame_length ?f True = 7" "known_function ?f"
    by (simp_all add: crc_valid_def crc_read_def crc_eval known_function_def MAX_FUNCTION_CODE_def frame_length_def
      L2_FRAME_FUNCTION_OFS_def response_frame_lengths_def byte_counts RTU_FRAME_CRC_LENGTH_def)
  ultimately show ?thesis by (simp add: recognised_def MAX_RTU_FRAME_LENGTH_def MAX_L2_FRAME_LENGTH_def RTU_FRAME_CRC_LENGTH_def)
qed

lemma modbus_reads_registers_witness:
  "\<exists>m' frame. read_output_words rtu_layer1 1 1 1 [0, 7] 1 0 0 None (master_of (world_of line_answer)) = Some (5, [0x1234, 7], None, m') \<and>
    rw_sent (lower m') = [frame] \<and> take 6 frame = [1, 3, 0, 0, 0, 1] \<and> crc_valid frame"
proof -
  let ?m = "master_of (world_of line_answer)" and ?f = "[1, 3, 2, 0x12, 0x34, 0xB5, 0x33] :: u8 list"
  have n: "nd_table_get_nd (rw_lib (lower ?m)) 0 = Some (Some nd_rest)" "0 \<le> nd_fd nd_rest"
      "MAX_RTU_FRAME_LENGTH < data_size (data_buf (recv_buf nd_rest))" "rw_clock_fails (lower ?m) = []"
    by (simp_all add: nd_table_get_nd_def master_of_def world_of_def lib_small_def nd_rest_def rb_rest_def MAX_RTU_FRAME_LENGTH_def
      MAX_L2_FRAME_LENGTH_def RTU_FRAME_CRC_LENGTH_def)
  have ln: "rw_line (lower ?m) = \<lparr>ln_selects = Sel_timeout # replicate (length [[1, 3, 2, 0x12], [0x34, 0xB5, 0x33 :: u8]]) Sel_ready @ [],
      ln_reads = map Rd_bytes [[1, 3, 2, 0x12], [0x34, 0xB5, 0x33]] @ []\<rparr>" "rw_writes (lower ?m) = Wr_count 8 # []"
    by (simp_all add: master_of_def world_of_def line_answer_def numeral_2_eq_2)
  have f: "concat [[1, 3, 2, 0x12], [0x34, 0xB5, 0x33]] = ?f" "\<forall>c\<in>set [[1, 3, 2, 0x12], [0x34, 0xB5, 0x33 :: u8]]. c \<noteq> []"
      "take (length ?f - 2) ?f = regs_reply 1 3 [0x1234]" "ignore_echo nd_rest \<longrightarrow> (1 :: u8) = 1"
    by (simp_all add: regs_reply_def reg_bytes_def be16_def)
  have m: "rtu_ok (lower ?m)" "query_buffer ?m = Some (replicate 16 0)" "8 \<le> length (replicate 16 (0 :: u8))" "(0 :: int) \<noteq> int MB_INT_MAX"
    using world_ok by (simp_all add: master_of_def MB_INT_MAX_def)
  have "(0 :: int) \<le> 0" "length [0x1234 :: u16] = unat (1 :: u16)" "length [0x1234 :: u16] \<le> 100"
      "nat 1 \<le> length [0x1234 :: u16]" "nat 1 \<le> length [0, 7 :: u16]" by simp_all
  from modbus_reads_registers [OF m(1-3) this(1) m(4) n(1,2,3,4) ln answer_recognised f(1-4) this(2-5), of 1 None]
  show ?thesis by (simp add: query_frame_def be16_def master_of_def world_of_def)
qed

lemma modbus_transaction_outcome_witness:
  "\<exists>m'. mb_transaction rtu_layer1 6 0 0 (Some 9) (master_of (world_of \<lparr>ln_selects = [Sel_error], ln_reads = []\<rparr>)) =
     Some (-1, [], Some 9, m') \<and> rtu_ok (lower m') \<and> next_id m' = 1"
proof -
  let ?m = "master_of (world_of \<lparr>ln_selects = [Sel_error], ln_reads = []\<rparr>)"
  obtain m' where t: "mb_transaction rtu_layer1 6 0 0 (Some 9) ?m = Some (-1, [], Some 9, m')"
    by (simp add: mb_transaction_def MB_INT_MAX_def master_of_def next_transaction_id_def rtu_layer1_def rtu_l1_write_def world_of_def
      modbus_rtu_write_def nd_table_get_nd_def lib_small_def nd_rest_def crc_write_def crc_calc_fun_def RTU_FRAME_SEND_RETRY_def PORT_FAILURE_def)
  have m: "rtu_ok (lower ?m)" "query_buffer ?m = Some (replicate 16 0)" using world_ok by (simp_all add: master_of_def)
  obtain ws :: "bool list" where ws: "rtu_ok (lower m')" "length ws \<le> 1" "ws \<noteq> []" "next_id m' = next_id ?m + of_nat (length ws)"
    using modbus_transaction_outcome [OF m _ t] by auto
  have "length ws = 1" using ws(2,3) by (cases ws) simp_all
  then have "next_id m' = 1" using ws(4) by (simp add: master_of_def)
  then show ?thesis using t ws(1) by blast
qed

text \<open>A device that keeps the bytes of its bits.\<close>

definition coil_device :: "(u8 list, unit) layer1" where
  "coil_device = \<lparr>
     l1_write = (\<lambda>s nd p n tid. Some (0, p, if p ! 1 = 0x0F then take (n - 7) (drop 7 p) else s)),
     l1_read = (\<lambda>s nd tid q. Some (if q ! 1 = 0x0F then (6, nd, take 6 q, tid, s)
       else (3 + int (length s), nd, [q ! 0, q ! 1, of_nat (length s)] @ s, tid, s))),
     l1_init = (\<lambda>s k opt. Some (0, 0, s)), l1_done = (\<lambda>s. Some (0, s)), l1_connect = (\<lambda>s a. Some (0, s)),
     l1_listen = (\<lambda>s a. Some (0, s)), l1_close = (\<lambda>s nd. Some (0, s)), l1_silence_init = (\<lambda>s. Some (0, s))\<rparr>"

lemma coils_3: "coil_bytes (bits_of [1, 0, 1] 3) = [5]" "coil_bytes [True, False, True] = [5]" "length (coil_bytes [True, False, True]) = 1"
  by (simp_all add: coil_bytes_def bits_of_def chunks.simps byte_of_bits_def)

lemma modbus_coils_come_back_witness:
  "\<exists>m1 m2. write_output_bits coil_device 1 1 3 [1, 0, 1] 0 0 None (master_of []) = Some (6, None, m1) \<and>
    read_output_bits coil_device 1 1 3 [7, 7, 7, 7] 3 0 0 None m1 = Some (4, [1, 0, 1, 7], None, m2)"
proof -
  let ?m = "master_of ([] :: u8 list)" and ?p = "query_frame 1 0x0F 1 3 @ [1, 5] @ replicate 8 0"
  have a1: "layer_answers coil_device (lower ?m) 0 (query_frame 1 0x0F 1 3 @ [of_nat (length [5 :: u8])] @ [5] @ drop (7 + length [5 :: u8]) (replicate 16 0))
      (7 + length [5 :: u8]) (next_id ?m) (query_frame 1 0x0F 1 3) ?p [5]"
    by (simp add: layer_answers_def coil_device_def master_of_def query_frame_def be16_def)
  have a2: "layer_answers coil_device [5] 0 (query_frame 1 1 1 3 @ drop 6 ?p) 6 (next_id ?m + 1) ([1, 1, of_nat (length [5 :: u8])] @ [5])
      (query_frame 1 1 1 3 @ drop 6 ?p) [5]"
    by (simp add: layer_answers_def coil_device_def master_of_def query_frame_def be16_def)
  show ?thesis
    using modbus_coils_come_back [of ?m "replicate 16 0" 3 "[1, 0, 1]" "[7, 7, 7, 7]" 0 "[5]" coil_device 0 1 1 ?p "[5]"
        "query_frame 1 1 1 3 @ drop 6 ?p" "[5]" None] a1 a2 coils_3
    by (simp add: master_of_def MB_INT_MAX_def)
qed

lemma modbus_coils_u32_same_witness:
  "map_option (\<lambda>(r, ws', err, m). (r, err, m)) (write_output_bits_u32 coil_device 1 1 3 [5] 0 0 None (master_of [])) =
    write_output_bits coil_device 1 1 3 (map of_bool (bits_of_words [5])) 0 0 None (master_of [])"
proof -
  have "\<forall>j. 3 \<le> j \<and> j < 8 \<longrightarrow> \<not> bits_of_words [5] ! j"
  proof (intro allI impI)
    fix j :: nat assume "3 \<le> j \<and> j < 8"
    then have "j \<in> {3, 4, 5, 6, 7}" by auto
    then show "\<not> bits_of_words [5] ! j" by (auto simp: bits_of_words_def)
  qed
  then show ?thesis using modbus_coils_u32_same [of "master_of []" "replicate 16 0" 3 "[5]" coil_device 1 1 0 0 None]
    by (simp add: master_of_def)
qed

lemma modbus_read_bits_overflows_witness:
  "read_output_bits coil_device 1 1 3 [0, 0] 2 0 0 None (master_of [5]) = None"
proof -
  let ?m = "master_of ([5] :: u8 list)" and ?p = "query_frame 1 1 1 3 @ replicate 10 0"
  have "layer_answers coil_device (lower ?m) 0 (query_frame 1 1 1 3 @ drop 6 (replicate 16 0)) 6 (next_id ?m)
      (bits_reply 1 1 [True, False, True]) ?p [5]"
    by (simp add: layer_answers_def coil_device_def master_of_def query_frame_def be16_def bits_reply_def coils_3)
  then show ?thesis
    using modbus_read_bits_overflows [of ?m "replicate 16 0" 0 coil_device 0 1 1 3 1 "[True, False, True]" ?p "[5]" "[0, 0]" None]
    by (simp add: master_of_def MB_INT_MAX_def)
qed

end
