(* ===== verification/GmmPoint.thy ===== *)
theory GmmPoint
  imports Prelude
begin

text \<open>
  Points of the global memory manager, \<^verbatim>\<open>lib/gmm\<close>: handles
  (\<^verbatim>\<open>plc_pt_priv_t\<close>), and reading and writing a point in the module's private map.
  The maps are lists of 32-bit words. A module that works in the shared variant uses the
  global map as its private map. A call that ends the process with \<^verbatim>\<open>exit(1)\<close> is
  \<open>None\<close>.
\<close>

section \<open>Handles\<close>

record plc_pt =
  pt_magic :: i16
  pt_ofs :: i32
  pt_mask :: u32
  pt_shift :: u8
  pt_length :: u8

definition PT_MAGIC :: i16 where
  "PT_MAGIC = 0x07f1"

text \<open>A handle with magic 0 is not valid. Its other fields are not initialised by the code
  and nothing reads them.\<close>

definition pt_error :: plc_pt where
  "pt_error = \<lparr>pt_magic = 0, pt_ofs = 0, pt_mask = 0, pt_shift = 0, pt_length = 0\<rparr>"

definition pt_valid :: "plc_pt \<Rightarrow> bool" where
  "pt_valid p \<longleftrightarrow> pt_magic p \<noteq> 0"

definition plc_pt_by_loc_local :: "i32 \<Rightarrow> i32 \<Rightarrow> u8 \<Rightarrow> u8 \<Rightarrow> plc_pt" where
  "plc_pt_by_loc_local globalmap_len offset bitno len =
     (if 32 < unat bitno + unat len \<or> sint offset < 0 \<or> sint globalmap_len \<le> sint offset
      then pt_error
      else \<lparr>pt_magic = PT_MAGIC, pt_ofs = offset,
            pt_mask = (if len = 32 then - 1
                       else push_bit (unat bitno) (NOT (push_bit (unat len) (- 1)))),
            pt_shift = bitno, pt_length = len\<rparr>)"

section \<open>The module's view\<close>

datatype gmm_loc_t = loc_default | loc_local | loc_isolate | loc_shared

text \<open>Which functions \<^verbatim>\<open>gmm_mod_\<close> points to: those of \<^verbatim>\<open>gmm_local.c\<close>, those
  of \<^verbatim>\<open>gmm_shared.c\<close>, or the error function that ends the process.\<close>

datatype gmm_mod_t = variant_error | variant_local | variant_shared

record gmm =
  gmm_mod_fns :: gmm_mod_t
  gmm_status :: u16
  gmm_module_name :: "string option"
  gmm_privmap :: "u32 list"
  gmm_mapmask :: "u32 list"
  globalmap_len :: i32
  globalmap_size :: u32
  magic_bit_aliases :: bool

text \<open>The words a module reads and writes as its private map.\<close>

definition priv :: "u32 list \<Rightarrow> gmm \<Rightarrow> u32 list" where
  "priv glob g = (if gmm_mod_fns g = variant_shared then glob else gmm_privmap g)"

definition put_priv :: "u32 list \<Rightarrow> gmm \<Rightarrow> nat \<Rightarrow> u32 \<Rightarrow> u32 list \<times> gmm" where
  "put_priv glob g i w =
     (if gmm_mod_fns g = variant_shared then (glob[i := w], g)
      else (glob, g\<lparr>gmm_privmap := (gmm_privmap g)[i := w]\<rparr>))"

definition plc_pt_by_loc :: "gmm \<Rightarrow> i32 \<Rightarrow> u8 \<Rightarrow> u8 \<Rightarrow> plc_pt option" where
  "plc_pt_by_loc g offset bitno len =
     (if gmm_mod_fns g = variant_error then None
      else Some (plc_pt_by_loc_local (globalmap_len g) offset bitno len))"

definition plc_pt_null :: "gmm \<Rightarrow> plc_pt option" where
  "plc_pt_null g = plc_pt_by_loc g 0 0 0"

definition plc_subpt :: "gmm \<Rightarrow> plc_pt \<Rightarrow> u8 \<Rightarrow> u8 \<Rightarrow> plc_pt option" where
  "plc_subpt g p bitno len =
     (if pt_magic p \<noteq> PT_MAGIC then Some pt_error
      else if unat (pt_length p) < unat bitno + unat len then Some pt_error
      else plc_pt_by_loc g (pt_ofs p) (pt_shift p + bitno) len)"

definition plc_pt_len :: "plc_pt \<Rightarrow> int" where
  "plc_pt_len p = (if pt_magic p \<noteq> PT_MAGIC then -1 else uint (pt_length p))"

definition plc_pt_rw :: "gmm \<Rightarrow> plc_pt \<Rightarrow> int" where
  "plc_pt_rw g p =
     (if pt_magic p \<noteq> PT_MAGIC then -1
      else let mm = gmm_mapmask g ! unat (pt_ofs p)
           in (if NOT mm AND pt_mask p \<noteq> 0 then 1 else 0)
              OR (if mm AND pt_mask p \<noteq> 0 then 2 else 0))"

definition plc_pt_rw_s :: "gmm \<Rightarrow> plc_pt \<Rightarrow> string option" where
  "plc_pt_rw_s g p =
     (let r = plc_pt_rw g p
      in if r = 1 then Some ''read-only''
         else if r = 2 then Some ''read-write''
         else if r = 3 then Some ''mixed''
         else if r = 0 then Some ''null'' else None)"

text \<open>The valid flag, then length, offset, bit and read/write status.\<close>

definition plc_pt_details :: "gmm \<Rightarrow> plc_pt \<Rightarrow> (int \<times> int \<times> int \<times> int \<times> int) option" where
  "plc_pt_details g p =
     (let valid = (if pt_magic p = PT_MAGIC then 1 else 0)
      in map_option
           (\<lambda>q. (valid, uint (pt_length q), sint (pt_ofs q), uint (pt_shift q), plc_pt_rw g q))
           (if pt_magic p \<noteq> PT_MAGIC then plc_pt_null g else Some p))"

definition plc_get :: "u32 list \<Rightarrow> gmm \<Rightarrow> plc_pt \<Rightarrow> u32 option" where
  "plc_get glob g p =
     (if pt_magic p \<noteq> PT_MAGIC then None
      else Some (drop_bit (unat (pt_shift p)) (priv glob g ! unat (pt_ofs p) AND pt_mask p)))"

definition plc_set :: "u32 list \<Rightarrow> gmm \<Rightarrow> plc_pt \<Rightarrow> u32 \<Rightarrow> (u32 list \<times> gmm) option" where
  "plc_set glob g p val =
     (if pt_magic p \<noteq> PT_MAGIC then None
      else let i = unat (pt_ofs p);
               wm = pt_mask p AND gmm_mapmask g ! i
           in Some (put_priv glob g i
                ((priv glob g ! i AND NOT wm) OR (push_bit (unat (pt_shift p)) val AND wm))))"

definition plc_geti :: "u32 list \<Rightarrow> gmm \<Rightarrow> plc_pt \<Rightarrow> u32 option" where
  "plc_geti glob g p =
     (if pt_magic p \<noteq> PT_MAGIC then None
      else Some (drop_bit (unat (pt_shift p))
                   (NOT (priv glob g ! unat (pt_ofs p) AND pt_mask p))))"

definition plc_seti :: "u32 list \<Rightarrow> gmm \<Rightarrow> plc_pt \<Rightarrow> u32 \<Rightarrow> (u32 list \<times> gmm) option" where
  "plc_seti glob g p val =
     (if pt_magic p \<noteq> PT_MAGIC then None
      else let i = unat (pt_ofs p);
               wm = pt_mask p AND gmm_mapmask g ! i
           in Some (put_priv glob g i
                ((priv glob g ! i AND NOT wm) OR (NOT (push_bit (unat (pt_shift p)) val) AND wm))))"

text \<open>The 32-bit float accesses move the bits of the float.\<close>

definition plc_get_f32 :: "u32 list \<Rightarrow> gmm \<Rightarrow> plc_pt \<Rightarrow> u32 option" where
  "plc_get_f32 glob g p = plc_get glob g p"

definition plc_set_f32 :: "u32 list \<Rightarrow> gmm \<Rightarrow> plc_pt \<Rightarrow> u32 \<Rightarrow> (u32 list \<times> gmm) option" where
  "plc_set_f32 glob g p val = plc_set glob g p val"

text \<open>Write access whatever the owner.\<close>

definition gmm_fully_initialized :: u16 where
  "gmm_fully_initialized = 0x0001"

definition gmm_get_status :: "gmm \<Rightarrow> u16 \<Rightarrow> bool" where
  "gmm_get_status g b \<longleftrightarrow> gmm_status g AND b \<noteq> 0"

definition gmm_set_pt_w_perm :: "gmm \<Rightarrow> plc_pt \<Rightarrow> gmm \<times> int" where
  "gmm_set_pt_w_perm g p =
     (if \<not> gmm_get_status g gmm_fully_initialized then (g, -1)
      else let i = unat (pt_ofs p)
           in (g\<lparr>gmm_mapmask := (gmm_mapmask g)[i := gmm_mapmask g ! i OR pt_mask p]\<rparr>, 0))"

section \<open>The bits of a handle\<close>

text \<open>A well-formed handle: one that \<^verbatim>\<open>plc_pt_by_loc\<close> made.\<close>

definition pt_wf :: "i32 \<Rightarrow> plc_pt \<Rightarrow> bool" where
  "pt_wf len p \<longleftrightarrow> pt_magic p = PT_MAGIC \<and>
     p = plc_pt_by_loc_local len (pt_ofs p) (pt_shift p) (pt_length p)"

lemma PT_MAGIC_nz [simp]: "PT_MAGIC \<noteq> 0"
  by (simp add: PT_MAGIC_def)

lemma pt_error_invalid [simp]: "pt_magic pt_error = 0" "\<not> pt_valid pt_error"
  by (simp_all add: pt_error_def pt_valid_def)

lemma by_loc_wf: "p = plc_pt_by_loc_local len ofs b l \<Longrightarrow> pt_magic p = PT_MAGIC \<Longrightarrow> pt_wf len p"
  by (auto simp: pt_wf_def plc_pt_by_loc_local_def split: if_splits)

lemma by_loc_valid:
  "pt_valid (plc_pt_by_loc_local len ofs b l) \<longleftrightarrow>
     unat b + unat l \<le> 32 \<and> 0 \<le> sint ofs \<and> sint ofs < sint len"
  by (auto simp: plc_pt_by_loc_local_def pt_valid_def)

lemma by_loc_fields:
  assumes "pt_valid (plc_pt_by_loc_local len ofs b l)"
  shows "pt_magic (plc_pt_by_loc_local len ofs b l) = PT_MAGIC"
    "pt_ofs (plc_pt_by_loc_local len ofs b l) = ofs"
    "pt_shift (plc_pt_by_loc_local len ofs b l) = b"
    "pt_length (plc_pt_by_loc_local len ofs b l) = l"
  using assms by (auto simp: plc_pt_by_loc_local_def pt_valid_def split: if_splits)

lemma pt_wf_bounds:
  assumes "pt_wf len p"
  shows "unat (pt_shift p) + unat (pt_length p) \<le> 32" "0 \<le> sint (pt_ofs p)"
    "sint (pt_ofs p) < sint len"
  using assms by_loc_valid [of len "pt_ofs p" "pt_shift p" "pt_length p"]
  by (auto simp: pt_wf_def pt_valid_def)

lemma sint_nonneg_unat: "0 \<le> sint (x :: i32) \<Longrightarrow> int (unat x) = sint x"
proof -
  assume "0 \<le> sint x"
  moreover have "sint x < 2 ^ 31"
    using signed_take_bit_int_less_exp [of 31 "uint x"] by (simp add: sint_uint)
  ultimately show ?thesis
    using uint_sint [of x] take_bit_int_eq_self [of "sint x" 32] by simp
qed

lemma pt_wf_ofs: "pt_wf len p \<Longrightarrow> unat (pt_ofs p) < unat len"
  using pt_wf_bounds(2,3) [of len p] sint_nonneg_unat [of "pt_ofs p"] sint_nonneg_unat [of len]
  by linarith

lemma mask_bit:
  assumes "pt_wf len p"
  shows "bit (pt_mask p) n \<longleftrightarrow>
    unat (pt_shift p) \<le> n \<and> n < unat (pt_shift p) + unat (pt_length p)"
proof -
  let ?b = "unat (pt_shift p)" and ?l = "unat (pt_length p)"
  have le: "?b + ?l \<le> 32" using pt_wf_bounds(1) [OF assms] .
  let ?q = "plc_pt_by_loc_local len (pt_ofs p) (pt_shift p) (pt_length p)"
  have e: "p = ?q" using assms unfolding pt_wf_def by blast
  have "pt_mask ?q = (if pt_length p = 32 then - 1 else push_bit ?b (NOT (push_bit ?l (- 1))))"
    using pt_wf_bounds [OF assms] by (simp add: plc_pt_by_loc_local_def)
  with arg_cong [OF e, of pt_mask]
  have "pt_mask p = (if pt_length p = 32 then - 1 else push_bit ?b (NOT (push_bit ?l (- 1))))"
    by simp
  moreover have "pt_length p = 32 \<longleftrightarrow> ?l = 32"
    by (auto simp: word_unat_eq_iff)
  ultimately show ?thesis
    using le by (auto simp: bit_simps)
qed

lemma wf_magic: "pt_wf len p \<Longrightarrow> pt_magic p = PT_MAGIC"
  by (simp add: pt_wf_def)

lemmas bits = bit_and_iff bit_or_iff bit_not_iff bit_drop_bit_eq bit_push_bit_iff

lemma get_bit:
  assumes "pt_wf len p" "plc_get glob g p = Some v"
  shows "bit v n \<longleftrightarrow>
    n < unat (pt_length p) \<and> bit (priv glob g ! unat (pt_ofs p)) (unat (pt_shift p) + n)"
proof -
  have "v = drop_bit (unat (pt_shift p)) (priv glob g ! unat (pt_ofs p) AND pt_mask p)"
    using assms(2) wf_magic [OF assms(1)] by (simp add: plc_get_def)
  then show ?thesis by (auto simp: bits mask_bit [OF assms(1)])
qed

lemma get_valid: "pt_wf len p \<Longrightarrow> \<exists>v. plc_get glob g p = Some v"
  by (simp add: plc_get_def wf_magic)

lemma set_valid: "pt_wf len p \<Longrightarrow> \<exists>glob' g'. plc_set glob g p val = Some (glob', g')"
  by (simp add: plc_set_def wf_magic Let_def)

lemma seti_valid: "pt_wf len p \<Longrightarrow> \<exists>glob' g'. plc_seti glob g p val = Some (glob', g')"
  by (simp add: plc_seti_def wf_magic Let_def)

lemma priv_put:
  assumes "put_priv glob g i w = (glob', g')"
  shows "priv glob' g' = (priv glob g)[i := w]" "gmm_mapmask g' = gmm_mapmask g"
    "globalmap_len g' = globalmap_len g" "gmm_mod_fns g' = gmm_mod_fns g"
  using assms by (auto simp: put_priv_def priv_def split: if_splits)

text \<open>Writing a point: which bit changes, and to what.\<close>

lemma set_bit:
  assumes "pt_wf len p" "plc_set glob g p val = Some (glob', g')"
    and "length (priv glob g) = unat len"
  shows "bit (priv glob' g' ! i) n \<longleftrightarrow>
    (if i = unat (pt_ofs p) \<and> bit (pt_mask p) n \<and> bit (gmm_mapmask g ! i) n
     then bit val (n - unat (pt_shift p)) else bit (priv glob g ! i) n)"
proof -
  let ?i = "unat (pt_ofs p)"
  let ?wm = "pt_mask p AND gmm_mapmask g ! ?i"
  let ?w = "(priv glob g ! ?i AND NOT ?wm) OR (push_bit (unat (pt_shift p)) val AND ?wm)"
  have "put_priv glob g ?i ?w = (glob', g')"
    using assms(2) wf_magic [OF assms(1)] by (simp add: plc_set_def Let_def)
  then have "priv glob' g' = (priv glob g)[?i := ?w]" by (rule priv_put)
  then show ?thesis
    using pt_wf_ofs [OF assms(1)] assms(3) mask_bit [OF assms(1), of n] pt_wf_bounds(1) [OF assms(1)]
    by (cases "i = ?i") (auto simp: bits dest: bit_imp_le_length)
qed

lemma seti_bit:
  assumes "pt_wf len p" "plc_seti glob g p val = Some (glob', g')"
    and "length (priv glob g) = unat len"
  shows "bit (priv glob' g' ! i) n \<longleftrightarrow>
    (if i = unat (pt_ofs p) \<and> bit (pt_mask p) n \<and> bit (gmm_mapmask g ! i) n
     then \<not> bit val (n - unat (pt_shift p)) else bit (priv glob g ! i) n)"
proof -
  let ?i = "unat (pt_ofs p)"
  let ?wm = "pt_mask p AND gmm_mapmask g ! ?i"
  let ?w = "(priv glob g ! ?i AND NOT ?wm) OR (NOT (push_bit (unat (pt_shift p)) val) AND ?wm)"
  have "put_priv glob g ?i ?w = (glob', g')"
    using assms(2) wf_magic [OF assms(1)] by (simp add: plc_seti_def Let_def)
  then have "priv glob' g' = (priv glob g)[?i := ?w]" by (rule priv_put)
  then show ?thesis
    using pt_wf_ofs [OF assms(1)] assms(3) mask_bit [OF assms(1), of n] pt_wf_bounds(1) [OF assms(1)]
    by (cases "i = ?i") (auto simp: bits dest: bit_imp_le_length)
qed

lemma set_frame:
  assumes "plc_set glob g p val = Some (glob', g')"
  shows "gmm_mapmask g' = gmm_mapmask g" "globalmap_len g' = globalmap_len g"
    "gmm_mod_fns g' = gmm_mod_fns g" "length (priv glob' g') = length (priv glob g)"
  using assms priv_put by (fastforce simp: plc_set_def Let_def split: if_splits)+

lemma seti_frame:
  assumes "plc_seti glob g p val = Some (glob', g')"
  shows "gmm_mapmask g' = gmm_mapmask g" "globalmap_len g' = globalmap_len g"
    "gmm_mod_fns g' = gmm_mod_fns g" "length (priv glob' g') = length (priv glob g)"
  using assms priv_put by (fastforce simp: plc_seti_def Let_def split: if_splits)+

section \<open>What reading and writing a point do\<close>

definition may_write :: "gmm \<Rightarrow> plc_pt \<Rightarrow> bool" where
  "may_write g p \<longleftrightarrow> (gmm_mapmask g ! unat (pt_ofs p)) AND pt_mask p = pt_mask p"

lemma may_write_bit:
  "may_write g p \<Longrightarrow> bit (pt_mask p) n \<Longrightarrow> bit (gmm_mapmask g ! unat (pt_ofs p)) n"
  unfolding may_write_def by (metis bit_and_iff)

text \<open>Two points share no bit.\<close>

definition pt_disjoint :: "plc_pt \<Rightarrow> plc_pt \<Rightarrow> bool" where
  "pt_disjoint p q \<longleftrightarrow> pt_ofs p \<noteq> pt_ofs q \<or> pt_mask p AND pt_mask q = 0"

lemma pt_disjoint_bit:
  "pt_disjoint p q \<Longrightarrow> unat (pt_ofs p) = unat (pt_ofs q) \<Longrightarrow> bit (pt_mask p) n \<Longrightarrow> \<not> bit (pt_mask q) n"
proof
  assume d: "pt_disjoint p q" "unat (pt_ofs p) = unat (pt_ofs q)" "bit (pt_mask p) n" "bit (pt_mask q) n"
  then have "bit (pt_mask p AND pt_mask q) n" by (simp add: bit_and_iff)
  moreover have "pt_ofs p = pt_ofs q" using d(2) by (simp add: word_unat_eq_iff)
  ultimately show False using d(1) by (auto simp: pt_disjoint_def)
qed

text \<open>C29. Reading back a point that the module may write gives the value written, cut to the
  width of the point; a point that shares no bit with it reads as before.\<close>

theorem plc_get_after_set:
  assumes "pt_wf len p" "length (priv glob g) = unat len" "may_write g p"
    and "plc_set glob g p val = Some (glob', g')"
  shows "plc_get glob' g' p = Some (take_bit (unat (pt_length p)) val)
    \<and> (\<forall>q. pt_wf len q \<longrightarrow> pt_disjoint p q \<longrightarrow> plc_get glob' g' q = plc_get glob g q)"
proof (intro conjI allI impI)
  note sb = set_bit [OF assms(1,4,2)]
  note mb = mask_bit [OF assms(1)]
  obtain v where v: "plc_get glob' g' p = Some v" using get_valid [OF assms(1)] by blast
  have "v = take_bit (unat (pt_length p)) val"
  proof (rule bit_word_eqI)
    fix n
    have "bit (pt_mask p) (unat (pt_shift p) + n) \<longleftrightarrow> n < unat (pt_length p)" by (auto simp: mb)
    then show "bit v n \<longleftrightarrow> bit (take_bit (unat (pt_length p)) val) n"
      using get_bit [OF assms(1) v, of n] sb [of "unat (pt_ofs p)" "unat (pt_shift p) + n"]
        may_write_bit [OF assms(3), of "unat (pt_shift p) + n"]
      by (auto simp: bit_take_bit_iff)
  qed
  then show "plc_get glob' g' p = Some (take_bit (unat (pt_length p)) val)" using v by simp
  fix q
  assume q: "pt_wf len q" "pt_disjoint p q"
  obtain u w where u: "plc_get glob g q = Some u" and w: "plc_get glob' g' q = Some w"
    using get_valid [OF q(1)] by blast
  have "w = u"
  proof (rule bit_word_eqI)
    fix n
    have "n < unat (pt_length q) \<Longrightarrow> bit (pt_mask q) (unat (pt_shift q) + n)"
      by (auto simp: mask_bit [OF q(1)])
    then show "bit w n \<longleftrightarrow> bit u n"
      using get_bit [OF q(1) u, of n] get_bit [OF q(1) w, of n] pt_disjoint_bit [OF q(2)]
        sb [of "unat (pt_ofs q)" "unat (pt_shift q) + n"] by metis
  qed
  then show "plc_get glob' g' q = plc_get glob g q" using u w by simp
qed

text \<open>A module in the local variant with two words, one of them its own.\<close>

definition g_two :: gmm where
  "g_two = \<lparr>gmm_mod_fns = variant_local, gmm_status = 1, gmm_module_name = Some ''m'',
     gmm_privmap = [0, 0], gmm_mapmask = [0xff, 0], globalmap_len = 2, globalmap_size = 8,
     magic_bit_aliases = False\<rparr>"

definition p_four :: plc_pt where
  "p_four = plc_pt_by_loc_local 2 0 3 4"

lemma p_four_fields [simp]:
  "pt_magic p_four = PT_MAGIC" "pt_ofs p_four = 0" "pt_mask p_four = 0x78" "pt_shift p_four = 3"
  "pt_length p_four = 4"
  by (simp_all add: p_four_def plc_pt_by_loc_local_def mask_eq_exp_minus_1 push_bit_eq_mult)

lemma p_four_wf: "pt_wf 2 p_four"
  by (rule by_loc_wf [OF p_four_def]) (simp add: p_four_def plc_pt_by_loc_local_def)

lemma plc_get_after_set_witness:
  "\<exists>glob' g'. plc_set [0, 0] g_two p_four 0x15 = Some (glob', g') \<and> plc_get glob' g' p_four = Some 5"
proof -
  obtain glob' g' where s: "plc_set [0, 0] g_two p_four 0x15 = Some (glob', g')"
    using set_valid [OF p_four_wf] by blast
  have "length (priv [0, 0] g_two) = unat (2 :: i32)" "may_write g_two p_four"
    by (simp_all add: priv_def g_two_def may_write_def)
  from plc_get_after_set [OF p_four_wf this s] s show ?thesis
    by (auto simp: take_bit_eq_mask mask_eq_exp_minus_1)
qed

text \<open>C30. Writing a point, plainly or inverted, changes no bit outside the point and no bit the
  module may not write.\<close>

theorem plc_set_only_own_bits:
  assumes "pt_wf len p" "length (priv glob g) = unat len"
    and "plc_set glob g p val = Some (glob', g') \<or> plc_seti glob g p val = Some (glob', g')"
  shows "(\<forall>i n. i \<noteq> unat (pt_ofs p) \<or> \<not> bit (pt_mask p) n \<or> \<not> bit (gmm_mapmask g ! i) n \<longrightarrow>
      bit (priv glob' g' ! i) n = bit (priv glob g ! i) n) \<and> gmm_mapmask g' = gmm_mapmask g"
  using assms(3)
proof
  assume a: "plc_set glob g p val = Some (glob', g')"
  show ?thesis using set_bit [OF assms(1) a assms(2)] set_frame [OF a] by simp
next
  assume a: "plc_seti glob g p val = Some (glob', g')"
  show ?thesis using seti_bit [OF assms(1) a assms(2)] seti_frame [OF a] by simp
qed

lemma plc_set_only_own_bits_witness:
  "\<exists>glob' g'. plc_set [0, 0] g_two p_four 0x15 = Some (glob', g') \<and> \<not> bit (priv glob' g' ! 0) 7"
proof -
  obtain glob' g' where s: "plc_set [0, 0] g_two p_four 0x15 = Some (glob', g')"
    using set_valid [OF p_four_wf] by blast
  have l: "length (priv [0, 0] g_two) = unat (2 :: i32)" by (simp add: priv_def g_two_def)
  have "\<not> bit (pt_mask p_four) 7"
    unfolding mask_bit [OF p_four_wf] by simp
  then show ?thesis
    using plc_set_only_own_bits [OF p_four_wf l disjI1, OF s] s
    by (auto simp: priv_def g_two_def)
qed

text \<open>A sub-point is valid exactly when it lies inside its point, and reading it gives that
  part of the point's value.\<close>

theorem plc_subpt_get:
  assumes "pt_wf (globalmap_len g) p" "gmm_mod_fns g \<noteq> variant_error"
  shows "\<exists>q. plc_subpt g p b l = Some q \<and>
    (pt_valid q \<longleftrightarrow> unat b + unat l \<le> unat (pt_length p)) \<and>
    (pt_valid q \<longrightarrow> pt_wf (globalmap_len g) q \<and>
       plc_get glob g q = map_option (\<lambda>v. take_bit (unat l) (drop_bit (unat b) v)) (plc_get glob g p))"
proof (cases "unat b + unat l \<le> unat (pt_length p)")
  case False
  then show ?thesis using wf_magic [OF assms(1)] by (simp add: plc_subpt_def)
next
  case True
  let ?len = "globalmap_len g"
  let ?q = "plc_pt_by_loc_local ?len (pt_ofs p) (pt_shift p + b) l"
  note bd = pt_wf_bounds [OF assms(1)]
  have sh: "unat (pt_shift p + b) = unat (pt_shift p) + unat b"
    using True bd(1) by (subst unat_plus_if_size) (simp add: word_size)
  have q: "pt_valid ?q" using True bd sh by (simp add: by_loc_valid)
  note f = by_loc_fields [OF q]
  have wf: "pt_wf ?len ?q" by (rule by_loc_wf [OF refl f(1)])
  obtain v w where v: "plc_get glob g p = Some v" and w: "plc_get glob g ?q = Some w"
    using get_valid assms(1) wf by blast
  have "w = take_bit (unat l) (drop_bit (unat b) v)"
    using True
    by (intro bit_word_eqI)
      (auto simp: bit_take_bit_iff bit_drop_bit_eq get_bit [OF assms(1) v] get_bit [OF wf w] f sh
        add.assoc)
  then show ?thesis
    using True wf q v w wf_magic [OF assms(1)] assms(2)
    by (simp add: plc_subpt_def plc_pt_by_loc_def)
qed

lemma plc_subpt_get_witness:
  "\<exists>q. plc_subpt g_two p_four 1 2 = Some q \<and> pt_valid q"
  using plc_subpt_get [of g_two p_four 1 2 "[0, 0]"] p_four_wf
  by (auto simp: g_two_def)

text \<open>The inverted read does not clear the bits above the point, although
  \<^verbatim>\<open>gmm.h\<close> says the remaining bits are 0: after an inverted write of
  \<open>val\<close>, it returns the low bits of \<open>val\<close> and ones above them.\<close>

theorem plc_geti_after_seti:
  assumes "pt_wf len p" "length (priv glob g) = unat len" "may_write g p"
    and "plc_seti glob g p val = Some (glob', g')"
  shows "\<exists>v. plc_geti glob' g' p = Some v \<and>
    take_bit (unat (pt_length p)) v = take_bit (unat (pt_length p)) val \<and>
    (\<forall>n. bit v n \<longleftrightarrow> (if n < unat (pt_length p) then bit val n else n + unat (pt_shift p) < 32))"
proof -
  let ?w = "priv glob' g' ! unat (pt_ofs p)"
  let ?v = "drop_bit (unat (pt_shift p)) (NOT (?w AND pt_mask p))"
  have v: "plc_geti glob' g' p = Some ?v"
    using wf_magic [OF assms(1)] by (simp add: plc_geti_def)
  have b: "bit ?v n \<longleftrightarrow> (if n < unat (pt_length p) then bit val n else n + unat (pt_shift p) < 32)"
    for n
  proof -
    let ?n = "unat (pt_shift p) + n"
    have "bit ?v n \<longleftrightarrow> ?n < 32 \<and> \<not> (bit ?w ?n \<and> bit (pt_mask p) ?n)"
      by (simp only: bit_drop_bit_eq comp_def bit_not_iff bit_and_iff) simp
    moreover have "bit (pt_mask p) ?n \<longleftrightarrow> n < unat (pt_length p)"
      by (auto simp: mask_bit [OF assms(1)])
    ultimately show ?thesis
      using seti_bit [OF assms(1,4,2), of "unat (pt_ofs p)" ?n] may_write_bit [OF assms(3), of ?n]
        pt_wf_bounds(1) [OF assms(1)] by (auto simp: add.commute)
  qed
  have "take_bit (unat (pt_length p)) ?v = take_bit (unat (pt_length p)) val"
    by (rule bit_word_eqI) (simp only: bit_take_bit_iff b, simp)
  then show ?thesis using v b by blast
qed

lemma plc_geti_after_seti_witness:
  "\<exists>glob' g' v. plc_seti [0, 0] g_two p_four 5 = Some (glob', g')
     \<and> plc_geti glob' g' p_four = Some v \<and> bit v 20"
proof -
  obtain glob' g' where s: "plc_seti [0, 0] g_two p_four 5 = Some (glob', g')"
    using seti_valid [OF p_four_wf] by blast
  have "length (priv [0, 0] g_two) = unat (2 :: i32)" "may_write g_two p_four"
    by (simp_all add: priv_def g_two_def may_write_def)
  from plc_geti_after_seti [OF p_four_wf this s] s show ?thesis by auto
qed

end
