(* ===== verification/GmmConf.thy ===== *)
theory GmmConf
  imports CmmData CmmProps GmmPoint
begin

text \<open>
  The configured points: one block of type \<^verbatim>\<open>block_type_gmm\<close> per point, named after
  it, with a \<^verbatim>\<open>gmm_pt_conf_t\<close> inside (owner at 0, offset at 32, bit at 36, length at 37;
  40 bytes). The functions are those of \<^verbatim>\<open>lib/gmm/gmm.c\<close> and
  \<^verbatim>\<open>lib/gmm/gmm_local.c\<close>; a result of \<open>None\<close> is a loop over a corrupted
  segment that never ends.
\<close>

section \<open>Point records\<close>

definition GMM_OWNER_MAX_LEN :: nat where
  "GMM_OWNER_MAX_LEN = 31"

definition sizeof_pt_conf :: nat where
  "sizeof_pt_conf = 40"

definition wr8 :: "mem \<Rightarrow> nat \<Rightarrow> u8 \<Rightarrow> mem" where
  "wr8 m a v = m(a := v)"

definition gmm_config_pt_numb :: "cmm_proc \<Rightarrow> mem \<Rightarrow> int option" where
  "gmm_config_pt_numb p m = cmm_block_count p m block_type_gmm"

definition gmm_insert_pt_cmm ::
  "cmm_proc \<Rightarrow> mem \<Rightarrow> string option \<Rightarrow> string \<Rightarrow> i32 \<Rightarrow> u8 \<Rightarrow> u8 \<Rightarrow> (mem \<times> int) option" where
  "gmm_insert_pt_cmm p m name owner offset bitno len =
     (if name = None then Some (m, -1)
      else case cmm_block_alloc p m block_type_gmm name (of_nat sizeof_pt_conf) of
             None \<Rightarrow> None
           | Some (m1, None) \<Rightarrow> Some (m1, -1)
           | Some (m1, Some a) \<Rightarrow>
               let m2 = c_strncpy m1 a owner GMM_OWNER_MAX_LEN;
                   m3 = wr32 m2 (a + 32) offset;
                   m4 = wr8 m3 (a + 36) bitno;
                   m5 = wr8 m4 (a + 37) len
               in Some (m5, 0))"

definition gmm_remove_pt_cmm :: "cmm_proc \<Rightarrow> mem \<Rightarrow> string option \<Rightarrow> (mem \<times> int) option" where
  "gmm_remove_pt_cmm p m name =
     (case cmm_block_find p m block_type_gmm name of
        None \<Rightarrow> None
      | Some (a, _) \<Rightarrow> cmm_block_free p m a)"

definition pt_conf :: "mem \<Rightarrow> nat \<Rightarrow> i32 \<times> u8 \<times> u8" where
  "pt_conf m a = (rd32 m (a + 32), m (a + 36), m (a + 37))"

text \<open>Offset, bit and length, or the error of the code.\<close>

definition gmm_config_pt_by_name ::
  "cmm_proc \<Rightarrow> mem \<Rightarrow> string option \<Rightarrow> (i32 \<times> u8 \<times> u8) option option" where
  "gmm_config_pt_by_name p m name =
     (if name = None then Some None
      else map_option
             (\<lambda>(a, z). case a of
                None \<Rightarrow> None
              | Some a \<Rightarrow> if z \<noteq> of_nat sizeof_pt_conf then None else Some (pt_conf m a))
             (cmm_block_find p m block_type_gmm name))"

text \<open>Where the name and the owner are, then offset, bit and length. The 16-bit index is passed
  on as a \<^verbatim>\<open>u32\<close>.\<close>

definition gmm_config_pt_by_index ::
  "cmm_proc \<Rightarrow> mem \<Rightarrow> i16 \<Rightarrow> (nat \<times> nat \<times> i32 \<times> u8 \<times> u8) option option" where
  "gmm_config_pt_by_index p m pt_index =
     map_option
       (\<lambda>(a, z, name). case (a, name) of
          (Some a, Some nm) \<Rightarrow>
            if z \<noteq> of_nat sizeof_pt_conf then None else Some (nm, a, pt_conf m a)
        | _ \<Rightarrow> None)
       (cmm_block_get p m block_type_gmm (scast pt_index))"

section \<open>Handles of configured points\<close>

definition plc_pt_count_local :: "cmm_proc \<Rightarrow> mem \<Rightarrow> int option" where
  "plc_pt_count_local p m = gmm_config_pt_numb p m"

definition plc_pt_by_name_local :: "cmm_proc \<Rightarrow> mem \<Rightarrow> i32 \<Rightarrow> string option \<Rightarrow> plc_pt option" where
  "plc_pt_by_name_local p m glen name =
     map_option
       (\<lambda>c. case c of None \<Rightarrow> pt_error
                    | Some (offset, bitno, len) \<Rightarrow>
                        plc_pt_by_loc_local glen offset bitno len)
       (gmm_config_pt_by_name p m name)"

text \<open>The handle, and the addresses of the strings that are duplicated for the caller.\<close>

definition plc_pt_by_index_local ::
  "cmm_proc \<Rightarrow> mem \<Rightarrow> i32 \<Rightarrow> int \<Rightarrow> (plc_pt \<times> (nat \<times> nat) option) option" where
  "plc_pt_by_index_local p m glen index =
     map_option
       (\<lambda>c. case c of None \<Rightarrow> (pt_error, None)
                    | Some (nm, ow, offset, bitno, len) \<Rightarrow>
                        (plc_pt_by_loc_local glen offset bitno len, Some (nm, ow)))
       (gmm_config_pt_by_index p m (word_of_int index))"

definition gmm_mod_pt_by_name :: "cmm_proc \<Rightarrow> mem \<Rightarrow> gmm \<Rightarrow> string \<Rightarrow> plc_pt option" where
  "gmm_mod_pt_by_name p m g name =
     (if gmm_mod_fns g = variant_error then None
      else plc_pt_by_name_local p m (globalmap_len g) (Some name))"

definition is_digit :: "char \<Rightarrow> bool" where
  "is_digit c \<longleftrightarrow> c \<in> set ''0123456789''"

definition digit_val :: "char \<Rightarrow> nat" where
  "digit_val c = of_char c - of_char (CHR ''0'')"

text \<open>\<^verbatim>\<open>atoi\<close> on a string of digits.\<close>

definition atoi_digits :: "string \<Rightarrow> nat" where
  "atoi_digits ds = foldl (\<lambda>n c. 10 * n + digit_val c) 0 ds"

text \<open>The position of the point in a name that ends in \<^verbatim>\<open>.d\<close> or \<^verbatim>\<open>.dd\<close>.\<close>

definition bit_suffix :: "string \<Rightarrow> nat option" where
  "bit_suffix name =
     (let l = length name
      in if 2 < l \<and> is_digit (name ! (l - 1)) then
           (if name ! (l - 2) = CHR ''.'' then Some (l - 2)
            else if 3 < l \<and> is_digit (name ! (l - 2)) \<and> name ! (l - 3) = CHR ''.''
            then Some (l - 3) else None)
         else None)"

definition plc_pt_by_name :: "cmm_proc \<Rightarrow> mem \<Rightarrow> gmm \<Rightarrow> string \<Rightarrow> plc_pt option" where
  "plc_pt_by_name p m g name =
     (case gmm_mod_pt_by_name p m g name of
        None \<Rightarrow> None
      | Some res \<Rightarrow>
          if \<not> pt_valid res \<and> magic_bit_aliases g then
            (case bit_suffix name of
               None \<Rightarrow> Some res
             | Some l \<Rightarrow>
                 (case gmm_mod_pt_by_name p m g (take l name) of
                    None \<Rightarrow> None
                  | Some res \<Rightarrow>
                      if pt_valid res \<and> 0 < plc_pt_len res
                      then plc_subpt g res (of_nat (atoi_digits (drop (l + 1) name))) 1
                      else Some res))
          else Some res)"

section \<open>What is looked up\<close>

lemma by_name_ready:
  assumes "cmm_fully_initialized p" "cmm_find_mem m block_type_gmm s = Some r"
  shows "gmm_config_pt_by_name p m (Some s) =
    Some (case r of None \<Rightarrow> None
          | Some (a, z) \<Rightarrow> if z \<noteq> of_nat sizeof_pt_conf then None else Some (pt_conf m a))"
  using assms by (auto simp: gmm_config_pt_by_name_def cmm_block_find_def ptr_and_size_def
    split: option.splits)

lemma insert_ready:
  assumes "cmm_fully_initialized p"
  shows "gmm_insert_pt_cmm p m (Some s) owner offset bitno len =
    (case cmm_alloc_mem m block_type_gmm s 40 of
       None \<Rightarrow> None
     | Some (m1, None) \<Rightarrow> Some (m1, -1)
     | Some (m1, Some a) \<Rightarrow>
         Some (wr8 (wr8 (wr32 (c_strncpy m1 a owner 31) (a + 32) offset) (a + 36) bitno) (a + 37) len, 0))"
  using assms alloc_ready [of p 40 m block_type_gmm s]
  by (auto simp: gmm_insert_pt_cmm_def sizeof_pt_conf_def GMM_OWNER_MAX_LEN_def Let_def
    split: option.splits)

definition point_name :: "string \<Rightarrow> bool" where
  "point_name s \<longleftrightarrow> length s < 31 \<and> c_string s"

lemma point_usable: "point_name s \<Longrightarrow> usable block_type_gmm s"
  by (simp add: point_name_def usable_def CMM_NAME_MAX_LEN_def)

text \<open>C31. Inserting a new point either fails without any change, or keeps the segment tiled and
  the other points as they are, and the point is found with the values stored, provided its block got
  exactly 40 bytes; a block that was left up to 48 bytes bigger makes the point unreadable,
  although the insertion reported success.\<close>

theorem gmm_insert_lookup:
  assumes inv: "cmm_inv m" and p: "cmm_fully_initialized p" and s: "point_name s"
    and no: "cmm_find_mem m block_type_gmm s = Some None"
  shows "gmm_insert_pt_cmm p m (Some s) owner offset bitno len = Some (m, -1) \<or>
    (\<exists>m' a z. gmm_insert_pt_cmm p m (Some s) owner offset bitno len = Some (m', 0) \<and> cmm_inv m' \<and>
      40 \<le> z \<and> z \<le> 88 \<and> cmm_find_mem m' block_type_gmm s = Some (Some (a, z)) \<and>
      gmm_config_pt_by_name p m' (Some s) =
        Some (if z = 40 then Some (offset, bitno, len) else None) \<and>
      (\<forall>s'. point_name s' \<longrightarrow> s' \<noteq> s \<longrightarrow>
         cmm_find_mem m' block_type_gmm s' = cmm_find_mem m block_type_gmm s'))"
proof -
  obtain m1 r where new: "cmm_alloc_mem m block_type_gmm s 40 = Some (m1, r)"
    using store.new_returns [OF inv] by blast
  show ?thesis
  proof (cases r)
    case None
    then show ?thesis using new insert_ready [OF p] store.new_fails [OF inv] by auto
  next
    case (Some a)
    define m' where "m' =
      wr8 (wr8 (wr32 (c_strncpy m1 a owner 31) (a + 32) offset) (a + 36) bitno) (a + 37) len"
    have ins: "gmm_insert_pt_cmm p m (Some s) owner offset bitno len = Some (m', 0)"
      using new Some insert_ready [OF p] by (simp add: m'_def)
    have out: "\<forall>x. x < a \<or> a + unat (40 :: u32) \<le> x \<longrightarrow> m' x = m1 x"
      by (auto simp: m'_def wr8_def mem_simps)
    note f = alloc_write_find [OF inv new [unfolded Some] point_usable [OF s] no out]
    obtain z where z: "cmm_find_mem m' block_type_gmm s = Some (Some (a, z))" "40 \<le> z"
      "unat z \<le> 88" using f(2) by auto
    have "rd32 m' (a + 32) = offset"
      by (subst rd32_cong [of m' "a + 32" "wr32 (c_strncpy m1 a owner 31) (a + 32) offset"])
        (simp_all add: m'_def wr8_def)
    then have "pt_conf m' a = (offset, bitno, len)" by (simp add: pt_conf_def m'_def wr8_def)
    moreover have "cmm_find_mem m' block_type_gmm s' = cmm_find_mem m block_type_gmm s'"
      if "point_name s'" "s' \<noteq> s" for s'
      using f(3) [OF point_usable [OF that(1)]] that(2) by simp
    moreover have "z \<le> 88" using z(3) by (simp add: word_le_nat_alt)
    ultimately show ?thesis
      using ins f(1) z by_name_ready [OF p z(1)] by (simp add: sizeof_pt_conf_def)
  qed
qed

lemma gmm_insert_lookup_witness:
  "\<exists>m' a z. gmm_insert_pt_cmm p_ready m_fresh (Some ''lamp'') ''io'' 3 5 1 = Some (m', 0)
     \<and> gmm_config_pt_by_name p_ready m' (Some ''lamp'') = Some (if z = 40 then Some (3, 5, 1) else None)
     \<and> cmm_find_mem m' block_type_gmm ''lamp'' = Some (Some (a, z))"
proof -
  have "cmm_find_mem m_fresh block_type_gmm ''lamp'' = Some None"
    using fresh_find [of block_type_gmm "''lamp''"]
    by (auto simp: cmm_block_find_def)
  moreover have "point_name ''lamp''" by (simp add: point_name_def c_string_def)
  moreover have "gmm_insert_pt_cmm p_ready m_fresh (Some ''lamp'') ''io'' 3 5 1 \<noteq> Some (m_fresh, -1)"
    using fresh_alloc [of 40 block_type_gmm "''lamp''"] insert_ready [OF p_ready_init] by auto
  ultimately show ?thesis
    using gmm_insert_lookup [OF fresh_inv p_ready_init, of "''lamp''" "''io''" 3 5 1] by blast
qed

text \<open>A point can be inserted with success and not be found: in a segment whose free block
  has 60 bytes the block is not broken up, and its size is not that of a point record.\<close>

theorem gmm_insert_lost:
  "\<exists>m'. gmm_insert_pt_cmm p_ready (cmm_format (\<lambda>_. 0) 0 128) (Some ''lamp'') ''io'' 3 5 1 = Some (m', 0)
     \<and> cmm_block_count p_ready m' block_type_gmm = Some 1
     \<and> gmm_config_pt_by_name p_ready m' (Some ''lamp'') = Some None"
proof -
  let ?m = "cmm_format (\<lambda>_. 0) 0 128"
  let ?t = "cmm_take ?m 20 block_type_gmm ''lamp'' 40"
  have ch: "cmm_chain ?m [20]" by (rule format_chain) simp
  have new: "cmm_alloc_mem ?m block_type_gmm ''lamp'' 40 = Some (?t, Some 68)"
  proof (cases rule: alloc_cases [OF ch, of block_type_gmm "''lamp''" 40])
    case 1
    then show ?thesis by (simp add: best_fit_def suits_def format_fields)
  next
    case (2 b)
    then show ?thesis by simp
  qed
  have sz: "(40 :: u32) \<le> blk_size ?m 20" by (simp add: format_fields)
  have nosplit: "\<not> splits ?m 20 40" by (simp add: splits_def format_fields sizeof_block_def)
  note f = take_fields [OF _ sz, where t = block_type_gmm and s = "''lamp''", simplified]
  define m' where "m' =
    wr8 (wr8 (wr32 (c_strncpy ?t 68 ''io'' 31) (68 + 32) 3) (68 + 36) 5) (68 + 37) 1"
  have ins: "gmm_insert_pt_cmm p_ready ?m (Some ''lamp'') ''io'' 3 5 1 = Some (m', 0)"
    using new insert_ready [OF p_ready_init, of ?m "''lamp''"] by (simp add: m'_def)
  have ch1: "cmm_chain ?t [20]"
    using chain_take_chain [OF ch _ sz, where t = block_type_gmm and s = "''lamp''"] nosplit by (simp add: chain_take_def)
  have s1: "blk_size ?t 20 = 60" "blk_type ?t 20 = 3" using f(1,9) nosplit by (simp_all add: format_fields)
  have dw: "data_write ?t 20 m'"
    by (auto simp: data_write_def m'_def wr8_def mem_simps blk_end_def s1 sizeof_block_def)
  have ch2: "cmm_chain m' [20]" using data_write_chain [OF ch1 dw] by simp
  have hd: "agree_on ?t m' 20 (20 + 48)" using data_write_hdr [OF ch1 dw] by simp
  have s2: "blk_size m' 20 = 60" "blk_type m' 20 = 3"
    using agree_hdr(1,4) [OF hd] s1 by simp_all
  have "answers m' block_type_gmm ''lamp'' 20 = answers ?t block_type_gmm ''lamp'' 20"
    by (rule agree_answers_hdr [OF hd]) simp
  moreover have "answers ?t block_type_gmm ''lamp'' 20"
    using take_named [OF _ sz, where t = block_type_gmm and s = "''lamp''"] s1 by (simp add: answers_def)
  ultimately have "cmm_find_mem m' block_type_gmm ''lamp'' = Some (Some (68, 60))"
    using chain_find' [OF ch2, of block_type_gmm "''lamp''"] s2 by simp
  then have "gmm_config_pt_by_name p_ready m' (Some ''lamp'') = Some None"
    using by_name_ready [OF p_ready_init] by (simp add: sizeof_pt_conf_def)
  moreover have "cmm_block_count p_ready m' block_type_gmm = Some 1"
    using s2 by (simp add: cmm_block_count_def chain_iter [OF ch2] count_body_def)
  ultimately show ?thesis using ins by blast
qed

end
