(* ===== verification/GmmMap.thy ===== *)
theory GmmMap
  imports GmmConf
begin

text \<open>
  Exchanging values with the global map (\<^verbatim>\<open>lib/gmm/gmm_local.c\<close>,
  \<^verbatim>\<open>lib/gmm/gmm_shared.c\<close>), the write masks, and several modules at work on one global
  map. An operation leaves the global map and, unless the process ended with
  \<^verbatim>\<open>exit(1)\<close>, the module's state. The updates run under the mutex of the global map and
  are one step each.
\<close>

section \<open>Updates\<close>

definition merge_word :: "u32 \<Rightarrow> u32 \<Rightarrow> u32 \<Rightarrow> u32" where
  "merge_word wm old new = (old AND NOT wm) OR (new AND wm)"

definition update_word :: "nat \<Rightarrow> u32 list \<times> gmm \<Rightarrow> u32 list \<times> gmm" where
  "update_word i s =
     (case s of (glob, g) \<Rightarrow>
        let w = merge_word (gmm_mapmask g ! i) (glob ! i) (gmm_privmap g ! i)
        in (glob[i := w], g\<lparr>gmm_privmap := (gmm_privmap g)[i := w]\<rparr>))"

definition plc_update_local :: "u32 list \<Rightarrow> gmm \<Rightarrow> u32 list \<times> gmm option" where
  "plc_update_local glob g =
     map_prod id Some (fold update_word [0..<nat (sint (globalmap_len g))] (glob, g))"

definition update_pt_word :: "u32 list \<Rightarrow> gmm \<Rightarrow> plc_pt \<Rightarrow> u32 list \<times> gmm" where
  "update_pt_word glob g p =
     (let i = unat (pt_ofs p);
          glob' = glob[i := merge_word (gmm_mapmask g ! i AND pt_mask p) (glob ! i) (gmm_privmap g ! i)]
      in (glob', g\<lparr>gmm_privmap :=
            (gmm_privmap g)[i := (glob' ! i AND pt_mask p) OR (gmm_privmap g ! i AND NOT (pt_mask p))]\<rparr>))"

definition plc_update_pt_local :: "u32 list \<Rightarrow> gmm \<Rightarrow> plc_pt \<Rightarrow> u32 list \<times> gmm option" where
  "plc_update_pt_local glob g p =
     (if pt_magic p \<noteq> PT_MAGIC then (glob, None)
      else map_prod id Some (update_pt_word glob g p))"

fun plc_update_pts_local :: "u32 list \<Rightarrow> gmm \<Rightarrow> plc_pt list \<Rightarrow> u32 list \<times> gmm option" where
  "plc_update_pts_local glob g [] = (glob, Some g)"
| "plc_update_pts_local glob g (p # ps) =
     (if pt_magic p \<noteq> PT_MAGIC then (glob, None)
      else case update_pt_word glob g p of
             (glob', g') \<Rightarrow> plc_update_pts_local glob' g' ps)"

definition plc_update_shared :: "u32 list \<Rightarrow> gmm \<Rightarrow> u32 list \<times> gmm option" where
  "plc_update_shared glob g = (glob, Some g)"

definition plc_update_pt_shared :: "u32 list \<Rightarrow> gmm \<Rightarrow> plc_pt \<Rightarrow> u32 list \<times> gmm option" where
  "plc_update_pt_shared glob g p = (glob, if pt_magic p \<noteq> PT_MAGIC then None else Some g)"

fun plc_update_pts_shared :: "u32 list \<Rightarrow> gmm \<Rightarrow> plc_pt list \<Rightarrow> u32 list \<times> gmm option" where
  "plc_update_pts_shared glob g [] = (glob, Some g)"
| "plc_update_pts_shared glob g (p # ps) =
     (if pt_magic p \<noteq> PT_MAGIC then (glob, None) else plc_update_pts_shared glob g ps)"

text \<open>The public functions go through the function table.\<close>

definition plc_update :: "u32 list \<Rightarrow> gmm \<Rightarrow> u32 list \<times> gmm option" where
  "plc_update glob g =
     (case gmm_mod_fns g of
        variant_local \<Rightarrow> plc_update_local glob g
      | variant_shared \<Rightarrow> plc_update_shared glob g
      | variant_error \<Rightarrow> (glob, None))"

definition plc_update_pt :: "u32 list \<Rightarrow> gmm \<Rightarrow> plc_pt \<Rightarrow> u32 list \<times> gmm option" where
  "plc_update_pt glob g p =
     (case gmm_mod_fns g of
        variant_local \<Rightarrow> plc_update_pt_local glob g p
      | variant_shared \<Rightarrow> plc_update_pt_shared glob g p
      | variant_error \<Rightarrow> (glob, None))"

definition plc_update_pts :: "u32 list \<Rightarrow> gmm \<Rightarrow> plc_pt list \<Rightarrow> u32 list \<times> gmm option" where
  "plc_update_pts glob g ps =
     (case gmm_mod_fns g of
        variant_local \<Rightarrow> plc_update_pts_local glob g ps
      | variant_shared \<Rightarrow> plc_update_pts_shared glob g ps
      | variant_error \<Rightarrow> (glob, None))"

section \<open>The write mask\<close>

text \<open>The loop of \<^verbatim>\<open>gmm_init_mapmask\<close> over the configured points; it stops at the first
  index that cannot be read.\<close>

definition mask_point :: "mem \<Rightarrow> gmm \<Rightarrow> string \<Rightarrow> nat \<times> i32 \<times> u8 \<times> u8 \<Rightarrow> u32 list \<Rightarrow> u32 list" where
  "mask_point m g module c mapmask =
     (case c of (owner, ofs, bitno, len) \<Rightarrow>
        if m owner \<noteq> 0 \<and> c_streq m owner module
           \<and> pt_valid (plc_pt_by_loc_local (globalmap_len g) ofs bitno len)
        then mapmask[unat ofs := mapmask ! unat ofs
               OR pt_mask (plc_pt_by_loc_local (globalmap_len g) ofs bitno len)]
        else mapmask)"

partial_function (option) mapmask_loop ::
  "cmm_proc \<Rightarrow> mem \<Rightarrow> gmm \<Rightarrow> string \<Rightarrow> int \<Rightarrow> u32 list \<Rightarrow> u32 list option" where
  "mapmask_loop p m g module index mapmask =
     (case gmm_config_pt_by_index p m (word_of_int index) of
        None \<Rightarrow> None
      | Some None \<Rightarrow> Some mapmask
      | Some (Some (nm, c)) \<Rightarrow>
          mapmask_loop p m g module (index + 1) (mask_point m g module c mapmask))"

definition gmm_init_mapmask ::
  "cmm_proc \<Rightarrow> mem \<Rightarrow> gmm \<Rightarrow> string option \<Rightarrow> i32 \<Rightarrow> (gmm \<times> int) option" where
  "gmm_init_mapmask p m g module mapsize =
     (case module of
        None \<Rightarrow> Some (g, -1)
      | Some s \<Rightarrow>
          if sint mapsize < 0 then Some (g, -1)
          else map_option (\<lambda>mapmask. (g\<lparr>gmm_mapmask := mapmask\<rparr>, 0))
                 (mapmask_loop p m g s 0 (replicate (length (gmm_mapmask g)) 0)))"

section \<open>What an update does\<close>

lemma merge_bit: "bit (merge_word wm old new) n \<longleftrightarrow> (if bit wm n then bit new n else bit old n)"
  by (auto simp: merge_word_def bit_or_iff bit_and_iff bit_not_iff dest: bit_imp_le_length)

lemma merge_mask0 [simp]: "merge_word 0 old new = old"
  by (simp add: merge_word_def)

lemma update_fold:
  assumes "n \<le> length glob" "length (gmm_privmap g) = length glob"
  shows "fold update_word [0..<n] (glob, g) =
    (let ws = map (\<lambda>i. merge_word (gmm_mapmask g ! i) (glob ! i) (gmm_privmap g ! i)) [0..<n]
     in (ws @ drop n glob, g\<lparr>gmm_privmap := ws @ drop n (gmm_privmap g)\<rparr>))"
  using assms(1)
proof (induction n)
  case 0
  then show ?case by simp
next
  case (Suc n)
  let ?ws = "map (\<lambda>i. merge_word (gmm_mapmask g ! i) (glob ! i) (gmm_privmap g ! i)) [0..<n]"
  have u: "(?ws @ drop n xs)[n := w] = ?ws @ w # drop (Suc n) xs" if "n < length xs" for w xs
    using that by (simp add: list_update_append Cons_nth_drop_Suc [symmetric])
  have "n < length glob" "n < length (gmm_privmap g)" using Suc.prems assms(2) by auto
  then show ?case
    using Suc u by (simp add: update_word_def Let_def nth_append)
qed

lemma update_local_result:
  assumes "nat (sint (globalmap_len g)) = length glob" "length (gmm_privmap g) = length glob"
  shows "plc_update_local glob g =
    (let ws = map (\<lambda>i. merge_word (gmm_mapmask g ! i) (glob ! i) (gmm_privmap g ! i)) [0..<length glob]
     in (ws, Some (g\<lparr>gmm_privmap := ws\<rparr>)))"
  using assms by (simp add: plc_update_local_def update_fold Let_def)

text \<open>The maps of a module in the local variant have the length the module believes.\<close>

definition maps_ok :: "u32 list \<Rightarrow> gmm \<Rightarrow> bool" where
  "maps_ok glob g \<longleftrightarrow> nat (sint (globalmap_len g)) = length glob \<and> length (gmm_mapmask g) = length glob
     \<and> (gmm_mod_fns g = variant_local \<longrightarrow> length (gmm_privmap g) = length glob)"

text \<open>C34. After an update the private map is the global map; each bit is the module's own value where
  it may write, and the value that was in the global map elsewhere. A second update changes
  nothing.\<close>

theorem plc_update_exchanges:
  assumes "maps_ok glob g" "gmm_mod_fns g = variant_local"
  shows "\<exists>glob' g'. plc_update glob g = (glob', Some g') \<and> maps_ok glob' g' \<and>
    gmm_privmap g' = glob' \<and> plc_update glob' g' = (glob', Some g') \<and>
    (\<forall>i < length glob. \<forall>n. bit (glob' ! i) n =
       (if bit (gmm_mapmask g ! i) n then bit (gmm_privmap g ! i) n else bit (glob ! i) n))"
proof -
  let ?w = "\<lambda>i. merge_word (gmm_mapmask g ! i) (glob ! i) (gmm_privmap g ! i)"
  let ?ws = "map ?w [0..<length glob]"
  let ?g = "g\<lparr>gmm_privmap := ?ws\<rparr>"
  have u: "plc_update glob g = (?ws, Some ?g)"
    using assms update_local_result [of g glob] by (simp add: maps_ok_def plc_update_def Let_def)
  have "map (\<lambda>i. merge_word (gmm_mapmask g ! i) (?ws ! i) (?ws ! i)) [0..<length glob] = ?ws"
    by (simp add: bit_word_eqI merge_bit)
  then have "plc_update ?ws ?g = (?ws, Some ?g)"
    using assms update_local_result [of ?g ?ws] by (simp add: maps_ok_def plc_update_def Let_def)
  then show ?thesis
    using u assms by (auto simp: maps_ok_def merge_bit)
qed

lemma g_two_maps: "maps_ok [1, 2] g_two" "gmm_mod_fns g_two = variant_local"
  by (simp_all add: maps_ok_def g_two_def)

lemma plc_update_exchanges_witness:
  "\<exists>glob' g'. plc_update [1, 2] g_two = (glob', Some g') \<and> gmm_privmap g' = glob'"
  using plc_update_exchanges [OF g_two_maps] by blast

section \<open>Many points at once\<close>

lemma nth_upd: "xs[k := x] ! i = (if i = k \<and> k < length xs then x else xs ! i)"
  by (cases "k < length xs") (auto simp: nth_list_update list_update_beyond)

lemma update_pt_word_frame:
  assumes "update_pt_word glob g p = (glob', g')"
  shows "gmm_mapmask g' = gmm_mapmask g" "gmm_mod_fns g' = gmm_mod_fns g"
    "globalmap_len g' = globalmap_len g" "length glob' = length glob"
    "length (gmm_privmap g') = length (gmm_privmap g)"
    "bit (glob' ! i) n \<noteq> bit (glob ! i) n \<Longrightarrow> bit (gmm_mapmask g ! i) n \<and> i = unat (pt_ofs p)
       \<and> bit (pt_mask p) n \<and> bit (glob' ! i) n = bit (gmm_privmap g ! i) n"
  using assms
  by (auto simp: update_pt_word_def Let_def nth_upd merge_bit bit_and_iff split: if_splits)

text \<open>Updating a list of points under one lock is updating them one after the other, as long as
  every handle is good.\<close>

theorem plc_update_pts_is_fold:
  assumes "\<forall>p \<in> set ps. pt_magic p = PT_MAGIC" "gmm_mod_fns g \<noteq> variant_error"
  shows "plc_update_pts glob g ps =
    foldl (\<lambda>r p. case r of (glob, Some g) \<Rightarrow> plc_update_pt glob g p | (glob, None) \<Rightarrow> (glob, None))
      (glob, Some g) ps"
proof (cases "gmm_mod_fns g")
  case variant_local
  then show ?thesis using assms(1)
  proof (induction ps arbitrary: glob g)
    case (Cons p ps)
    obtain glob' g' where u: "update_pt_word glob g p = (glob', g')" by force
    have v: "gmm_mod_fns g' = variant_local" using update_pt_word_frame(2) [OF u] Cons.prems(1) by simp
    have "plc_update_pt glob g p = (glob', Some g')"
      using u Cons.prems by (simp add: plc_update_pt_def plc_update_pt_local_def)
    moreover have "plc_update_pts glob g (p # ps) = plc_update_pts glob' g' ps"
      using u v Cons.prems by (simp add: plc_update_pts_def)
    moreover have "\<forall>p \<in> set ps. pt_magic p = PT_MAGIC" using Cons.prems(2) by simp
    note Cons.IH [OF v this, of glob']
    ultimately show ?case by simp
  qed (simp add: plc_update_pts_def)
next
  case variant_shared
  then show ?thesis using assms(1)
    by (induction ps arbitrary: glob)
      (simp_all add: plc_update_pts_def plc_update_pt_def plc_update_pt_shared_def)
qed (use assms(2) in simp)

lemma plc_update_pts_is_fold_witness:
  "plc_update_pts [1, 2] g_two [p_four, p_four] =
    (case plc_update_pt [1, 2] g_two p_four of
       (glob, Some g) \<Rightarrow> plc_update_pt glob g p_four | (glob, None) \<Rightarrow> (glob, None))"
  using plc_update_pts_is_fold [of "[p_four, p_four]" g_two "[1, 2]"] by (simp add: g_two_def)

section \<open>Modules at work\<close>

datatype gmm_op =
    Op_set plc_pt u32
  | Op_seti plc_pt u32
  | Op_update
  | Op_update_pt plc_pt
  | Op_update_pts "plc_pt list"

definition or_exit :: "u32 list \<Rightarrow> (u32 list \<times> gmm) option \<Rightarrow> u32 list \<times> gmm option" where
  "or_exit glob r = (case r of None \<Rightarrow> (glob, None) | Some (glob', g') \<Rightarrow> (glob', Some g'))"

fun gmm_do :: "gmm_op \<Rightarrow> u32 list \<Rightarrow> gmm \<Rightarrow> u32 list \<times> gmm option" where
  "gmm_do (Op_set p v) glob g = or_exit glob (plc_set glob g p v)"
| "gmm_do (Op_seti p v) glob g = or_exit glob (plc_seti glob g p v)"
| "gmm_do Op_update glob g = plc_update glob g"
| "gmm_do (Op_update_pt p) glob g = plc_update_pt glob g p"
| "gmm_do (Op_update_pts ps) glob g = plc_update_pts glob g ps"

text \<open>The state of the plant: the global map and the modules, \<open>None\<close> for one that has
  exited. One step is one call of one module.\<close>

type_synonym gmm_sys = "u32 list \<times> gmm option list"

inductive gmm_step :: "gmm_sys \<Rightarrow> nat \<Rightarrow> gmm_sys \<Rightarrow> bool" where
  call: "i < length ms \<Longrightarrow> ms ! i = Some g \<Longrightarrow> gmm_do op glob g = (glob', r) \<Longrightarrow>
     gmm_step (glob, ms) i (glob', ms[i := r])"

inductive_cases gmm_stepE: "gmm_step (glob, ms) i s'"

inductive gmm_run :: "gmm_sys \<Rightarrow> nat list \<Rightarrow> gmm_sys \<Rightarrow> bool" where
  nil: "gmm_run s [] s"
| cons: "gmm_step s i s' \<Longrightarrow> gmm_run s' is s'' \<Longrightarrow> gmm_run s (i # is) s''"

text \<open>The write mask of module \<open>j\<close>, and no bit writable by two modules.\<close>

definition mask_of :: "gmm option list \<Rightarrow> nat \<Rightarrow> nat \<Rightarrow> u32" where
  "mask_of ms j w = (if j < length ms then (case ms ! j of None \<Rightarrow> 0 | Some g \<Rightarrow> gmm_mapmask g ! w) else 0)"

definition one_writer :: "gmm_sys \<Rightarrow> bool" where
  "one_writer s \<longleftrightarrow> (\<forall>i < length (snd s). \<forall>j < length (snd s). \<forall>w < length (fst s).
     i \<noteq> j \<longrightarrow> mask_of (snd s) i w AND mask_of (snd s) j w = 0)"

lemma pts_local_frame:
  assumes "plc_update_pts_local glob g ps = (glob', r)" "length (gmm_privmap g) = length glob"
  shows "(bit (glob' ! i) n \<noteq> bit (glob ! i) n \<longrightarrow> bit (gmm_mapmask g ! i) n)
    \<and> (\<forall>g'. r = Some g' \<longrightarrow> gmm_mapmask g' = gmm_mapmask g)"
  using assms
proof (induction ps arbitrary: glob g)
  case (Cons p ps)
  show ?case
  proof (cases "pt_magic p = PT_MAGIC")
    case True
    obtain glob1 g1 where u: "update_pt_word glob g p = (glob1, g1)" by force
    note f = update_pt_word_frame [OF u]
    have "plc_update_pts_local glob1 g1 ps = (glob', r)" using Cons.prems(1) True u by simp
    from Cons.IH [OF this] f Cons.prems(2) show ?thesis by auto
  qed (use Cons in auto)
qed auto

lemma update_words_frame:
  assumes "fold update_word is (glob, g) = (glob', g')"
  shows "(bit (glob' ! i) n \<noteq> bit (glob ! i) n \<longrightarrow> bit (gmm_mapmask g ! i) n)
    \<and> gmm_mapmask g' = gmm_mapmask g"
  using assms
proof (induction "is" arbitrary: glob g)
  case (Cons k "is")
  obtain glob1 g1 where u: "update_word k (glob, g) = (glob1, g1)" by force
  then have m: "gmm_mapmask g1 = gmm_mapmask g"
    "bit (glob1 ! i) n \<noteq> bit (glob ! i) n \<longrightarrow> bit (gmm_mapmask g ! i) n"
    by (auto simp: update_word_def Let_def nth_upd merge_bit split: if_splits)
  have "fold update_word is (glob1, g1) = (glob', g')" using Cons.prems u by simp
  from Cons.IH [OF this] m show ?case by auto
qed auto

lemma put_priv_frame:
  assumes "put_priv glob g k (merge_word wm (priv glob g ! k) new) = (glob', g')"
  shows "(bit (glob' ! i) n \<noteq> bit (glob ! i) n \<longrightarrow> i = k \<and> bit wm n) \<and> gmm_mapmask g' = gmm_mapmask g"
  using assms
  by (auto simp: put_priv_def priv_def nth_upd merge_bit split: if_splits)

lemma set_is_merge:
  assumes "plc_set glob g p v = Some (glob', g')"
  shows "put_priv glob g (unat (pt_ofs p)) (merge_word (pt_mask p AND gmm_mapmask g ! unat (pt_ofs p))
     (priv glob g ! unat (pt_ofs p)) (push_bit (unat (pt_shift p)) v)) = (glob', g')"
  using assms by (auto simp: plc_set_def merge_word_def Let_def split: if_splits)

lemma seti_is_merge:
  assumes "plc_seti glob g p v = Some (glob', g')"
  shows "put_priv glob g (unat (pt_ofs p)) (merge_word (pt_mask p AND gmm_mapmask g ! unat (pt_ofs p))
     (priv glob g ! unat (pt_ofs p)) (NOT (push_bit (unat (pt_shift p)) v))) = (glob', g')"
  using assms by (auto simp: plc_seti_def merge_word_def Let_def split: if_splits)

text \<open>Whatever a module does, it changes bits of the global map only where it may write, and
  never its own mask.\<close>

lemma shared_pts: "plc_update_pts_shared glob g ps = (glob', r) \<Longrightarrow>
    glob' = glob \<and> (\<forall>g'. r = Some g' \<longrightarrow> g' = g)"
  by (induction ps) (auto split: if_splits)

lemma gmm_do_frame:
  assumes "gmm_do op glob g = (glob', r)" "gmm_mod_fns g = variant_local \<longrightarrow> length (gmm_privmap g) = length glob"
  shows "(bit (glob' ! i) n \<noteq> bit (glob ! i) n \<longrightarrow> bit (gmm_mapmask g ! i) n)
    \<and> (\<forall>g'. r = Some g' \<longrightarrow> gmm_mapmask g' = gmm_mapmask g)"
proof (cases op)
  case (Op_set p v)
  then show ?thesis
    using assms(1) put_priv_frame [OF set_is_merge, of glob g p v _ _ i n]
    by (auto simp: or_exit_def bit_and_iff split: option.splits)
next
  case (Op_seti p v)
  then show ?thesis
    using assms(1) put_priv_frame [OF seti_is_merge, of glob g p v _ _ i n]
    by (auto simp: or_exit_def bit_and_iff split: option.splits)
next
  case Op_update
  then show ?thesis
    using assms update_words_frame [of "[0..<nat (sint (globalmap_len g))]" glob g _ _ i n]
    by (cases "fold update_word [0..<nat (sint (globalmap_len g))] (glob, g)")
      (auto simp: plc_update_def plc_update_local_def plc_update_shared_def split: gmm_mod_t.splits)
next
  case (Op_update_pt p)
  obtain glob1 g1 where u: "update_pt_word glob g p = (glob1, g1)" by force
  show ?thesis
    using Op_update_pt assms(1) update_pt_word_frame(1) [OF u] update_pt_word_frame(6) [OF u, of i n] u
    by (auto simp: plc_update_pt_def plc_update_pt_local_def plc_update_pt_shared_def
      split: gmm_mod_t.splits if_splits)
next
  case (Op_update_pts ps)
  then show ?thesis
    using assms pts_local_frame [of glob g ps glob' r i n] shared_pts [of glob g ps glob' r]
    by (auto simp: plc_update_pts_def split: gmm_mod_t.splits)
qed

definition sys_ok :: "gmm_sys \<Rightarrow> bool" where
  "sys_ok s \<longleftrightarrow> (case s of (glob, ms) \<Rightarrow>
     \<forall>g. Some g \<in> set ms \<longrightarrow> gmm_mod_fns g = variant_local \<longrightarrow> length (gmm_privmap g) = length glob)"

text \<open>The sizes and the variant stay.\<close>

definition same_shape :: "u32 list \<Rightarrow> gmm \<Rightarrow> u32 list \<Rightarrow> gmm \<Rightarrow> bool" where
  "same_shape glob g glob' g' \<longleftrightarrow> length glob' = length glob \<and> gmm_mod_fns g' = gmm_mod_fns g
     \<and> length (gmm_privmap g') = length (gmm_privmap g)"

lemma same_shape_refl [simp]: "same_shape glob g glob g"
  by (simp add: same_shape_def)

lemma same_shape_trans:
  "same_shape glob g glob1 g1 \<Longrightarrow> same_shape glob1 g1 glob' g' \<Longrightarrow> same_shape glob g glob' g'"
  by (simp add: same_shape_def)

lemma same_shape_len: "same_shape glob g glob' g' \<Longrightarrow> length glob' = length glob"
  by (simp add: same_shape_def)

lemma fold_shape:
  "fold update_word is (glob, g) = (glob', g') \<Longrightarrow> same_shape glob g glob' g'"
proof (induction "is" arbitrary: glob g)
  case (Cons k "is")
  obtain glob1 g1 where u: "update_word k (glob, g) = (glob1, g1)" by force
  then have "same_shape glob g glob1 g1" by (auto simp: update_word_def Let_def same_shape_def)
  moreover have "same_shape glob1 g1 glob' g'" using Cons u by simp
  ultimately show ?case by (simp add: same_shape_def)
qed (simp add: same_shape_def)

lemma pt_word_shape: "update_pt_word glob g p = (glob', g') \<Longrightarrow> same_shape glob g glob' g'"
  by (auto simp: update_pt_word_def Let_def same_shape_def)

lemma pts_shape:
  "plc_update_pts_local glob g ps = (glob', r) \<Longrightarrow>
     length glob' = length glob \<and> (\<forall>g'. r = Some g' \<longrightarrow> same_shape glob g glob' g')"
proof (induction ps arbitrary: glob g)
  case (Cons p ps)
  obtain glob1 g1 where u: "update_pt_word glob g p = (glob1, g1)" by force
  show ?case
  proof (cases "pt_magic p = PT_MAGIC")
    case True
    then have "plc_update_pts_local glob1 g1 ps = (glob', r)" using Cons.prems u by simp
    note IH = Cons.IH [OF this]
    have "length glob' = length glob" using IH same_shape_len [OF pt_word_shape [OF u]] by simp
    moreover have "same_shape glob g glob' g'" if "r = Some g'" for g'
      using IH that same_shape_trans [OF pt_word_shape [OF u]] by blast
    ultimately show ?thesis by blast
  qed (use Cons.prems in simp)
qed auto

lemma put_shape: "put_priv glob g k w = (glob', g') \<Longrightarrow> same_shape glob g glob' g'"
  by (auto simp: put_priv_def same_shape_def split: if_splits)

lemma gmm_do_lengths:
  assumes "gmm_do op glob g = (glob', r)"
  shows "length glob' = length glob \<and> (\<forall>g'. r = Some g' \<longrightarrow> same_shape glob g glob' g')"
proof (cases op)
  case (Op_set p v)
  then show ?thesis
    using assms put_shape [OF set_is_merge, of glob g p v]
    by (auto simp: or_exit_def same_shape_def split: option.splits)
next
  case (Op_seti p v)
  then show ?thesis
    using assms put_shape [OF seti_is_merge, of glob g p v]
    by (auto simp: or_exit_def same_shape_def split: option.splits)
next
  case Op_update
  obtain glob1 g1 where u: "fold update_word [0..<nat (sint (globalmap_len g))] (glob, g) = (glob1, g1)"
    by force
  show ?thesis
    using Op_update assms u fold_shape [OF u]
    by (auto simp: plc_update_def plc_update_local_def plc_update_shared_def same_shape_def
      split: gmm_mod_t.splits)
next
  case (Op_update_pt p)
  obtain glob1 g1 where u: "update_pt_word glob g p = (glob1, g1)" by force
  show ?thesis
    using Op_update_pt assms u pt_word_shape [OF u]
    by (auto simp: plc_update_pt_def plc_update_pt_local_def plc_update_pt_shared_def same_shape_def
      split: gmm_mod_t.splits if_splits)
next
  case (Op_update_pts ps)
  then have a: "plc_update_pts glob g ps = (glob', r)" using assms by simp
  show ?thesis
  proof (cases "gmm_mod_fns g")
    case variant_local
    then show ?thesis using a pts_shape by (simp add: plc_update_pts_def)
  next
    case variant_shared
    then show ?thesis using a shared_pts [of glob g ps glob' r] by (auto simp: plc_update_pts_def)
  qed (use a in \<open>simp add: plc_update_pts_def\<close>)
qed

lemma gmm_step_frame:
  assumes "gmm_step s i s'" "sys_ok s"
  shows "sys_ok s' \<and> length (snd s') = length (snd s) \<and> length (fst s') = length (fst s) \<and>
    (\<forall>w n. bit (fst s' ! w) n \<noteq> bit (fst s ! w) n \<longrightarrow> bit (mask_of (snd s) i w) n) \<and>
    (\<forall>j w n. bit (mask_of (snd s') j w) n \<longrightarrow> bit (mask_of (snd s) j w) n) \<and>
    (\<forall>j w. j \<noteq> i \<longrightarrow> mask_of (snd s') j w = mask_of (snd s) j w)"
  using assms
proof (cases rule: gmm_step.cases)
  case (call ms g op glob glob' r)
  have g: "gmm_mod_fns g = variant_local \<longrightarrow> length (gmm_privmap g) = length glob"
    using assms(2) call(1,3,4) nth_mem [OF call(3)] by (auto simp: sys_ok_def)
  note f = gmm_do_frame [OF call(5) g] and l = gmm_do_lengths [OF call(5)]
  have "sys_ok s'" using assms(2) call(1,2) l g
    by (auto simp: sys_ok_def same_shape_def dest!: set_update_subset_insert [THEN subsetD])
  moreover have mi: "mask_of ms i w = gmm_mapmask g ! w" for w
    using call(3,4) by (simp add: mask_of_def)
  moreover have mo: "mask_of (ms[i := r]) j w = mask_of ms j w" if "j \<noteq> i" for j w
    using that by (simp add: mask_of_def)
  moreover have "bit (mask_of ms j w) n" if "bit (mask_of (ms[i := r]) j w) n" for j w n
  proof (cases "j = i")
    case True
    have "gmm_mapmask g' = gmm_mapmask g" if "r = Some g'" for g' using f that by blast
    then show ?thesis using True that call(3) mi
      by (cases r) (auto simp: mask_of_def)
  next
    case False
    then show ?thesis using that mo by simp
  qed
  moreover have "bit (glob' ! w) n \<noteq> bit (glob ! w) n \<longrightarrow> bit (gmm_mapmask g ! w) n" for w n
    using f by blast
  ultimately show ?thesis using call(1,2) l by simp
qed


definition g_other :: gmm where
  "g_other = g_two\<lparr>gmm_mapmask := [0xff00, 3], gmm_privmap := [0x500, 1]\<rparr>"


section \<open>The mask a module gets\<close>

text \<open>The blocks the loop reads: the point blocks up to the first that has not the size of a point
  record.\<close>

definition conf_points :: "mem \<Rightarrow> nat list \<Rightarrow> nat list" where
  "conf_points m bs =
     takeWhile (\<lambda>b. blk_size m b = 40) (filter (\<lambda>b. blk_type m b = block_type_num block_type_gmm) bs)"

definition conf_handle :: "mem \<Rightarrow> gmm \<Rightarrow> nat \<Rightarrow> plc_pt" where
  "conf_handle m g b =
     (case pt_conf m (b + 48) of (ofs, bitno, len) \<Rightarrow>
        plc_pt_by_loc_local (globalmap_len g) ofs bitno len)"

definition conf_owned :: "mem \<Rightarrow> string \<Rightarrow> nat \<Rightarrow> bool" where
  "conf_owned m module b \<longleftrightarrow> m (b + 48) \<noteq> 0 \<and> c_streq m (b + 48) module"

lemma index_word: "k < 32768 \<Longrightarrow> unat (scast (word_of_int (int k) :: i16) :: u32) = k"
proof -
  assume k: "k < 32768"
  have "sint (word_of_int (int k) :: i16) = signed_take_bit 15 (int k)"
    by (simp only: sint_sbintrunc') simp
  also have "\<dots> = int k" using k by (simp add: signed_take_bit_int_eq_self_iff)
  finally have "sint (word_of_int (int k) :: i16) = int k" .
  then have "(scast (word_of_int (int k) :: i16) :: u32) = word_of_int (int k)"
    by (simp only: scast_eq)
  then show ?thesis using k unat_of_nat_u32 [of k] by simp
qed

lemma conf_by_index:
  assumes ch: "cmm_chain m bs" and p: "cmm_fully_initialized p" and l: "length bs < 32768" and k: "k \<le> length bs"
  shows "gmm_config_pt_by_index p m (word_of_int (int k)) = Some
    (let fs = filter (\<lambda>b. blk_type m b = block_type_num block_type_gmm) bs
     in if k < length fs \<and> blk_size m (fs ! k) = 40
        then Some (fs ! k + 4, fs ! k + 48, pt_conf m (fs ! k + 48)) else None)"
proof -
  have "length bs < 2 ^ 32" using l by simp
  note g = chain_count_get [OF ch p this, of block_type_gmm "scast (word_of_int (int k) :: i16)"]
  show ?thesis
    using conjunct2 [OF g] index_word [of k] k l
    by (simp add: gmm_config_pt_by_index_def Let_def sizeof_block_def sizeof_pt_conf_def)
qed

lemma conf_at:
  assumes "cmm_chain m bs" "cmm_fully_initialized p" "length bs < 32768" "k \<le> length (conf_points m bs)"
  shows "gmm_config_pt_by_index p m (word_of_int (int k)) = Some
    (if k < length (conf_points m bs)
     then Some (conf_points m bs ! k + 4, conf_points m bs ! k + 48, pt_conf m (conf_points m bs ! k + 48))
     else None)"
proof -
  let ?fs = "filter (\<lambda>b. blk_type m b = block_type_num block_type_gmm) bs"
  let ?P = "\<lambda>b. blk_size m b = 40"
  have le: "length (conf_points m bs) \<le> length ?fs" unfolding conf_points_def by (rule length_takeWhile_le)
  then have k: "k \<le> length bs" using assms(4) length_filter_le [of "\<lambda>b. blk_type m b = block_type_num block_type_gmm" bs]
    by linarith
  note c = conf_by_index [OF assms(1-3) k]
  show ?thesis
  proof (cases "k < length (conf_points m bs)")
    case True
    then have "conf_points m bs ! k = ?fs ! k" unfolding conf_points_def by (rule takeWhile_nth)
    moreover have "?P (conf_points m bs ! k)"
      using nth_mem [OF True] unfolding conf_points_def by (blast dest: set_takeWhileD)
    ultimately show ?thesis using c True le by (simp add: Let_def)
  next
    case False
    then have e: "k = length (takeWhile ?P ?fs)" using assms(4) by (simp add: conf_points_def)
    have "\<not> (k < length ?fs \<and> ?P (?fs ! k))"
      using nth_length_takeWhile [of ?P ?fs] e by blast
    then show ?thesis using c False by (auto simp: Let_def)
  qed
qed

definition conf_entry :: "mem \<Rightarrow> nat \<Rightarrow> nat \<times> i32 \<times> u8 \<times> u8" where
  "conf_entry m b = (b + 48, pt_conf m (b + 48))"

lemma mapmask_loop_result:
  assumes "cmm_chain m bs" "cmm_fully_initialized p" "length bs < 32768" "k \<le> length (conf_points m bs)"
  shows "mapmask_loop p m g module (int k) mm = Some
    (fold (\<lambda>b. mask_point m g module (conf_entry m b)) (drop k (conf_points m bs)) mm)"
  using assms(4)
proof (induction "length (conf_points m bs) - k" arbitrary: k mm)
  case 0
  then have "k = length (conf_points m bs)" by simp
  then show ?case
    using conf_at [OF assms(1-3), of k] by (subst mapmask_loop.simps) simp
next
  case (Suc n)
  then have k: "k < length (conf_points m bs)" by linarith
  let ?b = "conf_points m bs ! k"
  have "mapmask_loop p m g module (int k) mm =
      mapmask_loop p m g module (int k + 1) (mask_point m g module (conf_entry m ?b) mm)"
    using conf_at [OF assms(1-3), of k] k by (subst mapmask_loop.simps) (simp add: conf_entry_def)
  also have "int k + 1 = int (Suc k)" by simp
  also have "mapmask_loop p m g module (int (Suc k)) (mask_point m g module (conf_entry m ?b) mm) = Some
      (fold (\<lambda>b. mask_point m g module (conf_entry m b)) (drop (Suc k) (conf_points m bs))
        (mask_point m g module (conf_entry m ?b) mm))"
    using Suc k by (intro Suc.hyps(1)) auto
  finally show ?case using k by (simp add: Cons_nth_drop_Suc [symmetric])
qed

lemma mask_point_bit:
  assumes "length mm = nat (sint (globalmap_len g))" "i < length mm"
  shows "bit (mask_point m g module (conf_entry m b) mm ! i) n \<longleftrightarrow>
    bit (mm ! i) n \<or> conf_owned m module b \<and> pt_valid (conf_handle m g b)
      \<and> unat (pt_ofs (conf_handle m g b)) = i \<and> bit (pt_mask (conf_handle m g b)) n"
proof -
  obtain ofs bitno len where c: "pt_conf m (b + 48) = (ofs, bitno, len)" by (cases "pt_conf m (b + 48)")
  have h: "conf_handle m g b = plc_pt_by_loc_local (globalmap_len g) ofs bitno len"
    by (simp add: conf_handle_def c)
  have "pt_ofs (conf_handle m g b) = ofs" if "pt_valid (conf_handle m g b)"
    using that by_loc_fields(2) unfolding h by blast
  then show ?thesis
    using assms(2)
    by (auto simp: mask_point_def conf_entry_def c h conf_owned_def nth_upd bit_or_iff
      split: if_splits)
qed

lemma mask_point_length [simp]: "length (mask_point m g module c mm) = length mm"
  by (auto simp: mask_point_def split: prod.splits)

lemma mask_fold_bit:
  assumes "length mm = nat (sint (globalmap_len g))" "i < length mm"
  shows "bit (fold (\<lambda>b. mask_point m g module (conf_entry m b)) cs mm ! i) n \<longleftrightarrow>
    bit (mm ! i) n \<or> (\<exists>b \<in> set cs. conf_owned m module b \<and> pt_valid (conf_handle m g b)
      \<and> unat (pt_ofs (conf_handle m g b)) = i \<and> bit (pt_mask (conf_handle m g b)) n)"
  using assms
proof (induction cs arbitrary: mm)
  case (Cons c cs)
  then show ?case using mask_point_bit [of mm g i m module c n] by auto
qed simp


text \<open>A segment with one point, which belongs to the module \<^verbatim>\<open>io\<close>: its bit is in the mask.\<close>

lemma one_point_segment:
  "\<exists>m. cmm_chain m [20, 108] \<and> conf_points m [20, 108] = [20] \<and> pt_conf m 68 = (1, 5, 1) \<and> conf_owned m ''io'' 20"
proof -
  let ?t = "cmm_take m_fresh 20 block_type_gmm ''lamp'' 40"
  have sz: "(40 :: u32) \<le> blk_size m_fresh 20" by (simp add: m_fresh_def format_fields)
  have split: "splits m_fresh 20 40" by (simp add: splits_def m_fresh_def format_fields sizeof_block_def)
  note f = take_fields [OF _ sz, where t = block_type_gmm and s = "''lamp''", simplified]
  define m where "m = wr8 (wr8 (wr32 (c_strncpy ?t 68 ''io'' 31) (68 + 32) 1) (68 + 36) 5) (68 + 37) 1"
  have ch1: "cmm_chain ?t [20, 108]"
    using chain_take_chain [OF fresh_chain _ sz, where t = block_type_gmm and s = "''lamp''"] split
    by (simp add: chain_take_def rest_of_def sizeof_block_def)
  have s1: "blk_size ?t 20 = 40" "blk_type ?t 20 = 3" "blk_type ?t 108 = 1"
    using f(1,9) f(11) split by (simp_all add: rest_of_def sizeof_block_def)
  have dw: "data_write ?t 20 m"
    by (auto simp: data_write_def m_def wr8_def mem_simps blk_end_def s1 sizeof_block_def)
  have ch2: "cmm_chain m [20, 108]" using data_write_chain [OF ch1 dw] by simp
  have "agree_on ?t m 20 (20 + 48)" "agree_on ?t m 108 (108 + 48)"
    using data_write_hdr [OF ch1 dw, of 20] data_write_hdr [OF ch1 dw, of 108] by simp_all
  then have "blk_size m 20 = 40" "blk_type m 20 = 3" "blk_type m 108 = 1"
    using agree_hdr(1,4) s1 by metis+
  then have "conf_points m [20, 108] = [20]" by (simp add: conf_points_def)
  moreover have "rd32 m (68 + 32) = 1"
    by (subst rd32_cong [of m "68 + 32" "wr32 (c_strncpy ?t 68 ''io'' 31) (68 + 32) 1"]) (simp_all add: m_def wr8_def)
  then have "pt_conf m 68 = (1, 5, 1)" by (simp add: pt_conf_def m_def wr8_def)
  moreover have "conf_owned m ''io'' 20"
    by (simp add: conf_owned_def m_def wr8_def mem_simps c_strncpy_def)
  ultimately show ?thesis using ch2 by blast
qed


end
