(* ===== verification/IoMap.thy ===== *)
theory IoMap
  imports GmmMap Conffile "HOL-Library.Monad_Syntax"
begin

text \<open>
  The generic part of the input and output modules, \<^verbatim>\<open>lib/io/io.c\<close>: the table of mappings
  between hardware addresses and points, the scan of a master and the look-ups of a slave.

  A hardware module implements \<^verbatim>\<open>io_hw.h\<close>; here it is a record of its functions over a state of its
  own, and its addresses, eight bytes that this part only stores and compares, are a type of
  its own. \<open>None\<close> is a call that does not come back: the process has ended or hangs.

  What other modules do to the global map is an argument of the loop: in the local variant this
  module looks at it only in \<^verbatim>\<open>plc_update\<close>.
\<close>

section \<open>The hardware\<close>

datatype dir_t = dir_in | dir_out | dir_none

text \<open>The functions that get a pointer give back what it points to: reading leaves the value as it was
  when it fails, and may change the address.\<close>

record ('a, 'h) io_hw =
  hw_read :: "'h \<Rightarrow> 'a \<Rightarrow> u32 \<Rightarrow> (int \<times> 'a \<times> u32 \<times> 'h) option"
  hw_write :: "'h \<Rightarrow> 'a \<Rightarrow> u32 \<Rightarrow> (int \<times> 'a \<times> 'h) option"
  hw_read_end :: "'h \<Rightarrow> (int \<times> 'h) option"
  hw_write_end :: "'h \<Rightarrow> (int \<times> 'h) option"
  hw_parse_io_addr :: "'h \<Rightarrow> 'a \<Rightarrow> string option \<Rightarrow> dir_t \<Rightarrow> int \<Rightarrow> (int \<times> 'a \<times> 'h) option"
  hw_parse_config :: "'h \<Rightarrow> (int \<times> 'h) option"
  hw_init :: "'h \<Rightarrow> (int \<times> 'h) option"
  hw_done :: "'h \<Rightarrow> (int \<times> 'h) option"

section \<open>The table of mappings\<close>

record 'a pt_map_entry =
  inv_mask :: u8
  pe_plc_pt :: plc_pt
  pe_io_addr :: 'a

type_synonym 'a pt_map = "'a pt_map_entry list"

text \<open>\<open>full n\<close>: there is no memory for a table of \<open>n\<close> entries.\<close>

definition pt_map_add :: "(nat \<Rightarrow> bool) \<Rightarrow> 'a pt_map \<Rightarrow> 'a pt_map_entry \<Rightarrow> 'a pt_map \<times> int" where
  "pt_map_add full m e = (if full (1 + length m) then (m, -1) else (m @ [e], 0))"

record 'a pt_map_lists =
  io_write :: "'a pt_map"
  io_write_array :: "'a pt_map"
  io_read :: "'a pt_map"
  io_read_array :: "'a pt_map"
  io_slave :: "'a pt_map"
  io_slave_array :: "'a pt_map"

definition pt_map_lists_init :: "'a pt_map_lists" where
  "pt_map_lists_init = \<lparr>io_write = [], io_write_array = [], io_read = [], io_read_array = [], io_slave = [], io_slave_array = []\<rparr>"

text \<open>The module: the global map, its access to it, the table and the hardware.\<close>

record ('a, 'h) io_module =
  io_glob :: "u32 list"
  io_gmm :: gmm
  map_lists :: "'a pt_map_lists"
  io_hardware :: 'h

section \<open>The scan of a master\<close>

definition put_input :: "plc_pt \<Rightarrow> u8 \<Rightarrow> u32 \<Rightarrow> u32 list \<Rightarrow> gmm \<Rightarrow> (u32 list \<times> gmm) option" where
  "put_input pt im value glob g = (if im = 0 then plc_set glob g pt value else plc_seti glob g pt value)"

definition get_output :: "plc_pt \<Rightarrow> u8 \<Rightarrow> u32 list \<Rightarrow> gmm \<Rightarrow> u32 option" where
  "get_output pt im glob g = (if im = 0 then plc_get glob g pt else plc_geti glob g pt)"

text \<open>The value is one variable of the function: a read that succeeds without storing one passes on the last.\<close>

fun read_entries ::
  "('a, 'h) io_hw \<Rightarrow> 'a pt_map \<Rightarrow> u32 \<Rightarrow> u32 list \<Rightarrow> gmm \<Rightarrow> 'h \<Rightarrow> ('a pt_map \<times> u32 list \<times> gmm \<times> 'h) option" where
  "read_entries hw [] value glob g h = Some ([], glob, g, h)"
| "read_entries hw (e # es) value glob g h =
     do { (res, a, value1, h1) \<leftarrow> hw_read hw h (pe_io_addr e) value;
          (glob1, g1) \<leftarrow> (if res < 0 then Some (glob, g) else put_input (pe_plc_pt e) (inv_mask e) value1 glob g);
          (es1, r) \<leftarrow> read_entries hw es value1 glob1 g1 h1;
          Some (e\<lparr>pe_io_addr := a\<rparr> # es1, r) }"

definition io_read_inputs ::
  "('a, 'h) io_hw \<Rightarrow> u32 \<Rightarrow> ('a, 'h) io_module \<Rightarrow> ('a, 'h) io_module option" where
  "io_read_inputs hw value s =
     do { (es, glob, g, h) \<leftarrow> read_entries hw (io_read (map_lists s)) value (io_glob s) (io_gmm s) (io_hardware s);
          (res, h1) \<leftarrow> hw_read_end hw h;
          Some (s\<lparr>io_glob := glob, io_gmm := g, map_lists := (map_lists s)\<lparr>io_read := es\<rparr>, io_hardware := h1\<rparr>) }"

fun write_entries ::
  "('a, 'h) io_hw \<Rightarrow> 'a pt_map \<Rightarrow> u32 list \<Rightarrow> gmm \<Rightarrow> 'h \<Rightarrow> ('a pt_map \<times> 'h) option" where
  "write_entries hw [] glob g h = Some ([], h)"
| "write_entries hw (e # es) glob g h =
     do { value \<leftarrow> get_output (pe_plc_pt e) (inv_mask e) glob g;
          (res, a, h1) \<leftarrow> hw_write hw h (pe_io_addr e) value;
          (es1, h2) \<leftarrow> write_entries hw es glob g h1;
          Some (e\<lparr>pe_io_addr := a\<rparr> # es1, h2) }"

definition io_write_outputs :: "('a, 'h) io_hw \<Rightarrow> ('a, 'h) io_module \<Rightarrow> ('a, 'h) io_module option" where
  "io_write_outputs hw s =
     do { (es, h) \<leftarrow> write_entries hw (io_write (map_lists s)) (io_glob s) (io_gmm s) (io_hardware s);
          (res, h1) \<leftarrow> hw_write_end hw h;
          Some (s\<lparr>map_lists := (map_lists s)\<lparr>io_write := es\<rparr>, io_hardware := h1\<rparr>) }"

definition io_update :: "('a, 'h) io_module \<Rightarrow> ('a, 'h) io_module option" where
  "io_update s =
     (case plc_update (io_glob s) (io_gmm s) of
        (glob, None) \<Rightarrow> None
      | (glob, Some g) \<Rightarrow> Some (s\<lparr>io_glob := glob, io_gmm := g\<rparr>))"

text \<open>One scan between \<^verbatim>\<open>plc_scan_beg\<close> and \<^verbatim>\<open>plc_scan_end\<close>, which only wait. While they do the
  others leave the global map as \<open>glob\<close>.\<close>

definition scan_master :: "('a, 'h) io_hw \<Rightarrow> u32 list \<Rightarrow> u32 \<Rightarrow> ('a, 'h) io_module \<Rightarrow> ('a, 'h) io_module option" where
  "scan_master hw glob junk s =
     do { s1 \<leftarrow> io_read_inputs hw junk (s\<lparr>io_glob := glob\<rparr>); s2 \<leftarrow> io_update s1; io_write_outputs hw s2 }"

text \<open>The loop never ends; this is its state after the scans of a list, each with the global map as it finds it
  and the value its variable happens to have.\<close>

fun run_loop_master ::
  "('a, 'h) io_hw \<Rightarrow> (u32 list \<times> u32) list \<Rightarrow> ('a, 'h) io_module \<Rightarrow> ('a, 'h) io_module option" where
  "run_loop_master hw [] s = Some s"
| "run_loop_master hw ((glob, junk) # gs) s = do { s1 \<leftarrow> scan_master hw glob junk s; run_loop_master hw gs s1 }"

section \<open>What a slave looks up\<close>

definition ioaddr_to_plcpt :: "gmm \<Rightarrow> 'a pt_map_lists option \<Rightarrow> 'a \<Rightarrow> plc_pt option" where
  "ioaddr_to_plcpt g ls a =
     (case ls of
        None \<Rightarrow> plc_pt_null g
      | Some l \<Rightarrow> (case find (\<lambda>e. pe_io_addr e = a) (io_slave l) of
                    Some e \<Rightarrow> Some (pe_plc_pt e)
                  | None \<Rightarrow> plc_pt_null g))"

text \<open>\<open>None\<close>: it returns -1 and leaves its results as they were.\<close>

definition get_map_entry_by_index :: "'a pt_map_lists option \<Rightarrow> int \<Rightarrow> ('a \<times> plc_pt) option" where
  "get_map_entry_by_index ls n =
     (case ls of
        None \<Rightarrow> None
      | Some l \<Rightarrow> if int (length (io_slave l)) \<le> n then None
                 else Some (pe_io_addr (io_slave l ! nat n), pe_plc_pt (io_slave l ! nat n)))"

definition slave_mapped_points :: "'a pt_map_lists option \<Rightarrow> int" where
  "slave_mapped_points ls = (case ls of None \<Rightarrow> -1 | Some l \<Rightarrow> int (length (io_slave l)))"

section \<open>Reading the table from the configuration\<close>

datatype pt_map_ptr = To_write | To_read | To_slave | To_slave_array

definition add_mapping :: "(nat \<Rightarrow> bool) \<Rightarrow> pt_map_ptr \<Rightarrow> 'a pt_map_entry \<Rightarrow> 'a pt_map_lists \<Rightarrow> 'a pt_map_lists \<times> int" where
  "add_mapping full ptr e l =
     (case ptr of
        To_write \<Rightarrow> (case pt_map_add full (io_write l) e of (m, r) \<Rightarrow> (l\<lparr>io_write := m\<rparr>, r))
      | To_read \<Rightarrow> (case pt_map_add full (io_read l) e of (m, r) \<Rightarrow> (l\<lparr>io_read := m\<rparr>, r))
      | To_slave \<Rightarrow> (case pt_map_add full (io_slave l) e of (m, r) \<Rightarrow> (l\<lparr>io_slave := m\<rparr>, r))
      | To_slave_array \<Rightarrow> (case pt_map_add full (io_slave_array l) e of (m, r) \<Rightarrow> (l\<lparr>io_slave_array := m\<rparr>, r)))"

definition IO_PTSTABLE_NAME :: string where "IO_PTSTABLE_NAME = ''map''"
definition IO_PTSTABLE_INV1 :: string where "IO_PTSTABLE_INV1 = ''inv''"
definition IO_PTSTABLE_INV2 :: string where "IO_PTSTABLE_INV2 = ''invert''"
definition IO_PTSTABLE_IN :: string where "IO_PTSTABLE_IN = ''in''"
definition IO_PTSTABLE_OUT :: string where "IO_PTSTABLE_OUT = ''out''"
definition IO_PTSTABLE_SLAVE :: string where "IO_PTSTABLE_SLAVE = ''slave''"

text \<open>The word for the direction: which list, and how many columns it takes. A word that is none of the three is not skipped.\<close>

definition direction_of :: "string \<Rightarrow> dir_t \<times> pt_map_ptr \<times> int" where
  "direction_of s =
     (if s = IO_PTSTABLE_OUT then (dir_out, To_write, 1)
      else if s = IO_PTSTABLE_IN then (dir_in, To_read, 1)
      else if s = IO_PTSTABLE_SLAVE then (dir_none, To_slave, 1)
      else (dir_none, To_slave_array, 0))"

text \<open>One row. The entry is a variable outside of the loop: what a row does not set is left from the row before. The last
  result is false if there is no memory. First the row from the column of the direction on.\<close>

definition map_row_rest ::
  "('a, 'h) io_hw \<Rightarrow> (string \<Rightarrow> plc_pt option) \<Rightarrow> (nat \<Rightarrow> bool) \<Rightarrow> (int \<Rightarrow> string option) \<Rightarrow> int \<Rightarrow> 'a pt_map_lists \<times> 'a pt_map_entry \<times> 'h
     \<Rightarrow> (('a pt_map_lists \<times> 'a pt_map_entry \<times> 'h) \<times> bool) option" where
  "map_row_rest hw by_name full field col s =
     (case s of (ls, tmp, h) \<Rightarrow>
        case field col of
          None \<Rightarrow> Some ((ls, tmp, h), True)
        | Some d \<Rightarrow>
            (case direction_of d of (dir, ptr, k) \<Rightarrow>
               case field (col + k + 1) of
                 None \<Rightarrow> Some ((ls, tmp, h), True)
               | Some name \<Rightarrow>
                   do { pt \<leftarrow> by_name name;
                        let tmp = tmp\<lparr>pe_plc_pt := pt\<rparr> in
                        if \<not> pt_valid pt then Some ((ls, tmp, h), True)
                        else if plc_pt_len pt < 0 then Some ((ls, tmp, h), True)
                        else do {
                          (res, a, h1) \<leftarrow> hw_parse_io_addr hw h (pe_io_addr tmp) (field (col + k)) dir (plc_pt_len pt);
                          let tmp = tmp\<lparr>pe_io_addr := a\<rparr> in
                          if res < 0 then Some ((ls, tmp, h1), True)
                          else case add_mapping full ptr tmp ls of
                                 (ls1, r) \<Rightarrow> Some ((ls1, tmp, h1), 0 \<le> r) } }))"

definition parse_map_row ::
  "('a, 'h) io_hw \<Rightarrow> conffile \<Rightarrow> (string \<Rightarrow> plc_pt option) \<Rightarrow> (nat \<Rightarrow> bool) \<Rightarrow> int \<Rightarrow> 'a pt_map_lists \<times> 'a pt_map_entry \<times> 'h
     \<Rightarrow> (('a pt_map_lists \<times> 'a pt_map_entry \<times> 'h) \<times> bool) option" where
  "parse_map_row hw cf by_name full row_count s =
     (case s of (ls, tmp, h) \<Rightarrow>
        let field = conffile_get_table cf (Some IO_PTSTABLE_NAME) row_count in
        case field 0 of
          None \<Rightarrow> Some ((ls, tmp\<lparr>inv_mask := 0\<rparr>, h), True)
        | Some w \<Rightarrow>
            if w = IO_PTSTABLE_INV1 \<or> w = IO_PTSTABLE_INV2
            then map_row_rest hw by_name full field 1 (ls, tmp\<lparr>inv_mask := 1\<rparr>, h)
            else map_row_rest hw by_name full field 0 (ls, tmp\<lparr>inv_mask := 0\<rparr>, h))"

fun parse_map_rows ::
  "('a, 'h) io_hw \<Rightarrow> conffile \<Rightarrow> (string \<Rightarrow> plc_pt option) \<Rightarrow> (nat \<Rightarrow> bool) \<Rightarrow> int list \<Rightarrow> 'a pt_map_lists \<times> 'a pt_map_entry \<times> 'h
     \<Rightarrow> (('a pt_map_lists \<times> 'a pt_map_entry \<times> 'h) \<times> bool) option" where
  "parse_map_rows hw cf by_name full [] s = Some (s, True)"
| "parse_map_rows hw cf by_name full (r # rs) s =
     do { (s1, ok) \<leftarrow> parse_map_row hw cf by_name full r s;
          if \<not> ok then Some (s1, False) else parse_map_rows hw cf by_name full rs s1 }"

definition io_parse_config ::
  "('a, 'h) io_hw \<Rightarrow> conffile \<Rightarrow> (string \<Rightarrow> plc_pt option) \<Rightarrow> (nat \<Rightarrow> bool) \<Rightarrow> 'a pt_map_entry \<Rightarrow> 'a pt_map_lists option \<Rightarrow> 'h
     \<Rightarrow> ('a pt_map_lists option \<times> 'h \<times> int) option" where
  "io_parse_config hw cf by_name full junk ls h =
     (case ls of
        None \<Rightarrow> Some (None, h, 0)
      | Some l \<Rightarrow>
          do { ((l1, tmp, h1), ok) \<leftarrow> parse_map_rows hw cf by_name full
                 (map int [0..<nat (conffile_get_table_rows cf (Some IO_PTSTABLE_NAME))]) (l, junk, h);
               Some (Some l1, h1, if ok then 0 else -1) })"

text \<open>\<^verbatim>\<open>main\<close> up to the loop, after \<^verbatim>\<open>plc_init\<close>: \<open>None\<close> is also every \<^verbatim>\<open>exit\<close>.\<close>

definition io_main_start ::
  "('a, 'h) io_hw \<Rightarrow> conffile \<Rightarrow> (string \<Rightarrow> plc_pt option) \<Rightarrow> (nat \<Rightarrow> bool) \<Rightarrow> 'a pt_map_entry \<Rightarrow> u32 list \<Rightarrow> gmm \<Rightarrow> 'h
     \<Rightarrow> ('a, 'h) io_module option" where
  "io_main_start hw cf by_name full junk glob g h =
     do { (r, h1) \<leftarrow> hw_parse_config hw h;
          if r < 0 then None else do {
          (l, h2, r) \<leftarrow> io_parse_config hw cf by_name full junk (Some pt_map_lists_init) h1;
          if r < 0 then None else do {
          (r, h3) \<leftarrow> hw_init hw h2;
          if r < 0 then None else do {
          ls \<leftarrow> l;
          Some \<lparr>io_glob = glob, io_gmm = g, map_lists = ls, io_hardware = h3\<rparr> } } } }"

definition io_status_pt :: "(string \<Rightarrow> plc_pt option) \<Rightarrow> gmm \<Rightarrow> string \<Rightarrow> string \<Rightarrow> plc_pt option" where
  "io_status_pt by_name g base suffix =
     do { ret \<leftarrow> by_name (strdup3 base ''.'' suffix); if \<not> pt_valid ret then plc_pt_null g else Some ret }"

end
