(* ===== verification/IoProps.thy ===== *)
theory IoProps
  imports IoMap
begin

text \<open>
  What the scan of an input and output module does, on any hardware that comes back: inputs reach the
  global map, outputs are given the values of the global map, and nothing else changes; and
  what the table of mappings can hold.
\<close>

section \<open>One input\<close>

lemma input_bit:
  assumes "pt_wf len p" "put_input p im v glob g = Some (glob', g')" "length (priv glob g) = unat len"
  shows "bit (priv glob' g' ! i) n \<longleftrightarrow>
    (if i = unat (pt_ofs p) \<and> bit (pt_mask p) n \<and> bit (gmm_mapmask g ! i) n
     then bit v (n - unat (pt_shift p)) = (im = 0) else bit (priv glob g ! i) n)"
  using assms set_bit [OF assms(1) _ assms(3), of v glob' g' i n] seti_bit [OF assms(1) _ assms(3), of v glob' g' i n]
  by (auto simp: put_input_def split: if_splits)

lemma input_frame:
  assumes "put_input p im v glob g = Some (glob', g')"
  shows "gmm_mapmask g' = gmm_mapmask g" "globalmap_len g' = globalmap_len g" "gmm_mod_fns g' = gmm_mod_fns g"
    "length (priv glob' g') = length (priv glob g)"
  using assms set_frame [of glob g p v glob' g'] seti_frame [of glob g p v glob' g'] by (auto simp: put_input_def split: if_splits)

lemma input_glob: "put_input p im v glob g = Some (glob', g') \<Longrightarrow> gmm_mod_fns g = variant_local \<Longrightarrow> glob' = glob"
  by (auto simp: put_input_def plc_set_def plc_seti_def Let_def put_priv_def split: if_splits)

lemma input_valid: "pt_wf len p \<Longrightarrow> \<exists>glob' g'. put_input p im v glob g = Some (glob', g')"
  using set_valid [of len p glob g v] seti_valid [of len p glob g v] by (auto simp: put_input_def)

text \<open>What is in a point after the input \<open>v\<close>.\<close>

definition input_value :: "plc_pt \<Rightarrow> u8 \<Rightarrow> u32 \<Rightarrow> u32" where
  "input_value p im v = take_bit (unat (pt_length p)) (if im = 0 then v else NOT v)"

lemma input_get:
  assumes "pt_wf len p" "put_input p im v glob g = Some (glob', g')" "length (priv glob g) = unat len" "may_write g p"
  shows "plc_get glob' g' p = Some (input_value p im v)"
proof -
  obtain w where w: "plc_get glob' g' p = Some w" using get_valid [OF assms(1)] by blast
  have "w = input_value p im v"
  proof (rule bit_word_eqI)
    fix n assume "n < LENGTH(32)"
    then show "bit w n \<longleftrightarrow> bit (input_value p im v) n"
      using get_bit [OF assms(1) w, of n] input_bit [OF assms(1-3), of "unat (pt_ofs p)" "unat (pt_shift p) + n"]
        may_write_bit [OF assms(4), of "unat (pt_shift p) + n"] mask_bit [OF assms(1), of "unat (pt_shift p) + n"]
      by (auto simp: input_value_def bit_take_bit_iff bit_not_iff)
  qed
  then show ?thesis using w by simp
qed

lemma get_same:
  assumes "pt_wf len q"
    and "\<And>n. bit (pt_mask q) n \<Longrightarrow> bit (priv glob' g' ! unat (pt_ofs q)) n = bit (priv glob g ! unat (pt_ofs q)) n"
  shows "plc_get glob' g' q = plc_get glob g q"
proof -
  obtain u w where u: "plc_get glob g q = Some u" and w: "plc_get glob' g' q = Some w"
    using get_valid assms(1) by blast
  have "w = u"
  proof (rule bit_word_eqI)
    fix n
    show "bit w n \<longleftrightarrow> bit u n"
      using get_bit [OF assms(1) u, of n] get_bit [OF assms(1) w, of n] assms(2) [of "unat (pt_shift q) + n"]
        mask_bit [OF assms(1), of "unat (pt_shift q) + n"] by auto
  qed
  then show ?thesis using u w by simp
qed

lemma input_other:
  assumes "pt_wf len p" "put_input p im v glob g = Some (glob', g')" "length (priv glob g) = unat len"
    and "pt_wf len q" "pt_disjoint p q"
  shows "plc_get glob' g' q = plc_get glob g q"
proof (rule get_same [OF assms(4)])
  fix n assume "bit (pt_mask q) n"
  then show "bit (priv glob' g' ! unat (pt_ofs q)) n = bit (priv glob g ! unat (pt_ofs q)) n"
    using pt_disjoint_bit [OF assms(5), of n] input_bit [OF assms(1-3), of "unat (pt_ofs q)" n] by auto
qed

section \<open>All inputs\<close>

text \<open>What the hardware answers: the result and the value of each read, whatever is done with them.\<close>

fun read_results :: "('a, 'h) io_hw \<Rightarrow> 'a list \<Rightarrow> u32 \<Rightarrow> 'h \<Rightarrow> ((int \<times> u32) list \<times> 'a list \<times> 'h) option" where
  "read_results hw [] v h = Some ([], [], h)"
| "read_results hw (a # as) v h =
     do { (r, a1, v1, h1) \<leftarrow> hw_read hw h a v; (rs, as1, h2) \<leftarrow> read_results hw as v1 h1; Some ((r, v1) # rs, a1 # as1, h2) }"

text \<open>The points of a table are good and share no bit.\<close>

definition inputs_ok :: "i32 \<Rightarrow> gmm \<Rightarrow> 'a pt_map \<Rightarrow> bool" where
  "inputs_ok len g es \<longleftrightarrow> (\<forall>e\<in>set es. pt_wf len (pe_plc_pt e) \<and> may_write g (pe_plc_pt e)) \<and>
     (\<forall>i < length es. \<forall>j < length es. i \<noteq> j \<longrightarrow> pt_disjoint (pe_plc_pt (es ! i)) (pe_plc_pt (es ! j)))"

lemma inputs_ok_Cons:
  assumes "inputs_ok len g (e # es)"
  shows "inputs_ok len g es" "pt_wf len (pe_plc_pt e)" "may_write g (pe_plc_pt e)"
    "k < length es \<Longrightarrow> pt_disjoint (pe_plc_pt e) (pe_plc_pt (es ! k))"
proof -
  have d: "pt_disjoint (pe_plc_pt ((e # es) ! i)) (pe_plc_pt ((e # es) ! j))"
    if "i < Suc (length es)" "j < Suc (length es)" "i \<noteq> j" for i j
    using assms that by (auto simp: inputs_ok_def)
  have "pt_disjoint (pe_plc_pt (es ! i)) (pe_plc_pt (es ! j))" if "i < length es" "j < length es" "i \<noteq> j" for i j
    using d [of "Suc i" "Suc j"] that by simp
  then show "inputs_ok len g es" using assms by (auto simp: inputs_ok_def)
  show "pt_wf len (pe_plc_pt e)" "may_write g (pe_plc_pt e)" using assms by (auto simp: inputs_ok_def)
  show "pt_disjoint (pe_plc_pt e) (pe_plc_pt (es ! k))" if "k < length es"
    using d [of 0 "Suc k"] that by simp
qed

lemma inputs_ok_cong: "gmm_mapmask g' = gmm_mapmask g \<Longrightarrow> inputs_ok len g' es = inputs_ok len g es"
  by (simp add: inputs_ok_def may_write_def)

lemma read_entries_fail: "read_results hw (map pe_io_addr es) v h = None \<Longrightarrow> read_entries hw es v glob g h = None"
proof (induction es arbitrary: v glob g h)
  case (Cons e es)
  then show ?case
    by (auto simp: bind_eq_None_conv split: prod.splits if_splits)
qed simp

lemma read_entries_store:
  assumes "read_results hw (map pe_io_addr es) v h = Some (rs, as, h')"
    and "inputs_ok len g es" "length (priv glob g) = unat len" "gmm_mod_fns g = variant_local"
  shows "\<exists>g'. read_entries hw es v glob g h = Some (map2 (\<lambda>e a. e\<lparr>pe_io_addr := a\<rparr>) es as, glob, g', h') \<and>
    gmm_mapmask g' = gmm_mapmask g \<and> globalmap_len g' = globalmap_len g \<and> gmm_mod_fns g' = variant_local \<and>
    length (gmm_privmap g') = length (gmm_privmap g) \<and>
    (\<forall>k < length es. plc_get glob g' (pe_plc_pt (es ! k)) =
       (if fst (rs ! k) < 0 then plc_get glob g (pe_plc_pt (es ! k))
        else Some (input_value (pe_plc_pt (es ! k)) (inv_mask (es ! k)) (snd (rs ! k))))) \<and>
    (\<forall>q. pt_wf len q \<longrightarrow> (\<forall>k < length es. pt_disjoint (pe_plc_pt (es ! k)) q) \<longrightarrow> plc_get glob g' q = plc_get glob g q)"
  using assms
proof (induction es arbitrary: v g h rs as)
  case (Cons e es)
  let ?p = "pe_plc_pt e"
  note ok = inputs_ok_Cons [OF Cons.prems(2)]
  obtain r a1 v1 h1 rs1 as1 where hr: "hw_read hw h (pe_io_addr e) v = Some (r, a1, v1, h1)"
      and rr: "read_results hw (map pe_io_addr es) v1 h1 = Some (rs1, as1, h')" and rs: "rs = (r, v1) # rs1" and as: "as = a1 # as1"
    using Cons.prems(1) by (auto simp: bind_eq_Some_conv)
  obtain g1 where st: "(if r < 0 then Some (glob, g) else put_input ?p (inv_mask e) v1 glob g) = Some (glob, g1)"
      and fr: "gmm_mapmask g1 = gmm_mapmask g" "globalmap_len g1 = globalmap_len g" "gmm_mod_fns g1 = variant_local"
        "length (priv glob g1) = length (priv glob g)"
      and gt: "plc_get glob g1 ?p = (if r < 0 then plc_get glob g ?p else Some (input_value ?p (inv_mask e) v1))"
      and ot: "\<And>q. pt_wf len q \<Longrightarrow> pt_disjoint ?p q \<Longrightarrow> plc_get glob g1 q = plc_get glob g q"
  proof (cases "r < 0")
    case True
    then show ?thesis using that [of g] Cons.prems(4) by simp
  next
    case False
    obtain glob1 g1 where p: "put_input ?p (inv_mask e) v1 glob g = Some (glob1, g1)" using input_valid [OF ok(2)] by blast
    have "glob1 = glob" using input_glob [OF p Cons.prems(4)] .
    then show ?thesis
      using False p that [of g1] input_frame [OF p] input_get [OF ok(2) p Cons.prems(3) ok(3)] input_other [OF ok(2) p Cons.prems(3)]
        Cons.prems(4) by simp
  qed
  have ok1: "inputs_ok len g1 es" unfolding inputs_ok_cong [OF fr(1)] by (rule ok(1))
  have l1: "length (priv glob g1) = unat len" using fr(4) Cons.prems(3) by simp
  obtain g' where re: "read_entries hw es v1 glob g1 h1 = Some (map2 (\<lambda>e a. e\<lparr>pe_io_addr := a\<rparr>) es as1, glob, g', h')"
      and fr': "gmm_mapmask g' = gmm_mapmask g1" "globalmap_len g' = globalmap_len g1" "gmm_mod_fns g' = variant_local"
        "length (gmm_privmap g') = length (gmm_privmap g1)"
      and gt': "\<forall>k < length es. plc_get glob g' (pe_plc_pt (es ! k)) =
       (if fst (rs1 ! k) < 0 then plc_get glob g1 (pe_plc_pt (es ! k))
        else Some (input_value (pe_plc_pt (es ! k)) (inv_mask (es ! k)) (snd (rs1 ! k))))"
      and ot': "\<forall>q. pt_wf len q \<longrightarrow> (\<forall>k < length es. pt_disjoint (pe_plc_pt (es ! k)) q) \<longrightarrow> plc_get glob g' q = plc_get glob g1 q"
    using Cons.IH [OF rr ok1 l1 fr(3)] by (elim exE conjE) (rule that)
  have sym: "pt_disjoint x y \<Longrightarrow> pt_disjoint y x" for x y by (auto simp: pt_disjoint_def and.commute)
  have "length (gmm_privmap g1) = length (gmm_privmap g)" using fr(3,4) Cons.prems(4) by (simp add: priv_def)
  moreover have "plc_get glob g' ?p = plc_get glob g1 ?p" using ot' ok(2,4) sym by blast
  then have "plc_get glob g' (pe_plc_pt ((e # es) ! k)) = (if fst (rs ! k) < 0 then plc_get glob g (pe_plc_pt ((e # es) ! k))
        else Some (input_value (pe_plc_pt ((e # es) ! k)) (inv_mask ((e # es) ! k)) (snd (rs ! k))))" if "k < length (e # es)" for k
  proof (cases k)
    case 0
    then show ?thesis using gt \<open>plc_get glob g' ?p = plc_get glob g1 ?p\<close> by (simp add: rs)
  next
    case (Suc i)
    then have i: "i < length es" using that by simp
    then have "pt_wf len (pe_plc_pt (es ! i))" using ok(1) by (simp add: inputs_ok_def)
    then have "plc_get glob g1 (pe_plc_pt (es ! i)) = plc_get glob g (pe_plc_pt (es ! i))" using ot ok(4) [OF i] by blast
    then show ?thesis using gt' i Suc by (simp add: rs)
  qed
  moreover have "plc_get glob g' q = plc_get glob g q" if "pt_wf len q" "\<forall>k < length (e # es). pt_disjoint (pe_plc_pt ((e # es) ! k)) q" for q
  proof -
    have "pt_disjoint (pe_plc_pt (es ! k)) q" if "k < length es" for k
      using \<open>\<forall>k < length (e # es). _\<close> [rule_format, of "Suc k"] that by simp
    moreover have "pt_disjoint ?p q" using that(2) [rule_format, of 0] by simp
    ultimately show ?thesis using ot [OF that(1)] ot' that(1) by simp
  qed
  ultimately show ?case using hr st re fr fr' unfolding as by (intro exI [of _ g'] conjI) simp_all
qed (simp add: fun_eq_iff)

section \<open>All outputs\<close>

fun write_all :: "('a, 'h) io_hw \<Rightarrow> ('a \<times> u32) list \<Rightarrow> 'h \<Rightarrow> ('a list \<times> 'h) option" where
  "write_all hw [] h = Some ([], h)"
| "write_all hw ((a, v) # avs) h =
     do { (r, a1, h1) \<leftarrow> hw_write hw h a v; (as, h2) \<leftarrow> write_all hw avs h1; Some (a1 # as, h2) }"

text \<open>What an output is given: the bits of the point, or their complement with ones above them.\<close>

definition output_value :: "plc_pt \<Rightarrow> u8 \<Rightarrow> u32 list \<Rightarrow> u32" where
  "output_value p im ws =
     drop_bit (unat (pt_shift p)) (if im = 0 then ws ! unat (pt_ofs p) AND pt_mask p else NOT (ws ! unat (pt_ofs p) AND pt_mask p))"

lemma output_get: "pt_wf len p \<Longrightarrow> get_output p im glob g = Some (output_value p im (priv glob g))"
  by (simp add: get_output_def output_value_def plc_get_def plc_geti_def wf_magic)

lemma write_entries_all:
  assumes "\<forall>e\<in>set es. pt_wf len (pe_plc_pt e)"
  shows "write_entries hw es glob g h =
    map_option (\<lambda>(as, h). (map2 (\<lambda>e a. e\<lparr>pe_io_addr := a\<rparr>) es as, h))
      (write_all hw (map (\<lambda>e. (pe_io_addr e, output_value (pe_plc_pt e) (inv_mask e) (priv glob g))) es) h)"
  using assms
proof (induction es arbitrary: h)
  case (Cons e es)
  have "get_output (pe_plc_pt e) (inv_mask e) glob g = Some (output_value (pe_plc_pt e) (inv_mask e) (priv glob g))"
    using output_get [of len] Cons.prems by simp
  then show ?case using Cons.IH Cons.prems
    by (cases "hw_write hw h (pe_io_addr e) (output_value (pe_plc_pt e) (inv_mask e) (priv glob g))")
      (auto simp: map_option_case split: option.splits prod.splits)
qed simp

section \<open>A scan\<close>

text \<open>After the update the module's map is the global map, with its own bits and those of the others.\<close>

lemma update_gets:
  assumes "maps_ok glob g" "gmm_mod_fns g = variant_local"
  shows "\<exists>g'. plc_update glob g = (gmm_privmap g', Some g') \<and> maps_ok (gmm_privmap g') g' \<and>
    gmm_mapmask g' = gmm_mapmask g \<and> globalmap_len g' = globalmap_len g \<and> gmm_mod_fns g' = variant_local \<and>
    (\<forall>q. pt_wf (globalmap_len g) q \<longrightarrow>
       (may_write g q \<longrightarrow> plc_get (gmm_privmap g') g' q = plc_get glob g q) \<and>
       (gmm_mapmask g ! unat (pt_ofs q) AND pt_mask q = 0 \<longrightarrow>
          plc_get (gmm_privmap g') g' q = Some (output_value q 0 glob)))"
proof -
  let ?ws = "map (\<lambda>i. merge_word (gmm_mapmask g ! i) (glob ! i) (gmm_privmap g ! i)) [0..<length glob]"
  let ?g = "g\<lparr>gmm_privmap := ?ws\<rparr>"
  have u: "plc_update glob g = (?ws, Some ?g)"
    using assms update_local_result [of g glob] by (simp add: maps_ok_def plc_update_def Let_def)
  have w: "bit (?ws ! unat (pt_ofs q)) n =
      (if bit (gmm_mapmask g ! unat (pt_ofs q)) n then bit (gmm_privmap g ! unat (pt_ofs q)) n else bit (glob ! unat (pt_ofs q)) n)"
    if "pt_wf (globalmap_len g) q" for q n
  proof -
    have "unat (pt_ofs q) < nat (sint (globalmap_len g))"
      using pt_wf_bounds(2,3) [OF that] sint_nonneg_unat [of "pt_ofs q"] by linarith
    then have "unat (pt_ofs q) < length glob" using assms by (simp add: maps_ok_def)
    then show ?thesis by (simp add: merge_bit)
  qed
  have "plc_get ?ws ?g q = plc_get glob g q" if "pt_wf (globalmap_len g) q" "may_write g q" for q
    using that assms(2) w [OF that(1)] may_write_bit [OF that(2)] by (intro get_same [OF that(1)]) (simp add: priv_def)
  moreover have "plc_get ?ws ?g q = Some (output_value q 0 glob)"
    if q: "pt_wf (globalmap_len g) q" "gmm_mapmask g ! unat (pt_ofs q) AND pt_mask q = 0" for q
  proof -
    have "\<not> bit (gmm_mapmask g ! unat (pt_ofs q)) n" if "bit (pt_mask q) n" for n
      using that q(2) by (metis bit_0_eq bit_and_iff bot_apply bot_bool_def)
    then have "?ws ! unat (pt_ofs q) AND pt_mask q = glob ! unat (pt_ofs q) AND pt_mask q"
      using w [OF q(1)] by (intro bit_word_eqI) (auto simp: bit_and_iff)
    then show ?thesis using assms(2) wf_magic [OF q(1)] by (simp add: plc_get_def output_value_def priv_def)
  qed
  ultimately show ?thesis
    using u assms by (intro exI [of _ ?g]) (auto simp: maps_ok_def)
qed

text \<open>A module whose table and whose access to the global map are good.\<close>

definition tables_ok :: "('a \<Rightarrow> bool) \<Rightarrow> ('a, 'h) io_module \<Rightarrow> bool" where
  "tables_ok addr_ok s \<longleftrightarrow>
     gmm_mod_fns (io_gmm s) = variant_local \<and> maps_ok (io_glob s) (io_gmm s) \<and>
     inputs_ok (globalmap_len (io_gmm s)) (io_gmm s) (io_read (map_lists s)) \<and>
     (\<forall>e\<in>set (io_write (map_lists s)). pt_wf (globalmap_len (io_gmm s)) (pe_plc_pt e)) \<and>
     (\<forall>e\<in>set (io_read (map_lists s)) \<union> set (io_write (map_lists s)). addr_ok (pe_io_addr e))"

lemma sint_len: "0 \<le> sint (len :: i32) \<Longrightarrow> nat (sint len) = unat len"
  using sint_nonneg_unat [of len] by linarith

lemma new_addresses:
  assumes "length as = length es" "\<forall>a\<in>set as. addr_ok a" "e' \<in> set (map2 (\<lambda>e a. e\<lparr>pe_io_addr := a\<rparr>) es as)"
  shows "addr_ok (pe_io_addr e')" "\<exists>e\<in>set es. pe_plc_pt e' = pe_plc_pt e"
  using assms by (auto simp: set_zip)

lemma new_inputs:
  "length as = length es \<Longrightarrow> inputs_ok len g (map2 (\<lambda>e a. e\<lparr>pe_io_addr := a\<rparr>) es as) = inputs_ok len g es"
  by (auto simp: inputs_ok_def all_set_conv_all_nth)

text \<open>Hardware that comes back for every address of some kind, and stays in good order.\<close>

locale io_device =
  fixes hw :: "('a, 'h) io_hw" and ok :: "'h \<Rightarrow> bool" and addr_ok :: "'a \<Rightarrow> bool"
  assumes reads: "ok h \<Longrightarrow> addr_ok a \<Longrightarrow> \<exists>r a1 v1 h1. hw_read hw h a v = Some (r, a1, v1, h1) \<and> addr_ok a1 \<and> ok h1"
    and writes: "ok h \<Longrightarrow> addr_ok a \<Longrightarrow> \<exists>r a1 h1. hw_write hw h a v = Some (r, a1, h1) \<and> addr_ok a1 \<and> ok h1"
    and read_end: "ok h \<Longrightarrow> \<exists>r h1. hw_read_end hw h = Some (r, h1) \<and> ok h1"
    and write_end: "ok h \<Longrightarrow> \<exists>r h1. hw_write_end hw h = Some (r, h1) \<and> ok h1"
begin

lemma all_reads:
  "ok h \<Longrightarrow> \<forall>a\<in>set as. addr_ok a \<Longrightarrow>
    \<exists>rs as1 h1. read_results hw as v h = Some (rs, as1, h1) \<and> length as1 = length as \<and> (\<forall>a\<in>set as1. addr_ok a) \<and> ok h1"
proof (induction as arbitrary: v h)
  case (Cons a as)
  obtain r a1 v1 h1 where r: "hw_read hw h a v = Some (r, a1, v1, h1)" "addr_ok a1" "ok h1" using reads Cons.prems by fastforce
  then obtain rs as1 h2 where "read_results hw as v1 h1 = Some (rs, as1, h2)" "length as1 = length as" "\<forall>a\<in>set as1. addr_ok a" "ok h2"
    using Cons.IH [of h1 v1] Cons.prems by auto
  then show ?case using r by simp
qed simp

lemma all_writes:
  "ok h \<Longrightarrow> \<forall>(a, v)\<in>set avs. addr_ok a \<Longrightarrow>
    \<exists>as1 h1. write_all hw avs h = Some (as1, h1) \<and> length as1 = length avs \<and> (\<forall>a\<in>set as1. addr_ok a) \<and> ok h1"
proof (induction avs arbitrary: h)
  case (Cons av avs)
  obtain a v where av: "av = (a, v)" by force
  obtain r a1 h1 where r: "hw_write hw h a v = Some (r, a1, h1)" "addr_ok a1" "ok h1" using writes Cons.prems av by fastforce
  then obtain as1 h2 where "write_all hw avs h1 = Some (as1, h2)" "length as1 = length avs" "\<forall>a\<in>set as1. addr_ok a" "ok h2"
    using Cons.IH [of h1] Cons.prems by auto
  then show ?case using r av by simp
qed simp

text \<open>The scan comes back. Each input that the hardware could read is in its point and in the global map, the others
  keep their value, points of other modules have the values of the global map; and the hardware gets for each
  output what is in the global map then.\<close>

lemma scan:
  assumes "tables_ok addr_ok s" "ok (io_hardware s)" "length glob = length (io_glob s)"
  shows "\<exists>s' rs as1 h1 r1 h2 as2 h3 r4.
    scan_master hw glob junk s = Some s' \<and> tables_ok addr_ok s' \<and> ok (io_hardware s') \<and> length (io_glob s') = length glob \<and>
    gmm_privmap (io_gmm s') = io_glob s' \<and>
    read_results hw (map pe_io_addr (io_read (map_lists s))) junk (io_hardware s) = Some (rs, as1, h1) \<and>
    hw_read_end hw h1 = Some (r1, h2) \<and>
    write_all hw (map (\<lambda>e. (pe_io_addr e, output_value (pe_plc_pt e) (inv_mask e) (io_glob s'))) (io_write (map_lists s))) h2 =
      Some (as2, h3) \<and>
    hw_write_end hw h3 = Some (r4, io_hardware s') \<and>
    (\<forall>k < length (io_read (map_lists s)). let e = io_read (map_lists s) ! k in
       plc_get (io_glob s') (io_gmm s') (pe_plc_pt e) =
       (if fst (rs ! k) < 0 then plc_get (io_glob s) (io_gmm s) (pe_plc_pt e)
        else Some (input_value (pe_plc_pt e) (inv_mask e) (snd (rs ! k))))) \<and>
    (\<forall>q. pt_wf (globalmap_len (io_gmm s)) q \<and> gmm_mapmask (io_gmm s) ! unat (pt_ofs q) AND pt_mask q = 0 \<longrightarrow>
       plc_get (io_glob s') (io_gmm s') q = Some (output_value q 0 glob))"
proof -
  let ?g = "io_gmm s" and ?l = "map_lists s"
  let ?len = "globalmap_len ?g"
  have t: "gmm_mod_fns ?g = variant_local" "maps_ok glob ?g" "inputs_ok ?len ?g (io_read ?l)"
      "\<forall>e\<in>set (io_write ?l). pt_wf ?len (pe_plc_pt e)" "\<forall>e\<in>set (io_read ?l). addr_ok (pe_io_addr e)"
      "\<forall>e\<in>set (io_write ?l). addr_ok (pe_io_addr e)"
    using assms(1,3) by (auto simp: tables_ok_def maps_ok_def)
  obtain rs as1 h1 where r: "read_results hw (map pe_io_addr (io_read ?l)) junk (io_hardware s) = Some (rs, as1, h1)"
      and a1: "length as1 = length (io_read ?l)" "\<forall>a\<in>set as1. addr_ok a" and h1: "ok h1"
    using all_reads [OF assms(2), of "map pe_io_addr (io_read ?l)" junk] t(5) by auto
  obtain r1 h2 where e1: "hw_read_end hw h1 = Some (r1, h2)" and h2: "ok h2" using read_end [OF h1] by blast
  have any: "io_read ?l = [] \<or> 0 \<le> sint ?len" 
  proof (cases "io_read ?l")
    case (Cons e es)
    then have "pt_wf ?len (pe_plc_pt e)" using t(3) by (simp add: inputs_ok_def)
    then show ?thesis using pt_wf_bounds(2,3) [of ?len "pe_plc_pt e"] by linarith
  qed simp
  let ?in = "map2 (\<lambda>e a. e\<lparr>pe_io_addr := a\<rparr>) (io_read ?l) as1"
  obtain g1 where re: "read_entries hw (io_read ?l) junk glob ?g (io_hardware s) = Some (?in, glob, g1, h1)"
      and f1: "gmm_mapmask g1 = gmm_mapmask ?g" "globalmap_len g1 = ?len" "gmm_mod_fns g1 = variant_local"
        "length (gmm_privmap g1) = length (gmm_privmap ?g)"
      and gt: "\<forall>k < length (io_read ?l). plc_get glob g1 (pe_plc_pt (io_read ?l ! k)) =
       (if fst (rs ! k) < 0 then plc_get glob ?g (pe_plc_pt (io_read ?l ! k))
        else Some (input_value (pe_plc_pt (io_read ?l ! k)) (inv_mask (io_read ?l ! k)) (snd (rs ! k))))"
  proof (cases "io_read ?l = []")
    case True
    then show ?thesis using that [of ?g] r t(1) by simp
  next
    case False
    then have "length (priv glob ?g) = unat ?len" using any t(1,2) by (auto simp: priv_def maps_ok_def sint_len)
    from read_entries_store [OF r t(3) this t(1)] show ?thesis by (elim exE conjE) (rule that)
  qed
  have m1: "maps_ok glob g1" using t(1,2) f1 by (simp add: maps_ok_def)
  obtain g2 where u: "plc_update glob g1 = (gmm_privmap g2, Some g2)" and m2: "maps_ok (gmm_privmap g2) g2"
      and f2: "gmm_mapmask g2 = gmm_mapmask g1" "globalmap_len g2 = globalmap_len g1" "gmm_mod_fns g2 = variant_local"
      and gu: "\<forall>q. pt_wf (globalmap_len g1) q \<longrightarrow>
       (may_write g1 q \<longrightarrow> plc_get (gmm_privmap g2) g2 q = plc_get glob g1 q) \<and>
       (gmm_mapmask g1 ! unat (pt_ofs q) AND pt_mask q = 0 \<longrightarrow> plc_get (gmm_privmap g2) g2 q = Some (output_value q 0 glob))"
    using update_gets [OF m1 f1(3)] by (elim exE conjE) (rule that)
  let ?ws = "gmm_privmap g2"
  let ?av = "map (\<lambda>e. (pe_io_addr e, output_value (pe_plc_pt e) (inv_mask e) ?ws)) (io_write ?l)"
  obtain as2 h3 where w: "write_all hw ?av h2 = Some (as2, h3)" and a2: "length as2 = length (io_write ?l)" "\<forall>a\<in>set as2. addr_ok a"
      and h3: "ok h3"
    using all_writes [OF h2, of ?av] t(6) by auto
  obtain r4 h4 where e4: "hw_write_end hw h3 = Some (r4, h4)" and h4: "ok h4" using write_end [OF h3] by blast
  have pr: "priv ?ws g2 = ?ws" using f2(3) by (simp add: priv_def)
  let ?out = "map2 (\<lambda>e a. e\<lparr>pe_io_addr := a\<rparr>) (io_write ?l) as2"
  have we: "write_entries hw (io_write ?l) ?ws g2 h2 = Some (?out, h3)"
    unfolding write_entries_all [OF t(4)] pr w by simp
  let ?s = "s\<lparr>io_glob := ?ws, io_gmm := g2, map_lists := ?l\<lparr>io_read := ?in, io_write := ?out\<rparr>, io_hardware := h4\<rparr>"
  have sc: "scan_master hw glob junk s = Some ?s"
    using re e1 u we e4 by (simp add: scan_master_def io_read_inputs_def io_update_def io_write_outputs_def)
  have "gmm_mapmask g2 = gmm_mapmask ?g" and len: "globalmap_len g2 = ?len" using f1 f2 by simp_all
  then have "inputs_ok ?len g2 ?in" unfolding new_inputs [OF a1(1)] inputs_ok_cong [OF \<open>gmm_mapmask g2 = gmm_mapmask ?g\<close>] by (intro t(3))
  moreover have "\<forall>e\<in>set ?out. pt_wf ?len (pe_plc_pt e)" using new_addresses(2) [OF a2] t(4) by metis
  moreover have "\<forall>e\<in>set ?in \<union> set ?out. addr_ok (pe_io_addr e)" using new_addresses(1) [OF a1] new_addresses(1) [OF a2] by blast
  ultimately have "tables_ok addr_ok ?s" unfolding tables_ok_def using f2(3) m2 len by simp
  moreover have "length ?ws = length glob" using m2 t(2) f1 f2 by (simp add: maps_ok_def)
  moreover have "plc_get ?ws g2 (pe_plc_pt (io_read ?l ! k)) =
       (if fst (rs ! k) < 0 then plc_get (io_glob s) ?g (pe_plc_pt (io_read ?l ! k))
        else Some (input_value (pe_plc_pt (io_read ?l ! k)) (inv_mask (io_read ?l ! k)) (snd (rs ! k))))"
    if k: "k < length (io_read ?l)" for k
  proof -
    have "pt_wf (globalmap_len g1) (pe_plc_pt (io_read ?l ! k))" "may_write g1 (pe_plc_pt (io_read ?l ! k))"
      using t(3) k f1(1,2) by (auto simp: inputs_ok_def may_write_def)
    then have "plc_get ?ws g2 (pe_plc_pt (io_read ?l ! k)) = plc_get glob g1 (pe_plc_pt (io_read ?l ! k))" using gu by blast
    moreover have "plc_get glob ?g q = plc_get (io_glob s) ?g q" for q using t(1) by (simp add: plc_get_def priv_def)
    ultimately show ?thesis using gt k by simp
  qed
  ultimately show ?thesis
    using sc r e1 w e4 h4 gu f1(1,2) by (intro exI [of _ ?s] exI conjI) (auto simp: Let_def)
qed

text \<open>So the loop goes on for ever: after any number of scans the module is in good order.\<close>

lemma scans:
  "tables_ok addr_ok s \<Longrightarrow> ok (io_hardware s) \<Longrightarrow> \<forall>(glob, junk)\<in>set gs. length glob = length (io_glob s) \<Longrightarrow>
    \<exists>s'. run_loop_master hw gs s = Some s' \<and> tables_ok addr_ok s' \<and> ok (io_hardware s')"
proof (induction gs arbitrary: s)
  case (Cons gj gs)
  obtain glob junk where gj: "gj = (glob, junk)" by force
  have l: "length glob = length (io_glob s)" using Cons.prems(3) gj by simp
  obtain s1 where s1: "scan_master hw glob junk s = Some s1" "tables_ok addr_ok s1" "ok (io_hardware s1)" "length (io_glob s1) = length glob"
    using scan [OF Cons.prems(1,2) l, of junk] by blast
  then show ?case using Cons.IH [OF s1(2,3)] Cons.prems(3) l gj by auto
qed simp

end

end
