(* ===== verification/ModbusSlave.thy ===== *)
theory ModbusSlave
  imports IoProps ModbusMasterRtu
begin

unbundle bit_operations_syntax

text \<open>
  The Modbus slave module, \<^verbatim>\<open>io/modbus/modbus_s.c\<close> with \<^verbatim>\<open>protocol/mb_slave.c\<close>: the loop that
  answers requests from the points of the table of mappings, the reading of its configuration, and its start. It is
  only built over TCP; the layer below is a parameter, as for the master. \<open>None\<close> is a call that
  does not come back or whose behaviour is undefined (a shift by 32).
\<close>

section \<open>Data\<close>

text \<open>The eight bytes of an address, as the Modbus modules read them. The slave keeps the shift in \<open>am_count\<close>.\<close>

record io_addr_modbus_t =
  am_function_code :: u8
  am_slave :: u8
  am_address :: u16
  am_count :: u16
  am_nw_array_ofs :: u16

record node_addr_tcp_t =
  tcp_host :: string
  tcp_service :: string

record slave_network_t =
  sn_name :: string
  sn_addr :: node_addr_tcp_t
  sn_nd :: int
  sn_slave_address :: int
  sn_connections :: int
  sn_mode :: int

text \<open>\<^verbatim>\<open>mb_slave.c\<close>: its buffer, which nothing uses, and the layer below.\<close>

record 's mb_slave =
  slave_buffer :: "u8 list option"
  slave_lower :: 's

text \<open>The static variables of the module; \<open>next_address\<close> is the one in \<^verbatim>\<open>io_hw_parse_io_addr\<close>.\<close>

record 's slave_hw =
  slave_nets :: "slave_network_t list"
  next_address :: u16
  slave_errange :: bool
  slave_conf :: conffile
  slave_proto :: "'s mb_slave"

type_synonym 's slave_module = "(io_addr_modbus_t, 's slave_hw) io_module"

section \<open>The slave's protocol\<close>

definition mb_slave_init ::
  "('s, 'a) layer1 \<Rightarrow> (nat \<Rightarrow> u8 list option) \<Rightarrow> int \<Rightarrow> 's mb_slave \<Rightarrow> (int \<times> 's mb_slave) option" where
  "mb_slave_init l malloc nd_count m =
     do { (res, extra_bytes, s1) \<leftarrow> l1_init l (slave_lower m) nd_count DEF_OPTIMIZATION;
          let m1 = m\<lparr>slave_lower := s1\<rparr> in
          if res < 0 then Some (-1, m1)
          else (case malloc (QUERY_BUFFER_SIZE + extra_bytes) of
                  Some buf \<Rightarrow> Some (0, m1\<lparr>slave_buffer := Some buf\<rparr>)
                | None \<Rightarrow> do { (r, s2) \<leftarrow> l1_done l s1; Some (-1, m1\<lparr>slave_buffer := None, slave_lower := s2\<rparr>) }) }"

definition mb_slave_done :: "('s, 'a) layer1 \<Rightarrow> 's mb_slave \<Rightarrow> (int \<times> 's mb_slave) option" where
  "mb_slave_done l m = do { (r, s1) \<leftarrow> l1_done l (slave_lower m); Some (r, m\<lparr>slave_buffer := None, slave_lower := s1\<rparr>) }"

definition mb_slave_connect :: "('s, 'a) layer1 \<Rightarrow> 'a \<Rightarrow> 's mb_slave \<Rightarrow> (int \<times> 's mb_slave) option" where
  "mb_slave_connect l node_addr m = do { (r, s1) \<leftarrow> l1_listen l (slave_lower m) node_addr; Some (r, m\<lparr>slave_lower := s1\<rparr>) }"

definition mb_slave_close :: "('s, 'a) layer1 \<Rightarrow> int \<Rightarrow> 's mb_slave \<Rightarrow> (int \<times> 's mb_slave) option" where
  "mb_slave_close l nd m = do { (r, s1) \<leftarrow> l1_close l (slave_lower m) nd; Some (r, m\<lparr>slave_lower := s1\<rparr>) }"

section \<open>Answering a request\<close>

text \<open>Half of a word. Shifting by 32 or more is undefined.\<close>

definition half_of :: "u32 \<Rightarrow> u16 \<Rightarrow> u16 option" where
  "half_of value shift = (if 32 \<le> unat shift then None else Some (ucast (drop_bit (unat shift) value)))"

definition put_half :: "u32 \<Rightarrow> u16 \<Rightarrow> u16 \<Rightarrow> u32 option" where
  "put_half value shift quantity =
     (if 32 \<le> unat shift then None
      else Some ((value AND NOT (push_bit (unat shift) 0xFFFF)) OR push_bit (unat shift) (ucast quantity)))"

text \<open>\<^verbatim>\<open>reply[1] += 0x80\<close> and an exception code.\<close>

definition put_exception :: "u8 list \<Rightarrow> u8 \<Rightarrow> u8 list option" where
  "put_exception reply code = do { d1 \<leftarrow> get_at reply 1; r1 \<leftarrow> put_at reply 1 (d1 + 0x80); put_at r1 2 code }"

text \<open>The registers from \<open>i\<close> on. A point that is not valid ends the loop with an exception.\<close>

fun read_points ::
  "io_addr_modbus_t pt_map_lists \<Rightarrow> u32 list \<Rightarrow> gmm \<Rightarrow> nat \<Rightarrow> nat \<Rightarrow> nat \<Rightarrow> u8 list \<Rightarrow> u8 list option" where
  "read_points ml glob g start_addr i 0 reply = Some reply"
| "read_points ml glob g start_addr i (Suc n) reply =
     do { (mb_addr, point) \<leftarrow> get_map_entry_by_index (Some ml) (int i);
          if pt_valid point
          then do { value \<leftarrow> plc_get glob g point; h \<leftarrow> half_of value (am_count mb_addr);
                    r1 \<leftarrow> put_u16 reply (3 + (i - start_addr) * 2) h;
                    d2 \<leftarrow> get_at r1 2; r2 \<leftarrow> put_at r1 2 (d2 + 2);
                    read_points ml glob g start_addr (i + 1) n r2 }
          else put_exception reply 4 }"

text \<open>A frame after its address was found to be one of ours: the reply with its length, and the maps. The buffer of the
  reply keeps the bytes of earlier ones.\<close>

definition answer_read ::
  "io_addr_modbus_t pt_map_lists \<Rightarrow> u32 list \<Rightarrow> gmm \<Rightarrow> nat \<Rightarrow> nat \<Rightarrow> u8 list \<Rightarrow> (u8 list \<times> nat) option" where
  "answer_read ml glob g start_addr quantity reply =
     (if slave_mapped_points (Some ml) < int (start_addr + quantity) \<or> 0x7D < quantity \<or> quantity < 1
      then do { r1 \<leftarrow> put_exception reply 2; Some (r1, 3) }
      else do { r1 \<leftarrow> read_points ml glob g start_addr start_addr quantity reply;
                d2 \<leftarrow> get_at r1 2; Some (r1, unat d2 + 3) })"

definition answer_write ::
  "io_addr_modbus_t pt_map_lists \<Rightarrow> u32 list \<Rightarrow> gmm \<Rightarrow> u16 \<Rightarrow> u16 \<Rightarrow> u8 list \<Rightarrow> (u8 list \<times> nat \<times> u32 list \<times> gmm) option" where
  "answer_write ml glob g start_addr quantity reply =
     (if slave_mapped_points (Some ml) \<le> uint start_addr
      then do { r1 \<leftarrow> put_exception reply 2; Some (r1, 3, glob, g) }
      else do { (mb_addr, point) \<leftarrow> get_map_entry_by_index (Some ml) (uint start_addr);
           if \<not> pt_valid point then do { r1 \<leftarrow> put_exception reply 3; Some (r1, 3, glob, g) }
           else if \<not> (plc_pt_rw g point = 2 \<and> 15 < plc_pt_len point)
           then do { r1 \<leftarrow> put_exception reply 4; Some (r1, 3, glob, g) }
           else do { value \<leftarrow> plc_get glob g point;
                     value1 \<leftarrow> put_half value (am_count mb_addr) quantity;
                     (glob1, g1) \<leftarrow> plc_set glob g point value1;
                     (case plc_update glob1 g1 of
                        (glob2, None) \<Rightarrow> None
                      | (glob2, Some g2) \<Rightarrow>
                          do { value2 \<leftarrow> plc_get glob2 g2 point;
                               h \<leftarrow> half_of value2 (am_count mb_addr);
                               r1 \<leftarrow> put_u16 reply 4 h; r2 \<leftarrow> put_u16 r1 2 start_addr;
                               Some (r2, 6, glob2, g2) }) } })"

definition slave_answer ::
  "io_addr_modbus_t pt_map_lists \<Rightarrow> u32 list \<Rightarrow> gmm \<Rightarrow> u8 list \<Rightarrow> u8 list \<Rightarrow> (u8 list \<times> nat \<times> u32 list \<times> gmm) option" where
  "slave_answer ml glob g buff reply =
     do { b0 \<leftarrow> get_at buff 0; b1 \<leftarrow> get_at buff 1;
          r0 \<leftarrow> put_at reply 0 b0; r1 \<leftarrow> put_at r0 1 b1; r2 \<leftarrow> put_at r1 2 0;
          start_addr \<leftarrow> get_u16 buff 2; quantity \<leftarrow> get_u16 buff 4;
          if b1 = 0x04 \<or> b1 = 0x03
          then do { (r, n) \<leftarrow> answer_read ml glob g (unat start_addr) (unat quantity) r2; Some (r, n, glob, g) }
          else if b1 = 0x06 then answer_write ml glob g start_addr quantity r2
          else do { r \<leftarrow> put_exception r2 1; Some (r, 3, glob, g) } }"

section \<open>The loop\<close>

text \<open>The variables of the loop: the descriptor, the transaction id and the buffer of the reply.\<close>

record slave_vars =
  sv_nd :: int
  sv_tr_id :: u16
  sv_reply :: "u8 list"

text \<open>The layer below is left in a state.\<close>

definition on_layer :: "'s \<Rightarrow> 's slave_module \<Rightarrow> 's slave_module" where
  "on_layer low s = s\<lparr>io_hardware := (io_hardware s)\<lparr>slave_proto := (slave_proto (io_hardware s))\<lparr>slave_lower := low\<rparr>\<rparr>\<rparr>"

definition slave_read_frame ::
  "('s, 'a) layer1 \<Rightarrow> slave_vars \<Rightarrow> 's slave_module \<Rightarrow> (int \<times> u8 list \<times> slave_vars \<times> 's slave_module) option" where
  "slave_read_frame l v s =
     do { (nbytes, nd, buff, tid, low) \<leftarrow> l1_read l (slave_lower (slave_proto (io_hardware s))) (sv_nd v) (sv_tr_id v) [];
          Some (nbytes, buff, v\<lparr>sv_nd := nd, sv_tr_id := tid\<rparr>,
            on_layer low s) }"

text \<open>One turn of the loop. While it waits for a request the other modules change the global map by \<open>others\<close>.\<close>

definition modbus_slave_turn ::
  "('s, 'a) layer1 \<Rightarrow> (u32 list \<Rightarrow> u32 list) \<Rightarrow> slave_vars \<times> 's slave_module \<Rightarrow> (slave_vars \<times> 's slave_module) option" where
  "modbus_slave_turn l others vs =
     (case vs of (v, s) \<Rightarrow>
        do { s1 \<leftarrow> io_update s;
             (nbytes, buff, v1, s2) \<leftarrow> slave_read_frame l v (s1\<lparr>io_glob := others (io_glob s1)\<rparr>);
             if nbytes < 0 then Some (v1\<lparr>sv_nd := -1\<rparr>, s2)
             else do {
               b0 \<leftarrow> get_at buff 0;
               if \<not> list_ex (\<lambda>n. uint b0 = sn_slave_address n) (slave_nets (io_hardware s2))
               then do { (r, low) \<leftarrow> l1_close l (slave_lower (slave_proto (io_hardware s2))) (sv_nd v1);
                         Some (v1\<lparr>sv_nd := -1\<rparr>, on_layer low s2) }
               else do {
                 (reply, count, glob, g) \<leftarrow> slave_answer (map_lists s2) (io_glob s2) (io_gmm s2) buff (sv_reply v1);
                 (r, reply1, low) \<leftarrow> l1_write l (slave_lower (slave_proto (io_hardware s2))) (sv_nd v1) reply count (sv_tr_id v1);
                 s3 \<leftarrow> io_update (on_layer low (s2\<lparr>io_glob := glob, io_gmm := g\<rparr>));
                 Some (v1\<lparr>sv_reply := reply1\<rparr>, s3) } } })"

fun modbus_slave_loop ::
  "('s, 'a) layer1 \<Rightarrow> (u32 list \<Rightarrow> u32 list) list \<Rightarrow> slave_vars \<times> 's slave_module \<Rightarrow> (slave_vars \<times> 's slave_module) option" where
  "modbus_slave_loop l [] vs = Some vs"
| "modbus_slave_loop l (others # os) vs = do { vs1 \<leftarrow> modbus_slave_turn l others vs; modbus_slave_loop l os vs1 }"

section \<open>Addresses\<close>

definition lower_char :: "char \<Rightarrow> char" where
  "lower_char c = (if 65 \<le> (of_char c :: nat) \<and> (of_char c :: nat) \<le> 90 then char_of ((of_char c :: nat) + 32) else c)"

text \<open>\<^verbatim>\<open>strncasecmp(s, t, length of t) == 0\<close>.\<close>

definition starts_nocase :: "string \<Rightarrow> string \<Rightarrow> bool" where
  "starts_nocase s t \<longleftrightarrow> map lower_char (take (length t) s) = map lower_char t"

definition addr_zero :: io_addr_modbus_t where
  "addr_zero = \<lparr>am_function_code = 0, am_slave = 0, am_address = 0, am_count = 0, am_nw_array_ofs = 0\<rparr>"

definition slave_parse_io_addr ::
  "'s slave_hw \<Rightarrow> io_addr_modbus_t \<Rightarrow> string option \<Rightarrow> dir_t \<Rightarrow> int \<Rightarrow> (int \<times> io_addr_modbus_t \<times> 's slave_hw) option" where
  "slave_parse_io_addr h a str dir pt_len =
     (let a1 = addr_zero\<lparr>am_address := next_address h\<rparr>
      in case string_str_to_int (slave_errange h) str 0 32 of
           (e, Some shift) \<Rightarrow> Some (0, a1\<lparr>am_count := word_of_int shift\<rparr>, h\<lparr>slave_errange := e, next_address := next_address h + 1\<rparr>)
         | (e, None) \<Rightarrow>
             let h1 = h\<lparr>slave_errange := e\<rparr>; h2 = h1\<lparr>next_address := next_address h + 1\<rparr> in
             (case str of
                None \<Rightarrow> None
              | Some s \<Rightarrow>
                  if starts_nocase s ''high'' then Some (0, a1\<lparr>am_count := 16\<rparr>, h2)
                  else if starts_nocase s ''low'' then Some (0, a1\<lparr>am_count := 0\<rparr>, h2)
                  else Some (-1, a1, h1)))"

section \<open>The networks\<close>

definition SLAVE_NETWORK_TABLE :: string where "SLAVE_NETWORK_TABLE = ''endpoint''"
definition MODBUS_NETWORK_NAME_OFS :: int where "MODBUS_NETWORK_NAME_OFS = 0"
definition MODBUS_NETWORK_TYPE_OFS :: int where "MODBUS_NETWORK_TYPE_OFS = 1"
definition MODBUS_NETWORK_TCP_TYPE :: string where "MODBUS_NETWORK_TCP_TYPE = ''tcp''"
definition MODBUS_ADDRESS_DEF :: int where "MODBUS_ADDRESS_DEF = 1"
definition MODBUS_CONNECTIONS_DEF :: int where "MODBUS_CONNECTIONS_DEF = 1"
definition MODBUS_MODE_DEF :: int where "MODBUS_MODE_DEF = 0"
definition SLAVE_HOSTNAME_DEF :: string where "SLAVE_HOSTNAME_DEF = ''0.0.0.0''"
definition MODBUS_SERVICE_DEF :: string where "MODBUS_SERVICE_DEF = ''502''"

text \<open>A value that is not good is left as it is.\<close>

definition get_config_i32 :: "bool \<Rightarrow> int \<Rightarrow> int \<Rightarrow> int \<Rightarrow> string \<Rightarrow> bool \<times> int" where
  "get_config_i32 errange v mn mx str =
     (case string_str_to_i32 errange (Some str) mn mx of (e, None) \<Rightarrow> (e, v) | (e, Some x) \<Rightarrow> (e, x))"

text \<open>The pairs of parameter and value; the name is compared without a test for a null pointer, which there cannot be
  as a value follows it.\<close>

definition slave_parameter :: "string \<Rightarrow> string \<Rightarrow> bool \<times> slave_network_t \<Rightarrow> bool \<times> slave_network_t" where
  "slave_parameter name val en =
     (case en of (e, nw) \<Rightarrow>
        if name = ''host'' then (e, nw\<lparr>sn_addr := (sn_addr nw)\<lparr>tcp_host := val\<rparr>\<rparr>)
        else if name = ''port'' then (e, nw\<lparr>sn_addr := (sn_addr nw)\<lparr>tcp_service := val\<rparr>\<rparr>)
        else if name = ''address'' then (case get_config_i32 e (sn_slave_address nw) 0 255 val of (e1, v) \<Rightarrow> (e1, nw\<lparr>sn_slave_address := v\<rparr>))
        else if name = ''mode'' then (case get_config_i32 e (sn_mode nw) 0 1 val of (e1, v) \<Rightarrow> (e1, nw\<lparr>sn_mode := v\<rparr>))
        else if name = ''connections'' then (case get_config_i32 e (sn_connections nw) 1 10 val of (e1, v) \<Rightarrow> (e1, nw\<lparr>sn_connections := v\<rparr>))
        else (e, nw))"

fun slave_parameters :: "(int \<Rightarrow> string option) \<Rightarrow> int list \<Rightarrow> bool \<times> slave_network_t \<Rightarrow> (bool \<times> slave_network_t) option" where
  "slave_parameters field [] en = Some en"
| "slave_parameters field (i # is) en =
     (case field (3 + i * 2) of
        None \<Rightarrow> Some en
      | Some val \<Rightarrow>
          (case field (2 + i * 2) of
             None \<Rightarrow> None
           | Some name \<Rightarrow> slave_parameters field is (slave_parameter name val en)))"

definition slave_init_network_data ::
  "conffile \<Rightarrow> bool \<Rightarrow> int \<Rightarrow> (bool \<times> slave_network_t option) option" where
  "slave_init_network_data cf errange row =
     (let field = conffile_get_table cf (Some SLAVE_NETWORK_TABLE) row in
      case field MODBUS_NETWORK_TYPE_OFS of
        None \<Rightarrow> None
      | Some t \<Rightarrow>
          if t \<noteq> MODBUS_NETWORK_TCP_TYPE then Some (errange, None)
          else (case field MODBUS_NETWORK_NAME_OFS of
                  None \<Rightarrow> Some (errange, None)
                | Some name \<Rightarrow>
                    map_option (map_prod id Some)
                      (slave_parameters field (map int [0..<nat (conffile_get_table_rowlen cf (Some SLAVE_NETWORK_TABLE) row)])
                        (errange, \<lparr>sn_name = name, sn_addr = \<lparr>tcp_host = SLAVE_HOSTNAME_DEF, tcp_service = MODBUS_SERVICE_DEF\<rparr>,
                           sn_nd = -1, sn_slave_address = MODBUS_ADDRESS_DEF, sn_connections = MODBUS_CONNECTIONS_DEF,
                           sn_mode = MODBUS_MODE_DEF\<rparr>))))"

fun slave_load_networks ::
  "conffile \<Rightarrow> int list \<Rightarrow> bool \<times> slave_network_t list \<Rightarrow> (bool \<times> slave_network_t list) option" where
  "slave_load_networks cf [] en = Some en"
| "slave_load_networks cf (row # rows) en =
     (if conffile_get_table cf (Some SLAVE_NETWORK_TABLE) row MODBUS_NETWORK_TYPE_OFS = Some MODBUS_NETWORK_TCP_TYPE
      then do { (e, r) \<leftarrow> slave_init_network_data cf (fst en) row;
                slave_load_networks cf rows (e, snd en @ (case r of None \<Rightarrow> [] | Some nw \<Rightarrow> [nw])) }
      else slave_load_networks cf rows en)"

definition slave_parse_config :: "bool \<Rightarrow> 's slave_hw \<Rightarrow> (int \<times> 's slave_hw) option" where
  "slave_parse_config memory h =
     (if \<not> memory then Some (-1, h)
      else do { (e, nets) \<leftarrow> slave_load_networks (slave_conf h)
                  (map int [0..<nat (conffile_get_table_rows (slave_conf h) (Some SLAVE_NETWORK_TABLE))]) (slave_errange h, []);
                Some (0, h\<lparr>slave_errange := e, slave_nets := nets\<rparr>) })"

fun slave_connect_all ::
  "('s, node_addr_tcp_t) layer1 \<Rightarrow> slave_network_t list \<Rightarrow> 's mb_slave \<Rightarrow> (slave_network_t list \<times> 's mb_slave) option" where
  "slave_connect_all l [] m = Some ([], m)"
| "slave_connect_all l (n # ns) m =
     do { (nd, m1) \<leftarrow> mb_slave_connect l (sn_addr n) m; (ns1, m2) \<leftarrow> slave_connect_all l ns m1; Some (n\<lparr>sn_nd := nd\<rparr> # ns1, m2) }"

definition slave_io_hw_init ::
  "('s, node_addr_tcp_t) layer1 \<Rightarrow> (nat \<Rightarrow> u8 list option) \<Rightarrow> 's slave_hw \<Rightarrow> (int \<times> 's slave_hw) option" where
  "slave_io_hw_init l malloc h =
     do { (r, m) \<leftarrow> mb_slave_init l malloc (int (length (slave_nets h)) + sum_list (map sn_connections (slave_nets h))) (slave_proto h);
          if r < 0 then Some (-1, h\<lparr>slave_proto := m\<rparr>)
          else do { (nets, m1) \<leftarrow> slave_connect_all l (slave_nets h) m; Some (0, h\<lparr>slave_nets := nets, slave_proto := m1\<rparr>) } }"

text \<open>The hardware of the slave module: reading and writing do nothing, as the loop is its own.\<close>

definition slave_io_hw :: "('s, node_addr_tcp_t) layer1 \<Rightarrow> (nat \<Rightarrow> u8 list option) \<Rightarrow> bool \<Rightarrow> (io_addr_modbus_t, 's slave_hw) io_hw" where
  "slave_io_hw l malloc memory = \<lparr>
     hw_read = (\<lambda>h a v. Some (0, a, v, h)), hw_write = (\<lambda>h a v. Some (0, a, h)),
     hw_read_end = (\<lambda>h. Some (0, h)), hw_write_end = (\<lambda>h. Some (0, h)),
     hw_parse_io_addr = slave_parse_io_addr,
     hw_parse_config = slave_parse_config memory,
     hw_init = slave_io_hw_init l malloc,
     hw_done = (\<lambda>h. do { (r, m) \<leftarrow> mb_slave_done l (slave_proto h); Some (r, h\<lparr>slave_proto := m\<rparr>) })\<rparr>"

interpretation slave_io: io_device "slave_io_hw l malloc memory" "\<lambda>_. True" "\<lambda>_. True" for l malloc memory
  by unfold_locales (simp_all add: slave_io_hw_def)

end
