(* ===== verification/ModbusSlaveProps.thy ===== *)
theory ModbusSlaveProps
  imports ModbusSlave
begin

unbundle bit_operations_syntax

text \<open>
  What the Modbus slave answers: registers are halves of points, a write changes its half and nothing else, and
  every other request is answered with an exception and changes nothing.
\<close>

section \<open>Registers\<close>

text \<open>The register at an index of the table.\<close>

definition slave_register :: "io_addr_modbus_t pt_map_lists \<Rightarrow> u32 list \<Rightarrow> gmm \<Rightarrow> nat \<Rightarrow> u16 option" where
  "slave_register ml glob g k =
     do { (a, pt) \<leftarrow> get_map_entry_by_index (Some ml) (int k); value \<leftarrow> plc_get glob g pt; half_of value (am_count a) }"

lemma put_u16_middle: "i = length pre \<Longrightarrow> put_u16 (pre @ x # y # post) i v = Some (pre @ be16 v @ post)"
  using put_at_mid [of "i + 1" "pre @ [ucast (drop_bit 8 v)]" y post "ucast v"]
  by (simp add: put_u16_def put_at_mid be16_def)

lemma get_valid_point: "plc_get glob g pt = Some v \<Longrightarrow> pt_valid pt"
  by (auto simp: plc_get_def pt_valid_def split: if_splits)

text \<open>The loop over registers that can all be read, with \<open>m\<close> more to come.\<close>

lemma read_points_more:
  assumes "\<And>j. j < length ws \<Longrightarrow> slave_register ml glob g (start + k + j) = Some (ws ! j)"
    and "2 * length ws \<le> length rest" "length stored = 2 * k" "k + length ws \<le> 125"
  shows "read_points ml glob g start (start + k) (length ws + m) ([sid, f, of_nat (2 * k)] @ stored @ rest) =
    read_points ml glob g start (start + (k + length ws)) m
      ([sid, f, of_nat (2 * (k + length ws))] @ stored @ reg_bytes ws @ drop (2 * length ws) rest)"
  using assms
proof (induction ws arbitrary: k stored rest)
  case Nil
  then show ?case by (simp add: reg_bytes_def)
next
  case (Cons w ws)
  obtain a b rs where rest: "rest = a # b # rs" using Cons.prems(2) by (auto simp: Suc_le_length_iff)
  obtain ad pt v where e: "get_map_entry_by_index (Some ml) (int (start + k)) = Some (ad, pt)" "plc_get glob g pt = Some v"
      "half_of v (am_count ad) = Some w"
    using Cons.prems(1) [of 0] by (auto simp: slave_register_def bind_eq_Some_conv)
  let ?hdr = "[sid, f, of_nat (2 * k)]"
  have put: "put_u16 ((?hdr @ stored) @ a # b # rs) (3 + (start + k - start) * 2) w = Some ((?hdr @ stored) @ be16 w @ rs)"
    using Cons.prems(3) by (intro put_u16_middle) simp
  have "slave_register ml glob g (start + Suc k + j) = Some (ws ! j)" if "j < length ws" for j
    using Cons.prems(1) [of "Suc j"] that by simp
  from Cons.IH [OF this, of rs "stored @ be16 w"] Cons.prems(2-4) rest
  have ih: "read_points ml glob g start (start + Suc k) (length ws + m) ([sid, f, of_nat (2 * Suc k)] @ (stored @ be16 w) @ rs) =
      read_points ml glob g start (start + (Suc k + length ws)) m
        ([sid, f, of_nat (2 * (Suc k + length ws))] @ (stored @ be16 w) @ reg_bytes ws @ drop (2 * length ws) rs)"
    by (simp add: be16_def)
  have "put_at ([sid, f, of_nat (2 * k)] @ stored @ be16 w @ rs) 2 (of_nat (2 * k) + 2) =
      Some ([sid, f, of_nat (2 * Suc k)] @ stored @ be16 w @ rs)"
    using put_at_mid [of 2 "[sid, f]" "of_nat (2 * k)" "stored @ be16 w @ rs"] by (simp add: add.commute)
  moreover have "get_at ([sid, f, of_nat (2 * k)] @ stored @ be16 w @ rs) 2 = Some (of_nat (2 * k))" by (simp add: get_at_def)
  ultimately have "read_points ml glob g start (start + k) (length (w # ws) + m) (?hdr @ stored @ rest) =
      read_points ml glob g start (start + Suc k) (length ws + m) ([sid, f, of_nat (2 * Suc k)] @ (stored @ be16 w) @ rs)"
    unfolding rest using e put get_valid_point [OF e(2)] by (simp del: of_nat_mult of_nat_add of_nat_Suc)
  then show ?case unfolding ih rest by (simp add: reg_bytes_def)
qed

lemma read_points_store:
  assumes "\<And>j. j < length ws \<Longrightarrow> slave_register ml glob g (start + k + j) = Some (ws ! j)"
    and "2 * length ws \<le> length rest" "length stored = 2 * k" "k + length ws \<le> 125"
  shows "read_points ml glob g start (start + k) (length ws) ([sid, f, of_nat (2 * k)] @ stored @ rest) =
    Some ([sid, f, of_nat (2 * (k + length ws))] @ stored @ reg_bytes ws @ drop (2 * length ws) rest)"
  using read_points_more [OF assms, of 0 sid f] by simp

section \<open>The first bytes of a reply\<close>

definition request :: "u8 \<Rightarrow> u8 \<Rightarrow> u16 \<Rightarrow> u16 \<Rightarrow> u8 list" where
  "request sid func start quantity = [sid, func] @ be16 start @ be16 quantity"

lemma get_u16_be16: "i = length pre \<Longrightarrow> get_u16 (pre @ be16 w @ post) i = Some w"
  by (simp add: get_u16_def get_at_def be16_def nth_append be16_join)

lemma answer_start:
  assumes "3 \<le> length reply"
  shows "slave_answer ml glob g (request sid f start q @ rest) reply =
    (let r = [sid, f, 0] @ drop 3 reply in
     if f = 0x04 \<or> f = 0x03 then do { (r, n) \<leftarrow> answer_read ml glob g (unat start) (unat q) r; Some (r, n, glob, g) }
     else if f = 0x06 then answer_write ml glob g start q r
     else do { r \<leftarrow> put_exception r 1; Some (r, 3, glob, g) })"
proof -
  obtain a b c rs where reply: "reply = a # b # c # rs" using assms by (auto simp: numeral_eq_Suc Suc_le_length_iff)
  have "get_u16 (request sid f start q @ rest) 2 = Some start" "get_u16 (request sid f start q @ rest) 4 = Some q"
    using get_u16_be16 [of 2 "[sid, f]" start "be16 q @ rest"] get_u16_be16 [of 4 "[sid, f] @ be16 start" q rest]
    by (simp_all add: request_def be16_def)
  then show ?thesis unfolding reply by (simp add: slave_answer_def get_at_def put_at_def request_def)
qed

lemma put_exception_eq: "put_exception ([sid, f, c] @ rs) code = Some ([sid, f + 0x80, code] @ rs)"
  by (simp add: put_exception_def get_at_def put_at_def)

text \<open>Asked for registers that are all in its table, the slave answers with their values, in
  network order, and changes nothing.\<close>

lemma slave_reads_registers:
  assumes "f = 3 \<or> f = 4" "unat start + unat q \<le> length (io_slave ml)" "length ws = unat q" "1 \<le> unat q" "unat q \<le> 125"
    and "\<And>k. k < unat q \<Longrightarrow> slave_register ml glob g (unat start + k) = Some (ws ! k)" "3 + 2 * unat q \<le> length reply"
  shows "\<exists>reply'. slave_answer ml glob g (request sid f start q @ rest) reply = Some (reply', 3 + 2 * unat q, glob, g) \<and>
    take (3 + 2 * unat q) reply' = regs_reply sid f ws \<and> length reply' = length reply"
proof -
  have "int (unat start + unat q) \<le> int (length (io_slave ml))" using assms(2) by (simp only: of_nat_le_iff)
  then have range: "uint start + uint q \<le> int (length (io_slave ml))" by simp
  let ?r = "[sid, f, of_nat (2 * length ws)] @ [] @ reg_bytes ws @ drop (2 * length ws) (drop 3 reply)"
  have "read_points ml glob g (unat start) (unat start + 0) (length ws) ([sid, f, of_nat (2 * 0)] @ [] @ drop 3 reply) =
      Some ([sid, f, of_nat (2 * (0 + length ws))] @ [] @ reg_bytes ws @ drop (2 * length ws) (drop 3 reply))"
    by (rule read_points_store) (use assms(3,5,6,7) in simp_all)
  then have "read_points ml glob g (unat start) (unat start) (unat q) ([sid, f, 0] @ drop 3 reply) = Some ?r"
    unfolding assms(3) by simp
  moreover have "get_at ?r 2 = Some (of_nat (2 * length ws))" by (simp add: get_at_def)
  moreover have "unat (of_nat (2 * length ws) :: u8) = 2 * length ws" using assms(3,5) by (intro of_nat_u8) simp
  ultimately have "answer_read ml glob g (unat start) (unat q) ([sid, f, 0] @ drop 3 reply) = Some (?r, 3 + 2 * unat q)"
    using assms(3-5) int_ops(5) [of "unat start" "unat q"] range by (simp add: answer_read_def slave_mapped_points_def del: of_nat_mult)
  then have "slave_answer ml glob g (request sid f start q @ rest) reply = Some (?r, 3 + 2 * unat q, glob, g)"
    using assms(1,7) answer_start [of reply ml glob g sid f start q rest] by (auto simp: Let_def)
  moreover have r: "?r = regs_reply sid f ws @ drop (2 * length ws) (drop 3 reply)" by (simp add: regs_reply_def)
  moreover have "take (3 + 2 * unat q) ?r = regs_reply sid f ws" unfolding r using assms(3) by simp
  moreover have "length ?r = length reply" using assms(3,7) by simp
  ultimately show ?thesis by blast
qed

section \<open>Writing a register\<close>

lemma rw_may_write:
  assumes "pt_wf len pt" "plc_pt_rw g pt = 2"
  shows "may_write g pt"
proof -
  let ?mm = "gmm_mapmask g ! unat (pt_ofs pt)"
  have "NOT ?mm AND pt_mask pt = 0"
  proof (rule ccontr)
    assume "NOT ?mm AND pt_mask pt \<noteq> 0"
    then have "plc_pt_rw g pt \<in> {1 OR 0, 1 OR 2}" using wf_magic [OF assms(1)] by (simp add: plc_pt_rw_def Let_def)
    then show False using assms(2) by simp
  qed
  then have "\<not> (\<not> bit ?mm n \<and> bit (pt_mask pt) n)" for n
    by (metis bit_0_eq bit_and_iff bit_not_iff bot_apply bot_bool_def impossible_bit)
  then show ?thesis unfolding may_write_def by (intro bit_word_eqI) (auto simp: bit_and_iff)
qed

lemma bit_put_half:
  assumes "put_half value c v = Some w"
  shows "bit w n \<longleftrightarrow> (if unat c \<le> n \<and> n < unat c + 16 then n < 32 \<and> bit v (n - unat c) else bit value n)"
proof -
  have w: "w = (value AND NOT (push_bit (unat c) 0xFFFF)) OR push_bit (unat c) (ucast v)"
    using assms by (auto simp: put_half_def split: if_splits)
  have m: "(0xFFFF :: u32) = mask 16" by (simp add: mask_eq_exp_minus_1)
  have "bit (push_bit (unat c) 0xFFFF :: u32) n \<longleftrightarrow> unat c \<le> n \<and> n < unat c + 16 \<and> n < 32"
    unfolding m by (auto simp: bit_simps)
  then show ?thesis unfolding w
    by (auto simp: bit_simps dest: bit_imp_le_length)
qed

lemma bit_half: "half_of value c = Some h \<Longrightarrow> bit h n \<longleftrightarrow> n < 16 \<and> bit value (unat c + n)"
  by (auto simp: half_of_def bit_simps split: if_splits)

text \<open>After an update, bit by bit.\<close>

lemma update_bits:
  assumes "maps_ok glob g" "gmm_mod_fns g = variant_local"
  shows "\<exists>g'. plc_update glob g = (gmm_privmap g', Some g') \<and> maps_ok (gmm_privmap g') g' \<and>
    gmm_mapmask g' = gmm_mapmask g \<and> globalmap_len g' = globalmap_len g \<and> gmm_mod_fns g' = variant_local \<and>
    length (gmm_privmap g') = length glob \<and>
    (\<forall>i < length glob. \<forall>n. bit (gmm_privmap g' ! i) n = bit ((if bit (gmm_mapmask g ! i) n then gmm_privmap g else glob) ! i) n)"
proof -
  let ?ws = "map (\<lambda>i. merge_word (gmm_mapmask g ! i) (glob ! i) (gmm_privmap g ! i)) [0..<length glob]"
  have "plc_update glob g = (?ws, Some (g\<lparr>gmm_privmap := ?ws\<rparr>))"
    using assms update_local_result [of g glob] by (simp add: maps_ok_def plc_update_def Let_def)
  then show ?thesis using assms by (intro exI [of _ "g\<lparr>gmm_privmap := ?ws\<rparr>"]) (auto simp: maps_ok_def merge_bit)
qed

text \<open>Writing a register of which all bits are in its point and may be written: the slave answers with
  the request itself, the register then has the value, and no other bit of the maps is changed; an update by it
  is published.\<close>

lemma slave_writes_register:
  assumes "maps_ok glob g" "gmm_mod_fns g = variant_local" "get_map_entry_by_index (Some ml) (uint start) = Some (a, pt)"
    and "pt_wf (globalmap_len g) pt" "plc_pt_rw g pt = 2" "unat (am_count a) + 16 \<le> unat (pt_length pt)" "6 \<le> length reply"
  shows "\<exists>reply' g'. slave_answer ml glob g (request sid 6 start v @ rest) reply = Some (reply', 6, gmm_privmap g', g') \<and>
    take 6 reply' = request sid 6 start v \<and> length reply' = length reply \<and>
    maps_ok (gmm_privmap g') g' \<and> gmm_mod_fns g' = variant_local \<and> gmm_mapmask g' = gmm_mapmask g \<and>
    globalmap_len g' = globalmap_len g \<and> slave_register ml (gmm_privmap g') g' (unat start) = Some v \<and>
    (\<forall>i < length glob. \<forall>n. i \<noteq> unat (pt_ofs pt) \<or> n < unat (pt_shift pt) + unat (am_count a) \<or>
        unat (pt_shift pt) + unat (am_count a) + 16 \<le> n \<longrightarrow>
      bit (gmm_privmap g' ! i) n = bit ((if bit (gmm_mapmask g ! i) n then gmm_privmap g else glob) ! i) n)"
proof -
  let ?len = "globalmap_len g" and ?c = "am_count a" and ?o = "unat (pt_ofs pt)" and ?s = "unat (pt_shift pt)"
  note wf = assms(4)
  note bd = pt_wf_bounds [OF wf]
  have len: "length (priv glob g) = unat ?len"
    using assms(1,2) bd(2,3) by (auto simp: maps_ok_def priv_def sint_len)
  have start: "uint start < int (length (io_slave ml))" using assms(3) by (simp add: get_map_entry_by_index_def split: if_splits)
  have c: "unat ?c < 32" using assms(6) bd(1) by simp
  have mw: "may_write g pt" by (rule rw_may_write [OF wf assms(5)])
  obtain old where v0: "plc_get glob g pt = Some old" using get_valid [OF wf] by blast
  obtain value1 where v1: "put_half old ?c v = Some value1" using c by (simp add: put_half_def)
  obtain glob1 g1 where st: "plc_set glob g pt value1 = Some (glob1, g1)" using set_valid [OF wf] by blast
  have glob1: "glob1 = glob"
    using st assms(2) by (auto simp: plc_set_def Let_def put_priv_def split: if_splits)
  note fr = set_frame [OF st]
  have m1: "maps_ok glob g1" "gmm_mod_fns g1 = variant_local"
    using fr assms(1,2) by (auto simp: maps_ok_def priv_def glob1)
  obtain g2 where up: "plc_update glob g1 = (gmm_privmap g2, Some g2)" and m2: "maps_ok (gmm_privmap g2) g2"
      and f2: "gmm_mapmask g2 = gmm_mapmask g1" "globalmap_len g2 = globalmap_len g1" "gmm_mod_fns g2 = variant_local"
      and b2: "\<forall>i < length glob. \<forall>n. bit (gmm_privmap g2 ! i) n = bit ((if bit (gmm_mapmask g1 ! i) n then gmm_privmap g1 else glob) ! i) n"
    using update_bits [OF m1] by (elim exE conjE) (rule that)
  have ol: "?o < length glob" using pt_wf_ofs [OF wf] assms(1) bd(2,3) by (auto simp: maps_ok_def sint_len)
  have b1: "bit (gmm_privmap g1 ! i) n \<longleftrightarrow> (if i = ?o \<and> bit (pt_mask pt) n then bit value1 (n - ?s) else bit (gmm_privmap g ! i) n)"
    for i n using set_bit [OF wf st len, of i n] may_write_bit [OF mw, of n] m1(2) assms(2) by (auto simp: priv_def)
  have val: "bit old n \<longleftrightarrow> n < unat (pt_length pt) \<and> bit (gmm_privmap g ! ?o) (?s + n)" for n
    using get_bit [OF wf v0, of n] assms(2) by (simp add: priv_def)
  note ph = bit_put_half [OF v1]
  note mb = mask_bit [OF wf]
  have wf2: "pt_wf (globalmap_len g2) pt" using wf f2(2) fr(2) by simp
  obtain value2 where v2: "plc_get (gmm_privmap g2) g2 pt = Some value2" using get_valid [OF wf2] by blast
  have val2: "bit value2 n \<longleftrightarrow> n < unat (pt_length pt) \<and> bit value1 n" for n
    using get_bit [OF wf2 v2, of n] b2 ol b1 [of ?o "?s + n"] may_write_bit [OF mw, of "?s + n"] mb [of "?s + n"] f2(3) fr(1)
    by (auto simp: priv_def)
  have h: "half_of value2 ?c = Some v"
  proof -
    obtain h where h: "half_of value2 ?c = Some h" using c by (simp add: half_of_def)
    have "h = v"
      using assms(6) bd(1) by (intro bit_word_eqI) (auto simp: bit_half [OF h] val2 ph)
    then show ?thesis using h by simp
  qed
  obtain x0 x1 x2 x3 x4 x5 rs where reply: "reply = x0 # x1 # x2 # x3 # x4 # x5 # rs"
    using assms(7) by (auto simp: numeral_eq_Suc Suc_le_length_iff)
  have p1: "put_u16 ([sid, 6, 0] @ drop 3 reply) 4 v = Some ([sid, 6, 0, x3] @ be16 v @ rs)"
    using put_u16_middle [of 4 "[sid, 6, 0, x3]" x4 x5 rs v] by (simp add: reply)
  have p2: "put_u16 ([sid, 6, 0, x3] @ be16 v @ rs) 2 start = Some (request sid 6 start v @ rs)"
    using put_u16_middle [of 2 "[sid, 6]" 0 x3 "be16 v @ rs" start] by (simp add: request_def)
  have "plc_pt_len pt = int (unat (pt_length pt))" using wf_magic [OF wf] by (simp add: plc_pt_len_def)
  then have "15 < plc_pt_len pt" using assms(6) by linarith
  then have "answer_write ml glob g start v ([sid, 6, 0] @ drop 3 reply) = Some (request sid 6 start v @ rs, 6, gmm_privmap g2, g2)"
    using start assms(3,5) get_valid_point [OF v0] v0 v1 st glob1 up v2 h p1 p2
    by (simp add: answer_write_def slave_mapped_points_def)
  then have "slave_answer ml glob g (request sid 6 start v @ rest) reply = Some (request sid 6 start v @ rs, 6, gmm_privmap g2, g2)"
    using answer_start [of reply ml glob g sid 6 start v rest] assms(7) by (simp add: Let_def)
  moreover have "slave_register ml (gmm_privmap g2) g2 (unat start) = Some v"
    using assms(3) v2 h by (simp add: slave_register_def)
  moreover have "bit (gmm_privmap g2 ! i) n = bit ((if bit (gmm_mapmask g ! i) n then gmm_privmap g else glob) ! i) n"
    if i: "i < length glob" and out: "i \<noteq> ?o \<or> n < ?s + unat ?c \<or> ?s + unat ?c + 16 \<le> n" for i n
  proof -
    have "bit (gmm_privmap g1 ! i) n = bit (gmm_privmap g ! i) n"
      using out ph [of "n - ?s"] val [of "n - ?s"] mb [of n] by (auto simp: b1)
    then show ?thesis using b2 i fr(1) by auto
  qed
  moreover have "take 6 (request sid 6 start v @ rs) = request sid 6 start v" "length (request sid 6 start v @ rs) = length reply"
    by (simp_all add: request_def be16_def reply)
  ultimately show ?thesis using m2 f2 fr(1,2) by (intro exI [of _ "request sid 6 start v @ rs"] exI [of _ g2]) simp
qed

section \<open>Exceptions\<close>

text \<open>A point that is not valid among registers to be read, behind others that can be: the exception is in the frame, but the
  frame is sent with seven bytes.\<close>

lemma answer_invalid_point:
  assumes "unat start + unat q \<le> length (io_slave ml)" "unat q \<le> 125" "k < unat q" "3 + 2 * unat q \<le> length reply"
    and "\<And>j. j < k \<Longrightarrow> slave_register ml glob g (unat start + j) \<noteq> None"
    and "get_map_entry_by_index (Some ml) (int (unat start + k)) = Some (a, pt)" "\<not> pt_valid pt"
  shows "\<exists>rs. answer_read ml glob g (unat start) (unat q) ([sid, f, 0] @ drop 3 reply) = Some ([sid, f + 0x80, 4] @ rs, 7)"
proof -
  have "int (unat start + unat q) \<le> int (length (io_slave ml))" using assms(1) by (simp only: of_nat_le_iff)
  then have range: "\<not> int (length (io_slave ml)) < int (unat start + unat q)" by simp
  define ws where "ws = map (\<lambda>j. the (slave_register ml glob g (unat start + j))) [0..<k]"
  have ws: "slave_register ml glob g (unat start + 0 + j) = Some (ws ! j)" if "j < length ws" for j
    using assms(5) [of j] that by (auto simp: ws_def)
  have len: "length ws = k" by (simp add: ws_def)
  obtain m where m: "unat q = length ws + Suc m" using assms(3) len less_imp_Suc_add [of k "unat q"] by auto
  let ?rs = "reg_bytes ws @ drop (2 * length ws) (drop 3 reply)"
  have "read_points ml glob g (unat start) (unat start + 0) (length ws + Suc m) ([sid, f, of_nat (2 * 0)] @ [] @ drop 3 reply) =
      read_points ml glob g (unat start) (unat start + (0 + length ws)) (Suc m)
        ([sid, f, of_nat (2 * (0 + length ws))] @ [] @ ?rs)"
    by (rule read_points_more [OF ws]) (use assms(2-4) len in simp_all)
  also have "\<dots> = Some ([sid, f + 0x80, 4] @ ?rs)"
    using assms(6,7) len put_exception_eq [of sid f "of_nat (2 * length ws)" ?rs 4] by (simp del: of_nat_mult)
  finally have "read_points ml glob g (unat start) (unat start) (unat q) ([sid, f, 0] @ drop 3 reply) = Some ([sid, f + 0x80, 4] @ ?rs)"
    unfolding m by simp
  then have "answer_read ml glob g (unat start) (unat q) ([sid, f, 0] @ drop 3 reply) = Some ([sid, f + 0x80, 4] @ ?rs, 7)"
    using range assms(2,3) unfolding answer_read_def slave_mapped_points_def by (simp add: get_at_def)
  then show ?thesis by blast
qed

text \<open>C21. A request is answered with an exception and changes nothing when its function is not known (1), when its registers are
  not in the table, too many or none (2), when it reads a point that is not valid behind points that can be read
  (4), or writes to a point that is not valid (3), is read-only or is narrower than a register (4). The frame has three
  bytes, except in the case of reading: there it is sent with seven.\<close>

theorem slave_exceptions:
  assumes "3 \<le> length reply"
    and "code = 1 \<and> f \<notin> {3, 4, 6} \<or>
      code = 2 \<and> f \<in> {3, 4} \<and> (length (io_slave ml) < unat start + unat q \<or> 125 < unat q \<or> unat q = 0) \<or>
      code = 2 \<and> f = 6 \<and> length (io_slave ml) \<le> unat start \<or>
      code = 4 \<and> f \<in> {3, 4} \<and> unat start + unat q \<le> length (io_slave ml) \<and> unat q \<le> 125 \<and> 3 + 2 * unat q \<le> length reply \<and>
        (\<exists>k a pt. k < unat q \<and> (\<forall>j < k. slave_register ml glob g (unat start + j) \<noteq> None) \<and>
          get_map_entry_by_index (Some ml) (int (unat start + k)) = Some (a, pt) \<and> \<not> pt_valid pt) \<or>
      f = 6 \<and> (\<exists>a pt. get_map_entry_by_index (Some ml) (uint start) = Some (a, pt) \<and>
        (code = 3 \<and> \<not> pt_valid pt \<or> code = 4 \<and> pt_valid pt \<and> (plc_pt_rw g pt \<noteq> 2 \<or> plc_pt_len pt \<le> 15)))"
  shows "\<exists>reply'. slave_answer ml glob g (request sid f start q @ rest) reply =
      Some (reply', if code = 4 \<and> f \<noteq> 6 then 7 else 3, glob, g) \<and>
    take 3 reply' = [sid, f + 0x80, code]"
proof -
  note st = answer_start [OF assms(1), of ml glob g sid f start q rest]
  have u: "uint start = int (unat start)" by simp
  consider (fn) "code = 1" "f \<notin> {3, 4, 6}"
    | (range) "code = 2" "f \<in> {3, 4}" "length (io_slave ml) < unat start + unat q \<or> 125 < unat q \<or> unat q = 0"
    | (reg) "code = 2" "f = 6" "length (io_slave ml) \<le> unat start"
    | (invalid) k a pt where "code = 4" "f \<in> {3, 4}" "unat start + unat q \<le> length (io_slave ml)" "unat q \<le> 125"
        "3 + 2 * unat q \<le> length reply" "k < unat q" "\<And>j. j < k \<Longrightarrow> slave_register ml glob g (unat start + j) \<noteq> None"
        "get_map_entry_by_index (Some ml) (int (unat start + k)) = Some (a, pt)" "\<not> pt_valid pt"
    | (pt) a pt where "f = 6" "get_map_entry_by_index (Some ml) (uint start) = Some (a, pt)"
        "code = 3 \<and> \<not> pt_valid pt \<or> code = 4 \<and> pt_valid pt \<and> (plc_pt_rw g pt \<noteq> 2 \<or> plc_pt_len pt \<le> 15)"
    using assms(2) by (elim disjE conjE exE) simp_all
  then show ?thesis
  proof cases
    case invalid
    from answer_invalid_point [OF invalid(3,4,6,5,7,8,9), of sid f] obtain rs where
      "answer_read ml glob g (unat start) (unat q) ([sid, f, 0] @ drop 3 reply) = Some ([sid, f + 0x80, 4] @ rs, 7)" by blast
    moreover have "f = 4 \<or> f = 3" "f \<noteq> 6" using invalid(2) by auto
    ultimately show ?thesis unfolding st Let_def using invalid(1) by simp
  next
    case fn
    then show ?thesis using st put_exception_eq [of sid f 0 "drop 3 reply" 1] by (simp add: Let_def)
  next
    case range
    have "int (length (io_slave ml)) < uint start + uint q \<longleftrightarrow> length (io_slave ml) < unat start + unat q"
      using of_nat_less_iff [of "length (io_slave ml)" "unat start + unat q", where 'a = int] by simp
    with range have "answer_read ml glob g (unat start) (unat q) ([sid, f, 0] @ drop 3 reply) = Some ([sid, f + 0x80, 2] @ drop 3 reply, 3)"
      using put_exception_eq [of sid f 0 "drop 3 reply" 2] by (auto simp: answer_read_def slave_mapped_points_def)
    moreover have "f = 4 \<or> f = 3" using range(2) by blast
    ultimately show ?thesis unfolding st Let_def using range(1) by simp
  next
    case reg
    have "int (length (io_slave ml)) \<le> uint start" using reg(3) u by linarith
    then have "answer_write ml glob g start q ([sid, f, 0] @ drop 3 reply) = Some ([sid, f + 0x80, 2] @ drop 3 reply, 3, glob, g)"
      unfolding answer_write_def slave_mapped_points_def put_exception_eq by simp
    then show ?thesis unfolding st Let_def using reg(1,2) by simp
  next
    case pt
    then have "\<not> slave_mapped_points (Some ml) \<le> uint start"
      by (simp add: slave_mapped_points_def get_map_entry_by_index_def split: if_splits)
    then have "answer_write ml glob g start q ([sid, f, 0] @ drop 3 reply) = Some ([sid, f + 0x80, code] @ drop 3 reply, 3, glob, g)"
    proof (cases "pt_valid pt")
      case False
      then have "code = 3" using pt(3) by blast
      then show ?thesis using \<open>\<not> slave_mapped_points (Some ml) \<le> uint start\<close> pt(2) False
        unfolding answer_write_def put_exception_eq by simp
    next
      case True
      then have "code = 4" "\<not> (plc_pt_rw g pt = 2 \<and> 15 < plc_pt_len pt)" using pt(3) by auto
      then show ?thesis using \<open>\<not> slave_mapped_points (Some ml) \<le> uint start\<close> pt(2) True
        unfolding answer_write_def put_exception_eq by simp
    qed
    then show ?thesis unfolding st Let_def using pt(1) by simp
  qed
qed

end
