(* ===== verification/IoConfig.thy ===== *)
theory IoConfig
  imports IoProps
begin

text \<open>
  The table of mappings is what the rows of the configuration say: a reference reading of a row by
  its words, and the reader of \<^verbatim>\<open>lib/io/io.c\<close> against it.
\<close>

section \<open>A row as words\<close>

definition direction_words :: "u8 \<Rightarrow> string list \<Rightarrow> (u8 \<times> dir_t \<times> pt_map_ptr \<times> string \<times> string) option" where
  "direction_words im ws =
     (case ws of
        d # a # ws1 \<Rightarrow>
          if d \<in> {''out'', ''in'', ''slave''} then
            (case ws1 of
               [] \<Rightarrow> None
             | n # _ \<Rightarrow> Some (im, if d = ''out'' then dir_out else if d = ''in'' then dir_in else dir_none,
                            if d = ''out'' then To_write else if d = ''in'' then To_read else To_slave, a, n))
          else Some (im, dir_none, To_slave_array, d, a)
      | _ \<Rightarrow> None)"

definition row_words :: "string list \<Rightarrow> (u8 \<times> dir_t \<times> pt_map_ptr \<times> string \<times> string) option" where
  "row_words ws =
     (case ws of
        [] \<Rightarrow> None
      | w # ws1 \<Rightarrow> if w \<in> {''inv'', ''invert''} then direction_words 1 ws1 else direction_words 0 ws)"

text \<open>What a row makes, with what its address parser \<open>parse\<close> leaves for the next row: the bytes of the address, which are
  not cleared in between, and the state of the hardware.\<close>

type_synonym ('a, 'h) addr_parser = "'h \<Rightarrow> 'a \<Rightarrow> string \<Rightarrow> dir_t \<Rightarrow> int \<Rightarrow> int \<times> 'a \<times> 'h"

definition words_mapping ::
  "(string \<Rightarrow> plc_pt option) \<Rightarrow> ('a, 'h) addr_parser \<Rightarrow> (u8 \<times> dir_t \<times> pt_map_ptr \<times> string \<times> string) option \<Rightarrow> 'a \<times> 'h
     \<Rightarrow> (pt_map_ptr \<times> 'a pt_map_entry) list \<times> 'a \<times> 'h" where
  "words_mapping by_name parse w ah =
     (case w of
        None \<Rightarrow> ([], ah)
      | Some (im, d, ptr, s, n) \<Rightarrow>
          let pt = the (by_name n) in
          if \<not> pt_valid pt \<or> plc_pt_len pt < 0 then ([], ah)
          else case parse (snd ah) (fst ah) s d (plc_pt_len pt) of
                 (r, a1, h1) \<Rightarrow> (if r < 0 then [] else [(ptr, \<lparr>inv_mask = im, pe_plc_pt = pt, pe_io_addr = a1\<rparr>)], a1, h1))"

fun table_mappings ::
  "(string \<Rightarrow> plc_pt option) \<Rightarrow> ('a, 'h) addr_parser \<Rightarrow> string list list \<Rightarrow> 'a \<times> 'h
     \<Rightarrow> (pt_map_ptr \<times> 'a pt_map_entry) list \<times> 'a \<times> 'h" where
  "table_mappings by_name parse [] ah = ([], ah)"
| "table_mappings by_name parse (ws # rows) ah =
     (case words_mapping by_name parse (row_words ws) ah of
        (ms, ah1) \<Rightarrow> (case table_mappings by_name parse rows ah1 of (ns, ah2) \<Rightarrow> (ms @ ns, ah2)))"

definition mappings_for :: "pt_map_ptr \<Rightarrow> (pt_map_ptr \<times> 'a pt_map_entry) list \<Rightarrow> 'a pt_map" where
  "mappings_for ptr ms = map snd (filter (\<lambda>m. fst m = ptr) ms)"

section \<open>The reader follows it\<close>

text \<open>The address parser comes back whatever it is given; it may have a state, and fail.\<close>

definition parses :: "('a, 'h) io_hw \<Rightarrow> ('a, 'h) addr_parser \<Rightarrow> bool" where
  "parses hw parse \<longleftrightarrow> (\<forall>h a s d n. hw_parse_io_addr hw h a (Some s) d n = Some (parse h a s d n))"

definition appended :: "'a pt_map_lists \<Rightarrow> (pt_map_ptr \<times> 'a pt_map_entry) list \<Rightarrow> 'a pt_map_lists" where
  "appended l ms =
     \<lparr>io_write = io_write l @ mappings_for To_write ms, io_write_array = io_write_array l,
      io_read = io_read l @ mappings_for To_read ms, io_read_array = io_read_array l,
      io_slave = io_slave l @ mappings_for To_slave ms, io_slave_array = io_slave_array l @ mappings_for To_slave_array ms\<rparr>"

lemma appended_nil [simp]: "appended l [] = l"
  by (simp add: appended_def mappings_for_def)

lemma appended_more: "appended (appended l ms) ns = appended l (ms @ ns)"
  by (simp add: appended_def mappings_for_def)

lemma add_mapping_appends:
  "\<forall>n. \<not> full n \<Longrightarrow> add_mapping full ptr e l = (appended l [(ptr, e)], 0)"
  by (cases ptr) (simp_all add: add_mapping_def pt_map_add_def appended_def mappings_for_def)

lemma field_of:
  assumes "conffile_get_table cf (Some IO_PTSTABLE_NAME) r = list_item ws"
  shows "conffile_get_table cf (Some IO_PTSTABLE_NAME) r c = (if 0 \<le> c \<and> nat c < length ws then Some (ws ! nat c) else None)"
  using assms by (auto simp: list_item_def)

lemmas map_words = IO_PTSTABLE_INV1_def IO_PTSTABLE_INV2_def IO_PTSTABLE_IN_def IO_PTSTABLE_OUT_def IO_PTSTABLE_SLAVE_def

lemma map_row_rest_reads:
  assumes p: "parses hw parse" and n: "\<forall>n. by_name n \<noteq> None" and f: "\<forall>n. \<not> full n"
    and field: "\<And>c. field c = list_item ws c" and col: "0 \<le> col"
  shows "\<exists>tmp1. map_row_rest hw by_name full field col (ls, tmp, h) =
    (case words_mapping by_name parse (direction_words (inv_mask tmp) (drop (nat col) ws)) (pe_io_addr tmp, h) of
       (ms, a1, h1) \<Rightarrow> Some ((appended ls ms, tmp1\<lparr>pe_io_addr := a1\<rparr>, h1), True))"
proof -
  define vs where "vs = drop (nat col) ws"
  have at: "field (col + int k) = (if k < length vs then Some (vs ! k) else None)" for k
    using col by (auto simp: field list_item_def nat_add_distrib vs_def)
  have at0: "field col = (if vs = [] then None else Some (hd vs))" using at [of 0] by (simp add: hd_conv_nth)
  have at1: "field (col + 1) = (case vs of _ # x # _ \<Rightarrow> Some x | _ \<Rightarrow> None)" using at [of 1] by (auto split: list.splits)
  have at2: "field (col + 1 + 1) = (case vs of _ # _ # x # _ \<Rightarrow> Some x | _ \<Rightarrow> None)"
    using at [of 2] by (auto simp: add.commute split: list.splits)
  have same: "\<exists>tmp1. (ls, tmp, h) = (ls, tmp1\<lparr>pe_io_addr := pe_io_addr tmp\<rparr>, h)"
    by (intro exI [of _ tmp]) simp
  have step: "\<exists>tmp1. (do { pt \<leftarrow> by_name name;
                        let tmp = tmp\<lparr>pe_plc_pt := pt\<rparr> in
                        if \<not> pt_valid pt then Some ((ls, tmp, h), True)
                        else if plc_pt_len pt < 0 then Some ((ls, tmp, h), True)
                        else do {
                          (res, a, h1) \<leftarrow> hw_parse_io_addr hw h (pe_io_addr tmp) (Some a) dir (plc_pt_len pt);
                          let tmp = tmp\<lparr>pe_io_addr := a\<rparr> in
                          if res < 0 then Some ((ls, tmp, h1), True)
                          else case add_mapping full ptr tmp ls of
                                 (ls1, r) \<Rightarrow> Some ((ls1, tmp, h1), 0 \<le> r) } }) =
     (case words_mapping by_name parse (Some (inv_mask tmp, dir, ptr, a, name)) (pe_io_addr tmp, h) of
       (ms, a1, h1) \<Rightarrow> Some ((appended ls ms, tmp1\<lparr>pe_io_addr := a1\<rparr>, h1), True))" for name a dir ptr
  proof -
    obtain pt where pt: "by_name name = Some pt" using n by blast
    obtain r a1 h1 where r: "parse h (pe_io_addr tmp) a dir (plc_pt_len pt) = (r, a1, h1)" by (metis prod_cases3)
    then have r': "hw_parse_io_addr hw h (pe_io_addr tmp) (Some a) dir (plc_pt_len pt) = Some (r, a1, h1)"
      using p by (simp add: parses_def)
    show ?thesis
      using pt r r' by (intro exI [of _ "tmp\<lparr>pe_plc_pt := pt\<rparr>"])
        (cases tmp; auto simp: Let_def words_mapping_def add_mapping_appends [OF f])
  qed
  show ?thesis
  proof (cases vs)
    case Nil
    then show ?thesis using at0 by (intro exI [of _ tmp]) (simp add: map_row_rest_def direction_words_def words_mapping_def vs_def [symmetric])
  next
    case (Cons d ws1)
    show ?thesis
    proof (cases "d \<in> {''out'', ''in'', ''slave''}")
      case True
      show ?thesis
      proof (cases ws1)
        case Nil
        then show ?thesis using at0 at1 at2 Cons True by (intro exI [of _ tmp]) (auto simp: map_row_rest_def direction_words_def words_mapping_def vs_def [symmetric] direction_of_def map_words)
      next
        case (Cons a ws2)
        note c = \<open>vs = d # ws1\<close> Cons
        show ?thesis
        proof (cases ws2)
          case Nil
          then show ?thesis using at0 at1 at2 c True by (intro exI [of _ tmp]) (auto simp: map_row_rest_def direction_words_def words_mapping_def vs_def [symmetric] direction_of_def map_words)
        next
          case (Cons name ws3)
          have "field col = Some d" "field (col + 1) = Some a" "field (col + 1 + 1) = Some name" using at0 at1 at2 c Cons by simp_all
          then show ?thesis using step [of name a] c Cons True
            by (elim insertE) (simp_all add: map_row_rest_def direction_words_def vs_def [symmetric] direction_of_def map_words cong: if_cong)
        qed
      qed
    next
      case False
      show ?thesis
      proof (cases ws1)
        case Nil
        then show ?thesis using at0 at1 Cons False by (intro exI [of _ tmp]) (auto simp: map_row_rest_def direction_words_def words_mapping_def vs_def [symmetric] direction_of_def map_words)
      next
        case (Cons name ws2)
        note c = \<open>vs = d # ws1\<close> Cons
        have "field col = Some d" "field (col + 1) = Some name" using at0 at1 c by simp_all
        then show ?thesis using step [of name d] c False
          by (simp add: map_row_rest_def direction_words_def vs_def [symmetric] direction_of_def map_words cong: if_cong)
      qed
    qed
  qed
qed

lemma parse_map_row_reads:
  assumes "parses hw parse" "\<forall>n. by_name n \<noteq> None" "\<forall>n. \<not> full n"
    and row: "\<And>c. conffile_get_table cf (Some IO_PTSTABLE_NAME) r c = list_item ws c"
  shows "\<exists>tmp1. parse_map_row hw cf by_name full r (ls, tmp, h) =
    (case words_mapping by_name parse (row_words ws) (pe_io_addr tmp, h) of
       (ms, a1, h1) \<Rightarrow> Some ((appended ls ms, tmp1\<lparr>pe_io_addr := a1\<rparr>, h1), True))"
proof (cases ws)
  case Nil
  then have "conffile_get_table cf (Some IO_PTSTABLE_NAME) r 0 = None" using row by (simp add: list_item_def)
  then show ?thesis using Nil
    by (intro exI [of _ "tmp\<lparr>inv_mask := 0\<rparr>"]) (simp add: parse_map_row_def Let_def map_words words_mapping_def row_words_def)
next
  case (Cons w ws1)
  note fr = map_row_rest_reads [OF assms]
  have "conffile_get_table cf (Some IO_PTSTABLE_NAME) r 0 = Some w" using row Cons by (simp add: list_item_def)
  then show ?thesis
    using fr [of 1 ls "tmp\<lparr>inv_mask := 1\<rparr>"] fr [of 0 ls "tmp\<lparr>inv_mask := 0\<rparr>"] Cons
    by (simp add: parse_map_row_def Let_def map_words row_words_def)
qed

lemma parse_map_rows_read:
  assumes "parses hw parse" "\<forall>n. by_name n \<noteq> None" "\<forall>n. \<not> full n"
    and "\<And>i c. i < length table \<Longrightarrow> conffile_get_table cf (Some IO_PTSTABLE_NAME) (int i) c = list_item (table ! i) c"
  shows "k \<le> length table \<Longrightarrow> \<exists>tmp1. parse_map_rows hw cf by_name full (map int [k..<length table]) (ls, tmp, h) =
    (case table_mappings by_name parse (drop k table) (pe_io_addr tmp, h) of
       (ms, a1, h1) \<Rightarrow> Some ((appended ls ms, tmp1\<lparr>pe_io_addr := a1\<rparr>, h1), True))"
proof (induction "length table - k" arbitrary: k h ls tmp)
  case 0
  then show ?case by (intro exI [of _ tmp]) simp
next
  case (Suc n)
  then have k: "k < length table" by simp
  obtain ms a1 h1 where w: "words_mapping by_name parse (row_words (table ! k)) (pe_io_addr tmp, h) = (ms, a1, h1)"
    by (metis prod_cases3)
  obtain tmp1 where r: "parse_map_row hw cf by_name full (int k) (ls, tmp, h) =
      Some ((appended ls ms, tmp1\<lparr>pe_io_addr := a1\<rparr>, h1), True)"
    using parse_map_row_reads [OF assms(1-3) assms(4) [OF k], of ls tmp h] w by auto
  obtain ns a2 h2 where t: "table_mappings by_name parse (drop (Suc k) table) (a1, h1) = (ns, a2, h2)" by (metis prod_cases3)
  have "n = length table - Suc k" using Suc.hyps(2) by simp
  from Suc.hyps(1) [OF this, of "appended ls ms" "tmp1\<lparr>pe_io_addr := a1\<rparr>" h1] k t obtain tmp2 where
      "parse_map_rows hw cf by_name full (map int [Suc k..<length table]) (appended ls ms, tmp1\<lparr>pe_io_addr := a1\<rparr>, h1) =
      Some ((appended (appended ls ms) ns, tmp2\<lparr>pe_io_addr := a2\<rparr>, h2), True)"
    by auto
  moreover have "map int [k..<length table] = int k # map int [Suc k..<length table]" using k by (simp add: upt_conv_Cons)
  moreover have "drop k table = table ! k # drop (Suc k) table" using k by (simp add: Cons_nth_drop_Suc)
  ultimately show ?case using r w t by (simp add: appended_more) blast
qed


text \<open>Three rows, of which the last lacks its point.\<close>

definition cf_rows :: conffile where
  "cf_rows = \<lparr>conffile_module_name = Some ''m'', cf_vars = Some [],
     cf_recs = Some [(''m:map'', [[''slave'', ''low'', ''p''], [''slave'', ''high'', ''p''], [''slave'', ''high'']])], cf_files = None\<rparr>"

lemma cf_rows_table:
  "get_tableptr cf_rows (conffile_module_name cf_rows) (Some ''map'') =
     Some [[''slave'', ''low'', ''p''], [''slave'', ''high'', ''p''], [''slave'', ''high'']]"
  by (simp add: cf_rows_def get_tableptr_def strdup3_def dict_get_def bsearch.simps c_strcmp.simps)

end
