(* ===== verification/ModbusWire.thy ===== *)
theory ModbusWire
  imports ModbusSlaveProps IoConfig
begin

unbundle bit_operations_syntax

text \<open>
  The master and the slave together: a layer below that carries every frame of the master to the slave's loop and its
  reply back. What the master reads and writes are the registers of the slave.
\<close>

section \<open>A wire\<close>

text \<open>The slave's end of it: a frame that has come in, and one to go out. Behind a frame there is other memory.\<close>

type_synonym pipe = "u8 list option \<times> u8 list option"

definition pipe_layer :: "(pipe, node_addr_tcp_t) layer1" where
  "pipe_layer = \<lparr>
     l1_write = (\<lambda>s nd p n tid. Some (int n, p, (fst s, Some (take n p)))),
     l1_read = (\<lambda>s nd tid q. map_option (\<lambda>f. (int (length f), 0, f @ replicate 260 0, tid, (None, snd s))) (fst s)),
     l1_init = (\<lambda>s k opt. Some (0, 0, s)), l1_done = (\<lambda>s. Some (0, s)), l1_connect = (\<lambda>s a. Some (0, s)),
     l1_listen = (\<lambda>s a. Some (0, s)), l1_close = (\<lambda>s nd. Some (0, s)), l1_silence_init = (\<lambda>s. Some (0, s))\<rparr>"

type_synonym slave_process = "slave_vars \<times> pipe slave_module"

definition on_pipe :: "pipe \<Rightarrow> slave_process \<Rightarrow> slave_process" where
  "on_pipe io vs = (fst vs, on_layer io (snd vs))"

definition pipe_of :: "slave_process \<Rightarrow> pipe" where
  "pipe_of vs = slave_lower (slave_proto (io_hardware (snd vs)))"

text \<open>The master's end: reading lets the slave go once around its loop, and times out if nothing was sent.\<close>

definition wire_layer :: "(slave_process, node_addr_tcp_t) layer1" where
  "wire_layer = \<lparr>
     l1_write = (\<lambda>s nd p n tid. Some (int n, p, on_pipe (Some (take n p), None) s)),
     l1_read = (\<lambda>s nd tid q.
       if fst (pipe_of s) = None then Some (-2, nd, [], tid, s)
       else do { s1 \<leftarrow> modbus_slave_turn pipe_layer id s;
                 Some (case snd (pipe_of s1) of None \<Rightarrow> (-2, nd, [], tid, s1)
                       | Some r \<Rightarrow> (int (length r), nd, r, tid, on_pipe (None, None) s1)) }),
     l1_init = (\<lambda>s k opt. Some (0, 0, s)), l1_done = (\<lambda>s. Some (0, s)), l1_connect = (\<lambda>s a. Some (0, s)),
     l1_listen = (\<lambda>s a. Some (0, s)), l1_close = (\<lambda>s nd. Some (0, s)), l1_silence_init = (\<lambda>s. Some (0, s))\<rparr>"

section \<open>A slave that has just been around its loop\<close>

definition synced :: "('a, 'h) io_module \<Rightarrow> bool" where
  "synced s \<longleftrightarrow> gmm_mod_fns (io_gmm s) = variant_local \<and> maps_ok (io_glob s) (io_gmm s) \<and> gmm_privmap (io_gmm s) = io_glob s"

definition slave_ready :: "u8 \<Rightarrow> slave_process \<Rightarrow> bool" where
  "slave_ready sid vs \<longleftrightarrow> synced (snd vs) \<and> length (sv_reply (fst vs)) = 255 \<and>
     list_ex (\<lambda>n. uint sid = sn_slave_address n) (slave_nets (io_hardware (snd vs)))"

lemma on_layer_simps [simp]:
  "io_glob (on_layer low s) = io_glob s" "io_gmm (on_layer low s) = io_gmm s" "map_lists (on_layer low s) = map_lists s"
  "slave_nets (io_hardware (on_layer low s)) = slave_nets (io_hardware s)"
  "slave_lower (slave_proto (io_hardware (on_layer low s))) = low"
  "on_layer low (on_layer low' s) = on_layer low s"
  "on_layer low (s\<lparr>io_glob := glob, io_gmm := g\<rparr>) = (on_layer low s)\<lparr>io_glob := glob, io_gmm := g\<rparr>"
  by (simp_all add: on_layer_def)

lemma update_synced:
  assumes "maps_ok glob g" "gmm_mod_fns g = variant_local" "gmm_privmap g = glob"
  shows "plc_update glob g = (glob, Some g)"
proof -
  have "map (\<lambda>i. merge_word (gmm_mapmask g ! i) (glob ! i) (glob ! i)) [0..<length glob] = glob"
    by (intro nth_equalityI) (auto intro!: bit_word_eqI simp: merge_bit)
  then show ?thesis using assms update_local_result [of g glob]
    by (simp add: maps_ok_def plc_update_def Let_def)
qed

lemma io_update_synced: "synced s \<Longrightarrow> io_update s = Some s"
  by (simp add: synced_def io_update_def update_synced)

text \<open>One exchange.\<close>

lemma slave_turn:
  assumes "slave_ready sid (v, s)" "f = sid # f1"
    and "slave_answer (map_lists s) (io_glob s) (io_gmm s) (f @ replicate 260 0) (sv_reply v) = Some (reply, n, glob, g)"
    and "synced (s\<lparr>io_glob := glob, io_gmm := g\<rparr>)"
  shows "modbus_slave_turn pipe_layer id (v, on_layer (Some f, None) s) =
    Some (v\<lparr>sv_nd := 0, sv_reply := reply\<rparr>, on_layer (None, Some (take n reply)) (s\<lparr>io_glob := glob, io_gmm := g\<rparr>))"
proof -
  have sy: "synced (on_layer io s)" for io using assms(1) by (simp add: slave_ready_def synced_def)
  let ?s = "on_layer (None, Some (take n reply)) (s\<lparr>io_glob := glob, io_gmm := g\<rparr>)"
  have "synced ?s" using assms(4) by (simp add: synced_def)
  note u = io_update_synced [OF sy [of "(Some f, None)"]] io_update_synced [OF this]
  have rd: "slave_read_frame pipe_layer v (on_layer (Some f, None) s) =
      Some (int (length f), f @ replicate 260 0, v\<lparr>sv_nd := 0\<rparr>, on_layer (None, None) s)"
    by (simp add: slave_read_frame_def pipe_layer_def)
  have same: "(on_layer (Some f, None) s)\<lparr>io_glob := io_glob s\<rparr> = on_layer (Some f, None) s" by (simp add: on_layer_def)
  have net: "list_ex (\<lambda>n. uint sid = sn_slave_address n) (slave_nets (io_hardware s))" using assms(1) by (simp add: slave_ready_def)
  have b0: "get_at (f @ replicate 260 0) 0 = Some sid" by (simp add: get_at_def assms(2))
  have w: "l1_write pipe_layer (None, None) 0 reply n (sv_tr_id v) = Some (int n, reply, (None, Some (take n reply)))"
    by (simp add: pipe_layer_def)
  show ?thesis
    unfolding modbus_slave_turn_def prod.case
    using u rd same net b0 assms(3) w by simp
qed

lemma wire_answers:
  assumes "slave_ready sid (v, s)" "k \<le> length p" "take k p = sid # f1"
    and "slave_answer (map_lists s) (io_glob s) (io_gmm s) (take k p @ replicate 260 0) (sv_reply v) = Some (reply, n, glob, g)"
    and "synced (s\<lparr>io_glob := glob, io_gmm := g\<rparr>)" "length reply = 255"
  shows "\<exists>vs. layer_answers wire_layer (v, s) nd p k tid (take n reply) p vs \<and> slave_ready sid vs \<and>
    map_lists (snd vs) = map_lists s \<and> io_glob (snd vs) = glob \<and> io_gmm (snd vs) = g"
proof -
  let ?s = "on_layer (None, Some (take n reply)) (s\<lparr>io_glob := glob, io_gmm := g\<rparr>)"
  let ?vs = "(v\<lparr>sv_nd := 0, sv_reply := reply\<rparr>, on_layer (None, None) (s\<lparr>io_glob := glob, io_gmm := g\<rparr>))"
  have "modbus_slave_turn pipe_layer id (v, on_layer (Some (take k p), None) s) = Some (v\<lparr>sv_nd := 0, sv_reply := reply\<rparr>, ?s)"
    using slave_turn [OF assms(1,3,4,5)] .
  then have "layer_answers wire_layer (v, s) nd p k tid (take n reply) p ?vs"
    by (simp add: layer_answers_def wire_layer_def on_pipe_def pipe_of_def)
  moreover have "slave_ready sid ?vs" using assms(1,5,6) by (simp add: slave_ready_def synced_def)
  ultimately show ?thesis by (intro exI [of _ ?vs]) simp
qed

section \<open>What the master sees\<close>

text \<open>The frame of the master is the request of the slave; the address on the wire is one less.\<close>

lemma query_request: "query_frame sid f start q = request sid f (start - 1) q"
  by (simp add: query_frame_def request_def)

lemma wire_reads:
  assumes "slave_ready sid (v, s)" "f = 3 \<or> f = 4" "unat (start - 1) + unat q \<le> length (io_slave (map_lists s))"
    and "length ws = unat q" "1 \<le> unat q" "unat q \<le> 125"
    and "\<And>k. k < unat q \<Longrightarrow> slave_register (map_lists s) (io_glob s) (io_gmm s) (unat (start - 1) + k) = Some (ws ! k)"
  shows "\<exists>vs. layer_answers wire_layer (v, s) nd (query_frame sid f start q @ rest) 6 tid (regs_reply sid f ws)
      (query_frame sid f start q @ rest) vs \<and> slave_ready sid vs \<and>
    map_lists (snd vs) = map_lists s \<and> io_glob (snd vs) = io_glob s \<and> io_gmm (snd vs) = io_gmm s"
proof -
  let ?p = "query_frame sid f start q @ rest"
  have tk: "take 6 ?p = request sid f (start - 1) q" by (simp add: query_request [symmetric])
  have l: "length (sv_reply v) = 255" using assms(1) by (simp add: slave_ready_def)
  obtain reply where a: "slave_answer (map_lists s) (io_glob s) (io_gmm s) (request sid f (start - 1) q @ replicate 260 0) (sv_reply v) =
      Some (reply, 3 + 2 * unat q, io_glob s, io_gmm s)" "take (3 + 2 * unat q) reply = regs_reply sid f ws" "length reply = 255"
    using slave_reads_registers [OF assms(2,3,4,5,6,7), of "sv_reply v" sid "replicate 260 0"] l assms(6) by auto
  have "synced (s\<lparr>io_glob := io_glob s, io_gmm := io_gmm s\<rparr>)" using assms(1) by (simp add: slave_ready_def)
  moreover have "take 6 ?p = sid # (f # be16 (start - 1) @ be16 q)" unfolding tk by (simp add: request_def)
  moreover have "6 \<le> length ?p" by simp
  ultimately show ?thesis
    using wire_answers [OF assms(1) _ _ a(1) [folded tk] _ a(3), of "f # be16 (start - 1) @ be16 q" nd tid] unfolding a(2) by blast
qed

text \<open>The point of a register that can be written.\<close>

definition writable_register :: "io_addr_modbus_t pt_map_lists \<Rightarrow> gmm \<Rightarrow> nat \<Rightarrow> io_addr_modbus_t \<Rightarrow> plc_pt \<Rightarrow> bool" where
  "writable_register ml g k a pt \<longleftrightarrow> get_map_entry_by_index (Some ml) (int k) = Some (a, pt) \<and> pt_wf (globalmap_len g) pt \<and>
     plc_pt_rw g pt = 2 \<and> unat (am_count a) + 16 \<le> unat (pt_length pt)"

lemma wire_writes:
  assumes "slave_ready sid (v, s)" "writable_register (map_lists s) (io_gmm s) (unat (start - 1)) a pt"
  shows "\<exists>vs. layer_answers wire_layer (v, s) nd (query_frame sid 6 start x @ rest) 6 tid (query_frame sid 6 start x)
      (query_frame sid 6 start x @ rest) vs \<and> slave_ready sid vs \<and> map_lists (snd vs) = map_lists s \<and>
    gmm_mapmask (io_gmm (snd vs)) = gmm_mapmask (io_gmm s) \<and> globalmap_len (io_gmm (snd vs)) = globalmap_len (io_gmm s) \<and>
    slave_register (map_lists s) (io_glob (snd vs)) (io_gmm (snd vs)) (unat (start - 1)) = Some x \<and>
    length (io_glob (snd vs)) = length (io_glob s) \<and>
    (\<forall>i < length (io_glob s). \<forall>n. i \<noteq> unat (pt_ofs pt) \<or> n < unat (pt_shift pt) + unat (am_count a) \<or>
        unat (pt_shift pt) + unat (am_count a) + 16 \<le> n \<longrightarrow> bit (io_glob (snd vs) ! i) n = bit (io_glob s ! i) n)"
proof -
  let ?p = "query_frame sid 6 start x @ rest"
  have tk: "take 6 ?p = request sid 6 (start - 1) x" by (simp add: query_request [symmetric])
  have sy: "synced s" "length (sv_reply v) = 255" using assms(1) by (simp_all add: slave_ready_def)
  have ok: "maps_ok (io_glob s) (io_gmm s)" "gmm_mod_fns (io_gmm s) = variant_local" using sy(1) by (simp_all add: synced_def)
  have e: "get_map_entry_by_index (Some (map_lists s)) (uint (start - 1)) = Some (a, pt)"
      "pt_wf (globalmap_len (io_gmm s)) pt" "plc_pt_rw (io_gmm s) pt = 2" "unat (am_count a) + 16 \<le> unat (pt_length pt)"
    using assms(2) by (simp_all add: writable_register_def)
  have "6 \<le> length (sv_reply v)" using sy(2) by simp
  from slave_writes_register [OF ok e this, of sid x "replicate 260 0"] obtain reply g' where
      a: "slave_answer (map_lists s) (io_glob s) (io_gmm s) (request sid 6 (start - 1) x @ replicate 260 0) (sv_reply v) =
        Some (reply, 6, gmm_privmap g', g')" "take 6 reply = request sid 6 (start - 1) x" "length reply = 255"
      and g': "maps_ok (gmm_privmap g') g'" "gmm_mod_fns g' = variant_local" "gmm_mapmask g' = gmm_mapmask (io_gmm s)"
        "globalmap_len g' = globalmap_len (io_gmm s)" "slave_register (map_lists s) (gmm_privmap g') g' (unat (start - 1)) = Some x"
      and fr: "\<forall>i < length (io_glob s). \<forall>n. i \<noteq> unat (pt_ofs pt) \<or> n < unat (pt_shift pt) + unat (am_count a) \<or>
          unat (pt_shift pt) + unat (am_count a) + 16 \<le> n \<longrightarrow>
        bit (gmm_privmap g' ! i) n = bit ((if bit (gmm_mapmask (io_gmm s) ! i) n then gmm_privmap (io_gmm s) else io_glob s) ! i) n"
    unfolding sy(2) by (elim exE conjE) (rule that)
  have "synced (s\<lparr>io_glob := gmm_privmap g', io_gmm := g'\<rparr>)" using g'(1,2) by (simp add: synced_def)
  moreover have "take 6 ?p = sid # (6 # be16 (start - 1) @ be16 x)" unfolding tk by (simp add: request_def)
  moreover have "6 \<le> length ?p" by simp
  ultimately obtain vs where vs: "layer_answers wire_layer (v, s) nd ?p 6 tid (query_frame sid 6 start x) ?p vs"
      "slave_ready sid vs" "map_lists (snd vs) = map_lists s" "io_glob (snd vs) = gmm_privmap g'" "io_gmm (snd vs) = g'"
    using wire_answers [OF assms(1) _ _ a(1) [folded tk] _ a(3), of "6 # be16 (start - 1) @ be16 x" nd tid]
    unfolding a(2) query_request by blast
  have "gmm_privmap (io_gmm s) = io_glob s" using sy(1) by (simp add: synced_def)
  then have "bit (gmm_privmap g' ! i) n = bit (io_glob s ! i) n"
    if "i < length (io_glob s)" "i \<noteq> unat (pt_ofs pt) \<or> n < unat (pt_shift pt) + unat (am_count a) \<or>
        unat (pt_shift pt) + unat (am_count a) + 16 \<le> n" for i n
    using fr that by simp
  moreover have "length (gmm_privmap g') = length (io_glob s)" using g'(1,4) ok(1) by (simp add: maps_ok_def)
  ultimately show ?thesis using vs g' by (intro exI [of _ vs]) simp
qed

section \<open>The master reads and writes the slave's registers\<close>

text \<open>Over a wire that loses nothing, a master that reads registers of a slave gets their values, and the
  slave's points stay as they are; the master counts registers from 1 and the slave's table from 0.\<close>

theorem modbus_master_reads_slave:
  assumes "lower m = (v, s)" "slave_ready sid (v, s)" "query_buffer m = Some p" "6 \<le> length p" "0 \<le> retries" "retries \<noteq> int MB_INT_MAX"
    and "unat (start - 1) + unat q \<le> length (io_slave (map_lists s))" "1 \<le> unat q" "unat q \<le> 100" "length ws = unat q"
    and "\<And>k. k < unat q \<Longrightarrow> slave_register (map_lists s) (io_glob s) (io_gmm s) (unat (start - 1) + k) = Some (ws ! k)"
    and "unat q \<le> length dest"
  shows "\<exists>m1. read_output_words wire_layer sid start q dest (int (unat q)) nd retries err m =
      Some (3 + 2 * int (unat q), ws @ drop (unat q) dest, err, m1) \<and>
    slave_ready sid (lower m1) \<and> map_lists (snd (lower m1)) = map_lists s \<and> io_glob (snd (lower m1)) = io_glob s \<and>
    io_gmm (snd (lower m1)) = io_gmm s"
proof -
  have q: "(if q > MAX_READ_REGS then MAX_READ_REGS else q) = q"
    using assms(9) by (simp add: MAX_READ_REGS_def word_less_nat_alt)
  obtain vs where vs: "layer_answers wire_layer (v, s) nd (query_frame sid 3 start q @ drop 6 p) 6 (next_id m) (regs_reply sid 3 ws)
      (query_frame sid 3 start q @ drop 6 p) vs" "slave_ready sid vs" "map_lists (snd vs) = map_lists s" "io_glob (snd vs) = io_glob s"
      "io_gmm (snd vs) = io_gmm s"
    using wire_reads [OF assms(2) _ assms(7,10,8) _ assms(11), of 3 nd "drop 6 p" "next_id m"] assms(9) by auto
  obtain rest where t: "query_transaction wire_layer 3 sid start q nd retries err m =
      Some (int (length (regs_reply sid 3 ws)), regs_reply sid 3 ws @ rest, err,
        m\<lparr>query_buffer := Some (query_frame sid 3 start q @ drop 6 p), next_id := next_id m + 1, lower := vs\<rparr>)"
    using answered_query [OF assms(3-6), of wire_layer nd sid 3 start q "regs_reply sid 3 ws" "query_frame sid 3 start q @ drop 6 p" vs err]
      vs(1) assms(1) by auto
  have "read_registers wire_layer 3 sid start q dest (int (unat q)) nd retries err m = Some (3 + 2 * int (length ws),
      take (nat (int (unat q))) ws @ drop (nat (int (unat q))) dest, err,
      m\<lparr>query_buffer := Some (query_frame sid 3 start q @ drop 6 p), next_id := next_id m + 1, lower := vs\<rparr>)"
    by (rule registers_answered(1) [OF t assms(10)]) (use assms(9,10,12) in simp_all)
  then show ?thesis unfolding read_output_words_def q using assms(10) vs by simp
qed

text \<open>C16. A register that a master writes over a wire is read back by it with its value; no other bit of the
  slave's global map is changed, and reading it changes nothing.\<close>

theorem modbus_register_comes_back:
  assumes "lower m = (v, s)" "slave_ready sid (v, s)" "query_buffer m = Some p" "6 \<le> length p" "0 \<le> retries" "retries \<noteq> int MB_INT_MAX"
    and "writable_register (map_lists s) (io_gmm s) (unat (start - 1)) a pt" "1 \<le> length dest"
  shows "\<exists>m1 m2. write_output_word wire_layer sid start x nd retries err m = Some (6, err, m1) \<and>
    read_output_words wire_layer sid start 1 dest 1 nd retries err m1 = Some (5, x # tl dest, err, m2) \<and>
    io_glob (snd (lower m2)) = io_glob (snd (lower m1)) \<and>
    (\<forall>i < length (io_glob s). \<forall>n. i \<noteq> unat (pt_ofs pt) \<or> n < unat (pt_shift pt) + unat (am_count a) \<or>
        unat (pt_shift pt) + unat (am_count a) + 16 \<le> n \<longrightarrow> bit (io_glob (snd (lower m1)) ! i) n = bit (io_glob s ! i) n)"
proof -
  let ?p = "query_frame sid 6 start x @ drop 6 p"
  obtain vs where vs: "layer_answers wire_layer (v, s) nd ?p 6 (next_id m) (query_frame sid 6 start x) ?p vs" "slave_ready sid vs"
      "map_lists (snd vs) = map_lists s"
      and r: "slave_register (map_lists s) (io_glob (snd vs)) (io_gmm (snd vs)) (unat (start - 1)) = Some x"
      and fr: "\<forall>i < length (io_glob s). \<forall>n. i \<noteq> unat (pt_ofs pt) \<or> n < unat (pt_shift pt) + unat (am_count a) \<or>
        unat (pt_shift pt) + unat (am_count a) + 16 \<le> n \<longrightarrow> bit (io_glob (snd vs) ! i) n = bit (io_glob s ! i) n"
    using wire_writes [OF assms(2,7)] by blast
  let ?m1 = "m\<lparr>query_buffer := Some ?p, next_id := next_id m + 1, lower := vs\<rparr>"
  have "write_output_word wire_layer sid start x nd retries err m =
      write_transaction wire_layer 6 nd retries err (m\<lparr>query_buffer := Some ?p\<rparr>)"
    using build_query_packet_eq [OF assms(4), of sid 6 start x] assms(3)
    by (simp add: write_output_word_def set_single_def query_frame_def)
  also have "\<dots> = Some (6, err, ?m1)"
    using echoed_write [of "m\<lparr>query_buffer := Some ?p\<rparr>" ?p 6 retries wire_layer nd "query_frame sid 6 start x" ?p vs err]
      vs(1) assms(1,5,6) by (simp add: query_frame_def be16_def)
  finally have w: "write_output_word wire_layer sid start x nd retries err m = Some (6, err, ?m1)" .
  obtain v1 s1 where s1: "vs = (v1, s1)" by force
  have k: "unat (start - 1) < length (io_slave (map_lists s1))"
  proof -
    have "\<not> int (length (io_slave (map_lists s))) \<le> int (unat (start - 1))"
      using assms(7) by (auto simp: writable_register_def get_map_entry_by_index_def split: if_splits)
    then have "unat (start - 1) < length (io_slave (map_lists s))" by linarith
    then show ?thesis using vs(3) s1 by simp
  qed
  obtain vs2 where vs2: "layer_answers wire_layer vs nd (query_frame sid 3 start 1 @ drop 6 ?p) 6 (next_id ?m1) (regs_reply sid 3 [x])
      (query_frame sid 3 start 1 @ drop 6 ?p) vs2" "io_glob (snd vs2) = io_glob (snd vs)"
    using wire_reads [of sid v1 s1 3 start 1 "[x]" nd "drop 6 ?p" "next_id ?m1"] vs(2,3) s1 k r by auto
  obtain rest where t: "query_transaction wire_layer 3 sid start 1 nd retries err ?m1 =
      Some (int (length (regs_reply sid 3 [x])), regs_reply sid 3 [x] @ rest, err,
        ?m1\<lparr>query_buffer := Some (query_frame sid 3 start 1 @ drop 6 ?p), next_id := next_id ?m1 + 1, lower := vs2\<rparr>)"
    using answered_query [of ?m1 ?p retries wire_layer nd sid 3 start 1 "regs_reply sid 3 [x]" "query_frame sid 3 start 1 @ drop 6 ?p" vs2 err]
      vs2(1) assms(5,6) by auto
  have "read_registers wire_layer 3 sid start 1 dest 1 nd retries err ?m1 = Some (5, x # tl dest, err,
      ?m1\<lparr>query_buffer := Some (query_frame sid 3 start 1 @ drop 6 ?p), next_id := next_id ?m1 + 1, lower := vs2\<rparr>)"
    using registers_answered(1) [OF t, of 1 dest] assms(8) by (simp add: drop_Suc)
  then show ?thesis using w fr vs2(2) unfolding read_output_words_def by (simp add: MAX_READ_REGS_def)
qed

text \<open>An exception at the first try.\<close>

lemma excepted_query:
  assumes "query_buffer m = Some p" "6 \<le> length p" "0 \<le> retries" "retries \<noteq> int MB_INT_MAX"
    and "layer_answers l (lower m) nd (query_frame slave 3 start q @ drop 6 p) 6 (next_id m) [slave, 0x83, code] p1 s2"
  shows "\<exists>rest. query_transaction l 3 slave start q nd retries err m =
    Some (-4, [slave, 0x83, code] @ rest, map_option (\<lambda>_. code) err, m\<lparr>query_buffer := Some p1, next_id := next_id m + 1, lower := s2\<rparr>)"
proof -
  let ?p = "query_frame slave 3 start q @ drop 6 p"
  let ?m1 = "m\<lparr>query_buffer := Some ?p\<rparr>"
  obtain w s1 nd1 rest where a: "l1_write l (lower m) nd ?p 6 (next_id m) = Some (w, p1, s1)" "0 \<le> w"
      "l1_read l s1 nd (next_id m) (take 6 p1) = Some (3, nd1, [slave, 0x83, code] @ rest, next_id m, s2)" "take 6 p1 = take 6 ?p"
    using assms(5) by (auto simp: layer_answers_def)
  have "length (take 6 p1) = 6" unfolding a(4) by simp
  then have n: "1 < length p1" by simp
  have "take 6 p1 ! 1 = take 6 ?p ! 1" unfolding a(4) ..
  then have "p1 ! 1 = 3" using n by (simp add: query_frame_def)
  then have j: "judge_response p1 ([slave, 0x83, code] @ rest) (next_id m) (next_id m) 3 err = Some (Inr (-4, map_option (\<lambda>_. code) err))"
    using n by (simp add: judge_response_def get_at_def MODBUS_ERROR_def)
  obtain k where k: "nat (retries + 1) = Suc k" using assms(3) by (metis Suc_eq_plus1 nat_int_add nonneg_int_cases of_nat_1)
  have "query_transaction l 3 slave start q nd retries err m = mb_transaction l 6 nd retries err ?m1"
    using assms(1) build_query_packet_eq [OF assms(2), of slave 3 start q] by (simp add: query_transaction_def query_frame_def)
  moreover have "mb_transaction l 6 nd retries err ?m1 = Some (-4, [slave, 0x83, code] @ rest, map_option (\<lambda>_. code) err,
      ?m1\<lparr>query_buffer := Some p1, next_id := next_id ?m1 + 1, lower := s2\<rparr>)"
    using assms(4) a(1-3) j by (simp add: mb_transaction_def k next_transaction_id_def Let_def)
  ultimately show ?thesis by simp
qed

text \<open>A master that asks over a wire for registers that are not all in the slave's table is told so: it gets the
  error of a Modbus exception with the code of an illegal address, its array stays as it is, and so does the slave.\<close>

theorem modbus_exception_reported:
  assumes "lower m = (v, s)" "slave_ready sid (v, s)" "query_buffer m = Some p" "6 \<le> length p" "0 \<le> retries" "retries \<noteq> int MB_INT_MAX"
    and "length (io_slave (map_lists s)) < unat (start - 1) + unat q" "unat q \<le> 100"
  shows "\<exists>m1. read_output_words wire_layer sid start q dest dest_size nd retries err m = Some (-4, dest, map_option (\<lambda>_. 2) err, m1) \<and>
    slave_ready sid (lower m1) \<and> io_glob (snd (lower m1)) = io_glob s \<and> io_gmm (snd (lower m1)) = io_gmm s"
proof -
  let ?p = "query_frame sid 3 start q @ drop 6 p"
  have q: "(if q > MAX_READ_REGS then MAX_READ_REGS else q) = q" using assms(8) by (simp add: MAX_READ_REGS_def word_less_nat_alt)
  have tk: "take 6 ?p = request sid 3 (start - 1) q" by (simp add: query_request [symmetric])
  have l: "length (sv_reply v) = 255" using assms(2) by (simp add: slave_ready_def)
  have "slave_answer (map_lists s) (io_glob s) (io_gmm s) (request sid 3 (start - 1) q @ replicate 260 0) (sv_reply v) =
      Some ([sid, 0x83, 2] @ drop 3 (sv_reply v), 3, io_glob s, io_gmm s)"
  proof -
    have "int (length (io_slave (map_lists s))) < int (unat (start - 1) + unat q)" using assms(7) by (simp only: of_nat_less_iff)
    then have "answer_read (map_lists s) (io_glob s) (io_gmm s) (unat (start - 1)) (unat q) ([sid, 3, 0] @ drop 3 (sv_reply v)) =
        Some ([sid, 0x83, 2] @ drop 3 (sv_reply v), 3)"
      using put_exception_eq [of sid 3 0 "drop 3 (sv_reply v)" 2] unfolding answer_read_def slave_mapped_points_def by simp
    then show ?thesis using answer_start [of "sv_reply v" "map_lists s" "io_glob s" "io_gmm s" sid 3 "start - 1" q "replicate 260 0"] l
      by (simp add: Let_def)
  qed
  moreover have "synced (s\<lparr>io_glob := io_glob s, io_gmm := io_gmm s\<rparr>)" using assms(2) by (simp add: slave_ready_def)
  moreover have "take 6 ?p = sid # (3 # be16 (start - 1) @ be16 q)" unfolding tk by (simp add: request_def)
  moreover have "6 \<le> length ?p" "length ([sid, 0x83, 2] @ drop 3 (sv_reply v)) = 255" using l by simp_all
  ultimately obtain vs where vs: "layer_answers wire_layer (v, s) nd ?p 6 (next_id m) (take 3 ([sid, 0x83, 2] @ drop 3 (sv_reply v))) ?p vs"
      "slave_ready sid vs" "io_glob (snd vs) = io_glob s" "io_gmm (snd vs) = io_gmm s"
    using wire_answers [OF assms(2), of 6 ?p "3 # be16 (start - 1) @ be16 q" "[sid, 0x83, 2] @ drop 3 (sv_reply v)" 3 "io_glob s" "io_gmm s" nd "next_id m"]
    unfolding tk by blast
  obtain rest where "query_transaction wire_layer 3 sid start q nd retries err m =
      Some (-4, [sid, 0x83, 2] @ rest, map_option (\<lambda>_. 2) err, m\<lparr>query_buffer := Some ?p, next_id := next_id m + 1, lower := vs\<rparr>)"
    using excepted_query [OF assms(3-6), of wire_layer nd sid start q 2 ?p vs err] vs(1) assms(1) by auto
  then show ?thesis unfolding read_output_words_def q using vs by (simp add: read_registers_def)
qed

section \<open>An example\<close>

text \<open>A slave with one point of 32 bits, its own, as two registers, the low half first.\<close>

definition p_word :: plc_pt where "p_word = plc_pt_by_loc_local 1 0 0 32"

definition half_addr :: "u16 \<Rightarrow> u16 \<Rightarrow> io_addr_modbus_t" where
  "half_addr k shift = addr_zero\<lparr>am_address := k, am_count := shift\<rparr>"

definition slave_example :: slave_process where
  "slave_example = (\<lparr>sv_nd = -1, sv_tr_id = 0, sv_reply = replicate 255 0\<rparr>,
     \<lparr>io_glob = [0x12345678],
       io_gmm = \<lparr>gmm_mod_fns = variant_local, gmm_status = 1, gmm_module_name = Some ''s'', gmm_privmap = [0x12345678],
         gmm_mapmask = [-1], globalmap_len = 1, globalmap_size = 4, magic_bit_aliases = False\<rparr>,
       map_lists = pt_map_lists_init\<lparr>io_slave :=
         [\<lparr>inv_mask = 0, pe_plc_pt = p_word, pe_io_addr = half_addr 0 0\<rparr>, \<lparr>inv_mask = 0, pe_plc_pt = p_word, pe_io_addr = half_addr 1 16\<rparr>]\<rparr>,
       io_hardware = \<lparr>slave_nets = [\<lparr>sn_name = ''n'', sn_addr = \<lparr>tcp_host = [], tcp_service = []\<rparr>, sn_nd = 0, sn_slave_address = 1,
           sn_connections = 1, sn_mode = 0\<rparr>],
         next_address = 2, slave_errange = False, slave_conf = cf_rows,
         slave_proto = \<lparr>slave_buffer = None, slave_lower = (None, None)\<rparr>\<rparr>\<rparr>)"

lemma p_word_fields [simp]:
  "pt_magic p_word = PT_MAGIC" "pt_ofs p_word = 0" "pt_mask p_word = -1" "pt_shift p_word = 0" "pt_length p_word = 32"
  by (simp_all add: p_word_def plc_pt_by_loc_local_def)

lemma p_word_wf: "pt_wf 1 p_word"
  by (rule by_loc_wf [OF p_word_def]) simp

lemma slave_example_ready: "slave_ready 1 slave_example"
  by (simp add: slave_ready_def slave_example_def synced_def maps_ok_def)

lemma slave_example_point: "writable_register (map_lists (snd slave_example)) (io_gmm (snd slave_example)) 1 (half_addr 1 16) p_word"
  using p_word_wf
  by (simp add: writable_register_def slave_example_def get_map_entry_by_index_def half_addr_def addr_zero_def plc_pt_rw_def)

lemma slave_example_registers:
  "k < 2 \<Longrightarrow> slave_register (map_lists (snd slave_example)) (io_glob (snd slave_example)) (io_gmm (snd slave_example)) k =
    Some ([0x5678, 0x1234] ! k)"
proof -
  have "(drop_bit 16 0x12345678 :: u32) = 0x1234" "(ucast (0x12345678 :: u32) :: u16) = 0x5678" "(ucast (0x1234 :: u32) :: u16) = 0x1234"
    by (simp_all add: drop_bit_eq_div)
  assume "k < 2"
  then have "k = 0 \<or> k = 1" by linarith
  then show ?thesis
    by (auto simp: slave_register_def slave_example_def get_map_entry_by_index_def half_addr_def addr_zero_def plc_get_def priv_def half_of_def
      mask_eq_exp_minus_1)
qed

definition master_of_slave :: "slave_process mb_master" where
  "master_of_slave = \<lparr>query_buffer = Some (replicate 16 0), next_id = 0, lower = slave_example\<rparr>"

lemma modbus_master_reads_slave_witness:
  "\<exists>m1. read_output_words wire_layer 1 1 2 [7, 7, 7] 2 0 0 None master_of_slave = Some (7, [0x5678, 0x1234, 7], None, m1)"
proof -
  have "slave_ready 1 (fst slave_example, snd slave_example)" using slave_example_ready by simp
  from modbus_master_reads_slave [of master_of_slave "fst slave_example" "snd slave_example" 1 "replicate 16 0" 0 1 2 "[0x5678, 0x1234]" "[7, 7, 7]" 0 None, OF _ this]
  show ?thesis using slave_example_registers
    by (simp add: master_of_slave_def MB_INT_MAX_def) (auto simp: slave_example_def)
qed

lemma modbus_register_comes_back_witness:
  "\<exists>m1 m2. write_output_word wire_layer 1 2 0xABCD 0 0 None master_of_slave = Some (6, None, m1) \<and>
    read_output_words wire_layer 1 2 1 [7] 1 0 0 None m1 = Some (5, [0xABCD], None, m2)"
proof -
  have "slave_ready 1 (fst slave_example, snd slave_example)" using slave_example_ready by simp
  from modbus_register_comes_back [of master_of_slave "fst slave_example" "snd slave_example" 1 "replicate 16 0" 0 2 "half_addr 1 16" p_word "[7]" "0xABCD" 0 None, OF _ this]
  show ?thesis using slave_example_point by (auto simp: master_of_slave_def MB_INT_MAX_def)
qed

lemma modbus_exception_reported_witness:
  "\<exists>m1. read_output_words wire_layer 1 2 2 [7, 7] 2 0 0 (Some 0) master_of_slave = Some (-4, [7, 7], Some 2, m1)"
proof -
  have "slave_ready 1 (fst slave_example, snd slave_example)" using slave_example_ready by simp
  from modbus_exception_reported [of master_of_slave "fst slave_example" "snd slave_example" 1 "replicate 16 0" 0 2 2 "[7, 7]" 2 0 "Some 0", OF _ this]
  show ?thesis by (auto simp: master_of_slave_def MB_INT_MAX_def slave_example_def)
qed

text \<open>The example's table is what the slave's module reads from three rows: the numbers of its registers are counted
  by the parser.\<close>

definition slave_hw_start :: "pipe slave_hw" where
  "slave_hw_start = (io_hardware (snd slave_example))\<lparr>next_address := 0\<rparr>"


end
