(* ===== verification/ModbusIo.thy ===== *)
theory ModbusIo
  imports ModbusWire "HOL-Library.Signed_Division"
begin

unbundle bit_operations_syntax

text \<open>
  The Modbus master module, \<^verbatim>\<open>io/modbus/modbus_m.c\<close>: addresses, reading and writing a point through
  \<^verbatim>\<open>mb_master.c\<close>, the flag for errors, and starting. The parameters of the networks, with times in floating point, are not
  modelled: the list of networks is part of the state.
\<close>

section \<open>State\<close>

record 'a network_t =
  net_name :: string
  net_addr :: 'a
  net_nd :: int
  net_send_retries :: u32

text \<open>The static variables, with the levels of the messages logged so far.\<close>

record ('s, 'a) modbus_hw =
  mm_nets :: "'a network_t list"
  mm_errange :: bool
  mm_conf :: conffile
  mm_log :: "int list"
  mm_master :: "'s mb_master"

definition MODBUS_READ_INBIT_CODE :: u8 where "MODBUS_READ_INBIT_CODE = 0x02"
definition MODBUS_READ_OUTBIT_CODE :: u8 where "MODBUS_READ_OUTBIT_CODE = 0x01"
definition MODBUS_READ_INWORD_CODE :: u8 where "MODBUS_READ_INWORD_CODE = 0x04"
definition MODBUS_READ_OUTWORD_CODE :: u8 where "MODBUS_READ_OUTWORD_CODE = 0x03"
definition MODBUS_WRITE_OUTBIT_CODE :: u8 where "MODBUS_WRITE_OUTBIT_CODE = 0x0F"
definition MODBUS_WRITE_OUTWORD_CODE :: u8 where "MODBUS_WRITE_OUTWORD_CODE = 0x10"
definition FIRST_ERROR_LOG_LEVEL :: int where "FIRST_ERROR_LOG_LEVEL = 2"
definition SUBSEQUENT_ERROR_LOG_LEVEL :: int where "SUBSEQUENT_ERROR_LOG_LEVEL = 3"

lemmas function_codes = MODBUS_READ_INBIT_CODE_def MODBUS_READ_OUTBIT_CODE_def MODBUS_READ_INWORD_CODE_def
  MODBUS_READ_OUTWORD_CODE_def MODBUS_WRITE_OUTBIT_CODE_def MODBUS_WRITE_OUTWORD_CODE_def

section \<open>Reading and writing a point\<close>

text \<open>The result, the address with its flag, and the level of the message if there is one.\<close>

definition log_error_msg :: "io_addr_modbus_t \<Rightarrow> int \<Rightarrow> int \<times> io_addr_modbus_t \<times> int list" where
  "log_error_msg a res =
     (let failed = (am_function_code a AND 0x80 \<noteq> 0) in
      if 0 \<le> res
      then (0, a\<lparr>am_function_code := am_function_code a AND NOT 0x80\<rparr>, if failed then [FIRST_ERROR_LOG_LEVEL] else [])
      else (-1, a\<lparr>am_function_code := am_function_code a OR 0x80\<rparr>,
            [if failed then SUBSEQUENT_ERROR_LOG_LEVEL else FIRST_ERROR_LOG_LEVEL]))"

definition net_of :: "('s, 'a) modbus_hw \<Rightarrow> io_addr_modbus_t \<Rightarrow> 'a network_t option" where
  "net_of h a = get_at (mm_nets h) (unat (am_nw_array_ofs a))"

text \<open>The value is an array of one word, and the number of retries goes through an \<^verbatim>\<open>int\<close>. The error code,
  which only goes into a message, starts with any value.\<close>

definition modbus_read_point ::
  "('s, 'a) layer1 \<Rightarrow> ('s, 'a) modbus_hw \<Rightarrow> io_addr_modbus_t \<Rightarrow> u32 \<Rightarrow> (int \<times> io_addr_modbus_t \<times> u32 \<times> ('s, 'a) modbus_hw) option" where
  "modbus_read_point l h a v =
     (let code = am_function_code a AND NOT 0x80;
          call = (\<lambda>f. do { n \<leftarrow> net_of h a;
             (res, dest, err, m1) \<leftarrow> f l (am_slave a) (am_address a) (am_count a) [v] (net_nd n) (sint (net_send_retries n)) (Some 0) (mm_master h);
             (case log_error_msg a res of
                (r, a1, msgs) \<Rightarrow> Some (r, a1, hd dest, h\<lparr>mm_log := mm_log h @ msgs, mm_master := m1\<rparr>)) })
      in if code = MODBUS_READ_OUTBIT_CODE then call read_output_bits_u32
         else if code = MODBUS_READ_INBIT_CODE then call read_input_bits_u32
         else if code = MODBUS_READ_OUTWORD_CODE then call read_output_words_u32
         else if code = MODBUS_READ_INWORD_CODE then call read_input_words_u32
         else Some (-1, a, v, h))"

definition modbus_write_point ::
  "('s, 'a) layer1 \<Rightarrow> ('s, 'a) modbus_hw \<Rightarrow> io_addr_modbus_t \<Rightarrow> u32 \<Rightarrow> (int \<times> io_addr_modbus_t \<times> ('s, 'a) modbus_hw) option" where
  "modbus_write_point l h a v =
     (let code = am_function_code a AND NOT 0x80;
          finish = (\<lambda>res m1. case log_error_msg a res of
             (r, a1, msgs) \<Rightarrow> Some (r, a1, h\<lparr>mm_log := mm_log h @ msgs, mm_master := m1\<rparr>))
      in if code = MODBUS_WRITE_OUTBIT_CODE
         then do { n \<leftarrow> net_of h a;
            (res, vs, err, m1) \<leftarrow> write_output_bits_u32 l (am_slave a) (am_address a) (am_count a) [v] (net_nd n)
              (sint (net_send_retries n)) (Some 0) (mm_master h);
            finish res m1 }
         else if code = MODBUS_WRITE_OUTWORD_CODE
         then do { n \<leftarrow> net_of h a;
            (res, err, m1) \<leftarrow> write_output_words_u32 l (am_slave a) (am_address a) (am_count a) [v] (net_nd n)
              (sint (net_send_retries n)) (Some 0) (mm_master h);
            finish res m1 }
         else Some (-1, a, h))"

section \<open>Addresses\<close>

text \<open>\<^verbatim>\<open>strtok_r\<close>: the next token and what is left.\<close>

definition strtok :: "char set \<Rightarrow> string \<Rightarrow> string option \<times> string" where
  "strtok delims s =
     (let s1 = dropWhile (\<lambda>c. c \<in> delims) s
      in if s1 = [] then (None, [])
         else (Some (takeWhile (\<lambda>c. c \<notin> delims) s1), tl (dropWhile (\<lambda>c. c \<notin> delims) s1)))"

fun find_net :: "'a network_t list \<Rightarrow> string \<Rightarrow> int \<Rightarrow> int" where
  "find_net [] name i = -1"
| "find_net (n # ns) name i = (if net_name n = name then i else find_net ns name (i + 1))"

definition get_network_id :: "'a network_t list \<Rightarrow> string \<Rightarrow> int" where
  "get_network_id nets name = find_net nets name 0"

definition MODBUS_SLAVE_TABLE :: string where "MODBUS_SLAVE_TABLE = ''node''"
definition MODBUS_SLAVE_NAME_OFS :: int where "MODBUS_SLAVE_NAME_OFS = 0"
definition MODBUS_SLAVE_NETW_OFS :: int where "MODBUS_SLAVE_NETW_OFS = 1"
definition MODBUS_SLAVE_ADDR_OFS :: int where "MODBUS_SLAVE_ADDR_OFS = 2"

text \<open>The row of the slave in the table of nodes; the network is stored although the slave's address may be bad.\<close>

definition slave_of_row ::
  "('s, 'a) modbus_hw \<Rightarrow> int \<Rightarrow> io_addr_modbus_t \<Rightarrow> int \<times> io_addr_modbus_t \<times> ('s, 'a) modbus_hw" where
  "slave_of_row h row a =
     (case conffile_get_table (mm_conf h) (Some MODBUS_SLAVE_TABLE) row MODBUS_SLAVE_NETW_OFS of
        None \<Rightarrow> (-1, a, h)
      | Some nw_name \<Rightarrow>
          let id = get_network_id (mm_nets h) nw_name in
          if id < 0 then (-1, a, h)
          else (case conffile_get_table_u32 (mm_conf h) (mm_errange h) (Some MODBUS_SLAVE_TABLE) row MODBUS_SLAVE_ADDR_OFS 0 255 0 of
                  (e, adr, r) \<Rightarrow>
                    let a1 = a\<lparr>am_nw_array_ofs := word_of_int id\<rparr>; h1 = h\<lparr>mm_errange := e\<rparr> in
                    if r < 0 then (-1, a1, h1) else (0, a1\<lparr>am_slave := word_of_int adr\<rparr>, h1)))"

fun find_slave ::
  "('s, 'a) modbus_hw \<Rightarrow> string \<Rightarrow> int list \<Rightarrow> io_addr_modbus_t \<Rightarrow> int \<times> io_addr_modbus_t \<times> ('s, 'a) modbus_hw" where
  "find_slave h name [] a = (-1, a, h)"
| "find_slave h name (row # rows) a =
     (if conffile_get_table (mm_conf h) (Some MODBUS_SLAVE_TABLE) row MODBUS_SLAVE_NAME_OFS = Some name
      then slave_of_row h row a else find_slave h name rows a)"

definition get_slave_addr ::
  "('s, 'a) modbus_hw \<Rightarrow> string \<Rightarrow> io_addr_modbus_t \<Rightarrow> int \<times> io_addr_modbus_t \<times> ('s, 'a) modbus_hw" where
  "get_slave_addr h name a =
     find_slave h name (map int [0..<nat (conffile_get_table_rows (mm_conf h) (Some MODBUS_SLAVE_TABLE))]) a"

text \<open>The place: function code, width and direction.\<close>

definition register_type :: "string \<Rightarrow> dir_t \<Rightarrow> (u8 \<times> int \<times> dir_t) option" where
  "register_type s dir =
     (if s = ''in_bit'' then Some (MODBUS_READ_INBIT_CODE, 1, dir_in)
      else if s = ''out_bit'' then Some (if dir = dir_in then MODBUS_READ_OUTBIT_CODE else MODBUS_WRITE_OUTBIT_CODE, 1, dir_out)
      else if s = ''in_word'' then Some (MODBUS_READ_INWORD_CODE, 16, dir_in)
      else if s = ''out_word'' then Some (if dir = dir_in then MODBUS_READ_OUTWORD_CODE else MODBUS_WRITE_OUTWORD_CODE, 16, dir_out)
      else None)"

text \<open>After the slave: the type of the register, then its address, then nothing.\<close>

definition parse_register ::
  "('s, 'a) modbus_hw \<Rightarrow> io_addr_modbus_t \<Rightarrow> string \<Rightarrow> dir_t \<Rightarrow> int \<Rightarrow> int \<times> io_addr_modbus_t \<times> ('s, 'a) modbus_hw" where
  "parse_register h a rest dir pt_len =
     (case strtok {CHR ''.''} rest of
        (None, _) \<Rightarrow> (-1, a, h)
      | (Some t, rest1) \<Rightarrow>
          (case register_type t dir of
             None \<Rightarrow> (-1, a, h)
           | Some (code, width, reg_dir) \<Rightarrow>
               let a1 = a\<lparr>am_function_code := code\<rparr> in
               if dir = dir_out \<and> reg_dir = dir_in then (-1, a1, h)
               else (case strtok {CHR ''.''} rest1 of
                       (None, _) \<Rightarrow> (-1, a1, h)
                     | (Some adr, rest2) \<Rightarrow>
                         (case string_str_to_u32 (mm_errange h) (Some adr) 1 10000 of
                            (e, None) \<Rightarrow> (-1, a1, h\<lparr>mm_errange := e\<rparr>)
                          | (e, Some n) \<Rightarrow>
                              let a2 = a1\<lparr>am_address := word_of_int n\<rparr>; h1 = h\<lparr>mm_errange := e\<rparr> in
                              if fst (strtok {} rest2) \<noteq> None then (-1, a2, h1)
                              else (0, a2\<lparr>am_count := word_of_int ((pt_len - 1) sdiv width + 1)\<rparr>, h1)))))"

definition modbus_parse_io_addr ::
  "('s, 'a) modbus_hw \<Rightarrow> io_addr_modbus_t \<Rightarrow> string option \<Rightarrow> dir_t \<Rightarrow> int \<Rightarrow> (int \<times> io_addr_modbus_t \<times> ('s, 'a) modbus_hw) option" where
  "modbus_parse_io_addr h a str dir pt_len =
     Some (case str of
             None \<Rightarrow> (-1, a, h)
           | Some s \<Rightarrow>
               if s = [] then (-1, a, h)
               else (case strtok {CHR ''.''} s of
                       (None, _) \<Rightarrow> (-1, a, h)
                     | (Some name, rest) \<Rightarrow>
                         (case get_slave_addr h name a of
                            (r, a1, h1) \<Rightarrow> if r < 0 then (-1, a1, h1) else parse_register h1 a1 rest dir pt_len)))"

section \<open>Starting and stopping\<close>

fun connect_all :: "('s, 'a) layer1 \<Rightarrow> 'a network_t list \<Rightarrow> 's mb_master \<Rightarrow> ('a network_t list \<times> 's mb_master) option" where
  "connect_all l [] m = Some ([], m)"
| "connect_all l (n # ns) m =
     do { (nd, m1) \<leftarrow> mb_master_connect l (net_addr n) m; (ns1, m2) \<leftarrow> connect_all l ns m1; Some (n\<lparr>net_nd := nd\<rparr> # ns1, m2) }"

definition modbus_io_hw_init ::
  "('s, 'a) layer1 \<Rightarrow> (nat \<Rightarrow> u8 list option) \<Rightarrow> ('s, 'a) modbus_hw \<Rightarrow> (int \<times> ('s, 'a) modbus_hw) option" where
  "modbus_io_hw_init l malloc h =
     do { (r, m) \<leftarrow> mb_master_init l malloc (int (length (mm_nets h))) (mm_master h);
          if r < 0 then Some (-1, h\<lparr>mm_master := m\<rparr>)
          else do { (ns, m1) \<leftarrow> connect_all l (mm_nets h) m; Some (0, h\<lparr>mm_nets := ns, mm_master := m1\<rparr>) } }"

text \<open>The module as hardware; \<open>config\<close> is what is not modelled, the parsing of the networks.\<close>

definition modbus_io_hw ::
  "('s, 'a) layer1 \<Rightarrow> (nat \<Rightarrow> u8 list option) \<Rightarrow> (('s, 'a) modbus_hw \<Rightarrow> (int \<times> ('s, 'a) modbus_hw) option)
     \<Rightarrow> (io_addr_modbus_t, ('s, 'a) modbus_hw) io_hw" where
  "modbus_io_hw l malloc config = \<lparr>
     hw_read = modbus_read_point l, hw_write = modbus_write_point l,
     hw_read_end = (\<lambda>h. Some (0, h)),
     hw_write_end = (\<lambda>h. do { (r, m) \<leftarrow> mb_master_silence_init l (mm_master h); Some (r, h\<lparr>mm_master := m\<rparr>) }),
     hw_parse_io_addr = modbus_parse_io_addr, hw_parse_config = config, hw_init = modbus_io_hw_init l malloc,
     hw_done = (\<lambda>h. do { (r, m) \<leftarrow> mb_master_done l (mm_master h); Some (r, h\<lparr>mm_master := m\<rparr>) })\<rparr>"

end
