(* ===== verification/ModbusReturn.thy ===== *)
theory ModbusReturn
  imports ModbusWire
begin

unbundle bit_operations_syntax

text \<open>
  The slave answers whatever it is asked, so the wire is a layer that always comes back: the contract that the
  master's module needs to go on for ever.
\<close>

section \<open>The wire is a layer that always comes back\<close>

text \<open>A layer below that comes back from every call.\<close>

locale returning_layer1 = modbus_layer1 l ok for l :: "('s, 'a) layer1" and ok :: "'s \<Rightarrow> bool" +
  assumes write_returns: "ok s \<Longrightarrow> \<exists>r p1 s1. l1_write l s nd p n tid = Some (r, p1, s1)"
    and read_returns: "ok s \<Longrightarrow> \<exists>r nd1 d tid1 s1. l1_read l s nd tid q = Some (r, nd1, d, tid1, s1)"
    and silence_returns: "ok s \<Longrightarrow> \<exists>r s1. l1_silence_init l s = Some (r, s1) \<and> ok s1"

text \<open>A slave that can answer whatever it is asked.\<close>

definition slave_table_ok :: "io_addr_modbus_t pt_map_lists \<Rightarrow> gmm \<Rightarrow> bool" where
  "slave_table_ok ml g \<longleftrightarrow> (\<forall>e\<in>set (io_slave ml). (\<not> pt_valid (pe_plc_pt e) \<or> pt_wf (globalmap_len g) (pe_plc_pt e)) \<and>
     unat (am_count (pe_io_addr e)) < 32)"

definition slave_ok :: "slave_process \<Rightarrow> bool" where
  "slave_ok vs \<longleftrightarrow> synced (snd vs) \<and> length (sv_reply (fst vs)) = 255 \<and> slave_table_ok (map_lists (snd vs)) (io_gmm (snd vs))"

lemma put_at_ok: "i < length xs \<Longrightarrow> \<exists>ys. put_at xs i v = Some ys \<and> length ys = length xs"
  by (simp add: put_at_def)

lemma put_u16_ok: "i + 1 < length xs \<Longrightarrow> \<exists>ys. put_u16 xs i v = Some ys \<and> length ys = length xs"
  by (simp add: put_u16_def put_at_def)

lemma put_exception_ok: "3 \<le> length reply \<Longrightarrow> \<exists>r. put_exception reply code = Some r \<and> length r = length reply"
  by (simp add: put_exception_def put_at_def)

lemma table_entry:
  assumes "slave_table_ok ml g" "i < length (io_slave ml)"
  shows "\<exists>a pt. get_map_entry_by_index (Some ml) (int i) = Some (a, pt) \<and> unat (am_count a) < 32 \<and>
    (pt_valid pt \<longrightarrow> pt_wf (globalmap_len g) pt)"
  using assms nth_mem [OF assms(2)] by (auto simp: slave_table_ok_def get_map_entry_by_index_def)

lemma half_of_ok: "unat c < 32 \<Longrightarrow> \<exists>h. half_of v c = Some h" "unat c < 32 \<Longrightarrow> \<exists>w. put_half v c q = Some w"
  by (simp_all add: half_of_def put_half_def)

lemma read_points_ok:
  assumes "slave_table_ok ml g"
  shows "i + n \<le> length (io_slave ml) \<Longrightarrow> start \<le> i \<Longrightarrow> 3 + 2 * (i - start + n) \<le> length reply \<Longrightarrow>
    \<exists>r. read_points ml glob g start i n reply = Some r \<and> length r = length reply"
proof (induction n arbitrary: i reply)
  case (Suc n)
  obtain a pt where e: "get_map_entry_by_index (Some ml) (int i) = Some (a, pt)" "unat (am_count a) < 32"
      "pt_valid pt \<longrightarrow> pt_wf (globalmap_len g) pt"
    using table_entry [OF assms, of i] Suc.prems(1) by auto
  show ?case
  proof (cases "pt_valid pt")
    case False
    then show ?thesis using e put_exception_ok [of reply 4] Suc.prems(3) by simp
  next
    case True
    then obtain x where x: "plc_get glob g pt = Some x" using e(3) get_valid by blast
    obtain h where h: "half_of x (am_count a) = Some h" using half_of_ok e(2) by blast
    obtain r1 where r1: "put_u16 reply (3 + (i - start) * 2) h = Some r1" "length r1 = length reply"
      using put_u16_ok [of "3 + (i - start) * 2" reply h] Suc.prems(3) by auto
    obtain r2 where r2: "put_at r1 2 (r1 ! 2 + 2) = Some r2" "length r2 = length reply"
      using put_at_ok [of 2 r1 "r1 ! 2 + 2"] r1(2) Suc.prems(3) by auto
    have "3 + 2 * (Suc i - start + n) \<le> length r2" using Suc.prems(2,3) r2(2) by (simp add: Suc_diff_le)
    then obtain r where "read_points ml glob g start (Suc i) n r2 = Some r" "length r = length r2"
      using Suc.IH [of "Suc i" r2] Suc.prems(1,2) by auto
    then show ?thesis using e True x h r1 r2 Suc.prems(3) by (simp add: get_at_def)
  qed
qed simp

lemma update_synced_ok:
  assumes "maps_ok glob g" "gmm_mod_fns g = variant_local"
  shows "\<exists>g'. plc_update glob g = (gmm_privmap g', Some g') \<and> maps_ok (gmm_privmap g') g' \<and> gmm_mod_fns g' = variant_local \<and>
    globalmap_len g' = globalmap_len g"
  using update_bits [OF assms] by blast

lemma answer_write_ok:
  assumes "slave_table_ok ml g" "maps_ok glob g" "gmm_mod_fns g = variant_local" "gmm_privmap g = glob" "6 \<le> length reply"
  shows "\<exists>r n g'. answer_write ml glob g start q reply = Some (r, n, gmm_privmap g', g') \<and> length r = length reply \<and>
    maps_ok (gmm_privmap g') g' \<and> gmm_mod_fns g' = variant_local \<and> globalmap_len g' = globalmap_len g"
proof -
  have ex: "\<exists>r n g'. do { r1 \<leftarrow> put_exception reply code; Some (r1, 3 :: nat, glob, g) } = Some (r, n, gmm_privmap g', g') \<and>
    length r = length reply \<and> maps_ok (gmm_privmap g') g' \<and> gmm_mod_fns g' = variant_local \<and> globalmap_len g' = globalmap_len g" for code
    using put_exception_ok [of reply code] assms by auto
  show ?thesis
  proof (cases "int (length (io_slave ml)) \<le> uint start")
    case True
    then show ?thesis using ex [of 2] by (simp add: answer_write_def slave_mapped_points_def)
  next
    case False
    have "int (unat start) < int (length (io_slave ml))" using False by simp
    then have "unat start < length (io_slave ml)" by (simp only: of_nat_less_iff)
    then obtain a pt where "get_map_entry_by_index (Some ml) (int (unat start)) = Some (a, pt)" and c: "unat (am_count a) < 32"
        and wf: "pt_valid pt \<longrightarrow> pt_wf (globalmap_len g) pt"
      using table_entry [OF assms(1)] by blast
    then have e: "get_map_entry_by_index (Some ml) (uint start) = Some (a, pt)" by simp
    consider "\<not> pt_valid pt" | "pt_valid pt" "\<not> (plc_pt_rw g pt = 2 \<and> 15 < plc_pt_len pt)"
      | "pt_valid pt" "plc_pt_rw g pt = 2 \<and> 15 < plc_pt_len pt" by blast
    then show ?thesis
    proof cases
      case 1
      then show ?thesis using False e ex [of 3] by (simp add: answer_write_def slave_mapped_points_def)
    next
      case 2
      then show ?thesis using False e ex [of 4] unfolding answer_write_def slave_mapped_points_def by simp
    next
      case 3
      have w: "pt_wf (globalmap_len g) pt" using wf 3(1) by blast
      obtain x where x: "plc_get glob g pt = Some x" using get_valid [OF w] by blast
      obtain y where y: "put_half x (am_count a) q = Some y" using half_of_ok(2) [OF c] by blast
      obtain glob1 g1 where st: "plc_set glob g pt y = Some (glob1, g1)" using set_valid [OF w] by blast
      have glob1: "glob1 = glob" using st assms(3) by (auto simp: plc_set_def Let_def put_priv_def split: if_splits)
      have m1: "maps_ok glob g1" "gmm_mod_fns g1 = variant_local" "globalmap_len g1 = globalmap_len g"
        using set_frame [OF st] assms(2,3) by (auto simp: maps_ok_def priv_def glob1)
      obtain g2 where g2: "plc_update glob g1 = (gmm_privmap g2, Some g2)" "maps_ok (gmm_privmap g2) g2" "gmm_mod_fns g2 = variant_local"
          "globalmap_len g2 = globalmap_len g1"
        using update_synced_ok [OF m1(1,2)] by blast
      obtain z where z: "plc_get (gmm_privmap g2) g2 pt = Some z" using get_valid [OF w] by blast
      obtain h where h: "half_of z (am_count a) = Some h" using half_of_ok(1) [OF c] by blast
      obtain r1 where r1: "put_u16 reply 4 h = Some r1" "length r1 = length reply" using put_u16_ok [of 4 reply h] assms(5) by auto
      obtain r2 where r2: "put_u16 r1 2 start = Some r2" "length r2 = length reply" using put_u16_ok [of 2 r1 start] assms(5) r1(2) by auto
      have "answer_write ml glob g start q reply = Some (r2, 6, gmm_privmap g2, g2)"
        using False e 3 x y st glob1 g2(1) z h r1(1) r2(1) by (simp add: answer_write_def slave_mapped_points_def)
      then show ?thesis using r2(2) g2 m1(3) by auto
    qed
  qed
qed

lemma slave_answer_ok:
  assumes "slave_table_ok ml g" "maps_ok glob g" "gmm_mod_fns g = variant_local" "gmm_privmap g = glob" "length reply = 255" "6 \<le> length buff"
  shows "\<exists>r n g'. slave_answer ml glob g buff reply = Some (r, n, gmm_privmap g', g') \<and> length r = 255 \<and>
    maps_ok (gmm_privmap g') g' \<and> gmm_mod_fns g' = variant_local \<and> globalmap_len g' = globalmap_len g"
proof -
  obtain b0 b1 b2 b3 b4 b5 bs where b: "buff = b0 # b1 # b2 # b3 # b4 # b5 # bs"
    using assms(6) by (auto simp: numeral_eq_Suc Suc_le_length_iff)
  define start where "start = (push_bit 8 (ucast b2) OR ucast b3 :: u16)"
  define q where "q = (push_bit 8 (ucast b4) OR ucast b5 :: u16)"
  have "buff = request b0 b1 start q @ bs"
    unfolding b request_def be16_def start_def q_def be16_split by simp
  then have st: "slave_answer ml glob g buff reply =
    (let r = [b0, b1, 0] @ drop 3 reply in
     if b1 = 0x04 \<or> b1 = 0x03 then do { (r, n) \<leftarrow> answer_read ml glob g (unat start) (unat q) r; Some (r, n, glob, g) }
     else if b1 = 0x06 then answer_write ml glob g start q r
     else do { r \<leftarrow> put_exception r 1; Some (r, 3, glob, g) })"
    using answer_start [of reply ml glob g b0 b1 start q bs] assms(5) by simp
  let ?r = "[b0, b1, 0] @ drop 3 reply"
  have lr: "length ?r = 255" using assms(5) by simp
  have rd: "\<exists>r n. answer_read ml glob g (unat start) (unat q) ?r = Some (r, n) \<and> length r = 255"
  proof (cases "int (length (io_slave ml)) < int (unat start + unat q) \<or> 0x7D < unat q \<or> unat q < 1")
    case True
    then show ?thesis using put_exception_ok [of ?r 2] lr unfolding answer_read_def slave_mapped_points_def by auto
  next
    case False
    then have "unat start + unat q \<le> length (io_slave ml)" "unat q \<le> 125" by (simp_all only: of_nat_less_iff) auto
    then obtain r where "read_points ml glob g (unat start) (unat start) (unat q) ?r = Some r" "length r = length ?r"
      using read_points_ok [OF assms(1), of "unat start" "unat q" "unat start" ?r glob] lr by auto
    then show ?thesis using False lr unfolding answer_read_def slave_mapped_points_def by (simp add: get_at_def)
  qed
  show ?thesis
  proof (cases "b1 = 4 \<or> b1 = 3")
    case True
    obtain r n where "answer_read ml glob g (unat start) (unat q) ?r = Some (r, n)" "length r = 255" using rd by blast
    then show ?thesis using True assms(2-4) unfolding st Let_def by auto
  next
    case False
    show ?thesis
    proof (cases "b1 = 6")
      case True
      then show ?thesis using answer_write_ok [OF assms(1-4), of ?r start q] lr False unfolding st Let_def by auto
    next
      case n6: False
      then show ?thesis using put_exception_ok [of ?r 1] lr False assms(2-4) unfolding st Let_def by auto
    qed
  qed
qed

lemma slave_turn_ok:
  assumes "slave_ok (v, s)" "fst (slave_lower (slave_proto (io_hardware s))) = Some f"
  shows "\<exists>vs. modbus_slave_turn pipe_layer id (v, s) = Some vs \<and> slave_ok vs"
proof -
  have sy: "synced s" "length (sv_reply v) = 255" "slave_table_ok (map_lists s) (io_gmm s)" using assms(1) by (simp_all add: slave_ok_def)
  obtain out where low: "slave_lower (slave_proto (io_hardware s)) = (Some f, out)" using assms(2) by (cases "slave_lower (slave_proto (io_hardware s))") simp
  let ?s2 = "on_layer (None, out) s" and ?v1 = "v\<lparr>sv_nd := 0\<rparr>" and ?b = "f @ replicate 260 0 :: u8 list"
  have same: "s\<lparr>io_glob := io_glob s\<rparr> = s" by simp
  have rd: "slave_read_frame pipe_layer v s = Some (int (length f), ?b, ?v1, ?s2)"
    using low by (simp add: slave_read_frame_def pipe_layer_def)
  obtain b0 where b0: "get_at ?b 0 = Some b0" by (simp add: get_at_def)
  note start = io_update_synced [OF sy(1)] same rd b0
  show ?thesis
  proof (cases "list_ex (\<lambda>n. uint b0 = sn_slave_address n) (slave_nets (io_hardware s))")
    case False
    then have "modbus_slave_turn pipe_layer id (v, s) = Some (?v1\<lparr>sv_nd := -1\<rparr>, ?s2)"
      unfolding modbus_slave_turn_def prod.case using start by (simp add: pipe_layer_def)
    then show ?thesis using sy by (simp add: slave_ok_def synced_def)
  next
    case True
    have g: "maps_ok (io_glob s) (io_gmm s)" "gmm_mod_fns (io_gmm s) = variant_local" "gmm_privmap (io_gmm s) = io_glob s"
      using sy(1) by (simp_all add: synced_def)
    obtain r n g' where a: "slave_answer (map_lists s) (io_glob s) (io_gmm s) ?b (sv_reply v) = Some (r, n, gmm_privmap g', g')"
        "length r = 255" "maps_ok (gmm_privmap g') g'" "gmm_mod_fns g' = variant_local" "globalmap_len g' = globalmap_len (io_gmm s)"
      using slave_answer_ok [OF sy(3) g sy(2), of ?b] by auto
    let ?s3 = "on_layer (None, Some (take n r)) (s\<lparr>io_glob := gmm_privmap g', io_gmm := g'\<rparr>)"
    have sy3: "synced ?s3" using a by (simp add: synced_def)
    have "modbus_slave_turn pipe_layer id (v, s) = Some (?v1\<lparr>sv_reply := r\<rparr>, ?s3)"
      unfolding modbus_slave_turn_def prod.case
      using start True a(1) io_update_synced [OF sy3] by (simp add: pipe_layer_def)
    moreover have "slave_table_ok (map_lists s) g'" using sy(3) a(5) by (simp add: slave_table_ok_def)
    ultimately show ?thesis using sy3 a(2) by (simp add: slave_ok_def)
  qed
qed

lemma slave_ok_pipe [simp]: "slave_ok (on_pipe io vs) = slave_ok vs"
  by (simp add: slave_ok_def on_pipe_def synced_def)

interpretation wire: returning_layer1 wire_layer slave_ok
proof
  fix s nd p n tid r p1 s1
  assume "slave_ok s" "l1_write wire_layer s nd p n tid = Some (r, p1, s1)"
  then show "slave_ok s1 \<and> length p1 = length p \<and> take n p1 = take n p" by (auto simp: wire_layer_def)
next
  fix s nd tid q
  assume s: "slave_ok s"
  have rd: "\<exists>r d s1. l1_read wire_layer s nd tid q = Some (r, nd, d, tid, s1) \<and> slave_ok s1 \<and> (0 \<le> r \<longrightarrow> nat r \<le> length d)"
  proof (cases "fst (pipe_of s)")
    case None
    then show ?thesis using s by (simp add: wire_layer_def)
  next
    case (Some f)
    obtain v sm where vs: "s = (v, sm)" by force
    obtain vs1 where t: "modbus_slave_turn pipe_layer id s = Some vs1" "slave_ok vs1"
      using slave_turn_ok [of v sm f] s Some vs by (auto simp: pipe_of_def)
    then show ?thesis using Some by (cases "snd (pipe_of vs1)") (simp_all add: wire_layer_def)
  qed
  then show "\<exists>r nd1 d tid1 s1. l1_read wire_layer s nd tid q = Some (r, nd1, d, tid1, s1)" by blast
  show "slave_ok s1 \<and> (0 \<le> r \<longrightarrow> nat r \<le> length d)" if "l1_read wire_layer s nd tid q = Some (r, nd1, d, tid1, s1)" for r nd1 d tid1 s1
    using rd that by auto
qed (auto simp: wire_layer_def)

end
