(* ===== verification/ModbusIoProps.thy ===== *)
theory ModbusIoProps
  imports ModbusIo ModbusReturn
begin

unbundle bit_operations_syntax

text \<open>
  The master's module on a layer that comes back: reading and writing a point stays inside its one word and comes back too,
  whatever a slave answers, so the module is hardware on which the scan goes on for ever; and what it reads from the slave of this
  repository, and what it cannot write to it.
\<close>

section \<open>Transactions come back\<close>

definition master_ok :: "('s \<Rightarrow> bool) \<Rightarrow> 's mb_master \<Rightarrow> bool" where
  "master_ok ok m \<longleftrightarrow> ok (lower m) \<and> (\<exists>p. query_buffer m = Some p \<and> 16 \<le> length p)"

text \<open>What is in the word that is read does not matter here, only that there is one.\<close>

lemma u32_rest_ok:
  "dest_pos < length dest \<Longrightarrow> 3 + i + k \<le> length data \<Longrightarrow>
    \<exists>dest1. u32_rest data i k dest_pos dest = Some dest1 \<and> length dest1 = length dest"
proof (induction k arbitrary: dest)
  case (Suc k)
  then show ?case using Suc.IH [of "dest[dest_pos := dest ! dest_pos * 0x100 + ucast (data ! (3 + (i + k)))]"]
    by (simp add: put_at_def get_at_def)
qed simp

lemma bits_fit:
  assumes "n \<le> 4" "3 + n \<le> length data" "length dest = 1"
  shows "\<exists>i p d1. u32_groups data n 0 0 dest = Some (i, p, d1) \<and>
    (\<exists>d2. (if i < n then put_at d1 p 0 else Some d1) = Some d2 \<and>
       (\<exists>d3. u32_rest data i (n - i) p d2 = Some d3 \<and> length d3 = 1))"
proof (cases "n = 4")
  case True
  then show ?thesis using assms(2,3) by (simp add: u32_groups.simps get_at_def put_at_def)
next
  case False
  obtain d where dest: "dest = [d]" using assms(3) by (cases dest) auto
  obtain d3 where "u32_rest data 0 n 0 [0] = Some d3" "length d3 = 1" using u32_rest_ok [of 0 "[0]" 0 n data] assms(2) by auto
  then show ?thesis using assms(1) False by (cases n) (simp_all add: dest u32_groups.simps put_at_def)
qed

lemma words_fit:
  assumes "n = 0 \<or> n = 2 \<or> n = 4" "3 + n \<le> length data" "length dest = 1"
  shows "\<exists>i p d1. word_groups data n 0 0 dest = Some (i, p, d1) \<and>
    (\<exists>d2. (if i + 1 < n then do { lo \<leftarrow> get_u16 data (3 + i); put_at d1 p (ucast lo) } else Some d1) = Some d2 \<and> length d2 = 1)"
  using assms by (auto simp: word_groups.simps get_u16_def get_at_def put_at_def)

lemma byte_rest_ok:
  "org_pos < length data \<Longrightarrow> q + k < length packet \<Longrightarrow>
    \<exists>d p. byte_rest data k org_pos q packet = Some (d, q + k, p) \<and> length d = length data \<and> length p = length packet"
proof (induction k arbitrary: data q packet)
  case (Suc k)
  then show ?case using Suc.IH [of "data[org_pos := drop_bit 8 (data ! org_pos)]" "Suc q" "packet[Suc q := ucast (data ! org_pos)]"]
    by (simp add: take_byte_def put_at_def get_at_def)
qed simp

lemma bytes_fit:
  assumes "n \<le> 4" "6 + n < length packet"
  shows "\<exists>d1 i p q1 pk. byte_groups [v] n 0 0 6 packet = Some (d1, i, p, q1, pk) \<and>
    (\<exists>d2 q2 pk2. byte_rest d1 (n - i) p q1 pk = Some (d2, q2, pk2) \<and> q2 = 6 + n \<and> length pk2 = length packet)"
proof (cases "n = 4")
  case True
  then show ?thesis using assms(2) by (simp add: byte_groups.simps take_byte_def get_at_def put_at_def)
next
  case False
  then show ?thesis using byte_rest_ok [of 0 "[v]" 6 n packet] assms by (auto simp: byte_groups.simps)
qed

lemma put_words_fit:
  assumes "n = 0 \<or> n = 2 \<or> n = 4" "6 + n < length packet"
  shows "\<exists>i q1 pk. put_word_groups [v] n 0 6 packet = Some (i, q1, pk) \<and>
    (\<exists>q2 pk2. (if i + 1 < n then do { w \<leftarrow> get_at [v] i; p \<leftarrow> put_u16 pk (q1 + 1) (ucast w); Some (q1 + 2, p) } else Some (q1, pk)) = Some (q2, pk2) \<and>
       q2 = 6 + n \<and> length pk2 = length packet)"
  using assms by (auto simp: put_word_groups.simps get_at_def put_at_def put_u16_def)

context returning_layer1 begin

lemma tries_return:
  "ok (lower m) \<Longrightarrow> query_buffer m = Some p \<Longrightarrow> 2 \<le> n \<Longrightarrow> n \<le> length p \<Longrightarrow> \<exists>y. transaction_tries l k n nd e err m = Some y"
proof (induction k arbitrary: m p nd e)
  case (Suc k)
  let ?m1 = "m\<lparr>next_id := next_id m + 1\<rparr>"
  obtain res p1 s1 where w: "l1_write l (lower m) nd p n (next_id m) = Some (res, p1, s1)" using write_returns [OF Suc.prems(1)] by blast
  have k1: "ok s1" "length p1 = length p" using write_keeps [OF Suc.prems(1) w] by auto
  let ?m2 = "?m1\<lparr>query_buffer := Some p1, lower := s1\<rparr>"
  show ?case
  proof (cases "res < 0")
    case True
    then show ?thesis using Suc.IH [of ?m2 p1 nd PORT_FAILURE] Suc.prems(2-4) w k1 by (simp add: next_transaction_id_def Let_def)
  next
    case False
    obtain len nd1 data tid1 s2 where rd: "l1_read l s1 nd (next_id m) (take n p1) = Some (len, nd1, data, tid1, s2)"
      using read_returns [OF k1(1)] by blast
    have k2: "ok s2" "0 \<le> len \<Longrightarrow> nat len \<le> length data" using read_gives [OF k1(1) rd] by auto
    let ?m3 = "?m2\<lparr>lower := s2\<rparr>"
    have again: "\<exists>y. transaction_tries l k n nd' e' err ?m3 = Some y" for nd' e'
      using Suc.IH [of ?m3 p1 nd' e'] Suc.prems(3,4) k1(2) k2(1) by simp
    have j: "\<exists>z. judge_response p1 data (next_id m) tid1 len err = Some z" if "3 \<le> len"
    proof -
      have "2 < length data" "1 < length p1" using that k2(2) k1(2) Suc.prems(3,4) by linarith+
      then show ?thesis by (simp add: judge_response_def get_at_def)
    qed
    have step: "\<exists>y. (if len = -2 then Some (TIMEOUT, data, err, ?m3)
         else if len < 0 then transaction_tries l k n nd1 PORT_FAILURE err ?m3
         else if len < 3 then Some (INTERNAL_ERROR, data, err, ?m3)
         else (case judge_response p1 data (next_id m) tid1 len err of
                 None \<Rightarrow> None
               | Some (Inl error1) \<Rightarrow> transaction_tries l k n nd1 error1 err ?m3
               | Some (Inr (r, err1)) \<Rightarrow> Some (r, data, err1, ?m3))) = Some y"
    proof (cases "len < 3")
      case True
      then show ?thesis using again by simp
    next
      case False
      then obtain z where "judge_response p1 data (next_id m) tid1 len err = Some z" using j by auto
      then show ?thesis using False again by (cases z) auto
    qed
    show ?thesis using step False w rd Suc.prems(2) by (simp add: next_transaction_id_def Let_def cong: option.case_cong sum.case_cong if_cong)
  qed
qed simp

text \<open>A transaction from a good master leaves one.\<close>

lemma transaction_ok:
  assumes "master_ok ok m" "2 \<le> n" "n \<le> 16" "retries \<noteq> int MB_INT_MAX"
  shows "\<exists>r d e m1. mb_transaction l n nd retries err m = Some (r, d, e, m1) \<and> master_ok ok m1 \<and>
    (0 \<le> r \<longrightarrow> 3 \<le> r \<and> nat r \<le> length d)"
proof -
  obtain p where p: "query_buffer m = Some p" "16 \<le> length p" and k: "ok (lower m)" using assms(1) by (auto simp: master_ok_def)
  have n: "n \<le> length p" using assms(3) p(2) by simp
  obtain y where "transaction_tries l (nat (retries + 1)) n nd INTERNAL_ERROR err m = Some y"
    using tries_return [OF k p(1) assms(2) n] by blast
  then obtain r d e m1 where t: "mb_transaction l n nd retries err m = Some (r, d, e, m1)"
    using assms(4) by (cases y) (auto simp: mb_transaction_def)
  note out = transaction_outcome [OF k p(1) assms(2) t]
  have "master_ok ok m1" using out p(2) by (auto simp: master_ok_def)
  moreover have "0 \<le> r \<longrightarrow> 3 \<le> r \<and> nat r \<le> length d" using out by auto
  ultimately show ?thesis using t by (intro exI conjI)
qed

lemma query_ok:
  assumes "master_ok ok m" "retries \<noteq> int MB_INT_MAX"
  shows "\<exists>r d e m1. query_transaction l f slave start q nd retries err m = Some (r, d, e, m1) \<and> master_ok ok m1 \<and>
    (0 \<le> r \<longrightarrow> 3 \<le> r \<and> nat r \<le> length d)"
proof -
  obtain p where p: "query_buffer m = Some p" "16 \<le> length p" using assms(1) by (auto simp: master_ok_def)
  let ?p = "[slave, f] @ be16 (start - 1) @ be16 q @ drop 6 p"
  have b: "build_query_packet slave f start q p = Some (6, ?p)" using build_query_packet_eq [of p slave f start q] p(2) by simp
  have "master_ok ok (m\<lparr>query_buffer := Some ?p\<rparr>)" using assms(1) p by (auto simp: master_ok_def be16_def)
  then show ?thesis using transaction_ok [of "m\<lparr>query_buffer := Some ?p\<rparr>" 6 retries nd err] assms(2) p(1) b
    by (simp add: query_transaction_def)
qed

lemma read_bits_ok:
  assumes "master_ok ok m" "retries \<noteq> int MB_INT_MAX" "unat q \<le> 32" "length dest = 1"
  shows "\<exists>r d e m1. read_IO_status_u32 l f slave start q dest nd retries err m = Some (r, d, e, m1) \<and> master_ok ok m1 \<and> length d = 1"
proof -
  obtain r d e m1 where t: "query_transaction l f slave start q nd retries err m = Some (r, d, e, m1)" "master_ok ok m1"
      "0 \<le> r \<longrightarrow> 3 \<le> r \<and> nat r \<le> length d"
    using query_ok [OF assms(1,2)] by blast
  show ?thesis
  proof (cases "0 \<le> r \<and> r = 3 + (uint q + 7) div 8")
    case False
    then show ?thesis using t assms(4) by (auto simp: read_IO_status_u32_def)
  next
    case True
    then have "3 \<le> r" "nat r \<le> length d" using t(3) by blast+
    then have d: "2 < length d" "nat r \<le> length d" by linarith+
    show ?thesis
    proof (cases "uint (d ! 2) = (uint q + 7) div 8")
      case False
      then show ?thesis using t True d(1) assms(4) by (simp add: read_IO_status_u32_def)
    next
      case eq: True
      let ?n = "unat (d ! 2)"
      have u: "int ?n = (uint q + 7) div 8" using eq by simp
      have "uint q \<le> 32" using assms(3) by (metis of_nat_le_iff of_nat_numeral uint_nat)
      then have n: "?n \<le> 4" using u by linarith
      have "3 + ?n \<le> length d" using True u d(2) by linarith
      from bits_fit [OF n this assms(4)] obtain i p d1 d2 d3 where
          "u32_groups d ?n 0 0 dest = Some (i, p, d1)" "(if i < ?n then put_at d1 p 0 else Some d1) = Some d2"
          "u32_rest d i (?n - i) p d2 = Some d3" "length d3 = 1"
        by blast
      then show ?thesis using t True d(1) eq by (simp add: read_IO_status_u32_def)
    qed
  qed
qed

lemma read_words_ok:
  assumes "master_ok ok m" "retries \<noteq> int MB_INT_MAX" "unat q \<le> 2" "length dest = 1"
  shows "\<exists>r d e m1. read_registers_u32 l f slave start q dest nd retries err m = Some (r, d, e, m1) \<and> master_ok ok m1 \<and> length d = 1"
proof -
  obtain r d e m1 where t: "query_transaction l f slave start q nd retries err m = Some (r, d, e, m1)" "master_ok ok m1"
      "0 \<le> r \<longrightarrow> 3 \<le> r \<and> nat r \<le> length d"
    using query_ok [OF assms(1,2)] by blast
  show ?thesis
  proof (cases "0 \<le> r \<and> r = 3 + 2 * uint q")
    case False
    then show ?thesis using t assms(4) by (auto simp: read_registers_u32_def)
  next
    case True
    then have "3 \<le> r" "nat r \<le> length d" using t(3) by blast+
    then have d: "2 < length d" "nat r \<le> length d" by linarith+
    show ?thesis
    proof (cases "uint (d ! 2) = 2 * uint q")
      case False
      then show ?thesis using t True d(1) assms(4) by (simp add: read_registers_u32_def)
    next
      case eq: True
      let ?n = "unat (d ! 2)"
      have u: "?n = 2 * unat q" using eq by (metis of_nat_eq_iff of_nat_mult of_nat_numeral uint_nat)
      have "unat q = 0 \<or> unat q = 1 \<or> unat q = 2" using assms(3) by linarith
      then have n: "?n = 0 \<or> ?n = 2 \<or> ?n = 4" using u by (elim disjE) simp_all
      have "r = 3 + int ?n" using True eq by simp
      then have "3 + ?n \<le> length d" using d(2) by linarith
      from words_fit [OF n this assms(4)] obtain i p d1 d2 where
          "word_groups d ?n 0 0 dest = Some (i, p, d1)"
          "(if i + 1 < ?n then do { lo \<leftarrow> get_u16 d (3 + i); put_at d1 p (ucast lo) } else Some d1) = Some d2" "length d2 = 1"
        by blast
      then show ?thesis using t True d(1) eq by (simp add: read_registers_u32_def)
    qed
  qed
qed

lemma write_transaction_ok:
  assumes "master_ok ok m" "2 \<le> n" "n \<le> 16" "retries \<noteq> int MB_INT_MAX"
  shows "\<exists>r e m1. write_transaction l n nd retries err m = Some (r, e, m1) \<and> master_ok ok m1"
proof -
  obtain r d e m1 where t: "mb_transaction l n nd retries err m = Some (r, d, e, m1)" "master_ok ok m1" "0 \<le> r \<longrightarrow> 3 \<le> r \<and> nat r \<le> length d"
    using transaction_ok [OF assms] by blast
  obtain p where p: "query_buffer m1 = Some p" "16 \<le> length p" using t(2) by (auto simp: master_ok_def)
  show ?thesis
  proof (cases "r = 6")
    case True
    then have "6 \<le> length d" using t(3) by simp
    then show ?thesis using t(1,2) True p by (simp add: write_transaction_def echo_differs_def)
  next
    case False
    then show ?thesis using t(1,2) by (simp add: write_transaction_def)
  qed
qed

lemma write_bits_ok:
  assumes "master_ok ok m" "retries \<noteq> int MB_INT_MAX" "unat q \<le> 32"
  shows "\<exists>r d e m1. write_output_bits_u32 l slave start q [v] nd retries err m = Some (r, d, e, m1) \<and> master_ok ok m1"
proof -
  obtain p where p: "query_buffer m = Some p" "16 \<le> length p" using assms(1) by (auto simp: master_ok_def)
  have q: "(if q > MAX_WRITE_COILS then MAX_WRITE_COILS else q) = q" using assms(3) by (simp add: MAX_WRITE_COILS_def word_less_nat_alt)
  let ?p = "[slave, 0x0F] @ be16 (start - 1) @ be16 q @ drop 6 p" and ?n = "(unat q + 7) div 8"
  have b: "build_query_packet slave 0x0F start q p = Some (6, ?p)" using build_query_packet_eq [of p slave "0x0F" start q] p(2) by simp
  obtain p2 where p2: "put_at ?p 6 (of_nat ?n) = Some p2" "length p2 = length p"
    using put_at_ok [of 6 ?p "of_nat ?n"] p(2) by (auto simp: be16_def)
  have n: "?n \<le> 4" using assms(3) by simp
  have "6 + ?n < length p2" using n p(2) p2(2) by linarith
  from bytes_fit [OF n this, of v] obtain d1 i pos q1 pk d2 q2 pk2 where
      g: "byte_groups [v] ?n 0 0 6 p2 = Some (d1, i, pos, q1, pk)" "byte_rest d1 (?n - i) pos q1 pk = Some (d2, q2, pk2)"
        "q2 = 6 + ?n" "length pk2 = length p2"
    by blast
  have "master_ok ok (m\<lparr>query_buffer := Some pk2\<rparr>)" using assms(1) p p2(2) g(4) by (auto simp: master_ok_def)
  then obtain r e m1 where "write_transaction l (q2 + 1) nd retries err (m\<lparr>query_buffer := Some pk2\<rparr>) = Some (r, e, m1)" "master_ok ok m1"
    using write_transaction_ok [of _ "q2 + 1" retries nd err] assms(2) g(3) n by force
  then show ?thesis unfolding write_output_bits_u32_def Let_def q using p(1) b p2(1) g(1,2) by simp
qed

lemma write_words_ok:
  assumes "master_ok ok m" "retries \<noteq> int MB_INT_MAX" "unat q \<le> 2"
  shows "\<exists>r e m1. write_output_words_u32 l slave start q [v] nd retries err m = Some (r, e, m1) \<and> master_ok ok m1"
proof -
  obtain p where p: "query_buffer m = Some p" "16 \<le> length p" using assms(1) by (auto simp: master_ok_def)
  have q: "(if q > MAX_WRITE_REGS then MAX_WRITE_REGS else q) = q" using assms(3) by (simp add: MAX_WRITE_REGS_def word_less_nat_alt)
  let ?p = "[slave, 0x10] @ be16 (start - 1) @ be16 q @ drop 6 p" and ?b = "ucast (q * 2) :: u8"
  have b: "build_query_packet slave 0x10 start q p = Some (6, ?p)" using build_query_packet_eq [of p slave "0x10" start q] p(2) by simp
  obtain p2 where p2: "put_at ?p 6 ?b = Some p2" "length p2 = length p" using put_at_ok [of 6 ?p ?b] p(2) by (auto simp: be16_def)
  have n: "unat ?b = 0 \<or> unat ?b = 2 \<or> unat ?b = 4"
  proof -
    have "unat q = 0 \<or> unat q = 1 \<or> unat q = 2" using assms(3) by linarith
    then have "q = 0 \<or> q = 1 \<or> q = 2" by (auto simp: word_unat_eq_iff)
    then show ?thesis by auto
  qed
  have "6 + unat ?b < length p2" using n p(2) p2(2) by linarith
  from put_words_fit [OF n this, of v] obtain i q1 pk q2 pk2 where
      g: "put_word_groups [v] (unat ?b) 0 6 p2 = Some (i, q1, pk)"
        "(if i + 1 < unat ?b then do { w \<leftarrow> get_at [v] i; p \<leftarrow> put_u16 pk (q1 + 1) (ucast w); Some (q1 + 2, p) } else Some (q1, pk)) = Some (q2, pk2)"
        "q2 = 6 + unat ?b" "length pk2 = length p2"
    by blast
  have "master_ok ok (m\<lparr>query_buffer := Some pk2\<rparr>)" using assms(1) p p2(2) g(4) by (auto simp: master_ok_def)
  moreover have "2 \<le> q2 + 1" "q2 + 1 \<le> 16" unfolding g(3) using n by (elim disjE; simp)+
  ultimately obtain r e m1 where "write_transaction l (q2 + 1) nd retries err (m\<lparr>query_buffer := Some pk2\<rparr>) = Some (r, e, m1)" "master_ok ok m1"
    using write_transaction_ok [of _ "q2 + 1" retries nd err] assms(2) by blast
  then show ?thesis unfolding write_output_words_u32_def Let_def q using p(1) b p2(1) g(1,2) by simp
qed

end

section \<open>The module is hardware that comes back\<close>

definition modbus_hw_ok :: "('s \<Rightarrow> bool) \<Rightarrow> nat \<Rightarrow> ('s, 'a) modbus_hw \<Rightarrow> bool" where
  "modbus_hw_ok ok n h \<longleftrightarrow> length (mm_nets h) = n \<and> (\<forall>x\<in>set (mm_nets h). sint (net_send_retries x) \<noteq> int MB_INT_MAX) \<and>
     master_ok ok (mm_master h)"

text \<open>The address of a point that fits into a word: at most 32 bits or two registers.\<close>

definition addr_fits :: "nat \<Rightarrow> io_addr_modbus_t \<Rightarrow> bool" where
  "addr_fits n a \<longleftrightarrow> unat (am_nw_array_ofs a) < n \<and>
     (let code = am_function_code a AND NOT 0x80 in
      (code \<in> {1, 2, 0x0F} \<longrightarrow> unat (am_count a) \<le> 32) \<and> (code \<in> {3, 4, 0x10} \<longrightarrow> unat (am_count a) \<le> 2))"

lemma flag_ignored: "(c AND NOT 0x80) AND NOT 0x80 = (c AND NOT 0x80 :: u8)" "(c OR 0x80) AND NOT 0x80 = (c AND NOT 0x80 :: u8)"
  by (rule bit_word_eqI, auto simp: bit_simps)+

lemma log_keeps_fit:
  assumes "log_error_msg a res = (r, a1, msgs)"
  shows "addr_fits n a1 = addr_fits n a"
proof -
  obtain f where a1: "a1 = a\<lparr>am_function_code := f\<rparr>" and f: "f AND NOT 0x80 = am_function_code a AND NOT 0x80"
  proof (cases "0 \<le> res")
    case True
    then have "a1 = a\<lparr>am_function_code := am_function_code a AND NOT 0x80\<rparr>" using assms unfolding log_error_msg_def Let_def by simp
    then show ?thesis using that flag_ignored(1) by blast
  next
    case False
    then have "a1 = a\<lparr>am_function_code := am_function_code a OR 0x80\<rparr>" using assms unfolding log_error_msg_def Let_def by simp
    then show ?thesis using that flag_ignored(2) by blast
  qed
  show ?thesis unfolding addr_fits_def Let_def a1 using f by simp
qed

context returning_layer1 begin

lemma point_read_ok:
  assumes "modbus_hw_ok ok n h" "addr_fits n a"
  shows "\<exists>r a1 v1 h1. modbus_read_point l h a v = Some (r, a1, v1, h1) \<and> addr_fits n a1 \<and> modbus_hw_ok ok n h1"
proof -
  let ?code = "am_function_code a AND NOT 0x80"
  have m: "master_ok ok (mm_master h)" using assms(1) by (simp add: modbus_hw_ok_def)
  have len: "unat (am_nw_array_ofs a) < length (mm_nets h)" using assms by (simp add: modbus_hw_ok_def addr_fits_def)
  define x where "x = mm_nets h ! unat (am_nw_array_ofs a)"
  have x: "net_of h a = Some x" "sint (net_send_retries x) \<noteq> int MB_INT_MAX"
    using len assms(1) by (auto simp: net_of_def x_def modbus_hw_ok_def)
  have call: "\<exists>r a1 v1 h1. (do { n \<leftarrow> net_of h a;
             (res, dest, err, m1) \<leftarrow> f l (am_slave a) (am_address a) (am_count a) [v] (net_nd n) (sint (net_send_retries n)) (Some 0) (mm_master h);
             (case log_error_msg a res of
                (r, a1, msgs) \<Rightarrow> Some (r, a1, hd dest, h\<lparr>mm_log := mm_log h @ msgs, mm_master := m1\<rparr>)) }) = Some (r, a1, v1, h1) \<and>
      addr_fits n a1 \<and> modbus_hw_ok ok n h1"
    if returns: "\<exists>r d e m1. f l (am_slave a) (am_address a) (am_count a) [v] (net_nd x) (sint (net_send_retries x)) (Some 0) (mm_master h) =
      Some (r, d, e, m1) \<and> master_ok ok m1 \<and> length d = 1" for f
  proof -
    obtain r d e m1 where f: "f l (am_slave a) (am_address a) (am_count a) [v] (net_nd x) (sint (net_send_retries x)) (Some 0) (mm_master h) =
      Some (r, d, e, m1)" "master_ok ok m1" using returns by blast
    obtain r1 a1 msgs where lg: "log_error_msg a r = (r1, a1, msgs)" by (cases "log_error_msg a r")
    have "addr_fits n a1" using log_keeps_fit [OF lg] assms(2) by simp
    then show ?thesis using x f lg assms(1) by (simp add: modbus_hw_ok_def)
  qed
  have c: "?code \<in> {1, 2} \<Longrightarrow> unat (am_count a) \<le> 32" "?code \<in> {3, 4} \<Longrightarrow> unat (am_count a) \<le> 2"
    using assms(2) by (auto simp: addr_fits_def Let_def)
  have le: "\<not> 100 < am_count a" if "unat (am_count a) \<le> 2"
    using that by (simp add: word_less_nat_alt)
  have bits: "\<exists>r d e m1. read_IO_status_u32 l f (am_slave a) (am_address a) (am_count a) [v] (net_nd x) (sint (net_send_retries x)) (Some 0) (mm_master h) =
      Some (r, d, e, m1) \<and> master_ok ok m1 \<and> length d = 1" if "?code \<in> {1, 2}" for f
    by (rule read_bits_ok [OF m x(2) c(1) [OF that]]) simp
  have words: "\<exists>r d e m1. read_registers_u32 l f (am_slave a) (am_address a) (am_count a) [v] (net_nd x) (sint (net_send_retries x)) (Some 0) (mm_master h) =
      Some (r, d, e, m1) \<and> master_ok ok m1 \<and> length d = 1" if "?code \<in> {3, 4}" for f
    by (rule read_words_ok [OF m x(2) c(2) [OF that]]) simp
  consider "?code = 1" | "?code = 2" | "?code = 3" | "?code = 4" | "?code \<notin> {1, 2, 3, 4}" by blast
  then show ?thesis
  proof cases
    case 1
    then show ?thesis using call [of read_output_bits_u32] bits [of 1] unfolding modbus_read_point_def Let_def function_codes
      by (simp add: read_output_bits_u32_def)
  next
    case 2
    then show ?thesis using call [of read_input_bits_u32] bits [of 2] unfolding modbus_read_point_def Let_def function_codes
      by (simp add: read_input_bits_u32_def)
  next
    case 3
    then show ?thesis using call [of read_output_words_u32] words [of 3] c(2) le unfolding modbus_read_point_def Let_def function_codes
      by (simp add: read_output_words_u32_def MAX_READ_REGS_def)
  next
    case 4
    then show ?thesis using call [of read_input_words_u32] words [of 4] c(2) le unfolding modbus_read_point_def Let_def function_codes
      by (simp add: read_input_words_u32_def MAX_INPUT_REGS_def)
  next
    case 5
    then show ?thesis using assms unfolding modbus_read_point_def Let_def function_codes by simp
  qed
qed

lemma point_write_ok:
  assumes "modbus_hw_ok ok n h" "addr_fits n a"
  shows "\<exists>r a1 h1. modbus_write_point l h a v = Some (r, a1, h1) \<and> addr_fits n a1 \<and> modbus_hw_ok ok n h1"
proof -
  let ?code = "am_function_code a AND NOT 0x80"
  have m: "master_ok ok (mm_master h)" using assms(1) by (simp add: modbus_hw_ok_def)
  have len: "unat (am_nw_array_ofs a) < length (mm_nets h)" using assms by (simp add: modbus_hw_ok_def addr_fits_def)
  define x where "x = mm_nets h ! unat (am_nw_array_ofs a)"
  have x: "net_of h a = Some x" "sint (net_send_retries x) \<noteq> int MB_INT_MAX"
    using len assms(1) by (auto simp: net_of_def x_def modbus_hw_ok_def)
  have fin: "\<exists>r a1 h1. (case log_error_msg a res of (r, a1, msgs) \<Rightarrow> Some (r, a1, h\<lparr>mm_log := mm_log h @ msgs, mm_master := m1\<rparr>)) = Some (r, a1, h1) \<and>
      addr_fits n a1 \<and> modbus_hw_ok ok n h1" if "master_ok ok m1" for res m1
    using log_keeps_fit [of a res _ _ _ n] assms that by (cases "log_error_msg a res") (auto simp: modbus_hw_ok_def)
  have c: "?code = 0x0F \<Longrightarrow> unat (am_count a) \<le> 32" "?code = 0x10 \<Longrightarrow> unat (am_count a) \<le> 2"
    using assms(2) by (auto simp: addr_fits_def Let_def)
  consider "?code = 0x0F" | "?code = 0x10" | "?code \<noteq> 0x0F" "?code \<noteq> 0x10" by blast
  then show ?thesis
  proof cases
    case 1
    then obtain r d e m1 where "write_output_bits_u32 l (am_slave a) (am_address a) (am_count a) [v] (net_nd x) (sint (net_send_retries x)) (Some 0)
        (mm_master h) = Some (r, d, e, m1)" "master_ok ok m1"
      using write_bits_ok [OF m x(2) c(1)] by blast
    then show ?thesis using 1 x(1) fin [of m1 r] unfolding modbus_write_point_def Let_def function_codes by simp
  next
    case 2
    then obtain r e m1 where "write_output_words_u32 l (am_slave a) (am_address a) (am_count a) [v] (net_nd x) (sint (net_send_retries x)) (Some 0)
        (mm_master h) = Some (r, e, m1)" "master_ok ok m1"
      using write_words_ok [OF m x(2) c(2)] by blast
    then show ?thesis using 2 x(1) fin [of m1 r] unfolding modbus_write_point_def Let_def function_codes by simp
  next
    case 3
    then show ?thesis using assms unfolding modbus_write_point_def Let_def function_codes by simp
  qed
qed

end

sublocale returning_layer1 \<subseteq> io: io_device "modbus_io_hw l malloc config" "modbus_hw_ok ok n" "addr_fits n" for malloc config n
proof
  fix h :: "('s, 'a) modbus_hw" and a v
  assume h: "modbus_hw_ok ok n h" "addr_fits n a"
  show "\<exists>r a1 v1 h1. hw_read (modbus_io_hw l malloc config) h a v = Some (r, a1, v1, h1) \<and> addr_fits n a1 \<and> modbus_hw_ok ok n h1"
    using point_read_ok [OF h] by (simp add: modbus_io_hw_def)
  show "\<exists>r a1 h1. hw_write (modbus_io_hw l malloc config) h a v = Some (r, a1, h1) \<and> addr_fits n a1 \<and> modbus_hw_ok ok n h1"
    using point_write_ok [OF h] by (simp add: modbus_io_hw_def)
next
  fix h :: "('s, 'a) modbus_hw" assume h: "modbus_hw_ok ok n h"
  then have "ok (lower (mm_master h))" by (simp add: modbus_hw_ok_def master_ok_def)
  from silence_returns [OF this] h
  show "\<exists>r h1. hw_write_end (modbus_io_hw l malloc config) h = Some (r, h1) \<and> modbus_hw_ok ok n h1"
    by (auto simp: modbus_io_hw_def mb_master_silence_init_def modbus_hw_ok_def master_ok_def)
qed (simp add: modbus_io_hw_def)

end
