(* ===== verification/ModbusScan.thy ===== *)
theory ModbusScan
  imports ModbusIoProps
begin

unbundle bit_operations_syntax

text \<open>
  The master's module as a whole: the addresses it takes from the configuration keep every read and write inside one
  word, so no answer of the line can stop its scan; and what a scan brings from a slave of this repository, and what it cannot
  bring there.
\<close>

section \<open>Tokens\<close>

lemma strtok_token:
  assumes "s \<noteq> []" "\<forall>c\<in>set s. c \<notin> D" "d \<in> D"
  shows "strtok D (s @ d # rest) = (Some s, rest)"
proof -
  obtain x xs where s: "s = x # xs" using assms(1) by (cases s) auto
  have "dropWhile (\<lambda>c. c \<in> D) (s @ d # rest) = s @ d # rest" using assms(2) s by simp
  moreover have "takeWhile (\<lambda>c. c \<notin> D) (s @ d # rest) = s" "dropWhile (\<lambda>c. c \<notin> D) (s @ d # rest) = d # rest"
    using assms(2,3) by (simp_all add: takeWhile_append2 dropWhile_append2)
  ultimately show ?thesis using assms(1) unfolding strtok_def Let_def by simp
qed

lemma strtok_last:
  assumes "s \<noteq> []" "\<forall>c\<in>set s. c \<notin> D"
  shows "strtok D s = (Some s, [])"
proof -
  obtain x xs where s: "s = x # xs" using assms(1) by (cases s) auto
  have "dropWhile (\<lambda>c. c \<in> D) s = s" using assms(2) s by simp
  moreover have "takeWhile (\<lambda>c. c \<notin> D) s = s" "dropWhile (\<lambda>c. c \<notin> D) s = []"
    using assms(2) by (simp_all add: takeWhile_eq_all_conv dropWhile_eq_Nil_conv)
  ultimately show ?thesis using assms(1) by (simp add: strtok_def Let_def del: dropWhile_eq_Nil_conv)
qed

lemma strtok_nil [simp]: "strtok D [] = (None, [])"
  by (simp add: strtok_def)

lemma decimal_no_dot: "\<forall>c\<in>set (decimal n). c \<notin> {CHR ''.''}"
proof
  fix c assume "c \<in> set (decimal n)"
  then obtain d where "d < 10" "c = digit_char d" using decimal_digits by blast
  then have "(of_char c :: nat) = 48 + d" by (simp add: digit_char_def)
  moreover have "(of_char (CHR ''.'') :: nat) = 46" by simp
  ultimately show "c \<notin> {CHR ''.''}" by auto
qed

lemma unat_word: "0 \<le> i \<Longrightarrow> i < 0x10000 \<Longrightarrow> unat (word_of_int i :: u16) = nat i"
  by (cases i) (simp_all add: unsigned_of_nat take_bit_nat_eq_self_iff)

section \<open>The slave's entry\<close>

lemma find_net_range: "find_net ns name i = -1 \<or> i \<le> find_net ns name i \<and> find_net ns name i < i + int (length ns)"
proof (induction ns arbitrary: i)
  case (Cons n ns)
  show ?case using Cons.IH [of "i + 1"] by auto
qed simp

lemma slave_of_row_fits:
  assumes "slave_of_row h row a = (r, a1, h1)" "0 \<le> r" "length (mm_nets h) \<le> 0x10000"
  shows "unat (am_nw_array_ofs a1) < length (mm_nets h)"
proof -
  obtain nw e adr where w: "am_nw_array_ofs a1 = word_of_int (get_network_id (mm_nets h) nw)" "\<not> get_network_id (mm_nets h) nw < 0"
    using assms(1,2) by (auto simp: slave_of_row_def Let_def split: option.splits prod.splits if_splits)
  let ?i = "get_network_id (mm_nets h) nw"
  have i: "0 \<le> ?i" "?i < int (length (mm_nets h))" using find_net_range [of "mm_nets h" nw 0] w(2) by (auto simp: get_network_id_def)
  then have "unat (word_of_int ?i :: u16) = nat ?i" using assms(3) by (intro unat_word) linarith+
  then show ?thesis using w(1) i by simp
qed

lemma find_slave_fits:
  "find_slave h name rows a = (r, a1, h1) \<Longrightarrow> 0 \<le> r \<Longrightarrow> length (mm_nets h) \<le> 0x10000 \<Longrightarrow> unat (am_nw_array_ofs a1) < length (mm_nets h)"
  by (induction rows) (auto split: if_splits intro: slave_of_row_fits)

section \<open>Addresses\<close>

text \<open>The number of bits or registers of a point is what is needed to hold it, and they fit into a word.\<close>

lemma count_div:
  assumes "1 \<le> pt_len" "pt_len \<le> 32" "width \<in> {1, 16 :: int}" "k = (pt_len - 1) sdiv width + 1"
  shows "1 \<le> k" "(k - 1) * width < pt_len" "pt_len \<le> k * width" "width = 1 \<Longrightarrow> k \<le> 32" "width = 16 \<Longrightarrow> k \<le> 2"
    "unat (word_of_int k :: u16) = nat k"
proof -
  have k: "k = (pt_len - 1) div width + 1" using assms(1,3,4)
    by (cases "pt_len = 1") (auto simp: signed_divide_int_def)
  have c: "width = 1 \<or> width = 16" using assms(3) by blast
  show 1: "1 \<le> k" "(k - 1) * width < pt_len" "pt_len \<le> k * width" and 2: "width = 1 \<Longrightarrow> k \<le> 32" "width = 16 \<Longrightarrow> k \<le> 2"
    using c assms(1,2) unfolding k by (elim disjE; simp)+
  have "k \<le> 32" using c 2 by auto
  then show "unat (word_of_int k :: u16) = nat k" using 1(1) by (intro unat_word) linarith+
qed

lemma register_width:
  assumes "register_type t dir = Some (code, width, reg_dir)"
  shows "t \<noteq> []" "CHR ''.'' \<notin> set t" "width \<in> {1, 16}" "code AND NOT 0x80 \<in> {1, 2, 0x0F} \<Longrightarrow> width = 1"
    "code AND NOT 0x80 \<in> {3, 4, 0x10} \<Longrightarrow> width = 16"
  using assms by (auto simp: register_type_def function_codes split: if_splits)

text \<open>Whatever the text is, an address that is accepted fits.\<close>

lemma parse_register_fits:
  assumes "parse_register h a rest dir pt_len = (r, a1, h1)" "0 \<le> r" "1 \<le> pt_len" "pt_len \<le> 32" "unat (am_nw_array_ofs a) < n"
  shows "addr_fits n a1"
proof -
  obtain t code width reg_dir k adr where t: "register_type t dir = Some (code, width, reg_dir)"
      and a1: "a1 = a\<lparr>am_function_code := code, am_address := adr, am_count := word_of_int k\<rparr>" and k: "k = (pt_len - 1) sdiv width + 1"
    using assms(1,2) by (auto simp: parse_register_def Let_def split: prod.splits option.splits if_splits)
  note w = register_width [OF t]
  note c = count_div [OF assms(3,4) w(3) k]
  have "unat (word_of_int k :: u16) \<le> 32" if "width = 1" using c(4) [OF that] c(6) by linarith
  moreover have "unat (word_of_int k :: u16) \<le> 2" if "width = 16" using c(5) [OF that] c(6) by linarith
  ultimately show ?thesis using assms(5) w(4,5) unfolding addr_fits_def Let_def a1 by simp
qed

lemma parsed_fits:
  assumes "modbus_parse_io_addr h a str dir pt_len = Some (r, a1, h1)" "0 \<le> r" "1 \<le> pt_len" "pt_len \<le> 32" "length (mm_nets h) \<le> 0x10000"
  shows "addr_fits (length (mm_nets h)) a1"
proof -
  obtain name rest r2 a2 h2 where g: "get_slave_addr h name a = (r2, a2, h2)" "\<not> r2 < 0" "parse_register h2 a2 rest dir pt_len = (r, a1, h1)"
    using assms(1,2) by (auto simp: modbus_parse_io_addr_def split: option.splits prod.splits if_splits)
  have "unat (am_nw_array_ofs a2) < length (mm_nets h)"
    using find_slave_fits [OF g(1) [unfolded get_slave_addr_def] _ assms(5)] g(2) by simp
  then show ?thesis by (rule parse_register_fits [OF g(3) assms(2-4)])
qed

lemma address_parsed:
  assumes "name \<noteq> []" "CHR ''.'' \<notin> set name" "get_slave_addr h name a = (0, a1, h1)" "\<not> mm_errange h1" "length (mm_nets h) \<le> 0x10000"
    and "register_type t dir = Some (code, width, reg_dir)" "\<not> (dir = dir_out \<and> reg_dir = dir_in)"
    and "1 \<le> n" "n \<le> 10000" "1 \<le> pt_len" "pt_len \<le> 32"
  shows "\<exists>k. modbus_parse_io_addr h a (Some (name @ ''.'' @ t @ ''.'' @ decimal n)) dir pt_len =
      Some (0, a1\<lparr>am_function_code := code, am_address := of_nat n, am_count := of_nat k\<rparr>, h1) \<and>
    int (k - 1) * width < pt_len \<and> pt_len \<le> int k * width \<and> 1 \<le> k \<and>
    addr_fits (length (mm_nets h)) (a1\<lparr>am_function_code := code, am_address := of_nat n, am_count := of_nat k\<rparr>)"
proof -
  let ?s = "name @ CHR ''.'' # t @ CHR ''.'' # decimal n"
  note w = register_width [OF assms(6)]
  define k where "k = (pt_len - 1) sdiv width + 1"
  note c = count_div [OF assms(10,11) w(3) k_def]
  have t1: "strtok {CHR ''.''} ?s = (Some name, t @ CHR ''.'' # decimal n)"
    using assms(1,2) by (intro strtok_token) auto
  have t2: "strtok {CHR ''.''} (t @ CHR ''.'' # decimal n) = (Some t, decimal n)"
    using w(1,2) by (intro strtok_token) auto
  have t3: "strtok {CHR ''.''} (decimal n) = (Some (decimal n), [])"
    by (intro strtok_last decimal_ne decimal_no_dot)
  have num: "string_str_to_u32 (mm_errange h1) (Some (decimal n)) 1 10000 = (False, Some (int n))"
    using decimal_read [of n 1 10000] assms(4,8,9) by simp
  have h1: "h1\<lparr>mm_errange := False\<rparr> = h1" using assms(4) by simp
  have "parse_register h1 a1 (t @ CHR ''.'' # decimal n) dir pt_len =
      (0, a1\<lparr>am_function_code := code, am_address := of_nat n, am_count := word_of_int k\<rparr>, h1)"
    unfolding parse_register_def t2 prod.case option.case assms(6) Let_def t3 num
    using assms(7) h1 by (auto simp: k_def)
  then have p: "modbus_parse_io_addr h a (Some ?s) dir pt_len =
      Some (0, a1\<lparr>am_function_code := code, am_address := of_nat n, am_count := word_of_int k\<rparr>, h1)"
    using t1 assms(3) by (simp add: modbus_parse_io_addr_def)
  have "word_of_int k = (of_nat (nat k) :: u16)" using c(1) by simp
  moreover have "int (nat k) = k" "int (nat k - 1) = k - 1" "1 \<le> nat k" using c(1) by auto
  ultimately show ?thesis using p c(2,3) parsed_fits [OF p _ assms(10,11,5)] by (intro exI [of _ "nat k"]) simp
qed

text \<open>C20. An address that is written as the name of a slave, a type of register and a number is read as the slave's entry, the function for the
  type and the direction, and the number; the number of bits or registers is the least that holds the point, and
  they fit into a word.\<close>

theorem modbus_address_parsed:
  assumes "name \<noteq> []" "CHR ''.'' \<notin> set name" "get_slave_addr h name a = (0, a1, h1)" "\<not> mm_errange h1" "length (mm_nets h) \<le> 0x10000"
    and "register_type t dir = Some (code, width, reg_dir)" "\<not> (dir = dir_out \<and> reg_dir = dir_in)"
    and "1 \<le> n" "n \<le> 10000" "1 \<le> pt_len" "pt_len \<le> 32"
  shows "\<exists>k. modbus_parse_io_addr h a (Some (name @ ''.'' @ t @ ''.'' @ decimal n)) dir pt_len =
      Some (0, a1\<lparr>am_function_code := code, am_address := of_nat n, am_count := of_nat k\<rparr>, h1) \<and>
    int (k - 1) * width < pt_len \<and> pt_len \<le> int k * width \<and> 1 \<le> k \<and>
    addr_fits (length (mm_nets h)) (a1\<lparr>am_function_code := code, am_address := of_nat n, am_count := of_nat k\<rparr>)"
  by (rule address_parsed [OF assms])

definition one_net :: "'s \<Rightarrow> (string \<times> string list list) list \<Rightarrow> ('s, node_addr_tcp_t) modbus_hw" where
  "one_net low tables = \<lparr>mm_nets = [\<lparr>net_name = ''net'', net_addr = \<lparr>tcp_host = [], tcp_service = []\<rparr>, net_nd = 0, net_send_retries = 1\<rparr>],
     mm_errange = False,
     mm_conf = \<lparr>conffile_module_name = Some ''m'', cf_vars = Some [], cf_recs = Some tables, cf_files = None\<rparr>,
     mm_log = [], mm_master = \<lparr>query_buffer = Some (replicate 16 0), next_id = 0, lower = low\<rparr>\<rparr>"

lemma one_net_slave:
  "get_slave_addr (one_net low [(''m:node'', [[''plc'', ''net'', ''1'']])]) ''plc'' a =
    (0, a\<lparr>am_nw_array_ofs := 0, am_slave := 1\<rparr>, one_net low [(''m:node'', [[''plc'', ''net'', ''1'']])])"
proof -
  let ?cf = "\<lparr>conffile_module_name = Some ''m'', cf_vars = Some [], cf_recs = Some [(''m:node'', [[''plc'', ''net'', ''1'']])], cf_files = None\<rparr>"
  have t: "get_tableptr ?cf (Some ''m'') (Some ''node'') = Some [[''plc'', ''net'', ''1'']]"
    by (simp add: get_tableptr_def strdup3_def dict_get_def bsearch.simps c_strcmp.simps)
  have n: "conffile_get_table_rows ?cf (Some ''node'') = 1"
    by (simp add: conffile_get_table_rows_def conffile_get_table_rows_sec_def t list_len_def)
  have f: "conffile_get_table ?cf (Some ''node'') 0 0 = Some ''plc''" "conffile_get_table ?cf (Some ''node'') 0 1 = Some ''net''"
      "conffile_get_table ?cf (Some ''node'') 0 2 = Some ''1''"
    by (simp_all add: conffile_get_table_def conffile_get_table_sec_def t list_item_def)
  have u: "conffile_get_table_u32 ?cf False (Some ''node'') 0 2 0 255 0 = (False, 1, 0)"
    using f(3) by (simp add: conffile_get_table_u32_def conffile_get_table_sec_u32_def conffile_get_table_def number_or_default_def num_simps)
  show ?thesis using n f u
    by (simp add: get_slave_addr_def one_net_def slave_of_row_def get_network_id_def MODBUS_SLAVE_TABLE_def MODBUS_SLAVE_NAME_OFS_def
      MODBUS_SLAVE_NETW_OFS_def MODBUS_SLAVE_ADDR_OFS_def)
qed

lemma modbus_address_parsed_witness:
  "\<exists>k h1. modbus_parse_io_addr (one_net () [(''m:node'', [[''plc'', ''net'', ''1'']])]) addr_zero (Some (''plc.in_word.'' @ decimal 7)) dir_in 32 =
      Some (0, addr_zero\<lparr>am_nw_array_ofs := 0, am_slave := 1, am_function_code := 4, am_address := 7, am_count := of_nat k\<rparr>, h1) \<and>
    int (k - 1) * 16 < 32 \<and> 32 \<le> int k * 16"
proof -
  have "register_type ''in_word'' dir_in = Some (4, 16, dir_in)" by (simp add: register_type_def function_codes)
  then show ?thesis
    using modbus_address_parsed [of "''plc''", OF _ _ one_net_slave, of "()" "''in_word''" dir_in 4 16 dir_in 7 32 addr_zero]
    by (auto simp: one_net_def)
qed

section \<open>No answer stops the scan\<close>

text \<open>A line that does whatever a list says: whether the next query can be sent, and what is then received.\<close>

type_synonym line_event = "int \<times> int \<times> int \<times> u8 list \<times> u16"

definition any_layer :: "(line_event list, 'a) layer1" where
  "any_layer = \<lparr>
     l1_write = (\<lambda>s nd p n tid. Some (case s of [] \<Rightarrow> (-1, p, []) | (w, e) # s1 \<Rightarrow> (w, p, if w < 0 then s1 else s))),
     l1_read = (\<lambda>s nd tid q. Some (case s of [] \<Rightarrow> (-2, nd, [], tid, [])
       | (w, r, nd1, d, tid1) # s1 \<Rightarrow> (r, nd1, d @ replicate (nat r - length d) 0, tid1, s1))),
     l1_init = (\<lambda>s k opt. Some (0, 0, s)), l1_done = (\<lambda>s. Some (0, s)), l1_connect = (\<lambda>s a. Some (0, s)),
     l1_listen = (\<lambda>s a. Some (0, s)), l1_close = (\<lambda>s nd. Some (0, s)), l1_silence_init = (\<lambda>s. Some (0, s))\<rparr>"

interpretation line: returning_layer1 any_layer "\<lambda>_. True"
  by unfold_locales (auto simp: any_layer_def split: list.splits prod.splits)

lemma tables_ok_mono:
  "tables_ok P s \<Longrightarrow> (\<And>e. e \<in> set (io_read (map_lists s)) \<union> set (io_write (map_lists s)) \<Longrightarrow> Q (pe_io_addr e)) \<Longrightarrow> tables_ok Q s"
  by (auto simp: tables_ok_def)

text \<open>C17. If all addresses were accepted by the module's parser for points of up to 32 bits, the scans go on whatever the line does: no frame makes the
  module read or write outside of its buffers, and its table and its state stay in order.\<close>

theorem modbus_scans_survive:
  assumes "tables_ok (\<lambda>_. True) s" "modbus_hw_ok (\<lambda>_. True) n (io_hardware s)" "n \<le> 0x10000"
    and "\<forall>e\<in>set (io_read (map_lists s)) \<union> set (io_write (map_lists s)). \<exists>(h :: (line_event list, 'a) modbus_hw) a str dir pt_len h1.
      modbus_parse_io_addr h a str dir pt_len = Some (0, pe_io_addr e, h1) \<and> 1 \<le> pt_len \<and> pt_len \<le> 32 \<and> length (mm_nets h) = n"
    and "\<forall>(glob, junk)\<in>set gs. length glob = length (io_glob s)"
  shows "\<exists>s'. run_loop_master (modbus_io_hw any_layer malloc config) gs (s :: (io_addr_modbus_t, (line_event list, 'a) modbus_hw) io_module) = Some s' \<and>
    tables_ok (addr_fits n) s' \<and> modbus_hw_ok (\<lambda>_. True) n (io_hardware s')"
proof -
  have "addr_fits n (pe_io_addr e)" if "e \<in> set (io_read (map_lists s)) \<union> set (io_write (map_lists s))" for e
    using bspec [OF assms(4) that] assms(3) by (elim exE conjE) (use parsed_fits in fastforce)
  then have "tables_ok (addr_fits n) s" by (rule tables_ok_mono [OF assms(1)])
  then show ?thesis by (rule line.io.scans [OF _ assms(2,5)])
qed

text \<open>One input of two registers; the line first brings a frame that is too short for what it says, then nothing.\<close>

definition line_module :: "line_event list \<Rightarrow> io_addr_modbus_t \<Rightarrow> (io_addr_modbus_t, (line_event list, node_addr_tcp_t) modbus_hw) io_module" where
  "line_module evs a = \<lparr>io_glob = [0],
     io_gmm = \<lparr>gmm_mod_fns = variant_local, gmm_status = 1, gmm_module_name = Some ''m'', gmm_privmap = [0],
       gmm_mapmask = [-1], globalmap_len = 1, globalmap_size = 4, magic_bit_aliases = False\<rparr>,
     map_lists = pt_map_lists_init\<lparr>io_read := [\<lparr>inv_mask = 0, pe_plc_pt = p_word, pe_io_addr = a\<rparr>]\<rparr>,
     io_hardware = one_net evs [(''m:node'', [[''plc'', ''net'', ''1'']])]\<rparr>"

lemma line_module_ok: "tables_ok (\<lambda>_. True) (line_module evs a)"
  using p_word_wf by (simp add: tables_ok_def line_module_def maps_ok_def inputs_ok_def may_write_def pt_map_lists_init_def)

lemma modbus_scans_survive_witness:
  "\<exists>a s'. run_loop_master (modbus_io_hw any_layer (\<lambda>_. None) (\<lambda>_. None)) [([0], 0), ([5], 0)]
      (line_module [(0, 7, 0, [1, 4, 4], 0), (0, 300, 0, [1, 0x84], 1)] a) = Some s' \<and> addr_fits 1 a"
proof -
  let ?evs = "[(0, 7, 0, [1, 4, 4], 0), (0, 300, 0, [1, 0x84], 1)] :: line_event list"
  let ?h = "one_net ?evs [(''m:node'', [[''plc'', ''net'', ''1'']])]"
  have "register_type ''in_word'' dir_in = Some (4, 16, dir_in)" by (simp add: register_type_def function_codes)
  then obtain k where k: "modbus_parse_io_addr ?h addr_zero (Some (''plc'' @ ''.'' @ ''in_word'' @ ''.'' @ decimal 7)) dir_in 32 =
      Some (0, addr_zero\<lparr>am_nw_array_ofs := 0, am_slave := 1, am_function_code := 4, am_address := of_nat 7, am_count := of_nat k\<rparr>, ?h)"
      "addr_fits 1 (addr_zero\<lparr>am_nw_array_ofs := 0, am_slave := 1, am_function_code := 4, am_address := of_nat 7, am_count := of_nat k\<rparr>)"
    using address_parsed [of "''plc''", OF _ _ one_net_slave, of ?evs "''in_word''" dir_in 4 16 dir_in 7 32 addr_zero]
    by (auto simp: one_net_def)
  let ?a = "addr_zero\<lparr>am_nw_array_ofs := 0, am_slave := 1, am_function_code := 4, am_address := of_nat 7, am_count := of_nat k\<rparr>"
  have hw: "modbus_hw_ok (\<lambda>_. True) 1 (io_hardware (line_module ?evs ?a))"
    by (simp add: line_module_def one_net_def modbus_hw_ok_def master_ok_def MB_INT_MAX_def)
  have acc: "\<forall>e\<in>set (io_read (map_lists (line_module ?evs ?a))) \<union> set (io_write (map_lists (line_module ?evs ?a))).
      \<exists>(h :: (line_event list, node_addr_tcp_t) modbus_hw) a str dir pt_len h1.
      modbus_parse_io_addr h a str dir pt_len = Some (0, pe_io_addr e, h1) \<and> 1 \<le> pt_len \<and> pt_len \<le> 32 \<and> length (mm_nets h) = 1"
  proof -
    have "length (mm_nets ?h) = 1" by (simp add: one_net_def)
    moreover have "pe_io_addr e = ?a" if "e \<in> set (io_read (map_lists (line_module ?evs ?a))) \<union> set (io_write (map_lists (line_module ?evs ?a)))" for e
      using that by (simp add: line_module_def pt_map_lists_init_def)
    ultimately show ?thesis using k(1) by (metis (no_types, lifting) numeral_One one_le_numeral order_refl)
  qed
  from modbus_scans_survive [OF line_module_ok hw _ acc, of "[([0], 0), ([5], 0)]" "\<lambda>_. None" "\<lambda>_. None"]
  have "\<exists>s'. run_loop_master (modbus_io_hw any_layer (\<lambda>_. None) (\<lambda>_. None)) [([0], 0), ([5], 0)] (line_module ?evs ?a) = Some s'"
    by (auto simp: line_module_def)
  then show ?thesis using k(2) by blast
qed

section \<open>A scan brings the registers of a slave\<close>

text \<open>A module whose layer below is the wire to a slave that is at the head of its loop.\<close>

definition wire_ready :: "u8 \<Rightarrow> (slave_process, 'a) modbus_hw \<Rightarrow> bool" where
  "wire_ready sid h \<longleftrightarrow> slave_ready sid (lower (mm_master h)) \<and> (\<exists>p. query_buffer (mm_master h) = Some p \<and> 16 \<le> length p) \<and>
     (\<forall>x\<in>set (mm_nets h). 0 \<le> sint (net_send_retries x) \<and> sint (net_send_retries x) \<noteq> int MB_INT_MAX)"

text \<open>The registers that an address stands for.\<close>

definition reads_registers :: "slave_process \<Rightarrow> nat \<Rightarrow> u8 \<Rightarrow> io_addr_modbus_t \<Rightarrow> u16 list \<Rightarrow> bool" where
  "reads_registers vs n sid a ws \<longleftrightarrow> am_function_code a AND NOT 0x80 \<in> {3, 4} \<and> am_slave a = sid \<and> unat (am_nw_array_ofs a) < n \<and>
     unat (am_count a) = length ws \<and> (length ws = 1 \<or> length ws = 2) \<and>
     (\<forall>k < length ws. slave_register (map_lists (snd vs)) (io_glob (snd vs)) (io_gmm (snd vs)) (unat (am_address a - 1) + k) = Some (ws ! k))"

lemma slave_register_in: "slave_register ml glob g k = Some w \<Longrightarrow> k < length (io_slave ml)"
  by (auto simp: slave_register_def get_map_entry_by_index_def bind_eq_Some_conv split: if_splits)

lemma registers_in:
  assumes "reads_registers vs n sid a ws"
  shows "unat (am_address a - 1) + length ws \<le> length (io_slave (map_lists (snd vs)))"
proof -
  have "length ws - 1 < length ws" using assms by (auto simp: reads_registers_def)
  then have "slave_register (map_lists (snd vs)) (io_glob (snd vs)) (io_gmm (snd vs)) (unat (am_address a - 1) + (length ws - 1)) = Some (ws ! (length ws - 1))"
    using assms unfolding reads_registers_def by blast
  from slave_register_in [OF this] show ?thesis by linarith
qed

lemma chunks_short: "length ws = 1 \<or> length ws = 2 \<Longrightarrow> chunks 2 ws = [ws]"
  by (auto simp: length_Suc_conv numeral_eq_Suc chunks.simps)

lemma point_reads_slave:
  assumes "wire_ready sid h" "reads_registers (lower (mm_master h)) (length (mm_nets h)) sid a ws"
  shows "\<exists>a1 h1. modbus_read_point wire_layer h a w = Some (0, a1, word_of_regs ws, h1) \<and> wire_ready sid h1 \<and> mm_nets h1 = mm_nets h \<and>
    map_lists (snd (lower (mm_master h1))) = map_lists (snd (lower (mm_master h))) \<and>
    io_glob (snd (lower (mm_master h1))) = io_glob (snd (lower (mm_master h))) \<and>
    io_gmm (snd (lower (mm_master h1))) = io_gmm (snd (lower (mm_master h)))"
proof -
  let ?m = "mm_master h" and ?start = "am_address a" and ?q = "am_count a"
  obtain v t where vt: "lower ?m = (v, t)" by force
  obtain p where p: "query_buffer ?m = Some p" "16 \<le> length p" using assms(1) by (auto simp: wire_ready_def)
  have ready: "slave_ready sid (v, t)" using assms(1) vt by (simp add: wire_ready_def)
  define x where "x = mm_nets h ! unat (am_nw_array_ofs a)"
  have x: "net_of h a = Some x" "0 \<le> sint (net_send_retries x)" "sint (net_send_retries x) \<noteq> int MB_INT_MAX"
    using assms by (auto simp: net_of_def x_def get_at_def wire_ready_def reads_registers_def)
  have len: "length ws = unat ?q" "length ws = 1 \<or> length ws = 2" "am_slave a = sid" using assms(2) by (simp_all add: reads_registers_def)
  obtain f where f: "am_function_code a AND NOT 0x80 = f" "f = 3 \<or> f = 4" using assms(2) by (auto simp: reads_registers_def)
  have regs: "slave_register (map_lists t) (io_glob t) (io_gmm t) (unat (?start - 1) + k) = Some (ws ! k)" if "k < unat ?q" for k
    using assms(2) that len(1) vt by (simp add: reads_registers_def)
  have "unat (?start - 1) + unat ?q \<le> length (io_slave (map_lists t))" using registers_in [OF assms(2)] len(1) vt by simp
  then obtain vs where vs: "layer_answers wire_layer (v, t) (net_nd x) (query_frame sid f ?start ?q @ drop 6 p) 6 (next_id ?m) (regs_reply sid f ws)
      (query_frame sid f ?start ?q @ drop 6 p) vs" "slave_ready sid vs" "map_lists (snd vs) = map_lists t" "io_glob (snd vs) = io_glob t"
      "io_gmm (snd vs) = io_gmm t"
    using wire_reads [OF ready f(2) _ len(1) _ _ regs, of "net_nd x" "drop 6 p" "next_id ?m"] len(1,2) by auto
  have "\<exists>rest. query_transaction wire_layer f sid ?start ?q (net_nd x) (sint (net_send_retries x)) (Some 0) ?m =
      Some (int (length (regs_reply sid f ws)), regs_reply sid f ws @ rest, Some 0,
        ?m\<lparr>query_buffer := Some (query_frame sid f ?start ?q @ drop 6 p), next_id := next_id ?m + 1, lower := vs\<rparr>)"
    by (rule answered_query [OF p(1)]) (use p(2) x vs(1) vt f(2) in auto)
  then obtain rest where tr: "query_transaction wire_layer f sid ?start ?q (net_nd x) (sint (net_send_retries x)) (Some 0) ?m =
      Some (int (length (regs_reply sid f ws)), regs_reply sid f ws @ rest, Some 0,
        ?m\<lparr>query_buffer := Some (query_frame sid f ?start ?q @ drop 6 p), next_id := next_id ?m + 1, lower := vs\<rparr>)" ..
  let ?m1 = "?m\<lparr>query_buffer := Some (query_frame sid f ?start ?q @ drop 6 p), next_id := next_id ?m + 1, lower := vs\<rparr>"
  have "read_registers_u32 wire_layer f sid ?start ?q [w] (net_nd x) (sint (net_send_retries x)) (Some 0) ?m =
      Some (3 + 2 * int (length ws), map word_of_regs (chunks 2 ws) @ drop ((length ws + 1) div 2) [w], Some 0, ?m1)"
    using registers_answered(2) [OF tr len(1), of "[w]"] len(2) by auto
  moreover have "drop ((length ws + 1) div 2) [w] = []" using len(2) by auto
  ultimately have rd: "read_registers_u32 wire_layer f sid ?start ?q [w] (net_nd x) (sint (net_send_retries x)) (Some 0) ?m =
      Some (3 + 2 * int (length ws), [word_of_regs ws], Some 0, ?m1)"
    by (simp add: chunks_short [OF len(2)])
  have q: "\<not> 100 < ?q" using len(1,2) by (auto simp: word_less_nat_alt)
  let ?a1 = "a\<lparr>am_function_code := am_function_code a AND NOT 0x80\<rparr>"
  obtain msgs where lg: "log_error_msg a (3 + 2 * int (length ws)) = (0, ?a1, msgs)" by (simp add: log_error_msg_def Let_def)
  have rp: "modbus_read_point wire_layer h a w = Some (0, ?a1, word_of_regs ws, h\<lparr>mm_log := mm_log h @ msgs, mm_master := ?m1\<rparr>)"
    using f x(1) rd q lg len(3) unfolding modbus_read_point_def Let_def function_codes
    by (elim disjE) (simp_all add: read_output_words_u32_def read_input_words_u32_def MAX_READ_REGS_def MAX_INPUT_REGS_def)
  have "wire_ready sid (h\<lparr>mm_log := mm_log h @ msgs, mm_master := ?m1\<rparr>)"
    using assms(1) vs(2) p(2) by (simp add: wire_ready_def)
  then show ?thesis using rp vs vt by (intro exI [of _ ?a1] exI [of _ "h\<lparr>mm_log := mm_log h @ msgs, mm_master := ?m1\<rparr>"]) simp
qed

lemma reads_registers_cong:
  "map_lists (snd vs1) = map_lists (snd vs) \<Longrightarrow> io_glob (snd vs1) = io_glob (snd vs) \<Longrightarrow> io_gmm (snd vs1) = io_gmm (snd vs) \<Longrightarrow>
    reads_registers vs1 n sid a ws = reads_registers vs n sid a ws"
  by (simp add: reads_registers_def)

lemma reads_slave:
  assumes "wire_ready sid h" "list_all2 (reads_registers (lower (mm_master h)) (length (mm_nets h)) sid) as wss"
  shows "\<exists>as1 h1. read_results (modbus_io_hw wire_layer malloc config) as w h = Some (map (\<lambda>ws. (0, word_of_regs ws)) wss, as1, h1)"
  using assms(2,1)
proof (induction "length as" arbitrary: as wss h w)
  case 0
  then show ?case by simp
next
  case (Suc k)
  obtain a as' ws wss' where c: "as = a # as'" "wss = ws # wss'" "reads_registers (lower (mm_master h)) (length (mm_nets h)) sid a ws"
      "list_all2 (reads_registers (lower (mm_master h)) (length (mm_nets h)) sid) as' wss'"
    using Suc.hyps(2) Suc.prems(1) by (cases as; cases wss) auto
  obtain a1 h1 where r: "modbus_read_point wire_layer h a w = Some (0, a1, word_of_regs ws, h1)" "wire_ready sid h1" "mm_nets h1 = mm_nets h"
      "map_lists (snd (lower (mm_master h1))) = map_lists (snd (lower (mm_master h)))"
      "io_glob (snd (lower (mm_master h1))) = io_glob (snd (lower (mm_master h)))"
      "io_gmm (snd (lower (mm_master h1))) = io_gmm (snd (lower (mm_master h)))"
    using point_reads_slave [OF Suc.prems(2) c(3), of w] by blast
  have "list_all2 (reads_registers (lower (mm_master h1)) (length (mm_nets h1)) sid) as' wss'"
    using c(4) reads_registers_cong [OF r(4-6)] r(3) by (simp add: list_all2_conv_all_nth)
  from Suc.hyps(1) [OF _ this r(2), of "word_of_regs ws"] Suc.hyps(2) c(1)
  show ?case using r(1) c(1,2) by (auto simp: modbus_io_hw_def)
qed

text \<open>C15. A scan brings into every input point of the master's module the registers of the slave that its address stands for, one
  or two of them, the first as the low half; the scan comes back, and the points are in the global map.\<close>

theorem modbus_scan_reads_slave:
  assumes "tables_ok (addr_fits n) s" "modbus_hw_ok slave_ok n (io_hardware s)" "wire_ready sid (io_hardware s)"
    and "length glob = length (io_glob s)"
    and "list_all2 (\<lambda>e. reads_registers (lower (mm_master (io_hardware s))) n sid (pe_io_addr e)) (io_read (map_lists s)) wss"
  shows "\<exists>s'. scan_master (modbus_io_hw wire_layer malloc config) glob junk s = Some s' \<and> gmm_privmap (io_gmm s') = io_glob s' \<and>
    (\<forall>k < length wss. let e = io_read (map_lists s) ! k in
       plc_get (io_glob s') (io_gmm s') (pe_plc_pt e) = Some (input_value (pe_plc_pt e) (inv_mask e) (word_of_regs (wss ! k))))"
proof -
  let ?hw = "modbus_io_hw wire_layer malloc config"
  have n: "length (mm_nets (io_hardware s)) = n" using assms(2) by (simp add: modbus_hw_ok_def)
  have l: "length wss = length (io_read (map_lists s))" using assms(5) by (simp add: list_all2_lengthD)
  have "list_all2 (reads_registers (lower (mm_master (io_hardware s))) n sid) (map pe_io_addr (io_read (map_lists s))) wss"
    using assms(5) by (simp add: list_all2_map1)
  from reads_slave [OF assms(3), unfolded n, OF this, of malloc config junk] obtain as1 h1 where
      rs: "read_results ?hw (map pe_io_addr (io_read (map_lists s))) junk (io_hardware s) = Some (map (\<lambda>ws. (0, word_of_regs ws)) wss, as1, h1)"
    by blast
  obtain s' rs' as1' h1' where s': "scan_master ?hw glob junk s = Some s'" "gmm_privmap (io_gmm s') = io_glob s'"
      "read_results ?hw (map pe_io_addr (io_read (map_lists s))) junk (io_hardware s) = Some (rs', as1', h1')"
      "\<forall>k < length (io_read (map_lists s)). let e = io_read (map_lists s) ! k in
       plc_get (io_glob s') (io_gmm s') (pe_plc_pt e) =
       (if fst (rs' ! k) < 0 then plc_get (io_glob s) (io_gmm s) (pe_plc_pt e)
        else Some (input_value (pe_plc_pt e) (inv_mask e) (snd (rs' ! k))))"
    using wire.io.scan [OF assms(1,2,4), of malloc config junk] by (elim exE conjE) (rule that)
  have "rs' = map (\<lambda>ws. (0, word_of_regs ws)) wss" using rs s'(3) by simp
  then show ?thesis using s' l by (simp add: Let_def)
qed

definition wire_module :: "(io_addr_modbus_t, (slave_process, node_addr_tcp_t) modbus_hw) io_module" where
  "wire_module = \<lparr>io_glob = [0],
     io_gmm = \<lparr>gmm_mod_fns = variant_local, gmm_status = 1, gmm_module_name = Some ''m'', gmm_privmap = [0],
       gmm_mapmask = [-1], globalmap_len = 1, globalmap_size = 4, magic_bit_aliases = False\<rparr>,
     map_lists = pt_map_lists_init\<lparr>io_read := [\<lparr>inv_mask = 0, pe_plc_pt = p_word,
       pe_io_addr = \<lparr>am_function_code = 4, am_slave = 1, am_address = 1, am_count = 2, am_nw_array_ofs = 0\<rparr>\<rparr>]\<rparr>,
     io_hardware = one_net slave_example []\<rparr>"

lemma wire_module_ok:
  "tables_ok (addr_fits 1) wire_module" "modbus_hw_ok slave_ok 1 (io_hardware wire_module)" "wire_ready 1 (io_hardware wire_module)"
proof -
  show "tables_ok (addr_fits 1) wire_module"
    using p_word_wf by (simp add: tables_ok_def wire_module_def maps_ok_def inputs_ok_def may_write_def pt_map_lists_init_def addr_fits_def)
  have "slave_ok slave_example"
    using p_word_wf by (simp add: slave_ok_def slave_table_ok_def slave_example_def synced_def maps_ok_def half_addr_def addr_zero_def)
  then show "modbus_hw_ok slave_ok 1 (io_hardware wire_module)"
    by (simp add: wire_module_def one_net_def modbus_hw_ok_def master_ok_def MB_INT_MAX_def)
  show "wire_ready 1 (io_hardware wire_module)"
    using slave_example_ready by (simp add: wire_ready_def wire_module_def one_net_def MB_INT_MAX_def)
qed

lemma modbus_scan_reads_slave_witness:
  "\<exists>s'. scan_master (modbus_io_hw wire_layer (\<lambda>_. None) (\<lambda>_. None)) [7] 99 wire_module = Some s' \<and>
    plc_get (io_glob s') (io_gmm s') p_word = Some 0x12345678"
proof -
  have regs: "list_all2 (\<lambda>e. reads_registers (lower (mm_master (io_hardware wire_module))) 1 1 (pe_io_addr e)) (io_read (map_lists wire_module)) [[0x5678, 0x1234]]"
    using slave_example_registers [of 0] slave_example_registers [of 1]
    by (simp add: wire_module_def one_net_def pt_map_lists_init_def reads_registers_def less_Suc_eq)
  have v: "input_value p_word 0 (word_of_regs [0x5678, 0x1234]) = 0x12345678"
    by (simp add: input_value_def word_of_regs_def)
  have "length [7 :: u32] = length (io_glob wire_module)" by (simp add: wire_module_def)
  from modbus_scan_reads_slave [OF wire_module_ok this regs, of "\<lambda>_. None" "\<lambda>_. None" 99] v
  show ?thesis by (auto simp: Let_def wire_module_def pt_map_lists_init_def)
qed

section \<open>What it cannot write\<close>

text \<open>The master writes registers with function 16, which the slave of this repository does not know: its answer is an exception.\<close>

lemma excepted_transaction:
  assumes "query_buffer m = Some p" "2 \<le> n" "n \<le> length p" "0 \<le> retries" "retries \<noteq> int MB_INT_MAX"
    and "layer_answers l (lower m) nd p n (next_id m) [slave, 0x90, code] p1 s2" "p ! 1 = 0x10"
  shows "\<exists>rest. mb_transaction l n nd retries err m =
    Some (-4, [slave, 0x90, code] @ rest, map_option (\<lambda>_. code) err, m\<lparr>query_buffer := Some p1, next_id := next_id m + 1, lower := s2\<rparr>)"
proof -
  obtain w s1 nd1 rest where a: "l1_write l (lower m) nd p n (next_id m) = Some (w, p1, s1)" "0 \<le> w"
      "l1_read l s1 nd (next_id m) (take n p1) = Some (3, nd1, [slave, 0x90, code] @ rest, next_id m, s2)" "take n p1 = take n p"
    using assms(6) by (auto simp: layer_answers_def)
  have "length (take n p1) = n" unfolding a(4) using assms(3) by simp
  then have n: "n \<le> length p1" by simp
  have "take n p1 ! 1 = take n p ! 1" unfolding a(4) ..
  then have "1 < length p1" "p1 ! 1 = 0x10" using assms(2,7) n by simp_all
  then have j: "judge_response p1 ([slave, 0x90, code] @ rest) (next_id m) (next_id m) 3 err = Some (Inr (-4, map_option (\<lambda>_. code) err))"
    by (simp add: judge_response_def get_at_def MODBUS_ERROR_def)
  obtain k where k: "nat (retries + 1) = Suc k" using assms(4) by (metis Suc_eq_plus1 nat_int_add nonneg_int_cases of_nat_1)
  show ?thesis using assms(1,5) a(1-3) j
    by (intro exI [of _ rest]) (simp add: mb_transaction_def k next_transaction_id_def Let_def)
qed

lemma wire_rejects:
  assumes "slave_ready sid (v, s)" "n \<le> length p" "take n p = request sid 0x10 start q @ rest"
  shows "\<exists>vs. layer_answers wire_layer (v, s) nd p n tid [sid, 0x90, 1] p vs \<and> slave_ready sid vs \<and>
    map_lists (snd vs) = map_lists s \<and> io_glob (snd vs) = io_glob s \<and> io_gmm (snd vs) = io_gmm s"
proof -
  have l: "length (sv_reply v) = 255" using assms(1) by (simp add: slave_ready_def)
  have "slave_answer (map_lists s) (io_glob s) (io_gmm s) (request sid 0x10 start q @ rest @ replicate 260 0) (sv_reply v) =
      Some ([sid, 0x90, 1] @ drop 3 (sv_reply v), 3, io_glob s, io_gmm s)"
    using answer_start [of "sv_reply v" "map_lists s" "io_glob s" "io_gmm s" sid "0x10" start q "rest @ replicate 260 0"] l
      put_exception_eq [of sid "0x10" 0 "drop 3 (sv_reply v)" 1] by (simp add: Let_def)
  then have a: "slave_answer (map_lists s) (io_glob s) (io_gmm s) (take n p @ replicate 260 0) (sv_reply v) =
      Some ([sid, 0x90, 1] @ drop 3 (sv_reply v), 3, io_glob s, io_gmm s)" unfolding assms(3) by simp
  have "synced (s\<lparr>io_glob := io_glob s, io_gmm := io_gmm s\<rparr>)" using assms(1) by (simp add: slave_ready_def)
  moreover have "take n p = sid # (0x10 # be16 start @ be16 q @ rest)" unfolding assms(3) by (simp add: request_def)
  moreover have "length ([sid, 0x90, 1] @ drop 3 (sv_reply v)) = 255" using l by simp
  ultimately show ?thesis
    using wire_answers [OF assms(1,2) _ a, of "0x10 # be16 start @ be16 q @ rest" nd tid] by auto
qed

text \<open>C22. Writing an output of registers to a slave of this repository never works: the write is reported as failed and remembered in the
  address, the slave keeps all its points, and nothing else is disturbed.\<close>

theorem modbus_output_rejected:
  assumes "wire_ready sid h" "lower (mm_master h) = (v, s)" "net_of h a = Some x" "am_slave a = sid"
    and "am_function_code a AND NOT 0x80 = MODBUS_WRITE_OUTWORD_CODE" "unat (am_count a) \<le> 2"
  shows "\<exists>h1. modbus_write_point wire_layer h a w = Some (-1, a\<lparr>am_function_code := am_function_code a OR 0x80\<rparr>, h1) \<and> wire_ready sid h1 \<and>
    io_glob (snd (lower (mm_master h1))) = io_glob s \<and> io_gmm (snd (lower (mm_master h1))) = io_gmm s"
proof -
  let ?m = "mm_master h" and ?start = "am_address a" and ?q = "am_count a"
  obtain p where p: "query_buffer ?m = Some p" "16 \<le> length p" using assms(1) by (auto simp: wire_ready_def)
  have ready: "slave_ready sid (v, s)" using assms(1,2) by (simp add: wire_ready_def)
  have "x \<in> set (mm_nets h)" using assms(3) by (auto simp: net_of_def get_at_def split: if_splits)
  then have x: "0 \<le> sint (net_send_retries x)" "sint (net_send_retries x) \<noteq> int MB_INT_MAX" using assms(1) by (auto simp: wire_ready_def)
  let ?n = "7 + 2 * unat ?q"
  let ?tail = "[of_nat (2 * unat ?q)] @ reg_bytes (take (unat ?q) (regs_of_words [w])) @ drop ?n p"
  let ?p = "query_frame sid 0x10 ?start ?q @ ?tail"
  have n: "?n \<le> length p" using assms(6) p(2) by linarith
  have lr: "length (reg_bytes (take (unat ?q) (regs_of_words [w]))) = 2 * unat ?q"
    using assms(6) by (simp add: regs_of_words_def)
  then have lp: "length ?p = length p" using n by simp
  have p1: "?p ! 1 = 0x10" unfolding One_nat_def by (rule query_frame_1)
  have wr: "write_output_words_u32 wire_layer sid ?start ?q [w] (net_nd x) (sint (net_send_retries x)) (Some 0) ?m =
      write_transaction wire_layer ?n (net_nd x) (sint (net_send_retries x)) (Some 0) (?m\<lparr>query_buffer := Some ?p\<rparr>)"
    by (rule words_u32_request [OF p(1) assms(6) n])
  have "take ?n ?p = request sid 0x10 (?start - 1) ?q @ take (1 + 2 * unat ?q) ?tail"
  proof -
    have "take (7 + 2 * k) (r @ t) = r @ take (1 + 2 * k) t" if "length r = 6" for r t :: "u8 list" and k by (simp add: that)
    moreover have "length (request sid 0x10 (?start - 1) ?q) = 6" by (simp add: request_def be16_def)
    ultimately show ?thesis unfolding query_request by blast
  qed
  moreover have "?n \<le> length ?p" using lp n by simp
  ultimately obtain vs where vs: "layer_answers wire_layer (v, s) (net_nd x) ?p ?n (next_id ?m) [sid, 0x90, 1] ?p vs" "slave_ready sid vs"
      "io_glob (snd vs) = io_glob s" "io_gmm (snd vs) = io_gmm s"
    using wire_rejects [OF ready, of ?n ?p] by blast
  let ?m1 = "?m\<lparr>query_buffer := Some ?p, next_id := next_id ?m + 1, lower := vs\<rparr>"
  have "\<exists>rest. mb_transaction wire_layer ?n (net_nd x) (sint (net_send_retries x)) (Some 0) (?m\<lparr>query_buffer := Some ?p\<rparr>) =
      Some (-4, [sid, 0x90, 1] @ rest, map_option (\<lambda>_. 1) (Some (0 :: u8)),
        (?m\<lparr>query_buffer := Some ?p\<rparr>)\<lparr>query_buffer := Some ?p, next_id := next_id (?m\<lparr>query_buffer := Some ?p\<rparr>) + 1, lower := vs\<rparr>)"
    by (rule excepted_transaction [OF _ _ _ x _ p1]) (use vs(1) assms(2) lp n in simp_all)
  then have "write_output_words_u32 wire_layer sid ?start ?q [w] (net_nd x) (sint (net_send_retries x)) (Some 0) ?m = Some (-4, Some 1, ?m1)"
    unfolding wr by (auto simp: write_transaction_def)
  moreover obtain msgs where "log_error_msg a (-4) = (-1, a\<lparr>am_function_code := am_function_code a OR 0x80\<rparr>, msgs)"
    by (simp add: log_error_msg_def Let_def)
  ultimately have wp: "modbus_write_point wire_layer h a w =
      Some (-1, a\<lparr>am_function_code := am_function_code a OR 0x80\<rparr>, h\<lparr>mm_log := mm_log h @ msgs, mm_master := ?m1\<rparr>)"
    using assms(3-5) unfolding modbus_write_point_def Let_def function_codes by simp
  have "wire_ready sid (h\<lparr>mm_log := mm_log h @ msgs, mm_master := ?m1\<rparr>)"
    using assms(1) vs(2) lp p(2) by (simp add: wire_ready_def)
  then show ?thesis using wp vs by (intro exI [of _ "h\<lparr>mm_log := mm_log h @ msgs, mm_master := ?m1\<rparr>"]) simp
qed

lemma modbus_output_rejected_witness:
  "\<exists>a1 h1. modbus_write_point wire_layer (one_net slave_example []) (addr_zero\<lparr>am_function_code := 0x10, am_slave := 1, am_address := 1, am_count := 2\<rparr>) 5 =
      Some (-1, a1, h1) \<and> io_glob (snd (lower (mm_master h1))) = [0x12345678]"
proof -
  let ?h = "one_net slave_example []" and ?a = "addr_zero\<lparr>am_function_code := 0x10, am_slave := 1, am_address := 1, am_count := 2\<rparr>"
  have "wire_ready 1 ?h" using wire_module_ok(3) by (simp add: wire_module_def)
  moreover have "net_of ?h ?a = Some (mm_nets ?h ! 0)" by (simp add: net_of_def one_net_def get_at_def addr_zero_def)
  ultimately show ?thesis
    using modbus_output_rejected [of 1 ?h "fst slave_example" "snd slave_example" ?a "mm_nets ?h ! 0" 5]
    by (auto simp: one_net_def addr_zero_def function_codes slave_example_def)
qed

lemma slave_exceptions_witness:
  "\<exists>r. slave_answer (map_lists (snd slave_example)) [0x12345678] (io_gmm (snd slave_example)) (request 1 3 1 2 @ []) (replicate 255 0) =
      Some (r, 3, [0x12345678], io_gmm (snd slave_example)) \<and> take 3 r = [1, 0x83, 2]"
  using slave_exceptions [where reply = "replicate 255 0" and code = 2 and f = 3 and ml = "map_lists (snd slave_example)" and start = 1
    and q = 2 and glob = "[0x12345678]" and g = "io_gmm (snd slave_example)" and sid = 1 and rest = "[]"]
  by (simp add: slave_example_def)

end
