(* ===== verification/GmmInit.thy ===== *)
theory GmmInit
  imports GmmMap
begin

text \<open>
  Starting and stopping the global memory manager in a module: \<^verbatim>\<open>gmm_init\<close>,
  \<^verbatim>\<open>gmm_done\<close> and what they call in \<^verbatim>\<open>gmm.c\<close>,
  \<^verbatim>\<open>gmm_local.c\<close> and \<^verbatim>\<open>gmm_shared.c\<close>. The system calls are in the record
  \<open>gmm_env\<close>: which of them succeed, and what \<^verbatim>\<open>malloc\<close> returns.
  The isolated variant, which talks to a proxy process, is not covered.
\<close>

section \<open>Status bits\<close>

definition attached_globmap :: u16 where "attached_globmap = 0x0002"
definition attached_privmap :: u16 where "attached_privmap = 0x0004"
definition created_privmap :: u16 where "created_privmap = 0x0008"
definition malloced_privmap :: u16 where "malloced_privmap = 0x0010"
definition malloced_mapmask :: u16 where "malloced_mapmask = 0x0020"
definition attached_conf_struct :: u16 where "attached_conf_struct = 0x0100"
definition opened_globsem :: u16 where "opened_globsem = 0x0200"

lemmas status_bits = gmm_fully_initialized_def attached_globmap_def attached_privmap_def
  created_privmap_def malloced_privmap_def malloced_mapmask_def attached_conf_struct_def
  opened_globsem_def

definition gmm_set_status :: "u16 \<Rightarrow> gmm \<Rightarrow> gmm" where
  "gmm_set_status b g = g\<lparr>gmm_status := gmm_status g OR b\<rparr>"

definition gmm_rst_status :: "u16 \<Rightarrow> gmm \<Rightarrow> gmm" where
  "gmm_rst_status b g = g\<lparr>gmm_status := gmm_status g AND NOT b\<rparr>"

section \<open>The surroundings\<close>

text \<open>The contents of memory that is new to the process are given byte by byte.\<close>

record gmm_env =
  mutex_opens :: bool
  globmap_attaches :: bool
  malloc_bytes :: "nat \<Rightarrow> mem option"
  privmap_attaches :: "mem option"
  detach_fails :: bool
  mutex_close_fails :: bool

text \<open>A map in such memory: \<open>n\<close> words from a byte on, which need not be at the boundary of a word.\<close>

definition words_at :: "mem \<Rightarrow> nat \<Rightarrow> nat \<Rightarrow> u32 list" where
  "words_at bytes a n = map (\<lambda>i. rd32 bytes (a + 4 * i)) [0..<n]"

lemma words_at_length [simp]: "length (words_at bytes a n) = n"
  by (simp add: words_at_def)

lemma words_at_nth [simp]: "i < n \<Longrightarrow> words_at bytes a n ! i = rd32 bytes (a + 4 * i)"
  by (simp add: words_at_def)

definition GMM_T_BLOCK_NAME :: string where
  "GMM_T_BLOCK_NAME = ''gmm_t''"

definition sizeof_gmm_t :: nat where
  "sizeof_gmm_t = 20"

text \<open>\<^verbatim>\<open>gmm_t\<close>: magic, key, offset, size at 12, mutex id.\<close>

definition gmm_init_conf_struct :: "cmm_proc \<Rightarrow> mem \<Rightarrow> gmm \<Rightarrow> (gmm \<times> int) option" where
  "gmm_init_conf_struct p m g =
     map_option
       (\<lambda>(a, z). case a of
          None \<Rightarrow> (g, -1)
        | Some a \<Rightarrow>
            if z \<noteq> of_nat sizeof_gmm_t then (g, -1)
            else (g\<lparr>globalmap_size := rd32 m (a + 12),
                    globalmap_len := rd32 m (a + 12) div 4\<rparr>, 0))
       (cmm_block_find p m block_type_gmm_setup (Some GMM_T_BLOCK_NAME))"

section \<open>Stopping\<close>

definition clear_conf :: "gmm \<Rightarrow> gmm" where
  "clear_conf g =
     (if gmm_get_status g attached_conf_struct
      then gmm_rst_status attached_conf_struct (g\<lparr>globalmap_size := 0, globalmap_len := 0\<rparr>) else g)"

definition gmm_done_local :: "gmm_env \<Rightarrow> gmm \<Rightarrow> gmm \<times> int" where
  "gmm_done_local env g =
     (let g0 = gmm_rst_status gmm_fully_initialized g;
          g1 = (if gmm_get_status g0 created_privmap
                then gmm_rst_status created_privmap (g0\<lparr>gmm_privmap := []\<rparr>) else g0);
          g2 = (if gmm_get_status g1 attached_privmap
                then gmm_rst_status attached_privmap (g1\<lparr>gmm_privmap := []\<rparr>) else g1);
          g3 = (if gmm_get_status g2 malloced_privmap
                then gmm_rst_status malloced_privmap (g2\<lparr>gmm_privmap := [], gmm_mapmask := []\<rparr>) else g2);
          g4 = (if gmm_get_status g3 attached_globmap then gmm_rst_status attached_globmap g3 else g3);
          g5 = (if gmm_get_status g4 opened_globsem then gmm_rst_status opened_globsem g4 else g4);
          g6 = clear_conf g5;
          failed = gmm_get_status g0 created_privmap \<and> detach_fails env
            \<or> gmm_get_status g1 attached_privmap \<and> detach_fails env
            \<or> gmm_get_status g3 attached_globmap \<and> detach_fails env
            \<or> gmm_get_status g4 opened_globsem \<and> mutex_close_fails env
      in (g6, if failed then -1 else 0))"

definition gmm_done_shared :: "gmm_env \<Rightarrow> gmm \<Rightarrow> gmm \<times> int" where
  "gmm_done_shared env g =
     (let g0 = gmm_rst_status gmm_fully_initialized g;
          g1 = (if gmm_get_status g0 malloced_mapmask
                then gmm_rst_status malloced_mapmask (g0\<lparr>gmm_mapmask := []\<rparr>) else g0);
          g2 = (if gmm_get_status g1 attached_globmap
                then gmm_rst_status attached_globmap (g1\<lparr>gmm_privmap := []\<rparr>) else g1);
          g3 = clear_conf g2
      in (g3, if gmm_get_status g1 attached_globmap \<and> detach_fails env then -1 else 0))"

text \<open>\<open>None\<close> is the error function of an empty function table.\<close>

definition gmm_done :: "gmm_env \<Rightarrow> gmm \<Rightarrow> (gmm \<times> int) option" where
  "gmm_done env g =
     (let g0 = g\<lparr>gmm_module_name := None\<rparr>
      in if \<not> gmm_get_status g0 gmm_fully_initialized then Some (g0, 0)
         else map_option (map_prod (\<lambda>g. g\<lparr>gmm_mod_fns := variant_error\<rparr>) id)
           (case gmm_mod_fns g0 of
              variant_local \<Rightarrow> Some (gmm_done_local env g0)
            | variant_shared \<Rightarrow> Some (gmm_done_shared env g0)
            | variant_error \<Rightarrow> None))"

text \<open>The error exit of the init functions: its call of \<^verbatim>\<open>gmm_done\<close> comes after the
  bit that call tests has been cleared.\<close>

definition gmm_init_error :: "gmm_env \<Rightarrow> u16 \<Rightarrow> gmm \<Rightarrow> (gmm \<times> int) option" where
  "gmm_init_error env status_bit g =
     map_option (\<lambda>(g', _). (g', -1))
       (gmm_done env (gmm_rst_status gmm_fully_initialized (gmm_rst_status status_bit g)))"

section \<open>Starting\<close>

definition with_glob :: "u32 list \<Rightarrow> (gmm \<times> int) option \<Rightarrow> (u32 list \<times> gmm \<times> int) option" where
  "with_glob glob r = map_option (Pair glob) r"

text \<open>The tail of the local start: exchange the maps, then compute the mask.\<close>

definition init_local_maps ::
  "cmm_proc \<Rightarrow> mem \<Rightarrow> gmm_env \<Rightarrow> u32 list \<Rightarrow> gmm \<Rightarrow> (u32 list \<times> gmm \<times> int) option" where
  "init_local_maps p m env glob g =
     (case plc_update glob g of
        (glob', None) \<Rightarrow> None
      | (glob', Some g1) \<Rightarrow>
          (case gmm_init_mapmask p m g1 (gmm_module_name g1) (globalmap_size g1) of
             None \<Rightarrow> None
           | Some (g2, r) \<Rightarrow>
               if r < 0 then with_glob glob' (gmm_init_error env gmm_fully_initialized g2)
               else Some (glob', gmm_set_status gmm_fully_initialized g2, 0)))"

definition gmm_init_local ::
  "cmm_proc \<Rightarrow> mem \<Rightarrow> gmm_env \<Rightarrow> u32 list \<Rightarrow> gmm \<Rightarrow> int \<Rightarrow> (u32 list \<times> gmm \<times> int) option" where
  "gmm_init_local p m env glob g privmap_key =
     (if gmm_get_status g gmm_fully_initialized then Some (glob, g, -1)
      else let g0 = g\<lparr>gmm_mod_fns := variant_local\<rparr> in
        case gmm_init_conf_struct p m g0 of
          None \<Rightarrow> None
        | Some (g1, r) \<Rightarrow>
            if r < 0 then with_glob glob (gmm_init_error env attached_conf_struct g1)
            else let g2 = gmm_set_status attached_conf_struct g1 in
              if \<not> mutex_opens env then with_glob glob (gmm_init_error env opened_globsem g2)
              else let g3 = gmm_set_status opened_globsem g2 in
                if \<not> globmap_attaches env then with_glob glob (gmm_init_error env attached_globmap g3)
                else let g4 = gmm_set_status attached_globmap g3;
                         n = nat (sint (globalmap_len g4)); size = unat (globalmap_size g4)
                  in if privmap_key = 0 then
                       (case malloc_bytes env (unat (2 * globalmap_size g4)) of
                          None \<Rightarrow> with_glob glob (gmm_init_error env malloced_privmap
                                    (g4\<lparr>gmm_privmap := [], gmm_mapmask := []\<rparr>))
                        | Some bytes \<Rightarrow> init_local_maps p m env glob
                            (gmm_set_status malloced_privmap
                              (g4\<lparr>gmm_privmap := words_at bytes 0 n, gmm_mapmask := words_at bytes size n\<rparr>)))
                     else
                       (case privmap_attaches env of
                          None \<Rightarrow> with_glob glob (gmm_init_error env attached_privmap g4)
                        | Some bytes \<Rightarrow> init_local_maps p m env glob
                            (gmm_set_status attached_privmap
                              (g4\<lparr>gmm_privmap := words_at bytes 0 n, gmm_mapmask := words_at bytes size n\<rparr>))))"

definition gmm_init_shared ::
  "cmm_proc \<Rightarrow> mem \<Rightarrow> gmm_env \<Rightarrow> u32 list \<Rightarrow> gmm \<Rightarrow> (u32 list \<times> gmm \<times> int) option" where
  "gmm_init_shared p m env glob g =
     (if gmm_get_status g gmm_fully_initialized then Some (glob, g, -1)
      else let g0 = g\<lparr>gmm_mod_fns := variant_shared\<rparr> in
        case gmm_init_conf_struct p m g0 of
          None \<Rightarrow> None
        | Some (g1, r) \<Rightarrow>
            if r < 0 then with_glob glob (gmm_init_error env attached_conf_struct g1)
            else let g2 = gmm_set_status attached_conf_struct g1 in
              if \<not> globmap_attaches env then with_glob glob (gmm_init_error env attached_globmap g2)
              else let g3 = gmm_set_status attached_globmap g2 in
                case malloc_bytes env (unat (globalmap_size g3)) of
                  None \<Rightarrow> with_glob glob (gmm_init_error env malloced_mapmask (g3\<lparr>gmm_mapmask := []\<rparr>))
                | Some bytes \<Rightarrow>
                    let g4 = gmm_set_status malloced_mapmask
                          (g3\<lparr>gmm_mapmask := words_at bytes 0 (nat (sint (globalmap_len g3)))\<rparr>) in
                    (case gmm_init_mapmask p m g4 (gmm_module_name g4) (globalmap_size g4) of
                       None \<Rightarrow> None
                     | Some (g5, r) \<Rightarrow>
                         if r < 0 then with_glob glob (gmm_init_error env gmm_fully_initialized g5)
                         else Some (glob, gmm_set_status gmm_fully_initialized g5, 0)))"

section \<open>What starting and stopping do\<close>

lemmas status_simps = gmm_get_status_def gmm_set_status_def gmm_rst_status_def status_bits

lemma rst_get [simp]: "\<not> gmm_get_status (gmm_rst_status b g) b"
proof -
  have "(gmm_status g AND NOT b) AND b = 0" by (rule bit_word_eqI) (simp add: bit_simps)
  then show ?thesis by (simp add: gmm_get_status_def gmm_rst_status_def)
qed

lemma set_get [simp]: "gmm_get_status (gmm_set_status b g) b \<longleftrightarrow> b \<noteq> 0"
proof -
  have "(gmm_status g OR b) AND b = b" by (rule bit_word_eqI) (auto simp: bit_simps)
  then show ?thesis by (simp add: gmm_get_status_def gmm_set_status_def)
qed

lemma get_status_cong: "gmm_status g' = gmm_status g \<Longrightarrow> gmm_get_status g' b = gmm_get_status g b"
  by (simp add: gmm_get_status_def)

text \<open>A failing call leaves all the bits set so far, and the function table filled in.\<close>

lemma init_error_result:
  "gmm_init_error env b g = Some
     ((gmm_rst_status gmm_fully_initialized (gmm_rst_status b g))\<lparr>gmm_module_name := None\<rparr>, -1)"
proof -
  let ?g = "gmm_rst_status gmm_fully_initialized (gmm_rst_status b g)"
  have "\<not> gmm_get_status (?g\<lparr>gmm_module_name := None\<rparr>) gmm_fully_initialized"
    using rst_get by (simp add: get_status_cong [of _ ?g])
  then show ?thesis by (simp add: gmm_init_error_def gmm_done_def Let_def)
qed

lemma mapmask_returns:
  assumes "cmm_chain m bs" "cmm_fully_initialized p" "length bs < 32768"
    and "gmm_module_name g = Some s" "0 \<le> sint (globalmap_size g)"
  shows "\<exists>mm. gmm_init_mapmask p m g (gmm_module_name g) (globalmap_size g) =
    Some (g\<lparr>gmm_mapmask := mm\<rparr>, 0)"
  using mapmask_loop_result [OF assms(1-3), of 0] assms(4,5)
  by (auto simp: gmm_init_mapmask_def)

lemma conf_struct_fields:
  assumes "gmm_init_conf_struct p m g = Some (g1, 0)"
  shows "gmm_mod_fns g1 = gmm_mod_fns g" "gmm_status g1 = gmm_status g"
    "gmm_module_name g1 = gmm_module_name g"
  using assms by (auto simp: gmm_init_conf_struct_def split: option.splits if_splits)

text \<open>C37. Starting a module in the local variant exchanges the maps before the write mask has
  been computed, with the mask that \<^verbatim>\<open>malloc\<close> happened to return: wherever that memory
  has a bit set, the start overwrites the global map with uninitialised memory. It
  leaves the global map alone if the mask half of the fresh memory is all zero.\<close>

theorem gmm_init_local_uses_raw_memory:
  assumes "cmm_chain m bs" "cmm_fully_initialized p" "length bs < 32768"
    and "gmm_status g = 0" "gmm_module_name g = Some s"
    and "gmm_init_conf_struct p m (g\<lparr>gmm_mod_fns := variant_local\<rparr>) = Some (g1, 0)"
    and "mutex_opens env" "globmap_attaches env" "0 \<le> sint (globalmap_size g1)"
    and "nat (sint (globalmap_len g1)) = length glob"
    and "malloc_bytes env (unat (2 * globalmap_size g1)) = Some bytes"
  shows "\<exists>glob' g'. gmm_init_local p m env glob g 0 = Some (glob', g', 0) \<and>
    gmm_get_status g' gmm_fully_initialized \<and> gmm_privmap g' = glob' \<and>
    (\<forall>i < length glob. glob' ! i = merge_word (rd32 bytes (unat (globalmap_size g1) + 4 * i)) (glob ! i) (rd32 bytes (4 * i))) \<and>
    ((\<forall>i < length glob. rd32 bytes (unat (globalmap_size g1) + 4 * i) = 0) \<longrightarrow> glob' = glob)"
proof -
  let ?n = "length glob"
  let ?pm = "words_at bytes 0 ?n" and ?mm = "words_at bytes (unat (globalmap_size g1)) ?n"
  note cf = conf_struct_fields [OF assms(6)]
  let ?g4 = "gmm_set_status malloced_privmap ((gmm_set_status attached_globmap (gmm_set_status
    opened_globsem (gmm_set_status attached_conf_struct g1)))\<lparr>gmm_privmap := ?pm,
      gmm_mapmask := ?mm\<rparr>)"
  let ?ws = "map (\<lambda>i. merge_word (?mm ! i) (glob ! i) (?pm ! i)) [0..<?n]"
  have f: "gmm_mod_fns ?g4 = variant_local" "gmm_privmap ?g4 = ?pm"
    "gmm_mapmask ?g4 = ?mm" "globalmap_len ?g4 = globalmap_len g1"
    "globalmap_size ?g4 = globalmap_size g1" "gmm_module_name ?g4 = Some s"
    using cf assms(5) by (simp_all add: gmm_set_status_def)
  have u: "plc_update glob ?g4 = (?ws, Some (?g4\<lparr>gmm_privmap := ?ws\<rparr>))"
    using update_local_result [of ?g4 glob] f assms(10)
    by (simp add: plc_update_def Let_def)
  obtain mm where mm: "gmm_init_mapmask p m (?g4\<lparr>gmm_privmap := ?ws\<rparr>) (Some s) (globalmap_size g1) =
      Some ((?g4\<lparr>gmm_privmap := ?ws\<rparr>)\<lparr>gmm_mapmask := mm\<rparr>, 0)"
    using mapmask_returns [OF assms(1-3), of "?g4\<lparr>gmm_privmap := ?ws\<rparr>" s] f assms(9) by auto
  let ?g' = "gmm_set_status gmm_fully_initialized ((?g4\<lparr>gmm_privmap := ?ws\<rparr>)\<lparr>gmm_mapmask := mm\<rparr>)"
  have "init_local_maps p m env glob ?g4 = Some (?ws, ?g', 0)"
    using u mm f by (simp add: init_local_maps_def)
  then have "gmm_init_local p m env glob g 0 = Some (?ws, ?g', 0)"
    using assms(4,6-8,10,11) by (simp add: gmm_init_local_def Let_def gmm_get_status_def
      gmm_set_status_def)
  moreover have "gmm_get_status ?g' gmm_fully_initialized" "gmm_privmap ?g' = ?ws"
    by (simp add: gmm_fully_initialized_def) (simp add: gmm_set_status_def)
  moreover have w: "\<forall>i < ?n. ?ws ! i = merge_word (rd32 bytes (unat (globalmap_size g1) + 4 * i)) (glob ! i) (rd32 bytes (4 * i))"
    by simp
  moreover have "(\<forall>i < ?n. rd32 bytes (unat (globalmap_size g1) + 4 * i) = 0) \<longrightarrow> ?ws = glob"
    by (auto intro: nth_equalityI)
  ultimately show ?thesis by blast
qed

text \<open>A segment with the record of the manager: the first block answers to its name, and says
  eight bytes.\<close>

definition env_good :: "mem \<Rightarrow> gmm_env" where
  "env_good bytes = \<lparr>mutex_opens = True, globmap_attaches = True, malloc_bytes = (\<lambda>_. Some bytes),
     privmap_attaches = None, detach_fails = False, mutex_close_fails = False\<rparr>"

definition g_start :: gmm where
  "g_start = g_two\<lparr>gmm_status := 0, gmm_mod_fns := variant_error\<rparr>"

definition g_conf :: gmm where
  "g_conf = g_start\<lparr>gmm_mod_fns := variant_local, globalmap_size := 8, globalmap_len := 2\<rparr>"

lemma conf_struct_exists:
  "\<exists>m bs. cmm_chain m bs \<and> length bs < 32768 \<and>
     gmm_init_conf_struct p_ready m (g_start\<lparr>gmm_mod_fns := variant_local\<rparr>) =
       Some (g_conf, 0)"
proof -
  let ?s = "''gmm_t''" and ?t = "block_type_gmm_setup"
  let ?m1 = "cmm_take m_fresh 20 ?t ?s 20"
  let ?m = "wr32 ?m1 80 8"
  have u: "usable ?t ?s" by (simp add: usable_def CMM_NAME_MAX_LEN_def c_string_def)
  have sz: "(20 :: u32) \<le> blk_size m_fresh 20" by (simp add: m_fresh_def format_fields)
  have sp: "splits m_fresh 20 20" by (simp add: splits_def m_fresh_def format_fields sizeof_block_def)
  note f = take_fields [OF _ sz, where t = ?t and s = ?s, simplified]
  have ch1: "cmm_chain ?m1 [20, 88]"
    using chain_take_chain [OF fresh_chain _ sz, where t = ?t and s = ?s] sp
    by (simp add: chain_take_def rest_of_def sizeof_block_def)
  have s1: "blk_size ?m1 20 = 20" "blk_type ?m1 20 = 2" using f(1,9) sp by simp_all
  have dw: "data_write ?m1 20 ?m"
    by (auto simp: data_write_def mem_simps blk_end_def s1 sizeof_block_def)
  have ch2: "cmm_chain ?m [20, 88]" using data_write_chain [OF ch1 dw] by simp
  have "answers ?m1 ?t ?s 20"
    using take_named [OF _ sz, where t = ?t and s = ?s] s1 by (simp add: answers_def)
  moreover have hd: "agree_on ?m1 ?m 20 (20 + 48)" using data_write_hdr [OF ch1 dw, of 20] by simp
  ultimately have "answers ?m ?t ?s 20" using agree_answers_hdr [OF hd] by simp
  then have "cmm_find_mem ?m ?t ?s = Some (Some (68, 20))"
    using chain_find' [OF ch2, of ?t ?s] agree_hdr(4) [OF hd] s1 by simp
  then have "gmm_init_conf_struct p_ready ?m (g_start\<lparr>gmm_mod_fns := variant_local\<rparr>) =
       Some (g_conf, 0)"
    by (simp add: gmm_init_conf_struct_def cmm_block_find_def GMM_T_BLOCK_NAME_def ptr_and_size_def
      sizeof_gmm_t_def g_conf_def)
  then show ?thesis using ch2 by (intro exI [of _ ?m] exI [of _ "[20, 88]"]) simp
qed

definition raw_bytes :: mem where
  "raw_bytes = (\<lambda>x. if x = 0 then 9 else if x = 8 then 0xf else 0)"

lemma gmm_init_local_uses_raw_memory_witness:
  "\<exists>m glob' g'. gmm_init_local p_ready m (env_good raw_bytes) [0, 0] g_start 0 = Some (glob', g', 0)
     \<and> glob' ! 0 = 9"
proof -
  obtain m bs where m: "cmm_chain m bs" "length bs < 32768"
    "gmm_init_conf_struct p_ready m (g_start\<lparr>gmm_mod_fns := variant_local\<rparr>) =
       Some (g_conf, 0)"
    using conf_struct_exists by blast
  let ?e = "env_good raw_bytes" and ?g1 = g_conf
  have e: "gmm_status g_start = 0" "gmm_module_name g_start = Some ''m''" "mutex_opens ?e"
    "globmap_attaches ?e" "0 \<le> sint (globalmap_size ?g1)"
    "nat (sint (globalmap_len ?g1)) = length [0, 0 :: u32]"
    "malloc_bytes ?e (unat (2 * globalmap_size ?g1)) = Some raw_bytes"
    by (simp_all add: g_conf_def g_start_def g_two_def env_good_def)
  obtain glob' g' where r: "gmm_init_local p_ready m ?e [0, 0] g_start 0 = Some (glob', g', 0)"
    "\<forall>i < length [0, 0 :: u32]. glob' ! i =
       merge_word (rd32 raw_bytes (unat (globalmap_size ?g1) + 4 * i)) ([0, 0] ! i) (rd32 raw_bytes (4 * i))"
    using gmm_init_local_uses_raw_memory [OF m(1) p_ready_init m(2) e(1,2) m(3) e(3-7)] by blast
  have "glob' ! 0 = 9" using spec [OF r(2), of 0]
    by (simp add: merge_word_def rd32_def raw_bytes_def g_conf_def)
  then show ?thesis using r(1) by blast
qed

text \<open>A failing start does not undo what it did, although its comment calls it atomic: when the
  global map cannot be attached, the call reports -1, but the bits of the configuration record
  and of the mutex stay set and the function table keeps the local functions, and
  \<^verbatim>\<open>gmm_done\<close> does not release anything afterwards.\<close>

theorem gmm_init_local_leaks:
  assumes "gmm_status g = 0"
    and "gmm_init_conf_struct p m (g\<lparr>gmm_mod_fns := variant_local\<rparr>) = Some (g1, 0)"
    and "mutex_opens env" "\<not> globmap_attaches env"
  shows "\<exists>g'. gmm_init_local p m env glob g key = Some (glob, g', -1) \<and>
    gmm_mod_fns g' = variant_local \<and> gmm_status g' = attached_conf_struct OR opened_globsem \<and>
    gmm_done env g' = Some (g', 0)"
proof -
  note cf = conf_struct_fields [OF assms(2)]
  let ?g3 = "gmm_set_status opened_globsem (gmm_set_status attached_conf_struct g1)"
  let ?g = "(gmm_rst_status gmm_fully_initialized (gmm_rst_status attached_globmap ?g3))
    \<lparr>gmm_module_name := None\<rparr>"
  have "gmm_init_local p m env glob g key = Some (glob, ?g, -1)"
    using assms by (simp add: gmm_init_local_def Let_def gmm_get_status_def with_glob_def
      init_error_result)
  moreover have "gmm_mod_fns ?g = variant_local" using cf by (simp add: gmm_rst_status_def gmm_set_status_def)
  moreover have st: "gmm_status ?g = attached_conf_struct OR opened_globsem"
    using cf assms(1) by (simp add: gmm_rst_status_def gmm_set_status_def status_bits)
  moreover have "gmm_done env ?g = Some (?g, 0)"
    using st by (simp add: gmm_done_def gmm_get_status_def status_bits Let_def)
  ultimately show ?thesis by blast
qed

lemma gmm_init_local_leaks_witness:
  "\<exists>m g'. gmm_init_local p_ready m ((env_good (\<lambda>_. 0))\<lparr>globmap_attaches := False\<rparr>) [0, 0] g_start 0 =
     Some ([0, 0], g', -1) \<and> gmm_status g' = 0x300"
proof -
  obtain m bs where m: "gmm_init_conf_struct p_ready m (g_start\<lparr>gmm_mod_fns := variant_local\<rparr>) =
       Some (g_conf, 0)"
    using conf_struct_exists by blast
  have e: "gmm_status g_start = 0" "mutex_opens ((env_good (\<lambda>_. 0))\<lparr>globmap_attaches := False\<rparr>)"
    "\<not> globmap_attaches ((env_good (\<lambda>_. 0))\<lparr>globmap_attaches := False\<rparr>)"
    by (simp_all add: g_start_def env_good_def)
  from gmm_init_local_leaks [OF e(1) m e(2,3), of "[0, 0]" 0] show ?thesis
    by (auto simp: status_bits)
qed

end
