(* ===== verification/PointLine.thy ===== *)
theory PointLine
  imports GmmPoint Conffile
begin

text \<open>
  Reading the definition of one point or one alias out of the configuration:
  \<^verbatim>\<open>gmm_parse_at_parm\<close>, \<^verbatim>\<open>gmm_get_pt_by_index\<close> and
  \<^verbatim>\<open>gmm_get_pa_by_index\<close> of \<^verbatim>\<open>lib/gmm/gmm_setup.c\<close>. Messages to the log are left out.
  \<open>strtod\<close> is the C library's conversion, as the bits of the result cut to a 32-bit float,
  whether it overflowed, and what is left of the text (nothing for a text that is no number).
\<close>

section \<open>Floats\<close>

type_synonym strtod = "string \<Rightarrow> u32 \<times> bool \<times> string option"

definition f32_infinite :: "u32 \<Rightarrow> bool" where
  "f32_infinite w \<longleftrightarrow> w AND 0x7fffffff = 0x7f800000"

text \<open>With the bounds \<^verbatim>\<open>-f32_MAX\<close> and \<^verbatim>\<open>f32_MAX\<close>, which let everything pass but
  the two infinities.\<close>

definition string_str_to_f32 :: "strtod \<Rightarrow> bool \<Rightarrow> string \<Rightarrow> bool \<times> u32 option" where
  "string_str_to_f32 conv errange str =
     (case conv str of (w, overflow, rest) \<Rightarrow>
        let errange' = (errange \<or> overflow)
        in (errange', if errange' \<or> rest \<noteq> Some [] \<or> f32_infinite w then None else Some w))"

section \<open>A line\<close>

datatype init_value_t = vtype_any | vtype_u | vtype_i | vtype_f

definition CONF_POINT_SECTION :: string where "CONF_POINT_SECTION = ''PLC''"
definition CONF_POINT_NAME :: string where "CONF_POINT_NAME = ''point''"
definition CONF_POINT_ALIAS_NAME :: string where "CONF_POINT_ALIAS_NAME = ''point_alias''"
definition CONF_POINT_INIT :: string where "CONF_POINT_INIT = ''init''"
definition CONF_POINT_INIT_DEF :: u32 where "CONF_POINT_INIT_DEF = 0"
definition CONF_POINT_LENGTH_DEF :: u8 where "CONF_POINT_LENGTH_DEF = 1"

text \<open>What has been read of a line so far, with the number of the fields already seen.\<close>

record pt_line =
  pl_valid_xy :: bool
  pl_x :: i32
  pl_y :: u8
  pl_length :: u8
  pl_init :: u32
  init_value_type :: init_value_t
  at_already_parsed :: bool
  length_already_parsed :: bool
  init_value_already_parsed :: bool
  pl_errange :: bool

text \<open>The word and the bit of \<^verbatim>\<open>x.y\<close>, and whether both could be read.\<close>

definition gmm_parse_at_parm :: "string \<Rightarrow> pt_line \<Rightarrow> pt_line \<times> bool" where
  "gmm_parse_at_parm at_parm s =
     (let word = takeWhile (\<lambda>c. c \<noteq> CHR ''.'') at_parm;
          no_bit = (word = at_parm);
          tmp_str = drop (length word + 1) at_parm;
          s1 = s\<lparr>pl_length := (if no_bit then 32 else 1)\<rparr>
      in case string_str_to_i32 (pl_errange s1) (Some word) 0 2147483647 of
           (e, None) \<Rightarrow> (s1\<lparr>pl_errange := e\<rparr>, False)
         | (e, Some x) \<Rightarrow>
             let s2 = s1\<lparr>pl_errange := e, pl_x := word_of_int x\<rparr>
             in if no_bit then (s2\<lparr>pl_y := 0\<rparr>, True)
                else (case string_str_to_int (pl_errange s2) (Some tmp_str) 0 31 of
                        (e, None) \<Rightarrow> (s2\<lparr>pl_errange := e\<rparr>, False)
                      | (e, Some y) \<Rightarrow> (s2\<lparr>pl_errange := e, pl_y := word_of_int y\<rparr>, True)))"

text \<open>The location counts as given even if it could not be read.\<close>

definition parse_at :: "string \<Rightarrow> pt_line \<Rightarrow> pt_line" where
  "parse_at parm s =
     (if at_already_parsed s then s
      else if init_value_already_parsed s \<or> length_already_parsed s then s
      else let s1 = s\<lparr>at_already_parsed := True\<rparr>;
               (s2, ok) = gmm_parse_at_parm parm s1;
               s3 = (if \<not> ok then s2\<lparr>pl_valid_xy := False\<rparr> else s2)
           in s3\<lparr>pl_valid_xy := True\<rparr>)"

text \<open>One attempt to read a value: only if none before it has succeeded.\<close>

definition attempt ::
  "bool \<Rightarrow> (bool \<Rightarrow> bool \<times> u32 option) \<Rightarrow> bool \<times> u32 option \<Rightarrow> bool \<times> u32 option" where
  "attempt applies conv r =
     (case r of (e, v) \<Rightarrow> if v = None \<and> applies then conv e else (e, v))"

definition as_word :: "bool \<times> int option \<Rightarrow> bool \<times> u32 option" where
  "as_word r = map_prod id (map_option word_of_int) r"

definition parse_init :: "strtod \<Rightarrow> string \<Rightarrow> string \<Rightarrow> pt_line \<Rightarrow> pt_line" where
  "parse_init conv keyword str s =
     (if init_value_already_parsed s then s
      else let bit_mask = (if pl_length s \<noteq> 32 then NOT (push_bit (unat (pl_length s)) (- 1)) else - 1 :: u32);
               any = (init_value_type s = vtype_any);
               wide = (pl_length s = 32);
               r0 = (pl_errange s, None);
               r1 = attempt (any \<and> str = ''FALSE'') (\<lambda>e. (e, Some 0)) r0;
               r2 = attempt (any \<and> str = ''TRUE'') (\<lambda>e. (e, Some bit_mask)) r1;
               r3 = attempt ((any \<and> \<not> starts (\<lambda>c. c = CHR ''+'') keyword \<or> init_value_type s = vtype_u) \<and> wide)
                      (\<lambda>e. as_word (string_str_to_u32 e (Some str) 0 4294967295)) r2;
               r4 = attempt ((any \<or> init_value_type s = vtype_i) \<and> wide)
                      (\<lambda>e. as_word (string_str_to_i32 e (Some str) (-2147483648) 2147483647)) r3;
               r5 = attempt ((any \<or> init_value_type s = vtype_f) \<and> wide)
                      (\<lambda>e. string_str_to_f32 conv e str) r4
           in s\<lparr>init_value_already_parsed := True, pl_errange := fst r5,
                pl_init := (case snd r5 of None \<Rightarrow> pl_init s | Some v \<Rightarrow> v)\<rparr>)"

text \<open>The letters before a length, in this order; each may be there.\<close>

definition strip_type :: "char \<Rightarrow> init_value_t \<Rightarrow> string \<times> init_value_t \<Rightarrow> string \<times> init_value_t" where
  "strip_type c t r =
     (case r of (str, vt) \<Rightarrow> if starts (\<lambda>x. x = c) str then (tl str, t) else (str, vt))"

definition parse_length :: "string \<Rightarrow> pt_line \<Rightarrow> pt_line" where
  "parse_length tmp_str s =
     (if length_already_parsed s then s
      else if init_value_already_parsed s then s
      else let (tmp_len_str, vt) =
                 strip_type (CHR ''i'') vtype_i (strip_type (CHR ''u'') vtype_u
                   (strip_type (CHR ''f'') vtype_f (tmp_str, init_value_type s)));
               (e, v) = string_str_to_u32 (pl_errange s) (Some tmp_len_str) 1 32;
               len = (case v of None \<Rightarrow> pl_length s | Some v \<Rightarrow> word_of_int v);
               len' = (if 32 < unat len + unat (pl_y s) then 32 - pl_y s else len)
           in s\<lparr>length_already_parsed := True, init_value_type := vt, pl_errange := e, pl_length := len'\<rparr>)"

text \<open>The fields from the fourth on.\<close>

fun parse_fields :: "strtod \<Rightarrow> string list \<Rightarrow> pt_line \<Rightarrow> pt_line" where
  "parse_fields conv [] s = s"
| "parse_fields conv [tmp_str] s =
     (if tmp_str = ''at'' \<or> tmp_str = CONF_POINT_INIT then s else parse_length tmp_str s)"
| "parse_fields conv (tmp_str # parm # rest) s =
     (if tmp_str = ''at'' then parse_fields conv rest (parse_at parm s)
      else if tmp_str = CONF_POINT_INIT then parse_fields conv rest (parse_init conv tmp_str parm s)
      else parse_fields conv (parm # rest) (parse_length tmp_str s))"

text \<open>The fields of a row from some index on, which the code reads one by one until there is none.\<close>

definition fields_from :: "conffile \<Rightarrow> string \<Rightarrow> string \<Rightarrow> int \<Rightarrow> nat \<Rightarrow> string list" where
  "fields_from cf sect name index k =
     (case get_tableptr cf (Some sect) (Some name) of
        None \<Rightarrow> []
      | Some table \<Rightarrow> (case list_item table index of None \<Rightarrow> [] | Some row \<Rightarrow> drop k row))"

text \<open>The identifier, the full name, the owner and the rest; \<open>x\<close> is what the caller's
  variable for the offset holds.\<close>

definition gmm_get_pt_by_index ::
  "strtod \<Rightarrow> conffile \<Rightarrow> int \<Rightarrow> i32 \<Rightarrow> bool \<Rightarrow> (string \<times> string \<times> string \<times> pt_line) option" where
  "gmm_get_pt_by_index conv cf index x errange =
     (let rowlen = conffile_get_table_rowlen_sec cf (Some CONF_POINT_SECTION) (Some CONF_POINT_NAME) index;
          cell = conffile_get_table_sec cf (Some CONF_POINT_SECTION) (Some CONF_POINT_NAME) index
      in if rowlen < 3 \<or> 8 < rowlen then None
         else case (cell 0, cell 1, cell 2) of
                (Some pt_id, Some full_name, Some owner) \<Rightarrow>
                  Some (pt_id, full_name, owner,
                    parse_fields conv (fields_from cf CONF_POINT_SECTION CONF_POINT_NAME index 3)
                      \<lparr>pl_valid_xy = False, pl_x = x, pl_y = 0, pl_length = CONF_POINT_LENGTH_DEF,
                       pl_init = CONF_POINT_INIT_DEF, init_value_type = vtype_any,
                       at_already_parsed = False, length_already_parsed = False,
                       init_value_already_parsed = False, pl_errange = errange\<rparr>)
              | _ \<Rightarrow> None)"

text \<open>The alias, the original, the bit and the length, 0 for the length of the original. The
  second component is the new \<^verbatim>\<open>errno\<close>.\<close>

definition gmm_get_pa_by_index ::
  "conffile \<Rightarrow> int \<Rightarrow> bool \<Rightarrow> (string option \<times> string option \<times> string option \<times> u8 \<times> u8) option \<times> bool" where
  "gmm_get_pa_by_index cf index e =
     (let rowlen = conffile_get_table_rowlen_sec cf (Some CONF_POINT_SECTION) (Some CONF_POINT_ALIAS_NAME) index;
          cell = conffile_get_table_sec cf (Some CONF_POINT_SECTION) (Some CONF_POINT_ALIAS_NAME) index;
          num = conffile_get_table_sec_u32 cf
      in if rowlen < 3 \<or> 5 < rowlen then (None, e)
         else let (e1, b, r1) = (if 3 < rowlen
                    then num e (Some CONF_POINT_SECTION) (Some CONF_POINT_ALIAS_NAME) index 3 0 31 0
                    else (e, 0, 0));
                  len0 = (if rowlen = 3 then 0 else 1)
              in if r1 < 0 then (None, e1)
                 else let (e2, l, r2) = (if 4 < rowlen
                            then num e1 (Some CONF_POINT_SECTION) (Some CONF_POINT_ALIAS_NAME) index 4 1 32 len0
                            else (e1, len0, 0))
                      in (Some (cell 0, cell 1, cell 2, word_of_int b, word_of_int l), e2))"

section \<open>What is read fits\<close>

text \<open>Location and length lie in one word, and the value in the length.\<close>

definition line_fits :: "pt_line \<Rightarrow> bool" where
  "line_fits s \<longleftrightarrow> 1 \<le> unat (pl_length s) \<and> unat (pl_y s) + unat (pl_length s) \<le> 32
     \<and> take_bit (unat (pl_length s)) (pl_init s) = pl_init s"

definition line_ok :: "pt_line \<Rightarrow> bool" where
  "line_ok s \<longleftrightarrow> line_fits s \<and> (\<not> at_already_parsed s \<longrightarrow> pl_y s = 0)
     \<and> (\<not> init_value_already_parsed s \<longrightarrow> pl_init s = 0)"

lemma str_to_i32_range:
  "string_str_to_i32 e (Some t) mn mx = (e', Some v) \<Longrightarrow> mn \<le> v \<and> v \<le> mx"
  "string_str_to_int e (Some t) mn mx = (e', Some v) \<Longrightarrow> mn \<le> v \<and> v \<le> mx"
  "string_str_to_u32 e (Some t) mn mx = (e', Some v) \<Longrightarrow> mn \<le> v \<and> v \<le> mx"
  by (auto simp: string_str_to_i32_def string_str_to_int_def string_str_to_u32_def str_to_type_def Let_def
    split: prod.splits if_splits)

lemma unat_word_of_int_u8: "0 \<le> v \<Longrightarrow> v < 256 \<Longrightarrow> unat (word_of_int v :: u8) = nat v"
  by (simp add: unat_eq_nat_uint uint_word_of_int)

lemma bit_range: "string_str_to_int e (Some t) 0 31 = (e', Some v) \<Longrightarrow> unat (word_of_int v :: u8) \<le> 31"
  using str_to_i32_range(2) [of e t 0 31 e' v] by (simp add: unat_word_of_int_u8 nat_le_iff)

lemma at_parm_fields:
  assumes "gmm_parse_at_parm parm s = (s', ok)"
  shows "pl_init s' = pl_init s" "at_already_parsed s' = at_already_parsed s"
    "init_value_already_parsed s' = init_value_already_parsed s"
    "pl_length s' = 32 \<and> (pl_y s' = pl_y s \<or> pl_y s' = 0) \<or>
     pl_length s' = 1 \<and> (pl_y s' = pl_y s \<or> unat (pl_y s') \<le> 31)"
proof -
  define w where "w = takeWhile (\<lambda>c. c \<noteq> CHR ''.'') parm"
  define t where "t = drop (Suc (length w)) parm"
  obtain e x where x: "string_str_to_i32 (pl_errange s) (Some w) 0 2147483647 = (e, x)" by force
  obtain e' y where y: "string_str_to_int e (Some t) 0 31 = (e', y)" by force
  have yr: "y = Some v \<Longrightarrow> unat (word_of_int v :: u8) \<le> 31" for v using y bit_range by blast
  have *: "gmm_parse_at_parm parm s =
    (let s1 = s\<lparr>pl_length := (if w = parm then 32 else 1)\<rparr> in
     case x of None \<Rightarrow> (s1\<lparr>pl_errange := e\<rparr>, False)
     | Some x \<Rightarrow> let s2 = s1\<lparr>pl_errange := e, pl_x := word_of_int x\<rparr>
        in if w = parm then (s2\<lparr>pl_y := 0\<rparr>, True)
           else (case y of None \<Rightarrow> (s2\<lparr>pl_errange := e'\<rparr>, False)
                 | Some y \<Rightarrow> (s2\<lparr>pl_errange := e', pl_y := word_of_int y\<rparr>, True)))"
    using x y by (simp add: gmm_parse_at_parm_def w_def [symmetric] t_def [symmetric] Let_def
      split: option.split)
  note a = assms [unfolded *]
  show "pl_init s' = pl_init s" "at_already_parsed s' = at_already_parsed s"
    "init_value_already_parsed s' = init_value_already_parsed s"
    "pl_length s' = 32 \<and> (pl_y s' = pl_y s \<or> pl_y s' = 0) \<or>
     pl_length s' = 1 \<and> (pl_y s' = pl_y s \<or> unat (pl_y s') \<le> 31)"
    by (cases x; cases "w = parm"; cases y; use a yr in \<open>force simp: Let_def\<close>)+
qed

lemma parse_at_ok: "line_ok s \<Longrightarrow> line_ok (parse_at parm s)"
proof -
  assume ok: "line_ok s"
  show ?thesis
  proof (cases "at_already_parsed s \<or> init_value_already_parsed s \<or> length_already_parsed s")
    case True
    then show ?thesis using ok by (auto simp: parse_at_def)
  next
    case False
    obtain s' b where s': "gmm_parse_at_parm parm (s\<lparr>at_already_parsed := True\<rparr>) = (s', b)" by force
    then have p: "parse_at parm s = s'\<lparr>pl_valid_xy := True\<rparr>"
      using False by (auto simp: parse_at_def Let_def)
    have z: "pl_y s = 0" "pl_init s = 0" using ok False by (simp_all add: line_ok_def)
    note f = at_parm_fields [OF s']
    show ?thesis using f z unfolding p by (auto simp: line_ok_def line_fits_def)
  qed
qed

lemma parse_length_ok: "line_ok s \<Longrightarrow> line_ok (parse_length str s)"
proof -
  assume ok: "line_ok s"
  show ?thesis
  proof (cases "length_already_parsed s \<or> init_value_already_parsed s")
    case True
    then show ?thesis using ok by (auto simp: parse_length_def)
  next
    case False
    obtain t vt where t: "strip_type (CHR ''i'') vtype_i (strip_type (CHR ''u'') vtype_u
        (strip_type (CHR ''f'') vtype_f (str, init_value_type s))) = (t, vt)" by force
    obtain e v where v: "string_str_to_u32 (pl_errange s) (Some t) 1 32 = (e, v)" by force
    define len where "len = (case v of None \<Rightarrow> pl_length s | Some v \<Rightarrow> word_of_int v)"
    define len' where "len' = (if 32 < unat len + unat (pl_y s) then 32 - pl_y s else len)"
    have p: "parse_length str s = s\<lparr>length_already_parsed := True, init_value_type := vt,
        pl_errange := e, pl_length := len'\<rparr>"
      using False t v by (simp add: parse_length_def len'_def len_def)
    have y: "unat (pl_y s) \<le> 31" "1 \<le> unat (pl_length s)" "unat (pl_length s) \<le> 32" "pl_init s = 0"
      using ok False by (auto simp: line_ok_def line_fits_def)
    have len: "1 \<le> unat len \<and> unat len \<le> 32"
    proof (cases v)
      case None
      then show ?thesis using y by (simp add: len_def)
    next
      case (Some x)
      then have "1 \<le> x \<and> x \<le> 32" using v str_to_i32_range(3) by blast
      then have "unat (word_of_int x :: u8) = nat x" "1 \<le> nat x" "nat x \<le> 32"
        by (simp add: unat_word_of_int_u8, linarith, linarith)
      then show ?thesis using Some by (simp add: len_def)
    qed
    have "pl_y s \<le> 32" using y(1) by (simp add: word_le_nat_alt)
    then have "unat (32 - pl_y s) = 32 - unat (pl_y s)" by (subst unat_sub) simp_all
    then have "1 \<le> unat len' \<and> unat (pl_y s) + unat len' \<le> 32"
      using len y(1) by (auto simp: len'_def)
    then show ?thesis using ok y(4) unfolding p by (auto simp: line_ok_def line_fits_def)
  qed
qed

lemma attempt_cases: "snd (attempt b f r) = snd r \<or> b \<and> (\<exists>e. attempt b f r = f e)"
  by (cases r) (auto simp: attempt_def)

lemma init_mask_fits: "unat l < 32 \<Longrightarrow> take_bit (unat (l :: u8)) (NOT (push_bit (unat l) (- 1)) :: u32)
    = NOT (push_bit (unat l) (- 1))"
  by (rule bit_word_eqI) (auto simp: bit_take_bit_iff bit_not_iff bit_push_bit_iff)

lemma parse_init_ok: "line_ok s \<Longrightarrow> line_ok (parse_init conv kw str s)"
proof -
  assume ok: "line_ok s"
  show ?thesis
  proof (cases "init_value_already_parsed s")
    case True
    then show ?thesis using ok by (simp add: parse_init_def)
  next
    case False
    let ?mask = "if pl_length s \<noteq> 32 then NOT (push_bit (unat (pl_length s)) (- 1)) else - 1 :: u32"
    obtain r where r: "pl_init (parse_init conv kw str s) = (case r of None \<Rightarrow> pl_init s | Some v \<Rightarrow> v)"
      and c: "r = None \<or> r = Some 0 \<or> r = Some ?mask \<or> pl_length s = 32"
    proof -
      let ?any = "init_value_type s = vtype_any" and ?wide = "pl_length s = 32"
      define r1 where "r1 = attempt (?any \<and> str = ''FALSE'') (\<lambda>e. (e, Some 0)) (pl_errange s, None)"
      define r2 where "r2 = attempt (?any \<and> str = ''TRUE'') (\<lambda>e. (e, Some ?mask)) r1"
      define r3 where "r3 = attempt ((?any \<and> \<not> starts (\<lambda>c. c = CHR ''+'') kw \<or> init_value_type s = vtype_u) \<and> ?wide)
                      (\<lambda>e. as_word (string_str_to_u32 e (Some str) 0 4294967295)) r2"
      define r4 where "r4 = attempt ((?any \<or> init_value_type s = vtype_i) \<and> ?wide)
                      (\<lambda>e. as_word (string_str_to_i32 e (Some str) (-2147483648) 2147483647)) r3"
      define r5 where "r5 = attempt ((?any \<or> init_value_type s = vtype_f) \<and> ?wide)
                      (\<lambda>e. string_str_to_f32 conv e str) r4"
      have "pl_init (parse_init conv kw str s) = (case snd r5 of None \<Rightarrow> pl_init s | Some v \<Rightarrow> v)"
        using False by (simp add: parse_init_def r1_def r2_def r3_def r4_def r5_def Let_def)
      moreover have "snd r1 = None \<or> snd r1 = Some 0" by (simp add: r1_def attempt_def)
      then have "snd r2 = None \<or> snd r2 = Some 0 \<or> snd r2 = Some ?mask"
        using attempt_cases [of "?any \<and> str = ''TRUE''" "\<lambda>e. (e, Some ?mask)" r1] unfolding r2_def
        by fastforce
      moreover have "snd r3 = snd r2 \<or> ?wide" "snd r4 = snd r3 \<or> ?wide" "snd r5 = snd r4 \<or> ?wide"
        unfolding r3_def r4_def r5_def using attempt_cases by blast+
      ultimately show ?thesis using that [of "snd r5"] by metis
    qed
    have f: "pl_length (parse_init conv kw str s) = pl_length s" "pl_y (parse_init conv kw str s) = pl_y s"
      "at_already_parsed (parse_init conv kw str s) = at_already_parsed s"
      "init_value_already_parsed (parse_init conv kw str s)"
      using False by (simp_all add: parse_init_def Let_def)
    have len: "unat (pl_length s) \<le> 32" using ok by (simp add: line_ok_def line_fits_def)
    have "take_bit (unat (pl_length s)) v = v" if "r = Some v" for v
    proof (cases "pl_length s = 32")
      case True
      then show ?thesis by (simp add: take_bit_word_eq_self)
    next
      case l: False
      then have "unat (pl_length s) \<noteq> 32" by (auto simp: word_unat_eq_iff)
      then show ?thesis using that c l len init_mask_fits [of "pl_length s"] by auto
    qed
    then show ?thesis using ok f r by (auto simp: line_ok_def line_fits_def split: option.splits)
  qed
qed

lemma parse_fields_ok: "line_ok s \<Longrightarrow> line_ok (parse_fields conv fs s)"
  by (induction conv fs s rule: parse_fields.induct)
    (simp_all add: parse_at_ok parse_init_ok parse_length_ok)

lemma point_line_fits:
  assumes "gmm_get_pt_by_index conv cf index x e = Some (pt_id, full_name, owner, s)"
  shows "line_fits s"
proof -
  have "line_ok (parse_fields conv fs \<lparr>pl_valid_xy = False, pl_x = x, pl_y = 0, pl_length = CONF_POINT_LENGTH_DEF,
       pl_init = CONF_POINT_INIT_DEF, init_value_type = vtype_any, at_already_parsed = False,
       length_already_parsed = False, init_value_already_parsed = False, pl_errange = e\<rparr>)" for fs
    by (rule parse_fields_ok) (simp add: line_ok_def line_fits_def CONF_POINT_LENGTH_DEF_def CONF_POINT_INIT_DEF_def)
  then show ?thesis using assms
    by (auto simp: gmm_get_pt_by_index_def Let_def line_ok_def split: option.splits if_splits)
qed

text \<open>C33. Whatever the line of a point says, the point that is read has at least one bit, does not
  reach into the next word, and its initial value fits in its length.\<close>

theorem gmm_point_line_fits:
  assumes "gmm_get_pt_by_index conv cf index x e = Some (pt_id, full_name, owner, s)"
  shows "line_fits s"
  using assms by (rule point_line_fits)

text \<open>A conversion that takes no text for a number, and a configuration with one point.\<close>

definition no_strtod :: strtod where
  "no_strtod str = (0, False, None)"

definition cf_lamp :: "string list \<Rightarrow> conffile" where
  "cf_lamp row = \<lparr>conffile_module_name = Some ''PLC'', cf_vars = Some [], cf_recs = Some [(''PLC:point'', [row])],
     cf_files = Some []\<rparr>"

lemma lamp_row:
  "get_tableptr (cf_lamp row) (Some ''PLC'') (Some ''point'') = Some [row]"
  by (simp add: cf_lamp_def get_tableptr_def strdup3_def dict_get_def bsearch.simps)

lemma lamp_line:
  assumes "3 \<le> length row" "length row \<le> 8"
  shows "\<exists>s. gmm_get_pt_by_index conv (cf_lamp row) 0 0 False = Some (row ! 0, row ! 1, row ! 2, s)"
proof -
  obtain a b c rest where "row = a # b # c # rest"
    using assms(1) by (metis Suc_le_length_iff numeral_3_eq_3)
  then show ?thesis using assms(2)
    by (simp add: gmm_get_pt_by_index_def conffile_get_table_rowlen_sec_def conffile_get_table_sec_def
      CONF_POINT_SECTION_def CONF_POINT_NAME_def lamp_row list_item_def list_len_def Let_def)
qed

lemma gmm_point_line_fits_witness:
  "\<exists>s. gmm_get_pt_by_index no_strtod (cf_lamp [''lamp'', ''a lamp'', ''io'', ''at'', ''2.5'', ''40'']) 0 0 False
     = Some (''lamp'', ''a lamp'', ''io'', s) \<and> line_fits s"
proof -
  obtain s where s: "gmm_get_pt_by_index no_strtod (cf_lamp [''lamp'', ''a lamp'', ''io'', ''at'', ''2.5'', ''40'']) 0 0 False
     = Some (''lamp'', ''a lamp'', ''io'', s)"
    using lamp_line [of "[''lamp'', ''a lamp'', ''io'', ''at'', ''2.5'', ''40'']" no_strtod] by auto
  then show ?thesis using gmm_point_line_fits [OF s] by blast
qed

text \<open>A location that cannot be read counts as given, although it is reported as ignored: the point
  gets the offset that the caller's variable happens to hold, that of the point before it.\<close>

theorem gmm_bad_location_is_used:
  "\<exists>s. gmm_get_pt_by_index conv (cf_lamp [''lamp'', ''a lamp'', ''io'', ''at'', ''top'']) 0 x e
     = Some (''lamp'', ''a lamp'', ''io'', s) \<and> pl_valid_xy s \<and> pl_x s = x"
proof -
  have "\<exists>e'. string_str_to_i32 e (Some ''top'') 0 2147483647 = (e', None)"
    by (auto simp: string_str_to_i32_def c_strtol_def strto_parse_def str_to_type_def is_space_def Let_def
      in_base_def digit_of_def split: option.splits prod.splits)
  then obtain e' where e: "string_str_to_i32 e (Some ''top'') 0 2147483647 = (e', None)" by blast
  have "takeWhile (\<lambda>c. c \<noteq> CHR ''.'') ''top'' = ''top''" by simp
  then show ?thesis using e
    by (simp add: gmm_get_pt_by_index_def conffile_get_table_rowlen_sec_def conffile_get_table_sec_def
      CONF_POINT_SECTION_def CONF_POINT_NAME_def lamp_row list_item_def list_len_def Let_def
      fields_from_def parse_at_def gmm_parse_at_parm_def)
qed

end
