(* ===== verification/GmmLoad.thy ===== *)
theory GmmLoad
  imports GmmInit PointLine
begin

text \<open>
  Loading the configured points and aliases into the segment:
  \<^verbatim>\<open>gmm_find_location_for_pt\<close>, \<^verbatim>\<open>gmm_load_points_in_confmap\<close>,
  \<^verbatim>\<open>gmm_load_pointsalias_in_confmap\<close> and \<^verbatim>\<open>gmm_load_confmap\<close> of
  \<^verbatim>\<open>lib/gmm/gmm_setup.c\<close>. While it loads, the module's private map marks the bits that are
  taken. The main theorem is that no two points loaded share a bit.
\<close>

section \<open>A free location\<close>

definition loc_is_free :: "u32 list \<Rightarrow> gmm \<Rightarrow> u8 \<Rightarrow> i32 \<times> u8 \<Rightarrow> bool" where
  "loc_is_free glob g len loc =
     (case plc_pt_by_loc g (fst loc) (snd loc) len of
        None \<Rightarrow> False
      | Some p \<Rightarrow> pt_valid p \<and> plc_get glob g p = Some 0)"

definition gmm_find_location_for_pt :: "u32 list \<Rightarrow> gmm \<Rightarrow> u8 \<Rightarrow> (i32 \<times> u8) option" where
  "gmm_find_location_for_pt glob g len =
     (if \<not> gmm_get_status g gmm_fully_initialized then None
      else if 32 < len then None
      else find (loc_is_free glob g len)
             [(of_nat ofs_scan, of_nat bit_scan).
                ofs_scan \<leftarrow> [0..<nat (sint (globalmap_len g))], bit_scan \<leftarrow> [0..<33 - unat len]])"

section \<open>One point\<close>

record load =
  ld_mem :: mem
  ld_glob :: "u32 list"
  ld_gmm :: gmm
  ld_ofs :: i32
  ld_errange :: bool

definition mask_all_1 :: u32 where
  "mask_all_1 = - 1"

text \<open>Storing the initial value through the module's own handle, then marking the point. The
  second component says whether the point stays.\<close>

definition init_point ::
  "cmm_proc \<Rightarrow> string \<Rightarrow> plc_pt \<Rightarrow> u32 \<Rightarrow> load \<Rightarrow> (load \<times> bool) option" where
  "init_point p pt_id q init_value l =
     (let g1 = fst (gmm_set_pt_w_perm (ld_gmm l) q);
          (glob2, g2) = (case plc_set (ld_glob l) g1 q init_value of
                           None \<Rightarrow> (ld_glob l, g1) | Some s \<Rightarrow> s)
      in case plc_update_pt glob2 g2 q of
           (glob3, None) \<Rightarrow> None
         | (glob3, Some g3) \<Rightarrow>
             let l3 = l\<lparr>ld_glob := glob3, ld_gmm := g3\<rparr>;
                 removed = map_option (\<lambda>(m, _). (l3\<lparr>ld_mem := m\<rparr>, False))
                             (gmm_remove_pt_cmm p (ld_mem l) (Some pt_id))
             in if plc_get glob3 g3 q \<noteq> Some init_value then removed
                else case plc_set glob3 g3 q mask_all_1 of
                       None \<Rightarrow> removed
                     | Some (glob4, g4) \<Rightarrow> Some (l3\<lparr>ld_glob := glob4, ld_gmm := g4\<rparr>, True))"

text \<open>The checks in the order of the code. The second component is the handle of a point that was
  inserted, with its initial value.\<close>

definition insert_point ::
  "cmm_proc \<Rightarrow> string \<Rightarrow> string \<Rightarrow> u8 \<Rightarrow> u8 \<Rightarrow> u32 \<Rightarrow> load \<Rightarrow> (load \<times> (plc_pt \<times> u32) option) option" where
  "insert_point p pt_id owner bitno len init_value l =
     (case plc_pt_by_name p (ld_mem l) (ld_gmm l) pt_id of
        None \<Rightarrow> None
      | Some old \<Rightarrow>
          if pt_valid old then Some (l, None)
          else case plc_pt_by_loc (ld_gmm l) (ld_ofs l) bitno len of
                 None \<Rightarrow> None
               | Some q \<Rightarrow>
                   if \<not> pt_valid q then Some (l, None)
                   else if plc_get (ld_glob l) (ld_gmm l) q \<noteq> Some 0 then Some (l, None)
                   else case gmm_insert_pt_cmm p (ld_mem l) (Some pt_id) owner (ld_ofs l) bitno len of
                          None \<Rightarrow> None
                        | Some (m, r) \<Rightarrow>
                            if r < 0 then Some (l\<lparr>ld_mem := m\<rparr>, None)
                            else map_option (\<lambda>(l', stays). (l', if stays then Some (q, init_value) else None))
                                   (init_point p pt_id q init_value (l\<lparr>ld_mem := m\<rparr>)))"

text \<open>The body of the loop over the configured points.\<close>

definition load_point ::
  "strtod \<Rightarrow> conffile \<Rightarrow> cmm_proc \<Rightarrow> bool \<Rightarrow> int \<Rightarrow> load \<Rightarrow> (load \<times> (plc_pt \<times> u32) option) option" where
  "load_point conv cf p fixed_location index l =
     (case gmm_get_pt_by_index conv cf index (ld_ofs l) (ld_errange l) of
        None \<Rightarrow> Some (l, None)
      | Some (pt_id, full_name, owner, s) \<Rightarrow>
          let l1 = l\<lparr>ld_ofs := pl_x s, ld_errange := pl_errange s\<rparr>
          in if \<not> fixed_location \<and> pl_valid_xy s then Some (l1, None)
             else if fixed_location \<and> \<not> pl_valid_xy s then Some (l1, None)
             else if pl_valid_xy s
             then insert_point p pt_id owner (pl_y s) (pl_length s) (pl_init s) l1
             else case gmm_find_location_for_pt (ld_glob l1) (ld_gmm l1) (pl_length s) of
                    None \<Rightarrow> Some (l1, None)
                  | Some (ofs, bitno) \<Rightarrow>
                      insert_point p pt_id owner bitno (pl_length s) (pl_init s) (l1\<lparr>ld_ofs := ofs\<rparr>))"

section \<open>All points\<close>

fun load_each ::
  "strtod \<Rightarrow> conffile \<Rightarrow> cmm_proc \<Rightarrow> bool \<Rightarrow> int list \<Rightarrow> load \<Rightarrow> (load \<times> (plc_pt \<times> u32) list) option" where
  "load_each conv cf p fixed [] l = Some (l, [])"
| "load_each conv cf p fixed (index # rest) l =
     (case load_point conv cf p fixed index l of
        None \<Rightarrow> None
      | Some (l1, r) \<Rightarrow>
          map_option (\<lambda>(l2, ps). (l2, case r of None \<Rightarrow> ps | Some q \<Rightarrow> q # ps))
            (load_each conv cf p fixed rest l1))"

text \<open>The points that are already there are marked first.\<close>

partial_function (option) mark_points ::
  "cmm_proc \<Rightarrow> mem \<Rightarrow> int \<Rightarrow> u32 list \<Rightarrow> gmm \<Rightarrow> (u32 list \<times> gmm) option" where
  "mark_points p m index glob g =
     (case plc_pt_by_index_local p m (globalmap_len g) index of
        None \<Rightarrow> None
      | Some (q, names) \<Rightarrow>
          if \<not> pt_valid q then Some (glob, g)
          else (case plc_set glob g q mask_all_1 of
                  None \<Rightarrow> mark_points p m (index + 1) glob g
                | Some (glob', g') \<Rightarrow> mark_points p m (index + 1) glob' g'))"

definition gmm_load_points_in_confmap ::
  "strtod \<Rightarrow> conffile \<Rightarrow> cmm_proc \<Rightarrow> bool \<Rightarrow> load \<Rightarrow> (load \<times> (plc_pt \<times> u32) list) option" where
  "gmm_load_points_in_confmap conv cf p fixed l =
     (case mark_points p (ld_mem l) 0 (ld_glob l) (ld_gmm l) of
        None \<Rightarrow> None
      | Some (glob, g) \<Rightarrow>
          load_each conv cf p fixed
            [0..conffile_get_table_rows_sec cf (Some CONF_POINT_SECTION) (Some CONF_POINT_NAME) - 1]
            (l\<lparr>ld_glob := glob, ld_gmm := g, ld_ofs := 0\<rparr>))"

section \<open>Aliases\<close>

definition load_alias :: "conffile \<Rightarrow> cmm_proc \<Rightarrow> int \<Rightarrow> load \<Rightarrow> load option" where
  "load_alias cf p index l =
     (case gmm_get_pa_by_index cf index (ld_errange l) of
        (None, e) \<Rightarrow> Some (l\<lparr>ld_errange := e\<rparr>)
      | (Some (alias_id, full_name, org_id, bitno, len), e) \<Rightarrow>
          let l1 = l\<lparr>ld_errange := e\<rparr> in
          case (alias_id, org_id) of
            (Some alias_id, Some org_id) \<Rightarrow>
              (case plc_pt_by_name p (ld_mem l1) (ld_gmm l1) alias_id of
                 None \<Rightarrow> None
               | Some old \<Rightarrow>
                   if pt_valid old then Some l1
                   else case plc_pt_by_name p (ld_mem l1) (ld_gmm l1) org_id of
                          None \<Rightarrow> None
                        | Some q \<Rightarrow>
                            if \<not> pt_valid q then Some l1
                            else let len' = (if len = 0 then pt_length q else len)
                                 in case plc_subpt (ld_gmm l1) q bitno len' of
                                      None \<Rightarrow> None
                                    | Some q' \<Rightarrow>
                                        if \<not> pt_valid q' then Some l1
                                        else map_option (\<lambda>(m, _). l1\<lparr>ld_mem := m\<rparr>)
                                          (gmm_insert_pt_cmm p (ld_mem l1) (Some alias_id) []
                                            (pt_ofs q') (pt_shift q') len'))
          | _ \<Rightarrow> None)"

fun load_aliases :: "conffile \<Rightarrow> cmm_proc \<Rightarrow> int list \<Rightarrow> load \<Rightarrow> load option" where
  "load_aliases cf p [] l = Some l"
| "load_aliases cf p (index # rest) l =
     (case load_alias cf p index l of None \<Rightarrow> None | Some l' \<Rightarrow> load_aliases cf p rest l')"

definition gmm_load_pointsalias_in_confmap :: "conffile \<Rightarrow> cmm_proc \<Rightarrow> load \<Rightarrow> load option" where
  "gmm_load_pointsalias_in_confmap cf p l =
     load_aliases cf p
       [0..conffile_get_table_rows_sec cf (Some CONF_POINT_SECTION) (Some CONF_POINT_ALIAS_NAME) - 1] l"

text \<open>First the points with a location, then the others, then the aliases. The result lists the points
  that were inserted, with their initial values.\<close>

definition gmm_load_confmap ::
  "strtod \<Rightarrow> conffile \<Rightarrow> cmm_proc \<Rightarrow> load \<Rightarrow> (load \<times> (plc_pt \<times> u32) list) option" where
  "gmm_load_confmap conv cf p l =
     (case gmm_load_points_in_confmap conv cf p True l of
        None \<Rightarrow> None
      | Some (l1, ps1) \<Rightarrow>
          (case gmm_load_points_in_confmap conv cf p False l1 of
             None \<Rightarrow> None
           | Some (l2, ps2) \<Rightarrow>
               map_option (\<lambda>l3. (l3, ps1 @ ps2)) (gmm_load_pointsalias_in_confmap cf p l2)))"

section \<open>Initialising a point\<close>

definition in_pt :: "plc_pt \<Rightarrow> nat \<Rightarrow> nat \<Rightarrow> bool" where
  "in_pt q i n \<longleftrightarrow> i = unat (pt_ofs q) \<and> bit (pt_mask q) n"

text \<open>The module's view between two steps: local variant, running, maps of one size.\<close>

definition loading :: "i32 \<Rightarrow> load \<Rightarrow> bool" where
  "loading len l \<longleftrightarrow> maps_ok (ld_glob l) (ld_gmm l) \<and> gmm_mod_fns (ld_gmm l) = variant_local
     \<and> gmm_get_status (ld_gmm l) gmm_fully_initialized \<and> globalmap_len (ld_gmm l) = len"

lemma loading_lengths:
  "loading len l \<Longrightarrow> length (ld_glob l) = nat (sint len) \<and> length (gmm_privmap (ld_gmm l)) = nat (sint len)
     \<and> length (gmm_mapmask (ld_gmm l)) = nat (sint len)"
  by (auto simp: loading_def maps_ok_def)

lemma ofs_in_map: "pt_wf len q \<Longrightarrow> unat (pt_ofs q) < nat (sint len)"
  using pt_wf_bounds(2,3) [of len q] sint_nonneg_unat [of "pt_ofs q"] by linarith

lemma mask_all [simp]: "x AND y OR NOT y AND x = x" for x y :: u32
  by (rule bit_word_eqI) (auto simp: bits)

lemma init_point_effect:
  assumes ld: "loading len l" and wf: "pt_wf len q" and fits: "take_bit (unat (pt_length q)) v = v"
  shows "\<exists>l'. init_point p pt_id q v l = Some (l', True) \<and> loading len l' \<and> ld_mem l' = ld_mem l
    \<and> (\<forall>i n. bit (ld_glob l' ! i) n = (if in_pt q i n then bit v (n - unat (pt_shift q)) else bit (ld_glob l ! i) n))
    \<and> (\<forall>i n. bit (gmm_privmap (ld_gmm l') ! i) n = (in_pt q i n \<or> bit (gmm_privmap (ld_gmm l) ! i) n))"
proof -
  define i where "i = unat (pt_ofs q)"
  define k where "k = pt_mask q"
  define sh where "sh = unat (pt_shift q)"
  define g where "g = ld_gmm l"
  define P where "P = gmm_privmap g ! i"
  define G where "G = ld_glob l ! i"
  have il: "i < length (ld_glob l)" "i < length (gmm_privmap g)" "i < length (gmm_mapmask g)"
    using ofs_in_map [OF wf] loading_lengths [OF ld] by (simp_all add: i_def g_def)
  have mg: "pt_magic q = PT_MAGIC" by (rule wf_magic [OF wf])
  have lv: "gmm_mod_fns g = variant_local" "gmm_get_status g gmm_fully_initialized"
    using ld by (simp_all add: loading_def g_def)
  define g1 where "g1 = g\<lparr>gmm_mapmask := (gmm_mapmask g)[i := gmm_mapmask g ! i OR k]\<rparr>"
  define w where "w = (P AND NOT k) OR (push_bit sh v AND k)"
  define w' where "w' = (G AND NOT k) OR (push_bit sh v AND k)"
  have kk: "k AND (gmm_mapmask g ! i OR k) = k" "(gmm_mapmask g ! i OR k) AND k = k"
    by (rule bit_word_eqI; auto simp: bits)+
  have s1: "fst (gmm_set_pt_w_perm g q) = g1"
    using lv by (simp add: gmm_set_pt_w_perm_def g1_def i_def k_def Let_def)
  define g2 where "g2 = g1\<lparr>gmm_privmap := (gmm_privmap g)[i := w]\<rparr>"
  have s2: "plc_set (ld_glob l) g1 q v = Some (ld_glob l, g2)"
    using mg lv il by (simp add: plc_set_def put_priv_def priv_def Let_def g2_def g1_def
      i_def [symmetric] k_def [symmetric] sh_def [symmetric] P_def [symmetric] w_def kk)
  have mw: "merge_word k G w = w'"
    by (rule bit_word_eqI) (auto simp: merge_word_def w_def w'_def bits)
  have mw2: "(w' AND k) OR (w AND NOT k) = w"
    by (rule bit_word_eqI) (auto simp: w_def w'_def bits)
  define glob3 where "glob3 = (ld_glob l)[i := w']"
  define g3 where "g3 = g2"
  have s3: "plc_update_pt (ld_glob l) g2 q = (glob3, Some g3)"
    using mg lv il by (simp add: plc_update_pt_def plc_update_pt_local_def update_pt_word_def Let_def
      g2_def g1_def g3_def glob3_def i_def [symmetric] k_def [symmetric] G_def [symmetric] kk mw mw2)
  have s4: "plc_get glob3 g3 q = Some v"
  proof -
    have "drop_bit sh (w AND k) = v"
    proof (rule bit_word_eqI)
      fix n
      have "bit v n \<Longrightarrow> n < unat (pt_length q)"
        using fits bit_take_bit_iff [of "unat (pt_length q)" v n] by simp
      then show "bit (drop_bit sh (w AND k)) n \<longleftrightarrow> bit v n"
        using mask_bit [OF wf, of "sh + n"] pt_wf_bounds(1) [OF wf]
        by (auto simp: w_def bits k_def [symmetric] sh_def [symmetric])
    qed
    then show ?thesis using mg lv il
      by (simp add: plc_get_def priv_def g3_def g2_def g1_def i_def [symmetric] k_def [symmetric]
        sh_def [symmetric])
  qed
  define g4 where "g4 = g3\<lparr>gmm_privmap := (gmm_privmap g)[i := P OR k]\<rparr>"
  have ones: "(w AND NOT k) OR (push_bit sh mask_all_1 AND k) = P OR k"
  proof (rule bit_word_eqI)
    fix n
    show "bit ((w AND NOT k) OR (push_bit sh mask_all_1 AND k)) n \<longleftrightarrow> bit (P OR k) n"
      using mask_bit [OF wf, of n] pt_wf_bounds(1) [OF wf]
      by (cases "bit k n") (auto simp: w_def bits bit_mask_iff mask_all_1_def k_def [symmetric] sh_def [symmetric]
          dest: bit_imp_le_length)
  qed
  have s5: "plc_set glob3 g3 q mask_all_1 = Some (glob3, g4)"
    using mg lv il ones by (simp add: plc_set_def put_priv_def priv_def Let_def g4_def g3_def g2_def g1_def
      i_def [symmetric] k_def [symmetric] sh_def [symmetric] kk)
  define l' where "l' = l\<lparr>ld_glob := glob3, ld_gmm := g4\<rparr>"
  have "init_point p pt_id q v l = Some (l', True)"
    using s1 s2 s3 s4 s5 by (simp add: init_point_def g_def [symmetric] l'_def Let_def)
  moreover have "loading len l'"
    using ld by (auto simp: loading_def maps_ok_def l'_def glob3_def g4_def g3_def g2_def g1_def g_def
      gmm_get_status_def)
  moreover have "bit (ld_glob l' ! j) n = (if in_pt q j n then bit v (n - sh) else bit (ld_glob l ! j) n)" for j n
    using il(1) mask_bit [OF wf, of n] pt_wf_bounds(1) [OF wf]
    by (auto simp: l'_def glob3_def nth_upd w'_def bits in_pt_def i_def [symmetric] k_def [symmetric]
      G_def sh_def [symmetric] dest: bit_imp_le_length)
  moreover have "bit (gmm_privmap (ld_gmm l') ! j) n = (in_pt q j n \<or> bit (gmm_privmap (ld_gmm l) ! j) n)" for j n
    using il(2) by (auto simp: l'_def g4_def nth_upd bits in_pt_def i_def [symmetric] k_def [symmetric]
      P_def g_def dest: bit_imp_le_length)
  ultimately show ?thesis unfolding sh_def by (intro exI [of _ l']) (simp add: l'_def)
qed

section \<open>No two points overlap\<close>

text \<open>The points \<open>ps\<close> loaded so far lie in the map without sharing a bit; the private map marks
  their bits; the global map holds their initial values, and outside them what it held before.\<close>

definition points_ok :: "i32 \<Rightarrow> u32 list \<Rightarrow> (plc_pt \<times> u32) list \<Rightarrow> u32 list \<Rightarrow> bool" where
  "points_ok len glob0 ps glob \<longleftrightarrow>
     (\<forall>(q, v) \<in> set ps. pt_wf len q) \<and>
     sorted_wrt (\<lambda>(q, _) (r, _). pt_disjoint q r) ps \<and>
     (\<forall>i n. bit (glob ! i) n =
        (case find (\<lambda>(q, v). in_pt q i n) ps of
           None \<Rightarrow> bit (glob0 ! i) n
         | Some (q, v) \<Rightarrow> bit v (n - unat (pt_shift q))))"

definition marked :: "u32 list \<Rightarrow> (plc_pt \<times> u32) list \<Rightarrow> bool" where
  "marked privmap ps \<longleftrightarrow> (\<forall>(q, v) \<in> set ps. \<forall>i n. in_pt q i n \<longrightarrow> bit (privmap ! i) n)"

lemma find_snoc: "find P (xs @ [x]) = (case find P xs of None \<Rightarrow> (if P x then Some x else None) | Some y \<Rightarrow> Some y)"
  by (induction xs) auto

text \<open>A location that reads as 0 in the private map shares no bit with a marked point.\<close>

lemma free_disjoint:
  assumes "pt_wf len q" "plc_get glob g q = Some 0" "gmm_mod_fns g = variant_local"
    and "pt_wf len r" "\<forall>i n. in_pt r i n \<longrightarrow> bit (gmm_privmap g ! i) n"
  shows "pt_disjoint r q"
proof (rule ccontr)
  assume "\<not> pt_disjoint r q"
  then have o: "pt_ofs r = pt_ofs q" and k: "pt_mask r AND pt_mask q \<noteq> 0" by (auto simp: pt_disjoint_def)
  obtain n where n: "bit (pt_mask r) n" "bit (pt_mask q) n"
  proof -
    have "\<exists>n. bit (pt_mask r AND pt_mask q) n"
      using k by (metis bit_0_eq bot_apply bot_bool_def bit_eq_iff)
    then show ?thesis using that by (auto simp: bit_and_iff)
  qed
  have "bit (gmm_privmap g ! unat (pt_ofs q)) n" using assms(5) n(1) o by (simp add: in_pt_def)
  moreover have "\<not> bit (gmm_privmap g ! unat (pt_ofs q)) (unat (pt_shift q) + (n - unat (pt_shift q)))"
    using get_bit [OF assms(1,2), of "n - unat (pt_shift q)"] n(2) mask_bit [OF assms(1), of n] assms(3)
    by (auto simp: priv_def)
  ultimately show False using n(2) mask_bit [OF assms(1), of n] by simp
qed

lemma disjoint_in_pt: "pt_disjoint r q \<Longrightarrow> in_pt r i n \<Longrightarrow> \<not> in_pt q i n"
  using pt_disjoint_bit [of r q n] by (auto simp: in_pt_def)

text \<open>The invariant of the loading loops.\<close>

definition load_inv :: "i32 \<Rightarrow> u32 list \<Rightarrow> (plc_pt \<times> u32) list \<Rightarrow> load \<Rightarrow> bool" where
  "load_inv len glob0 ps l \<longleftrightarrow> loading len l \<and> points_ok len glob0 ps (ld_glob l)
     \<and> marked (gmm_privmap (ld_gmm l)) ps"

lemma load_inv_mem: "load_inv len glob0 ps (l\<lparr>ld_mem := m\<rparr>) = load_inv len glob0 ps l"
  "load_inv len glob0 ps (l\<lparr>ld_ofs := x\<rparr>) = load_inv len glob0 ps l"
  "load_inv len glob0 ps (l\<lparr>ld_errange := e\<rparr>) = load_inv len glob0 ps l"
  by (simp_all add: load_inv_def loading_def)

lemma init_point_inv:
  assumes inv: "load_inv len glob0 ps l" and wf: "pt_wf len q"
    and fits: "take_bit (unat (pt_length q)) v = v"
    and free: "plc_get (ld_glob l) (ld_gmm l) q = Some 0"
  shows "\<exists>l'. init_point p pt_id q v l = Some (l', True) \<and> ld_mem l' = ld_mem l \<and>
    load_inv len glob0 (ps @ [(q, v)]) l'"
proof -
  have ld: "loading len l" and po: "points_ok len glob0 ps (ld_glob l)"
    and mk: "marked (gmm_privmap (ld_gmm l)) ps" using inv by (simp_all add: load_inv_def)
  obtain l' where l': "init_point p pt_id q v l = Some (l', True)" "loading len l'" "ld_mem l' = ld_mem l"
    and gl: "\<And>i n. bit (ld_glob l' ! i) n = (if in_pt q i n then bit v (n - unat (pt_shift q)) else bit (ld_glob l ! i) n)"
    and pr: "\<And>i n. bit (gmm_privmap (ld_gmm l') ! i) n = (in_pt q i n \<or> bit (gmm_privmap (ld_gmm l) ! i) n)"
    using init_point_effect [OF ld wf fits, of p pt_id] by blast
  have dis: "pt_disjoint r q" if "(r, x) \<in> set ps" for r x
    using free_disjoint [OF wf free] that po mk ld
    by (force simp: points_ok_def marked_def loading_def)
  have "marked (gmm_privmap (ld_gmm l')) (ps @ [(q, v)])" using mk pr by (auto simp: marked_def)
  moreover have "points_ok len glob0 (ps @ [(q, v)]) (ld_glob l')"
  proof -
    have "bit (ld_glob l' ! i) n =
        (case find (\<lambda>(q, v). in_pt q i n) (ps @ [(q, v)]) of
           None \<Rightarrow> bit (glob0 ! i) n | Some (q, v) \<Rightarrow> bit v (n - unat (pt_shift q)))" for i n
    proof (cases "find (\<lambda>(q, v). in_pt q i n) ps")
      case None
      then show ?thesis using po gl by (simp add: find_snoc points_ok_def)
    next
      case (Some rx)
      then obtain r x where rx: "rx = (r, x)" "(r, x) \<in> set ps" "in_pt r i n"
        using nth_mem by (cases rx) (fastforce simp: find_Some_iff)
      then have "\<not> in_pt q i n" using dis disjoint_in_pt by blast
      then show ?thesis using Some po gl by (simp add: find_snoc points_ok_def)
    qed
    then show ?thesis using po wf dis
      by (auto simp: points_ok_def sorted_wrt_append)
  qed
  ultimately show ?thesis using l' by (auto simp: load_inv_def)
qed

section \<open>Loading always returns\<close>

lemma insert_returns:
  assumes "cmm_inv m" "cmm_fully_initialized p"
  shows "\<exists>m' r. gmm_insert_pt_cmm p m (Some s) owner ofs bitno len = Some (m', r) \<and> cmm_inv m'"
proof -
  obtain m1 r where new: "cmm_alloc_mem m block_type_gmm s 40 = Some (m1, r)" "cmm_inv m1"
    using store.new_returns [OF assms(1)] by blast
  show ?thesis
  proof (cases r)
    case None
    then show ?thesis using new insert_ready [OF assms(2)] by simp
  next
    case (Some a)
    have "cmm_inv (wr8 (wr8 (wr32 (c_strncpy m1 a owner 31) (a + 32) ofs) (a + 36) bitno) (a + 37) len)"
      by (rule alloc_write_inv [OF assms(1) new(1) [unfolded Some]]) (auto simp: wr8_def mem_simps)
    then show ?thesis using new Some insert_ready [OF assms(2)] by simp
  qed
qed

lemma mod_by_name_returns:
  assumes "cmm_inv m" "cmm_fully_initialized p" "gmm_mod_fns g \<noteq> variant_error"
  shows "\<exists>q. gmm_mod_pt_by_name p m g s = Some q \<and> (pt_valid q \<longrightarrow> pt_wf (globalmap_len g) q)"
proof -
  obtain r where "cmm_find_mem m block_type_gmm s = Some r" using store.look_returns [OF assms(1)] by blast
  then obtain c where "gmm_config_pt_by_name p m (Some s) = Some c" using by_name_ready [OF assms(2)] by simp
  moreover have "pt_valid q \<longrightarrow> pt_wf (globalmap_len g) q" if "q = plc_pt_by_loc_local (globalmap_len g) o1 b1 l1" for q o1 b1 l1
    using by_loc_wf [OF that] by_loc_fields(1) that by blast
  ultimately show ?thesis using assms(3)
    by (auto simp: gmm_mod_pt_by_name_def plc_pt_by_name_local_def split: option.split)
qed

lemma by_name_returns:
  assumes "cmm_inv m" "cmm_fully_initialized p" "gmm_mod_fns g \<noteq> variant_error"
  shows "\<exists>q. plc_pt_by_name p m g s = Some q"
proof -
  have n: "gmm_mod_pt_by_name p m g t \<noteq> None" for t using mod_by_name_returns [OF assms, of t] by auto
  have sb: "plc_subpt g r b l \<noteq> None" for r b l
    using assms(3) by (simp add: plc_subpt_def plc_pt_by_loc_def)
  obtain r1 where r1: "gmm_mod_pt_by_name p m g s = Some r1" using n [of s] by blast
  show ?thesis
  proof (cases "bit_suffix s")
    case None
    then show ?thesis using r1 by (simp add: plc_pt_by_name_def)
  next
    case (Some k)
    obtain r2 where r2: "gmm_mod_pt_by_name p m g (take k s) = Some r2" using n [of "take k s"] by blast
    show ?thesis
      using r1 r2 Some sb [of r2 "of_nat (atoi_digits (drop (k + 1) s))" 1]
      by (auto simp: plc_pt_by_name_def)
  qed
qed

definition as_list :: "'a option \<Rightarrow> 'a list" where
  "as_list r = (case r of None \<Rightarrow> [] | Some x \<Rightarrow> [x])"

lemma insert_point_inv:
  assumes inv: "load_inv len glob0 ps l" and m: "cmm_inv (ld_mem l)" and p: "cmm_fully_initialized p"
    and fits: "take_bit (unat n) v = v"
  shows "\<exists>l' r. insert_point p pt_id owner b n v l = Some (l', r) \<and> cmm_inv (ld_mem l') \<and>
    load_inv len glob0 (ps @ as_list r) l'"
proof -
  let ?q = "plc_pt_by_loc_local len (ld_ofs l) b n"
  have g: "gmm_mod_fns (ld_gmm l) = variant_local" "globalmap_len (ld_gmm l) = len"
    using inv by (simp_all add: load_inv_def loading_def)
  obtain old where old: "plc_pt_by_name p (ld_mem l) (ld_gmm l) pt_id = Some old"
    using by_name_returns [OF m p, of "ld_gmm l"] g by auto
  have q: "plc_pt_by_loc (ld_gmm l) (ld_ofs l) b n = Some ?q" using g by (simp add: plc_pt_by_loc_def)
  have no: ?thesis if "insert_point p pt_id owner b n v l = Some (l, None)"
    using that inv m by (auto simp: as_list_def)
  show ?thesis
  proof (cases "pt_valid old \<or> \<not> pt_valid ?q \<or> plc_get (ld_glob l) (ld_gmm l) ?q \<noteq> Some 0")
    case True
    then show ?thesis using old q by (intro no) (auto simp: insert_point_def)
  next
    case False
    then have wf: "pt_wf len ?q" and len: "pt_length ?q = n"
      using by_loc_wf [OF refl] by_loc_fields by blast+
    obtain m' r where ins: "gmm_insert_pt_cmm p (ld_mem l) (Some pt_id) owner (ld_ofs l) b n = Some (m', r)"
      "cmm_inv m'" using insert_returns [OF m p] by blast
    show ?thesis
    proof (cases "r < 0")
      case True
      then have "insert_point p pt_id owner b n v l = Some (l\<lparr>ld_mem := m'\<rparr>, None)"
        using False old q ins by (simp add: insert_point_def)
      then show ?thesis using ins inv by (auto simp: as_list_def load_inv_mem)
    next
      case r: False
      have "load_inv len glob0 ps (l\<lparr>ld_mem := m'\<rparr>)" using inv by (simp add: load_inv_mem)
      then obtain l' where l': "init_point p pt_id ?q v (l\<lparr>ld_mem := m'\<rparr>) = Some (l', True)" "ld_mem l' = m'"
        "load_inv len glob0 (ps @ [(?q, v)]) l'"
        using init_point_inv [OF _ wf, of glob0 ps "l\<lparr>ld_mem := m'\<rparr>" v p pt_id] fits len False by auto
      then have "insert_point p pt_id owner b n v l = Some (l', Some (?q, v))"
        using False old q ins r by (simp add: insert_point_def)
      then show ?thesis using l' ins by (auto simp: as_list_def)
    qed
  qed
qed

lemma load_point_inv:
  assumes inv: "load_inv len glob0 ps l" and m: "cmm_inv (ld_mem l)" and p: "cmm_fully_initialized p"
  shows "\<exists>l' r. load_point conv cf p fixed index l = Some (l', r) \<and> cmm_inv (ld_mem l') \<and>
    load_inv len glob0 (ps @ as_list r) l'"
proof (cases "gmm_get_pt_by_index conv cf index (ld_ofs l) (ld_errange l)")
  case None
  then show ?thesis using inv m by (auto simp: load_point_def as_list_def)
next
  case (Some x)
  obtain pt_id fn ow s where x: "x = (pt_id, fn, ow, s)" by (metis prod_cases4)
  define l1 where "l1 = l\<lparr>ld_ofs := pl_x s, ld_errange := pl_errange s\<rparr>"
  have l1: "load_inv len glob0 ps (l1\<lparr>ld_ofs := y\<rparr>)" "load_inv len glob0 ps l1"
    "cmm_inv (ld_mem l1)" "cmm_inv (ld_mem (l1\<lparr>ld_ofs := y\<rparr>))" for y
    using inv m by (simp_all add: l1_def load_inv_mem load_inv_def loading_def)
  have fits: "take_bit (unat (pl_length s)) (pl_init s) = pl_init s"
    using point_line_fits [OF Some [unfolded x]] by (simp add: line_fits_def)
  have no: ?thesis if "load_point conv cf p fixed index l = Some (l1, None)"
    using that l1 by (auto simp: as_list_def)
  note step = insert_point_inv [OF l1(2,3) p fits]
  consider "fixed \<noteq> pl_valid_xy s" | "fixed" "pl_valid_xy s" | "\<not> fixed" "\<not> pl_valid_xy s" by blast
  then show ?thesis
  proof cases
    case 1
    then show ?thesis using Some x by (intro no) (auto simp: load_point_def l1_def Let_def)
  next
    case 2
    then show ?thesis using Some x step [of pt_id ow "pl_y s"]
      by (simp add: load_point_def l1_def [symmetric] Let_def)
  next
    case 3
    show ?thesis
    proof (cases "gmm_find_location_for_pt (ld_glob l1) (ld_gmm l1) (pl_length s)")
      case None
      then show ?thesis using Some x 3
        by (intro no) (simp add: load_point_def l1_def [symmetric] Let_def)
    next
      case (Some loc)
      then show ?thesis using \<open>gmm_get_pt_by_index _ _ _ _ _ = Some x\<close> x 3
          insert_point_inv [OF l1(1) [of "fst loc"] l1(4) p fits, of pt_id ow "snd loc"]
        by (cases loc) (simp add: load_point_def l1_def [symmetric] Let_def)
    qed
  qed
qed

lemma load_each_inv:
  assumes "cmm_fully_initialized p"
  shows "load_inv len glob0 ps l \<Longrightarrow> cmm_inv (ld_mem l) \<Longrightarrow>
    \<exists>l' qs. load_each conv cf p fixed is l = Some (l', qs) \<and> cmm_inv (ld_mem l') \<and>
      load_inv len glob0 (ps @ qs) l'"
proof (induction "is" arbitrary: ps l)
  case Nil
  then show ?case by auto
next
  case (Cons i rest)
  obtain l1 r where l1: "load_point conv cf p fixed i l = Some (l1, r)" "cmm_inv (ld_mem l1)"
    "load_inv len glob0 (ps @ as_list r) l1" using load_point_inv [OF Cons.prems assms] by blast
  obtain l2 qs where l2: "load_each conv cf p fixed rest l1 = Some (l2, qs)" "cmm_inv (ld_mem l2)"
    "load_inv len glob0 ((ps @ as_list r) @ qs) l2" using Cons.IH [OF l1(3,2)] by blast
  then show ?case using l1 by (cases r) (auto simp: as_list_def)
qed

lemma seg_length: "seg m e a bs z \<Longrightarrow> a + 48 * length bs \<le> z"
proof (induction bs arbitrary: a)
  case (Cons b bs)
  then have "blk_end m b + 48 * length bs \<le> z" "b = a" by auto
  then show ?case by (simp add: blk_end_def sizeof_block_def)
qed simp

lemma chain_length: "cmm_chain m bs \<Longrightarrow> length bs < 100000000"
proof -
  assume "cmm_chain m bs"
  then have "20 + 48 * length bs \<le> unat (confmap_size m)" using chain_seg seg_length by blast
  moreover have "unat (confmap_size m) < 4294967296" by (rule unat_u32_lt)
  ultimately show ?thesis by linarith
qed

text \<open>An index beyond 32767 becomes negative, and then a huge unsigned number: there is no such
  point.\<close>

lemma index_returns:
  assumes "cmm_inv m" "cmm_fully_initialized p"
  shows "\<exists>c. gmm_config_pt_by_index p m k = Some c"
    and "gmm_config_pt_by_index p m (word_of_int 32768) = Some None"
proof -
  obtain bs where ch: "cmm_chain m bs" using assms(1) by (auto simp: cmm_inv_def)
  have l: "length bs < 2 ^ 32" using chain_length [OF ch] by simp
  note g = conjunct2 [OF chain_count_get [OF ch assms(2) l, of block_type_gmm]]
  show "\<exists>c. gmm_config_pt_by_index p m k = Some c"
    using g [of "scast k"] by (auto simp: gmm_config_pt_by_index_def Let_def)
  have "unat (scast (word_of_int 32768 :: i16) :: u32) = 4294934528" by simp
  moreover have "\<not> 4294934528 < length (filter P bs)" for P
    using chain_length [OF ch] length_filter_le [of P bs] by linarith
  ultimately show "gmm_config_pt_by_index p m (word_of_int 32768) = Some None"
    using g [of "scast (word_of_int 32768 :: i16)"] by (simp add: gmm_config_pt_by_index_def Let_def)
qed

lemma set_all_inv:
  assumes inv: "load_inv len glob0 ps l" and wf: "pt_wf len q"
    and s: "plc_set (ld_glob l) (ld_gmm l) q mask_all_1 = Some (glob', g')"
  shows "load_inv len glob0 ps (l\<lparr>ld_glob := glob', ld_gmm := g'\<rparr>)"
proof -
  have ld: "loading len l" using inv by (simp add: load_inv_def)
  then have lv: "gmm_mod_fns (ld_gmm l) = variant_local" by (simp add: loading_def)
  have "sint len \<ge> 0 \<Longrightarrow> nat (sint len) = unat len" using sint_nonneg_unat [of len] by linarith
  then have "length (priv (ld_glob l) (ld_gmm l)) = unat len"
    using loading_lengths [OF ld] lv pt_wf_bounds(2,3) [OF wf] by (simp add: priv_def)
  note sb = set_bit [OF wf s this]
  obtain w where g': "glob' = ld_glob l" "g' = (ld_gmm l)\<lparr>gmm_privmap := w\<rparr>" "length w = length (gmm_privmap (ld_gmm l))"
    using s lv by (auto simp: plc_set_def put_priv_def priv_def Let_def split: if_splits)
  have "bit (mask_all_1 :: u32) (n - k)" if "bit (pt_mask q) n" for n k
    using that bit_imp_le_length [OF that] by (auto simp: mask_all_1_def)
  then have up: "bit (gmm_privmap (ld_gmm l) ! i) n \<Longrightarrow> bit (gmm_privmap g' ! i) n" for i n
    using sb [of i n] lv g' by (auto simp: priv_def split: if_splits)
  have "loading len (l\<lparr>ld_glob := glob', ld_gmm := g'\<rparr>)"
    using ld g' by (auto simp: loading_def maps_ok_def gmm_get_status_def)
  moreover have "marked (gmm_privmap g') ps" using inv up by (auto simp: load_inv_def marked_def)
  ultimately show ?thesis using inv g' by (simp add: load_inv_def)
qed

lemma mark_points_inv:
  assumes p: "cmm_fully_initialized p"
  shows "load_inv len glob0 ps l \<Longrightarrow> cmm_inv (ld_mem l) \<Longrightarrow> k \<le> 32768 \<Longrightarrow>
    \<exists>glob' g'. mark_points p (ld_mem l) (int k) (ld_glob l) (ld_gmm l) = Some (glob', g') \<and>
      load_inv len glob0 ps (l\<lparr>ld_glob := glob', ld_gmm := g'\<rparr>)"
proof (induction "32768 - k" arbitrary: k l)
  case 0
  then have "k = 32768" by simp
  then have "mark_points p (ld_mem l) (int k) (ld_glob l) (ld_gmm l) = Some (ld_glob l, ld_gmm l)"
    using index_returns(2) [OF "0.prems"(2) p]
    by (subst mark_points.simps) (simp add: plc_pt_by_index_local_def)
  then show ?case using "0.prems" by simp
next
  case (Suc d)
  have g: "globalmap_len (ld_gmm l) = len" using Suc.prems(1) by (simp add: load_inv_def loading_def)
  obtain c where c: "gmm_config_pt_by_index p (ld_mem l) (word_of_int (int k)) = Some c"
    using index_returns(1) [OF Suc.prems(2) p] by blast
  obtain q nm where q: "plc_pt_by_index_local p (ld_mem l) len (int k) = Some (q, nm)"
    and wf: "pt_valid q \<longrightarrow> pt_wf len q"
  proof (cases c)
    case None
    then show ?thesis using that [of pt_error None] c by (simp add: plc_pt_by_index_local_def)
  next
    case (Some x)
    obtain a b o1 b1 l1 where x: "x = (a, b, o1, b1, l1)" by (metis prod_cases5)
    show ?thesis
      using that [of "plc_pt_by_loc_local len o1 b1 l1" "Some (a, b)"] c Some x by_loc_wf [OF refl] by_loc_fields(1)
      by (simp add: plc_pt_by_index_local_def)
  qed
  show ?case
  proof (cases "pt_valid q")
    case False
    then show ?thesis using q g Suc.prems(1) by (subst mark_points.simps) simp
  next
    case True
    then obtain glob' g' where s: "plc_set (ld_glob l) (ld_gmm l) q mask_all_1 = Some (glob', g')"
      using set_valid wf by blast
    let ?l = "l\<lparr>ld_glob := glob', ld_gmm := g'\<rparr>"
    have "d = 32768 - Suc k" "Suc k \<le> 32768" using Suc.hyps(2) by simp_all
    moreover have "load_inv len glob0 ps ?l" using set_all_inv [OF Suc.prems(1) _ s] wf True by blast
    ultimately obtain glob'' g'' where r: "mark_points p (ld_mem ?l) (int (Suc k)) (ld_glob ?l) (ld_gmm ?l) = Some (glob'', g'')"
      "load_inv len glob0 ps (?l\<lparr>ld_glob := glob'', ld_gmm := g''\<rparr>)"
      using Suc.hyps(1) [of "Suc k" ?l] Suc.prems(2) by auto
    have "mark_points p (ld_mem l) (int k) (ld_glob l) (ld_gmm l) =
        mark_points p (ld_mem l) (int k + 1) glob' g'"
      using q g s True by (subst mark_points.simps) simp
    also have "int k + 1 = int (Suc k)" by simp
    finally show ?thesis using r by auto
  qed
qed

lemma row_cells:
  assumes "3 \<le> conffile_get_table_rowlen_sec cf sect name index" "0 \<le> k" "k < 3"
  shows "\<exists>c. conffile_get_table_sec cf sect name index k = Some c"
  using assms
  by (auto simp: conffile_get_table_rowlen_sec_def conffile_get_table_sec_def list_len_def list_item_def
    split: option.splits if_splits)

lemma load_alias_inv:
  assumes inv: "load_inv len glob0 ps l" and m: "cmm_inv (ld_mem l)" and p: "cmm_fully_initialized p"
  shows "\<exists>l'. load_alias cf p index l = Some l' \<and> cmm_inv (ld_mem l') \<and> load_inv len glob0 ps l'"
proof -
  obtain r e where pa: "gmm_get_pa_by_index cf index (ld_errange l) = (r, e)" by force
  let ?l = "l\<lparr>ld_errange := e\<rparr>"
  have li: "load_inv len glob0 ps ?l" "cmm_inv (ld_mem ?l)" using inv m by (simp_all add: load_inv_mem)
  have v: "gmm_mod_fns (ld_gmm l) \<noteq> variant_error" using inv by (simp add: load_inv_def loading_def)
  show ?thesis
  proof (cases r)
    case None
    then show ?thesis using pa li by (simp add: load_alias_def)
  next
    case (Some x)
    obtain ai fn org bt ln where x: "x = (ai, fn, org, bt, ln)" by (metis prod_cases5)
    have "\<exists>a o'. ai = Some a \<and> org = Some o'"
      using pa Some x row_cells [of cf "Some CONF_POINT_SECTION" "Some CONF_POINT_ALIAS_NAME" index]
      by (auto simp: gmm_get_pa_by_index_def Let_def not_less split: if_splits prod.splits)
    then obtain a o' where ao: "ai = Some a" "org = Some o'" by blast
    obtain q1 q2 where q: "plc_pt_by_name p (ld_mem l) (ld_gmm l) a = Some q1"
      "plc_pt_by_name p (ld_mem l) (ld_gmm l) o' = Some q2"
      using by_name_returns [OF m p v] by blast
    define ln' where "ln' = (if ln = 0 then pt_length q2 else ln)"
    have "plc_subpt (ld_gmm l) q2 bt ln' \<noteq> None" using v by (simp add: plc_subpt_def plc_pt_by_loc_def)
    then obtain q3 where q3: "plc_subpt (ld_gmm l) q2 bt ln' = Some q3" by blast
    obtain m' r' where ins: "gmm_insert_pt_cmm p (ld_mem l) (Some a) [] (pt_ofs q3) (pt_shift q3) ln' = Some (m', r')"
      "cmm_inv m'" using insert_returns [OF m p] by blast
    show ?thesis
      using pa Some x ao q q3 ins li
      by (simp add: load_alias_def ln'_def [symmetric] Let_def load_inv_mem)
  qed
qed

lemma load_aliases_inv:
  assumes "cmm_fully_initialized p"
  shows "load_inv len glob0 ps l \<Longrightarrow> cmm_inv (ld_mem l) \<Longrightarrow>
    \<exists>l'. load_aliases cf p is l = Some l' \<and> cmm_inv (ld_mem l') \<and> load_inv len glob0 ps l'"
proof (induction "is" arbitrary: l)
  case (Cons i rest)
  obtain l1 where "load_alias cf p i l = Some l1" "cmm_inv (ld_mem l1)" "load_inv len glob0 ps l1"
    using load_alias_inv [OF Cons.prems assms] by blast
  then show ?case using Cons.IH by simp
qed simp

lemma load_points_inv:
  assumes p: "cmm_fully_initialized p" and inv: "load_inv len glob0 ps l" and m: "cmm_inv (ld_mem l)"
  shows "\<exists>l' qs. gmm_load_points_in_confmap conv cf p fixed l = Some (l', qs) \<and> cmm_inv (ld_mem l') \<and>
    load_inv len glob0 (ps @ qs) l'"
proof -
  obtain glob g where mk: "mark_points p (ld_mem l) 0 (ld_glob l) (ld_gmm l) = Some (glob, g)"
    "load_inv len glob0 ps (l\<lparr>ld_glob := glob, ld_gmm := g\<rparr>)"
    using mark_points_inv [OF p inv m, of 0] by auto
  have "load_inv len glob0 ps (l\<lparr>ld_glob := glob, ld_gmm := g, ld_ofs := 0\<rparr>)"
    using mk(2) load_inv_mem(2) [where l = "l\<lparr>ld_glob := glob, ld_gmm := g\<rparr>"] by simp
  from load_each_inv [OF p this] show ?thesis
    using m mk(1) by (simp add: gmm_load_points_in_confmap_def)
qed

text \<open>C32. Loading the configuration always returns and keeps the segment in order. Whatever the configuration says,
  the points that were inserted lie inside the map and no two of them share a bit; in the global map
  each holds its initial value, and every other bit is as it was.\<close>

theorem gmm_load_no_overlap:
  assumes "cmm_inv (ld_mem l)" "cmm_fully_initialized p" "loading len l"
  shows "\<exists>l' ps. gmm_load_confmap conv cf p l = Some (l', ps) \<and> cmm_inv (ld_mem l') \<and> loading len l' \<and>
    points_ok len (ld_glob l) ps (ld_glob l')"
proof -
  have "load_inv len (ld_glob l) [] l"
    using assms(3) by (simp add: load_inv_def points_ok_def marked_def)
  from load_points_inv [OF assms(2) this assms(1), of conv cf True]
  obtain l1 ps1 where l1: "gmm_load_points_in_confmap conv cf p True l = Some (l1, ps1)"
    "cmm_inv (ld_mem l1)" "load_inv len (ld_glob l) ps1 l1" by auto
  obtain l2 ps2 where l2: "gmm_load_points_in_confmap conv cf p False l1 = Some (l2, ps2)"
    "cmm_inv (ld_mem l2)" "load_inv len (ld_glob l) (ps1 @ ps2) l2"
    using load_points_inv [OF assms(2) l1(3,2)] by blast
  obtain l3 where "gmm_load_pointsalias_in_confmap cf p l2 = Some l3"
    "cmm_inv (ld_mem l3)" "load_inv len (ld_glob l) (ps1 @ ps2) l3"
    using load_aliases_inv [OF assms(2) l2(3,2)] unfolding gmm_load_pointsalias_in_confmap_def by blast
  then show ?thesis using l1 l2 by (auto simp: gmm_load_confmap_def load_inv_def)
qed

definition l_start :: load where
  "l_start = \<lparr>ld_mem = m_fresh, ld_glob = [0, 0], ld_gmm = g_two, ld_ofs = 0, ld_errange = False\<rparr>"

lemma l_start_loading: "loading 2 l_start"
  by (simp add: loading_def l_start_def g_two_def maps_ok_def gmm_get_status_def gmm_fully_initialized_def)

lemma gmm_load_no_overlap_witness:
  "\<exists>l' ps. gmm_load_confmap no_strtod (cf_lamp [''lamp'', ''a lamp'', ''io'', ''8'']) p_ready l_start = Some (l', ps) \<and>
    points_ok 2 [0, 0] ps (ld_glob l')"
proof -
  have "cmm_inv (ld_mem l_start)" "ld_glob l_start = [0, 0]" by (simp_all add: l_start_def fresh_inv)
  with gmm_load_no_overlap [OF this(1) p_ready_init l_start_loading, of no_strtod] show ?thesis by metis
qed

text \<open>The location found for a point is free, and lies in the map; when none is found, there is
  none.\<close>

theorem gmm_find_location_correct:
  assumes "gmm_get_status g gmm_fully_initialized" "gmm_mod_fns g = variant_local" "len \<le> 32"
  shows "case gmm_find_location_for_pt glob g len of
      Some (ofs, b) \<Rightarrow> (let p = plc_pt_by_loc_local (globalmap_len g) ofs b len
                        in pt_valid p \<and> plc_get glob g p = Some 0)
    | None \<Rightarrow> (\<forall>ofs b. let p = plc_pt_by_loc_local (globalmap_len g) ofs b len
                        in \<not> (pt_valid p \<and> plc_get glob g p = Some 0))"
proof -
  let ?at = "\<lambda>ofs b. plc_pt_by_loc_local (globalmap_len g) ofs b len"
  let ?L = "[(of_nat ofs_scan, of_nat bit_scan) :: i32 \<times> u8.
       ofs_scan \<leftarrow> [0..<nat (sint (globalmap_len g))], bit_scan \<leftarrow> [0..<33 - unat len]]"
  have free: "loc_is_free glob g len (ofs, b) \<longleftrightarrow> pt_valid (?at ofs b) \<and> plc_get glob g (?at ofs b) = Some 0"
    for ofs b using assms(2) by (simp add: loc_is_free_def plc_pt_by_loc_def)
  have find: "gmm_find_location_for_pt glob g len = find (loc_is_free glob g len) ?L"
    using assms(1,3) by (simp add: gmm_find_location_for_pt_def)
  have inL: "(ofs, b) \<in> set ?L" if "pt_valid (?at ofs b)" for ofs b
  proof -
    have v: "unat b + unat len \<le> 32" "0 \<le> sint ofs" "sint ofs < sint (globalmap_len g)"
      using that by (simp_all add: by_loc_valid)
    have "unat ofs < nat (sint (globalmap_len g))" using v(2,3) sint_nonneg_unat [of ofs] by linarith
    moreover have "unat b < 33 - unat len" using v(1) by linarith
    ultimately show ?thesis
      by (auto intro!: bexI [of _ "unat ofs"] image_eqI [of _ _ "unat b"])
  qed
  show ?thesis
  proof (cases "find (loc_is_free glob g len) ?L")
    case None
    then have r: "gmm_find_location_for_pt glob g len = None" using find by simp
    have "\<forall>x \<in> set ?L. \<not> loc_is_free glob g len x" using None unfolding find_None_iff by blast
    then have "\<not> (pt_valid (?at ofs b) \<and> plc_get glob g (?at ofs b) = Some 0)" for ofs b
      using inL free by blast
    then show ?thesis unfolding r by (simp add: Let_def)
  next
    case (Some loc)
    then have "loc_is_free glob g len loc" by (auto simp: find_Some_iff)
    moreover have "gmm_find_location_for_pt glob g len = Some loc" using find Some by simp
    ultimately show ?thesis using free by (cases loc) (simp add: Let_def)
  qed
qed

lemma gmm_find_location_correct_witness:
  "\<exists>ofs b. gmm_find_location_for_pt [0, 0] g_two 1 = Some (ofs, b)"
proof -
  have a: "pt_valid (plc_pt_by_loc_local (globalmap_len g_two) 0 0 1)"
    by (simp add: by_loc_valid g_two_def)
  moreover have "plc_get [0, 0] g_two (plc_pt_by_loc_local (globalmap_len g_two) 0 0 1) = Some 0"
    using by_loc_fields [OF a] by (simp add: plc_get_def priv_def g_two_def)
  ultimately show ?thesis
    using gmm_find_location_correct [of g_two 1 "[0, 0]"]
    by (auto simp: g_two_def gmm_get_status_def gmm_fully_initialized_def Let_def split: option.splits)
qed

end
