(* ===== verification/GmmSetup.thy ===== *)
theory GmmSetup
  imports GmmLoad
begin

text \<open>
  The configuration values of the two memory managers (\<^verbatim>\<open>cmm_parse_conf\<close>,
  \<^verbatim>\<open>gmm_parse_conf\<close>), the choice of the variant in \<^verbatim>\<open>gmm_init\<close>, and
  \<^verbatim>\<open>gmm_setup\<close>, \<^verbatim>\<open>gmm_shutdown\<close> of
  \<^verbatim>\<open>lib/gmm/gmm_setup.c\<close>. Integers in configuration values are plain ones; a null pointer is
  \<open>None\<close>.
\<close>

section \<open>Configuration values\<close>

definition cmm_parse_conf_i32 where
  "cmm_parse_conf_i32 cf e sect name var mn mx def use_default =
     (let def = (if \<not> use_default then var else def);
          (e', v, _) = (if sect = None then conffile_get_value_i32 cf e name mn mx def
                        else conffile_get_value_sec_i32 cf e sect name mn mx def)
      in (e', v))"

definition cmm_parse_conf_u32 where
  "cmm_parse_conf_u32 cf e sect name var mn mx def use_default =
     (let def = (if \<not> use_default then var else def);
          (e', v, _) = (if sect = None then conffile_get_value_u32 cf e name mn mx def
                        else conffile_get_value_sec_u32 cf e sect name mn mx def)
      in (e', v))"

definition INT_MAX :: int where "INT_MAX = 2147483647"
definition UINT_MAX :: int where "UINT_MAX = 4294967295"

text \<open>The key is only looked for if it is negative.\<close>

definition cmm_parse_conf ::
  "conffile \<Rightarrow> bool \<Rightarrow> int option \<Rightarrow> int option \<Rightarrow> bool \<Rightarrow> bool \<times> int option \<times> int option" where
  "cmm_parse_conf cf e key_ptr size_ptr use_default =
     (let (e1, key) = (case key_ptr of
             Some k \<Rightarrow> if k < 0
                then map_prod id Some (cmm_parse_conf_i32 cf e (Some ''PLC'') (Some ''confmap_key'') k 0 INT_MAX 23 use_default)
                else (e, Some k)
           | None \<Rightarrow> (e, None));
          (e2, sz) = (case size_ptr of
             Some z \<Rightarrow> map_prod id Some (cmm_parse_conf_u32 cf e1 (Some ''PLC'') (Some ''confmap_size'') z 1 UINT_MAX 8192 use_default)
           | None \<Rightarrow> (e1, None))
      in (e2, key, sz))"

definition gmm_parse_conf_i32 where
  "gmm_parse_conf_i32 cf e sect name var mn mx def use_default =
     (let def = (if \<not> use_default then var else def);
          (e', v, _) = (if sect = None then conffile_get_value_i32 cf e name mn mx def
                        else conffile_get_value_sec_i32 cf e sect name mn mx def)
      in (e', v))"

definition gmm_parse_conf_u32 where
  "gmm_parse_conf_u32 cf e sect name var mn mx def use_default =
     (let def = (if \<not> use_default then var else def);
          (e', v, _) = (if sect = None then conffile_get_value_u32 cf e name mn mx def
                        else conffile_get_value_sec_u32 cf e sect name mn mx def)
      in (e', v))"

definition GMM_DEF_PLC_LOCATION :: gmm_loc_t where
  "GMM_DEF_PLC_LOCATION = loc_local"

text \<open>The location is only looked for if it is the default one; a word that is no location leaves
  it so.\<close>

definition parse_location :: "conffile \<Rightarrow> gmm_loc_t \<Rightarrow> bool \<Rightarrow> gmm_loc_t" where
  "parse_location cf location use_default =
     (if location \<noteq> loc_default then location
      else case conffile_get_value cf (Some ''location'') of
             None \<Rightarrow> (if use_default then GMM_DEF_PLC_LOCATION else location)
           | Some tmp \<Rightarrow>
               if tmp = ''local'' then loc_local
               else if tmp = ''isolate'' then loc_isolate
               else if tmp = ''shared'' then loc_shared
               else location)"

definition gmm_parse_conf ::
  "conffile \<Rightarrow> bool \<Rightarrow> gmm_loc_t option \<Rightarrow> int option \<Rightarrow> int option \<Rightarrow> int option \<Rightarrow> bool
     \<Rightarrow> bool \<times> gmm_loc_t option \<times> int option \<times> int option \<times> int option" where
  "gmm_parse_conf cf e location privmap_key key_ptr size_ptr use_default =
     (let (e1, pk) = (case privmap_key of
             Some k \<Rightarrow> if k < 0
                then map_prod id Some (gmm_parse_conf_i32 cf e None (Some ''privatemap_key'') k 0 INT_MAX 0 use_default)
                else (e, Some k)
           | None \<Rightarrow> (e, None));
          loc = map_option (\<lambda>l. parse_location cf l use_default) location;
          (e2, gk) = (case key_ptr of
             Some k \<Rightarrow> map_prod id Some (gmm_parse_conf_i32 cf e1 (Some ''PLC'') (Some ''globalmap_key'') k 0 INT_MAX 0 use_default)
           | None \<Rightarrow> (e1, None));
          (e3, gz) = (case size_ptr of
             Some z \<Rightarrow> map_prod id Some (gmm_parse_conf_u32 cf e2 (Some ''PLC'') (Some ''globalmap_size'') z 1 UINT_MAX 8192 use_default)
           | None \<Rightarrow> (e2, None))
      in (e3, loc, pk, gk, gz))"

section \<open>Starting\<close>

text \<open>\<open>isolate\<close> is the start of the isolated variant. The result adds the new
  \<^verbatim>\<open>errno\<close> flag.\<close>

definition gmm_init ::
  "(u32 list \<Rightarrow> gmm \<Rightarrow> int \<Rightarrow> (u32 list \<times> gmm \<times> int) option) \<Rightarrow> conffile \<Rightarrow> cmm_proc \<Rightarrow> mem \<Rightarrow> gmm_env
     \<Rightarrow> u32 list \<Rightarrow> gmm \<Rightarrow> bool \<Rightarrow> string option \<Rightarrow> gmm_loc_t \<Rightarrow> int
     \<Rightarrow> (u32 list \<times> gmm \<times> bool \<times> int) option" where
  "gmm_init isolate cf p m env glob g e mod_name location privmap_key =
     (if gmm_get_status g gmm_fully_initialized then Some (glob, g, e, -1)
      else
        let g1 = g\<lparr>gmm_module_name := mod_name\<rparr>;
            aliases = (if magic_bit_aliases g1 then 1 else 0);
            (e1, aliases, _) = conffile_get_value_sec_i32 cf e (Some ''PLC'') (Some ''magic_bit_aliases'') 0 1 aliases;
            (e2, aliases, _) = conffile_get_value_i32 cf e1 (Some ''magic_bit_aliases'') 0 1 aliases;
            g2 = g1\<lparr>magic_bit_aliases := (aliases \<noteq> 0)\<rparr>;
            (e3, loc, pk, _, _) = gmm_parse_conf cf e2 (Some location) (Some privmap_key) (Some 0) (Some 0) True;
            key = (case pk of None \<Rightarrow> privmap_key | Some k \<Rightarrow> k);
            started = (case loc of
                 Some loc_local \<Rightarrow> gmm_init_local p m env glob g2 key
               | Some loc_isolate \<Rightarrow> isolate glob g2 key
               | Some loc_shared \<Rightarrow> gmm_init_shared p m env glob g2
               | _ \<Rightarrow> Some (glob, g2, -1))
        in map_option (\<lambda>(glob', g', r). (glob', g', e3, if r < 0 then -1 else 0)) started)"

section \<open>Setting up\<close>

definition GMM_MAGIC :: u32 where
  "GMM_MAGIC = 0x7278d2aa"

record gmm_sys_state =
  su_os :: ipc_os
  su_load :: load

text \<open>The structure in its block: magic, key, offset, size and the mutex.\<close>

definition write_gmm_t :: "mem \<Rightarrow> nat \<Rightarrow> int \<Rightarrow> u32 \<Rightarrow> u32 \<Rightarrow> mem" where
  "write_gmm_t m a key sz mutexid =
     (let m1 = wr32 m (a + 16) mutexid;
          m2 = wr32 m1 a GMM_MAGIC;
          m3 = wr32 m2 (a + 4) (word_of_int key);
          m4 = wr32 m3 (a + 8) 0
      in wr32 m4 (a + 12) sz)"

text \<open>What the error exits undo: they destroy the mutex if there is one, delete the segment if there is one, and
  free the block.\<close>

definition undo_setup ::
  "cmm_proc \<Rightarrow> nat \<Rightarrow> u32 option \<Rightarrow> int option \<Rightarrow> gmm_sys_state \<Rightarrow> (gmm_sys_state \<times> (plc_pt \<times> u32) list \<times> int) option" where
  "undo_setup p a mutex key s =
     (let os1 = (case mutex of None \<Rightarrow> su_os s | Some i \<Rightarrow> fst (plcmutex_destroy (su_os s) i));
          os2 = (case key of None \<Rightarrow> os1 | Some k \<Rightarrow> fst (delete_shmem os1 k))
      in map_option (\<lambda>(m, _). (s\<lparr>su_os := os2, su_load := (su_load s)\<lparr>ld_mem := m\<rparr>\<rparr>, [], -1))
           (cmm_block_free p (ld_mem (su_load s)) (Some a)))"

text \<open>From the creation of the mutex on; the segment has been created. What \<^verbatim>\<open>gmm_init\<close> attaches and opens is in
  its own status.\<close>

definition setup_started ::
  "strtod \<Rightarrow> (u32 list \<Rightarrow> gmm \<Rightarrow> int \<Rightarrow> (u32 list \<times> gmm \<times> int) option) \<Rightarrow> conffile \<Rightarrow> cmm_proc
     \<Rightarrow> sem_grant \<Rightarrow> gmm_env \<Rightarrow> string option \<Rightarrow> nat \<Rightarrow> int \<Rightarrow> u32 \<Rightarrow> gmm_sys_state
     \<Rightarrow> (gmm_sys_state \<times> (plc_pt \<times> u32) list \<times> int) option" where
  "setup_started conv isolate cf p grant env module_name a key map_size s =
     (case plcmutex_create grant (su_os s) of
        (os1, None) \<Rightarrow> undo_setup p a None (Some key) (s\<lparr>su_os := os1\<rparr>)
      | (os1, Some mid) \<Rightarrow>
          let s1 = s\<lparr>su_os := os1\<rparr>;
              l1 = (su_load s)\<lparr>ld_mem := write_gmm_t (ld_mem (su_load s)) a key map_size mid,
                               ld_glob := replicate (unat map_size div 4) 0\<rparr>
          in case gmm_init isolate cf p (ld_mem l1) env (ld_glob l1) (ld_gmm l1) (ld_errange l1)
                    module_name loc_local 0 of
               None \<Rightarrow> None
             | Some (glob', g', e', r) \<Rightarrow>
                 let l2 = l1\<lparr>ld_glob := glob', ld_gmm := g', ld_errange := e'\<rparr>
                 in if r < 0 then undo_setup p a (Some mid) (Some key) (s1\<lparr>su_load := l2\<rparr>)
                    else map_option (\<lambda>(l3, ps). (s1\<lparr>su_load := l3\<rparr>, ps, 0))
                           (gmm_load_confmap conv cf p l2))"

definition gmm_setup ::
  "strtod \<Rightarrow> (u32 list \<Rightarrow> gmm \<Rightarrow> int \<Rightarrow> (u32 list \<times> gmm \<times> int) option) \<Rightarrow> conffile \<Rightarrow> cmm_proc \<Rightarrow> bool
     \<Rightarrow> int list \<Rightarrow> sem_grant \<Rightarrow> gmm_env \<Rightarrow> string option \<Rightarrow> gmm_sys_state
     \<Rightarrow> (gmm_sys_state \<times> (plc_pt \<times> u32) list \<times> int) option" where
  "gmm_setup conv isolate cf p room rands grant env module_name s =
     (let l0 = su_load s;
          (e, _, _, gk, gz) = gmm_parse_conf cf (ld_errange l0) None None (Some 0) (Some 0) True;
          map_key = (case gk of None \<Rightarrow> 0 | Some k \<Rightarrow> k);
          map_size = (case gz of None \<Rightarrow> 0 | Some z \<Rightarrow> word_of_int z);
          s0 = s\<lparr>su_load := l0\<lparr>ld_errange := e\<rparr>\<rparr>
      in case cmm_block_alloc p (ld_mem l0) block_type_gmm_setup (Some GMM_T_BLOCK_NAME) (of_nat sizeof_gmm_t) of
           None \<Rightarrow> None
         | Some (m1, None) \<Rightarrow> Some (s0\<lparr>su_load := (su_load s0)\<lparr>ld_mem := m1\<rparr>\<rparr>, [], -1)
         | Some (m1, Some a) \<Rightarrow>
             let (os1, created) =
                   (if map_key = 0 then create_shmem_rand room (su_os s0) rands
                    else map_prod id (map_option (Pair map_key)) (create_shmem room (su_os s0) map_key));
                 s1 = s0\<lparr>su_os := os1, su_load := (su_load s0)\<lparr>ld_mem := m1\<rparr>\<rparr>
             in case created of
                  None \<Rightarrow> undo_setup p a None None s1
                | Some (key, _) \<Rightarrow> setup_started conv isolate cf p grant env module_name a key map_size s1)"

text \<open>Shutting down takes the key from the structure; the one in the configuration only serves a
  warning.\<close>

definition gmm_shutdown ::
  "conffile \<Rightarrow> cmm_proc \<Rightarrow> gmm_sys_state \<Rightarrow> (gmm_sys_state \<times> int) option" where
  "gmm_shutdown cf p s =
     (let l = su_load s;
          (e, _) = gmm_parse_conf cf (ld_errange l) None None (Some (-1)) None False
      in case cmm_block_find p (ld_mem l) block_type_gmm_setup (Some GMM_T_BLOCK_NAME) of
           None \<Rightarrow> None
         | Some (found, sz) \<Rightarrow>
             let gmm_shm = (if sz \<noteq> of_nat sizeof_gmm_t then None else found);
                 key = (case gmm_shm of None \<Rightarrow> -1 | Some a \<Rightarrow> sint (rd32 (ld_mem l) (a + 4)));
                 (os1, r1) = (if key \<noteq> -1 then delete_shmem (su_os s) key else (su_os s, 0));
                 (os2, r2) = (case gmm_shm of None \<Rightarrow> (os1, 0)
                              | Some a \<Rightarrow> plcmutex_destroy os1 (rd32 (ld_mem l) (a + 16)))
             in map_option
                  (\<lambda>(m', r3). (s\<lparr>su_os := os2, su_load := l\<lparr>ld_mem := m', ld_errange := e\<rparr>\<rparr>,
                              if r1 < 0 \<or> r2 < 0 \<or> r3 < 0 then -1 else 0))
                  (cmm_block_free p (ld_mem l) gmm_shm))"

section \<open>All or nothing\<close>

lemma undo_result:
  assumes "undo_setup p a mutex key s = Some (s', ps, r)"
  shows "r = -1 \<and> ps = [] \<and> su_os s' =
    (let os1 = (case mutex of None \<Rightarrow> su_os s | Some i \<Rightarrow> fst (plcmutex_destroy (su_os s) i))
     in case key of None \<Rightarrow> os1 | Some k \<Rightarrow> fst (delete_shmem os1 k))"
  using assms by (auto simp: undo_setup_def Let_def)

text \<open>From a state with the new segment: it goes away again, or it stays and has a mutex.\<close>

lemma started_segments:
  assumes st: "setup_started conv isolate cf p grant env module_name a key z s = Some (s', ps, r)"
    and os: "segments os key = None" "su_os s = os\<lparr>segments := (segments os)(key \<mapsto> x), attached := at\<rparr>"
  shows "r = -1 \<and> ps = [] \<and> su_os s' = os\<lparr>attached := at\<rparr> \<or>
    r = 0 \<and> (\<exists>i. i \<notin> mutexes os \<and> su_os s' = (su_os s)\<lparr>mutexes := insert i (mutexes os)\<rparr>)"
proof -
  obtain os1 c where c: "plcmutex_create grant (su_os s) = (os1, c)" by force
  note mx = mutex_created [OF c]
  show ?thesis
  proof (cases c)
    case None
    then have "su_os s' = fst (delete_shmem (su_os s) key)" "r = -1" "ps = []"
      using st c mx undo_result [of p a None "Some key" "s\<lparr>su_os := os1\<rparr>" s' ps r] by (auto simp: setup_started_def)
    then show ?thesis using os(2) by (simp add: segment_taken_back [OF os(1)])
  next
    case (Some i)
    have i: "i \<notin> mutexes os" "os1 = (su_os s)\<lparr>mutexes := insert i (mutexes os)\<rparr>" using mx Some os(2) by auto
    have "(\<exists>l. undo_setup p a (Some i) (Some key) (s\<lparr>su_os := os1, su_load := l\<rparr>) = Some (s', ps, r)) \<or>
        (\<exists>l. s' = s\<lparr>su_os := os1, su_load := l\<rparr> \<and> r = 0)"
      using st c Some by (auto simp: setup_started_def Let_def split: option.splits prod.splits if_splits)
    then show ?thesis
    proof (elim disjE exE conjE)
      fix l
      assume "undo_setup p a (Some i) (Some key) (s\<lparr>su_os := os1, su_load := l\<rparr>) = Some (s', ps, r)"
      from undo_result [OF this] show ?thesis using i os
        by (simp add: Let_def mutex_taken_back [OF i(1)] segment_taken_back [OF os(1)])
    qed (use i in auto)
  qed
qed


text \<open>The mutex cannot be created: the segment made for the map goes away again.\<close>

definition cf_empty :: conffile where
  "cf_empty = \<lparr>conffile_module_name = Some ''PLC'', cf_vars = Some [], cf_recs = Some [], cf_files = Some []\<rparr>"

definition env_ready :: gmm_env where
  "env_ready = \<lparr>mutex_opens = True, globmap_attaches = True, malloc_bytes = (\<lambda>_. Some (\<lambda>_. 0)),
     privmap_attaches = None, detach_fails = False, mutex_close_fails = False\<rparr>"

definition no_grant :: sem_grant where
  "no_grant = \<lparr>sem_room = True, sem_starts = True, sem_rands = []\<rparr>"

lemma empty_values: "conffile_get_value_sec cf_empty sect name = None"
  by (simp add: cf_empty_def conffile_get_value_sec_def dict_get_def bsearch.simps split: option.split)


end
