(* ===== verification/Plc.thy ===== *)
theory Plc
  imports GmmSetup "HOL-Library.Monad_Syntax"
begin

text \<open>
  The library as a whole, \<^verbatim>\<open>lib/plc.c\<close> and \<^verbatim>\<open>lib/plc_setup.c\<close>: the arguments of the command
  line, starting and stopping all libraries in a module, setting the whole system up, launching its modules and
  shutting it down.

  The libraries are a record of their functions over a state of their own, which is what these two files see of
  them; the functions are modelled in the theories of the libraries. \<open>None\<close> is a call that does not return.
  Messages to the log are left out, and so is what the kernel does with a handler.
\<close>

section \<open>Arguments\<close>

definition CLO_LEADER :: string where "CLO_LEADER = ''--PLC''"
definition CLO_plc_id :: string where "CLO_plc_id = CLO_LEADER @ ''plc_id=''"
definition CLO_loc_local :: string where "CLO_loc_local = CLO_LEADER @ ''local''"
definition CLO_loc_isolate :: string where "CLO_loc_isolate = CLO_LEADER @ ''isolate''"
definition CLO_loc_shared :: string where "CLO_loc_shared = CLO_LEADER @ ''shared''"
definition CLO_privmap_key :: string where "CLO_privmap_key = CLO_LEADER @ ''local_map_key=''"
definition CLO_log_level :: string where "CLO_log_level = CLO_LEADER @ ''debug=''"
definition CLO_log_file :: string where "CLO_log_file = CLO_LEADER @ ''logfile=''"
definition CLO_config_file :: string where "CLO_config_file = CLO_LEADER @ ''conf=''"
definition CLO_module_name :: string where "CLO_module_name = CLO_LEADER @ ''module=''"
definition CLO_force_init :: string where "CLO_force_init = CLO_LEADER @ ''force-init''"

lemmas CLO_defs = CLO_plc_id_def CLO_loc_local_def CLO_loc_isolate_def CLO_loc_shared_def CLO_privmap_key_def
  CLO_log_level_def CLO_log_file_def CLO_config_file_def CLO_module_name_def CLO_force_init_def CLO_LEADER_def

definition MAX_LOG_LEVEL :: int where "MAX_LOG_LEVEL = 9"

text \<open>What the pointers of the call point to; \<open>None\<close> is a null pointer. Strings can themselves be missing.\<close>

record plc_args =
  pa_location :: "gmm_loc_t option"
  pa_local_key :: "int option"
  pa_plc_id :: "int option"
  pa_conffile :: "string option option"
  pa_mod_name :: "string option option"
  pa_log_level :: "int option"
  pa_log_file :: "string option option"
  pa_force_init :: "int option"

definition starts_with :: "string \<Rightarrow> string \<Rightarrow> bool" where
  "starts_with p s \<longleftrightarrow> take (length p) s = p"

text \<open>An option with a number: the new \<^verbatim>\<open>errno\<close> flag, and the number if the option is wanted and
  its number can be read.\<close>

definition number_option :: "bool \<Rightarrow> int option \<Rightarrow> string \<Rightarrow> string \<Rightarrow> int \<Rightarrow> int \<Rightarrow> bool \<times> int option" where
  "number_option e ptr opt arg mn mx =
     (if ptr \<noteq> None \<and> starts_with opt arg then string_str_to_int e (Some (drop (length opt) arg)) mn mx else (e, None))"

definition string_option :: "string option option \<Rightarrow> string \<Rightarrow> string \<Rightarrow> string option" where
  "string_option ptr opt arg = (if ptr \<noteq> None \<and> starts_with opt arg then Some (drop (length opt) arg) else None)"

datatype arg_result = Taken plc_args | Left_alone | Unrecognized

text \<open>The body of the loop. \<^verbatim>\<open>--PLCforce-init\<close> is guarded by the pointer to the location.\<close>

definition parse_arg :: "bool \<Rightarrow> plc_args \<Rightarrow> string \<Rightarrow> (bool \<times> arg_result) option" where
  "parse_arg e pa arg =
     (if pa_location pa \<noteq> None \<and> arg = CLO_loc_local then Some (e, Taken (pa\<lparr>pa_location := Some loc_local\<rparr>))
      else if pa_location pa \<noteq> None \<and> arg = CLO_loc_isolate then Some (e, Taken (pa\<lparr>pa_location := Some loc_isolate\<rparr>))
      else if pa_location pa \<noteq> None \<and> arg = CLO_loc_shared then Some (e, Taken (pa\<lparr>pa_location := Some loc_shared\<rparr>))
      else
        let (e1, key) = number_option e (pa_local_key pa) CLO_privmap_key arg 1 INT_MAX in
        if key \<noteq> None then Some (e1, Taken (pa\<lparr>pa_local_key := key\<rparr>))
        else let (e2, plc_id) = number_option e1 (pa_plc_id pa) CLO_plc_id arg 1 INT_MAX in
        if plc_id \<noteq> None then Some (e2, Taken (pa\<lparr>pa_plc_id := plc_id\<rparr>))
        else let (e3, level) = number_option e2 (pa_log_level pa) CLO_log_level arg 0 MAX_LOG_LEVEL in
        if level \<noteq> None then Some (e3, Taken (pa\<lparr>pa_log_level := level\<rparr>))
        else case string_option (pa_conffile pa) CLO_config_file arg of
          Some s \<Rightarrow> Some (e3, Taken (pa\<lparr>pa_conffile := Some (Some s)\<rparr>))
        | None \<Rightarrow>
        (case string_option (pa_mod_name pa) CLO_module_name arg of
          Some s \<Rightarrow> Some (e3, Taken (pa\<lparr>pa_mod_name := Some (Some s)\<rparr>))
        | None \<Rightarrow>
        (case string_option (pa_log_file pa) CLO_log_file arg of
          Some s \<Rightarrow> Some (e3, Taken (pa\<lparr>pa_log_file := Some (Some s)\<rparr>))
        | None \<Rightarrow>
          if pa_location pa \<noteq> None \<and> arg = CLO_force_init
          then (case pa_force_init pa of None \<Rightarrow> None | Some _ \<Rightarrow> Some (e3, Taken (pa\<lparr>pa_force_init := Some 1\<rparr>)))
          else if starts_with CLO_LEADER arg then Some (e3, Unrecognized)
          else Some (e3, Left_alone))))"

text \<open>The arguments after the call, where those taken are empty if \<open>remove_args\<close>, and the result.\<close>

fun plc_parse_args :: "bool \<Rightarrow> bool \<Rightarrow> plc_args \<Rightarrow> string list \<Rightarrow> (bool \<times> plc_args \<times> string list \<times> int) option" where
  "plc_parse_args remove_args e pa [] = Some (e, pa, [], 0)"
| "plc_parse_args remove_args e pa (arg # argv) =
     do {
       (e1, r) \<leftarrow> parse_arg e pa arg;
       (case r of
          Unrecognized \<Rightarrow> Some (e1, pa, arg # argv, -1)
        | Left_alone \<Rightarrow> do { (e2, pa2, argv2, r) \<leftarrow> plc_parse_args remove_args e1 pa argv; Some (e2, pa2, arg # argv2, r) }
        | Taken pa1 \<Rightarrow> do { (e2, pa2, argv2, r) \<leftarrow> plc_parse_args remove_args e1 pa1 argv;
                           Some (e2, pa2, (if remove_args then [] else arg) # argv2, r) })
     }"

section \<open>Starting and stopping in a module\<close>

type_synonym 's call = "'s \<Rightarrow> ('s \<times> int) option"

datatype plc_signal = Sig_term | Sig_int

record 's plc_libs =
  register_exit :: "'s call"
  plc_log_init :: "int \<Rightarrow> string \<Rightarrow> string \<Rightarrow> string \<Rightarrow> string \<Rightarrow> 's call"
  conffile_init_fn :: "string option \<Rightarrow> string \<Rightarrow> 's call"
  cmm_init_fn :: "string \<Rightarrow> int \<Rightarrow> 's call"
  gmm_init_fn :: "string \<Rightarrow> gmm_loc_t \<Rightarrow> int \<Rightarrow> 's call"
  rt_init :: "string \<Rightarrow> 's call"
  synch_init_fn :: "string \<Rightarrow> 's call"
  period_init :: "string \<Rightarrow> 's call"
  state_init_fn :: "string \<Rightarrow> int \<Rightarrow> 's call"
  signal_sethandler :: "plc_signal \<Rightarrow> 's call"
  signal_action :: "plc_signal \<Rightarrow> 's call"
  state_done_fn :: "'s call"
  period_done :: "'s call"
  synch_done_fn :: "'s call"
  rt_done :: "'s call"
  gmm_done_fn :: "'s call"
  cmm_done_fn :: "'s call"
  conffile_done_fn :: "'s call"
  plc_log_done :: "'s call"
  rt_scan_beg :: "'s call"
  period_scan_beg :: "'s call"
  synch_scan_beg_fn :: "'s call"
  synch_scan_end_fn :: "'s call"
  period_scan_end :: "'s call"

record plc_proc =
  fully_initialised :: bool
  registered_exit_func :: bool
  registered_sigterm_handler :: bool
  registered_sigint_handler :: bool
  plc_name :: "string option"

definition plc_fresh :: plc_proc where
  "plc_fresh = \<lparr>fully_initialised = False, registered_exit_func = False, registered_sigterm_handler = False,
     registered_sigint_handler = False, plc_name = None\<rparr>"

text \<open>Calls one after the other: up to the first that fails; all of them, with whether all gave 0.\<close>

fun until_failure :: "'s call list \<Rightarrow> 's \<Rightarrow> ('s \<times> bool) option" where
  "until_failure [] s = Some (s, True)"
| "until_failure (f # fs) s = do { (s1, r) \<leftarrow> f s; if r < 0 then Some (s1, False) else until_failure fs s1 }"

fun all_calls :: "'s call list \<Rightarrow> 's \<Rightarrow> ('s \<times> bool) option" where
  "all_calls [] s = Some (s, True)"
| "all_calls (f # fs) s = do { (s1, r) \<leftarrow> f s; (s2, ok) \<leftarrow> all_calls fs s1; Some (s2, r = 0 \<and> ok) }"

definition done_calls :: "'s plc_libs \<Rightarrow> 's call list" where
  "done_calls l = [state_done_fn l, period_done l, synch_done_fn l, rt_done l, gmm_done_fn l, cmm_done_fn l,
     conffile_done_fn l, plc_log_done l]"

definition plc_done :: "'s plc_libs \<Rightarrow> plc_proc \<times> 's \<Rightarrow> ((plc_proc \<times> 's) \<times> int) option" where
  "plc_done l ps =
     do {
       (s1, _) \<leftarrow> signal_action l Sig_term (snd ps);
       (s2, _) \<leftarrow> signal_action l Sig_int s1;
       (s3, ok) \<leftarrow> all_calls (done_calls l) s2;
       Some (((fst ps)\<lparr>plc_name := None, fully_initialised := False\<rparr>, s3), if ok then 0 else -1)
     }"

definition DEF_CONFIG_FILE :: string where "DEF_CONFIG_FILE = ''matplc.conf''"
definition DEF_LOG_FILE :: string where "DEF_LOG_FILE = ''matplc.log''"
definition DEF_LOG_LEVEL :: int where "DEF_LOG_LEVEL = 1"

text \<open>The defaults before the arguments are parsed.\<close>

definition init_args :: "string option \<Rightarrow> plc_args" where
  "init_args name = \<lparr>pa_location = Some loc_default, pa_local_key = Some (-1), pa_plc_id = Some (-1),
     pa_conffile = Some (Some DEF_CONFIG_FILE), pa_mod_name = Some name, pa_log_level = Some DEF_LOG_LEVEL,
     pa_log_file = Some None, pa_force_init = Some 0\<rparr>"

definition init_calls :: "'s plc_libs \<Rightarrow> plc_args \<Rightarrow> string \<Rightarrow> 's call list" where
  "init_calls l pa name =
     (let file = (case pa_log_file pa of Some (Some f) \<Rightarrow> f | _ \<Rightarrow> DEF_LOG_FILE)
      in [plc_log_init l (the (pa_log_level pa)) name file file file,
          conffile_init_fn l (the (pa_conffile pa)) name,
          cmm_init_fn l name (the (pa_plc_id pa)),
          gmm_init_fn l name (the (pa_location pa)) (the (pa_local_key pa)),
          rt_init l name, synch_init_fn l name, period_init l name,
          state_init_fn l name (the (pa_force_init pa))])"

text \<open>A handler is installed unless it was before.\<close>

definition set_handlers :: "'s plc_libs \<Rightarrow> plc_proc \<times> 's \<Rightarrow> ((plc_proc \<times> 's) \<times> bool) option" where
  "set_handlers l ps =
     do {
       (s1, r1) \<leftarrow> (if registered_sigterm_handler (fst ps) then Some (snd ps, 0) else signal_sethandler l Sig_term (snd ps));
       if r1 < 0 then Some ((fst ps, s1), False)
       else do {
         let p1 = (fst ps)\<lparr>registered_sigterm_handler := True\<rparr>;
         (s2, r2) \<leftarrow> (if registered_sigint_handler p1 then Some (s1, 0) else signal_sethandler l Sig_int s1);
         if r2 < 0 then Some ((p1, s2), False)
         else Some ((p1\<lparr>registered_sigint_handler := True\<rparr>, s2), True)
       }
     }"

definition start_all :: "'s plc_libs \<Rightarrow> plc_args \<Rightarrow> string \<Rightarrow> plc_proc \<times> 's \<Rightarrow> ((plc_proc \<times> 's) \<times> bool) option" where
  "start_all l pa name ps =
     do {
       (s, ok) \<leftarrow> until_failure (init_calls l pa name) (snd ps);
       if ok then set_handlers l (fst ps, s) else Some ((fst ps, s), False)
     }"

text \<open>\<^verbatim>\<open>plc_init__\<close>. The new \<^verbatim>\<open>errno\<close> flag and the arguments come back too.\<close>

definition plc_init_full ::
  "'s plc_libs \<Rightarrow> string \<Rightarrow> string list \<Rightarrow> bool \<Rightarrow> bool \<Rightarrow> plc_proc \<times> 's \<Rightarrow> ((plc_proc \<times> 's) \<times> bool \<times> string list \<times> int) option" where
  "plc_init_full l mod_name argv atomic e ps =
     (if fully_initialised (fst ps) then Some (ps, e, argv, -1)
      else do {
        (s1, r) \<leftarrow> (if registered_exit_func (fst ps) then Some (snd ps, 0) else register_exit l (snd ps));
        if r < 0 then Some ((fst ps, s1), e, argv, -1)
        else do {
          let p1 = (fst ps)\<lparr>registered_exit_func := True\<rparr>;
          (e1, pa, argv1, r) \<leftarrow> plc_parse_args True e (init_args (plc_name p1)) argv;
          let p2 = p1\<lparr>plc_name := the (pa_mod_name pa)\<rparr>;
          if r < 0 then Some ((p2, s1), e1, argv1, -1)
          else do {
            let name = (case plc_name p2 of Some n \<Rightarrow> n | None \<Rightarrow> mod_name);
            ((p3, s2), ok) \<leftarrow> start_all l pa name (p2\<lparr>plc_name := Some name\<rparr>, s1);
            if ok then Some ((p3\<lparr>fully_initialised := True\<rparr>, s2), e1, argv1, 0)
            else if atomic then do { (ps4, _) \<leftarrow> plc_done l (p3, s2); Some (ps4, e1, argv1, -1) }
            else Some ((p3, s2), e1, argv1, -1)
          }
        }
      })"

definition plc_init where "plc_init l mod_name argv e ps = plc_init_full l mod_name argv True e ps"
definition plc_init_try where "plc_init_try l mod_name argv e ps = plc_init_full l mod_name argv False e ps"

definition plc_scan_beg :: "'s plc_libs \<Rightarrow> plc_proc \<times> 's \<Rightarrow> ('s \<times> bool) option" where
  "plc_scan_beg l ps =
     (if fully_initialised (fst ps) then all_calls [rt_scan_beg l, period_scan_beg l, synch_scan_beg_fn l] (snd ps)
      else Some (snd ps, False))"

definition plc_scan_end :: "'s plc_libs \<Rightarrow> plc_proc \<times> 's \<Rightarrow> ('s \<times> bool) option" where
  "plc_scan_end l ps =
     (if fully_initialised (fst ps) then all_calls [synch_scan_end_fn l, period_scan_end l] (snd ps)
      else Some (snd ps, False))"

definition plc_module_name :: "plc_proc \<Rightarrow> string option" where
  "plc_module_name p = (if fully_initialised p then plc_name p else None)"

text \<open>The handlers of the signals: the old handler comes back, everything is stopped, and the signal is raised again
  unless the old handler could not be restored.\<close>

definition signal_handler :: "'s plc_libs \<Rightarrow> plc_signal \<Rightarrow> plc_proc \<times> 's \<Rightarrow> ((plc_proc \<times> 's) \<times> bool) option" where
  "signal_handler l sig ps =
     do {
       (s1, r) \<leftarrow> signal_action l sig (snd ps);
       (ps2, _) \<leftarrow> plc_done l (fst ps, s1);
       Some (ps2, \<not> r < 0)
     }"

end
