(* ===== verification/PlcSetup.thy ===== *)
theory PlcSetup
  imports Plc
begin

text \<open>
  Setting up and shutting down the whole system, \<^verbatim>\<open>lib/plc_setup.c\<close>: the libraries in their order, launching the
  modules of the configuration, and the way back when something fails.
\<close>

section \<open>Configuration values\<close>

definition parse_conf_i32 ::
  "conffile \<Rightarrow> bool \<Rightarrow> string option \<Rightarrow> string \<Rightarrow> int \<Rightarrow> int \<Rightarrow> int \<Rightarrow> int \<Rightarrow> bool \<Rightarrow> bool \<times> int" where
  "parse_conf_i32 cf e sect name var mn mx def use_default =
     (let def = (if \<not> use_default then var else def);
          (e1, v, _) = (if sect = None then conffile_get_value_i32 cf e (Some name) mn mx def
                        else conffile_get_value_sec_i32 cf e sect (Some name) mn mx def)
      in (e1, v))"

definition plc_parse_conf :: "conffile \<Rightarrow> bool \<Rightarrow> int option \<Rightarrow> bool \<Rightarrow> bool \<times> int option" where
  "plc_parse_conf cf e module_max_count use_default =
     (case module_max_count of
        None \<Rightarrow> (e, None)
      | Some v \<Rightarrow> map_prod id Some (parse_conf_i32 cf e (Some ''PLC'') ''max_modules'' v 1 INT_MAX 20 use_default))"

section \<open>Launching the modules\<close>

text \<open>The array of arguments of one module: the command and its arguments from the row, then those the launcher adds.
  \<open>None\<close> is a row whose words cannot be read.\<close>

fun command_words :: "conffile \<Rightarrow> int \<Rightarrow> nat \<Rightarrow> nat \<Rightarrow> string list option" where
  "command_words cf r 0 c = Some []"
| "command_words cf r (Suc n) c =
     (case conffile_get_table_sec cf (Some ''PLC'') (Some ''module'') r (int c) of
        None \<Rightarrow> None
      | Some w \<Rightarrow> map_option ((#) w) (command_words cf r n (Suc c)))"

definition plcid_arg :: "int \<Rightarrow> string list" where
  "plcid_arg plcid = (if 0 \<le> plcid then [strdup2 CLO_plc_id (decimal (nat plcid))] else [])"

definition module_args :: "conffile \<Rightarrow> int \<Rightarrow> string \<Rightarrow> string option \<Rightarrow> string option \<Rightarrow> int \<Rightarrow> string list option" where
  "module_args cf r mod_name conffile log_file plcid =
     (let module_argc = conffile_get_table_rowlen_sec cf (Some ''PLC'') (Some ''module'') r - 2
      in map_option
           (\<lambda>ws. ws @ strdup2 CLO_module_name mod_name
              # (case conffile of None \<Rightarrow> [] | Some f \<Rightarrow> [strdup2 CLO_config_file f])
              @ (case log_file of None \<Rightarrow> [] | Some f \<Rightarrow> [strdup2 CLO_log_file f]) @ plcid_arg plcid)
           (command_words cf r (nat (module_argc + 1)) 1))"

text \<open>The loop over the rows from \<open>r\<close> on, with what \<^verbatim>\<open>fork\<close> answers in the parent; the modules that were
  launched, and whether all were. The process that was forked becomes the command.\<close>

fun launch_rows ::
  "conffile \<Rightarrow> string option \<Rightarrow> int \<Rightarrow> string option \<Rightarrow> int list \<Rightarrow> nat \<Rightarrow> int \<Rightarrow> (string \<times> string list) list \<times> bool" where
  "launch_rows cf conffile plcid log_file forks 0 r = ([], True)"
| "launch_rows cf conffile plcid log_file forks (Suc n) r =
     (case conffile_get_table_sec cf (Some ''PLC'') (Some ''module'') r 0 of
        None \<Rightarrow> launch_rows cf conffile plcid log_file forks n (r + 1)
      | Some mod_name \<Rightarrow>
          (case (conffile_get_table_sec cf (Some ''PLC'') (Some ''module'') r 1,
                 module_args cf r mod_name conffile log_file plcid, forks) of
             (Some exec_command, Some argv, pid # pids) \<Rightarrow>
               if pid < 0 then ([], False)
               else (case launch_rows cf conffile plcid log_file pids n (r + 1) of
                       (ls, ok) \<Rightarrow> ((exec_command, argv) # ls, ok))
           | _ \<Rightarrow> ([], False)))"

definition launched ::
  "conffile \<Rightarrow> string option \<Rightarrow> int \<Rightarrow> string option \<Rightarrow> int list \<Rightarrow> (string \<times> string list) list \<times> bool" where
  "launched cf conffile plcid log_file forks =
     launch_rows cf conffile plcid log_file forks
       (nat (conffile_get_table_rows_sec cf (Some ''PLC'') (Some ''module''))) 0"

section \<open>Setting up\<close>

text \<open>The functions of the setup, with the configuration that \<^verbatim>\<open>conffile_setup\<close> leaves.\<close>

record 's plc_setup_libs = "'s plc_libs" +
  plc_log_setup :: "int \<Rightarrow> string \<Rightarrow> string \<Rightarrow> 's call"
  conffile_setup_fn :: "string option \<Rightarrow> 's call"
  the_conf :: "'s \<Rightarrow> conffile"
  conf_errno :: "'s \<Rightarrow> bool"
  cmm_setup_fn :: "int \<Rightarrow> 's call"
  gmm_setup_fn :: "'s call"
  rt_setup :: "'s call"
  synch_setup_fn :: "int \<Rightarrow> 's call"
  period_setup :: "'s call"
  state_setup_fn :: "'s call"
  launch :: "(string \<times> string list) list \<Rightarrow> 's \<Rightarrow> 's"
  fork_pids :: "'s \<Rightarrow> int list"
  shutdown_all_modules :: "'s call"
  plc_run_fn :: "'s call"
  state_shutdown_fn :: "'s call"
  period_shutdown :: "'s call"
  synch_shutdown_fn :: "'s call"
  rt_shutdown :: "'s call"
  gmm_shutdown_fn :: "'s call"
  cmm_shutdown_fn :: "'s call"
  conffile_shutdown :: "'s call"
  plc_log_shutdown :: "'s call"

definition plc_stop_modules :: "('s, 'b) plc_setup_libs_scheme \<Rightarrow> 's call" where
  "plc_stop_modules l = shutdown_all_modules l"

definition plc_launch_modules ::
  "('s, 'b) plc_setup_libs_scheme \<Rightarrow> string option \<Rightarrow> int \<Rightarrow> string option \<Rightarrow> 's call" where
  "plc_launch_modules l conffile plcid log_file s =
     (case launched (the_conf l s) conffile plcid log_file (fork_pids l s) of
        (ls, ok) \<Rightarrow>
          if ok then Some (launch l ls s, 0)
          else map_option (\<lambda>(s1, _). (s1, -1)) (plc_stop_modules l (launch l ls s)))"

definition setup_args :: plc_args where
  "setup_args = \<lparr>pa_location = None, pa_local_key = None, pa_plc_id = Some (-1), pa_conffile = Some None, pa_mod_name = None,
     pa_log_level = Some DEF_LOG_LEVEL, pa_log_file = Some (Some DEF_LOG_FILE), pa_force_init = None\<rparr>"

text \<open>The choice of the configuration file, \<open>None\<close> when the call gives up.\<close>

definition choose_conffile :: "string option \<Rightarrow> string option \<Rightarrow> string option option" where
  "choose_conffile conffile_prm1 conffile_prm2 =
     (if conffile_prm1 \<noteq> None \<and> conffile_prm2 \<noteq> None \<and> conffile_prm1 = conffile_prm2 then None
      else let c = Some DEF_CONFIG_FILE;
               c = (if conffile_prm1 \<noteq> None then conffile_prm1 else c);
               c = (if conffile_prm2 \<noteq> None then conffile_prm1 else c)
           in Some c)"

text \<open>Calls with their way back: when one fails, those before it are undone, the last one first.\<close>

fun with_undo :: "('s call \<times> 's call) list \<Rightarrow> 's call list \<Rightarrow> 's \<Rightarrow> ('s \<times> bool) option" where
  "with_undo [] undo s = Some (s, True)"
| "with_undo ((f, back) # fs) undo s =
     do {
       (s1, r) \<leftarrow> f s;
       if r < 0 then do { (s2, _) \<leftarrow> all_calls undo s1; Some (s2, False) }
       else with_undo fs (back # undo) s1
     }"

text \<open>The number of modules is read as soon as there is a configuration.\<close>

definition setup_conf_calls ::
  "('s, 'b) plc_setup_libs_scheme \<Rightarrow> plc_args \<Rightarrow> string option \<Rightarrow> ('s call \<times> 's call) list" where
  "setup_conf_calls l pa conffile =
     [(plc_log_setup l (the (pa_log_level pa)) ''plc_setup'' (the (the (pa_log_file pa))), plc_log_shutdown l),
      (conffile_setup_fn l conffile, conffile_shutdown l)]"

definition setup_mem_calls ::
  "('s, 'b) plc_setup_libs_scheme \<Rightarrow> plc_args \<Rightarrow> string option \<Rightarrow> int \<Rightarrow> ('s call \<times> 's call) list" where
  "setup_mem_calls l pa conffile max_module_count =
     [(cmm_setup_fn l (the (pa_plc_id pa)), cmm_shutdown_fn l),
      (gmm_setup_fn l, gmm_shutdown_fn l),
      (rt_setup l, rt_shutdown l),
      (synch_setup_fn l max_module_count, synch_shutdown_fn l),
      (period_setup l, period_shutdown l),
      (state_setup_fn l, state_shutdown_fn l),
      (plc_launch_modules l conffile (the (pa_plc_id pa)) (the (pa_log_file pa)), plc_stop_modules l)]"

definition setup_all ::
  "('s, 'b) plc_setup_libs_scheme \<Rightarrow> plc_args \<Rightarrow> string option \<Rightarrow> 's \<Rightarrow> ('s \<times> bool) option" where
  "setup_all l pa conffile s =
     do {
       (s1, ok) \<leftarrow> with_undo (setup_conf_calls l pa conffile) [] s;
       if \<not> ok then Some (s1, False)
       else let max_module_count = the (snd (plc_parse_conf (the_conf l s1) (conf_errno l s1) (Some 0) True))
            in with_undo (setup_mem_calls l pa conffile max_module_count) [conffile_shutdown l, plc_log_shutdown l] s1
     }"

definition plc_setup :: "('s, 'b) plc_setup_libs_scheme \<Rightarrow> string list \<Rightarrow> string option \<Rightarrow> bool \<Rightarrow> 's \<Rightarrow> ('s \<times> int) option" where
  "plc_setup l argv conffile_prm1 e s =
     do {
       (e1, pa, _, _) \<leftarrow> plc_parse_args False e setup_args argv;
       (case choose_conffile conffile_prm1 (the (pa_conffile pa)) of
          None \<Rightarrow> Some (s, -1)
        | Some conffile \<Rightarrow>
            do {
              (s1, ok) \<leftarrow> setup_all l pa conffile s;
              if \<not> ok then Some (s1, -1)
              else do {
                (s2, _) \<leftarrow> plc_run_fn l s1;
                (s3, _) \<leftarrow> all_calls (done_calls (plc_libs.truncate l)) s2;
                Some (s3, 0)
              }
            })
     }"

definition shutdown_calls :: "('s, 'b) plc_setup_libs_scheme \<Rightarrow> 's call list" where
  "shutdown_calls l = [plc_stop_modules l, state_shutdown_fn l, period_shutdown l, synch_shutdown_fn l, rt_shutdown l,
     gmm_shutdown_fn l, cmm_shutdown_fn l, conffile_shutdown l, plc_log_shutdown l]"

definition plc_shutdown ::
  "('s, 'b) plc_setup_libs_scheme \<Rightarrow> string list \<Rightarrow> bool \<Rightarrow> plc_proc \<times> 's \<Rightarrow> ((plc_proc \<times> 's) \<times> int) option" where
  "plc_shutdown l argv e ps =
     do {
       ((p1, s1), _, _, r1) \<leftarrow> plc_init_try (plc_libs.truncate l) ''plc_shutdown'' argv e ps;
       (s2, ok) \<leftarrow> all_calls (shutdown_calls l) s1;
       (ps3, r3) \<leftarrow> plc_done (plc_libs.truncate l) (p1, s2);
       Some (ps3, if r1 = 0 \<and> ok \<and> r3 = 0 then 0 else -1)
     }"

end
