(* ===== verification/PlcProps.thy ===== *)
theory PlcProps
  imports PlcSetup
begin

text \<open>
  What starting promises: the arguments a launched module gets are those it reads (\<open>plc_launched_arguments\<close>). And what it
  does not: the handlers of the signals are installed once only (\<open>handlers_not_set_again\<close>).
\<close>

section \<open>Arguments\<close>

definition plain_arg :: "string \<Rightarrow> bool" where "plain_arg s \<longleftrightarrow> \<not> starts_with CLO_LEADER s"

lemma starts_with_append [simp]: "starts_with p (p @ s)"
  by (simp add: starts_with_def)

lemma starts_with_prefix: "starts_with (p @ q) s \<Longrightarrow> starts_with p s"
  by (auto simp: starts_with_def dest: arg_cong [where f = "take (length p)"])

lemma plain_no_option: "plain_arg s \<Longrightarrow> \<not> starts_with (CLO_LEADER @ q) s" "plain_arg s \<Longrightarrow> s \<noteq> CLO_LEADER @ q"
  by (auto simp: plain_arg_def dest: starts_with_prefix)

lemma plain_numbers:
  assumes "plain_arg s"
  shows "number_option e ptr CLO_privmap_key s mn mx = (e, None)" "number_option e ptr CLO_plc_id s mn mx = (e, None)"
    "number_option e ptr CLO_log_level s mn mx = (e, None)"
  using plain_no_option(1) [OF assms]
  by (simp_all add: number_option_def CLO_privmap_key_def CLO_plc_id_def CLO_log_level_def)

lemma plain_strings:
  assumes "plain_arg s"
  shows "string_option p CLO_config_file s = None" "string_option p CLO_module_name s = None"
    "string_option p CLO_log_file s = None"
  using plain_no_option(1) [OF assms]
  by (simp_all add: string_option_def CLO_config_file_def CLO_module_name_def CLO_log_file_def)

lemma plain_words:
  assumes "plain_arg s"
  shows "(s = CLO_loc_local) = False" "(s = CLO_loc_isolate) = False" "(s = CLO_loc_shared) = False"
    "(s = CLO_force_init) = False"
  unfolding CLO_loc_local_def CLO_loc_isolate_def CLO_loc_shared_def CLO_force_init_def
  using plain_no_option(2) [OF assms] by blast+

lemma parse_plain:
  assumes "plain_arg s"
  shows "parse_arg e pa s = Some (e, Left_alone)"
  unfolding parse_arg_def plain_words [OF assms] plain_numbers [OF assms] plain_strings [OF assms]
  using assms by (simp add: plain_arg_def)

lemma parse_args_plain:
  "\<forall>a\<in>set as. plain_arg a \<Longrightarrow> plc_parse_args r e pa (as @ bs) =
     map_option (\<lambda>(e2, pa2, bs2, x). (e2, pa2, as @ bs2, x)) (plc_parse_args r e pa bs)"
proof (induction "as")
  case (Cons a "as")
  then show ?case by (cases "plc_parse_args r e pa bs") (auto simp: parse_plain)
qed (cases "plc_parse_args r e pa bs"; auto)

lemmas option_simps = parse_arg_def number_option_def string_option_def starts_with_def CLO_defs

lemma parse_module:
  assumes "pa_mod_name pa = Some x"
  shows "parse_arg e pa (CLO_module_name @ s) = Some (e, Taken (pa\<lparr>pa_mod_name := Some (Some s)\<rparr>))"
  using assms by (simp add: option_simps)

lemma parse_conffile:
  assumes "pa_conffile pa = Some x"
  shows "parse_arg e pa (CLO_config_file @ s) = Some (e, Taken (pa\<lparr>pa_conffile := Some (Some s)\<rparr>))"
  using assms by (simp add: option_simps)

lemma parse_logfile:
  assumes "pa_log_file pa = Some x"
  shows "parse_arg e pa (CLO_log_file @ s) = Some (e, Taken (pa\<lparr>pa_log_file := Some (Some s)\<rparr>))"
  using assms by (simp add: option_simps)

lemma parse_plc_id:
  assumes "pa_plc_id pa = Some x" "0 < n" "n \<le> INT_MAX"
  shows "parse_arg False pa (CLO_plc_id @ decimal (nat n)) = Some (False, Taken (pa\<lparr>pa_plc_id := Some n\<rparr>))"
proof -
  have "string_str_to_int False (Some (decimal (nat n))) 1 INT_MAX = (False, Some n)"
    using decimal_read [of "nat n" 1 INT_MAX] assms(2,3) by (simp add: string_str_to_int_def INT_MAX_def)
  then show ?thesis using assms(1) by (simp add: option_simps)
qed

lemma parse_local_key:
  assumes "pa_local_key pa = Some x" "0 < n" "n \<le> INT_MAX"
  shows "parse_arg False pa (CLO_privmap_key @ decimal (nat n)) = Some (False, Taken (pa\<lparr>pa_local_key := Some n\<rparr>))"
proof -
  have "string_str_to_int False (Some (decimal (nat n))) 1 INT_MAX = (False, Some n)"
    using decimal_read [of "nat n" 1 INT_MAX] assms(2,3) by (simp add: string_str_to_int_def INT_MAX_def)
  then show ?thesis using assms(1) by (simp add: option_simps)
qed

lemma parse_local:
  "pa_location pa = Some x \<Longrightarrow> parse_arg e pa CLO_loc_local = Some (e, Taken (pa\<lparr>pa_location := Some loc_local\<rparr>))"
  by (simp add: parse_arg_def)

lemma command_words_list:
  assumes "\<And>c. conffile_get_table_sec cf (Some ''PLC'') (Some ''module'') r c = list_item ws c" "c + n \<le> length ws"
  shows "command_words cf r n c = Some (take n (drop c ws))"
  using assms(2)
proof (induction n arbitrary: c)
  case (Suc n)
  have "conffile_get_table_sec cf (Some ''PLC'') (Some ''module'') r (int c) = Some (ws ! c)"
    using assms(1) [of "int c"] Suc.prems by (simp add: list_item_def)
  moreover have "command_words cf r n (Suc c) = Some (take n (drop (Suc c) ws))"
    using Suc.IH [of "Suc c"] Suc.prems by simp
  moreover have "drop c ws = ws ! c # drop (Suc c) ws" using Suc.prems by (simp add: Cons_nth_drop_Suc)
  ultimately show ?case by simp
qed simp

text \<open>C5. A module is launched with its command, the arguments of its row, and what it needs to find the system. When none of
  the words of the row begins with \<^verbatim>\<open>--PLC\<close> and the key is positive, the arguments added are those the module
  reads at its start: its own name, the same configuration and log files and the same key; all else stays at its default, and the
  module is left with its own arguments.\<close>

theorem plc_launched_arguments:
  assumes "get_tableptr cf (Some ''PLC'') (Some ''module'') = Some table" "i < length table" "table ! i = name # exec # ws"
    and "plain_arg exec" "\<forall>w\<in>set ws. plain_arg w" "0 < plcid" "plcid \<le> INT_MAX"
  shows "\<exists>argv. module_args cf (int i) name (Some f) (Some g) plcid = Some argv \<and>
    plc_parse_args True False (init_args None) argv =
      Some (False, (init_args None)\<lparr>pa_plc_id := Some plcid, pa_conffile := Some (Some f), pa_mod_name := Some (Some name),
        pa_log_file := Some (Some g)\<rparr>, (exec # ws) @ [[], [], [], []], 0)"
proof -
  have row: "conffile_get_table_sec cf (Some ''PLC'') (Some ''module'') (int i) c = list_item (name # exec # ws) c" for c
    using assms(1-3) by (simp add: conffile_get_table_sec_def list_item_def)
  have len: "conffile_get_table_rowlen_sec cf (Some ''PLC'') (Some ''module'') (int i) = int (length ws) + 2"
    using assms(1-3) by (simp add: conffile_get_table_rowlen_sec_def list_item_def list_len_def)
  let ?argv = "(exec # ws) @ [CLO_module_name @ name, CLO_config_file @ f, CLO_log_file @ g, CLO_plc_id @ decimal (nat plcid)]"
  have "command_words cf (int i) (length (exec # ws)) 1 = Some (exec # ws)"
    using command_words_list [of cf "int i" "name # exec # ws" 1 "length (exec # ws)", OF row] by simp
  moreover have "nat (int (length ws) + 1) = length (exec # ws)" by simp
  ultimately have argv: "module_args cf (int i) name (Some f) (Some g) plcid = Some ?argv"
    using assms(6) by (simp add: module_args_def len plcid_arg_def strdup2_def del: command_words.simps)
  have pl: "\<forall>a\<in>set (exec # ws). plain_arg a" using assms(4,5) by simp
  show ?thesis
    by (rule exI [of _ ?argv], rule conjI [OF argv], simp only: parse_args_plain [OF pl])
      (simp add: parse_module parse_conffile parse_logfile parse_plc_id [OF _ assms(6,7)] init_args_def)
qed

definition conf_two :: conffile where
  "conf_two = cf_empty\<lparr>cf_recs := Some [(''PLC:module'', [[''Blink'', ''./blink'', ''-v'']])]\<rparr>"

lemma plc_launched_arguments_witness:
  "\<exists>argv. module_args conf_two 0 ''Blink'' (Some ''a.conf'') (Some ''a.log'') 23 = Some argv \<and>
    plc_parse_args True False (init_args None) argv =
      Some (False, (init_args None)\<lparr>pa_plc_id := Some 23, pa_conffile := Some (Some ''a.conf''),
        pa_mod_name := Some (Some ''Blink''), pa_log_file := Some (Some ''a.log'')\<rparr>,
        [''./blink'', ''-v'', [], [], [], []], 0)"
proof -
  have t: "get_tableptr conf_two (Some ''PLC'') (Some ''module'') = Some [[''Blink'', ''./blink'', ''-v'']]"
    by code_simp
  have p: "plain_arg ''./blink''" "\<forall>w\<in>set [''-v'']. plain_arg w" by (simp_all add: plain_arg_def starts_with_def CLO_LEADER_def)
  show ?thesis
    using plc_launched_arguments [OF t, of 0 "''Blink''" "''./blink''" "[''-v'']" 23 "''a.conf''" "''a.log''"] p
    by (simp add: INT_MAX_def)
qed

section \<open>Signal handlers\<close>

text \<open>\<^verbatim>\<open>plc_done\<close> gives the old handlers back and does not clear the marks of those that were installed: a module that
  starts once more after it has stopped installs none.\<close>

lemma handlers_not_set_again:
  assumes "set_handlers l ps = Some ((p1, s1), True)" "plc_done l (p1, s1) = Some ((p2, s2), r)"
  shows "set_handlers l (p2, s3) = Some ((p2, s3), True)"
proof -
  have "registered_sigterm_handler p1" "registered_sigint_handler p1"
    using assms(1) by (auto simp: set_handlers_def Let_def split: bind_splits if_splits)
  moreover have "p2 = p1\<lparr>plc_name := None, fully_initialised := False\<rparr>"
    using assms(2) by (auto simp: plc_done_def split: bind_splits)
  ultimately show ?thesis by (simp add: set_handlers_def)
qed

end
