(* ===== verification/Spec2Isabelle.thy ===== *)
theory Spec2Isabelle
  imports SynchNet ModbusRtuTrip ModbusMasterRtu ModbusScan PlcProps
begin

text \<open>
  A model of the MatPLC, a programmable logic controller made of independent processes: the
  libraries that its modules share memory through, synchronise by and are stopped by, and the modules for
  Modbus, a master and a slave, with the protocol below them.

  \<^bold>\<open>The program.\<close> The modules of a controller (logic, input and output, display) are processes that
  share memory. The configuration memory manager (\<^verbatim>\<open>lib/cmm\<close>) lays out one segment as a chain of typed,
  named blocks. The global memory manager (\<^verbatim>\<open>lib/gmm\<close>) keeps there one record per point, a
  group of bits in one word of a second segment, the global map, which is the image of the plant. A
  module works on a private copy of the map: an update exchanges the two, bit by bit, in the direction the
  write mask gives. The synchronisation library (\<^verbatim>\<open>lib/synch\<close>) says in which order the modules scan:
  its places are the values of one semaphore set, and a synchronisation point of a module is a
  transition of a Petri net over them. The state library (\<^verbatim>\<open>lib/state\<close>) runs and stops modules by
  tokens in two places of that net. The configuration file (\<^verbatim>\<open>lib/conffile\<close>) says which points there are,
  where they are, which module owns them and what the net is; the setup program reads it, creates the segments
  and fills them. An input and output module (\<^verbatim>\<open>lib/io\<close>) has a table of mappings between points and
  addresses of some hardware, and scans: it updates, reads the inputs, writes the outputs. The Modbus modules
  (\<^verbatim>\<open>io/modbus\<close>) are the hardware behind that table: the master asks slaves over a serial line, and the slave answers
  masters from its points.

  \<^bold>\<open>The theories\<close>, in the order of the code:

  \<^item> \<^verbatim>\<open>Prelude\<close>: machine integers, a memory of bytes with 32-bit fields, and C strings in it.
  \<^item> \<^verbatim>\<open>Cmm\<close>: the segment and the allocator's loops over it, byte by byte (\<^verbatim>\<open>cmm.c\<close>). \<^verbatim>\<open>CmmTiling\<close> says
    what an orderly segment is (a chain of blocks without gaps), \<^verbatim>\<open>CmmAlloc\<close> and \<^verbatim>\<open>CmmFree\<close> show what
    allocating and freeing do to it. \<^verbatim>\<open>CmmApi\<close> holds the public functions and the contract of a store of
    named blocks (locale \<^verbatim>\<open>block_store\<close>), which the allocator satisfies (interpretation \<^verbatim>\<open>store\<close>) and on which the point records
    rest; \<^verbatim>\<open>CmmData\<close> what a client may assume that writes into its block. \<^verbatim>\<open>CmmSetup\<close> creates, attaches
    and removes the segment and its mutex (\<^verbatim>\<open>cmm_setup.c\<close>, \<^verbatim>\<open>shmem_util.c\<close>, \<^verbatim>\<open>mutex_util.c\<close>); \<^verbatim>\<open>CmmProps\<close> collects the properties.
  \<^item> \<^verbatim>\<open>GmmPoint\<close>: handles of points, reading and writing them. \<^verbatim>\<open>GmmConf\<close>: the records of the
    configured points in the segment. \<^verbatim>\<open>GmmMap\<close>: updates, write masks, and several modules at work.
    \<^verbatim>\<open>GmmInit\<close>: starting and stopping in a module (\<^verbatim>\<open>gmm.c\<close>, \<^verbatim>\<open>gmm_local.c\<close>, \<^verbatim>\<open>gmm_shared.c\<close>).
  \<^item> \<^verbatim>\<open>DsUtil\<close>, \<^verbatim>\<open>StringUtil\<close>: lists, dictionaries with binary search (shown to be finite maps), and
    numbers read from text (\<^verbatim>\<open>lib/misc\<close>).
  \<^item> \<^verbatim>\<open>Conffile\<close>: the scanner and parser of the configuration, included files, and its access functions
    (\<^verbatim>\<open>conffile.c\<close>).
  \<^item> \<^verbatim>\<open>PointLine\<close>, \<^verbatim>\<open>GmmLoad\<close>, \<^verbatim>\<open>GmmSetup\<close>: reading the line of a point, loading all points and aliases, and
    setting up and shutting down the global memory manager (\<^verbatim>\<open>gmm_setup.c\<close>, with the configuration values of
    \<^verbatim>\<open>cmm.c\<close> and \<^verbatim>\<open>gmm.c\<close>).
  \<^item> \<^verbatim>\<open>SynchSem\<close>: semaphore sets (\<^verbatim>\<open>synch_sem.c\<close>), with their linked list of sleeping processes in shared memory.
    \<^verbatim>\<open>SynchSemList\<close> shows that the links are a list, \<^verbatim>\<open>SynchSemWake\<close> what a call does to the set and
    which sleepers it wakes, \<^verbatim>\<open>SynchSemProps\<close> the properties.
  \<^item> \<^verbatim>\<open>Synch\<close>: places, transitions and synchronisation points (\<^verbatim>\<open>synch.c\<close>). \<^verbatim>\<open>SynchArcs\<close>: the array of arcs as a
    list; \<^verbatim>\<open>SynchPetri\<close>: the net they stand for; \<^verbatim>\<open>SynchProps\<close>: the properties. \<^verbatim>\<open>SynchSetup\<close> reads
    the net from the configuration (\<^verbatim>\<open>synch_setup.c\<close>) and \<^verbatim>\<open>SynchNet\<close> shows which net that is.
  \<^item> \<^verbatim>\<open>State\<close>: run, stop, full stop and shutdown of modules (\<^verbatim>\<open>state.c\<close>, \<^verbatim>\<open>state_setup.c\<close>); \<^verbatim>\<open>StateProps\<close> with the loop that empties
    a place (locale \<^verbatim>\<open>drain_loop\<close>, interpreted on the code's step as \<^verbatim>\<open>run_stop\<close>).
  \<^item> \<^verbatim>\<open>ModbusCrc\<close>: the checksums of Modbus RTU; \<^verbatim>\<open>ModbusRtu\<close>: its receive buffer, frames and table of nodes
    (\<^verbatim>\<open>mb_rtu.c\<close>, \<^verbatim>\<open>mb_ds_util.h\<close>); \<^verbatim>\<open>ModbusRtuProps\<close> and \<^verbatim>\<open>ModbusRtuTrip\<close>: what is read is valid, and what
    one side writes the other reads.
  \<^item> \<^verbatim>\<open>ModbusMaster\<close>: queries, transactions and their retries, reading and writing bits and registers
    (\<^verbatim>\<open>mb_master.c\<close>), over a record of the functions of the layer below; \<^verbatim>\<open>ModbusCodes\<close>: what the frames mean;
    \<^verbatim>\<open>ModbusLink\<close>: the contract of the layer below (locale \<^verbatim>\<open>modbus_layer1\<close>) and the transactions on it;
    \<^verbatim>\<open>ModbusMasterRtu\<close>: the RTU module as that layer (interpretation \<^verbatim>\<open>rtu\<close>) and the master's properties.
  \<^item> \<^verbatim>\<open>IoMap\<close>: the table of mappings, the scan of a master and the look-ups of a slave (\<^verbatim>\<open>io.c\<close>), over a
    record of the functions of the hardware (\<^verbatim>\<open>io_hw.h\<close>); \<^verbatim>\<open>IoProps\<close>: what a scan does on any hardware that
    comes back (locale \<^verbatim>\<open>io_device\<close>); \<^verbatim>\<open>IoConfig\<close>: the table is what the rows of the configuration say.
  \<^item> \<^verbatim>\<open>ModbusSlave\<close>: the slave module (\<^verbatim>\<open>modbus_s.c\<close>, \<^verbatim>\<open>mb_slave.c\<close>), itself a hardware of \<^verbatim>\<open>io.c\<close>
    (interpretation \<^verbatim>\<open>slave_io\<close>); \<^verbatim>\<open>ModbusSlaveProps\<close>: what it answers. \<^verbatim>\<open>ModbusWire\<close>: the slave's loop as the layer below a master;
    \<^verbatim>\<open>ModbusReturn\<close>: the contract of a layer that always comes back (locale \<^verbatim>\<open>returning_layer1\<close>,
    interpretation \<^verbatim>\<open>wire\<close>).
  \<^item> \<^verbatim>\<open>ModbusIo\<close>: the master module (\<^verbatim>\<open>modbus_m.c\<close>); \<^verbatim>\<open>ModbusIoProps\<close>: on every layer that comes back it
    is a hardware of \<^verbatim>\<open>io.c\<close> (sublocale \<^verbatim>\<open>io\<close>); \<^verbatim>\<open>ModbusScan\<close>: the module as a whole, with any line at all as the
    layer below (interpretation \<^verbatim>\<open>line\<close>) and with the slave of this repository.
  \<^item> \<^verbatim>\<open>Plc\<close>, \<^verbatim>\<open>PlcSetup\<close>: the arguments of a module, starting and stopping all libraries in it, setting up
    and shutting down the controller and launching its modules (\<^verbatim>\<open>plc.c\<close>, \<^verbatim>\<open>plc_setup.c\<close>), over a record of the functions
    of the libraries; \<^verbatim>\<open>PlcProps\<close>: a launched module reads the arguments it is meant to get.

  \<^bold>\<open>Correspondence.\<close> A definition has the name of the C function it models, or that of the loop body
  or part of a function it models. The segment is a function from offsets to bytes, laid out as the C
  structures are on a little-endian machine with 32-bit integers; the maps are lists of 32-bit words. The
  static variables of a library are a record (\<^verbatim>\<open>cmm_proc\<close>, \<^verbatim>\<open>gmm\<close>, \<^verbatim>\<open>conffile\<close>, \<^verbatim>\<open>synch_lib\<close>, \<^verbatim>\<open>state_lib\<close>, \<^verbatim>\<open>rtu_lib\<close>, \<^verbatim>\<open>plc_proc\<close>) that the
  operations take and return. Structures that the code links by pointers in shared memory are functions from
  their offsets to records. What the operating
  system keeps is state as well: the segments, the mutexes and the attachments of a process in \<^verbatim>\<open>ipc_os\<close>, the sets of semaphores
  in \<^verbatim>\<open>synch_world\<close>, the line in \<^verbatim>\<open>rtu_line\<close>. A null pointer is \<^verbatim>\<open>None\<close>. An outer \<^verbatim>\<open>None\<close> as the result of an operation is a call that does
  not return: the process exits, loops for ever, waits for something that never comes, or does what C leaves
  undefined. The calls that hold a mutex are single steps, and the steps of several modules interleave in any
  order (\<^verbatim>\<open>gmm_step\<close>, \<^verbatim>\<open>sem_step\<close>).

  \<^bold>\<open>Loops.\<close> Loops over the chain of blocks, over the point records and over the marks are
  \<^verbatim>\<open>partial_function (option)\<close>; on an orderly segment they are shown to end. Included files nest at most
  as deep as there are files that can be opened, which is shown (\<^verbatim>\<open>conffile_reading_ends\<close>); the
  number that bounds the nesting in \<^verbatim>\<open>parse_file\<close> may be any greater one. So are the loops over the linked list
  of sleeping processes (\<^verbatim>\<open>insert_walk\<close>, \<^verbatim>\<open>release_scan\<close>, \<^verbatim>\<open>release_rounds\<close>, \<^verbatim>\<open>post_signals\<close>), which end because the links are a list in
  every state that can be reached (\<^verbatim>\<open>sem_inv\<close>). Loops that wait for the line consume the list of what it answers: a call that still waits when
  the list is used up is \<^verbatim>\<open>None\<close>. The scan of an input and output module is given by the list of what the
  other modules do between its updates, one element per round.

  \<^bold>\<open>What the lemmas show.\<close> Allocation is best fit, keeps the segment orderly and disturbs no other block;
  freeing does too if the block's back link is not stale, and the code does leave stale links, so that a
  sequence of legal calls makes the allocator hand out memory in use (\<^verbatim>\<open>cmm_overlap\<close>). Points read back what
  was written, do not touch each other, and through any interleaving of modules a bit is changed by its
  owner only. Loading any configuration gives points that do not overlap. Setting up the segments either adds a segment and a
  mutex or leaves both kinds as they were, but for an attachment that the code forgets. The linked list, the undoing and the restarts of a semaphore call do what an abstract set of
  semaphores does, and no wake-up is lost; a synchronisation point fires its transition of the net, and the
  net is the one of the configuration. Stopping comes to an end. Frames of Modbus RTU come back in whatever pieces they
  arrive, and a burst of errors within sixteen bits is found. Each try of a transaction of the master has an
  id of its own, counted up (\<^verbatim>\<open>modbus_transaction_outcome\<close>, over a layer that notes what it is asked). Its transactions never leave their buffers
  whatever the line answers, and its scan goes on; the table of mappings is what the configuration says; a scan
  of the master brings the registers of the slave into the global map, while a scan cannot write to
  it (\<^verbatim>\<open>modbus_output_rejected\<close>).

  \<^bold>\<open>Not modelled.\<close> Messages to the log and to the terminal, running out of memory in small allocations, times and
  floating-point numbers (the C library's conversion is an argument where it decides a branch; the parameters of the networks of
  the Modbus master are times), the isolated variant of the memory manager and its protocol, scan periods and timers, Modbus over TCP and in ASCII, and the other modules and
  programs of the repository: other hardware, the compilers of IEC 61131-3 languages, displays. What the
  operating system decides (whether a key is free, whether a mutex can be created, what a fresh
  allocation contains, which names the shell expands, what arrives on a line) is an argument.
\<close>

end
